(* ===== verification/Prelude.thy ===== *)
theory Prelude
  imports "HOL-Library.Word"
begin

unbundle bit_operations_syntax

text \<open>
  The shared vocabulary of the swagOS development.

  Kernel code is modelled as state transformers that may fail: an operation on a state of
  type \<open>'s\<close> with result type \<open>'a\<close> is a function \<open>'s \<Rightarrow> fault + 'a \<times> 's\<close>. A fault ends the
  execution of the CPU that runs the code:
  \<^item> \<open>Panic msg\<close> is a call of \<open>panic(msg)\<close> (src/src/kernel/arch/x86_64/panic.c), which clears the
    interrupt flag and halts;
  \<^item> \<open>Spin\<close> is busy waiting on a spinlock that another CPU owns: in a run of one CPU alone the
    loop does not end;
  \<^item> \<open>Diverge\<close> is any other loop that never ends;
  \<^item> \<open>Undefined\<close> is behaviour the C standard leaves undefined (an index outside an array, a
    null dereference, the value of a function that ends without \<open>return\<close>).

  The combinators \<open>ret\<close>, \<open>bnd\<close>, \<open>seqn\<close>, \<open>gets\<close>, \<open>upd\<close>, \<open>raise\<close> and \<open>ensure\<close> compose such
  operations in the order the code runs them. The theory also holds the machine-integer
  abbreviations and the generic lemmas on words, bits and lists that several components use.
\<close>

section \<open>Machine integers\<close>

type_synonym u8 = "8 word"
type_synonym u16 = "16 word"
type_synonym u32 = "32 word"
type_synonym u64 = "64 word"

abbreviation UINT64_MAX :: u64 where "UINT64_MAX \<equiv> 0xFFFFFFFFFFFFFFFF"
abbreviation UINT32_MAX :: u32 where "UINT32_MAX \<equiv> 0xFFFFFFFF"

section \<open>Operations that may fail\<close>

datatype fault = Panic string | Spin | Diverge | Undefined

type_synonym ('s, 'a) oper = "'s \<Rightarrow> fault + 'a \<times> 's"

definition ret :: "'a \<Rightarrow> 's \<Rightarrow> fault + 'a \<times> 's" where
  "ret a s = Inr (a, s)"

definition bnd :: "('s \<Rightarrow> fault + 'a \<times> 's) \<Rightarrow> ('a \<Rightarrow> 's \<Rightarrow> fault + 'b \<times> 's) \<Rightarrow> 's \<Rightarrow> fault + 'b \<times> 's" where
  "bnd m f s = (case m s of Inl e \<Rightarrow> Inl e | Inr r \<Rightarrow> f (fst r) (snd r))"

definition seqn :: "('s \<Rightarrow> fault + 'a \<times> 's) \<Rightarrow> ('s \<Rightarrow> fault + 'b \<times> 's) \<Rightarrow> 's \<Rightarrow> fault + 'b \<times> 's" where
  "seqn m n = bnd m (\<lambda>_. n)"

definition raise :: "fault \<Rightarrow> 's \<Rightarrow> fault + 'a \<times> 's" where
  "raise e s = Inl e"

definition gets :: "('s \<Rightarrow> 'a) \<Rightarrow> 's \<Rightarrow> fault + 'a \<times> 's" where
  "gets f s = Inr (f s, s)"

definition upd :: "('s \<Rightarrow> 's) \<Rightarrow> 's \<Rightarrow> fault + unit \<times> 's" where
  "upd f s = Inr ((), f s)"

definition ensure :: "('s \<Rightarrow> bool) \<Rightarrow> fault \<Rightarrow> 's \<Rightarrow> fault + unit \<times> 's" where
  "ensure P e s = (if P s then Inr ((), s) else Inl e)"

definition lift_loop :: "('s \<Rightarrow> (fault + 'a \<times> 's) option) \<Rightarrow> 's \<Rightarrow> fault + 'a \<times> 's" where
  "lift_loop m s = (case m s of None \<Rightarrow> Inl Diverge | Some r \<Rightarrow> r)"

text \<open>A counting loop, given by the list of the values its counter takes.\<close>

fun foreach :: "'i list \<Rightarrow> ('i \<Rightarrow> 's \<Rightarrow> fault + unit \<times> 's) \<Rightarrow> 's \<Rightarrow> fault + unit \<times> 's" where
  "foreach [] body = ret ()"
| "foreach (i # is) body = seqn (body i) (foreach is body)"

named_theorems op_defs \<open>definitions of the operation combinators\<close>

lemmas op_combinators [op_defs] =
  ret_def bnd_def seqn_def raise_def gets_def upd_def ensure_def lift_loop_def

lemma bnd_Inr_iff:
  "bnd m f s = Inr (b, t) \<longleftrightarrow> (\<exists>a s'. m s = Inr (a, s') \<and> f a s' = Inr (b, t))"
  by (cases "m s") (auto simp: bnd_def)

lemma seqn_Inr_iff:
  "seqn m n s = Inr (b, t) \<longleftrightarrow> (\<exists>a s'. m s = Inr (a, s') \<and> n s' = Inr (b, t))"
  by (simp add: seqn_def bnd_Inr_iff)

lemma ret_Inr_iff [simp]: "ret a s = Inr (b, t) \<longleftrightarrow> b = a \<and> t = s"
  by (auto simp: ret_def)

lemma gets_Inr_iff [simp]: "gets f s = Inr (b, t) \<longleftrightarrow> b = f s \<and> t = s"
  by (auto simp: gets_def)

lemma upd_Inr_iff [simp]: "upd f s = Inr (b, t) \<longleftrightarrow> t = f s"
  by (auto simp: upd_def)

lemma raise_Inr_iff [simp]: "raise e s \<noteq> Inr r"
  by (simp add: raise_def)

lemma ensure_Inr_iff [simp]: "ensure P e s = Inr (b, t) \<longleftrightarrow> P s \<and> t = s"
  by (auto simp: ensure_def)

lemmas op_Inr_iff = bnd_Inr_iff seqn_Inr_iff

text \<open>Running an operation step by step.\<close>

lemma bnd_gets: "bnd (gets f) g s = g (f s) s"
  by (simp add: bnd_def gets_def)

lemma seqn_upd: "seqn (upd f) n s = n (f s)"
  by (simp add: seqn_def bnd_def upd_def)

lemma bnd_ret: "bnd (ret a) g s = g a s"
  by (simp add: bnd_def ret_def)

lemma bnd_step: "m s = Inr (a, t) \<Longrightarrow> bnd m f s = f a t"
  by (simp add: bnd_def)

lemma seqn_step: "m s = Inr (a, t) \<Longrightarrow> seqn m n s = n t"
  by (simp add: seqn_def bnd_def)

lemma bnd_fail: "m s = Inl e \<Longrightarrow> bnd m f s = Inl e"
  by (simp add: bnd_def)

lemma seqn_fail: "m s = Inl e \<Longrightarrow> seqn m n s = Inl e"
  by (simp add: seqn_def bnd_def)

lemmas op_run = bnd_gets seqn_upd bnd_ret bnd_step seqn_step bnd_fail seqn_fail

lemma foreach_append: "foreach (xs @ ys) f s = seqn (foreach xs f) (foreach ys f) s"
  by (induction xs arbitrary: s) (auto simp: op_combinators split: sum.splits)

text \<open>The rule for a counting loop with an invariant.\<close>

lemma foreach_upt_inv:
  assumes "a \<le> n" "I a s" and step: "\<And>k t. a \<le> k \<Longrightarrow> k < n \<Longrightarrow> I k t \<Longrightarrow> \<exists>u. f k t = Inr ((), u) \<and> I (Suc k) u"
  shows "\<exists>t. foreach [a..<n] f s = Inr ((), t) \<and> I n t"
  using assms(1) step
proof (induction n rule: dec_induct)
  case base
  then show ?case using assms(2) by (simp add: ret_def)
next
  case (step n)
  then obtain t where t: "foreach [a..<n] f s = Inr ((), t)" "I n t" by (meson less_SucI)
  from step.prems [OF step.hyps(1) lessI t(2)] obtain u where "f n t = Inr ((), u)" "I (Suc n) u" by blast
  with t step.hyps show ?case by (simp add: foreach_append seqn_def bnd_def ret_def)
qed

text \<open>
  An operation that implements a step of an abstract machine: under the invariant it returns, keeps the invariant and
  the parameters \<open>par\<close> of the machine, and moves the abstract state as \<open>spec\<close> says. A sequence of steps then
  implements the sequence of abstract steps.
\<close>

locale stepwise =
  fixes step :: "'c \<Rightarrow> 's \<Rightarrow> fault + unit \<times> 's" and inv :: "'s \<Rightarrow> bool" and abs :: "'s \<Rightarrow> 'a"
    and par :: "'s \<Rightarrow> 'p" and spec :: "'p \<Rightarrow> 'c \<Rightarrow> 'a \<Rightarrow> 'a"
  assumes step_refines: "inv s \<Longrightarrow> \<exists>t. step c s = Inr ((), t) \<and> inv t \<and> par t = par s \<and> abs t = spec (par s) c (abs s)"
begin

lemma steps_refine:
  "inv s \<Longrightarrow> \<exists>t. foreach cs step s = Inr ((), t) \<and> inv t \<and> par t = par s \<and> abs t = fold (spec (par s)) cs (abs s)"
proof (induction cs arbitrary: s)
  case Nil
  then show ?case by (simp add: ret_def)
next
  case (Cons c cs)
  obtain u where u: "step c s = Inr ((), u)" "inv u" "par u = par s" "abs u = spec (par s) c (abs s)"
    using step_refines [OF Cons.prems] by blast
  from Cons.IH [OF u(2)] u show ?case by (simp add: seqn_def bnd_def)
qed

end

section \<open>Words and bits\<close>

lemma and_push_bit_1_eq_0_iff:
  "(w AND push_bit n 1 = 0) \<longleftrightarrow> \<not> bit w n" if "n < LENGTH('a)" for w :: "'a::len word"
proof -
  have "w AND push_bit n 1 = (if bit w n then push_bit n 1 else 0)"
    by (rule bit_word_eqI) (auto simp: bit_simps)
  moreover have "push_bit n (1 :: 'a word) \<noteq> 0"
    using that by (metis bit_0_eq bit_push_bit_iff bit_1_0 bot_apply bot_bool_def
        diff_self_eq_0 le_refl possible_bit_word)
  ultimately show ?thesis by auto
qed

lemma bit_or_push_bit:
  "bit (w OR push_bit n 1) m \<longleftrightarrow> bit w m \<or> (m = n \<and> n < LENGTH('a))" for w :: "'a::len word"
  by (auto simp: bit_simps)

lemma bit_and_not_push_bit:
  "bit (w AND NOT (push_bit n 1)) m \<longleftrightarrow> bit w m \<and> m \<noteq> n" for w :: "'a::len word"
  by (auto simp: bit_simps dest: bit_imp_le_length)

lemma unat_plus_nowrap:
  "unat a + unat b < 2 ^ LENGTH('a) \<Longrightarrow> unat (a + b) = unat a + unat b" for a b :: "'a::len word"
  by (simp add: unat_word_ariths)

lemma unat_mult_nowrap:
  "unat a * unat b < 2 ^ LENGTH('a) \<Longrightarrow> unat (a * b) = unat a * unat b" for a b :: "'a::len word"
  by (simp add: unat_word_ariths)

lemma unat_minus_nowrap:
  "b \<le> a \<Longrightarrow> unat (a - b) = unat a - unat b" for a b :: "'a::len word"
  by (simp add: unat_sub)


lemma minus_one_u32: "(- 1 :: u32) = UINT32_MAX"
  by simp

lemma minus_one_u64: "(- 1 :: u64) = UINT64_MAX"
  by simp

lemma u32_plus_one_eq_0_iff: "x + 1 = (0 :: u32) \<longleftrightarrow> x = UINT32_MAX"
  unfolding minus_one_u32 [symmetric] by (simp add: eq_neg_iff_add_eq_0)

section \<open>Transition systems\<close>

text \<open>Reachability and the invariant rule that the state machines of the kernel share.\<close>

inductive reach :: "('s \<Rightarrow> bool) \<Rightarrow> ('s \<Rightarrow> 's \<Rightarrow> bool) \<Rightarrow> 's \<Rightarrow> bool"
  for init :: "'s \<Rightarrow> bool" and step :: "'s \<Rightarrow> 's \<Rightarrow> bool" where
  reach_init: "init s \<Longrightarrow> reach init step s"
| reach_step: "reach init step s \<Longrightarrow> step s t \<Longrightarrow> reach init step t"

locale transition_system =
  fixes init :: "'s \<Rightarrow> bool" and step :: "'s \<Rightarrow> 's \<Rightarrow> bool" and inv :: "'s \<Rightarrow> bool"
  assumes inv_init: "init s \<Longrightarrow> inv s"
    and inv_step: "inv s \<Longrightarrow> step s t \<Longrightarrow> inv t"
begin

lemma reach_inv: "reach init step s \<Longrightarrow> inv s"
  by (induction rule: reach.induct) (auto intro: inv_init inv_step)

lemma reach_safe: "reach init step s \<Longrightarrow> (\<And>t. inv t \<Longrightarrow> P t) \<Longrightarrow> P s"
  by (blast dest: reach_inv)

end

section \<open>Critical sections\<close>

text \<open>
  The contract between a lock and the code that uses it. \<open>avail s\<close> says that the executing CPU
  may enter, \<open>inside s\<close> that it is in the section. Entering twice and leaving when outside end
  in a panic, which is how \<open>acquire_Spinlock\<close> and \<open>release_Spinlock\<close> report misuse.
\<close>

locale critical_section =
  fixes acq :: "'s \<Rightarrow> fault + unit \<times> 's" and rel :: "'s \<Rightarrow> fault + unit \<times> 's"
    and avail :: "'s \<Rightarrow> bool" and inside :: "'s \<Rightarrow> bool"
  assumes acq_avail: "avail s \<Longrightarrow> \<exists>t. acq s = Inr ((), t) \<and> inside t"
    and acq_inside: "inside s \<Longrightarrow> \<exists>m. acq s = Inl (Panic m)"
    and rel_inside: "inside s \<Longrightarrow> \<exists>t. rel s = Inr ((), t) \<and> avail t"
    and rel_avail: "avail s \<Longrightarrow> \<exists>m. rel s = Inl (Panic m)"
begin

lemma bracket:
  assumes "avail s" and body: "\<And>t. inside t \<Longrightarrow> \<exists>a t'. body t = Inr (a, t') \<and> inside t'"
  shows "\<exists>a t. seqn acq (bnd body (\<lambda>a. seqn rel (ret a))) s = Inr (a, t) \<and> avail t"
proof -
  from acq_avail [OF assms(1)] obtain t where t: "acq s = Inr ((), t)" "inside t" by blast
  from body [OF t(2)] obtain a t' where b: "body t = Inr (a, t')" "inside t'" by blast
  from rel_inside [OF b(2)] obtain u where u: "rel t' = Inr ((), u)" "avail u" by blast
  from t b u show ?thesis by (auto simp: op_combinators)
qed

lemma reacquire_panics:
  assumes "avail s"
  shows "\<exists>m. seqn acq acq s = Inl (Panic m)"
proof -
  from acq_avail [OF assms] obtain t where t: "acq s = Inr ((), t)" "inside t" by blast
  from acq_inside [OF t(2)] t(1) show ?thesis by (auto simp: op_combinators)
qed

lemma leaked_lock_panics:
  assumes "avail s" and body: "\<And>t. inside t \<Longrightarrow> \<exists>a t'. body t = Inr (a, t') \<and> inside t'"
  shows "\<exists>a t m. seqn acq body s = Inr (a, t) \<and> acq t = Inl (Panic m)"
proof -
  from acq_avail [OF assms(1)] obtain t where t: "acq s = Inr ((), t)" "inside t" by blast
  from body [OF t(2)] obtain a t' where b: "body t = Inr (a, t')" "inside t'" by blast
  from acq_inside [OF b(2)] t b show ?thesis by (auto simp: op_combinators)
qed

end


section \<open>Allocators\<close>

text \<open>
  The contract of an allocator: \<open>used s\<close> is the set of addresses that live allocations occupy,
  \<open>block n a\<close> the addresses a request \<open>n\<close> answered with \<open>a\<close> may use. An answer is either
  \<open>failed\<close> or a block that was not in use before and is in use afterwards. The client lemma says
  what a sequence of requests gives: blocks that do not overlap each other or anything older.
\<close>

fun alloc_seq :: "('n \<Rightarrow> 's \<Rightarrow> fault + 'a \<times> 's) \<Rightarrow> 'n list \<Rightarrow> 's \<Rightarrow> fault + 'a list \<times> 's" where
  "alloc_seq alloc [] s = Inr ([], s)"
| "alloc_seq alloc (n # ns) s = bnd (alloc n) (\<lambda>a. bnd (alloc_seq alloc ns) (\<lambda>as. ret (a # as))) s"

fun blocks_disjoint :: "('n \<Rightarrow> 'a \<Rightarrow> nat set) \<Rightarrow> nat set \<Rightarrow> ('n \<times> 'a) list \<Rightarrow> bool" where
  "blocks_disjoint block U [] = True"
| "blocks_disjoint block U (x # xs) =
     (block (fst x) (snd x) \<inter> U = {} \<and> blocks_disjoint block (U \<union> block (fst x) (snd x)) xs)"

lemma blocks_disjoint_mono: "blocks_disjoint block V xs \<Longrightarrow> U \<subseteq> V \<Longrightarrow> blocks_disjoint block U xs"
proof (induction xs arbitrary: U V)
  case (Cons x xs)
  from Cons.prems have "blocks_disjoint block (V \<union> block (fst x) (snd x)) xs" by simp
  moreover from Cons.prems(2) have "U \<union> block (fst x) (snd x) \<subseteq> V \<union> block (fst x) (snd x)" by blast
  ultimately have "blocks_disjoint block (U \<union> block (fst x) (snd x)) xs" by (rule Cons.IH)
  with Cons.prems show ?case by auto
qed simp

locale allocator =
  fixes alloc :: "'n \<Rightarrow> 's \<Rightarrow> fault + 'a \<times> 's" and failed :: "'a \<Rightarrow> bool"
    and inv :: "'s \<Rightarrow> bool" and used :: "'s \<Rightarrow> nat set" and block :: "'n \<Rightarrow> 'a \<Rightarrow> nat set"
  assumes alloc_inv: "inv s \<Longrightarrow> alloc n s = Inr (a, t) \<Longrightarrow> inv t"
    and alloc_used: "inv s \<Longrightarrow> alloc n s = Inr (a, t) \<Longrightarrow> used s \<subseteq> used t"
    and alloc_fresh: "inv s \<Longrightarrow> alloc n s = Inr (a, t) \<Longrightarrow> \<not> failed a \<Longrightarrow>
        block n a \<inter> used s = {} \<and> block n a \<subseteq> used t"
begin

lemma alloc_seq_disjoint:
  assumes "inv s" "alloc_seq alloc ns s = Inr (as, t)" "\<forall>a \<in> set as. \<not> failed a"
  shows "inv t \<and> length as = length ns \<and> used s \<subseteq> used t \<and> blocks_disjoint block (used s) (zip ns as)"
  using assms
proof (induction ns arbitrary: s as)
  case (Cons n ns)
  from Cons.prems(2) obtain a as' s' where a: "alloc n s = Inr (a, s')" "as = a # as'"
    and r: "alloc_seq alloc ns s' = Inr (as', t)" by (auto simp: bnd_Inr_iff)
  from alloc_inv [OF Cons.prems(1) a(1)] have "inv s'" .
  with Cons.IH [OF this r] Cons.prems(3) a(2) have IH: "inv t" "length as' = length ns" "used s' \<subseteq> used t"
    "blocks_disjoint block (used s') (zip ns as')" by auto
  from a Cons.prems alloc_fresh have f: "block n a \<inter> used s = {}" "block n a \<subseteq> used s'" by auto
  from alloc_used [OF Cons.prems(1) a(1)] have u: "used s \<subseteq> used s'" .
  from IH(4) u f(2) have "blocks_disjoint block (used s \<union> block n a) (zip ns as')"
    by (auto intro: blocks_disjoint_mono)
  with IH f u a show ?case by auto
qed simp

end

end
