(* ===== verification/Cpu.thy ===== *)
theory Cpu
  imports Prelude
begin

text \<open>
  Per-CPU state and spinlocks: src/src/kernel/include/kernel/cpu.h, kernel/cpu.c,
  kernel/spinlock.c and the interrupt-flag helpers of idt.c.

  The record \<open>smp\<close> is the part of the global kernel state that every other component needs:
  the table of CPUs, the local APIC identifier of the CPU that executes, the spinlocks (each
  named by a value of \<open>lock_id\<close>, which stands for the address of the lock object) and the
  link-time addresses of the statically allocated tables. Later theories extend the record;
  the operations here are stated for every extension.
\<close>

section \<open>Data\<close>

record gdtdesc =
  gdtdesc_size :: u16
  gdtdesc_ptr :: u64

record gdt_st =
  null_desc :: u64
  kernel_code :: u64
  kernel_data :: u64
  user_code :: u64
  user_data :: u64
  tss_low :: u64
  tss_high :: u64
  desc1 :: gdtdesc
  desc2 :: gdtdesc

record tss_t =
  tss_reserved :: u32
  rsp0 :: u64
  rsp1 :: u64
  rsp2 :: u64
  tss_reserved2 :: u64
  ist1 :: u64
  ist2 :: u64
  ist3 :: u64
  ist4 :: u64
  ist5 :: u64
  ist6 :: u64
  ist7 :: u64
  tss_reserved3 :: u64
  tss_reserved4 :: u32
  iopbOffset :: u32

text \<open>
  \<open>struct CPU\<close>. \<open>current_thread\<close> is a pointer into \<open>thread_table\<close>, modelled by the index,
  with \<open>None\<close> for NULL. The last three fields are the registers of the processor itself: the
  interrupt flag of RFLAGS, the descriptor loaded by \<open>lgdt\<close> and the task register.
\<close>

record CPU =
  cpu_id :: u16
  cli_count :: u32
  current_thread :: "nat option"
  gdt :: gdt_st
  tss :: tss_t
  cpu_kstack :: u64
  noINT :: bool
  rflags_IF :: bool
  gdtr :: gdtdesc
  task_register :: u16

record Spinlock =
  owner_cpu :: u32
  is_locked :: bool
  lock_name :: string

text \<open>The spinlock objects of the kernel, by the variable or field that holds them.\<close>

datatype lock_id =
    KernelHeapLock
  | PMM_lock
  | spm_lock
  | proc_table_lock
  | serial_lock
  | print_lock
  | pid_wait_spinlock nat
  | terminal_lock
  | char_buf_spinlock
  | ide_lock
  | bcache_lock
  | device_list_lock
  | sleeplock_lock u64

text \<open>Addresses the linker chooses for the statically allocated objects.\<close>

record linkmap =
  pml4t_va :: u64
  pdpt_va :: u64
  pdt_kernel_va :: u64
  pt_kernel_va :: u64
  smp_pdt_va :: u64
  smp_pt_va :: u64
  pgdir_va :: "nat \<Rightarrow> u64"
  kstack_va :: "nat \<Rightarrow> u64"
  tss_va :: "nat \<Rightarrow> u64"
  gdt_va :: "nat \<Rightarrow> u64"
  dll_head_va :: "nat \<Rightarrow> u64"

record smp =
  lapic_id :: u32
  cpus :: "CPU list"
  locks :: "lock_id \<Rightarrow> Spinlock"
  link :: linkmap

section \<open>cpu.c\<close>

text \<open>The scan of \<open>get_current_cpu\<close> over \<open>cpu_table[0 .. cpu_count-1]\<close>.\<close>

fun find_cpu :: "u32 \<Rightarrow> CPU list \<Rightarrow> nat option" where
  "find_cpu lid [] = None"
| "find_cpu lid (c # cs) =
     (if ucast (cpu_id c) = lid then Some 0 else map_option Suc (find_cpu lid cs))"

definition get_current_cpu :: "'a smp_scheme \<Rightarrow> fault + nat \<times> 'a smp_scheme" where
  "get_current_cpu s =
     (case find_cpu (lapic_id s) (cpus s) of
        Some i \<Rightarrow> Inr (i, s)
      | None \<Rightarrow> Inl (Panic ''get_current_cpu() --> encountered unregistered local APIC ID''))"

definition get_cpu_byID :: "nat \<Rightarrow> 'a smp_scheme \<Rightarrow> fault + nat option \<times> 'a smp_scheme" where
  "get_cpu_byID n s =
     (if n \<ge> length (cpus s) then Inr (None, s)
      else if unat (cpu_id (cpus s ! n)) \<noteq> n
      then Inl (Panic ''get_cpu_byId() --> cpu->id and id mismatch found!'')
      else Inr (Some n, s))"

definition upd_cpu :: "nat \<Rightarrow> (CPU \<Rightarrow> CPU) \<Rightarrow> 'a smp_scheme \<Rightarrow> 'a smp_scheme" where
  "upd_cpu i f s = s\<lparr>cpus := (cpus s)[i := f (cpus s ! i)]\<rparr>"

text \<open>The instructions \<open>cli\<close> and \<open>sti\<close> act on the flag of the executing CPU, found here by its
  registered entry.\<close>

definition cli :: "nat \<Rightarrow> 'a smp_scheme \<Rightarrow> 'a smp_scheme" where
  "cli i = upd_cpu i (rflags_IF_update (\<lambda>_. False))"

definition sti :: "nat \<Rightarrow> 'a smp_scheme \<Rightarrow> 'a smp_scheme" where
  "sti i = upd_cpu i (rflags_IF_update (\<lambda>_. True))"

definition inc_cli :: "'a smp_scheme \<Rightarrow> fault + unit \<times> 'a smp_scheme" where
  "inc_cli = bnd get_current_cpu (\<lambda>i.
     upd (\<lambda>s. upd_cpu i (\<lambda>c. c\<lparr>cli_count := cli_count c + 1\<rparr>) (cli i s)))"

definition dec_cli :: "'a smp_scheme \<Rightarrow> fault + unit \<times> 'a smp_scheme" where
  "dec_cli = bnd get_current_cpu (\<lambda>i.
     seqn (ensure (\<lambda>s. \<not> rflags_IF (cpus s ! i)) (Panic ''dec_cli() --> interrupt flag was set.''))
    (seqn (ensure (\<lambda>s. cli_count (cpus s ! i) \<noteq> 0) (Panic ''dec_cli() --> cpu->cli_count == zero.''))
    (seqn (upd (upd_cpu i (\<lambda>c. c\<lparr>cli_count := cli_count c - 1\<rparr>)))
          (upd (\<lambda>s. if cli_count (cpus s ! i) = 0 \<and> \<not> noINT (cpus s ! i) then sti i s else s)))))"

definition NoINT_Enable :: "'a smp_scheme \<Rightarrow> fault + unit \<times> 'a smp_scheme" where
  "NoINT_Enable = bnd get_current_cpu (\<lambda>i. upd (upd_cpu i (noINT_update (\<lambda>_. True))))"

definition NoINT_Disable :: "'a smp_scheme \<Rightarrow> fault + unit \<times> 'a smp_scheme" where
  "NoINT_Disable = bnd get_current_cpu (\<lambda>i. upd (upd_cpu i (noINT_update (\<lambda>_. False))))"

definition write_gdt :: "CPU \<Rightarrow> CPU" where
  "write_gdt c = c\<lparr>gdt := (gdt c)\<lparr>
      null_desc := 0,
      kernel_code := 0x00AF9B000000FFFF,
      kernel_data := 0x00AF93000000FFFF,
      user_code := 0x00AFFB000000FFFF,
      user_data := 0x00AFF3000000FFFF,
      tss_high := 0,
      tss_low := 0\<rparr>\<rparr>"

text \<open>
  The two halves of a TSS descriptor, from the address of the TSS. The limit is
  \<open>sizeof(tss_t)\<close>: three 32-bit and twelve 64-bit fields, packed, padded to the
  16-byte alignment of the first field, 112 bytes.
\<close>

definition tss_entry_low :: "u64 \<Rightarrow> u64" where
  "tss_entry_low a =
     (let limit_low = (112 :: u64);
          tss_entry_base_1 = a AND 0xFFFF;
          tss_entry_base_2 = drop_bit 16 a AND 0xFF;
          flags_1 = (0x89 :: u64);
          flags_2 = (0 :: u64);
          tss_entry_base_3 = drop_bit 24 a AND 0xFF
      in push_bit 56 tss_entry_base_3 OR push_bit 48 flags_2 OR push_bit 40 flags_1
         OR push_bit 32 tss_entry_base_2 OR push_bit 16 tss_entry_base_1 OR limit_low)"

definition tss_entry_high :: "u64 \<Rightarrow> u64" where
  "tss_entry_high a = (let reserved_part = (0 :: u64); tss_entry_base_4 = drop_bit 32 a AND 0xFFFFFFFF
      in reserved_part OR tss_entry_base_4)"

text \<open>\<open>set_tss(cpu, thread)\<close>: \<open>kst\<close> is the address \<open>&thread->kstack[0x10000]\<close>, one past the end
  of the thread's kernel stack, and \<open>a\<close> the address of \<open>cpu->tss\<close>.\<close>

definition set_tss :: "u64 \<Rightarrow> u64 \<Rightarrow> CPU \<Rightarrow> CPU" where
  "set_tss a kst c = c\<lparr>
      tss := (tss c)\<lparr>tss_reserved := 0, tss_reserved2 := 0, tss_reserved3 := 0, tss_reserved4 := 0,
        rsp0 := kst, rsp1 := 0, rsp2 := 0,
        ist1 := 0, ist2 := 0, ist3 := 0, ist4 := 0, ist5 := 0, ist6 := 0, ist7 := 0, iopbOffset := 0\<rparr>,
      gdt := (gdt c)\<lparr>tss_low := tss_entry_low a, tss_high := tss_entry_high a\<rparr>\<rparr>"

text \<open>\<open>ctx_switch_tss(cpu, thread)\<close> for the CPU at index \<open>i\<close> and the thread at index \<open>t\<close>.\<close>

definition ctx_switch_tss :: "nat \<Rightarrow> nat \<Rightarrow> 'a smp_scheme \<Rightarrow> 'a smp_scheme" where
  "ctx_switch_tss i t s =
     upd_cpu i (\<lambda>c0.
       let c1 = write_gdt c0;
           c2 = set_tss (tss_va (link s) i) (kstack_va (link s) t + 8 * 0x10000) c1;
           c3 = c2\<lparr>gdt := (gdt c2)\<lparr>desc1 := (desc1 (gdt c2))\<lparr>gdtdesc_ptr := gdt_va (link s) i\<rparr>\<rparr>\<rparr>
       in c3\<lparr>gdtr := desc1 (gdt c3), task_register := 0x2B\<rparr>) s"

section \<open>spinlock.c\<close>

definition upd_lock :: "lock_id \<Rightarrow> (Spinlock \<Rightarrow> Spinlock) \<Rightarrow> 'a smp_scheme \<Rightarrow> 'a smp_scheme" where
  "upd_lock l f s = s\<lparr>locks := (locks s)(l := f (locks s l))\<rparr>"

definition spinlock_check_held :: "lock_id \<Rightarrow> 'a smp_scheme \<Rightarrow> fault + bool \<times> 'a smp_scheme" where
  "spinlock_check_held l = bnd (gets (\<lambda>s. is_locked (locks s l))) (\<lambda>lk.
     if lk then bnd get_current_cpu (\<lambda>i.
       gets (\<lambda>s. owner_cpu (locks s l) = ucast (cpu_id (cpus s ! i))))
     else ret False)"

text \<open>\<open>memcpy(lock->name, name, strlen(name))\<close> overwrites a prefix of the 16-byte name field.\<close>

definition init_lock :: "string \<Rightarrow> Spinlock \<Rightarrow> Spinlock" where
  "init_lock nm k = k\<lparr>is_locked := False, owner_cpu := UINT32_MAX,
                      lock_name := nm @ drop (length nm) (lock_name k)\<rparr>"

definition init_Spinlock :: "lock_id \<Rightarrow> string \<Rightarrow> 'a smp_scheme \<Rightarrow> fault + unit \<times> 'a smp_scheme" where
  "init_Spinlock l nm =
     seqn (ensure (\<lambda>_. length nm \<le> 15) (Panic ''init_Spinlock() --> name too long''))
          (upd (upd_lock l (init_lock nm)))"

definition acquire_Spinlock :: "lock_id \<Rightarrow> 'a smp_scheme \<Rightarrow> fault + unit \<times> 'a smp_scheme" where
  "acquire_Spinlock l =
     seqn inc_cli
    (bnd (spinlock_check_held l) (\<lambda>held.
     if held then raise (Panic ''acquire_Spinlock() --> encountered deadlock situation.'')
     else bnd (gets (\<lambda>s. is_locked (locks s l))) (\<lambda>lk.
     if lk then raise Spin
     else seqn (upd (upd_lock l (is_locked_update (\<lambda>_. True))))
       (bnd get_current_cpu (\<lambda>i.
        upd (\<lambda>s. upd_lock l (owner_cpu_update (\<lambda>_. ucast (cpu_id (cpus s ! i)))) s))))))"

definition release_Spinlock :: "lock_id \<Rightarrow> 'a smp_scheme \<Rightarrow> fault + unit \<times> 'a smp_scheme" where
  "release_Spinlock l =
     bnd (spinlock_check_held l) (\<lambda>held.
     if \<not> held then raise (Panic ''release_Spinlock() --> tried to release a spinlock that was not held by the current CPU.'')
     else seqn (upd (upd_lock l (owner_cpu_update (\<lambda>_. UINT32_MAX))))
         (seqn (upd (upd_lock l (is_locked_update (\<lambda>_. False))))
               dec_cli))"


section \<open>Basic lemmas\<close>

definition registered :: "'a smp_scheme \<Rightarrow> nat \<Rightarrow> bool" where
  "registered s i \<longleftrightarrow> find_cpu (lapic_id s) (cpus s) = Some i"

lemma find_cpu_Some:
  "find_cpu lid cs = Some i \<Longrightarrow> i < length cs \<and> ucast (cpu_id (cs ! i)) = lid"
  by (induction cs arbitrary: i) (auto split: if_splits)

lemma find_cpu_update [simp]:
  "cpu_id c = cpu_id (cs ! i) \<Longrightarrow> find_cpu lid (cs[i := c]) = find_cpu lid cs"
  by (induction cs arbitrary: i) (auto split: nat.splits)

lemma registered_less: "registered s i \<Longrightarrow> i < length (cpus s)"
  and registered_id: "registered s i \<Longrightarrow> ucast (cpu_id (cpus s ! i)) = lapic_id s"
  by (auto simp: registered_def dest: find_cpu_Some)

lemma registered_unique: "registered s i \<Longrightarrow> registered s j \<Longrightarrow> i = j"
  by (simp add: registered_def)

lemma get_current_cpu_registered: "registered s i \<Longrightarrow> get_current_cpu s = Inr (i, s)"
  by (simp add: registered_def get_current_cpu_def)

lemma registered_upd_lock [simp]: "registered (upd_lock l f s) i = registered s i"
  by (simp add: registered_def upd_lock_def)

lemma registered_upd_cpu:
  "(\<And>c. cpu_id (f c) = cpu_id c) \<Longrightarrow> registered (upd_cpu j f s) i = registered s i"
  by (simp add: registered_def upd_cpu_def)

lemma cpus_upd_lock [simp]: "cpus (upd_lock l f s) = cpus s"
  by (simp add: upd_lock_def)

lemma locks_upd_lock [simp]: "locks (upd_lock l f s) = (locks s)(l := f (locks s l))"
  by (simp add: upd_lock_def)

lemma locks_upd_cpu [simp]: "locks (upd_cpu i f s) = locks s"
  by (simp add: upd_cpu_def)

lemma cpus_upd_cpu [simp]: "cpus (upd_cpu i f s) = (cpus s)[i := f (cpus s ! i)]"
  by (simp add: upd_cpu_def)

lemma lapic_id_upd [simp]:
  "lapic_id (upd_cpu i f s) = lapic_id s" "lapic_id (upd_lock l g s) = lapic_id s"
  by (simp_all add: upd_cpu_def upd_lock_def)

lemma upd_cpu_upd_cpu: "i < length (cpus s) \<Longrightarrow> upd_cpu i f (upd_cpu i g s) = upd_cpu i (\<lambda>c. f (g c)) s"
  by (simp add: upd_cpu_def)

lemma upd_lock_upd_lock: "upd_lock l f (upd_lock l g s) = upd_lock l (\<lambda>k. f (g k)) s"
  by (simp add: upd_lock_def)

section \<open>What a successful acquire and release do\<close>

definition lock_taken :: "lock_id \<Rightarrow> nat \<Rightarrow> 'a smp_scheme \<Rightarrow> 'a smp_scheme" where
  "lock_taken l i s =
     upd_lock l (\<lambda>k. k\<lparr>is_locked := True, owner_cpu := lapic_id s\<rparr>)
       (upd_cpu i (\<lambda>c. c\<lparr>rflags_IF := False, cli_count := cli_count c + 1\<rparr>) s)"

definition lock_dropped :: "lock_id \<Rightarrow> nat \<Rightarrow> 'a smp_scheme \<Rightarrow> 'a smp_scheme" where
  "lock_dropped l i s =
     upd_cpu i (\<lambda>c. c\<lparr>cli_count := cli_count c - 1, rflags_IF := (cli_count c = 1 \<and> \<not> noINT c)\<rparr>)
       (upd_lock l (\<lambda>k. k\<lparr>owner_cpu := UINT32_MAX, is_locked := False\<rparr>) s)"

text \<open>The states in which the executing CPU may enter, and is inside, the section of \<open>l\<close>.\<close>

definition lock_free :: "lock_id \<Rightarrow> 'a smp_scheme \<Rightarrow> bool" where
  "lock_free l s \<longleftrightarrow> (\<exists>i. registered s i \<and> cli_count (cpus s ! i) \<noteq> UINT32_MAX) \<and> \<not> is_locked (locks s l)"

definition lock_held :: "lock_id \<Rightarrow> 'a smp_scheme \<Rightarrow> bool" where
  "lock_held l s \<longleftrightarrow> (\<exists>i. registered s i \<and> \<not> rflags_IF (cpus s ! i) \<and> cli_count (cpus s ! i) \<noteq> 0)
     \<and> is_locked (locks s l) \<and> owner_cpu (locks s l) = lapic_id s"

lemma inc_cli_registered:
  assumes "registered s i"
  shows "inc_cli s = Inr ((), upd_cpu i (\<lambda>c. c\<lparr>rflags_IF := False, cli_count := cli_count c + 1\<rparr>) s)"
  using assms registered_less [OF assms]
  by (simp add: inc_cli_def cli_def op_combinators get_current_cpu_registered upd_cpu_upd_cpu)

lemma acquire_Spinlock_free:
  assumes reg: "registered s i" and free: "\<not> is_locked (locks s l)"
  shows "acquire_Spinlock l s = Inr ((), lock_taken l i s)"
proof -
  let ?s = "upd_cpu i (\<lambda>c. c\<lparr>rflags_IF := False, cli_count := cli_count c + 1\<rparr>) s"
  have r: "registered ?s i" using reg by (simp add: registered_upd_cpu)
  have rl: "registered (upd_lock l f ?s) i" for f using r by simp
  from registered_id [OF reg] registered_less [OF reg]
  have "ucast (cpu_id (cpus ?s ! i)) = lapic_id s" by simp
  then show ?thesis
    unfolding acquire_Spinlock_def spinlock_check_held_def op_combinators inc_cli_registered [OF reg]
    using free r
    by (simp add: get_current_cpu_registered [OF rl] upd_lock_upd_lock lock_taken_def)
qed

lemma spinlock_check_held_iff:
  assumes "registered s i"
  shows "spinlock_check_held l s = Inr (is_locked (locks s l) \<and> owner_cpu (locks s l) = lapic_id s, s)"
  using registered_id [OF assms]
  by (simp add: spinlock_check_held_def op_combinators get_current_cpu_registered [OF assms])

lemma acquire_Spinlock_deadlock:
  assumes reg: "registered s i" and held: "is_locked (locks s l)" "owner_cpu (locks s l) = lapic_id s"
  shows "acquire_Spinlock l s = Inl (Panic ''acquire_Spinlock() --> encountered deadlock situation.'')"
proof -
  let ?s = "upd_cpu i (\<lambda>c. c\<lparr>rflags_IF := False, cli_count := cli_count c + 1\<rparr>) s"
  have r: "registered ?s i" using reg by (simp add: registered_upd_cpu)
  show ?thesis
    unfolding acquire_Spinlock_def op_combinators inc_cli_registered [OF reg]
    using held by (simp add: spinlock_check_held_iff [OF r])
qed

lemma acquire_Spinlock_spin:
  assumes reg: "registered s i" and held: "is_locked (locks s l)" "owner_cpu (locks s l) \<noteq> lapic_id s"
  shows "acquire_Spinlock l s = Inl Spin"
proof -
  let ?s = "upd_cpu i (\<lambda>c. c\<lparr>rflags_IF := False, cli_count := cli_count c + 1\<rparr>) s"
  have r: "registered ?s i" using reg by (simp add: registered_upd_cpu)
  show ?thesis
    unfolding acquire_Spinlock_def op_combinators inc_cli_registered [OF reg]
    using held by (simp add: spinlock_check_held_iff [OF r])
qed

lemma CPU_IF_unchanged:
  "\<not> rflags_IF c \<Longrightarrow> c\<lparr>cli_count := n, rflags_IF := False\<rparr> = c\<lparr>cli_count := n\<rparr>"
  by (cases c) simp

lemma release_Spinlock_held:
  assumes reg: "registered s i" and lk: "is_locked (locks s l)" "owner_cpu (locks s l) = lapic_id s"
    and cpu: "\<not> rflags_IF (cpus s ! i)" "cli_count (cpus s ! i) \<noteq> 0"
  shows "release_Spinlock l s = Inr ((), lock_dropped l i s)"
proof -
  have r: "registered (upd_lock l f s) i" for f using reg by simp
  have le: "i < length (cpus s)" using reg by (rule registered_less)
  show ?thesis
    unfolding release_Spinlock_def op_combinators dec_cli_def
    using lk cpu le
    by (simp add: spinlock_check_held_iff [OF reg] upd_lock_upd_lock get_current_cpu_registered [OF r]
        lock_dropped_def sti_def upd_cpu_upd_cpu) (auto simp: upd_cpu_def upd_lock_def CPU_IF_unchanged)
qed

lemma release_Spinlock_not_held:
  assumes reg: "registered s i" and lk: "\<not> (is_locked (locks s l) \<and> owner_cpu (locks s l) = lapic_id s)"
  shows "release_Spinlock l s = Inl (Panic ''release_Spinlock() --> tried to release a spinlock that was not held by the current CPU.'')"
  using lk by (auto simp: release_Spinlock_def op_combinators spinlock_check_held_iff [OF reg])


section \<open>The lock contract\<close>

lemma lock_free_taken:
  assumes "lock_free l s"
  shows "\<exists>i. registered s i \<and> acquire_Spinlock l s = Inr ((), lock_taken l i s)
     \<and> lock_held l (lock_taken l i s)"
proof -
  from assms obtain i where i: "registered s i" "cli_count (cpus s ! i) \<noteq> UINT32_MAX"
    and lk: "\<not> is_locked (locks s l)" by (auto simp: lock_free_def)
  from i(2) have "cli_count (cpus s ! i) + 1 \<noteq> 0" by (simp add: u32_plus_one_eq_0_iff)
  then have "lock_held l (lock_taken l i s)"
    using i registered_less [OF i(1)]
    by (auto simp: lock_held_def lock_taken_def registered_upd_cpu intro!: exI [of _ i])
  with acquire_Spinlock_free [OF i(1) lk] i(1) show ?thesis by blast
qed

lemma lock_held_dropped:
  assumes "lock_held l s"
  shows "\<exists>i. registered s i \<and> release_Spinlock l s = Inr ((), lock_dropped l i s)
     \<and> lock_free l (lock_dropped l i s)"
proof -
  from assms obtain i where i: "registered s i" "\<not> rflags_IF (cpus s ! i)" "cli_count (cpus s ! i) \<noteq> 0"
    and lk: "is_locked (locks s l)" "owner_cpu (locks s l) = lapic_id s" by (auto simp: lock_held_def)
  from i(3) have "cli_count (cpus s ! i) - 1 \<noteq> UINT32_MAX"
    unfolding u32_plus_one_eq_0_iff [symmetric] by simp
  then have "lock_free l (lock_dropped l i s)"
    using i(1) registered_less [OF i(1)]
    by (auto simp: lock_free_def lock_dropped_def registered_upd_cpu intro!: exI [of _ i])
  with release_Spinlock_held [OF i(1) lk i(2,3)] i(1) show ?thesis by blast
qed

text \<open>The frame of the lock operations: whatever they return, they write only \<open>cpus\<close> and \<open>locks\<close>.\<close>

lemma get_current_cpu_frame: "get_current_cpu s = Inr (i, t) \<Longrightarrow> t = s"
  by (auto simp: get_current_cpu_def split: option.splits)

lemma inc_cli_frame: "inc_cli s = Inr (u, t) \<Longrightarrow> \<exists>c. t = s\<lparr>cpus := c\<rparr>"
  by (auto simp: inc_cli_def cli_def upd_cpu_def op_Inr_iff dest!: get_current_cpu_frame)

lemma dec_cli_frame: "dec_cli s = Inr (u, t) \<Longrightarrow> \<exists>c. t = s\<lparr>cpus := c\<rparr>"
  by (auto simp: dec_cli_def sti_def upd_cpu_def op_Inr_iff dest!: get_current_cpu_frame split: if_splits)

lemma spinlock_check_held_frame: "spinlock_check_held l s = Inr (h, t) \<Longrightarrow> t = s"
  by (auto simp: spinlock_check_held_def op_Inr_iff dest!: get_current_cpu_frame split: if_splits)

lemma acquire_Spinlock_frame:
  assumes "acquire_Spinlock l s = Inr (u, t)"
  shows "\<exists>c k. t = s\<lparr>cpus := c, locks := k\<rparr>"
proof -
  from assms obtain s1 i where s1: "inc_cli s = Inr ((), s1)"
    and t: "t = upd_lock l (owner_cpu_update (\<lambda>_. i)) (upd_lock l (is_locked_update (\<lambda>_. True)) s1)"
    by (auto simp: acquire_Spinlock_def op_Inr_iff dest!: spinlock_check_held_frame get_current_cpu_frame
        split: if_splits)
  from inc_cli_frame [OF s1] t show ?thesis by (auto simp: upd_lock_def)
qed

lemma release_Spinlock_frame:
  assumes "release_Spinlock l s = Inr (u, t)"
  shows "\<exists>c k. t = s\<lparr>cpus := c, locks := k\<rparr>"
proof -
  from assms have "dec_cli (upd_lock l (is_locked_update (\<lambda>_. False))
      (upd_lock l (owner_cpu_update (\<lambda>_. UINT32_MAX)) s)) = Inr ((), t)"
    by (auto simp: release_Spinlock_def op_Inr_iff dest!: spinlock_check_held_frame split: if_splits)
  from dec_cli_frame [OF this] obtain c where "t = (upd_lock l (is_locked_update (\<lambda>_. False))
      (upd_lock l (owner_cpu_update (\<lambda>_. UINT32_MAX)) s))\<lparr>cpus := c\<rparr>" by blast
  then have "t = s\<lparr>cpus := c, locks := locks t\<rparr>" by (cases s) (simp add: upd_lock_def)
  then show ?thesis by blast
qed

interpretation spin: critical_section "acquire_Spinlock l" "release_Spinlock l" "lock_free l" "lock_held l"
  for l :: lock_id
proof unfold_locales
  fix s :: "'a smp_scheme"
  show "lock_free l s \<Longrightarrow> \<exists>t. acquire_Spinlock l s = Inr ((), t) \<and> lock_held l t"
    by (blast dest: lock_free_taken)
  show "lock_held l s \<Longrightarrow> \<exists>t. release_Spinlock l s = Inr ((), t) \<and> lock_free l t"
    by (blast dest: lock_held_dropped)
  show "lock_held l s \<Longrightarrow> \<exists>m. acquire_Spinlock l s = Inl (Panic m)"
    by (auto simp: lock_held_def dest: acquire_Spinlock_deadlock)
  show "lock_free l s \<Longrightarrow> \<exists>m. release_Spinlock l s = Inl (Panic m)"
    by (auto simp: lock_free_def dest: release_Spinlock_not_held)
qed

text \<open>Releasing the lock that was just taken: the counter is back where it was, the lock is free
  with no owner, and the interrupt flag is what \<open>dec_cli\<close> decides from the counter and \<open>noINT\<close>.\<close>

lemma lock_dropped_taken:
  assumes "i < length (cpus s)"
  shows "lock_dropped l i (lock_taken l i s) =
     upd_cpu i (\<lambda>c. c\<lparr>rflags_IF := (cli_count c = 0 \<and> \<not> noINT c)\<rparr>)
       (upd_lock l (\<lambda>k. k\<lparr>owner_cpu := UINT32_MAX, is_locked := False\<rparr>) s)"
  using assms
  by (simp add: lock_dropped_def lock_taken_def upd_cpu_def upd_lock_def add.commute)


section \<open>A concrete machine with one CPU\<close>

definition zero_gdt :: gdt_st where
  "zero_gdt = \<lparr>null_desc = 0, kernel_code = 0, kernel_data = 0, user_code = 0, user_data = 0,
     tss_low = 0, tss_high = 0, desc1 = \<lparr>gdtdesc_size = 0, gdtdesc_ptr = 0\<rparr>,
     desc2 = \<lparr>gdtdesc_size = 0, gdtdesc_ptr = 0\<rparr>\<rparr>"

definition zero_tss :: tss_t where
  "zero_tss = \<lparr>tss_reserved = 0, rsp0 = 0, rsp1 = 0, rsp2 = 0, tss_reserved2 = 0, ist1 = 0, ist2 = 0,
     ist3 = 0, ist4 = 0, ist5 = 0, ist6 = 0, ist7 = 0, tss_reserved3 = 0, tss_reserved4 = 0, iopbOffset = 0\<rparr>"

definition boot_cpu :: "u16 \<Rightarrow> CPU" where
  "boot_cpu n = \<lparr>cpu_id = n, cli_count = 0, current_thread = None, gdt = zero_gdt, tss = zero_tss,
     cpu_kstack = 0, noINT = False, rflags_IF = True,
     gdtr = \<lparr>gdtdesc_size = 0, gdtdesc_ptr = 0\<rparr>, task_register = 0\<rparr>"

definition boot_link :: linkmap where
  "boot_link = \<lparr>pml4t_va = 0xffffffff80100000, pdpt_va = 0xffffffff80101000,
     pdt_kernel_va = 0xffffffff80400000, pt_kernel_va = 0xffffffff80600000,
     smp_pdt_va = 0xffffffff80102000, smp_pt_va = 0xffffffff80103000,
     pgdir_va = (\<lambda>p. 0xffffffff90000000 + 0x402000 * of_nat p),
     kstack_va = (\<lambda>t. 0xffffffffa0000000 + 0x80400 * of_nat t),
     tss_va = (\<lambda>i. 0xffffffff80110000 + 0x200 * of_nat i),
     gdt_va = (\<lambda>i. 0xffffffff80120000 + 0x200 * of_nat i),
     dll_head_va = (\<lambda>i. 0xffffffff80130000 + 0x20 * of_nat i)\<rparr>"

definition boot_smp :: smp where
  "boot_smp = \<lparr>lapic_id = 0, cpus = [boot_cpu 0],
     locks = (\<lambda>_. \<lparr>owner_cpu = UINT32_MAX, is_locked = False, lock_name = []\<rparr>), link = boot_link\<rparr>"

lemma registered_boot_smp: "registered boot_smp 0"
  by (simp add: registered_def boot_smp_def boot_cpu_def)

section \<open>Properties\<close>

text \<open>A balanced \<open>acquire_Spinlock\<close>/\<open>release_Spinlock\<close> pair on a lock nobody holds always
  returns; it leaves every other lock, every other CPU, the nesting counter \<open>cli_count\<close> and the
  thread of the executing CPU as they were, frees the lock with owner -1, and switches
  interrupts on exactly when no outer lock is held and \<open>noINT\<close> is off.\<close>

theorem acquire_release_pair:
  fixes s :: "'a smp_scheme"
  assumes reg: "registered s i" and free: "\<not> is_locked (locks s l)"
    and cnt: "cli_count (cpus s ! i) \<noteq> UINT32_MAX"
  shows "seqn (acquire_Spinlock l) (release_Spinlock l) s =
     Inr ((), s\<lparr>locks := (locks s)(l := (locks s l)\<lparr>owner_cpu := UINT32_MAX, is_locked := False\<rparr>),
              cpus := (cpus s)[i := (cpus s ! i)\<lparr>rflags_IF :=
                 (cli_count (cpus s ! i) = 0 \<and> \<not> noINT (cpus s ! i))\<rparr>]\<rparr>)"
proof -
  from cnt reg free have "lock_free l s" by (auto simp: lock_free_def)
  then obtain j where "registered s j" and a: "acquire_Spinlock l s = Inr ((), lock_taken l j s)"
    and h: "lock_held l (lock_taken l j s)" by (blast dest: lock_free_taken)
  with reg have j: "j = i" by (blast dest: registered_unique)
  from lock_held_dropped [OF h] obtain k where k: "registered (lock_taken l j s) k"
    and d: "release_Spinlock l (lock_taken l j s) = Inr ((), lock_dropped l k (lock_taken l j s))" by blast
  from k have "registered s k" by (simp add: lock_taken_def registered_upd_cpu)
  with reg have "k = i" by (blast dest: registered_unique)
  with a d j lock_dropped_taken [OF registered_less [OF reg], of l] show ?thesis
    by (simp add: op_combinators) (simp add: upd_cpu_def upd_lock_def)
qed


theorem acquire_release_pair_witness:
  "registered boot_smp 0 \<and> \<not> is_locked (locks boot_smp PMM_lock) \<and>
   cli_count (cpus boot_smp ! 0) \<noteq> UINT32_MAX \<and>
   (\<exists>t. seqn (acquire_Spinlock PMM_lock) (release_Spinlock PMM_lock) boot_smp = Inr ((), t)
     \<and> cli_count (cpus t ! 0) = 0 \<and> rflags_IF (cpus t ! 0))"
proof -
  have f: "\<not> is_locked (locks boot_smp PMM_lock)" and c: "cli_count (cpus boot_smp ! 0) \<noteq> UINT32_MAX"
    by (simp_all add: boot_smp_def boot_cpu_def)
  show ?thesis
    using acquire_release_pair [OF registered_boot_smp f c] registered_boot_smp f c
    by (simp add: boot_smp_def boot_cpu_def)
qed

end
