(* ===== verification/Spin_Protocol.thy ===== *)
theory Spin_Protocol
  imports Cpu
begin

text \<open>
  The spinlock as the CPUs of the machine run it concurrently: every read and write of the lock
  object by \<open>acquire_Spinlock\<close> and \<open>release_Spinlock\<close> (src/src/kernel/kernel/spinlock.c) is one
  step, and steps of different CPUs interleave in any order. CPUs are named by their local APIC
  identifier. The theory shows mutual exclusion, that the deadlock check of an initialised lock
  never raises a false alarm, and that a lock which \<open>init_Spinlock\<close> never saw can raise one.
\<close>

section \<open>The steps\<close>

datatype spin_pc =
    Outside        \<comment> \<open>not in the lock code\<close>
  | AcqCheck       \<comment> \<open>after \<open>inc_cli\<close>: about to read \<open>lock->is_locked\<close> in \<open>spinlock_check_held\<close>\<close>
  | AcqOwner       \<comment> \<open>read \<open>is_locked\<close> as set: about to compare \<open>lock->owner_cpu\<close>\<close>
  | Spinning       \<comment> \<open>in the test-and-set loop\<close>
  | Taken          \<comment> \<open>test-and-set succeeded, \<open>owner_cpu\<close> not yet written\<close>
  | Critical       \<comment> \<open>\<open>acquire_Spinlock\<close> returned\<close>
  | RelCheck       \<comment> \<open>\<open>release_Spinlock\<close>: about to read \<open>is_locked\<close>\<close>
  | RelOwner       \<comment> \<open>about to compare \<open>owner_cpu\<close>\<close>
  | RelClearOwner  \<comment> \<open>about to write \<open>owner_cpu = -1\<close>\<close>
  | RelUnlock      \<comment> \<open>about to clear \<open>is_locked\<close>\<close>
  | AcqPanic       \<comment> \<open>"encountered deadlock situation"\<close>
  | RelPanic       \<comment> \<open>"tried to release a spinlock that was not held"\<close>

record spin_sys =
  spin_locked :: bool
  spin_owner :: u32
  spin_pcs :: "u32 \<Rightarrow> spin_pc"

definition goto :: "u32 \<Rightarrow> spin_pc \<Rightarrow> spin_sys \<Rightarrow> spin_sys" where
  "goto c p s = s\<lparr>spin_pcs := (spin_pcs s)(c := p)\<rparr>"

text \<open>CPU identifiers are 16 bits wide in \<open>struct CPU\<close>, so none of them is the value -1 that marks
  a lock without owner.\<close>

definition cpu_ident :: "u32 \<Rightarrow> bool" where
  "cpu_ident c \<longleftrightarrow> unat c < 2 ^ 16"

inductive spin_step :: "spin_sys \<Rightarrow> spin_sys \<Rightarrow> bool" where
  acq_enter: "cpu_ident c \<Longrightarrow> spin_pcs s c = Outside \<Longrightarrow> spin_step s (goto c AcqCheck s)"
| acq_check_free: "spin_pcs s c = AcqCheck \<Longrightarrow> \<not> spin_locked s \<Longrightarrow> spin_step s (goto c Spinning s)"
| acq_check_locked: "spin_pcs s c = AcqCheck \<Longrightarrow> spin_locked s \<Longrightarrow> spin_step s (goto c AcqOwner s)"
| acq_owner_self: "spin_pcs s c = AcqOwner \<Longrightarrow> spin_owner s = c \<Longrightarrow> spin_step s (goto c AcqPanic s)"
| acq_owner_other: "spin_pcs s c = AcqOwner \<Longrightarrow> spin_owner s \<noteq> c \<Longrightarrow> spin_step s (goto c Spinning s)"
| acq_tas_fail: "spin_pcs s c = Spinning \<Longrightarrow> spin_locked s \<Longrightarrow> spin_step s s"
| acq_tas_ok: "spin_pcs s c = Spinning \<Longrightarrow> \<not> spin_locked s \<Longrightarrow>
     spin_step s (goto c Taken (s\<lparr>spin_locked := True\<rparr>))"
| acq_set_owner: "spin_pcs s c = Taken \<Longrightarrow> spin_step s (goto c Critical (s\<lparr>spin_owner := c\<rparr>))"
| rel_enter: "spin_pcs s c = Critical \<Longrightarrow> spin_step s (goto c RelCheck s)"
| rel_check_locked: "spin_pcs s c = RelCheck \<Longrightarrow> spin_locked s \<Longrightarrow> spin_step s (goto c RelOwner s)"
| rel_check_free: "spin_pcs s c = RelCheck \<Longrightarrow> \<not> spin_locked s \<Longrightarrow> spin_step s (goto c RelPanic s)"
| rel_owner_self: "spin_pcs s c = RelOwner \<Longrightarrow> spin_owner s = c \<Longrightarrow> spin_step s (goto c RelClearOwner s)"
| rel_owner_other: "spin_pcs s c = RelOwner \<Longrightarrow> spin_owner s \<noteq> c \<Longrightarrow> spin_step s (goto c RelPanic s)"
| rel_clear_owner: "spin_pcs s c = RelClearOwner \<Longrightarrow>
     spin_step s (goto c RelUnlock (s\<lparr>spin_owner := UINT32_MAX\<rparr>))"
| rel_unlock: "spin_pcs s c = RelUnlock \<Longrightarrow> spin_step s (goto c Outside (s\<lparr>spin_locked := False\<rparr>))"

text \<open>The state after \<open>init_Spinlock\<close>, and the state of a lock in zeroed static memory.\<close>

definition spin_initialised :: "spin_sys \<Rightarrow> bool" where
  "spin_initialised s \<longleftrightarrow> \<not> spin_locked s \<and> spin_owner s = UINT32_MAX \<and> (\<forall>c. spin_pcs s c = Outside)"

definition spin_zeroed :: "spin_sys \<Rightarrow> bool" where
  "spin_zeroed s \<longleftrightarrow> \<not> spin_locked s \<and> spin_owner s = 0 \<and> (\<forall>c. spin_pcs s c = Outside)"

section \<open>The invariant\<close>

fun owns_lock :: "spin_pc \<Rightarrow> bool" where
  "owns_lock Taken = True"
| "owns_lock Critical = True"
| "owns_lock RelCheck = True"
| "owns_lock RelOwner = True"
| "owns_lock RelClearOwner = True"
| "owns_lock RelUnlock = True"
| "owns_lock p = False"

fun owner_written :: "spin_pc \<Rightarrow> bool" where
  "owner_written Critical = True"
| "owner_written RelCheck = True"
| "owner_written RelOwner = True"
| "owner_written RelClearOwner = True"
| "owner_written p = False"

definition spin_inv :: "spin_sys \<Rightarrow> bool" where
  "spin_inv s \<longleftrightarrow>
     (\<forall>c. owns_lock (spin_pcs s c) \<longrightarrow> spin_locked s) \<and>
     (\<forall>c d. owns_lock (spin_pcs s c) \<longrightarrow> owns_lock (spin_pcs s d) \<longrightarrow> c = d) \<and>
     (\<forall>c. cpu_ident c \<longrightarrow> owner_written (spin_pcs s c) = (spin_owner s = c)) \<and>
     (\<forall>c. spin_pcs s c \<noteq> Outside \<longrightarrow> cpu_ident c) \<and>
     (\<forall>c. spin_pcs s c \<noteq> AcqPanic \<and> spin_pcs s c \<noteq> RelPanic)"

lemma not_cpu_ident_UINT32_MAX [simp]: "\<not> cpu_ident UINT32_MAX"
  by (simp add: cpu_ident_def)

lemma spin_invI:
  assumes "\<And>c. owns_lock (spin_pcs s c) \<Longrightarrow> spin_locked s"
    and "\<And>c d. owns_lock (spin_pcs s c) \<Longrightarrow> owns_lock (spin_pcs s d) \<Longrightarrow> c = d"
    and "\<And>c. cpu_ident c \<Longrightarrow> owner_written (spin_pcs s c) = (spin_owner s = c)"
    and "\<And>c. spin_pcs s c \<noteq> Outside \<Longrightarrow> cpu_ident c"
    and "\<And>c. spin_pcs s c \<noteq> AcqPanic" and "\<And>c. spin_pcs s c \<noteq> RelPanic"
  shows "spin_inv s"
  unfolding spin_inv_def using assms by metis

lemma owner_written_owns: "owner_written p \<Longrightarrow> owns_lock p"
  by (cases p) simp_all

lemma spin_inv_init: "spin_initialised s \<Longrightarrow> spin_inv s"
  by (auto simp: spin_initialised_def spin_inv_def)

lemma spin_inv_ident: "spin_inv s \<Longrightarrow> spin_pcs s c \<noteq> Outside \<Longrightarrow> cpu_ident c"
  by (simp add: spin_inv_def)

lemma spin_inv_locked: "spin_inv s \<Longrightarrow> owns_lock (spin_pcs s c) \<Longrightarrow> spin_locked s"
  by (auto simp: spin_inv_def)

lemma spin_inv_unique:
  "spin_inv s \<Longrightarrow> owns_lock (spin_pcs s c) \<Longrightarrow> owns_lock (spin_pcs s d) \<Longrightarrow> c = d"
  by (auto simp: spin_inv_def)

lemma spin_inv_owner: "spin_inv s \<Longrightarrow> cpu_ident c \<Longrightarrow> owner_written (spin_pcs s c) = (spin_owner s = c)"
  by (simp add: spin_inv_def)

lemma spin_inv_no_panic: "spin_inv s \<Longrightarrow> spin_pcs s c \<noteq> AcqPanic \<and> spin_pcs s c \<noteq> RelPanic"
  by (simp add: spin_inv_def)

text \<open>Steps that only read the lock move one program counter within its class.\<close>

lemma spin_inv_goto:
  assumes "spin_inv s" "cpu_ident c"
    and "owns_lock p = owns_lock (spin_pcs s c)" "owner_written p = owner_written (spin_pcs s c)"
    and "p \<noteq> AcqPanic" "p \<noteq> RelPanic"
  shows "spin_inv (goto c p s)"
proof (rule spin_invI)
  fix d e assume "owns_lock (spin_pcs (goto c p s) d)" "owns_lock (spin_pcs (goto c p s) e)"
  then have "owns_lock (spin_pcs s d)" "owns_lock (spin_pcs s e)"
    using assms(3) by (auto simp: goto_def split: if_splits)
  with assms(1) show "d = e" by (rule spin_inv_unique)
next
  fix d assume "owns_lock (spin_pcs (goto c p s) d)"
  then have "owns_lock (spin_pcs s d)" using assms(3) by (auto simp: goto_def split: if_splits)
  then show "spin_locked (goto c p s)" using spin_inv_locked [OF assms(1)] by (simp add: goto_def)
qed (use assms in \<open>auto simp: goto_def spin_inv_owner spin_inv_ident spin_inv_no_panic split: if_splits\<close>)

lemma spin_inv_taken:
  assumes inv: "spin_inv s" and pc: "spin_pcs s c = Spinning" and free: "\<not> spin_locked s"
  shows "spin_inv (goto c Taken (s\<lparr>spin_locked := True\<rparr>))"
proof -
  have none: "\<not> owns_lock (spin_pcs s d)" for d using spin_inv_locked [OF inv] free by blast
  then have now: "\<not> owner_written (spin_pcs s d)" for d by (blast dest: owner_written_owns)
  have "cpu_ident c" using spin_inv_ident [OF inv] pc by simp
  then show ?thesis
    by (intro spin_invI)
       (use none now in \<open>auto simp: goto_def spin_inv_ident [OF inv] spin_inv_no_panic [OF inv]
          spin_inv_owner [OF inv, symmetric] split: if_splits\<close>)
qed

lemma spin_inv_set_owner:
  assumes inv: "spin_inv s" and pc: "spin_pcs s c = Taken"
  shows "spin_inv (goto c Critical (s\<lparr>spin_owner := c\<rparr>))"
proof -
  have c: "cpu_ident c" using spin_inv_ident [OF inv] pc by simp
  have other: "\<not> owns_lock (spin_pcs s d)" if "d \<noteq> c" for d
    using spin_inv_unique [OF inv, of c d] pc that by auto
  then have now: "\<not> owner_written (spin_pcs s d)" if "d \<noteq> c" for d using that by (blast dest: owner_written_owns)
  have lk: "spin_locked s" using spin_inv_locked [OF inv, of c] pc by simp
  show ?thesis
    by (rule spin_invI)
       (use lk other now c in \<open>auto simp: goto_def spin_inv_ident [OF inv] spin_inv_no_panic [OF inv] split: if_splits\<close>)
qed

lemma spin_inv_clear_owner:
  assumes inv: "spin_inv s" and pc: "spin_pcs s c = RelClearOwner"
  shows "spin_inv (goto c RelUnlock (s\<lparr>spin_owner := UINT32_MAX\<rparr>))"
proof -
  have c: "cpu_ident c" using spin_inv_ident [OF inv] pc by simp
  have other: "\<not> owns_lock (spin_pcs s d)" if "d \<noteq> c" for d
    using spin_inv_unique [OF inv, of c d] pc that by auto
  then have now: "\<not> owner_written (spin_pcs s d)" if "d \<noteq> c" for d using that by (blast dest: owner_written_owns)
  have lk: "spin_locked s" using spin_inv_locked [OF inv, of c] pc by simp
  show ?thesis
    by (rule spin_invI)
       (use lk other now c in \<open>auto simp: goto_def spin_inv_ident [OF inv] spin_inv_no_panic [OF inv] split: if_splits\<close>)
qed

lemma spin_inv_unlock:
  assumes inv: "spin_inv s" and pc: "spin_pcs s c = RelUnlock"
  shows "spin_inv (goto c Outside (s\<lparr>spin_locked := False\<rparr>))"
proof -
  have c: "cpu_ident c" using spin_inv_ident [OF inv] pc by simp
  have "\<not> owns_lock (spin_pcs s d)" if "d \<noteq> c" for d
    using spin_inv_unique [OF inv, of c d] pc that by auto
  then have other: "\<And>d. owns_lock (spin_pcs s d) \<Longrightarrow> d = c" by blast
  have "spin_owner s \<noteq> c" using spin_inv_owner [OF inv c] pc by simp
  then show ?thesis
    by (intro spin_invI)
       (use other c in \<open>auto simp: goto_def spin_inv_ident [OF inv] spin_inv_no_panic [OF inv]
          spin_inv_owner [OF inv] split: if_splits\<close>)
qed

lemma spin_inv_step:
  assumes step: "spin_step s t" and inv: "spin_inv s"
  shows "spin_inv t"
  using step inv
proof (induction rule: spin_step.induct)
  case (acq_owner_self s c)
  then have "cpu_ident c" by (simp add: spin_inv_ident)
  with spin_inv_owner acq_owner_self show ?case by fastforce
next
  case (rel_check_free s c)
  then show ?case using spin_inv_locked [of s c] by simp
next
  case (rel_owner_other s c)
  then have "cpu_ident c" by (simp add: spin_inv_ident)
  with spin_inv_owner [of s c] rel_owner_other show ?case by simp
qed (simp_all add: spin_inv_goto spin_inv_taken spin_inv_set_owner spin_inv_clear_owner
       spin_inv_unlock spin_inv_ident)

interpretation spin_ts: transition_system spin_initialised spin_step spin_inv
  by unfold_locales (auto intro: spin_inv_init spin_inv_step)


section \<open>Properties\<close>


definition spin_start :: "u32 \<Rightarrow> spin_sys" where
  "spin_start w = \<lparr>spin_locked = False, spin_owner = w, spin_pcs = (\<lambda>_. Outside)\<rparr>"

text \<open>One CPU walks alone through \<open>acquire_Spinlock\<close>.\<close>

lemma spin_walk:
  assumes start: "init (spin_start w)" and c: "cpu_ident c"
  shows "reach init spin_step
     \<lparr>spin_locked = True, spin_owner = c, spin_pcs = (\<lambda>_. Outside)(c := Critical)\<rparr>"
proof -
  let ?f = "\<lambda>p. (\<lambda>_. Outside)(c := p)"
  have "reach init spin_step (goto c AcqCheck (spin_start w))"
    by (rule reach_step [where s = "spin_start w"], rule reach_init, rule start)
       (rule acq_enter, simp_all add: c spin_start_def)
  then have "reach init spin_step (goto c Spinning (goto c AcqCheck (spin_start w)))"
    by (rule reach_step) (rule acq_check_free, simp_all add: goto_def spin_start_def)
  then have "reach init spin_step
      (goto c Taken ((goto c Spinning (goto c AcqCheck (spin_start w)))\<lparr>spin_locked := True\<rparr>))"
    by (rule reach_step) (rule acq_tas_ok, simp_all add: goto_def spin_start_def)
  then have "reach init spin_step
      (goto c Critical ((goto c Taken ((goto c Spinning (goto c AcqCheck (spin_start w)))\<lparr>spin_locked := True\<rparr>))
         \<lparr>spin_owner := c\<rparr>))"
    by (rule reach_step) (rule acq_set_owner, simp_all add: goto_def spin_start_def)
  then show ?thesis by (simp add: goto_def spin_start_def)
qed


text \<open>The deadlock check of \<open>acquire_Spinlock\<close> is not reliable on a lock that was never passed
  to \<open>init_Spinlock\<close> and lies in zeroed memory, as \<open>bcache.lock\<close> does: its owner field then names
  CPU 0, and CPU 0 can reach the deadlock panic while it holds nothing, because another CPU has
  set \<open>is_locked\<close> but not yet \<open>owner_cpu\<close>.\<close>

theorem uninitialised_lock_false_deadlock:
  "\<exists>s. reach spin_zeroed spin_step s \<and> spin_pcs s 0 = AcqPanic \<and> spin_pcs s 1 = Taken"
proof -
  let ?i = "spin_start 0"
  let ?s1 = "goto 1 AcqCheck ?i" let ?s2 = "goto 1 Spinning ?s1"
  let ?s3 = "goto 1 Taken (?s2\<lparr>spin_locked := True\<rparr>)"
  let ?s4 = "goto 0 AcqCheck ?s3" let ?s5 = "goto 0 AcqOwner ?s4" let ?s6 = "goto 0 AcqPanic ?s5"
  note sim = goto_def spin_start_def cpu_ident_def
  have "reach spin_zeroed spin_step ?i" by (rule reach_init) (simp add: spin_zeroed_def spin_start_def)
  then have "reach spin_zeroed spin_step ?s1" by (rule reach_step) (rule acq_enter, simp_all add: sim)
  then have "reach spin_zeroed spin_step ?s2" by (rule reach_step) (rule acq_check_free, simp_all add: sim)
  then have "reach spin_zeroed spin_step ?s3" by (rule reach_step) (rule acq_tas_ok, simp_all add: sim)
  then have "reach spin_zeroed spin_step ?s4" by (rule reach_step) (rule acq_enter, simp_all add: sim)
  then have "reach spin_zeroed spin_step ?s5" by (rule reach_step) (rule acq_check_locked, simp_all add: sim)
  then have "reach spin_zeroed spin_step ?s6" by (rule reach_step) (rule acq_owner_self, simp_all add: sim)
  then show ?thesis by (intro exI [of _ ?s6]) (simp add: sim)
qed

end
