(* ===== verification/Linked_List.thy ===== *)
theory Linked_List
  imports Cpu
begin

text \<open>
  The intrusive doubly linked list of src/src/kernel/data_structures/linked_list.c.

  The code casts a \<open>struct dll_Head\<close> to a \<open>struct dll_Entry\<close>: \<open>first\<close> overlays \<open>next\<close> and \<open>last\<close>
  overlays \<open>prev\<close>. The model keeps that aliasing: one store for the first and one for the second
  pointer field, indexed by the address of the entry or header, and a store for the counters of
  the headers. The null pointer is 0; following it is \<open>Undefined\<close>.

  Two disciplines of use are verified: a stack (entries go in with \<open>insert_dll_entry_head\<close>) and a
  queue (\<open>insert_dll_entry_tail\<close>), both emptied by \<open>remove_dll_entry_head\<close>. They share the
  contract \<open>pointer_list\<close>.
\<close>

section \<open>Data and operations\<close>

record dll = smp +
  dll_next :: "u64 \<Rightarrow> u64"
  dll_prev :: "u64 \<Rightarrow> u64"
  entry_count :: "u64 \<Rightarrow> u32"

abbreviation dll_first :: "'a dll_scheme \<Rightarrow> u64 \<Rightarrow> u64" where "dll_first \<equiv> dll_next"
abbreviation dll_last :: "'a dll_scheme \<Rightarrow> u64 \<Rightarrow> u64" where "dll_last \<equiv> dll_prev"

definition set_next :: "u64 \<Rightarrow> u64 \<Rightarrow> 'a dll_scheme \<Rightarrow> 'a dll_scheme" where
  "set_next p v s = s\<lparr>dll_next := (dll_next s)(p := v)\<rparr>"

definition set_prev :: "u64 \<Rightarrow> u64 \<Rightarrow> 'a dll_scheme \<Rightarrow> 'a dll_scheme" where
  "set_prev p v s = s\<lparr>dll_prev := (dll_prev s)(p := v)\<rparr>"

definition set_count :: "u64 \<Rightarrow> u32 \<Rightarrow> 'a dll_scheme \<Rightarrow> 'a dll_scheme" where
  "set_count h n s = s\<lparr>entry_count := (entry_count s)(h := n)\<rparr>"

definition remove_dll_entry :: "u64 \<Rightarrow> 'a dll_scheme \<Rightarrow> fault + u64 \<times> 'a dll_scheme" where
  "remove_dll_entry to_rm s =
     (if to_rm = 0 then Inl Undefined
      else let prev = dll_prev s to_rm; nxt = dll_next s to_rm;
               s1 = (if prev \<noteq> 0 then set_next prev nxt s else s);
               s2 = (if nxt \<noteq> 0 then set_prev nxt prev s1 else s1)
           in Inr (to_rm, s2))"

definition remove_dll_entry_head :: "u64 \<Rightarrow> 'a dll_scheme \<Rightarrow> fault + u64 \<times> 'a dll_scheme" where
  "remove_dll_entry_head header s =
     (if header = 0 then Inl (Panic ''remove_dll_from_head() --> received NULL header!'')
      else if dll_first s header = 0 \<or> dll_first s header = header \<or> entry_count s header = 0
      then Inr (0, s)
      else let s1 = set_count header (entry_count s header - 1) s
           in remove_dll_entry (dll_first s1 header) s1)"

definition insert_dll_entry_head :: "u64 \<Rightarrow> u64 \<Rightarrow> 'a dll_scheme \<Rightarrow> fault + unit \<times> 'a dll_scheme" where
  "insert_dll_entry_head header to_insert s =
     (if header = 0 \<or> to_insert = 0 then Inl Undefined
      else if dll_first s header = 0 then
        (if dll_last s header \<noteq> 0
         then Inl (Panic ''insert_dll_entry_head() --> header->first was NULL, but non NULL value in header->last'')
         else let s1 = set_next header to_insert s;
                  s2 = set_prev to_insert header s1;
                  s3 = set_next to_insert header s2
              in Inr ((), set_count header (entry_count s3 header + 1) s3))
      else let old_next = dll_first s header;
               s1 = set_next header to_insert s;
               s2 = set_prev to_insert header s1;
               s3 = set_next to_insert old_next s2
           in Inr ((), set_count header (entry_count s3 header + 1) s3))"

definition insert_dll_entry_tail :: "u64 \<Rightarrow> u64 \<Rightarrow> 'a dll_scheme \<Rightarrow> fault + unit \<times> 'a dll_scheme" where
  "insert_dll_entry_tail header to_insert s =
     (if header = 0 \<or> to_insert = 0 then Inl Undefined
      else if dll_last s header = 0 then
        (if dll_first s header \<noteq> 0
         then Inl (Panic ''insert_dll_entry_tail() --> header->last was NULL, but non NULL value in header->first'')
         else let s1 = set_prev header to_insert s;
                  s2 = set_next header to_insert s1;
                  s3 = set_next to_insert header s2;
                  s4 = set_prev to_insert header s3
              in Inr ((), set_count header (entry_count s4 header + 1) s4))
      else let old_last = dll_last s header;
               s1 = set_prev header to_insert s;
               s2 = set_next to_insert header s1;
               s3 = set_prev to_insert old_last s2;
               s4 = set_next old_last to_insert s3
           in Inr ((), set_count header (entry_count s4 header + 1) s4))"

section \<open>Abstraction\<close>

primrec dpath :: "(u64 \<Rightarrow> u64) \<Rightarrow> u64 \<Rightarrow> u64 list \<Rightarrow> u64 \<Rightarrow> bool" where
  "dpath f p [] q \<longleftrightarrow> p = q"
| "dpath f p (x # xs) q \<longleftrightarrow> p = x \<and> dpath f (f x) xs q"

lemma dpath_upd [simp]: "u \<notin> set xs \<Longrightarrow> dpath (f(u := v)) p xs q = dpath f p xs q"
  by (induction xs arbitrary: p) auto

lemma dpath_append [simp]: "dpath f p (xs @ ys) q \<longleftrightarrow> (\<exists>r. dpath f p xs r \<and> dpath f r ys q)"
  by (induction xs arbitrary: p) auto

lemma dpath_det: "dpath f p xs q \<Longrightarrow> dpath f p xs r \<Longrightarrow> q = r"
  by (induction xs arbitrary: p) auto

lemma dpath_upd_last:
  "dpath f p (xs @ [x]) q \<Longrightarrow> distinct (xs @ [x]) \<Longrightarrow> dpath (f(x := r)) p (xs @ [x]) r"
  by auto

text \<open>A header with its entries. \<open>dll_stack\<close>: every entry's \<open>prev\<close> is the header, which is what
  \<open>insert_dll_entry_head\<close> leaves behind. \<open>dll_queue\<close>: both directions are threaded.\<close>

definition dll_ok :: "u64 \<Rightarrow> u64 list \<Rightarrow> bool" where
  "dll_ok h xs \<longleftrightarrow> h \<noteq> 0 \<and> 0 \<notin> set xs \<and> distinct (h # xs)"

definition dll_stack :: "u64 \<Rightarrow> 'a dll_scheme \<Rightarrow> u64 list \<Rightarrow> bool" where
  "dll_stack h s xs \<longleftrightarrow> dll_ok h xs \<and> length xs \<le> unat (entry_count s h) \<and>
     (\<forall>x \<in> set xs. dll_prev s x = h) \<and>
     ((xs = [] \<and> dll_first s h = 0 \<and> dll_last s h = 0) \<or> dpath (dll_next s) (dll_first s h) xs h)"

definition dll_queue :: "u64 \<Rightarrow> 'a dll_scheme \<Rightarrow> u64 list \<Rightarrow> bool" where
  "dll_queue h s xs \<longleftrightarrow> dll_ok h xs \<and> length xs \<le> unat (entry_count s h) \<and>
     ((xs = [] \<and> dll_first s h = 0 \<and> dll_last s h = 0) \<or>
      dpath (dll_next s) (dll_first s h) xs h \<and> dpath (dll_prev s) (dll_last s h) (rev xs) h)"

lemmas dll_set_defs = set_next_def set_prev_def set_count_def

text \<open>An address that may be linked in: not null, not the header, not yet in the list.\<close>

definition linkable :: "u64 \<Rightarrow> 'a dll_scheme \<Rightarrow> u64 \<Rightarrow> u64 list \<Rightarrow> bool" where
  "linkable h s x xs \<longleftrightarrow> x \<noteq> 0 \<and> x \<noteq> h \<and> x \<notin> set xs \<and> entry_count s h \<noteq> UINT32_MAX"

lemma count_Suc: "n \<le> unat c \<Longrightarrow> c \<noteq> UINT32_MAX \<Longrightarrow> Suc n \<le> unat (c + 1)" for c :: u32
proof -
  assume n: "n \<le> unat c" and c: "c \<noteq> UINT32_MAX"
  from c have "c + 1 \<noteq> 0" by (simp add: u32_plus_one_eq_0_iff)
  then have "unat (c + 1) = Suc (unat c)" by (simp add: unatSuc add.commute)
  with n show ?thesis by simp
qed

lemma count_pred: "Suc n \<le> unat c \<Longrightarrow> n \<le> unat (c - 1)" for c :: u32
proof -
  assume "Suc n \<le> unat c"
  moreover from this have "c \<noteq> 0" by auto
  then have "unat (c - 1) = unat c - 1" by (simp add: unat_minus_one)
  ultimately show ?thesis by simp
qed

lemma dll_stack_insert:
  assumes "dll_stack h s xs" "linkable h s x xs"
  shows "\<exists>t. insert_dll_entry_head h x s = Inr ((), t) \<and> dll_stack h t (x # xs)"
proof -
  from assms have ok: "dll_ok h (x # xs)" by (auto simp: dll_stack_def linkable_def dll_ok_def)
  from assms have cnt: "Suc (length xs) \<le> unat (entry_count s h + 1)"
    by (auto simp: dll_stack_def linkable_def intro: count_Suc)
  have hx: "h \<notin> set xs" "x \<notin> set xs" "x \<noteq> h" "h \<noteq> 0" "x \<noteq> 0" "0 \<notin> set xs" using ok by (auto simp: dll_ok_def)
  show ?thesis
    using assms ok cnt hx unfolding dll_stack_def insert_dll_entry_head_def Let_def
    by (cases xs) (auto simp: dll_set_defs)
qed

lemma dll_queue_insert:
  assumes "dll_queue h s xs" "linkable h s x xs"
  shows "\<exists>t. insert_dll_entry_tail h x s = Inr ((), t) \<and> dll_queue h t (xs @ [x])"
proof -
  from assms have ok: "dll_ok h (xs @ [x])" by (auto simp: dll_queue_def linkable_def dll_ok_def)
  from assms have cnt: "Suc (length xs) \<le> unat (entry_count s h + 1)"
    by (auto simp: dll_queue_def linkable_def intro: count_Suc)
  have hx: "h \<notin> set xs" "x \<notin> set xs" "x \<noteq> h" "h \<noteq> 0" "x \<noteq> 0" "0 \<notin> set xs" using ok by (auto simp: dll_ok_def)
  show ?thesis
  proof (cases xs rule: rev_cases)
    case Nil
    with assms ok cnt hx show ?thesis
      unfolding dll_queue_def insert_dll_entry_tail_def Let_def by (auto simp: dll_set_defs)
  next
    case (snoc ys y)
    with ok have y: "y \<noteq> 0" "y \<noteq> h" "y \<noteq> x" "y \<notin> set ys" by (auto simp: dll_ok_def)
    from assms(1) snoc have "dll_last s h = y" by (auto simp: dll_queue_def)
    with assms ok cnt hx y snoc show ?thesis
      unfolding dll_queue_def insert_dll_entry_tail_def Let_def by (auto simp: dll_set_defs)
  qed
qed


lemma hd_snoc_neq: "y \<noteq> v \<Longrightarrow> v \<notin> set zs \<Longrightarrow> hd (zs @ [y]) \<noteq> v"
  by (cases zs) auto

lemma last_Cons_neq: "y \<noteq> v \<Longrightarrow> v \<notin> set zs \<Longrightarrow> last (y # zs) \<noteq> v"
  by (cases zs rule: rev_cases) auto

lemma dll_stack_remove_entry:
  assumes st: "dll_stack h s (ys @ x # zs)"
  shows "\<exists>t. remove_dll_entry x s = Inr (x, t) \<and> dll_stack h t zs \<and> entry_count t = entry_count s"
proof -
  from st have ok: "h \<noteq> 0" "x \<noteq> 0" "x \<noteq> h" "0 \<notin> set zs" "h \<notin> set zs" "x \<notin> set zs" "distinct zs"
    by (auto simp: dll_stack_def dll_ok_def)
  from st have prev: "\<And>z. z = x \<or> z \<in> set zs \<Longrightarrow> dll_prev s z = h"
    and path: "dpath (dll_next s) (dll_next s x) zs h" and len: "length zs \<le> unat (entry_count s h)"
    by (auto simp: dll_stack_def)
  have n: "dll_next s x = hd (zs @ [h])" using path by (cases zs) simp_all
  have n0: "hd (zs @ [h]) \<noteq> 0" using ok by (simp add: hd_snoc_neq)
  let ?t = "set_prev (hd (zs @ [h])) h (set_next h (hd (zs @ [h])) s)"
  have "remove_dll_entry x s = Inr (x, ?t)"
    unfolding remove_dll_entry_def Let_def using ok prev n n0 by simp
  moreover have "dpath (dll_next ?t) (dll_next ?t h) zs h"
    using path ok n by (simp add: dll_set_defs)
  moreover have "\<forall>z \<in> set zs. dll_prev ?t z = h"
    using prev by (simp add: dll_set_defs)
  ultimately show ?thesis using ok len by (simp add: dll_stack_def dll_ok_def dll_set_defs)
qed

lemma dll_queue_remove_entry:
  assumes "dll_queue h s (ys @ x # zs)"
  shows "\<exists>t. remove_dll_entry x s = Inr (x, t) \<and> dll_queue h t (ys @ zs) \<and> entry_count t = entry_count s"
proof -
  from assms have ok: "h \<noteq> 0" "x \<noteq> 0" "x \<noteq> h" "0 \<notin> set zs" "h \<notin> set zs" "x \<notin> set zs" "distinct zs"
      "0 \<notin> set ys" "h \<notin> set ys" "x \<notin> set ys" "distinct ys" "set ys \<inter> set zs = {}"
    by (auto simp: dll_queue_def dll_ok_def)
  from assms have fwd: "dpath (dll_next s) (dll_next s h) ys x" "dpath (dll_next s) (dll_next s x) zs h"
    and bwd: "dpath (dll_prev s) (dll_prev s h) (rev zs) x" "dpath (dll_prev s) (dll_prev s x) (rev ys) h"
    and len: "length (ys @ zs) \<le> unat (entry_count s h)"
    by (auto simp: dll_queue_def)
  have p: "dll_prev s x = last (h # ys)" using bwd(2) by (cases ys rule: rev_cases) auto
  have n: "dll_next s x = hd (zs @ [h])" using fwd(2) by (cases zs) auto
  have p0: "last (h # ys) \<noteq> 0" and n0: "hd (zs @ [h]) \<noteq> 0" using ok by (simp_all add: hd_snoc_neq last_Cons_neq del: last.simps)
  let ?t = "set_prev (hd (zs @ [h])) (last (h # ys)) (set_next (last (h # ys)) (hd (zs @ [h])) s)"
  have "remove_dll_entry x s = Inr (x, ?t)"
    unfolding remove_dll_entry_def Let_def using ok p n p0 n0 by simp
  moreover have "dpath (dll_next ?t) (dll_next ?t h) (ys @ zs) h"
    using fwd ok by (cases ys rule: rev_cases; cases zs) (auto simp: dll_set_defs)
  moreover have "dpath (dll_prev ?t) (dll_prev ?t h) (rev (ys @ zs)) h"
    using bwd ok by (cases ys rule: rev_cases; cases zs) (auto simp: dll_set_defs)
  ultimately show ?thesis using ok len by (auto simp: dll_queue_def dll_ok_def dll_set_defs)
qed

lemma dll_stack_set_count:
  "dll_stack h s xs \<Longrightarrow> length xs \<le> unat n \<Longrightarrow> dll_stack h (set_count h n s) xs"
  by (simp add: dll_stack_def set_count_def)

lemma dll_queue_set_count:
  "dll_queue h s xs \<Longrightarrow> length xs \<le> unat n \<Longrightarrow> dll_queue h (set_count h n s) xs"
  by (simp add: dll_queue_def set_count_def)

lemma remove_dll_entry_set_count:
  "remove_dll_entry x (set_count h n s) =
     (case remove_dll_entry x s of Inl e \<Rightarrow> Inl e | Inr r \<Rightarrow> Inr (fst r, set_count h n (snd r)))"
  by (simp add: remove_dll_entry_def Let_def dll_set_defs)

lemma dll_stack_remove_head:
  assumes "dll_stack h s (x # xs)"
  shows "\<exists>t. remove_dll_entry_head h s = Inr (x, t) \<and> dll_stack h t xs"
proof -
  from assms have f: "dll_first s h = x" "x \<noteq> 0" "h \<noteq> x" "h \<noteq> 0"
    and len: "Suc (length xs) \<le> unat (entry_count s h)"
    by (simp_all add: dll_stack_def dll_ok_def)
  from len have e0: "entry_count s h \<noteq> 0" by auto
  from len have cnt: "length xs \<le> unat (entry_count s h - 1)" by (rule count_pred)
  obtain t where t: "remove_dll_entry x s = Inr (x, t)" "dll_stack h t xs"
    using dll_stack_remove_entry [of h s "[]" x xs] assms by auto
  from t(2) cnt have "dll_stack h (set_count h (entry_count s h - 1) t) xs" by (rule dll_stack_set_count)
  then show ?thesis using f t(1) e0
    by (simp add: remove_dll_entry_head_def Let_def remove_dll_entry_set_count)
       (simp add: set_count_def)
qed

lemma dll_queue_remove_head:
  assumes "dll_queue h s (x # xs)"
  shows "\<exists>t. remove_dll_entry_head h s = Inr (x, t) \<and> dll_queue h t xs"
proof -
  from assms have f: "dll_first s h = x" "x \<noteq> 0" "h \<noteq> x" "h \<noteq> 0"
    and len: "Suc (length xs) \<le> unat (entry_count s h)"
    by (simp_all add: dll_queue_def dll_ok_def)
  from len have e0: "entry_count s h \<noteq> 0" by auto
  from len have cnt: "length xs \<le> unat (entry_count s h - 1)" by (rule count_pred)
  obtain t where t: "remove_dll_entry x s = Inr (x, t)" "dll_queue h t xs"
    using dll_queue_remove_entry [of h s "[]" x xs] assms by auto
  from t(2) cnt have "dll_queue h (set_count h (entry_count s h - 1) t) xs" by (rule dll_queue_set_count)
  then show ?thesis using f t(1) e0
    by (simp add: remove_dll_entry_head_def Let_def remove_dll_entry_set_count)
       (simp add: set_count_def)
qed

section \<open>The shared contract\<close>

fun drain :: "('s \<Rightarrow> fault + u64 \<times> 's) \<Rightarrow> nat \<Rightarrow> 's \<Rightarrow> fault + u64 list \<times> 's" where
  "drain del 0 s = Inr ([], s)"
| "drain del (Suc n) s = bnd del (\<lambda>x. bnd (drain del n) (\<lambda>xs. ret (x # xs))) s"

fun fill :: "(u64 \<Rightarrow> 's \<Rightarrow> fault + unit \<times> 's) \<Rightarrow> u64 list \<Rightarrow> 's \<Rightarrow> fault + unit \<times> 's" where
  "fill ins [] s = Inr ((), s)"
| "fill ins (x # xs) s = seqn (ins x) (fill ins xs) s"

text \<open>\<open>place x xs\<close> is where a new entry goes: at the front of a stack, at the end of a queue.\<close>

locale pointer_list =
  fixes ins :: "u64 \<Rightarrow> 's \<Rightarrow> fault + unit \<times> 's" and del :: "'s \<Rightarrow> fault + u64 \<times> 's"
    and content :: "'s \<Rightarrow> u64 list \<Rightarrow> bool" and addable :: "'s \<Rightarrow> u64 \<Rightarrow> u64 list \<Rightarrow> bool"
    and place :: "u64 \<Rightarrow> u64 list \<Rightarrow> u64 list"
  assumes ins_content: "content s xs \<Longrightarrow> addable s x xs \<Longrightarrow> \<exists>t. ins x s = Inr ((), t) \<and> content t (place x xs)"
    and del_content: "content s (x # xs) \<Longrightarrow> \<exists>t. del s = Inr (x, t) \<and> content t xs"
    and del_empty: "content s [] \<Longrightarrow> del s = Inr (0, s)"
begin

lemma drain_content:
  "content s xs \<Longrightarrow> \<exists>t. drain del (length xs) s = Inr (xs, t) \<and> content t []"
proof (induction xs arbitrary: s)
  case (Cons x xs)
  from del_content [OF Cons.prems] obtain t where t: "del s = Inr (x, t)" "content t xs" by blast
  from Cons.IH [OF t(2)] t(1) show ?case by (auto simp: op_combinators)
qed simp

lemma ins_then_drain:
  assumes "content s xs" "addable s x xs"
  shows "\<exists>t u. ins x s = Inr ((), t) \<and> drain del (length (place x xs)) t = Inr (place x xs, u) \<and> content u []"
  using ins_content [OF assms] drain_content by blast

end

interpretation dstack: pointer_list "insert_dll_entry_head h" "remove_dll_entry_head h" "dll_stack h"
  "linkable h" "(#)" for h :: u64
proof unfold_locales
  fix s :: "'a dll_scheme" and xs x
  show "dll_stack h s xs \<Longrightarrow> linkable h s x xs \<Longrightarrow>
      \<exists>t. insert_dll_entry_head h x s = Inr ((), t) \<and> dll_stack h t (x # xs)"
    by (rule dll_stack_insert)
  show "dll_stack h s (x # xs) \<Longrightarrow> \<exists>t. remove_dll_entry_head h s = Inr (x, t) \<and> dll_stack h t xs"
    by (rule dll_stack_remove_head)
  show "dll_stack h s [] \<Longrightarrow> remove_dll_entry_head h s = Inr (0, s)"
    by (auto simp: dll_stack_def dll_ok_def remove_dll_entry_head_def)
qed

interpretation dqueue: pointer_list "insert_dll_entry_tail h" "remove_dll_entry_head h" "dll_queue h"
  "linkable h" "\<lambda>x xs. xs @ [x]" for h :: u64
proof unfold_locales
  fix s :: "'a dll_scheme" and xs x
  show "dll_queue h s xs \<Longrightarrow> linkable h s x xs \<Longrightarrow>
      \<exists>t. insert_dll_entry_tail h x s = Inr ((), t) \<and> dll_queue h t (xs @ [x])"
    by (rule dll_queue_insert)
  show "dll_queue h s (x # xs) \<Longrightarrow> \<exists>t. remove_dll_entry_head h s = Inr (x, t) \<and> dll_queue h t xs"
    by (rule dll_queue_remove_head)
  show "dll_queue h s [] \<Longrightarrow> remove_dll_entry_head h s = Inr (0, s)"
    by (auto simp: dll_queue_def dll_ok_def remove_dll_entry_head_def)
qed


section \<open>A concrete store\<close>

definition boot_dll :: dll where
  "boot_dll = smp.extend boot_smp \<lparr>dll_next = (\<lambda>_. 0), dll_prev = (\<lambda>_. 0), entry_count = (\<lambda>_. 0)\<rparr>"

lemmas boot_dll_simps = boot_dll_def smp.defs

section \<open>Properties\<close>

text \<open>C28: first in, first out. On a well-formed queue that holds \<open>xs\<close> (the IDE request queue and
  the PCI device list are used this way), \<open>insert_dll_entry_tail\<close> of a new entry succeeds, and
  draining the list with \<open>remove_dll_entry_head\<close> returns the old entries in order, then the new
  one, and leaves a well-formed empty queue that answers NULL.\<close>

theorem dll_queue_fifo:
  assumes "dll_queue h s xs" and "linkable h s x xs"
  shows "\<exists>t u. insert_dll_entry_tail h x s = Inr ((), t)
     \<and> drain (remove_dll_entry_head h) (Suc (length xs)) t = Inr (xs @ [x], u)
     \<and> dll_queue h u [] \<and> remove_dll_entry_head h u = Inr (0, u)"
  using dqueue.ins_then_drain [OF assms] dqueue.del_empty by fastforce

theorem dll_queue_fifo_witness:
  "dll_queue 16 boot_dll [] \<and> linkable 16 boot_dll 32 [] \<and>
   (\<exists>t u. insert_dll_entry_tail 16 32 boot_dll = Inr ((), t)
     \<and> drain (remove_dll_entry_head 16) 1 t = Inr ([32], u))"
proof -
  have q: "dll_queue 16 boot_dll []" and l: "linkable 16 boot_dll 32 []"
    by (simp_all add: dll_queue_def linkable_def dll_ok_def boot_dll_simps)
  show ?thesis using dll_queue_fifo [OF q l] q l by auto
qed

text \<open>A list filled with \<open>insert_dll_entry_head\<close>, which never sets the \<open>prev\<close> field of the entry
  it pushes down, behaves as a stack; but \<open>remove_dll_entry\<close> on an entry of such a list drops, with
  that entry, every entry in front of it: only the entries behind it stay in the list.\<close>

theorem dll_stack_remove_drops_prefix:
  assumes "dll_stack h s xs" and "linkable h s x xs"
  shows "\<exists>t. insert_dll_entry_head h x s = Inr ((), t) \<and> dll_stack h t (x # xs) \<and>
     (\<forall>ys y zs. xs = ys @ y # zs \<longrightarrow> (\<exists>u. remove_dll_entry y t = Inr (y, u) \<and> dll_stack h u zs))"
proof -
  from dll_stack_insert [OF assms] obtain t where
    t: "insert_dll_entry_head h x s = Inr ((), t)" "dll_stack h t (x # xs)" by blast
  have "\<exists>u. remove_dll_entry y t = Inr (y, u) \<and> dll_stack h u zs" if "xs = ys @ y # zs" for ys y zs
    using dll_stack_remove_entry [of h t "x # ys" y zs] t(2) that by auto
  with t show ?thesis by blast
qed

theorem dll_stack_remove_drops_prefix_witness:
  "\<exists>s t u. insert_dll_entry_head 16 32 boot_dll = Inr ((), s) \<and> dll_stack 16 s [32]
     \<and> linkable 16 s 48 [32] \<and> insert_dll_entry_head 16 48 s = Inr ((), t)
     \<and> dll_stack 16 t [48, 32] \<and> remove_dll_entry 32 t = Inr (32, u) \<and> dll_stack 16 u []"
proof -
  have e: "dll_stack 16 boot_dll []" "linkable 16 boot_dll 32 []"
    by (simp_all add: dll_stack_def linkable_def dll_ok_def boot_dll_simps)
  then obtain s where s: "insert_dll_entry_head 16 32 boot_dll = Inr ((), s)" "dll_stack 16 s [32]"
    using dll_stack_remove_drops_prefix [of 16 boot_dll "[]" 32] by blast
  then have l: "linkable 16 s 48 [32]"
    by (auto simp: linkable_def insert_dll_entry_head_def Let_def boot_dll_simps dll_set_defs)
  from dll_stack_remove_drops_prefix [OF s(2) l] s l show ?thesis by fastforce
qed

end
