(* ===== verification/Kernel_Heap.thy ===== *)
theory Kernel_Heap
  imports Linked_List
begin

text \<open>
  The kernel heap, a buddy tree: src/src/kernel/mem/vmm.c and include/mem/vmm.h.

  \<open>heap_tree\<close> is the array \<open>global_Settings.kernel_heap.heap_tree\<close> of \<open>KERNEL_HEAP_LEN\<close> sections;
  the code tests an index against that bound before it reads a section, except in \<open>get_buddy\<close>,
  where the model answers \<open>Undefined\<close> outside the array. Tree indices stay below \<open>2 * KERNEL_HEAP_LEN\<close>,
  far from the range of \<open>uint32_t\<close>, and are natural numbers here; sizes and offsets are 64-bit words.

  \<open>find_heap_frame\<close> ends without a \<open>return\<close> when both subtrees are exhausted. The C standard leaves
  the value its caller reads undefined; a given compilation leaves some value in the return
  register. \<open>no_return\<close> is a parameter of the model for this: \<open>None\<close> follows the standard (the fault
  \<open>Undefined\<close>), \<open>Some v\<close> is a compilation in which the caller reads \<open>v\<close>. With the flags of the
  Makefile (\<open>-O0\<close>) the register still holds the result of the last call, \<open>UINT64_MAX\<close>.
\<close>

section \<open>Data\<close>

definition KERNEL_HEAP_LEN :: nat where "KERNEL_HEAP_LEN = 1048575"
definition KERNEL_HEAP_MINBLOCK :: u64 where "KERNEL_HEAP_MINBLOCK = 64 * 1024"
definition HEAP_FLAG_OCCUPIED :: u32 where "HEAP_FLAG_OCCUPIED = 1"

definition HEAP_GET_PARENT :: "nat \<Rightarrow> nat" where
  "HEAP_GET_PARENT x = (x - x mod 2) div 2"

record HeapSection =
  sec_size :: u64
  sec_offset :: u64
  sec_index :: u64
  in_use :: bool
  flags :: u32

type_synonym heap_array = "nat \<Rightarrow> HeapSection"

record kheap = dll +
  heap_tree :: heap_array
  heap_va_start :: u64
  no_return :: "u64 option"

section \<open>Operations\<close>

function kernel_heap_tree_init :: "nat \<Rightarrow> u32 \<Rightarrow> u32 \<Rightarrow> 'a kheap_scheme \<Rightarrow> 'a kheap_scheme" where
  "kernel_heap_tree_init curr_index block_size offset s =
     (if curr_index \<ge> KERNEL_HEAP_LEN then s
      else let s1 = upd_lock KernelHeapLock (init_lock ''KernelHeapLock'') s;
               s2 = s1\<lparr>heap_tree := (heap_tree s1)(curr_index :=
                      \<lparr>sec_size = ucast block_size, sec_offset = ucast offset,
                       sec_index = of_nat curr_index, in_use = False, flags = 0\<rparr>)\<rparr>;
               s3 = (if curr_index \<noteq> 0
                     then kernel_heap_tree_init (curr_index * 2) (block_size div 2) offset s2 else s2)
           in kernel_heap_tree_init (curr_index * 2 + 1) (block_size div 2) (offset + block_size div 2) s3)"
  by pat_completeness auto
termination
  by (relation "measure (\<lambda>(i, _). KERNEL_HEAP_LEN - i)") auto

partial_function (option) heap_search_by_offset :: "heap_array \<Rightarrow> u32 \<Rightarrow> nat \<Rightarrow> nat option option" where
  "heap_search_by_offset tree offset curr_index =
     (if curr_index \<ge> KERNEL_HEAP_LEN then Some None
      else let curr_section = tree curr_index in
        if \<not> (ucast offset \<ge> sec_offset curr_section
              \<and> ucast offset < sec_offset curr_section + sec_size curr_section)
        then Some None
        else if in_use curr_section then Some (Some curr_index)
        else if ucast offset \<ge> sec_offset curr_section + sec_size curr_section div 2
        then heap_search_by_offset tree offset (curr_index * 2 + 1)
        else heap_search_by_offset tree offset (curr_index * 2))"

definition get_buddy :: "heap_array \<Rightarrow> nat \<Rightarrow> fault + HeapSection" where
  "get_buddy tree index =
     (if index mod 2 = 0
      then if index + 1 < KERNEL_HEAP_LEN then Inr (tree (index + 1)) else Inl Undefined
      else if index - 1 < KERNEL_HEAP_LEN then Inr (tree (index - 1)) else Inl Undefined)"

function find_heap_frame ::
  "u64 option \<Rightarrow> u64 \<Rightarrow> heap_array \<Rightarrow> u64 \<Rightarrow> nat \<Rightarrow> fault + u64 \<times> heap_array" where
  "find_heap_frame nr va tree sz index =
     (if index \<ge> KERNEL_HEAP_LEN then Inr (UINT64_MAX, tree)
      else let curr_section = tree index in
        if sz > sec_size curr_section \<or> flags curr_section AND HEAP_FLAG_OCCUPIED \<noteq> 0
        then Inr (UINT64_MAX, tree)
        else if sec_size curr_section \<ge> sz
             \<and> (sec_size curr_section div 2 < sz \<or> sec_size curr_section = KERNEL_HEAP_MINBLOCK)
             \<and> \<not> in_use curr_section
        then Inr (sec_offset curr_section + va,
                  tree(index := curr_section\<lparr>flags := HEAP_FLAG_OCCUPIED, in_use := True\<rparr>))
        else case (if index \<noteq> 0 then find_heap_frame nr va tree sz (index * 2)
                   else Inr (UINT64_MAX, tree)) of
          Inl e \<Rightarrow> Inl e
        | Inr (left_search, tree1) \<Rightarrow>
            if left_search \<noteq> UINT64_MAX
            then Inr (left_search, tree1(index := (tree1 index)\<lparr>in_use := True\<rparr>))
            else case find_heap_frame nr va tree1 sz (index * 2 + 1) of
              Inl e \<Rightarrow> Inl e
            | Inr (right_search, tree2) \<Rightarrow>
                if right_search \<noteq> UINT64_MAX
                then Inr (right_search, tree2(index := (tree2 index)\<lparr>in_use := True\<rparr>))
                else case nr of None \<Rightarrow> Inl Undefined | Some v \<Rightarrow> Inr (v, tree2))"
  by pat_completeness auto
termination
  by (relation "measure (\<lambda>(nr, va, tree, sz, i). KERNEL_HEAP_LEN - i)") auto

declare kernel_heap_tree_init.simps [simp del]
declare find_heap_frame.simps [simp del]

definition kheap_request :: "u64 \<Rightarrow> 'a kheap_scheme \<Rightarrow> fault + u64 \<times> 'a kheap_scheme" where
  "kheap_request sz s =
     (case find_heap_frame (no_return s) (heap_va_start s) (heap_tree s) sz 0 of
        Inl e \<Rightarrow> Inl e
      | Inr (a, tree) \<Rightarrow> Inr (a, s\<lparr>heap_tree := tree\<rparr>))"

definition kalloc :: "u64 \<Rightarrow> 'a kheap_scheme \<Rightarrow> fault + u64 \<times> 'a kheap_scheme" where
  "kalloc sz =
     seqn (acquire_Spinlock KernelHeapLock)
    (bnd (kheap_request sz) (\<lambda>kheap_memory.
     if kheap_memory = UINT64_MAX then ret 0
     else seqn (release_Spinlock KernelHeapLock) (ret kheap_memory)))"

text \<open>
  The loop of \<open>kfree\<close>. \<open>curr\<close>, \<open>buddy\<close> and \<open>parent\<close> are local copies of sections (\<open>struct HeapSection\<close>
  values, not pointers), so what the code assigns to them reaches no section of the heap; only the
  index and the copy of the buddy steer the loop.
\<close>

function kfree_merge :: "heap_array \<Rightarrow> HeapSection \<Rightarrow> nat \<Rightarrow> fault + nat" where
  "kfree_merge tree buddy section_index =
     (if \<not> in_use buddy \<and> flags buddy AND HEAP_FLAG_OCCUPIED = 0 \<and> section_index > 0
      then let parent_index = HEAP_GET_PARENT section_index in
        case get_buddy tree parent_index of
          Inl e \<Rightarrow> Inl e
        | Inr buddy' \<Rightarrow> kfree_merge tree buddy' parent_index
      else Inr section_index)"
  by pat_completeness auto
termination
  by (relation "measure (\<lambda>(tree, b, i). i)") (auto simp: HEAP_GET_PARENT_def)

declare kfree_merge.simps [simp del]

definition kfree :: "u64 \<Rightarrow> 'a kheap_scheme \<Rightarrow> fault + bool \<times> 'a kheap_scheme" where
  "kfree addr =
     seqn (acquire_Spinlock KernelHeapLock)
    (bnd (gets (\<lambda>s. addr < heap_va_start s)) (\<lambda>below.
     if below then ret False
     else bnd (gets (\<lambda>s. heap_search_by_offset (heap_tree s) (ucast (addr - heap_va_start s)) 0)) (\<lambda>r.
     case r of
       None \<Rightarrow> raise Diverge
     | Some None \<Rightarrow> ret False
     | Some (Some section_index) \<Rightarrow>
         bnd (gets heap_tree) (\<lambda>tree.
         case get_buddy tree section_index of
           Inl e \<Rightarrow> raise e
         | Inr buddy \<Rightarrow>
             (case kfree_merge tree buddy section_index of
                Inl e \<Rightarrow> raise e
              | Inr _ \<Rightarrow> seqn (release_Spinlock KernelHeapLock) (ret True))))))"


section \<open>The shape of the tree\<close>

text \<open>
  \<open>anc i j\<close>: section \<open>j\<close> is section \<open>i\<close> or lies below it. The parent of \<open>j\<close> is \<open>j div 2\<close>, and
  section 0 has the single child 1. \<open>hsz\<close> and \<open>hoff\<close> are the size and the offset of a section.
\<close>

function anc :: "nat \<Rightarrow> nat \<Rightarrow> bool" where
  "anc i j = (if j \<le> i then j = i else anc i (j div 2))"
  by pat_completeness auto
termination by (relation "measure snd") auto

declare anc.simps [simp del]

fun hsz :: "nat \<Rightarrow> nat" where
  "hsz i = (if i = 0 then 2 ^ 31 else hsz (i div 2) div 2)"

fun hoff :: "nat \<Rightarrow> nat" where
  "hoff i = (if i = 0 then 0 else hoff (i div 2) + (if odd i then hsz (i div 2) div 2 else 0))"

declare hsz.simps [simp del] hoff.simps [simp del]

definition blk :: "nat \<Rightarrow> nat set" where
  "blk i = {hoff i ..< hoff i + hsz i}"

lemma anc_refl [simp]: "anc i i"
  by (simp add: anc.simps)

lemma anc_le: "anc i j \<Longrightarrow> i \<le> j"
  by (induction i j rule: anc.induct) (auto simp: anc.simps split: if_splits)

lemma anc_antisym: "anc i j \<Longrightarrow> anc j i \<Longrightarrow> i = j"
  by (simp add: anc_le le_antisym)

lemma anc_parent: "0 < j \<Longrightarrow> anc (j div 2) j"
  by (subst anc.simps) simp

lemma anc_up: "anc c j \<Longrightarrow> 0 < c \<Longrightarrow> anc (c div 2) j"
proof (induction c j rule: anc.induct)
  case (1 c j)
  show ?case
  proof (cases "j \<le> c")
    case True
    with 1 show ?thesis by (auto simp: anc.simps [of c j] intro: anc_parent)
  next
    case False
    with 1 have "anc (c div 2) (j div 2)" by (simp add: anc.simps [of c j])
    with False show ?thesis by (subst anc.simps) auto
  qed
qed

lemma anc_down: "anc i j \<Longrightarrow> j = i \<or> 0 < i \<and> anc (i * 2) j \<or> anc (i * 2 + 1) j"
proof (induction i j rule: anc.induct)
  case (1 i j)
  show ?case
  proof (cases "j \<le> i")
    case False
    with 1 have d: "j div 2 = i \<or> 0 < i \<and> anc (i * 2) (j div 2) \<or> anc (i * 2 + 1) (j div 2)"
      by (simp add: anc.simps [of i j])
    have lift: "anc c j" if "anc c (j div 2)" for c
      using that False anc_le [OF that] by (subst anc.simps) auto
    show ?thesis
    proof (cases "j div 2 = i")
      case True
      then have "j = i * 2 \<or> j = i * 2 + 1" by auto
      with False show ?thesis by auto
    next
      case False
      with d lift show ?thesis by blast
    qed
  qed (use 1 in \<open>simp add: anc.simps [of i j]\<close>)
qed

lemma anc_chain: "anc a j \<Longrightarrow> anc b j \<Longrightarrow> a \<le> b \<Longrightarrow> anc a b"
proof (induction b j rule: anc.induct)
  case (1 b j)
  show ?case
  proof (cases "j \<le> b")
    case True
    with 1 have "j = b" by (simp add: anc.simps [of b j])
    with 1 show ?thesis by simp
  next
    case False
    with 1 have "anc b (j div 2)" "anc a (j div 2)"
      by (simp_all add: anc.simps [of b j] anc.simps [of a j])
    with False 1 show ?thesis by simp
  qed
qed

lemma anc_trans: "anc a b \<Longrightarrow> anc b c \<Longrightarrow> anc a c"
proof (induction b c rule: anc.induct)
  case (1 b c)
  show ?case
  proof (cases "c \<le> b")
    case False
    with 1 have "anc a (c div 2)" by (simp add: anc.simps [of b c])
    with False anc_le [OF 1(2)] show ?thesis by (subst anc.simps) auto
  qed (use 1 in \<open>simp add: anc.simps [of b c]\<close>)
qed

lemma anc_siblings: "0 < i \<Longrightarrow> anc (i * 2) j \<Longrightarrow> \<not> anc (i * 2 + 1) j"
proof
  assume i: "0 < i" and j: "anc (i * 2) j" "anc (i * 2 + 1) j"
  have "anc (i * 2) (i * 2 + 1)" by (rule anc_chain [OF j]) simp
  then have "anc (i * 2) i" by (subst (asm) anc.simps) simp
  with i show False using anc_le by fastforce
qed

lemma anc_0 [simp]: "anc 0 j"
proof (induction j rule: less_induct)
  case (less j)
  then show ?case by (cases "j = 0") (simp_all add: anc.simps [of 0 j])
qed

lemma blk_parent: "0 < j \<Longrightarrow> blk j \<subseteq> blk (j div 2)"
  by (auto simp: blk_def hoff.simps [of j] hsz.simps [of j])

lemma blk_anc: "anc i j \<Longrightarrow> blk j \<subseteq> blk i"
proof (induction i j rule: anc.induct)
  case (1 i j)
  then show ?case
    by (cases "j \<le> i") (use blk_parent [of j] in \<open>auto simp: anc.simps [of i j]\<close>)
qed

lemma hsz_anc: "anc i j \<Longrightarrow> hsz j \<le> hsz i"
proof (induction i j rule: anc.induct)
  case (1 i j)
  show ?case
  proof (cases "j \<le> i")
    case False
    with 1 have "hsz (j div 2) \<le> hsz i" by (simp add: anc.simps [of i j])
    with False show ?thesis by (simp add: hsz.simps [of j])
  qed (use 1 in \<open>simp add: anc.simps [of i j]\<close>)
qed

lemma blk_siblings: "blk (i * 2) \<inter> blk (i * 2 + 1) = {}" if "0 < i"
  using that by (auto simp: blk_def hoff.simps [of "i * 2"] hoff.simps [of "Suc (i * 2)"]
      hsz.simps [of "i * 2"])

lemma hoff_hsz_le: "hoff i + hsz i \<le> 2 ^ 31"
proof (induction i rule: less_induct)
  case (less i)
  show ?case
  proof (cases "i = 0")
    case False
    with less have "hoff (i div 2) + hsz (i div 2) \<le> 2 ^ 31" by simp
    then have "hoff (i div 2) + hsz (i div 2) div 2 + hsz (i div 2) div 2 \<le> 2 ^ 31" by linarith
    with False show ?thesis by (auto simp: hoff.simps [of i] hsz.simps [of i])
  qed (simp add: hsz.simps hoff.simps)
qed

lemma blk_incomparable: "\<not> anc i j \<Longrightarrow> \<not> anc j i \<Longrightarrow> blk i \<inter> blk j = {}"
proof (induction "i + j" arbitrary: i j rule: less_induct)
  case less
  have main: "blk i \<inter> blk j = {}" if ij: "i < j" and n: "\<not> anc i j" "\<not> anc j i"
    and IH: "\<And>k. k < j \<Longrightarrow> \<not> anc i k \<Longrightarrow> \<not> anc k i \<Longrightarrow> blk i \<inter> blk k = {}" for i j
  proof (cases "anc (j div 2) i")
    case False
    moreover have "\<not> anc i (j div 2)" using n(1) ij by (subst (asm) anc.simps) auto
    moreover have "j div 2 < j" using ij by auto
    ultimately have "blk i \<inter> blk (j div 2) = {}" by (intro IH)
    with blk_parent [of j] ij show ?thesis by blast
  next
    case True
    have p: "j div 2 \<noteq> i" using n(1) ij anc_parent [of j] by auto
    have "0 < j div 2" using n(1) ij True anc_0 p by (cases "j div 2 = 0") (use ij in auto)
    from anc_down [OF True] p have "anc (j div 2 * 2) i \<or> anc (j div 2 * 2 + 1) i" by auto
    then have "i = j div 2 * 2 \<and> j = j div 2 * 2 + 1"
    proof
      assume a: "anc (j div 2 * 2) i"
      with n(2) have "j \<noteq> j div 2 * 2" by metis
      with anc_le [OF a] ij show ?thesis by presburger
    next
      assume a: "anc (j div 2 * 2 + 1) i"
      with n(2) have "j \<noteq> j div 2 * 2 + 1" by metis
      with anc_le [OF a] ij show ?thesis by presburger
    qed
    then obtain m where "i = m * 2" "j = m * 2 + 1" by blast
    then show ?thesis using blk_siblings [of m] \<open>0 < j div 2\<close> by simp
  qed
  show ?case
  proof (rule linorder_cases [of i j])
    assume "i < j"
    then show ?thesis using less.prems by (rule main) (rule less.hyps, simp_all)
  next
    assume ji: "j < i"
    have IH: "blk j \<inter> blk k = {}" if "k < i" "\<not> anc j k" "\<not> anc k j" for k
      using less.hyps [of k j] that by (simp add: Int_commute)
    have "blk j \<inter> blk i = {}" by (rule main [OF ji less.prems(2,1) IH])
    then show ?thesis by blast
  next
    assume "i = j" with less.prems show ?thesis by simp
  qed
qed


section \<open>The heap invariant\<close>

definition occ :: "heap_array \<Rightarrow> nat \<Rightarrow> bool" where
  "occ tree j \<longleftrightarrow> flags (tree j) AND HEAP_FLAG_OCCUPIED \<noteq> 0"

definition fits :: "u64 \<Rightarrow> HeapSection \<Rightarrow> bool" where
  "fits sz c \<longleftrightarrow> sz \<le> sec_size c \<and> (sec_size c div 2 < sz \<or> sec_size c = KERNEL_HEAP_MINBLOCK)"

definition heap_shape :: "heap_array \<Rightarrow> bool" where
  "heap_shape tree \<longleftrightarrow> (\<forall>i < KERNEL_HEAP_LEN.
     sec_size (tree i) = of_nat (hsz i) \<and> sec_offset (tree i) = of_nat (hoff i))"

text \<open>
  A section that is occupied is in use, a section in use has its parent in use, and no occupied
  section lies below another: the occupied sections are the live allocations.
\<close>

definition heap_wf :: "heap_array \<Rightarrow> bool" where
  "heap_wf tree \<longleftrightarrow> heap_shape tree
     \<and> (\<forall>j < KERNEL_HEAP_LEN. occ tree j \<longrightarrow> in_use (tree j))
     \<and> (\<forall>j < KERNEL_HEAP_LEN. 0 < j \<longrightarrow> in_use (tree j) \<longrightarrow> in_use (tree (j div 2)))
     \<and> (\<forall>i < KERNEL_HEAP_LEN. \<forall>j < KERNEL_HEAP_LEN. occ tree i \<longrightarrow> occ tree j \<longrightarrow> anc i j \<longrightarrow> i = j)"

definition mark :: "nat \<Rightarrow> nat \<Rightarrow> heap_array \<Rightarrow> heap_array" where
  "mark i k tree = (\<lambda>j. if anc i j \<and> anc j k
     then (tree j)\<lparr>in_use := True, flags := if j = k then HEAP_FLAG_OCCUPIED else flags (tree j)\<rparr>
     else tree j)"

text \<open>A section that a request of \<open>sz\<close> bytes issued at section \<open>i\<close> may get.\<close>

definition candidate :: "heap_array \<Rightarrow> u64 \<Rightarrow> nat \<Rightarrow> nat \<Rightarrow> bool" where
  "candidate tree sz i k \<longleftrightarrow> k < KERNEL_HEAP_LEN \<and> anc i k \<and> fits sz (tree k) \<and> \<not> in_use (tree k)
     \<and> (\<forall>j. anc i j \<longrightarrow> anc j k \<longrightarrow> \<not> occ tree j)"

lemma anc_between:
  assumes "anc c k" "0 < c" "anc (c div 2) j" "anc j k" "j \<noteq> c div 2"
  shows "anc c j"
proof (cases "c \<le> j")
  case True
  then show ?thesis by (rule anc_chain [OF assms(1,4)])
next
  case False
  then have "anc j c" by (intro anc_chain [OF assms(4,1)]) simp
  with False have "anc j (c div 2)" by (subst (asm) anc.simps) simp
  with assms(3) have "j = c div 2" by (simp add: le_antisym anc_le)
  with assms(5) show ?thesis by simp
qed

lemma anc_not_parent: "0 < c \<Longrightarrow> c div 2 \<noteq> c \<Longrightarrow> \<not> anc c (c div 2)"
  using anc_le by fastforce

lemma mark_up:
  assumes "anc c k" "0 < c" "c div 2 = i"
  shows "(mark c k tree)(i := (mark c k tree i)\<lparr>in_use := True\<rparr>) = mark i k tree"
proof
  fix j
  have ik: "i \<noteq> k" "anc i k" "\<not> anc c i" using assms anc_le [OF assms(1)] anc_up [OF assms(1,2)]
    by (auto simp: anc_not_parent)
  show "((mark c k tree)(i := (mark c k tree i)\<lparr>in_use := True\<rparr>)) j = mark i k tree j"
  proof (cases "j = i")
    case True
    with ik show ?thesis by (simp add: mark_def)
  next
    case False
    have "anc c j \<and> anc j k \<longleftrightarrow> anc i j \<and> anc j k"
      using anc_between [OF assms(1,2)] anc_up [of c j] assms(2,3) False by auto
    with False show ?thesis by (simp add: mark_def)
  qed
qed

lemma candidate_up:
  assumes "candidate tree sz c k" "0 < c" "c div 2 = i" "\<not> occ tree i"
  shows "candidate tree sz i k"
  unfolding candidate_def
proof (intro conjI allI impI)
  show "\<not> occ tree j" if "anc i j" "anc j k" for j
    using that anc_between [of c k j] assms by (cases "j = i") (auto simp: candidate_def)
  show "anc i k" using assms anc_up by (auto simp: candidate_def)
qed (use assms in \<open>auto simp: candidate_def\<close>)

lemma candidate_down:
  assumes "candidate tree sz i k" "k \<noteq> i"
  shows "0 < i \<and> candidate tree sz (i * 2) k \<or> candidate tree sz (i * 2 + 1) k"
proof -
  have step: "candidate tree sz c k" if "anc c k" "0 < c" "c div 2 = i" for c
    using assms(1) that anc_up [of c] unfolding candidate_def by blast
  from assms have "0 < i \<and> anc (i * 2) k \<or> anc (i * 2 + 1) k"
    using anc_down by (auto simp: candidate_def)
  with step [of "i * 2"] step [of "i * 2 + 1"] show ?thesis by auto
qed

section \<open>Searching the tree\<close>

lemma find_heap_frame_unfold:
  "find_heap_frame nr va tree sz i =
     (if i \<ge> KERNEL_HEAP_LEN then Inr (UINT64_MAX, tree)
      else if sz > sec_size (tree i) \<or> occ tree i then Inr (UINT64_MAX, tree)
      else if fits sz (tree i) \<and> \<not> in_use (tree i) then Inr (sec_offset (tree i) + va, mark i i tree)
      else case (if i \<noteq> 0 then find_heap_frame nr va tree sz (i * 2) else Inr (UINT64_MAX, tree)) of
          Inl e \<Rightarrow> Inl e
        | Inr (l, tree1) \<Rightarrow>
            if l \<noteq> UINT64_MAX then Inr (l, tree1(i := (tree1 i)\<lparr>in_use := True\<rparr>))
            else case find_heap_frame nr va tree1 sz (i * 2 + 1) of
              Inl e \<Rightarrow> Inl e
            | Inr (r, tree2) \<Rightarrow>
                if r \<noteq> UINT64_MAX then Inr (r, tree2(i := (tree2 i)\<lparr>in_use := True\<rparr>))
                else case nr of None \<Rightarrow> Inl Undefined | Some v \<Rightarrow> Inr (v, tree2))"
proof -
  have m: "mark i i tree = tree(i := (tree i)\<lparr>flags := HEAP_FLAG_OCCUPIED, in_use := True\<rparr>)"
  proof
    fix j
    have "anc i j \<and> anc j i \<longleftrightarrow> j = i" by (auto dest: anc_antisym)
    then show "mark i i tree j = (tree(i := (tree i)\<lparr>flags := HEAP_FLAG_OCCUPIED, in_use := True\<rparr>)) j"
      by (auto simp: mark_def)
  qed
  show ?thesis
    by (subst find_heap_frame.simps) (simp only: Let_def occ_def fits_def m conj_assoc)
qed

lemma find_heap_frame_hit:
  assumes "i < KERNEL_HEAP_LEN" "\<not> occ tree i" "fits sz (tree i)" "\<not> in_use (tree i)"
  shows "find_heap_frame nr va tree sz i = Inr (sec_offset (tree i) + va, mark i i tree)"
proof -
  from assms(3) have "\<not> sec_size (tree i) < sz" by (simp add: fits_def not_less)
  with assms show ?thesis by (subst find_heap_frame_unfold) simp
qed

definition returns_max :: "u64 option \<Rightarrow> bool" where
  "returns_max nr \<longleftrightarrow> nr = None \<or> nr = Some UINT64_MAX"

lemma find_heap_frame_sound:
  assumes nr: "returns_max nr" and va: "\<And>j. j < KERNEL_HEAP_LEN \<Longrightarrow> sec_offset (tree j) + va \<noteq> UINT64_MAX"
  shows "find_heap_frame nr va tree sz i = Inr (a, t) \<Longrightarrow>
     a = UINT64_MAX \<and> t = tree \<or>
     a \<noteq> UINT64_MAX \<and> (\<exists>k. candidate tree sz i k \<and> a = sec_offset (tree k) + va \<and> t = mark i k tree)"
proof (induction "KERNEL_HEAP_LEN - i" arbitrary: i a t rule: less_induct)
  case less
  let ?goal = "a = UINT64_MAX \<and> t = tree \<or>
     a \<noteq> UINT64_MAX \<and> (\<exists>k. candidate tree sz i k \<and> a = sec_offset (tree k) + va \<and> t = mark i k tree)"
  consider "i \<ge> KERNEL_HEAP_LEN" | "i < KERNEL_HEAP_LEN" "sz > sec_size (tree i) \<or> occ tree i"
    | "i < KERNEL_HEAP_LEN" "\<not> occ tree i" "fits sz (tree i)" "\<not> in_use (tree i)"
    | "i < KERNEL_HEAP_LEN" "\<not> (sz > sec_size (tree i) \<or> occ tree i)" "\<not> (fits sz (tree i) \<and> \<not> in_use (tree i))"
    by (cases "i < KERNEL_HEAP_LEN") (blast, simp)
  then show ?case
  proof cases
    case 3
    moreover from 3 have "\<not> occ tree j" if "anc i j" "anc j i" for j
      using anc_antisym [OF that] by simp
    ultimately have "candidate tree sz i i" by (simp add: candidate_def)
    moreover from 3 less.prems have "a = sec_offset (tree i) + va" "t = mark i i tree"
      by (simp_all add: find_heap_frame_hit)
    ultimately show ?thesis using va [OF 3(1)] by (intro disjI2 conjI exI [of _ i]) simp_all
  next
    case 4
    have up: ?goal if c: "find_heap_frame nr va tree sz c = Inr (b, u)" "b \<noteq> UINT64_MAX"
      "c div 2 = i" "i < c" "a = b" "t = u(i := (u i)\<lparr>in_use := True\<rparr>)" for c b u
    proof -
      from c(4) 4(1) have "KERNEL_HEAP_LEN - c < KERNEL_HEAP_LEN - i" by linarith
      from less.hyps [OF this c(1)] c(2) obtain k where k: "candidate tree sz c k"
        "b = sec_offset (tree k) + va" "u = mark c k tree" by auto
      from k(1) have "anc c k" by (simp add: candidate_def)
      with c k have "t = mark i k tree" using mark_up [of c k i tree] by simp
      moreover have "candidate tree sz i k" using candidate_up [OF k(1)] c 4 by auto
      ultimately show ?thesis using c k by blast
    qed
    obtain l tree1 where l: "(if i \<noteq> 0 then find_heap_frame nr va tree sz (i * 2) else Inr (UINT64_MAX, tree))
        = Inr (l, tree1)"
      using less.prems 4 by (auto simp: find_heap_frame_unfold [of nr va tree sz i] split: sum.splits if_splits)
    show ?thesis
    proof (cases "l = UINT64_MAX")
      case False
      with l have "find_heap_frame nr va tree sz (i * 2) = Inr (l, tree1)" "i \<noteq> 0"
        by (auto split: if_splits)
      moreover have "a = l" "t = tree1(i := (tree1 i)\<lparr>in_use := True\<rparr>)"
        using less.prems 4 l False by (simp_all add: find_heap_frame_unfold [of nr va tree sz i])
      ultimately show ?thesis using False by (intro up [of "i * 2" l tree1]) auto
    next
      case True
      then have t1: "tree1 = tree"
        using l less.hyps [of "i * 2" l tree1] 4(1) by (auto split: if_splits)
      then obtain r tree2 where r: "find_heap_frame nr va tree sz (i * 2 + 1) = Inr (r, tree2)"
        using less.prems 4 l True
        by (auto simp: find_heap_frame_unfold [of nr va tree sz i] split: sum.splits)
      show ?thesis
      proof (cases "r = UINT64_MAX")
        case False
        then have "a = r" "t = tree2(i := (tree2 i)\<lparr>in_use := True\<rparr>)"
          using less.prems 4 l True t1 r by (simp_all add: find_heap_frame_unfold [of nr va tree sz i])
        then show ?thesis using r False by (intro up [of "i * 2 + 1" r tree2]) auto
      next
        case rm: True
        then have "tree2 = tree" using r less.hyps [of "i * 2 + 1" r tree2] 4(1) by auto
        then have "a = UINT64_MAX" "t = tree"
          using less.prems 4 l True t1 r rm nr
          by (auto simp: find_heap_frame_unfold [of nr va tree sz i] returns_max_def)
        then show ?thesis by blast
      qed
    qed
  qed (use less.prems in \<open>auto simp: find_heap_frame_unfold [of nr va tree sz i]\<close>)
qed

lemma heap_measure [simp]:
  "i < KERNEL_HEAP_LEN \<Longrightarrow> 0 < i \<Longrightarrow> KERNEL_HEAP_LEN - i * 2 < KERNEL_HEAP_LEN - i"
  "i < KERNEL_HEAP_LEN \<Longrightarrow> KERNEL_HEAP_LEN - (i * 2 + 1) < KERNEL_HEAP_LEN - i"
  "i < KERNEL_HEAP_LEN \<Longrightarrow> KERNEL_HEAP_LEN - Suc (i * 2) < KERNEL_HEAP_LEN - i"
  by linarith+

lemma find_heap_frame_total: "\<exists>a t. find_heap_frame (Some v) va tree sz i = Inr (a, t)"
proof (induction "KERNEL_HEAP_LEN - i" arbitrary: i tree rule: less_induct)
  case less
  show ?case
  proof (cases "i < KERNEL_HEAP_LEN")
    case True
    obtain l tree1 where l: "(if i \<noteq> 0 then find_heap_frame (Some v) va tree sz (i * 2)
        else Inr (UINT64_MAX, tree)) = Inr (l, tree1)"
      using less [of "i * 2" tree] True by (cases "i = 0") auto
    obtain r tree2 where r: "find_heap_frame (Some v) va tree1 sz (i * 2 + 1) = Inr (r, tree2)"
      using less [of "i * 2 + 1" tree1] True by auto
    show ?thesis
      by (subst find_heap_frame_unfold, subst l) (simp add: r del: One_nat_def)
  qed (simp add: find_heap_frame_unfold [of _ _ _ _ i])
qed

lemma find_heap_frame_complete:
  assumes sh: "heap_shape tree" and va: "\<And>j. j < KERNEL_HEAP_LEN \<Longrightarrow> sec_offset (tree j) + va \<noteq> UINT64_MAX"
  shows "candidate tree sz i k \<Longrightarrow>
     \<exists>a t. find_heap_frame (Some UINT64_MAX) va tree sz i = Inr (a, t) \<and> a \<noteq> UINT64_MAX"
proof (induction "KERNEL_HEAP_LEN - i" arbitrary: i rule: less_induct)
  case less
  then have k: "k < KERNEL_HEAP_LEN" "anc i k" "fits sz (tree k)" "\<not> occ tree i"
    by (auto simp: candidate_def)
  with anc_le have i: "i < KERNEL_HEAP_LEN" by fastforce
  have "hsz k \<le> hsz i" using k(2) by (rule hsz_anc)
  moreover have "hsz i < 2 ^ 64" "hsz k < 2 ^ 64"
    using hoff_hsz_le [of i] hoff_hsz_le [of k] by simp_all
  ultimately have "sec_size (tree k) \<le> sec_size (tree i)"
    using sh k(1) i by (simp add: heap_shape_def word_le_nat_alt unat_of_nat)
  with k(3) have sz: "\<not> sec_size (tree i) < sz" by (auto simp: fits_def not_less)
  have rm: "returns_max (Some UINT64_MAX)" by (simp add: returns_max_def)
  note sound = find_heap_frame_sound [OF rm va]
  show ?case
  proof (cases "fits sz (tree i) \<and> \<not> in_use (tree i)")
    case True
    with k i va [OF i] show ?thesis by (simp add: find_heap_frame_hit)
  next
    case False
    with less.prems have "k \<noteq> i" by (auto simp: candidate_def)
    with candidate_down [OF less.prems] have c: "0 < i \<and> candidate tree sz (i * 2) k \<or> candidate tree sz (i * 2 + 1) k" .
    obtain l tree1 where l: "(if i \<noteq> 0 then find_heap_frame (Some UINT64_MAX) va tree sz (i * 2)
        else Inr (UINT64_MAX, tree)) = Inr (l, tree1)"
      using find_heap_frame_total [of UINT64_MAX va tree sz "i * 2"] by (cases "i = 0") auto
    show ?thesis
    proof (cases "l = UINT64_MAX")
      case lm: True
      then have t1: "tree1 = tree"
        using l sound [where i = "i * 2" and a = l and t = tree1 and sz = sz] by (auto split: if_splits)
      have "\<not> (0 < i \<and> candidate tree sz (i * 2) k)"
        using less.hyps [of "i * 2"] l lm i by auto
      with c less.hyps [of "i * 2 + 1"] i obtain r tree2 where
        r: "find_heap_frame (Some UINT64_MAX) va tree sz (i * 2 + 1) = Inr (r, tree2)" "r \<noteq> UINT64_MAX"
        by auto
      then show ?thesis using l lm t1 sz k(4) i False
        by (subst find_heap_frame_unfold, subst l) (simp, blast)
    next
      case lm: False
      then show ?thesis using l sz k(4) i False
        by (subst find_heap_frame_unfold, subst l) (simp, blast)
    qed
  qed
qed

lemma candidate_0:
  "heap_wf tree \<Longrightarrow> candidate tree sz 0 k \<longleftrightarrow>
     k < KERNEL_HEAP_LEN \<and> fits sz (tree k) \<and> \<not> in_use (tree k) \<and> (\<forall>j. anc j k \<longrightarrow> \<not> occ tree j)"
  by (simp add: candidate_def)

lemma in_use_up: "heap_wf tree \<Longrightarrow> anc i j \<Longrightarrow> j < KERNEL_HEAP_LEN \<Longrightarrow> in_use (tree j) \<Longrightarrow> in_use (tree i)"
proof (induction i j rule: anc.induct)
  case (1 i j)
  show ?case
  proof (cases "j \<le> i")
    case True
    with 1 show ?thesis by (simp add: anc.simps [of i j])
  next
    case False
    with 1 have "anc i (j div 2)" "in_use (tree (j div 2))"
      by (auto simp: anc.simps [of i j] heap_wf_def)
    with False 1 show ?thesis by simp
  qed
qed

lemma occ_mark: "occ (mark i k tree) j \<longleftrightarrow> occ tree j \<or> j = k \<and> anc i k"
  by (auto simp: occ_def mark_def HEAP_FLAG_OCCUPIED_def)

lemma in_use_mark: "in_use (mark i k tree j) \<longleftrightarrow> in_use (tree j) \<or> anc i j \<and> anc j k"
  by (auto simp: mark_def)

lemma heap_wf_mark:
  assumes wf: "heap_wf tree" and c: "candidate tree sz 0 k"
  shows "heap_wf (mark 0 k tree)"
  unfolding heap_wf_def
proof (intro conjI allI impI)
  show "heap_shape (mark 0 k tree)" using wf by (simp add: heap_wf_def heap_shape_def mark_def)
  show "in_use (mark 0 k tree j)" if "j < KERNEL_HEAP_LEN" "occ (mark 0 k tree) j" for j
    using that wf by (auto simp: occ_mark in_use_mark heap_wf_def)
  show "in_use (mark 0 k tree (j div 2))"
    if "j < KERNEL_HEAP_LEN" "0 < j" "in_use (mark 0 k tree j)" for j
    using that wf anc_up [of j k] by (auto simp: in_use_mark heap_wf_def)
  show "i = j" if h: "i < KERNEL_HEAP_LEN" "j < KERNEL_HEAP_LEN" "occ (mark 0 k tree) i"
    "occ (mark 0 k tree) j" "anc i j" for i j
  proof (rule ccontr)
    assume "i \<noteq> j"
    moreover have "\<not> (occ tree j \<and> i = k)"
      using in_use_up [OF wf h(5,2)] wf h(2) c by (auto simp: heap_wf_def candidate_def)
    moreover have "\<not> (occ tree i \<and> j = k)" using c h(5) by (auto simp: candidate_def)
    moreover have "\<not> (occ tree i \<and> occ tree j)" using wf h \<open>i \<noteq> j\<close> by (auto simp: heap_wf_def)
    ultimately show False using h(3,4) by (auto simp: occ_mark)
  qed
qed

section \<open>Initialisation\<close>

definition fresh_section :: "nat \<Rightarrow> HeapSection" where
  "fresh_section j = \<lparr>sec_size = of_nat (hsz j), sec_offset = of_nat (hoff j),
     sec_index = of_nat j, in_use = False, flags = 0\<rparr>"

lemma hsz_children: "0 < i \<Longrightarrow> hsz (i * 2) = hsz i div 2" "hsz (i * 2 + 1) = hsz i div 2"
  and hoff_children: "0 < i \<Longrightarrow> hoff (i * 2) = hoff i" "hoff (i * 2 + 1) = hoff i + hsz i div 2"
  by (simp_all add: hsz.simps [of "i * 2"] hsz.simps [of "Suc (i * 2)"]
      hoff.simps [of "i * 2"] hoff.simps [of "Suc (i * 2)"])

lemma section_words:
  "ucast (of_nat (hsz i) :: u32) = (of_nat (hsz i) :: u64)"
  "ucast (of_nat (hoff i) :: u32) = (of_nat (hoff i) :: u64)"
  "(of_nat (hsz i) :: u32) div 2 = of_nat (hsz i div 2)"
proof -
  from hoff_hsz_le [of i] have b: "hsz i < 2 ^ 32" "hoff i < 2 ^ 32" by simp_all
  then show "ucast (of_nat (hsz i) :: u32) = (of_nat (hsz i) :: u64)"
    "ucast (of_nat (hoff i) :: u32) = (of_nat (hoff i) :: u64)"
    by (simp_all add: word_unat_eq_iff unsigned_ucast_eq take_bit_nat_def unat_of_nat)
  show "(of_nat (hsz i) :: u32) div 2 = of_nat (hsz i div 2)"
    using b by (simp add: word_unat_eq_iff unat_div unat_of_nat)
qed

lemma kernel_heap_tree_init_unfold:
  "kernel_heap_tree_init i (of_nat (hsz i)) (of_nat (hoff i)) s =
     (if i \<ge> KERNEL_HEAP_LEN then s
      else let s2 = (upd_lock KernelHeapLock (init_lock ''KernelHeapLock'') s)
                 \<lparr>heap_tree := (heap_tree s)(i := fresh_section i)\<rparr>
           in kernel_heap_tree_init (i * 2 + 1) (of_nat (hsz (i * 2 + 1))) (of_nat (hoff (i * 2 + 1)))
               (if i \<noteq> 0 then kernel_heap_tree_init (i * 2) (of_nat (hsz (i * 2))) (of_nat (hoff (i * 2))) s2
                else s2))"
  unfolding hsz_children hoff_children
  by (subst kernel_heap_tree_init.simps)
     (simp add: Let_def fresh_section_def section_words hsz_children hoff_children upd_lock_def)

lemma kernel_heap_tree_init_tree:
  "heap_tree (kernel_heap_tree_init i (of_nat (hsz i)) (of_nat (hoff i)) s) =
     (\<lambda>j. if anc i j \<and> j < KERNEL_HEAP_LEN then fresh_section j else heap_tree s j)"
proof (induction "KERNEL_HEAP_LEN - i" arbitrary: i s rule: less_induct)
  case less
  show ?case
  proof (cases "i < KERNEL_HEAP_LEN")
    case False
    then show ?thesis using anc_le by (fastforce simp: kernel_heap_tree_init_unfold)
  next
    case True
    have d: "anc i j \<longleftrightarrow> j = i \<or> (i \<noteq> 0 \<and> anc (i * 2) j) \<or> anc (i * 2 + 1) j" for j
      using anc_down [of i j] anc_up [of "i * 2" j] anc_up [of "i * 2 + 1" j] by auto
    have "heap_tree (kernel_heap_tree_init (i * 2) (of_nat (hsz (i * 2))) (of_nat (hoff (i * 2))) t) =
      (\<lambda>j. if anc (i * 2) j \<and> j < KERNEL_HEAP_LEN then fresh_section j else heap_tree t j)"
      if "i \<noteq> 0" for t :: "'a kheap_scheme" using less [of "i * 2" t] that True by simp
    moreover have "heap_tree (kernel_heap_tree_init (i * 2 + 1) (of_nat (hsz (i * 2 + 1))) (of_nat (hoff (i * 2 + 1))) t) =
      (\<lambda>j. if anc (i * 2 + 1) j \<and> j < KERNEL_HEAP_LEN then fresh_section j else heap_tree t j)" for t :: "'a kheap_scheme"
      using less [of "i * 2 + 1" t] True by simp
    ultimately show ?thesis
      by (subst kernel_heap_tree_init_unfold) (use True d in \<open>auto simp: Let_def fun_eq_iff\<close>)
  qed
qed

lemma kernel_heap_tree_init_frame:
  "\<exists>k t. kernel_heap_tree_init i bs off s = s\<lparr>locks := k, heap_tree := t\<rparr>
     \<and> (i < KERNEL_HEAP_LEN \<or> \<not> is_locked (locks s KernelHeapLock) \<longrightarrow> \<not> is_locked (k KernelHeapLock))"
proof (induction "KERNEL_HEAP_LEN - i" arbitrary: i bs off s rule: less_induct)
  case less
  show ?case
  proof (cases "i < KERNEL_HEAP_LEN")
    case False
    then show ?thesis
      by (intro exI [of _ "locks s"] exI [of _ "heap_tree s"]) (simp add: kernel_heap_tree_init.simps)
  next
    case True
    define s2 where "s2 = (upd_lock KernelHeapLock (init_lock ''KernelHeapLock'') s)\<lparr>heap_tree :=
      (heap_tree s)(i := \<lparr>sec_size = ucast bs, sec_offset = ucast off, sec_index = of_nat i, in_use = False, flags = 0\<rparr>)\<rparr>"
    have s2: "\<exists>k t. s2 = s\<lparr>locks := k, heap_tree := t\<rparr> \<and> \<not> is_locked (k KernelHeapLock)"
      by (auto simp: s2_def upd_lock_def init_lock_def intro!: exI)
    define s3 where "s3 = (if i \<noteq> 0 then kernel_heap_tree_init (i * 2) (bs div 2) off s2 else s2)"
    have s3: "\<exists>k t. s3 = s\<lparr>locks := k, heap_tree := t\<rparr> \<and> \<not> is_locked (k KernelHeapLock)"
      using less [of "i * 2" "bs div 2" off s2] s2 True by (auto simp: s3_def) blast+
    have "kernel_heap_tree_init i bs off s = kernel_heap_tree_init (i * 2 + 1) (bs div 2) (off + bs div 2) s3"
      unfolding s3_def s2_def using True by (subst kernel_heap_tree_init.simps) (simp add: Let_def upd_lock_def)
    with less [of "i * 2 + 1" "bs div 2" "off + bs div 2" s3] s3 True show ?thesis by auto blast+
  qed
qed

section \<open>The allocator contract\<close>

definition KERNEL_HEAP_START :: u64 where "KERNEL_HEAP_START = 0xffffffff00000000"

definition kheap_inv :: "'a kheap_scheme \<Rightarrow> bool" where
  "kheap_inv s \<longleftrightarrow> heap_wf (heap_tree s) \<and> heap_va_start s = KERNEL_HEAP_START \<and> returns_max (no_return s)"

definition heap_used :: "'a kheap_scheme \<Rightarrow> nat set" where
  "heap_used s = (\<Union>j \<in> {j. j < KERNEL_HEAP_LEN \<and> occ (heap_tree s) j}. (+) (unat KERNEL_HEAP_START) ` blk j)"

definition byte_range :: "u64 \<Rightarrow> u64 \<Rightarrow> nat set" where
  "byte_range n a = {unat a ..< unat a + unat n}"

lemma section_address:
  assumes "heap_shape tree" "j < KERNEL_HEAP_LEN"
  shows "unat (sec_offset (tree j) + KERNEL_HEAP_START) = unat KERNEL_HEAP_START + hoff j"
    and "unat (sec_size (tree j)) = hsz j"
    and "sec_offset (tree j) + KERNEL_HEAP_START \<noteq> UINT64_MAX"
    and "sec_offset (tree j) + KERNEL_HEAP_START \<noteq> 0"
proof -
  from hoff_hsz_le [of j] have b: "hoff j \<le> 2 ^ 31" "hsz j \<le> 2 ^ 31" by simp_all
  from assms b have u: "unat (sec_offset (tree j)) = hoff j" and v: "unat (sec_size (tree j)) = hsz j"
    by (simp_all add: heap_shape_def unat_of_nat)
  have k: "unat KERNEL_HEAP_START = 0xffffffff00000000" by (simp add: KERNEL_HEAP_START_def)
  show a: "unat (sec_offset (tree j) + KERNEL_HEAP_START) = unat KERNEL_HEAP_START + hoff j"
    using b u k by (subst unat_plus_nowrap) simp_all
  show "unat (sec_size (tree j)) = hsz j" by (rule v)
  have "unat (sec_offset (tree j) + KERNEL_HEAP_START) < unat UINT64_MAX"
    unfolding a k using b by simp
  then show "sec_offset (tree j) + KERNEL_HEAP_START \<noteq> UINT64_MAX" by auto
  show "sec_offset (tree j) + KERNEL_HEAP_START \<noteq> 0" using a k by (metis add_is_0 unat_0 zero_neq_numeral)
qed

lemma kheap_request_cases:
  assumes inv: "kheap_inv s" and r: "kheap_request sz s = Inr (a, t)"
  shows "a = UINT64_MAX \<and> t = s \<or> a \<noteq> UINT64_MAX \<and> (\<exists>j. candidate (heap_tree s) sz 0 j
     \<and> a = sec_offset (heap_tree s j) + KERNEL_HEAP_START \<and> t = s\<lparr>heap_tree := mark 0 j (heap_tree s)\<rparr>)"
proof -
  from inv have sh: "heap_shape (heap_tree s)" and va: "heap_va_start s = KERNEL_HEAP_START"
    and nr: "returns_max (no_return s)" by (auto simp: kheap_inv_def heap_wf_def)
  from r va obtain tree where f: "find_heap_frame (no_return s) KERNEL_HEAP_START (heap_tree s) sz 0 = Inr (a, tree)"
    and t: "t = s\<lparr>heap_tree := tree\<rparr>" by (auto simp: kheap_request_def split: sum.splits)
  from find_heap_frame_sound [OF nr section_address(3) [OF sh] f] t show ?thesis by auto
qed

lemma kheap_inv_frame: "kheap_inv (s\<lparr>cpus := c, locks := k\<rparr>) = kheap_inv s"
  by (simp add: kheap_inv_def)

lemma kalloc_cases:
  assumes inv: "kheap_inv s" and r: "kalloc sz s = Inr (a, t)"
  obtains (fail) c k where "a = 0" "t = s\<lparr>cpus := c, locks := k\<rparr>"
  | (ok) c k j where "candidate (heap_tree s) sz 0 j" "a = sec_offset (heap_tree s j) + KERNEL_HEAP_START"
      "t = s\<lparr>heap_tree := mark 0 j (heap_tree s), cpus := c, locks := k\<rparr>"
proof -
  from r obtain s1 b s2 where s1: "acquire_Spinlock KernelHeapLock s = Inr ((), s1)"
    and s2: "kheap_request sz s1 = Inr (b, s2)"
    and rest: "(if b = UINT64_MAX then ret 0 else seqn (release_Spinlock KernelHeapLock) (ret b)) s2 = Inr (a, t)"
    by (auto simp: kalloc_def op_Inr_iff)
  from acquire_Spinlock_frame [OF s1] obtain c k where f1: "s1 = s\<lparr>cpus := c, locks := k\<rparr>" by blast
  with inv have "kheap_inv s1" by (simp add: kheap_inv_frame)
  from kheap_request_cases [OF this s2] show ?thesis
  proof
    assume "b = UINT64_MAX \<and> s2 = s1"
    with rest f1 show ?thesis by (intro fail [where c = c and k = k]) simp_all
  next
    assume *: "b \<noteq> UINT64_MAX \<and> (\<exists>j. candidate (heap_tree s1) sz 0 j
       \<and> b = sec_offset (heap_tree s1 j) + KERNEL_HEAP_START \<and> s2 = s1\<lparr>heap_tree := mark 0 j (heap_tree s1)\<rparr>)"
    then obtain j where j: "candidate (heap_tree s) sz 0 j" "b = sec_offset (heap_tree s j) + KERNEL_HEAP_START"
      and s2': "s2 = s\<lparr>cpus := c, locks := k, heap_tree := mark 0 j (heap_tree s)\<rparr>" using f1 by auto
    from rest * have "release_Spinlock KernelHeapLock s2 = Inr ((), t)" and ab: "a = b"
      by (auto simp: op_Inr_iff)
    from release_Spinlock_frame [OF this(1)] s2' obtain c' k' where
      "t = s\<lparr>heap_tree := mark 0 j (heap_tree s), cpus := c', locks := k'\<rparr>" by auto
    with j ab show ?thesis by (intro ok) simp_all
  qed
qed

lemma candidate_block:
  assumes wf: "heap_wf tree" and c: "candidate tree sz 0 j"
  shows "byte_range sz (sec_offset (tree j) + KERNEL_HEAP_START) \<subseteq> (+) (unat KERNEL_HEAP_START) ` blk j"
    and "occ tree i \<Longrightarrow> i < KERNEL_HEAP_LEN \<Longrightarrow> blk i \<inter> blk j = {}"
proof -
  from c have j: "j < KERNEL_HEAP_LEN" "unat sz \<le> unat (sec_size (tree j))"
    by (auto simp: candidate_def fits_def word_le_nat_alt)
  from wf have sh: "heap_shape tree" by (simp add: heap_wf_def)
  from section_address(1,2) [OF sh j(1)] j(2)
  show "byte_range sz (sec_offset (tree j) + KERNEL_HEAP_START) \<subseteq> (+) (unat KERNEL_HEAP_START) ` blk j"
    by (auto simp: byte_range_def blk_def image_add_atLeastLessThan)
  assume i: "occ tree i" "i < KERNEL_HEAP_LEN"
  have "\<not> anc i j" using c i by (auto simp: candidate_def)
  moreover have "\<not> anc j i"
    using in_use_up [OF wf _ i(2), of j] i wf c by (auto simp: heap_wf_def candidate_def)
  ultimately show "blk i \<inter> blk j = {}" by (rule blk_incomparable)
qed

interpretation kheap_alloc: allocator "kalloc" "\<lambda>a. a = 0" kheap_inv heap_used byte_range
proof unfold_locales
  fix s t :: "'a kheap_scheme" and n a :: u64
  assume inv: "kheap_inv s" and r: "kalloc n s = Inr (a, t)"
  from inv have wf: "heap_wf (heap_tree s)" by (simp add: kheap_inv_def)
  from inv r show "kheap_inv t"
    by (cases rule: kalloc_cases) (use inv in \<open>auto simp: kheap_inv_def heap_wf_mark\<close>)
  from inv r show "heap_used s \<subseteq> heap_used t"
    by (cases rule: kalloc_cases) (auto simp: heap_used_def occ_mark)
  assume "a \<noteq> 0"
  with inv r show "byte_range n a \<inter> heap_used s = {} \<and> byte_range n a \<subseteq> heap_used t"
  proof (cases rule: kalloc_cases)
    case (ok c k j)
    note b = candidate_block [OF wf ok(1)]
    from ok(1) have "j < KERNEL_HEAP_LEN" by (simp add: candidate_def)
    with ok b(1) have "byte_range n a \<subseteq> heap_used t" by (auto simp: heap_used_def occ_mark)
    moreover have "byte_range n a \<inter> heap_used s = {}"
      using b ok(2) unfolding heap_used_def by fastforce
    ultimately show ?thesis by blast
  qed simp
qed

lemma lock_held_heap_tree [simp]:
  "lock_held l (s\<lparr>heap_tree := tree\<rparr>) = lock_held l s"
  by (simp add: lock_held_def registered_def)

lemma kalloc_run:
  assumes "lock_free KernelHeapLock s"
  obtains i c k where "lock_taken KernelHeapLock i s = s\<lparr>cpus := c, locks := k\<rparr>"
    "lock_held KernelHeapLock (s\<lparr>cpus := c, locks := k\<rparr>)"
    "kalloc sz s = bnd (kheap_request sz) (\<lambda>kheap_memory.
       if kheap_memory = UINT64_MAX then ret 0
       else seqn (release_Spinlock KernelHeapLock) (ret kheap_memory)) (s\<lparr>cpus := c, locks := k\<rparr>)"
proof -
  from lock_free_taken [OF assms] obtain i where
    i: "acquire_Spinlock KernelHeapLock s = Inr ((), lock_taken KernelHeapLock i s)"
    "lock_held KernelHeapLock (lock_taken KernelHeapLock i s)" by blast
  from acquire_Spinlock_frame [OF i(1)] obtain c k where
    f: "lock_taken KernelHeapLock i s = s\<lparr>cpus := c, locks := k\<rparr>" by blast
  from f i have "kalloc sz s = bnd (kheap_request sz) (\<lambda>kheap_memory.
       if kheap_memory = UINT64_MAX then ret 0
       else seqn (release_Spinlock KernelHeapLock) (ret kheap_memory)) (s\<lparr>cpus := c, locks := k\<rparr>)"
    unfolding kalloc_def seqn_def [of "acquire_Spinlock KernelHeapLock"] bnd_def [of "acquire_Spinlock KernelHeapLock"]
    by simp
  with f i(2) show ?thesis by (intro that) simp_all
qed

lemma kheap_request_complete:
  assumes inv: "kheap_inv s" and nr: "no_return s = Some UINT64_MAX" and c: "candidate (heap_tree s) sz 0 k"
  shows "\<exists>a t. kheap_request sz s = Inr (a, t) \<and> a \<noteq> UINT64_MAX"
proof -
  from inv have sh: "heap_shape (heap_tree s)" and va: "heap_va_start s = KERNEL_HEAP_START"
    by (auto simp: kheap_inv_def heap_wf_def)
  from find_heap_frame_complete [OF sh section_address(3) [OF sh] c] obtain a t where
    "find_heap_frame (Some UINT64_MAX) KERNEL_HEAP_START (heap_tree s) sz 0 = Inr (a, t)" "a \<noteq> UINT64_MAX" by auto
  with nr va show ?thesis by (auto simp: kheap_request_def)
qed

section \<open>Freeing\<close>

lemma get_buddy_Inr: "j < KERNEL_HEAP_LEN - 1 \<Longrightarrow> \<exists>b. get_buddy tree j = Inr b"
  by (auto simp: get_buddy_def)

lemma kfree_merge_total: "\<lbrakk>j < KERNEL_HEAP_LEN\<rbrakk> \<Longrightarrow> \<exists>n. kfree_merge tree b j = Inr n"
proof (induction j arbitrary: b rule: less_induct)
  case (less j)
  show ?case
  proof (cases "\<not> in_use b \<and> flags b AND HEAP_FLAG_OCCUPIED = 0 \<and> j > 0")
    case True
    have p: "HEAP_GET_PARENT j < j" using True by (auto simp: HEAP_GET_PARENT_def)
    with less.prems have "HEAP_GET_PARENT j < KERNEL_HEAP_LEN - 1" by linarith
    with get_buddy_Inr obtain b' where "get_buddy tree (HEAP_GET_PARENT j) = Inr b'" by blast
    with less.IH [OF p] p less.prems True show ?thesis
      by (subst kfree_merge.simps) (auto simp: Let_def)
  next
    case False
    then show ?thesis by (subst kfree_merge.simps) auto
  qed
qed

lemma heap_search_in_use:
  assumes "heap_shape tree" "in_use (tree 0)" "unat offset < 2 ^ 31"
  shows "heap_search_by_offset tree offset 0 = Some (Some 0)"
proof -
  have "(0::nat) < KERNEL_HEAP_LEN" by (simp add: KERNEL_HEAP_LEN_def)
  with assms(1) have s: "sec_offset (tree 0) = 0" "sec_size (tree 0) = 0x80000000"
    by (simp_all add: heap_shape_def hoff.simps hsz.simps)
  have "unat (ucast offset :: u64) = unat offset"
    using assms(3) by (simp add: unsigned_ucast_eq take_bit_nat_def)
  with assms(3) have "(ucast offset :: u64) < 0x80000000" by (simp add: word_less_nat_alt)
  with s assms(2) show ?thesis
    by (subst heap_search_by_offset.simps) (simp add: KERNEL_HEAP_LEN_def)
qed

lemma kfree_in_use:
  assumes free: "lock_free KernelHeapLock s" and sh: "heap_shape (heap_tree s)" and use: "in_use (heap_tree s 0)"
    and a: "heap_va_start s \<le> addr" "unat (addr - heap_va_start s) < 2 ^ 31"
  shows "\<exists>t. kfree addr s = Inr (True, t) \<and> heap_tree t = heap_tree s \<and> lock_free KernelHeapLock t"
proof -
  from lock_free_taken [OF free] obtain i where
    i: "acquire_Spinlock KernelHeapLock s = Inr ((), lock_taken KernelHeapLock i s)"
    "lock_held KernelHeapLock (lock_taken KernelHeapLock i s)" by blast
  from acquire_Spinlock_frame [OF i(1)] obtain c k where f: "lock_taken KernelHeapLock i s = s\<lparr>cpus := c, locks := k\<rparr>" by blast
  from lock_held_dropped [OF i(2)] f obtain t where
    t: "release_Spinlock KernelHeapLock (s\<lparr>cpus := c, locks := k\<rparr>) = Inr ((), t)" "lock_free KernelHeapLock t" by auto
  from release_Spinlock_frame [OF t(1)] have ht: "heap_tree t = heap_tree s" by auto
  have "unat (ucast (addr - heap_va_start s) :: u32) < 2 ^ 31"
    using a(2) by (simp add: unsigned_ucast_eq take_bit_nat_def)
  from heap_search_in_use [OF sh use this]
  have srch: "heap_search_by_offset (heap_tree s) (ucast (addr - heap_va_start s)) 0 = Some (Some 0)" .
  obtain b where b: "get_buddy (heap_tree s) 0 = Inr b"
    using get_buddy_Inr [of 0] by (auto simp: KERNEL_HEAP_LEN_def)
  obtain n where n: "kfree_merge (heap_tree s) b 0 = Inr n"
    using kfree_merge_total [of 0] by (auto simp: KERNEL_HEAP_LEN_def)
  have "kfree addr s = Inr (True, t)"
    using i(1) f t(1) a(1) srch b n by (simp add: kfree_def op_combinators not_less)
  with ht t(2) show ?thesis by blast
qed

section \<open>A freshly initialised heap\<close>

definition boot_kheap :: kheap where
  "boot_kheap = kernel_heap_tree_init 0 0x80000000 0
     (dll.extend boot_dll \<lparr>heap_tree = (\<lambda>_. \<lparr>sec_size = 0, sec_offset = 0, sec_index = 0, in_use = False, flags = 0\<rparr>),
        heap_va_start = KERNEL_HEAP_START, no_return = Some UINT64_MAX\<rparr>)"

lemma kernel_heap_tree_init_root:
  "kernel_heap_tree_init 0 0x80000000 0 s = kernel_heap_tree_init 0 (of_nat (hsz 0)) (of_nat (hoff 0)) s"
  by (simp add: hsz.simps [of 0] hoff.simps [of 0])

lemma heap_wf_fresh:
  assumes "\<And>j. j < KERNEL_HEAP_LEN \<Longrightarrow> tree j = fresh_section j"
  shows "heap_wf tree" and "j < KERNEL_HEAP_LEN \<Longrightarrow> \<not> occ tree j" and "j < KERNEL_HEAP_LEN \<Longrightarrow> \<not> in_use (tree j)"
  using assms by (auto simp: heap_wf_def heap_shape_def fresh_section_def occ_def)

lemma fresh_candidate:
  assumes fr: "\<And>j. j < KERNEL_HEAP_LEN \<Longrightarrow> tree j = fresh_section j" and "k < KERNEL_HEAP_LEN" "fits sz (tree k)"
  shows "candidate tree sz 0 k"
proof -
  have "\<not> occ tree j" if "anc j k" for j
    using heap_wf_fresh(2) [OF fr, of j] anc_le [OF that] assms(2) by simp
  with heap_wf_fresh(3) [OF fr] assms show ?thesis by (auto simp: candidate_def)
qed

lemma boot_kheap_tree: "j < KERNEL_HEAP_LEN \<Longrightarrow> heap_tree boot_kheap j = fresh_section j"
  by (simp add: boot_kheap_def kernel_heap_tree_init_root kernel_heap_tree_init_tree)

lemma boot_kheap_env:
  "heap_va_start boot_kheap = KERNEL_HEAP_START" "no_return boot_kheap = Some UINT64_MAX"
  "lock_free KernelHeapLock boot_kheap"
  "cpus boot_kheap = [boot_cpu 0]" "lapic_id boot_kheap = 0" "link boot_kheap = boot_link"
  "dll_next boot_kheap = (\<lambda>_. 0)" "dll_prev boot_kheap = (\<lambda>_. 0)" "entry_count boot_kheap = (\<lambda>_. 0)"
proof -
  let ?s = "dll.extend boot_dll \<lparr>heap_tree = (\<lambda>_. \<lparr>sec_size = 0, sec_offset = 0, sec_index = 0, in_use = False, flags = 0\<rparr>),
        heap_va_start = KERNEL_HEAP_START, no_return = Some UINT64_MAX\<rparr>"
  from kernel_heap_tree_init_frame [of 0 "0x80000000" 0 ?s] obtain k t where
    f: "boot_kheap = ?s\<lparr>locks := k, heap_tree := t\<rparr>" "\<not> is_locked (k KernelHeapLock)"
    by (auto simp: boot_kheap_def KERNEL_HEAP_LEN_def)
  show "heap_va_start boot_kheap = KERNEL_HEAP_START" "no_return boot_kheap = Some UINT64_MAX"
    by (simp_all add: f(1) dll.defs)
  show "cpus boot_kheap = [boot_cpu 0]" "lapic_id boot_kheap = 0" "link boot_kheap = boot_link"
    "dll_next boot_kheap = (\<lambda>_. 0)" "dll_prev boot_kheap = (\<lambda>_. 0)" "entry_count boot_kheap = (\<lambda>_. 0)"
    by (simp_all add: f(1) dll.defs boot_dll_simps boot_smp_def)
  have "registered boot_kheap 0 \<and> cli_count (cpus boot_kheap ! 0) \<noteq> UINT32_MAX"
    by (simp add: f(1) registered_def dll.defs boot_dll_simps boot_smp_def boot_cpu_def)
  moreover have "\<not> is_locked (locks boot_kheap KernelHeapLock)" using f(2) by (simp add: f(1))
  ultimately show "lock_free KernelHeapLock boot_kheap" by (auto simp: lock_free_def)
qed

lemma kheap_inv_boot: "kheap_inv boot_kheap"
  using heap_wf_fresh(1) [of "heap_tree boot_kheap", OF boot_kheap_tree]
  by (simp add: kheap_inv_def boot_kheap_env returns_max_def)

lemma boot_kheap_candidate: "candidate (heap_tree boot_kheap) 4096 0 16384"
  by (rule fresh_candidate [OF boot_kheap_tree])
     (simp_all add: KERNEL_HEAP_LEN_def boot_kheap_tree fits_def fresh_section_def KERNEL_HEAP_MINBLOCK_def hsz.simps)

section \<open>The leftmost path\<close>

text \<open>The sections \<open>1, 2, 4, ..., 2 ^ 13\<close> above the first two blocks of the minimal size.\<close>

definition passes :: "heap_array \<Rightarrow> u64 \<Rightarrow> nat \<Rightarrow> bool" where
  "passes tree sz i \<longleftrightarrow> i < KERNEL_HEAP_LEN \<and> \<not> sec_size (tree i) < sz \<and> \<not> occ tree i
     \<and> \<not> (fits sz (tree i) \<and> \<not> in_use (tree i))"

lemma find_left:
  assumes "passes tree sz i" "0 < i" "find_heap_frame nr va tree sz (i * 2) = Inr (a, mark (i * 2) k tree)"
    "a \<noteq> UINT64_MAX" "anc (i * 2) k"
  shows "find_heap_frame nr va tree sz i = Inr (a, mark i k tree)"
  using assms mark_up [of "i * 2" k i tree]
  by (subst find_heap_frame_unfold) (auto simp: passes_def)

lemma find_left_error:
  assumes "passes tree sz i" "0 < i" "find_heap_frame nr va tree sz (i * 2) = Inl e"
  shows "find_heap_frame nr va tree sz i = Inl e"
  using assms by (subst find_heap_frame_unfold) (auto simp: passes_def)

lemma find_root:
  assumes "passes tree sz 0"
  shows "find_heap_frame nr va tree sz 1 = Inl e \<Longrightarrow> find_heap_frame nr va tree sz 0 = Inl e"
    and "find_heap_frame nr va tree sz 1 = Inr (a, mark 1 k tree) \<Longrightarrow> a \<noteq> UINT64_MAX \<Longrightarrow> anc 1 k \<Longrightarrow>
       find_heap_frame nr va tree sz 0 = Inr (a, mark 0 k tree)"
  using assms mark_up [of 1 k 0 tree]
  by (auto simp add: find_heap_frame_unfold [of nr va tree sz 0] passes_def)

lemma hsz_pow: "m \<le> 30 \<Longrightarrow> hsz (2 ^ m) = 2 ^ (30 - m)"
proof (induction m)
  case (Suc m)
  then have "30 - m = Suc (30 - Suc m)" "hsz (2 ^ m) = 2 ^ (30 - m)" by simp_all
  then have "hsz (2 ^ m) = 2 ^ Suc (30 - Suc m)" by metis
  with hsz_children(1) [of "2 ^ m"] show ?case by (simp add: mult.commute)
qed (simp add: hsz.simps)

lemma find_chain:
  assumes "\<And>m. m \<le> 13 \<Longrightarrow> passes tree sz (2 ^ m)" "passes tree sz 0"
  shows "find_heap_frame nr va tree sz (2 ^ 13) = Inl e \<Longrightarrow> find_heap_frame nr va tree sz 0 = Inl e"
    and "find_heap_frame nr va tree sz (2 ^ 13) = Inr (a, mark (2 ^ 13) k tree) \<Longrightarrow> a \<noteq> UINT64_MAX \<Longrightarrow>
       anc (2 ^ 13) k \<Longrightarrow> find_heap_frame nr va tree sz 0 = Inr (a, mark 0 k tree)"
proof -
  assume e: "find_heap_frame nr va tree sz (2 ^ 13) = Inl e"
  have "find_heap_frame nr va tree sz (2 ^ m) = Inl e" if "m \<le> 13" for m
    using that
  proof (induction m rule: inc_induct)
    case (step n)
    with assms(1) [of n] find_left_error [of tree sz "2 ^ n" nr va e] show ?case by (simp add: mult.commute)
  qed (rule e)
  from this [of 0] find_root(1) [OF assms(2)] show "find_heap_frame nr va tree sz 0 = Inl e" by simp
next
  assume a: "find_heap_frame nr va tree sz (2 ^ 13) = Inr (a, mark (2 ^ 13) k tree)" "a \<noteq> UINT64_MAX" "anc (2 ^ 13) k"
  have "find_heap_frame nr va tree sz (2 ^ m) = Inr (a, mark (2 ^ m) k tree) \<and> anc (2 ^ m) k" if "m \<le> 13" for m
    using that
  proof (induction m rule: inc_induct)
    case (step n)
    with a(2) assms(1) [of n] find_left [of tree sz "2 ^ n" nr va a k] anc_up [of "2 ^ Suc n" k]
    show ?case by (simp add: mult.commute)
  qed (simp_all add: a del: power_numeral)
  from this [of 0] find_root(2) [OF assms(2)] a(2)
  show "find_heap_frame nr va tree sz 0 = Inr (a, mark 0 k tree)" by simp
qed

lemma heap_shape_mark [simp]: "heap_shape (mark i k tree) = heap_shape tree"
  by (auto simp: heap_shape_def mark_def)

lemma fits_mark [simp]: "fits sz (mark i k tree j) = fits sz (tree j)"
  and sec_offset_mark [simp]: "sec_offset (mark i k tree j) = sec_offset (tree j)"
  and sec_size_mark [simp]: "sec_size (mark i k tree j) = sec_size (tree j)"
  by (simp_all add: fits_def mark_def)

lemma section_size_word: "heap_shape tree \<Longrightarrow> j < KERNEL_HEAP_LEN \<Longrightarrow> sec_size (tree j) = of_nat (hsz j)"
  by (simp add: heap_shape_def)

lemma passes_small:
  assumes sh: "heap_shape tree" and sz: "sz \<le> 0x10000"
  shows "m \<le> 13 \<Longrightarrow> \<not> occ tree (2 ^ m) \<Longrightarrow> passes tree sz (2 ^ m)"
    and "\<not> occ tree 0 \<Longrightarrow> passes tree sz 0"
proof -
  have big: "passes tree sz j" if j: "j < KERNEL_HEAP_LEN" "\<not> occ tree j" "2 ^ 17 \<le> hsz j" for j
  proof -
    from hoff_hsz_le [of j] have u: "unat (sec_size (tree j)) = hsz j"
      using section_size_word [OF sh j(1)] by (simp add: unat_of_nat)
    from sz have "unat sz \<le> 0x10000" by (simp add: word_le_nat_alt)
    with u j(3) have "\<not> sec_size (tree j) < sz" "\<not> sec_size (tree j) div 2 < sz"
      "sec_size (tree j) \<noteq> KERNEL_HEAP_MINBLOCK"
      by (auto simp: word_less_nat_alt unat_div KERNEL_HEAP_MINBLOCK_def)
    with j show ?thesis by (simp add: passes_def fits_def)
  qed
  show "passes tree sz (2 ^ m)" if "m \<le> 13" "\<not> occ tree (2 ^ m)"
  proof (rule big)
    have "(2 :: nat) ^ m \<le> 2 ^ 13" using that(1) by (rule power_increasing) simp
    then show "2 ^ m < KERNEL_HEAP_LEN" by (simp add: KERNEL_HEAP_LEN_def)
    have "(2 :: nat) ^ 17 \<le> 2 ^ (30 - m)" using that(1) by (intro power_increasing) simp_all
    then show "2 ^ 17 \<le> hsz (2 ^ m)" using that(1) by (simp add: hsz_pow)
  qed (rule that(2))
  show "passes tree sz 0" if "\<not> occ tree 0"
    by (rule big) (use that in \<open>simp_all add: KERNEL_HEAP_LEN_def hsz.simps\<close>)
qed

lemma passes_left:
  assumes "heap_shape tree" "sz \<le> 0x10000" "\<And>j. j < 16384 \<Longrightarrow> \<not> occ tree j" "m \<le> 13"
  shows "passes tree sz (2 ^ m)"
proof -
  have "(2 :: nat) ^ m \<le> 2 ^ 13" using assms(4) by (rule power_increasing) simp
  then show ?thesis by (intro passes_small assms) simp
qed

lemma hsz_leaves: "hsz 16384 = 65536" "hsz 16385 = 65536" "hoff 16384 = 2 ^ 30" "hoff 16385 = 2 ^ 30 + 65536"
  by (simp_all add: hsz.simps hoff.simps)

lemma leaf_facts:
  assumes sh: "heap_shape tree" and sz: "sz \<le> 0x10000"
  shows "fits sz (tree 16384)" "fits sz (tree 16385)"
    "sec_offset (tree 16384) = 0x40000000" "sec_offset (tree 16385) = 0x40010000"
  using assms by (simp_all add: heap_shape_def fits_def hsz_leaves KERNEL_HEAP_LEN_def KERNEL_HEAP_MINBLOCK_def)

lemma find_first:
  assumes sh: "heap_shape tree" and sz: "sz \<le> 0x10000" and o: "\<forall>j < KERNEL_HEAP_LEN. \<not> occ tree j"
    and u: "\<not> in_use (tree 16384)" and va: "0x40000000 + va \<noteq> UINT64_MAX"
  shows "find_heap_frame nr va tree sz 0 = Inr (0x40000000 + va, mark 0 16384 tree)"
proof -
  have L: "16384 < KERNEL_HEAP_LEN" by (simp add: KERNEL_HEAP_LEN_def)
  have o': "\<not> occ tree j" if "j \<le> 16384" for j using o that L by auto
  have ps: "passes tree sz (2 ^ m)" if "m \<le> 13" for m
    using passes_left [OF sh sz _ that] o' by simp
  have "find_heap_frame nr va tree sz 16384 = Inr (0x40000000 + va, mark 16384 16384 tree)"
    using find_heap_frame_hit [of 16384 tree sz] o' u L leaf_facts [OF sh sz] by simp
  with ps [of 13] find_left [of tree sz "2 ^ 13" nr va _ 16384] va
  have "find_heap_frame nr va tree sz (2 ^ 13) = Inr (0x40000000 + va, mark (2 ^ 13) 16384 tree)" by simp
  moreover have "anc (2 ^ 13) 16384" using anc_parent [of 16384] by simp
  ultimately show ?thesis using find_chain(2) [OF ps passes_small(2) [OF sh sz]] va o' by simp
qed

lemma boot_kheap_first:
  "find_heap_frame nr KERNEL_HEAP_START (heap_tree boot_kheap) 4096 0 =
     Inr (0x40000000 + KERNEL_HEAP_START, mark 0 16384 (heap_tree boot_kheap))"
proof (rule find_first)
  show "heap_shape (heap_tree boot_kheap)" using kheap_inv_boot by (simp add: kheap_inv_def heap_wf_def)
  show "\<forall>j < KERNEL_HEAP_LEN. \<not> occ (heap_tree boot_kheap) j"
    using heap_wf_fresh(2) [of "heap_tree boot_kheap", OF boot_kheap_tree] by blast
  show "\<not> in_use (heap_tree boot_kheap 16384)"
    by (rule heap_wf_fresh(3) [OF boot_kheap_tree]) (simp_all add: KERNEL_HEAP_LEN_def)
qed (simp_all add: KERNEL_HEAP_START_def)

lemma find_second:
  assumes sh: "heap_shape tree" and sz: "sz \<le> 0x10000" and o: "\<forall>j < KERNEL_HEAP_LEN. occ tree j \<longleftrightarrow> j = 16384"
    and u: "\<not> in_use (tree 16385)" and va: "0x40010000 + va \<noteq> UINT64_MAX"
  shows "find_heap_frame nr va tree sz 0 = Inr (0x40010000 + va, mark 0 16385 tree)"
proof -
  have L: "16385 < KERNEL_HEAP_LEN" by (simp add: KERNEL_HEAP_LEN_def)
  have o': "\<not> occ tree j" if "j < 16384" for j using o that L by auto
  have ps: "passes tree sz (2 ^ m)" if "m \<le> 13" for m
    using passes_left [OF sh sz _ that] o' by simp
  have l: "find_heap_frame nr va tree sz 16384 = Inr (UINT64_MAX, tree)"
    using o L by (subst find_heap_frame_unfold) simp
  have r: "find_heap_frame nr va tree sz 16385 = Inr (0x40010000 + va, mark 16385 16385 tree)"
    using find_heap_frame_hit [of 16385 tree sz] o u L leaf_facts [OF sh sz] by simp
  have "find_heap_frame nr va tree sz 8192 = Inr (0x40010000 + va, mark 8192 16385 tree)"
    using ps [of 13] l r va mark_up [of 16385 16385 8192 tree]
    by (subst find_heap_frame_unfold) (auto simp: passes_def)
  moreover have "anc 8192 16385" using anc_parent [of 16385] by simp
  ultimately show ?thesis using find_chain(2) [OF ps passes_small(2) [OF sh sz], of nr va] va o' by simp
qed

lemma find_third:
  assumes sh: "heap_shape tree" and sz: "sz \<le> 0x10000" and o: "\<forall>j < KERNEL_HEAP_LEN. occ tree j \<longleftrightarrow> j = 16384 \<or> j = 16385"
  shows "find_heap_frame None va tree sz 0 = Inl Undefined"
proof -
  have L: "16385 < KERNEL_HEAP_LEN" by (simp add: KERNEL_HEAP_LEN_def)
  have o': "\<not> occ tree j" if "j < 16384" for j using o that L by auto
  have ps: "passes tree sz (2 ^ m)" if "m \<le> 13" for m
    using passes_left [OF sh sz _ that] o' by simp
  have l: "find_heap_frame None va tree sz 16384 = Inr (UINT64_MAX, tree)"
    using o L by (subst find_heap_frame_unfold) simp
  have r: "find_heap_frame None va tree sz 16385 = Inr (UINT64_MAX, tree)"
    using o L by (subst find_heap_frame_unfold) simp
  have "find_heap_frame None va tree sz 8192 = Inl Undefined"
    using ps [of 13] l r by (subst find_heap_frame_unfold) (auto simp: passes_def)
  then show ?thesis using find_chain(1) [OF ps passes_small(2) [OF sh sz], of None va] o' by simp
qed

lemma kalloc_find:
  assumes "lock_free KernelHeapLock s" "heap_va_start s = KERNEL_HEAP_START"
  shows "find_heap_frame (no_return s) KERNEL_HEAP_START (heap_tree s) sz 0 = Inr (a, tree) \<Longrightarrow> a \<noteq> UINT64_MAX \<Longrightarrow>
      \<exists>t. kalloc sz s = Inr (a, t) \<and> lock_free KernelHeapLock t \<and> heap_tree t = tree
        \<and> heap_va_start t = KERNEL_HEAP_START \<and> no_return t = no_return s"
    and "find_heap_frame (no_return s) KERNEL_HEAP_START (heap_tree s) sz 0 = Inl e \<Longrightarrow> kalloc sz s = Inl e"
proof -
  obtain i c k where h: "lock_held KernelHeapLock (s\<lparr>cpus := c, locks := k\<rparr>)"
    and run: "kalloc sz s = bnd (kheap_request sz) (\<lambda>kheap_memory.
       if kheap_memory = UINT64_MAX then ret 0
       else seqn (release_Spinlock KernelHeapLock) (ret kheap_memory)) (s\<lparr>cpus := c, locks := k\<rparr>)"
    by (rule kalloc_run [OF assms(1)])
  {
    assume f: "find_heap_frame (no_return s) KERNEL_HEAP_START (heap_tree s) sz 0 = Inr (a, tree)" "a \<noteq> UINT64_MAX"
    let ?t = "s\<lparr>cpus := c, locks := k, heap_tree := tree\<rparr>"
    from h have "lock_held KernelHeapLock ?t" by simp
    then obtain j where u: "release_Spinlock KernelHeapLock ?t = Inr ((), lock_dropped KernelHeapLock j ?t)"
      "lock_free KernelHeapLock (lock_dropped KernelHeapLock j ?t)" by (blast dest: lock_held_dropped)
    from release_Spinlock_frame [OF u(1)] assms obtain c' k' where
      "lock_dropped KernelHeapLock j ?t = ?t\<lparr>cpus := c', locks := k'\<rparr>" by blast
    moreover have "kalloc sz s = Inr (a, lock_dropped KernelHeapLock j ?t)"
      using f assms u(1) unfolding run by (simp add: kheap_request_def op_combinators)
    ultimately show "\<exists>t. kalloc sz s = Inr (a, t) \<and> lock_free KernelHeapLock t \<and> heap_tree t = tree
        \<and> heap_va_start t = KERNEL_HEAP_START \<and> no_return t = no_return s"
      using u(2) assms by (intro exI [of _ "lock_dropped KernelHeapLock j ?t"]) simp
  }
  assume "find_heap_frame (no_return s) KERNEL_HEAP_START (heap_tree s) sz 0 = Inl e"
  then show "kalloc sz s = Inl e" using assms unfolding run by (simp add: kheap_request_def op_combinators)
qed

section \<open>Properties\<close>

text \<open>\<open>kernel_heap_tree_init\<close>, called as \<open>kheap_init\<close> calls it, writes every one of the
  \<open>KERNEL_HEAP_LEN\<close> sections and gives a well-formed heap with no live allocation: each section is
  half of its parent, siblings do not overlap, nothing is in use; and the heap lock is free.\<close>

theorem kernel_heap_tree_init_wf:
  "heap_wf (heap_tree (kernel_heap_tree_init 0 0x80000000 0 s)) \<and>
   (\<forall>j. j < KERNEL_HEAP_LEN \<longrightarrow> heap_tree (kernel_heap_tree_init 0 0x80000000 0 s) j =
      \<lparr>sec_size = of_nat (hsz j), sec_offset = of_nat (hoff j), sec_index = of_nat j, in_use = False, flags = 0\<rparr>) \<and>
   heap_used (kernel_heap_tree_init 0 0x80000000 0 s) = {} \<and>
   \<not> is_locked (locks (kernel_heap_tree_init 0 0x80000000 0 s) KernelHeapLock)"
proof -
  let ?r = "kernel_heap_tree_init 0 0x80000000 0 s"
  have t: "heap_tree ?r j = fresh_section j" if "j < KERNEL_HEAP_LEN" for j
    using that by (simp add: kernel_heap_tree_init_root kernel_heap_tree_init_tree)
  from heap_wf_fresh(2) [of "heap_tree ?r", OF t] have u: "heap_used ?r = {}" by (auto simp: heap_used_def)
  have "\<not> is_locked (locks ?r KernelHeapLock)"
    using kernel_heap_tree_init_frame [of 0 "0x80000000" 0 s] by (auto simp: KERNEL_HEAP_LEN_def)
  with heap_wf_fresh(1) [of "heap_tree ?r", OF t] t u show ?thesis by (simp add: fresh_section_def)
qed

theorem kernel_heap_tree_init_wf_witness:
  "heap_tree (kernel_heap_tree_init 0 0x80000000 0 boot_kheap) 3 =
     \<lparr>sec_size = 0x20000000, sec_offset = 0x60000000, sec_index = 3, in_use = False, flags = 0\<rparr>"
proof -
  have "(3 :: nat) < KERNEL_HEAP_LEN" by (simp add: KERNEL_HEAP_LEN_def)
  moreover have "hsz 3 = 0x20000000" "hoff 3 = 0x60000000" by (simp_all add: hsz.simps hoff.simps)
  ultimately show ?thesis using kernel_heap_tree_init_wf [of boot_kheap] by simp
qed

text \<open>C27: on a well-formed heap whose lock is free, \<open>kalloc\<close> succeeds whenever some section of the
  request's size class is free, that is, not in use and not below an occupied section. The bytes it
  returns lie inside the 2 GB heap, overlap no live allocation and are live afterwards; the heap
  stays well formed and the lock is free again. The caller of \<open>find_heap_frame\<close> reads \<open>UINT64_MAX\<close>
  where the function ends without a return.\<close>

theorem kalloc_succeeds:
  assumes inv: "kheap_inv s" and lock: "lock_free KernelHeapLock s" and nr: "no_return s = Some UINT64_MAX"
    and cand: "candidate (heap_tree s) sz 0 k"
  shows "\<exists>a t. kalloc sz s = Inr (a, t) \<and> a \<noteq> 0 \<and> kheap_inv t \<and> lock_free KernelHeapLock t
     \<and> byte_range sz a \<subseteq> {unat KERNEL_HEAP_START ..< unat KERNEL_HEAP_START + 2 ^ 31}
     \<and> byte_range sz a \<inter> heap_used s = {} \<and> byte_range sz a \<subseteq> heap_used t \<and> heap_used s \<subseteq> heap_used t"
proof -
  have va: "heap_va_start s = KERNEL_HEAP_START" using inv by (simp add: kheap_inv_def)
  from kheap_request_complete [OF inv nr cand] obtain a u where
    q: "kheap_request sz s = Inr (a, u)" "a \<noteq> UINT64_MAX" by blast
  then obtain tree where "find_heap_frame (no_return s) KERNEL_HEAP_START (heap_tree s) sz 0 = Inr (a, tree)"
    using va by (auto simp: kheap_request_def split: sum.splits)
  from kalloc_find(1) [OF lock va this q(2)] obtain t where
    t: "kalloc sz s = Inr (a, t)" "lock_free KernelHeapLock t" by blast
  from kheap_request_cases [OF inv q(1)] q(2) obtain j where j: "candidate (heap_tree s) sz 0 j"
    and a: "a = sec_offset (heap_tree s j) + KERNEL_HEAP_START" by blast
  from inv have wf: "heap_wf (heap_tree s)" by (simp add: kheap_inv_def)
  with j a have "a \<noteq> 0" using section_address(4) by (auto simp: heap_wf_def candidate_def)
  moreover have "byte_range sz a \<subseteq> {unat KERNEL_HEAP_START ..< unat KERNEL_HEAP_START + 2 ^ 31}"
    using candidate_block(1) [OF wf j] hoff_hsz_le [of j] unfolding a
    by (auto simp: blk_def image_add_atLeastLessThan)
  ultimately show ?thesis
    using t kheap_alloc.alloc_inv [OF inv t(1)] kheap_alloc.alloc_used [OF inv t(1)]
      kheap_alloc.alloc_fresh [OF inv t(1)] by blast
qed

theorem kalloc_succeeds_witness:
  "candidate (heap_tree boot_kheap) 4096 0 16384 \<and>
   (\<exists>a t. kalloc 4096 boot_kheap = Inr (a, t) \<and> a \<noteq> 0 \<and> byte_range 4096 a \<subseteq> heap_used t)"
  using kalloc_succeeds [OF kheap_inv_boot boot_kheap_env(3,2) boot_kheap_candidate] boot_kheap_candidate by blast

text \<open>C13: the blocks returned by any sequence of \<open>kalloc\<close> calls that all succeed are pairwise
  disjoint and disjoint from everything allocated before, whatever the requested sizes.\<close>

theorem kalloc_sequence_disjoint:
  assumes "kheap_inv s" and "alloc_seq kalloc ns s = Inr (as, t)" and "\<forall>a \<in> set as. a \<noteq> 0"
  shows "kheap_inv t \<and> length as = length ns \<and> blocks_disjoint byte_range (heap_used s) (zip ns as)"
  using kheap_alloc.alloc_seq_disjoint [OF assms] by blast

theorem kalloc_sequence_disjoint_witness:
  "\<exists>a t. alloc_seq kalloc [4096] boot_kheap = Inr ([a], t) \<and> kheap_inv t
     \<and> byte_range 4096 a \<inter> heap_used boot_kheap = {}"
proof -
  have "\<exists>t. kalloc 4096 boot_kheap = Inr (0x40000000 + KERNEL_HEAP_START, t)"
    using kalloc_find(1) [OF boot_kheap_env(3,1) boot_kheap_first] by (auto simp: KERNEL_HEAP_START_def)
  then obtain t where t: "alloc_seq kalloc [4096] boot_kheap = Inr ([0x40000000 + KERNEL_HEAP_START], t)"
    by (auto simp: op_combinators)
  then show ?thesis using kalloc_sequence_disjoint [OF kheap_inv_boot t]
    by (simp add: KERNEL_HEAP_START_def)
qed

text \<open>When no section of the request's size class is free, \<open>kalloc\<close> returns NULL with the heap
  unchanged but with \<open>KernelHeapLock\<close> still held, so the next \<open>kalloc\<close> or \<open>kfree\<close> of that CPU, for
  any argument, ends in the deadlock panic of \<open>acquire_Spinlock\<close>.\<close>

theorem kalloc_failure_leaks_lock:
  assumes inv: "kheap_inv s" and lock: "lock_free KernelHeapLock s" and nr: "no_return s = Some UINT64_MAX"
    and none: "\<And>k. \<not> candidate (heap_tree s) sz 0 k"
  shows "\<exists>t. kalloc sz s = Inr (0, t) \<and> heap_tree t = heap_tree s \<and>
     (\<forall>sz' addr. kalloc sz' t = Inl (Panic ''acquire_Spinlock() --> encountered deadlock situation.'')
        \<and> kfree addr t = Inl (Panic ''acquire_Spinlock() --> encountered deadlock situation.''))"
proof -
  obtain i c k where h: "lock_held KernelHeapLock (s\<lparr>cpus := c, locks := k\<rparr>)"
    and run: "kalloc sz s = bnd (kheap_request sz) (\<lambda>kheap_memory.
       if kheap_memory = UINT64_MAX then ret 0
       else seqn (release_Spinlock KernelHeapLock) (ret kheap_memory)) (s\<lparr>cpus := c, locks := k\<rparr>)"
    by (rule kalloc_run [OF lock])
  let ?t = "s\<lparr>cpus := c, locks := k\<rparr>"
  have inv': "kheap_inv ?t" using inv by (simp add: kheap_inv_frame)
  obtain a u where q: "kheap_request sz ?t = Inr (a, u)"
    using find_heap_frame_total [of UINT64_MAX "heap_va_start s" "heap_tree s" sz 0] nr
    by (auto simp: kheap_request_def)
  from kheap_request_cases [OF inv' q] none have "a = UINT64_MAX" "u = ?t" by auto
  with q have "kalloc sz s = Inr (0, ?t)" unfolding run by (simp add: op_combinators)
  moreover have "acquire_Spinlock KernelHeapLock ?t = Inl (Panic ''acquire_Spinlock() --> encountered deadlock situation.'')"
    using h by (auto simp: lock_held_def intro: acquire_Spinlock_deadlock)
  ultimately show ?thesis by (intro exI [of _ ?t]) (simp add: kalloc_def kfree_def op_combinators)
qed

theorem kalloc_failure_leaks_lock_witness:
  "kheap_inv boot_kheap \<and> (\<exists>t. kalloc 0x80000001 boot_kheap = Inr (0, t)
     \<and> kalloc 64 t = Inl (Panic ''acquire_Spinlock() --> encountered deadlock situation.''))"
proof -
  have "\<not> candidate (heap_tree boot_kheap) 0x80000001 0 k" for k
  proof
    assume c: "candidate (heap_tree boot_kheap) 0x80000001 0 k"
    then have "k < KERNEL_HEAP_LEN" "fits 0x80000001 (heap_tree boot_kheap k)" by (auto simp: candidate_def)
    moreover from kheap_inv_boot have "heap_shape (heap_tree boot_kheap)" by (simp add: kheap_inv_def heap_wf_def)
    ultimately have "0x80000001 \<le> hsz k"
      using section_address(2) [of "heap_tree boot_kheap" k] by (simp add: fits_def word_le_nat_alt)
    with hoff_hsz_le [of k] show False by simp
  qed
  from kalloc_failure_leaks_lock [OF kheap_inv_boot boot_kheap_env(3,2) this] kheap_inv_boot show ?thesis by blast
qed

text \<open>\<open>kfree\<close> of a live block reports success but frees nothing. \<open>heap_search_by_offset\<close> stops at
  section 0, which is in use, and \<open>kfree\<close> only changes its local copies of sections: the tree, and
  with it the set of live bytes, is the one \<open>kalloc\<close> left.\<close>

theorem kfree_frees_nothing:
  assumes inv: "kheap_inv s" and lock: "lock_free KernelHeapLock s"
    and call: "kalloc sz s = Inr (a, t)" "a \<noteq> 0" and lock': "lock_free KernelHeapLock t"
  shows "\<exists>u. kfree a t = Inr (True, u) \<and> heap_tree u = heap_tree t \<and> heap_used u = heap_used t"
proof -
  from inv call(1) show ?thesis
  proof (cases rule: kalloc_cases)
    case fail
    with call(2) show ?thesis by simp
  next
    case (ok c k j)
    from inv have sh: "heap_shape (heap_tree s)" by (simp add: kheap_inv_def heap_wf_def)
    from ok(1) have j: "j < KERNEL_HEAP_LEN" by (simp add: candidate_def)
    note adr = section_address [OF sh j]
    have va: "heap_va_start t = KERNEL_HEAP_START" using inv ok(3) by (simp add: kheap_inv_def)
    have hz: "0 < hsz j"
    proof -
      from ok(1) have "fits sz (heap_tree s j)" by (simp add: candidate_def)
      then have "sec_size (heap_tree s j) \<noteq> 0" by (auto simp: fits_def KERNEL_HEAP_MINBLOCK_def)
      with adr(2) show ?thesis by (metis unat_eq_zero gr_zeroI)
    qed
    have le: "heap_va_start t \<le> a" using adr(1) unfolding va ok(2) by (simp add: word_le_nat_alt)
    have off: "unat (a - heap_va_start t) < 2 ^ 31"
      using le adr(1) hoff_hsz_le [of j] hz unfolding va ok(2) by (subst unat_minus_nowrap) simp_all
    have "heap_shape (heap_tree t)" "in_use (heap_tree t 0)" using ok(3) sh by (simp_all add: in_use_mark)
    from kfree_in_use [OF lock' this le off] show ?thesis by (auto simp: heap_used_def)
  qed
qed

theorem kfree_frees_nothing_witness:
  "\<exists>t u. kalloc 4096 boot_kheap = Inr (0x40000000 + KERNEL_HEAP_START, t)
     \<and> kfree (0x40000000 + KERNEL_HEAP_START) t = Inr (True, u) \<and> heap_used u = heap_used t"
proof -
  obtain t where t: "kalloc 4096 boot_kheap = Inr (0x40000000 + KERNEL_HEAP_START, t)" "lock_free KernelHeapLock t"
    using kalloc_find(1) [OF boot_kheap_env(3,1) boot_kheap_first] by (auto simp: KERNEL_HEAP_START_def)
  have "0x40000000 + KERNEL_HEAP_START \<noteq> 0" by (simp add: KERNEL_HEAP_START_def)
  from kfree_frees_nothing [OF kheap_inv_boot boot_kheap_env(3) t(1) this t(2)] t(1) show ?thesis by blast
qed

text \<open>The third request of at most 64 KB on a fresh heap reaches the end of \<open>find_heap_frame\<close>
  without a \<open>return\<close>. The first two get the two leftmost minimal blocks; the third search comes back
  from both of them empty-handed at section 8192 and its caller reads a value the C standard leaves
  undefined (\<open>no_return = None\<close>).\<close>

theorem third_kalloc_undefined:
  assumes fresh: "\<And>j. j < KERNEL_HEAP_LEN \<Longrightarrow> heap_tree s j = fresh_section j"
    and va: "heap_va_start s = KERNEL_HEAP_START" and lock: "lock_free KernelHeapLock s" and nr: "no_return s = None"
    and sz: "sz1 \<le> 0x10000" "sz2 \<le> 0x10000" "sz3 \<le> 0x10000"
  shows "\<exists>t. alloc_seq kalloc [sz1, sz2] s =
      Inr ([0x40000000 + KERNEL_HEAP_START, 0x40010000 + KERNEL_HEAP_START], t) \<and> kalloc sz3 t = Inl Undefined"
proof -
  note fr = heap_wf_fresh [of "heap_tree s", OF fresh]
  from fr(1) have sh: "heap_shape (heap_tree s)" by (simp add: heap_wf_def)
  have L: "16385 < KERNEL_HEAP_LEN" by (simp add: KERNEL_HEAP_LEN_def)
  have n: "0x40000000 + KERNEL_HEAP_START \<noteq> UINT64_MAX" "0x40010000 + KERNEL_HEAP_START \<noteq> UINT64_MAX"
    by (simp_all add: KERNEL_HEAP_START_def)
  have "find_heap_frame (no_return s) KERNEL_HEAP_START (heap_tree s) sz1 0 =
      Inr (0x40000000 + KERNEL_HEAP_START, mark 0 16384 (heap_tree s))"
    using fr L by (intro find_first sh sz n) auto
  from kalloc_find(1) [OF lock va this n(1)] obtain t1 where
    k1: "kalloc sz1 s = Inr (0x40000000 + KERNEL_HEAP_START, t1)" and t1: "lock_free KernelHeapLock t1"
      "heap_tree t1 = mark 0 16384 (heap_tree s)" "heap_va_start t1 = KERNEL_HEAP_START" "no_return t1 = None"
    using nr by auto
  have "\<not> anc 16385 16384" using anc_le by fastforce
  moreover have "anc 16384 16385 = False" by (simp add: anc.simps)
  ultimately have u: "\<not> in_use (heap_tree t1 16385)" using t1(2) fr(3) L by (simp add: in_use_mark)
  have "find_heap_frame (no_return t1) KERNEL_HEAP_START (heap_tree t1) sz2 0 =
      Inr (0x40010000 + KERNEL_HEAP_START, mark 0 16385 (heap_tree t1))"
    using fr u t1(2) sh by (intro find_second sz n) (auto simp: occ_mark)
  from kalloc_find(1) [OF t1(1,3) this n(2)] obtain t2 where
    k2: "kalloc sz2 t1 = Inr (0x40010000 + KERNEL_HEAP_START, t2)" and t2: "lock_free KernelHeapLock t2"
      "heap_tree t2 = mark 0 16385 (heap_tree t1)" "heap_va_start t2 = KERNEL_HEAP_START" "no_return t2 = None"
    using t1(4) by auto
  have "find_heap_frame (no_return t2) KERNEL_HEAP_START (heap_tree t2) sz3 0 = Inl Undefined"
    unfolding t2(4) using fr t1(2) t2(2) sh by (intro find_third sz) (auto simp: occ_mark)
  from kalloc_find(2) [OF t2(1,3) this] k1 k2 show ?thesis by (simp add: op_combinators)
qed

theorem third_kalloc_undefined_witness:
  "\<exists>t. alloc_seq kalloc [64, 4096] (boot_kheap\<lparr>no_return := None\<rparr>) =
      Inr ([0x40000000 + KERNEL_HEAP_START, 0x40010000 + KERNEL_HEAP_START], t) \<and> kalloc 8 t = Inl Undefined"
proof -
  have "lock_free KernelHeapLock (boot_kheap\<lparr>no_return := None\<rparr>)"
    using boot_kheap_env(3) by (simp add: lock_free_def registered_def)
  then show ?thesis
    using boot_kheap_tree boot_kheap_env(1) by (intro third_kalloc_undefined) simp_all
qed

end
