(* ===== verification/Pmm.thy ===== *)
theory Pmm
  imports Kernel_Heap
begin

text \<open>
  The physical memory manager of src/src/kernel/mem/pmm.c: the bitmap of 2 MB frames and the
  manager of 4 KB frames, which cuts 2 MB frames into chunks.

  \<open>PhysicalPageBitmap\<close> is an array of 512 words; an access outside it is \<open>Undefined\<close>. The fields of
  a \<open>HugeChunk_2mb\<close> object live in stores indexed by the address of the object, and its list entry
  in the stores of \<open>Linked_List\<close>. The header \<open>PMM.manager_4kb.head\<close> has the link-time address
  \<open>spm_head\<close>. Writing to the serial port is left out: it changes nothing the kernel reads back.

  The abstract view of the bitmap is the set \<open>free_frames\<close> of numbers of free frames; the
  operations of the code refine \<open>Min\<close>, deletion and insertion on it. The 4 KB manager meets the
  contract \<open>allocator\<close>.
\<close>

section \<open>Data\<close>

definition PGSIZE :: u64 where "PGSIZE = 4096"
definition HUGEPGSIZE :: u64 where "HUGEPGSIZE = 0x200000"

definition HUGEPGROUNDUP :: "u64 \<Rightarrow> u64" where
  "HUGEPGROUNDUP sz = (sz + HUGEPGSIZE) - ((sz + HUGEPGSIZE) mod HUGEPGSIZE)"
definition HUGEPGROUNDDOWN :: "u64 \<Rightarrow> u64" where
  "HUGEPGROUNDDOWN sz = sz - (sz mod HUGEPGSIZE)"
definition PGROUNDUP :: "u64 \<Rightarrow> u64" where
  "PGROUNDUP sz = (sz + PGSIZE) - ((sz + PGSIZE) mod PGSIZE)"
definition PGROUNDDOWN :: "u64 \<Rightarrow> u64" where
  "PGROUNDDOWN sz = sz - (sz mod PGSIZE)"

record pmm = kheap +
  PhysicalPageBitmap :: "nat \<Rightarrow> u64"
  free_framecount :: u32
  init_success :: bool
  chunk_start :: "u64 \<Rightarrow> u64"
  chunk_use_count :: "u64 \<Rightarrow> u32"
  chunk_bitmap :: "u64 \<Rightarrow> nat \<Rightarrow> u32"

definition sizeof_HugeChunk_2mb :: u64 where "sizeof_HugeChunk_2mb = 528"

definition spm_head :: "'a smp_scheme \<Rightarrow> u64" where "spm_head s = dll_head_va (link s) 0"

section \<open>The frame bitmap\<close>

definition page_bitmap_whiteout :: "'a pmm_scheme \<Rightarrow> 'a pmm_scheme" where
  "page_bitmap_whiteout s =
     s\<lparr>PhysicalPageBitmap := (\<lambda>i. if i < 512 then UINT64_MAX else PhysicalPageBitmap s i)\<rparr>"

definition init_PMM :: "'a pmm_scheme \<Rightarrow> fault + unit \<times> 'a pmm_scheme" where
  "init_PMM =
     seqn (init_Spinlock spm_lock ''manager_4kb'')
    (seqn (init_Spinlock PMM_lock ''PMM_lock'')
          (upd page_bitmap_whiteout))"

definition frame_word :: "u64 \<Rightarrow> nat" where
  "frame_word physical_address =
     (let absolute_index = HUGEPGROUNDDOWN physical_address div (2 * 1024 * 1024);
          inner_entry_index = absolute_index mod 64
      in unat ((absolute_index - inner_entry_index) div 64))"

definition frame_bit :: "u64 \<Rightarrow> nat" where
  "frame_bit physical_address =
     unat ((HUGEPGROUNDDOWN physical_address div (2 * 1024 * 1024)) mod 64)"

definition physical_frame_checkout :: "u64 \<Rightarrow> 'a pmm_scheme \<Rightarrow> fault + unit \<times> 'a pmm_scheme" where
  "physical_frame_checkout physical_address s =
     (let entry_index = frame_word physical_address; inner_entry_index = frame_bit physical_address in
      if entry_index \<ge> 512 then Inl Undefined
      else if PhysicalPageBitmap s entry_index AND push_bit inner_entry_index 1 \<noteq> 0
      then Inl (Panic ''physical_frame_checkout() --> attempted to checkout frame that was in use.'')
      else Inr ((), s\<lparr>PhysicalPageBitmap := (PhysicalPageBitmap s)
                 (entry_index := PhysicalPageBitmap s entry_index OR push_bit inner_entry_index 1),
               free_framecount := free_framecount s - 1\<rparr>))"

text \<open>The two nested loops of \<open>physical_frame_request\<close>.\<close>

function scan_bits :: "u64 \<Rightarrow> nat \<Rightarrow> nat option" where
  "scan_bits w j =
     (if j < 64 then if w AND push_bit j 1 = 0 then Some j else scan_bits w (j + 1) else None)"
  by pat_completeness auto
termination by (relation "measure (\<lambda>(w, j). 64 - j)") auto

function scan_bitmap :: "(nat \<Rightarrow> u64) \<Rightarrow> nat \<Rightarrow> (nat \<times> nat) option" where
  "scan_bitmap bm i =
     (if i < 512
      then case scan_bits (bm i) 0 of Some j \<Rightarrow> Some (i, j) | None \<Rightarrow> scan_bitmap bm (i + 1)
      else None)"
  by pat_completeness auto
termination by (relation "measure (\<lambda>(bm, i). 512 - i)") auto

declare scan_bits.simps [simp del] scan_bitmap.simps [simp del]

definition physical_frame_request :: "'a pmm_scheme \<Rightarrow> fault + u64 \<times> 'a pmm_scheme" where
  "physical_frame_request =
     seqn (acquire_Spinlock PMM_lock)
    (bnd (gets free_framecount) (\<lambda>n.
     if n = 0 then seqn (release_Spinlock PMM_lock) (ret UINT64_MAX)
     else bnd (gets (\<lambda>s. scan_bitmap (PhysicalPageBitmap s) 0)) (\<lambda>r.
     case r of
       None \<Rightarrow> seqn (release_Spinlock PMM_lock) (ret UINT64_MAX)
     | Some (i, j) \<Rightarrow>
         let valid_frame = of_nat i * 64 * HUGEPGSIZE + of_nat j * HUGEPGSIZE in
         seqn (physical_frame_checkout valid_frame)
        (seqn (release_Spinlock PMM_lock)
              (if valid_frame < 1024 * 1024 * 1024
               then raise (Panic ''physical_frame_request() --> returned unmovable kernel frame'')
               else ret valid_frame)))))"

definition check_kernel_frame :: "u64 \<Rightarrow> bool" where
  "check_kernel_frame physical_frame \<longleftrightarrow> physical_frame < 1024 * 1024 * 1024"

definition check_physical_page_in_use :: "u64 \<Rightarrow> 'a pmm_scheme \<Rightarrow> fault + bool \<times> 'a pmm_scheme" where
  "check_physical_page_in_use physical_address s =
     (let entry_index = frame_word physical_address in
      if entry_index \<ge> 512 then Inl Undefined
      else Inr (PhysicalPageBitmap s entry_index AND push_bit (frame_bit physical_address) 1 \<noteq> 0, s))"

definition physical_frame_checkin :: "u64 \<Rightarrow> 'a pmm_scheme \<Rightarrow> fault + unit \<times> 'a pmm_scheme" where
  "physical_frame_checkin physical_address s =
     (let entry_index = frame_word physical_address in
      if entry_index \<ge> 512 then Inl Undefined
      else Inr ((), s\<lparr>PhysicalPageBitmap := (PhysicalPageBitmap s)
                 (entry_index := PhysicalPageBitmap s entry_index AND NOT (push_bit (frame_bit physical_address) 1)),
               free_framecount := free_framecount s + 1\<rparr>))"

definition physical_frame_free :: "u64 \<Rightarrow> 'a pmm_scheme \<Rightarrow> fault + unit \<times> 'a pmm_scheme" where
  "physical_frame_free frame =
     (if frame mod HUGEPGSIZE \<noteq> 0 then raise (Panic ''physical_frame_free() --> frame not page aligned.'')
      else if check_kernel_frame frame
      then bnd (gets init_success) (\<lambda>done.
        if \<not> done then ret ()
        else raise (Panic ''physical_frame_free() --> Cannot free a frame used in a kernel section''))
      else bnd (check_physical_page_in_use frame) (\<lambda>used.
        if \<not> used then raise (Panic ''physical_frame_free() --> attempted to fee an unused frame'')
        else seqn (physical_frame_checkin frame)
            (bnd (check_physical_page_in_use frame) (\<lambda>used'.
             if used' then raise (Panic ''free failed'') else ret ()))))"

text \<open>The loop of \<open>free_frame_range\<close> has an empty body; the call that looks like its body comes after it.\<close>

partial_function (option) free_frame_range_loop :: "u64 \<Rightarrow> u64 \<Rightarrow> u64 option" where
  "free_frame_range_loop pg_frame end_addr =
     (if pg_frame + PGSIZE \<le> end_addr then free_frame_range_loop (pg_frame + PGSIZE) end_addr
      else Some pg_frame)"

definition free_frame_range :: "u64 \<Rightarrow> u64 \<Rightarrow> 'a pmm_scheme \<Rightarrow> fault + unit \<times> 'a pmm_scheme" where
  "free_frame_range start end_addr =
     (case free_frame_range_loop (PGROUNDUP start) end_addr of
        None \<Rightarrow> raise Diverge
      | Some pg_frame \<Rightarrow> physical_frame_free pg_frame)"

section \<open>Lemmas on frame numbers\<close>

definition frame_no :: "u64 \<Rightarrow> nat" where "frame_no a = unat a div 0x200000"

lemma frame_word_bit:
  "frame_word a = frame_no a div 64" "frame_bit a = frame_no a mod 64"
proof -
  have "unat (HUGEPGROUNDDOWN a) = unat a - unat a mod 0x200000"
    unfolding HUGEPGROUNDDOWN_def HUGEPGSIZE_def
    by (subst unat_minus_nowrap) (simp_all add: word_le_nat_alt unat_mod)
  then have n: "unat (HUGEPGROUNDDOWN a div 2097152) = frame_no a"
    by (simp add: unat_div frame_no_def minus_mod_eq_mult_div)
  then show "frame_bit a = frame_no a mod 64" by (simp add: frame_bit_def unat_mod)
  let ?w = "HUGEPGROUNDDOWN a div 2097152 :: u64"
  have "unat (?w - ?w mod 64) = frame_no a - frame_no a mod 64"
    by (subst unat_minus_nowrap) (simp_all add: word_le_nat_alt unat_mod n)
  then show "frame_word a = frame_no a div 64"
    by (simp add: frame_word_def Let_def unat_div minus_mod_eq_mult_div)
qed

lemma frame_no_bound: "frame_no a div 64 < 512 \<longleftrightarrow> unat a < 2 ^ 36"
  by (simp add: frame_no_def div_less_iff_less_mult)

definition free_frames :: "'a pmm_scheme \<Rightarrow> nat set" where
  "free_frames s = {n. n < 32768 \<and> \<not> bit (PhysicalPageBitmap s (n div 64)) (n mod 64)}"

text \<open>
  The accounting invariant: the counter is the number of free frames and no frame of the first
  gigabyte, which belongs to the kernel, is ever free.
\<close>

definition pmm_inv :: "'a pmm_scheme \<Rightarrow> bool" where
  "pmm_inv s \<longleftrightarrow> unat (free_framecount s) = card (free_frames s) \<and> free_frames s \<inter> {..< 512} = {}"

definition frame_addr :: "nat \<Rightarrow> u64" where
  "frame_addr n = of_nat n * HUGEPGSIZE"

lemma frame_test: "w AND push_bit (n mod 64) 1 = 0 \<longleftrightarrow> \<not> bit w (n mod 64)" for w :: u64
  by (rule and_push_bit_1_eq_0_iff) simp

lemma finite_free_frames [simp]: "finite (free_frames s)"
  by (simp add: free_frames_def)

lemma card_free_frames: "card (free_frames s) \<le> 32768"
  using card_mono [of "{..< 32768}" "free_frames s"] by (auto simp: free_frames_def)

lemma unat_frame_addr: "n \<le> 32768 \<Longrightarrow> unat (frame_addr n) = n * 0x200000"
  unfolding frame_addr_def HUGEPGSIZE_def by (subst unat_mult_nowrap) (simp_all add: unat_of_nat)

lemma frame_no_addr [simp]: "n < 32768 \<Longrightarrow> frame_no (frame_addr n) = n"
  by (simp add: frame_no_def unat_frame_addr)

lemma frame_addr_split:
  "i < 512 \<Longrightarrow> j < 64 \<Longrightarrow> of_nat i * 64 * HUGEPGSIZE + of_nat j * HUGEPGSIZE = frame_addr (i * 64 + j)"
  by (simp add: frame_addr_def algebra_simps)

lemma kernel_frame_addr: "n < 32768 \<Longrightarrow> frame_addr n < 1024 * 1024 * 1024 \<longleftrightarrow> n < 512"
  by (simp add: word_less_nat_alt unat_frame_addr)

lemma div_mod_64_eq_iff: "n div 64 = m div 64 \<and> n mod 64 = m mod 64 \<longleftrightarrow> n = m" for n m :: nat
  by (metis div_mult_mod_eq)

lemma bitmap_set_bit:
  "bit (((f :: nat \<Rightarrow> u64)(m div 64 := f (m div 64) OR push_bit (m mod 64) 1)) (n div 64)) (n mod 64)
     \<longleftrightarrow> bit (f (n div 64)) (n mod 64) \<or> n = m"
proof (cases "n div 64 = m div 64")
  case True
  then have "n = m \<longleftrightarrow> n mod 64 = m mod 64" using div_mod_64_eq_iff [of n m] by blast
  with True show ?thesis by (simp add: bit_or_push_bit del: push_bit_of_1)
next
  case False
  then have "n \<noteq> m" by auto
  with False show ?thesis by simp
qed

lemma bitmap_clear_bit:
  "bit (((f :: nat \<Rightarrow> u64)(m div 64 := f (m div 64) AND NOT (push_bit (m mod 64) 1))) (n div 64)) (n mod 64)
     \<longleftrightarrow> bit (f (n div 64)) (n mod 64) \<and> n \<noteq> m"
proof (cases "n div 64 = m div 64")
  case True
  then have "n = m \<longleftrightarrow> n mod 64 = m mod 64" using div_mod_64_eq_iff [of n m] by blast
  with True show ?thesis by (simp add: bit_and_not_push_bit del: push_bit_of_1)
next
  case False
  then have "n \<noteq> m" by auto
  with False show ?thesis by simp
qed

lemma free_frames_set:
  "free_frames (s\<lparr>PhysicalPageBitmap := (PhysicalPageBitmap s)
      (m div 64 := PhysicalPageBitmap s (m div 64) OR push_bit (m mod 64) 1)\<rparr>) = free_frames s - {m}"
  by (simp add: free_frames_def bitmap_set_bit del: push_bit_of_1 fun_upd_apply) blast

lemma free_frames_clear:
  "m < 32768 \<Longrightarrow> free_frames (s\<lparr>PhysicalPageBitmap := (PhysicalPageBitmap s)
      (m div 64 := PhysicalPageBitmap s (m div 64) AND NOT (push_bit (m mod 64) 1))\<rparr>) = insert m (free_frames s)"
  by (simp add: free_frames_def bitmap_clear_bit del: push_bit_of_1 fun_upd_apply) blast

lemma free_frames_count [simp]: "free_frames (s\<lparr>free_framecount := c\<rparr>) = free_frames s"
  by (simp add: free_frames_def)

section \<open>The scan\<close>

lemma scan_bits_spec:
  "(case scan_bits w j of None \<Rightarrow> \<forall>k. j \<le> k \<longrightarrow> k < 64 \<longrightarrow> bit w k
    | Some i \<Rightarrow> j \<le> i \<and> i < 64 \<and> \<not> bit w i \<and> (\<forall>k. j \<le> k \<longrightarrow> k < i \<longrightarrow> bit w k))"
proof (induction w j rule: scan_bits.induct)
  case (1 w j)
  show ?case
  proof (cases "j < 64 \<and> bit w j")
    case True
    then have "scan_bits w j = scan_bits w (j + 1)" using and_push_bit_1_eq_0_iff [of j w]
      by (simp add: scan_bits.simps [of w j])
    moreover have "j \<le> k \<longleftrightarrow> k = j \<or> j + 1 \<le> k" for k by auto
    ultimately show ?thesis using 1 True and_push_bit_1_eq_0_iff [of j w] by (auto split: option.splits)
  next
    case False
    then show ?thesis using and_push_bit_1_eq_0_iff [of j w]
      by (auto simp: scan_bits.simps [of w j])
  qed
qed

lemma scan_bits_0_spec:
  "scan_bits w 0 = None \<longleftrightarrow> (\<forall>k < 64. bit w k)"
  "scan_bits w 0 = Some i \<Longrightarrow> i < 64 \<and> \<not> bit w i \<and> (\<forall>k < i. bit w k)"
  using scan_bits_spec [where w = w and j = 0] by (auto split: option.splits)

lemma scan_bitmap_spec:
  "(case scan_bitmap bm i of
      None \<Rightarrow> \<forall>n. i * 64 \<le> n \<longrightarrow> n < 32768 \<longrightarrow> bit (bm (n div 64)) (n mod 64)
    | Some (k, j) \<Rightarrow> i \<le> k \<and> k < 512 \<and> j < 64 \<and> \<not> bit (bm k) j
        \<and> (\<forall>n. i * 64 \<le> n \<longrightarrow> n < k * 64 + j \<longrightarrow> bit (bm (n div 64)) (n mod 64)))"
proof (induction bm i rule: scan_bitmap.induct)
  case (1 bm i)
  show ?case
  proof (cases "i < 512")
    case False
    then show ?thesis by (simp add: scan_bitmap.simps [of bm i])
  next
    case True
    show ?thesis
    proof (cases "scan_bits (bm i) 0")
      case None
      then have all: "\<forall>k < 64. bit (bm i) k" by (simp add: scan_bits_0_spec)
      have blk: "bit (bm (n div 64)) (n mod 64)" if "i * 64 \<le> n" "n < (i + 1) * 64" for n
      proof -
        from that have "n div 64 = i" by (intro div_nat_eqI) simp_all
        with all show ?thesis by simp
      qed
      then have ext: "(\<forall>n. i * 64 \<le> n \<longrightarrow> n < m \<longrightarrow> bit (bm (n div 64)) (n mod 64)) \<longleftrightarrow>
          (\<forall>n. (i + 1) * 64 \<le> n \<longrightarrow> n < m \<longrightarrow> bit (bm (n div 64)) (n mod 64))" for m
        by (metis add_leD1 distrib_right not_le)
      from None True have "scan_bitmap bm i = scan_bitmap bm (i + 1)"
        by (simp add: scan_bitmap.simps [of bm i])
      with 1 [OF True None] show ?thesis unfolding ext by (auto split: option.splits)
    next
      case (Some j)
      from scan_bits_0_spec(2) [OF Some] have j: "j < 64" "\<not> bit (bm i) j" "\<forall>k < j. bit (bm i) k" by blast+
      have "bit (bm (n div 64)) (n mod 64)" if "i * 64 \<le> n" "n < i * 64 + j" for n
      proof -
        from that j(1) have "n div 64 = i" by (intro div_nat_eqI) simp_all
        moreover from this that have "n mod 64 < j" by (metis add_less_cancel_left div_mult_mod_eq)
        ultimately show ?thesis using j(3) by simp
      qed
      with Some True j show ?thesis by (simp add: scan_bitmap.simps [of bm i])
    qed
  qed
qed

lemma scan_bitmap_free:
  "scan_bitmap (PhysicalPageBitmap s) 0 = None \<longleftrightarrow> free_frames s = {}"
  "scan_bitmap (PhysicalPageBitmap s) 0 = Some (k, j) \<Longrightarrow>
     k < 512 \<and> j < 64 \<and> k * 64 + j \<in> free_frames s \<and> k * 64 + j = Min (free_frames s)"
proof -
  note sp = scan_bitmap_spec [where bm = "PhysicalPageBitmap s" and i = 0]
  have some: "k < 512 \<and> j < 64 \<and> k * 64 + j \<in> free_frames s \<and> (\<forall>n \<in> free_frames s. k * 64 + j \<le> n)"
    if "scan_bitmap (PhysicalPageBitmap s) 0 = Some (k, j)" for k j
    using sp that by (auto simp: free_frames_def not_less [symmetric])
  then show "scan_bitmap (PhysicalPageBitmap s) 0 = Some (k, j) \<Longrightarrow>
     k < 512 \<and> j < 64 \<and> k * 64 + j \<in> free_frames s \<and> k * 64 + j = Min (free_frames s)"
    by (metis Min_eqI finite_free_frames)
  show "scan_bitmap (PhysicalPageBitmap s) 0 = None \<longleftrightarrow> free_frames s = {}"
  proof
    show "free_frames s = {}" if "scan_bitmap (PhysicalPageBitmap s) 0 = None"
      using sp that by (auto simp: free_frames_def)
    show "scan_bitmap (PhysicalPageBitmap s) 0 = None" if "free_frames s = {}"
      using some that by (cases "scan_bitmap (PhysicalPageBitmap s) 0") auto
  qed
qed

section \<open>Operations on the set of free frames\<close>

definition taken :: "nat \<Rightarrow> 'a pmm_scheme \<Rightarrow> 'a pmm_scheme" where
  "taken n s = s\<lparr>PhysicalPageBitmap := (PhysicalPageBitmap s)
      (n div 64 := PhysicalPageBitmap s (n div 64) OR push_bit (n mod 64) 1),
     free_framecount := free_framecount s - 1\<rparr>"

definition given_back :: "nat \<Rightarrow> 'a pmm_scheme \<Rightarrow> 'a pmm_scheme" where
  "given_back n s = s\<lparr>PhysicalPageBitmap := (PhysicalPageBitmap s)
      (n div 64 := PhysicalPageBitmap s (n div 64) AND NOT (push_bit (n mod 64) 1)),
     free_framecount := free_framecount s + 1\<rparr>"

lemma free_frames_taken [simp]: "free_frames (taken n s) = free_frames s - {n}"
  unfolding taken_def using free_frames_set [of s n] by simp

lemma free_frames_given_back [simp]: "n < 32768 \<Longrightarrow> free_frames (given_back n s) = insert n (free_frames s)"
  unfolding given_back_def using free_frames_clear [of n s] by simp

lemma pmm_inv_taken:
  assumes "pmm_inv s" "n \<in> free_frames s"
  shows "pmm_inv (taken n s)"
proof -
  have "0 < card (free_frames s)" using assms(2) card_gt_0_iff by fastforce
  with assms(1) have "1 \<le> free_framecount s" by (simp add: pmm_inv_def word_le_nat_alt)
  then have "unat (free_framecount s - 1) = unat (free_framecount s) - 1" by (simp add: unat_minus_nowrap)
  with assms show ?thesis by (auto simp: pmm_inv_def card_Diff_singleton) (simp add: taken_def)
qed

lemma pmm_inv_given_back:
  assumes "pmm_inv s" "n \<notin> free_frames s" "512 \<le> n" "n < 32768"
  shows "pmm_inv (given_back n s)"
proof -
  have "unat (free_framecount s) + 1 < 2 ^ 32" using assms(1) card_free_frames [of s] by (simp add: pmm_inv_def)
  then have "unat (free_framecount s + 1) = unat (free_framecount s) + 1" by (subst unat_plus_nowrap) simp_all
  with assms show ?thesis by (auto simp: pmm_inv_def) (simp add: given_back_def)
qed

lemma frames_lt: "n \<in> free_frames s \<Longrightarrow> n < 32768"
  by (simp add: free_frames_def)

lemma bitmap_test: "frame_no a < 32768 \<Longrightarrow>
    (PhysicalPageBitmap s (frame_no a div 64) AND push_bit (frame_no a mod 64) 1 \<noteq> 0) = (frame_no a \<notin> free_frames s)"
  by (simp add: frame_test free_frames_def del: push_bit_of_1)

lemma word_512: "n div 64 < 512 \<longleftrightarrow> n < 32768" for n :: nat
  by (simp add: div_less_iff_less_mult)

lemma checkout_eq:
  "physical_frame_checkout a s =
     (if frame_no a \<ge> 32768 then Inl Undefined
      else if frame_no a \<notin> free_frames s
      then Inl (Panic ''physical_frame_checkout() --> attempted to checkout frame that was in use.'')
      else Inr ((), taken (frame_no a) s))"
  using word_512 [of "frame_no a"] bitmap_test [of a s]
  by (auto simp: physical_frame_checkout_def Let_def frame_word_bit taken_def not_le [symmetric] simp del: push_bit_of_1)

lemma check_in_use_eq:
  "check_physical_page_in_use a s =
     (if frame_no a \<ge> 32768 then Inl Undefined else Inr (frame_no a \<notin> free_frames s, s))"
  using word_512 [of "frame_no a"] bitmap_test [of a s]
  by (auto simp: check_physical_page_in_use_def Let_def frame_word_bit not_le [symmetric] simp del: push_bit_of_1)

lemma checkin_eq:
  "physical_frame_checkin a s =
     (if frame_no a \<ge> 32768 then Inl Undefined else Inr ((), given_back (frame_no a) s))"
  using word_512 [of "frame_no a"]
  by (auto simp: physical_frame_checkin_def Let_def frame_word_bit given_back_def not_le [symmetric] simp del: push_bit_of_1)

lemma check_kernel_frame_iff: "check_kernel_frame a \<longleftrightarrow> frame_no a < 512"
  by (simp add: check_kernel_frame_def frame_no_def word_less_nat_alt div_less_iff_less_mult)

lemma physical_frame_free_eq:
  "physical_frame_free a s =
     (if a mod HUGEPGSIZE \<noteq> 0 then Inl (Panic ''physical_frame_free() --> frame not page aligned.'')
      else if frame_no a < 512
      then if init_success s then Inl (Panic ''physical_frame_free() --> Cannot free a frame used in a kernel section'')
           else Inr ((), s)
      else if frame_no a \<ge> 32768 then Inl Undefined
      else if frame_no a \<in> free_frames s
      then Inl (Panic ''physical_frame_free() --> attempted to fee an unused frame'')
      else Inr ((), given_back (frame_no a) s))"
  by (simp add: physical_frame_free_def op_combinators check_kernel_frame_iff check_in_use_eq checkin_eq)

lemma physical_frame_free_bound:
  "physical_frame_free a s = Inr (u, t) \<Longrightarrow> unat a < 2 ^ 36"
  using frame_no_bound [of a] word_512 [of "frame_no a"]
  by (auto simp: physical_frame_free_eq split: if_splits)

function free_hugeframe_loop :: "u64 \<Rightarrow> u64 \<Rightarrow> 'a pmm_scheme \<Rightarrow> fault + unit \<times> 'a pmm_scheme" where
  "free_hugeframe_loop pg_frame end_addr s =
     (if pg_frame + HUGEPGSIZE < end_addr
      then case physical_frame_free pg_frame s of
        Inl e \<Rightarrow> Inl e
      | Inr (_, s') \<Rightarrow> free_hugeframe_loop (pg_frame + HUGEPGSIZE) end_addr s'
      else Inr ((), s))"
  by pat_completeness auto
termination
proof (relation "measure (\<lambda>(pg, _). 2 ^ 37 - unat pg)")
  fix pg end_addr :: u64 and s t :: "'a pmm_scheme" and r u
  assume "physical_frame_free pg s = Inr r" "(u, t) = r"
  then have b: "unat pg < 2 ^ 36" using physical_frame_free_bound by blast
  then have "unat (pg + HUGEPGSIZE) = unat pg + 0x200000"
    by (subst unat_plus_nowrap) (simp_all add: HUGEPGSIZE_def)
  with b show "((pg + HUGEPGSIZE, end_addr, t), pg, end_addr, s) \<in> measure (\<lambda>(pg, _). 2 ^ 37 - unat pg)" by simp
qed simp

declare free_hugeframe_loop.simps [simp del]

definition free_hugeframe_range :: "u64 \<Rightarrow> u64 \<Rightarrow> 'a pmm_scheme \<Rightarrow> fault + unit \<times> 'a pmm_scheme" where
  "free_hugeframe_range start end_addr =
     (if end_addr - start < HUGEPGSIZE then ret ()
      else free_hugeframe_loop (HUGEPGROUNDUP start) end_addr)"

section \<open>Requests for 2 MB frames\<close>

lemma free_frames_frame [simp]:
  "free_frames (s\<lparr>cpus := c\<rparr>) = free_frames s" "free_frames (s\<lparr>locks := k\<rparr>) = free_frames s"
  by (simp_all add: free_frames_def)

lemma pmm_inv_frame [simp]: "pmm_inv (s\<lparr>cpus := c, locks := k\<rparr>) = pmm_inv s"
  by (simp add: pmm_inv_def)

lemma taken_frame: "taken n (s\<lparr>cpus := c, locks := k\<rparr>) = (taken n s)\<lparr>cpus := c, locks := k\<rparr>"
  by (simp add: taken_def)

lemma pmm_inv_count_0: "pmm_inv s \<Longrightarrow> free_framecount s = 0 \<longleftrightarrow> free_frames s = {}"
  by (metis card_0_eq finite_free_frames pmm_inv_def unat_eq_zero)

text \<open>The body of the critical section of \<open>physical_frame_request\<close>, and what it computes.\<close>

definition choose_frame :: "'a pmm_scheme \<Rightarrow> nat option" where
  "choose_frame s = (if free_frames s = {} then None else Some (Min (free_frames s)))"

lemma choose_frame_Some: "choose_frame s = Some n \<Longrightarrow> n \<in> free_frames s"
  using Min_in [OF finite_free_frames, of s] unfolding choose_frame_def by (metis option.inject option.distinct(1))

lemma request_body:
  assumes "pmm_inv s"
  shows "physical_frame_request s = seqn (acquire_Spinlock PMM_lock) (\<lambda>u.
     case choose_frame s of
       None \<Rightarrow> seqn (release_Spinlock PMM_lock) (ret UINT64_MAX) u
     | Some n \<Rightarrow> seqn (release_Spinlock PMM_lock) (ret (frame_addr n)) (taken n u)) s"
proof (cases "acquire_Spinlock PMM_lock s")
  case (Inl e)
  then show ?thesis by (simp add: physical_frame_request_def seqn_def bnd_def)
next
  case (Inr r)
  then obtain u where u: "acquire_Spinlock PMM_lock s = Inr ((), u)" by (cases r) auto
  from acquire_Spinlock_frame [OF this] obtain c k where f: "u = s\<lparr>cpus := c, locks := k\<rparr>" by blast
  have inv: "pmm_inv u" and fr: "free_frames u = free_frames s" using assms f by simp_all
  show ?thesis
  proof (cases "free_frames s = {}")
    case True
    with inv fr have "free_framecount u = 0" by (simp add: pmm_inv_count_0)
    with True u show ?thesis
      by (simp add: physical_frame_request_def choose_frame_def seqn_def bnd_def gets_def)
  next
    case False
    with inv fr have n0: "free_framecount u \<noteq> 0" by (simp add: pmm_inv_count_0)
    from False fr obtain i j where ij: "scan_bitmap (PhysicalPageBitmap u) 0 = Some (i, j)"
      using scan_bitmap_free(1) [of u] by fastforce
    from scan_bitmap_free(2) [OF ij] fr have m: "i < 512" "j < 64" "i * 64 + j \<in> free_frames s"
      "Min (free_frames s) = i * 64 + j" by metis+
    from m(3) have lt: "i * 64 + j < 32768" by (rule frames_lt)
    from m(3) assms have "\<not> i * 64 + j < 512" by (auto simp: pmm_inv_def)
    then have big: "\<not> frame_addr (i * 64 + j) < 1024 * 1024 * 1024" by (simp only: kernel_frame_addr [OF lt] not_False_eq_True)
    have co: "physical_frame_checkout (frame_addr (i * 64 + j)) u = Inr ((), taken (i * 64 + j) u)"
      using lt m(3) fr by (simp add: checkout_eq)
    show ?thesis unfolding physical_frame_request_def seqn_def bnd_def u
      using False m n0 ij big co frame_addr_split [OF m(1,2)]
      by (cases "release_Spinlock PMM_lock (taken (i * 64 + j) u)")
         (simp_all add: gets_def choose_frame_def Let_def bnd_def ret_def)
  qed
qed

lemma physical_frame_request_cases:
  assumes inv: "pmm_inv s" and r: "physical_frame_request s = Inr (a, t)"
  obtains (fail) c k where "free_frames s = {}" "a = UINT64_MAX" "t = s\<lparr>cpus := c, locks := k\<rparr>"
  | (ok) c k n where "n = Min (free_frames s)" "n \<in> free_frames s" "a = frame_addr n" "t = (taken n s)\<lparr>cpus := c, locks := k\<rparr>"
proof -
  from r obtain u where u: "acquire_Spinlock PMM_lock s = Inr ((), u)"
    and b: "(case choose_frame s of
       None \<Rightarrow> seqn (release_Spinlock PMM_lock) (ret UINT64_MAX) u
     | Some n \<Rightarrow> seqn (release_Spinlock PMM_lock) (ret (frame_addr n)) (taken n u)) = Inr (a, t)"
    unfolding request_body [OF inv] by (auto simp: seqn_Inr_iff)
  from acquire_Spinlock_frame [OF u] obtain c k where f: "u = s\<lparr>cpus := c, locks := k\<rparr>" by blast
  show ?thesis
  proof (cases "choose_frame s")
    case None
    with b have rel: "release_Spinlock PMM_lock u = Inr ((), t)" and a: "a = UINT64_MAX"
      by (auto simp: seqn_Inr_iff)
    from release_Spinlock_frame [OF rel] f obtain c' k' where "t = s\<lparr>cpus := c', locks := k'\<rparr>" by auto
    with None a show ?thesis by (intro fail) (auto simp: choose_frame_def split: if_splits)
  next
    case (Some n)
    with b have rel: "release_Spinlock PMM_lock (taken n u) = Inr ((), t)" and a: "a = frame_addr n"
      by (auto simp: seqn_Inr_iff)
    from release_Spinlock_frame [OF rel] f obtain c' k' where "t = (taken n s)\<lparr>cpus := c', locks := k'\<rparr>"
      by (auto simp: taken_frame)
    moreover from Some have "n = Min (free_frames s)" by (auto simp: choose_frame_def split: if_splits)
    ultimately show ?thesis using choose_frame_Some [OF Some] a by (intro ok) simp_all
  qed
qed

lemma lock_held_taken [simp]: "lock_held l (taken n s) = lock_held l s"
  by (simp add: lock_held_def registered_def taken_def)

lemma physical_frame_request_returns:
  assumes inv: "pmm_inv s" and lock: "lock_free PMM_lock s"
  shows "\<exists>a t. physical_frame_request s = Inr (a, t) \<and> lock_free PMM_lock t"
proof -
  from lock_free_taken [OF lock] obtain i where
    i: "acquire_Spinlock PMM_lock s = Inr ((), lock_taken PMM_lock i s)"
    "lock_held PMM_lock (lock_taken PMM_lock i s)" by blast
  show ?thesis
  proof (cases "choose_frame s")
    case None
    from lock_held_dropped [OF i(2)] obtain t where
      "release_Spinlock PMM_lock (lock_taken PMM_lock i s) = Inr ((), t)" "lock_free PMM_lock t" by blast
    with None i(1) show ?thesis by (simp add: request_body [OF inv] seqn_def bnd_def ret_def)
  next
    case (Some n)
    from i(2) have "lock_held PMM_lock (taken n (lock_taken PMM_lock i s))" by simp
    from lock_held_dropped [OF this] obtain t where
      "release_Spinlock PMM_lock (taken n (lock_taken PMM_lock i s)) = Inr ((), t)" "lock_free PMM_lock t" by blast
    with Some i(1) show ?thesis by (simp add: request_body [OF inv] seqn_def bnd_def ret_def)
  qed
qed

definition frame_bytes :: "nat \<Rightarrow> nat set" where
  "frame_bytes n = {n * 0x200000 ..< (n + 1) * 0x200000}"

definition frames_used :: "'a pmm_scheme \<Rightarrow> nat set" where
  "frames_used s = (\<Union>n \<in> {..< 32768} - free_frames s. frame_bytes n)"

definition huge_block :: "unit \<Rightarrow> u64 \<Rightarrow> nat set" where
  "huge_block _ a = {unat a ..< unat a + 0x200000}"

lemma frame_bytes_disjoint: "n \<noteq> m \<Longrightarrow> frame_bytes n \<inter> frame_bytes m = {}"
proof (rule ccontr)
  assume "n \<noteq> m" "frame_bytes n \<inter> frame_bytes m \<noteq> {}"
  then obtain x where "x \<in> frame_bytes n" "x \<in> frame_bytes m" by blast
  then have "x div 0x200000 = n" "x div 0x200000 = m"
    by (auto simp: frame_bytes_def intro!: div_nat_eqI)
  with \<open>n \<noteq> m\<close> show False by simp
qed

lemma huge_block_addr: "n < 32768 \<Longrightarrow> huge_block u (frame_addr n) = frame_bytes n"
  by (simp add: huge_block_def frame_bytes_def unat_frame_addr algebra_simps)

interpretation frame_alloc: allocator "\<lambda>_. physical_frame_request" "\<lambda>a. a = UINT64_MAX" pmm_inv frames_used huge_block
proof unfold_locales
  fix s t :: "'a pmm_scheme" and n :: unit and a :: u64
  assume inv: "pmm_inv s" and r: "physical_frame_request s = Inr (a, t)"
  from inv r show "pmm_inv t"
    by (cases rule: physical_frame_request_cases) (use inv in \<open>auto intro: pmm_inv_taken\<close>)
  from inv r show "frames_used s \<subseteq> frames_used t"
    by (cases rule: physical_frame_request_cases) (auto simp: frames_used_def)
  assume a: "a \<noteq> UINT64_MAX"
  from inv r show "huge_block n a \<inter> frames_used s = {} \<and> huge_block n a \<subseteq> frames_used t"
  proof (cases rule: physical_frame_request_cases)
    case (ok c k m)
    then have m: "m < 32768" by (simp add: frames_lt)
    with ok have "huge_block n a = frame_bytes m" by (simp add: huge_block_addr)
    moreover have "frame_bytes m \<inter> frames_used s = {}"
    proof -
      have "frame_bytes m \<inter> frame_bytes j = {}" if "j \<in> {..< 32768} - free_frames s" for j
        by (rule frame_bytes_disjoint) (use that ok(2) in auto)
      then show ?thesis unfolding frames_used_def by blast
    qed
    moreover have "frame_bytes m \<subseteq> frames_used t"
      using ok(4) m unfolding frames_used_def by auto
    ultimately show ?thesis by simp
  qed (use a in simp)
qed

section \<open>Freeing a range of frames\<close>

lemma frame_addr_mod: "n < 32768 \<Longrightarrow> frame_addr n mod HUGEPGSIZE = 0"
  by (simp add: word_unat_eq_iff unat_mod unat_frame_addr HUGEPGSIZE_def)

lemma frame_addr_Suc: "frame_addr n + HUGEPGSIZE = frame_addr (Suc n)"
  by (simp add: frame_addr_def algebra_simps)

lemma frame_addr_less_iff: "n < 32768 \<Longrightarrow> frame_addr (Suc n) < e \<longleftrightarrow> (n + 1) * 0x200000 < unat e"
proof -
  assume n: "n < 32768"
  have "unat (frame_addr n + HUGEPGSIZE) = n * 0x200000 + 0x200000"
    using n by (subst unat_plus_nowrap) (simp_all add: unat_frame_addr HUGEPGSIZE_def)
  then have "unat (frame_addr (Suc n)) = (n + 1) * 0x200000" by (simp add: frame_addr_Suc)
  then show ?thesis by (simp only: word_less_nat_alt)
qed

text \<open>The frames from number \<open>p\<close> on that lie below \<open>e\<close> (with a byte to spare) and not in the kernel's gigabyte.\<close>

definition whole_frames :: "nat \<Rightarrow> u64 \<Rightarrow> nat set" where
  "whole_frames p e = {n. p \<le> n \<and> 512 \<le> n \<and> (n + 1) * 0x200000 < unat e}"

lemma free_hugeframe_loop_effect:
  assumes "unat e \<le> 2 ^ 36"
  shows "\<lbrakk>pmm_inv s; \<not> init_success s; p \<le> 32768; \<forall>n \<ge> p. n \<notin> free_frames s\<rbrakk> \<Longrightarrow>
     \<exists>t. free_hugeframe_loop (frame_addr p) e s = Inr ((), t) \<and> pmm_inv t \<and> \<not> init_success t
       \<and> free_frames t = free_frames s \<union> whole_frames p e"
proof (induction "32768 - p" arbitrary: p s rule: less_induct)
  case less
  show ?case
  proof (cases "p < 32768 \<and> (p + 1) * 0x200000 < unat e")
    case False
    have "\<not> frame_addr p + HUGEPGSIZE < e"
    proof (cases "p < 32768")
      case True
      with False show ?thesis by (simp add: frame_addr_Suc frame_addr_less_iff)
    next
      case p: False
      with less.prems have "p = 32768" by simp
      then have "unat (frame_addr p + HUGEPGSIZE) > 2 ^ 36" by (simp add: frame_addr_def HUGEPGSIZE_def)
      with assms show ?thesis by (simp add: word_less_nat_alt)
    qed
    moreover have "whole_frames p e = {}"
      using False assms by (auto simp: whole_frames_def)
    ultimately show ?thesis using less.prems by (simp add: free_hugeframe_loop.simps)
  next
    case True
    then have lt: "frame_addr p + HUGEPGSIZE < e" by (simp add: frame_addr_Suc frame_addr_less_iff)
    obtain u where u: "physical_frame_free (frame_addr p) s = Inr ((), u)" "pmm_inv u" "\<not> init_success u"
      "free_frames u = free_frames s \<union> (if 512 \<le> p then {p} else {})"
    proof (cases "p < 512")
      case p: True
      with True less.prems show ?thesis by (intro that [of s]) (simp_all add: physical_frame_free_eq frame_addr_mod)
    next
      case p: False
      with True less.prems show ?thesis
        by (intro that [of "given_back p s"])
           (simp_all add: physical_frame_free_eq frame_addr_mod pmm_inv_given_back, simp add: given_back_def)
    qed
    have "\<forall>n \<ge> p + 1. n \<notin> free_frames u" using u(4) less.prems(4) by auto
    moreover have "32768 - (p + 1) < 32768 - p" using True by linarith
    ultimately obtain t where
      t: "free_hugeframe_loop (frame_addr (p + 1)) e u = Inr ((), t)" "pmm_inv t" "\<not> init_success t"
      "free_frames t = free_frames u \<union> whole_frames (p + 1) e"
      using less.hyps [of "p + 1" u] True u(2,3) by auto
    have "whole_frames p e =
        (if 512 \<le> p then {p} else {}) \<union> whole_frames (p + 1) e"
      using True by (auto simp: whole_frames_def Suc_le_eq le_less)
    with t u lt show ?thesis by (subst free_hugeframe_loop.simps) (simp add: frame_addr_Suc Un_assoc)
  qed
qed

lemma HUGEPGROUNDUP_addr: "unat a < 2 ^ 36 \<Longrightarrow> HUGEPGROUNDUP a = frame_addr (frame_no a + 1)"
proof -
  assume a: "unat a < 2 ^ 36"
  have s: "unat (a + 0x200000) = unat a + 0x200000"
    using a by (subst unat_plus_nowrap) simp_all
  have "unat (HUGEPGROUNDUP a) = (unat a + 0x200000) - (unat a + 0x200000) mod 0x200000"
    unfolding HUGEPGROUNDUP_def HUGEPGSIZE_def
    by (subst unat_minus_nowrap) (simp_all add: word_le_nat_alt unat_mod s)
  also have "\<dots> = (unat a + 0x200000) div 0x200000 * 0x200000"
    by (simp only: minus_mod_eq_div_mult)
  also have "\<dots> = (frame_no a + 1) * 0x200000" by (simp only: frame_no_def div_add_self2)
  finally have "unat (HUGEPGROUNDUP a) = (frame_no a + 1) * 0x200000" .
  moreover have "frame_no a < 32768" using a by (simp add: frame_no_def div_less_iff_less_mult)
  then have "unat (frame_addr (frame_no a + 1)) = (frame_no a + 1) * 0x200000"
    by (intro unat_frame_addr) simp
  ultimately show ?thesis by (simp add: word_unat_eq_iff)
qed

section \<open>Concrete states\<close>

definition boot_pmm :: pmm where
  "boot_pmm = (kheap.extend boot_kheap \<lparr>PhysicalPageBitmap = (\<lambda>_. UINT64_MAX), free_framecount = 0, init_success = False,
     chunk_start = (\<lambda>_. 0), chunk_use_count = (\<lambda>_. 0), chunk_bitmap = (\<lambda>_ _. 0)\<rparr>)\<lparr>locks := locks boot_smp\<rparr>"

lemma boot_pmm_frames: "free_frames boot_pmm = {}" and boot_pmm_inv: "pmm_inv boot_pmm"
proof -
  have "bit UINT64_MAX (n mod 64)" for n :: nat
    unfolding minus_one_u64 [symmetric] bit_minus_1_iff possible_bit_word by simp
  then show f: "free_frames boot_pmm = {}" by (simp add: free_frames_def boot_pmm_def kheap.defs)
  have "free_framecount boot_pmm = 0" by (simp add: boot_pmm_def kheap.defs)
  then show "pmm_inv boot_pmm" by (simp add: pmm_inv_def f)
qed

text \<open>A machine with 64 MB above the kernel's gigabyte, as \<open>free_hugeframe_range\<close> leaves it.\<close>

definition small_pmm :: pmm where
  "small_pmm = given_back 513 (given_back 512 boot_pmm)"

lemma small_pmm_frames: "free_frames small_pmm = {512, 513}" and small_pmm_inv: "pmm_inv small_pmm"
  by (auto simp: small_pmm_def boot_pmm_frames boot_pmm_inv pmm_inv_given_back)


lemma small_pmm_lock: "lock_free l small_pmm"
  unfolding lock_free_def registered_def small_pmm_def given_back_def boot_pmm_def
  by (simp add: kheap.defs boot_kheap_env boot_cpu_def boot_smp_def)

section \<open>Properties\<close>

text \<open>C14: \<open>physical_frame_request\<close> implements the choice of the lowest free frame. Under the
  accounting invariant and with the lock free it always returns: \<open>UINT64_MAX\<close> exactly when no frame
  is free, otherwise the address of the lowest free frame, which leaves the free set while every
  other frame keeps its state. The panics for a frame in use and for a kernel frame cannot happen,
  the invariant is kept and the lock is free again.\<close>

theorem physical_frame_request_refines:
  assumes inv: "pmm_inv s" and lock: "lock_free PMM_lock s"
  shows "\<exists>t. physical_frame_request s =
        Inr (if free_frames s = {} then UINT64_MAX else frame_addr (Min (free_frames s)), t)
     \<and> free_frames t = free_frames s - (if free_frames s = {} then {} else {Min (free_frames s)})
     \<and> pmm_inv t \<and> lock_free PMM_lock t"
proof -
  from physical_frame_request_returns [OF inv lock] obtain a t where
    r: "physical_frame_request s = Inr (a, t)" "lock_free PMM_lock t" by blast
  from frame_alloc.alloc_inv [OF inv r(1)] have inv': "pmm_inv t" .
  from inv r(1) show ?thesis
  proof (cases rule: physical_frame_request_cases)
    case fail
    with r inv' show ?thesis by simp
  next
    case (ok c k n)
    then have "free_frames s \<noteq> {}" by auto
    with ok r inv' show ?thesis by auto
  qed
qed

theorem physical_frame_request_refines_witness:
  "\<exists>t. physical_frame_request small_pmm = Inr (0x40000000, t) \<and> free_frames t = {513} \<and> lock_free PMM_lock t"
proof -
  have "Min {512, 513 :: nat} = 512" by simp
  moreover have "frame_addr 512 = 0x40000000" by (simp add: frame_addr_def HUGEPGSIZE_def)
  ultimately show ?thesis
    using physical_frame_request_refines [OF small_pmm_inv small_pmm_lock] by (auto simp: small_pmm_frames)
qed

text \<open>2 MB frames handed out by any sequence of successful requests are pairwise disjoint and
  disjoint from every frame that was not free before.\<close>

theorem physical_frame_request_disjoint:
  assumes "pmm_inv s" and "alloc_seq (\<lambda>_. physical_frame_request) ns s = Inr (as, t)" and "\<forall>a \<in> set as. a \<noteq> UINT64_MAX"
  shows "pmm_inv t \<and> blocks_disjoint huge_block (frames_used s) (zip ns as)"
  using frame_alloc.alloc_seq_disjoint [OF assms] by blast

theorem physical_frame_request_disjoint_witness:
  "\<exists>a t. alloc_seq (\<lambda>_. physical_frame_request) [()] small_pmm = Inr ([a], t) \<and> a \<noteq> UINT64_MAX
     \<and> huge_block () a \<inter> frames_used small_pmm = {}"
proof -
  obtain a t where r: "physical_frame_request small_pmm = Inr (a, t)"
    using physical_frame_request_returns [OF small_pmm_inv small_pmm_lock] by blast
  have "a \<noteq> UINT64_MAX"
    using small_pmm_inv r
  proof (cases rule: physical_frame_request_cases)
    case (ok c k n)
    then have "n = 512 \<or> n = 513" by (simp add: small_pmm_frames)
    with ok(3) show ?thesis by (auto simp: frame_addr_def HUGEPGSIZE_def)
  qed (simp add: small_pmm_frames)
  moreover have s: "alloc_seq (\<lambda>_. physical_frame_request) [()] small_pmm = Inr ([a], t)"
    using r by (simp add: op_combinators)
  ultimately show ?thesis using physical_frame_request_disjoint [OF small_pmm_inv s] by auto
qed

text \<open>What \<open>physical_frame_free\<close> does on every input. A frame that is not 2 MB aligned, a kernel
  frame after initialisation and a frame that is already free end in a panic; a kernel frame during
  initialisation is left alone; a frame beyond 64 GB indexes outside the bitmap; otherwise exactly
  that frame joins the free set and the invariant is kept.\<close>

theorem physical_frame_free_correct:
  "physical_frame_free a s =
     (if a mod HUGEPGSIZE \<noteq> 0 then Inl (Panic ''physical_frame_free() --> frame not page aligned.'')
      else if frame_no a < 512
      then if init_success s then Inl (Panic ''physical_frame_free() --> Cannot free a frame used in a kernel section'')
           else Inr ((), s)
      else if frame_no a \<ge> 32768 then Inl Undefined
      else if frame_no a \<in> free_frames s
      then Inl (Panic ''physical_frame_free() --> attempted to fee an unused frame'')
      else Inr ((), given_back (frame_no a) s))
   \<and> (frame_no a < 32768 \<longrightarrow> free_frames (given_back (frame_no a) s) = insert (frame_no a) (free_frames s))
   \<and> (pmm_inv s \<longrightarrow> 512 \<le> frame_no a \<longrightarrow> frame_no a < 32768 \<longrightarrow> frame_no a \<notin> free_frames s \<longrightarrow>
        pmm_inv (given_back (frame_no a) s))"
  using physical_frame_free_eq [of a s] pmm_inv_given_back [of s "frame_no a"] by simp

text \<open>\<open>free_hugeframe_range\<close>, which builds the free set from the memory map, ends without a
  panic on a range of usable memory below 64 GB whose frames are still marked in use, keeps the
  invariant and frees exactly the frames above the kernel's gigabyte that start strictly after
  \<open>start\<close> rounded down to 2 MB and end strictly before \<open>end\<close>. An aligned \<open>start\<close> therefore loses its
  first frame, since \<open>HUGEPGROUNDUP\<close> moves it a whole frame up.\<close>

theorem free_hugeframe_range_effect:
  assumes inv: "pmm_inv s" and init: "\<not> init_success s"
    and range: "unat start + 0x200000 \<le> unat end_addr" "unat end_addr \<le> 2 ^ 36"
    and used: "\<forall>n > frame_no start. n \<notin> free_frames s"
  shows "\<exists>t. free_hugeframe_range start end_addr s = Inr ((), t) \<and> pmm_inv t \<and> \<not> init_success t
     \<and> free_frames t = free_frames s \<union>
         {n. frame_no start < n \<and> 512 \<le> n \<and> (n + 1) * 0x200000 < unat end_addr}"
proof -
  from range have st: "unat start < 2 ^ 36" by simp
  then have "frame_no start < 32768" by (simp add: frame_no_def div_less_iff_less_mult)
  moreover have "start \<le> end_addr" using range by (simp add: word_le_nat_alt)
  then have "\<not> end_addr - start < HUGEPGSIZE"
    using range by (simp add: word_less_nat_alt unat_minus_nowrap HUGEPGSIZE_def)
  ultimately show ?thesis
    using free_hugeframe_loop_effect [OF range(2) inv init, of "frame_no start + 1"] used HUGEPGROUNDUP_addr [OF st]
    by (simp add: free_hugeframe_range_def whole_frames_def Suc_le_eq)
qed

theorem free_hugeframe_range_effect_witness:
  "\<exists>t. free_hugeframe_range 0x40000000 0x41000000 boot_pmm = Inr ((), t) \<and> pmm_inv t \<and>
     free_frames t = {n. 512 < n \<and> 512 \<le> n \<and> (n + 1) * 0x200000 < 0x41000000}"
proof -
  have i: "\<not> init_success boot_pmm" by (simp add: boot_pmm_def kheap.defs)
  have n: "frame_no 0x40000000 = 512" by (simp add: frame_no_def)
  show ?thesis
    using free_hugeframe_range_effect [OF boot_pmm_inv i, of "0x40000000" "0x41000000"]
    by (simp add: boot_pmm_frames n) blast
qed

theorem physical_frame_free_correct_witness:
  "pmm_inv boot_pmm \<and> physical_frame_free 0x40000000 boot_pmm = Inr ((), given_back 512 boot_pmm)
   \<and> pmm_inv (given_back 512 boot_pmm)"
proof -
  have n: "frame_no 0x40000000 = 512" by (simp add: frame_no_def)
  show ?thesis
    using physical_frame_free_correct [of "0x40000000" boot_pmm] boot_pmm_inv
    by (simp add: boot_pmm_frames n HUGEPGSIZE_def)
qed

end
