(* ===== verification/Small_Pages.thy ===== *)
theory Small_Pages
  imports Pmm
begin

text \<open>
  The manager of 4 KB frames of src/src/kernel/mem/pmm.c. A 2 MB frame is cut into 500 pages
  recorded in a \<open>HugeChunk_2mb\<close> object on the kernel heap; the objects hang on the list
  \<open>PMM.manager_4kb.head\<close>. Walks along the list are loops over pointers of the store: they are
  partial functions, with \<open>None\<close> for a walk that never comes back to the header.

  The manager relies on three providers: the list (\<open>Linked_List\<close>), the heap that holds the chunk
  objects (\<open>Kernel_Heap\<close>) and the frame bitmap (\<open>Pmm\<close>). The invariant \<open>spm_inv\<close> ties them together.
\<close>

section \<open>Operations\<close>

text \<open>The loop over the 500 pages of a chunk in \<open>check_available_chunked_frame\<close>.\<close>

function scan_chunk :: "(nat \<Rightarrow> u32) \<Rightarrow> nat \<Rightarrow> nat option" where
  "scan_chunk bm i =
     (if i < 500
      then if drop_bit (i mod 4) (bm (i div 4)) AND 1 = 0 then Some i else scan_chunk bm (i + 1)
      else None)"
  by pat_completeness auto
termination by (relation "measure (\<lambda>(bm, i). 500 - i)") auto

declare scan_chunk.simps [simp del]

partial_function (option) chunk_search :: "'a pmm_scheme \<Rightarrow> u64 \<Rightarrow> (u64 \<times> nat) option option" where
  "chunk_search s entry =
     (if entry = 0 \<or> entry = spm_head s then Some None
      else case (if chunk_use_count s entry < 500 then scan_chunk (chunk_bitmap s entry) 0 else None) of
        Some i \<Rightarrow> Some (Some (entry, i))
      | None \<Rightarrow> chunk_search s (dll_next s entry))"

definition chunk_frame :: "u64 \<Rightarrow> nat \<Rightarrow> u64" where
  "chunk_frame start_address i =
     start_address + ucast ((of_nat (i mod 4) :: u32) * 4096) + ucast ((of_nat (i div 4) :: u32) * 4 * 4096)"

definition chunk_take :: "u64 \<Rightarrow> nat \<Rightarrow> 'a pmm_scheme \<Rightarrow> 'a pmm_scheme" where
  "chunk_take c i s =
     s\<lparr>chunk_bitmap := (chunk_bitmap s)(c := (chunk_bitmap s c)
         (i div 4 := chunk_bitmap s c (i div 4) OR push_bit (i mod 4) 1)),
       chunk_use_count := (chunk_use_count s)(c := chunk_use_count s c + 1)\<rparr>"

definition check_available_chunked_frame :: "'a pmm_scheme \<Rightarrow> fault + u64 \<times> 'a pmm_scheme" where
  "check_available_chunked_frame =
     seqn (acquire_Spinlock spm_lock)
    (bnd (gets (\<lambda>s. let entry = dll_first s (spm_head s) in
            if entry_count s (spm_head s) \<noteq> 0 \<and> entry \<noteq> 0 then chunk_search s entry else Some None)) (\<lambda>r.
     case r of
       None \<Rightarrow> raise Diverge
     | Some None \<Rightarrow> seqn (release_Spinlock spm_lock) (ret UINT64_MAX)
     | Some (Some (c, i)) \<Rightarrow>
         bnd (gets (\<lambda>s. chunk_frame (chunk_start s c) i)) (\<lambda>frame.
         seqn (upd (chunk_take c i))
        (seqn (release_Spinlock spm_lock) (ret frame)))))"

partial_function (option) chunk_find :: "'a pmm_scheme \<Rightarrow> u64 \<Rightarrow> u64 \<Rightarrow> u64 option option" where
  "chunk_find s addr entry =
     (if entry = 0 \<or> entry = spm_head s then Some None
      else if addr \<ge> chunk_start s entry \<and> addr < chunk_start s entry + HUGEPGSIZE then Some (Some entry)
      else chunk_find s addr (dll_next s entry))"

definition chunk_drop :: "u64 \<Rightarrow> nat \<Rightarrow> 'a pmm_scheme \<Rightarrow> fault + unit \<times> 'a pmm_scheme" where
  "chunk_drop c i s =
     (if i div 4 \<ge> 125 then Inl Undefined
      else Inr ((), s\<lparr>chunk_bitmap := (chunk_bitmap s)(c := (chunk_bitmap s c)
         (i div 4 := chunk_bitmap s c (i div 4) AND NOT (push_bit (i mod 4) 1))),
       chunk_use_count := (chunk_use_count s)(c := chunk_use_count s c - 1)\<rparr>))"

definition try_free_chunked_frame :: "u64 \<Rightarrow> 'a pmm_scheme \<Rightarrow> fault + bool \<times> 'a pmm_scheme" where
  "try_free_chunked_frame addr =
     seqn (acquire_Spinlock spm_lock)
    (bnd (gets (\<lambda>s. let entry = dll_first s (spm_head s) in
            if entry_count s (spm_head s) \<noteq> 0 \<and> entry \<noteq> 0 then chunk_find s addr entry else Some None)) (\<lambda>r.
     case r of
       None \<Rightarrow> raise Diverge
     | Some None \<Rightarrow> seqn (release_Spinlock spm_lock) (ret False)
     | Some (Some c) \<Rightarrow>
         bnd (gets (\<lambda>s. unat ((PGROUNDDOWN addr - chunk_start s c) div PGSIZE))) (\<lambda>abs_index.
         seqn (chunk_drop c abs_index)
        (seqn (bnd (gets (\<lambda>s. chunk_use_count s c)) (\<lambda>n.
               if n = 0 then bnd (remove_dll_entry c) (\<lambda>_. bnd (kfree c) (\<lambda>_. ret ())) else ret ()))
        (seqn (release_Spinlock spm_lock) (ret True))))))"

text \<open>\<open>memset(chunk->frame_bitmap, 0x00, sizeof(uint32_t)*125)\<close> and the start address. The use count of
  the new object is not initialised: it is whatever the heap memory held.\<close>

definition create_new_chunked_frame :: "u64 \<Rightarrow> 'a pmm_scheme \<Rightarrow> fault + u64 \<times> 'a pmm_scheme" where
  "create_new_chunked_frame start_address =
     bnd (kalloc sizeof_HugeChunk_2mb) (\<lambda>chunk.
     if chunk = 0 then raise (Panic ''create_new_chunked_frame() --> kalloc() returned NULL.'')
     else seqn (upd (\<lambda>s. s\<lparr>chunk_bitmap := (chunk_bitmap s)(chunk := (\<lambda>_. 0))\<rparr>))
         (seqn (upd (\<lambda>s. s\<lparr>chunk_start := (chunk_start s)(chunk := start_address)\<rparr>))
         (seqn (acquire_Spinlock spm_lock)
         (bnd (gets spm_head) (\<lambda>head.
          seqn (insert_dll_entry_head head chunk)
         (seqn (upd (chunk_take chunk 0))
         (seqn (release_Spinlock spm_lock) (ret start_address))))))))"

definition physical_frame_request_4kb :: "'a pmm_scheme \<Rightarrow> fault + u64 \<times> 'a pmm_scheme" where
  "physical_frame_request_4kb =
     bnd check_available_chunked_frame (\<lambda>frame_4kb.
     if frame_4kb \<noteq> UINT64_MAX then ret frame_4kb
     else bnd physical_frame_request (\<lambda>frame_2mb.
       if frame_2mb = UINT64_MAX then ret UINT64_MAX
       else create_new_chunked_frame frame_2mb))"

section \<open>Pages of a chunk\<close>

lemma chunk_test: "drop_bit n w AND 1 = 0 \<longleftrightarrow> \<not> bit w n" for w :: u32
  by (simp add: bit_iff_odd_drop_bit and_one_eq mod_2_eq_odd)

lemma scan_chunk_spec:
  "(case scan_chunk bm i of
      None \<Rightarrow> \<forall>k. i \<le> k \<longrightarrow> k < 500 \<longrightarrow> bit (bm (k div 4)) (k mod 4)
    | Some j \<Rightarrow> i \<le> j \<and> j < 500 \<and> \<not> bit (bm (j div 4)) (j mod 4))"
proof (induction bm i rule: scan_chunk.induct)
  case (1 bm i)
  show ?case
  proof (cases "i < 500 \<and> bit (bm (i div 4)) (i mod 4)")
    case True
    then have "scan_chunk bm i = scan_chunk bm (i + 1)" by (simp add: scan_chunk.simps [of bm i] chunk_test)
    moreover have "i \<le> k \<longleftrightarrow> k = i \<or> i + 1 \<le> k" for k by auto
    ultimately show ?thesis using 1 True by (auto simp: chunk_test split: option.splits)
  next
    case False
    then show ?thesis by (auto simp: scan_chunk.simps [of bm i] chunk_test)
  qed
qed

lemma scan_chunk_Some: "scan_chunk bm 0 = Some i \<Longrightarrow> i < 500 \<and> \<not> bit (bm (i div 4)) (i mod 4)"
  using scan_chunk_spec [where bm = bm and i = 0] by simp

lemma unat_ucast_of_nat: "m < 2 ^ 32 \<Longrightarrow> unat (ucast (of_nat m :: u32) :: u64) = m"
  by (simp add: unsigned_ucast_eq take_bit_nat_def unat_of_nat)

lemma chunk_frame_eq:
  assumes "n < 32768" "i < 512"
  shows "unat (chunk_frame (frame_addr n) i) = n * 0x200000 + i * 4096"
proof -
  have i: "i mod 4 < 4" "i div 4 < 128" using assms(2) by auto
  have "i mod 4 + i div 4 * 4 = i" by simp
  then have i3: "i mod 4 * 4096 + i div 4 * 16384 = i * 4096" by linarith
  have "(of_nat (i mod 4) :: u32) * 4096 = of_nat (i mod 4 * 4096)"
    "(of_nat (i div 4) :: u32) * 4 * 4096 = of_nat (i div 4 * 16384)" by simp_all
  then have a: "unat (ucast ((of_nat (i mod 4) :: u32) * 4096) :: u64) = i mod 4 * 4096"
    and b: "unat (ucast ((of_nat (i div 4) :: u32) * 4 * 4096) :: u64) = i div 4 * 16384"
    using i(1,2) by (simp_all only: unat_ucast_of_nat) (simp_all add: unat_ucast_of_nat del: of_nat_mult)
  have u: "unat (frame_addr n) = n * 0x200000" using assms by (simp add: unat_frame_addr)
  have "unat (frame_addr n + ucast ((of_nat (i mod 4) :: u32) * 4096)) = n * 0x200000 + i mod 4 * 4096"
    using assms(1) i(1) by (subst unat_plus_nowrap) (simp_all only: u a, simp_all)
  then show ?thesis unfolding chunk_frame_def
    using assms(1) i i3 by (subst unat_plus_nowrap) (simp_all only: b, simp_all)
qed

section \<open>The list of chunks\<close>

fun follow :: "(u64 \<Rightarrow> u64) \<Rightarrow> u64 \<Rightarrow> u64 \<Rightarrow> nat \<Rightarrow> u64 list" where
  "follow f p h 0 = []"
| "follow f p h (Suc n) = (if p = 0 \<or> p = h then [] else p # follow f (f p) h n)"

definition chunks :: "'a dll_scheme \<Rightarrow> u64 list" where
  "chunks s = follow (dll_next s) (dll_first s (spm_head s)) (spm_head s) (unat (entry_count s (spm_head s)))"

lemma follow_dpath:
  "dpath f p xs h \<Longrightarrow> 0 \<notin> set xs \<Longrightarrow> h \<notin> set xs \<Longrightarrow> length xs \<le> n \<Longrightarrow> follow f p h n = xs"
proof (induction xs arbitrary: p n)
  case Nil
  then show ?case by (cases n) auto
next
  case (Cons x xs)
  then show ?case by (cases n) auto
qed

lemma follow_0 [simp]: "follow f 0 h n = []"
  by (cases n) auto

lemma chunks_stack: "dll_stack (spm_head s) s xs \<Longrightarrow> chunks s = xs"
  unfolding dll_stack_def dll_ok_def chunks_def by (elim conjE disjE) (simp_all add: follow_dpath)

fun search_list :: "'a pmm_scheme \<Rightarrow> u64 list \<Rightarrow> (u64 \<times> nat) option" where
  "search_list s [] = None"
| "search_list s (c # cs) =
     (case (if chunk_use_count s c < 500 then scan_chunk (chunk_bitmap s c) 0 else None) of
        Some i \<Rightarrow> Some (c, i) | None \<Rightarrow> search_list s cs)"

lemma chunk_search_dpath:
  "dpath (dll_next s) p xs (spm_head s) \<Longrightarrow> 0 \<notin> set xs \<Longrightarrow> spm_head s \<notin> set xs \<Longrightarrow>
   chunk_search s p = Some (search_list s xs)"
proof (induction xs arbitrary: p)
  case Nil
  then show ?case by (subst chunk_search.simps) simp
next
  case (Cons x xs)
  then have "chunk_search s (dll_next s x) = Some (search_list s xs)" by simp
  with Cons.prems show ?case by (subst chunk_search.simps) (auto split: option.splits)
qed

lemma chunk_find_dpath:
  "dpath (dll_next s) p xs (spm_head s) \<Longrightarrow> 0 \<notin> set xs \<Longrightarrow> spm_head s \<notin> set xs \<Longrightarrow>
   chunk_find s addr p = Some (find (\<lambda>c. addr \<ge> chunk_start s c \<and> addr < chunk_start s c + HUGEPGSIZE) xs)"
proof (induction xs arbitrary: p)
  case Nil
  then show ?case by (subst chunk_find.simps) simp
next
  case (Cons x xs)
  then have "chunk_find s addr (dll_next s x) =
    Some (find (\<lambda>c. addr \<ge> chunk_start s c \<and> addr < chunk_start s c + HUGEPGSIZE) xs)" by simp
  with Cons.prems show ?case by (subst chunk_find.simps) auto
qed

lemma search_list_Some:
  "search_list s xs = Some (c, i) \<Longrightarrow> c \<in> set xs \<and> i < 500 \<and> \<not> bit (chunk_bitmap s c (i div 4)) (i mod 4)"
proof (induction xs)
  case (Cons x xs)
  then show ?case
    by (cases "chunk_use_count s x < 500"; cases "scan_chunk (chunk_bitmap s x) 0")
       (auto dest: scan_chunk_Some)
qed simp

section \<open>The invariant\<close>

text \<open>
  The chunk objects are live heap blocks linked on the manager's list; each cuts its own 2 MB frame,
  which is taken in the bitmap; the list header is in the kernel image, above the heap.
\<close>

definition spm_inv :: "'a pmm_scheme \<Rightarrow> bool" where
  "spm_inv s \<longleftrightarrow> dll_stack (spm_head s) s (chunks s)
     \<and> unat (entry_count s (spm_head s)) = length (chunks s)
     \<and> unat KERNEL_HEAP_START + 2 ^ 31 \<le> unat (spm_head s)
     \<and> (\<forall>c \<in> set (chunks s). byte_range sizeof_HugeChunk_2mb c \<subseteq> heap_used s)
     \<and> (\<forall>c \<in> set (chunks s). \<exists>n. n < 32768 \<and> n \<notin> free_frames s \<and> chunk_start s c = frame_addr n)
     \<and> distinct (map (chunk_start s) (chunks s))"

definition mem_inv :: "'a pmm_scheme \<Rightarrow> bool" where
  "mem_inv s \<longleftrightarrow> kheap_inv s \<and> pmm_inv s \<and> spm_inv s"

definition page_taken :: "'a pmm_scheme \<Rightarrow> u64 \<Rightarrow> nat \<Rightarrow> bool" where
  "page_taken s c i \<longleftrightarrow> bit (chunk_bitmap s c (i div 4)) (i mod 4)"

definition page_bytes :: "unit \<Rightarrow> u64 \<Rightarrow> nat set" where
  "page_bytes _ a = {unat a ..< unat a + 4096}"

definition pages_used :: "'a pmm_scheme \<Rightarrow> nat set" where
  "pages_used s = (\<Union>c \<in> set (chunks s). \<Union>i \<in> {i. i < 500 \<and> page_taken s c i}.
     page_bytes () (chunk_frame (chunk_start s c) i))"

lemma page_taken_chunk_take:
  "page_taken (chunk_take c i s) d j \<longleftrightarrow> page_taken s d j \<or> d = c \<and> j = i"
proof -
  have e: "j = i \<longleftrightarrow> j div 4 = i div 4 \<and> j mod 4 = i mod 4" by (metis div_mult_mod_eq)
  show ?thesis
    unfolding page_taken_def chunk_take_def e
    by (auto simp: bit_or_push_bit simp del: push_bit_of_1)
qed

lemma chunk_page_in_frame:
  "n < 32768 \<Longrightarrow> i < 500 \<Longrightarrow> page_bytes () (chunk_frame (frame_addr n) i) \<subseteq> frame_bytes n"
  by (simp add: page_bytes_def chunk_frame_eq frame_bytes_def)

lemma chunk_pages_disjoint:
  assumes "n < 32768" "m < 32768" "i < 500" "j < 500" "(n, i) \<noteq> (m, j)"
  shows "page_bytes () (chunk_frame (frame_addr n) i) \<inter> page_bytes () (chunk_frame (frame_addr m) j) = {}"
proof (cases "n = m")
  case False
  with chunk_page_in_frame [OF assms(1,3)] chunk_page_in_frame [OF assms(2,4)] frame_bytes_disjoint [OF False]
  show ?thesis by blast
next
  case True
  with assms(5) have "i < j \<or> j < i" by auto
  with True assms show ?thesis by (auto simp: page_bytes_def chunk_frame_eq)
qed

lemma frame_addr_inj: "frame_addr n = frame_addr m \<Longrightarrow> n < 32768 \<Longrightarrow> m < 32768 \<Longrightarrow> n = m"
  using frame_no_addr by metis

lemma fresh_page_disjoint:
  assumes inv: "spm_inv s" and n: "n < 32768" "i < 500"
    and free: "\<And>c. c \<in> set (chunks s) \<Longrightarrow> chunk_start s c = frame_addr n \<Longrightarrow> \<not> page_taken s c i"
  shows "page_bytes () (chunk_frame (frame_addr n) i) \<inter> pages_used s = {}"
proof -
  have "page_bytes () (chunk_frame (frame_addr n) i) \<inter> page_bytes () (chunk_frame (chunk_start s c) j) = {}"
    if c: "c \<in> set (chunks s)" and j: "j < 500" "page_taken s c j" for c j
  proof -
    from inv c obtain m where m: "m < 32768" "chunk_start s c = frame_addr m" by (auto simp: spm_inv_def)
    have "(n, i) \<noteq> (m, j)" using free [OF c] m(2) j(2) by auto
    with n m j show ?thesis by (simp add: chunk_pages_disjoint)
  qed
  then show ?thesis unfolding pages_used_def by blast
qed

lemma dll_stack_cong:
  "dll_next t = dll_next s \<Longrightarrow> dll_prev t = dll_prev s \<Longrightarrow> entry_count t = entry_count s \<Longrightarrow>
   dll_stack h t xs = dll_stack h s xs"
  by (simp add: dll_stack_def)

lemma spm_inv_take [simp]: "spm_inv (chunk_take c i s) = spm_inv s"
  and chunks_take [simp]: "chunks (chunk_take c i s) = chunks s"
  and spm_head_take [simp]: "spm_head (chunk_take c i s) = spm_head s"
  and chunk_start_take [simp]: "chunk_start (chunk_take c i s) = chunk_start s"
proof -
  show h: "spm_head (chunk_take c i s) = spm_head s" by (simp add: spm_head_def chunk_take_def)
  show "chunk_start (chunk_take c i s) = chunk_start s" by (simp add: chunk_take_def)
  show c: "chunks (chunk_take c i s) = chunks s" by (simp add: chunks_def h) (simp add: chunk_take_def)
  have "dll_stack h (chunk_take c i s) xs = dll_stack h s xs" for h xs
    by (rule dll_stack_cong) (simp_all add: chunk_take_def)
  then show "spm_inv (chunk_take c i s) = spm_inv s"
    by (simp add: spm_inv_def h c) (simp add: chunk_take_def heap_used_def free_frames_def)
qed

lemma spm_frame [simp]:
  "spm_head (s\<lparr>cpus := c, locks := k\<rparr>) = spm_head s" "chunks (s\<lparr>cpus := c, locks := k\<rparr>) = chunks s"
  by (simp_all add: spm_head_def chunks_def)

lemma spm_frame_pmm [simp]:
  "spm_inv (s\<lparr>cpus := c, locks := k\<rparr>) = spm_inv s" "pages_used (s\<lparr>cpus := c, locks := k\<rparr>) = pages_used s"
  "mem_inv (s\<lparr>cpus := c, locks := k\<rparr>) = mem_inv s"
proof -
  have "dll_stack h (s\<lparr>cpus := c, locks := k\<rparr>) xs = dll_stack h s xs" for h xs
    by (rule dll_stack_cong) simp_all
  then show 1: "spm_inv (s\<lparr>cpus := c, locks := k\<rparr>) = spm_inv s"
    by (simp add: spm_inv_def heap_used_def)
  show "pages_used (s\<lparr>cpus := c, locks := k\<rparr>) = pages_used s" by (simp add: pages_used_def page_taken_def)
  show "mem_inv (s\<lparr>cpus := c, locks := k\<rparr>) = mem_inv s" by (simp add: mem_inv_def 1 kheap_inv_frame)
qed

lemma stack_walk:
  assumes st: "dll_stack (spm_head s) s xs"
  shows "(let entry = dll_first s (spm_head s) in
     if entry_count s (spm_head s) \<noteq> 0 \<and> entry \<noteq> 0 then chunk_search s entry else Some None) = Some (search_list s xs)"
    and "(let entry = dll_first s (spm_head s) in
     if entry_count s (spm_head s) \<noteq> 0 \<and> entry \<noteq> 0 then chunk_find s addr entry else Some None) =
       Some (find (\<lambda>c. addr \<ge> chunk_start s c \<and> addr < chunk_start s c + HUGEPGSIZE) xs)"
proof -
  from st have ok: "0 \<notin> set xs" "spm_head s \<notin> set xs" and len: "length xs \<le> unat (entry_count s (spm_head s))"
    and path: "xs = [] \<and> dll_first s (spm_head s) = 0 \<or> dpath (dll_next s) (dll_first s (spm_head s)) xs (spm_head s)"
    by (auto simp: dll_stack_def dll_ok_def)
  have e: "xs = []" if "entry_count s (spm_head s) = 0 \<or> dll_first s (spm_head s) = 0"
    using that
  proof
    assume "entry_count s (spm_head s) = 0" with len show ?thesis by simp
  next
    assume "dll_first s (spm_head s) = 0" with path ok show ?thesis by (cases xs) auto
  qed
  note cs = chunk_search_dpath [OF _ ok, of "dll_first s (spm_head s)"]
    chunk_find_dpath [OF _ ok, of "dll_first s (spm_head s)"]
  show "(let entry = dll_first s (spm_head s) in
     if entry_count s (spm_head s) \<noteq> 0 \<and> entry \<noteq> 0 then chunk_search s entry else Some None) = Some (search_list s xs)"
    using path e cs(1) by (auto simp: Let_def)
  show "(let entry = dll_first s (spm_head s) in
     if entry_count s (spm_head s) \<noteq> 0 \<and> entry \<noteq> 0 then chunk_find s addr entry else Some None) =
       Some (find (\<lambda>c. addr \<ge> chunk_start s c \<and> addr < chunk_start s c + HUGEPGSIZE) xs)"
    using path e cs(2) by (auto simp: Let_def)
qed

lemma chunk_frame_not_max: "n < 32768 \<Longrightarrow> i < 500 \<Longrightarrow> chunk_frame (frame_addr n) i \<noteq> UINT64_MAX"
proof
  assume "n < 32768" "i < 500" "chunk_frame (frame_addr n) i = UINT64_MAX"
  then have "n * 0x200000 + i * 4096 = unat UINT64_MAX" using chunk_frame_eq [of n i] by simp
  with \<open>n < 32768\<close> \<open>i < 500\<close> show False by simp
qed

text \<open>What the first step of \<open>physical_frame_request_4kb\<close> does when it returns.\<close>

lemma check_available_cases:
  assumes inv: "spm_inv s" and r: "check_available_chunked_frame s = Inr (a, t)"
  obtains (none) c k where "a = UINT64_MAX" "t = s\<lparr>cpus := c, locks := k\<rparr>"
  | (page) c k d i n where "d \<in> set (chunks s)" "i < 500" "\<not> page_taken s d i" "n < 32768"
      "chunk_start s d = frame_addr n" "a = chunk_frame (frame_addr n) i"
      "t = (chunk_take d i s)\<lparr>cpus := c, locks := k\<rparr>"
proof -
  from r obtain u where u: "acquire_Spinlock spm_lock s = Inr ((), u)"
    and b: "bnd (gets (\<lambda>s. let entry = dll_first s (spm_head s) in
            if entry_count s (spm_head s) \<noteq> 0 \<and> entry \<noteq> 0 then chunk_search s entry else Some None)) (\<lambda>r.
     case r of
       None \<Rightarrow> raise Diverge
     | Some None \<Rightarrow> seqn (release_Spinlock spm_lock) (ret UINT64_MAX)
     | Some (Some (c, i)) \<Rightarrow>
         bnd (gets (\<lambda>s. chunk_frame (chunk_start s c) i)) (\<lambda>frame.
         seqn (upd (chunk_take c i))
        (seqn (release_Spinlock spm_lock) (ret frame)))) u = Inr (a, t)"
    by (auto simp: check_available_chunked_frame_def seqn_Inr_iff)
  from acquire_Spinlock_frame [OF u] obtain c k where f: "u = s\<lparr>cpus := c, locks := k\<rparr>" by blast
  with inv have inv': "spm_inv u" and cs: "chunks u = chunks s" by simp_all
  then have "dll_stack (spm_head u) u (chunks s)" by (simp add: spm_inv_def)
  note walk = stack_walk(1) [OF this]
  show ?thesis
  proof (cases "search_list u (chunks s)")
    case None
    with b walk have rel: "release_Spinlock spm_lock u = Inr ((), t)" and a: "a = UINT64_MAX"
      by (auto simp: op_Inr_iff)
    from release_Spinlock_frame [OF rel] f a show ?thesis by (auto intro: none)
  next
    case (Some p)
    obtain d i where p: "p = (d, i)" by (cases p)
    with b walk Some have rel: "release_Spinlock spm_lock (chunk_take d i u) = Inr ((), t)"
      and a: "a = chunk_frame (chunk_start s d) i" using f by (auto simp: op_Inr_iff)
    from search_list_Some [OF Some [unfolded p]] f have d: "d \<in> set (chunks s)" "i < 500" "\<not> page_taken s d i"
      by (auto simp: page_taken_def)
    from inv d(1) obtain n where n: "n < 32768" "chunk_start s d = frame_addr n" by (auto simp: spm_inv_def)
    from release_Spinlock_frame [OF rel] f obtain c' k' where "t = (chunk_take d i s)\<lparr>cpus := c', locks := k'\<rparr>"
      by (auto simp: chunk_take_def)
    with a d n show ?thesis by (intro page) simp_all
  qed
qed

lemma insert_dll_entry_head_frame:
  assumes "insert_dll_entry_head h x s = Inr (u, t)"
  shows "\<exists>n p. t = s\<lparr>dll_prev := p, dll_next := n, entry_count := (entry_count s)(h := entry_count s h + 1)\<rparr>"
  using assms
  by (auto simp: insert_dll_entry_head_def Let_def dll_set_defs split: if_splits)

lemma heap_used_bounds: "x \<in> heap_used s \<Longrightarrow> unat KERNEL_HEAP_START \<le> x \<and> x < unat KERNEL_HEAP_START + 2 ^ 31"
proof -
  assume "x \<in> heap_used s"
  then obtain j y where "x = unat KERNEL_HEAP_START + y" "y \<in> blk j" unfolding heap_used_def by blast
  with hoff_hsz_le [of j] show ?thesis by (simp add: blk_def)
qed

lemma byte_range_self: "0 < n \<Longrightarrow> unat a \<in> byte_range n a"
  by (simp add: byte_range_def word_less_nat_alt)

lemma length_chunks: "spm_inv s \<Longrightarrow> length (chunks s) \<le> 32768"
proof -
  assume inv: "spm_inv s"
  then have sub: "set (map (chunk_start s) (chunks s)) \<subseteq> frame_addr ` {..< 32768}"
    unfolding spm_inv_def set_map by blast
  have "card (set (map (chunk_start s) (chunks s))) \<le> card (frame_addr ` {..< 32768})"
    by (rule card_mono [OF _ sub]) simp
  also have "\<dots> \<le> card {..< 32768 :: nat}" by (rule card_image_le) simp
  finally have "card (set (map (chunk_start s) (chunks s))) \<le> 32768" by simp
  moreover have "card (set (map (chunk_start s) (chunks s))) = length (chunks s)"
    using inv distinct_card [of "map (chunk_start s) (chunks s)"] by (simp add: spm_inv_def del: set_map)
  ultimately show ?thesis by simp
qed

text \<open>A new chunk object linked in front of the others.\<close>

definition chunk_added :: "u64 \<Rightarrow> u64 \<Rightarrow> 'a pmm_scheme \<Rightarrow> 'a pmm_scheme \<Rightarrow> bool" where
  "chunk_added d a s t \<longleftrightarrow> link t = link s \<and> dll_stack (spm_head s) t (d # chunks s)
     \<and> entry_count t (spm_head s) = entry_count s (spm_head s) + 1
     \<and> chunk_start t = (chunk_start s)(d := a)
     \<and> chunk_bitmap t = (chunk_bitmap s)(d := (\<lambda>_. 0)(0 := 1))
     \<and> PhysicalPageBitmap t = PhysicalPageBitmap s \<and> free_framecount t = free_framecount s"

lemma create_cases:
  assumes inv: "mem_inv s" and r: "create_new_chunked_frame a s = Inr (b, t)"
  obtains d where "b = a" "d \<noteq> 0" "d \<noteq> spm_head s" "d \<notin> set (chunks s)"
    "chunk_added d a s t" "kheap_inv t" "heap_used s \<subseteq> heap_used t"
    "byte_range sizeof_HugeChunk_2mb d \<subseteq> heap_used t"
proof -
  from inv have kh: "kheap_inv s" and sp: "spm_inv s" by (auto simp: mem_inv_def)
  let ?h = "spm_head s"
  from r obtain d s1 where k: "kalloc sizeof_HugeChunk_2mb s = Inr (d, s1)" and d0: "d \<noteq> 0"
    and rest: "seqn (acquire_Spinlock spm_lock)
         (bnd (gets spm_head) (\<lambda>head.
          seqn (insert_dll_entry_head head d)
         (seqn (upd (chunk_take d 0))
         (seqn (release_Spinlock spm_lock) (ret a)))))
         (s1\<lparr>chunk_bitmap := (chunk_bitmap s1)(d := (\<lambda>_. 0)), chunk_start := (chunk_start s1)(d := a)\<rparr>) = Inr (b, t)"
    by (auto simp: create_new_chunked_frame_def op_Inr_iff split: if_splits)
  note fresh = kheap_alloc.alloc_fresh [OF kh k d0] and kh1 = kheap_alloc.alloc_inv [OF kh k]
    and mono = kheap_alloc.alloc_used [OF kh k]
  obtain j c1 k1 where s1: "s1 = s\<lparr>heap_tree := j, cpus := c1, locks := k1\<rparr>"
    using kh k by (cases rule: kalloc_cases) (use d0 in auto)
  have self: "unat d \<in> byte_range sizeof_HugeChunk_2mb d" by (rule byte_range_self) (simp add: sizeof_HugeChunk_2mb_def)
  have "unat e \<in> heap_used s" if "e \<in> set (chunks s)" for e
    using sp that byte_range_self [of sizeof_HugeChunk_2mb e] by (auto simp: spm_inv_def sizeof_HugeChunk_2mb_def)
  with self fresh have notin: "d \<notin> set (chunks s)" by blast
  have "unat d \<in> heap_used s1" using self fresh by blast
  then have dh: "d \<noteq> ?h" using heap_used_bounds [of "unat d" s1] sp by (auto simp: spm_inv_def)
  let ?s2 = "s1\<lparr>chunk_bitmap := (chunk_bitmap s1)(d := (\<lambda>_. 0)), chunk_start := (chunk_start s1)(d := a)\<rparr>"
  from rest obtain s3 s4 where s3: "acquire_Spinlock spm_lock ?s2 = Inr ((), s3)"
    and s4: "insert_dll_entry_head (spm_head s3) d s3 = Inr ((), s4)"
    and rel: "release_Spinlock spm_lock (chunk_take d 0 s4) = Inr ((), t)" and b: "b = a"
    by (auto simp: op_Inr_iff)
  from acquire_Spinlock_frame [OF s3] obtain c3 k3 where f3: "s3 = ?s2\<lparr>cpus := c3, locks := k3\<rparr>" by blast
  then have h3: "spm_head s3 = ?h" by (simp add: spm_head_def s1)
  have st3: "dll_stack ?h s3 (chunks s)"
  proof -
    have "dll_stack ?h s3 (chunks s) = dll_stack ?h s (chunks s)"
      by (rule dll_stack_cong) (simp_all add: f3 s1)
    with sp show ?thesis by (simp add: spm_inv_def)
  qed
  have e3: "entry_count s3 ?h = entry_count s ?h" by (simp add: f3 s1)
  have "entry_count s ?h \<noteq> UINT32_MAX"
    using length_chunks [OF sp] sp by (auto simp: spm_inv_def)
  then have "linkable ?h s3 d (chunks s)" using d0 dh notin e3 by (simp add: linkable_def)
  from dll_stack_insert [OF st3 this] s4 h3 have st4: "dll_stack ?h s4 (d # chunks s)" by auto
  from insert_dll_entry_head_frame [OF s4] obtain n p where
    f4: "s4 = s3\<lparr>dll_prev := p, dll_next := n, entry_count := (entry_count s3)(?h := entry_count s3 ?h + 1)\<rparr>" using h3 by auto
  from release_Spinlock_frame [OF rel] obtain c5 k5 where f5: "t = (chunk_take d 0 s4)\<lparr>cpus := c5, locks := k5\<rparr>" by blast
  have "dll_stack ?h t (d # chunks s) = dll_stack ?h s4 (d # chunks s)"
    by (rule dll_stack_cong) (simp_all add: f5 chunk_take_def)
  with st4 e3 have "chunk_added d a s t"
    by (simp add: chunk_added_def f5 f4 f3 s1 chunk_take_def)
  moreover have hu: "heap_used t = heap_used s1" "kheap_inv t = kheap_inv s1"
    by (simp_all add: heap_used_def kheap_inv_def f5 f4 f3 chunk_take_def)
  ultimately show ?thesis using b d0 dh notin kh1 mono fresh by (intro that [of d]) simp_all
qed

lemma chunk_frame_0 [simp]: "chunk_frame a 0 = a"
  by (simp add: chunk_frame_def)

lemma chunk_added_inv:
  assumes inv: "mem_inv s" and n: "n < 32768" "n \<notin> free_frames s"
    and own: "\<And>c. c \<in> set (chunks s) \<Longrightarrow> chunk_start s c \<noteq> frame_addr n"
    and d: "d \<notin> set (chunks s)" "chunk_added d (frame_addr n) s t" "kheap_inv t" "heap_used s \<subseteq> heap_used t"
      "byte_range sizeof_HugeChunk_2mb d \<subseteq> heap_used t"
  shows "mem_inv t" and "pages_used s \<subseteq> pages_used t" and "page_bytes () (frame_addr n) \<subseteq> pages_used t"
proof -
  from inv have pm: "pmm_inv s" and sp: "spm_inv s" by (auto simp: mem_inv_def)
  from d(2) have h: "spm_head t = spm_head s" and st: "dll_stack (spm_head t) t (d # chunks s)"
    and cs: "chunk_start t = (chunk_start s)(d := frame_addr n)"
    and cb: "chunk_bitmap t = (chunk_bitmap s)(d := (\<lambda>_. 0)(0 := 1))"
    and fr: "free_frames t = free_frames s" and cnt: "entry_count t (spm_head t) = entry_count s (spm_head s) + 1"
    and fc: "free_framecount t = free_framecount s"
    by (auto simp: chunk_added_def spm_head_def free_frames_def)
  from chunks_stack [OF st] have ch: "chunks t = d # chunks s" .
  have "entry_count s (spm_head s) \<noteq> UINT32_MAX" using length_chunks [OF sp] sp by (auto simp: spm_inv_def)
  then have "unat (entry_count s (spm_head s) + 1) = unat (entry_count s (spm_head s)) + 1"
    using unatSuc [of "entry_count s (spm_head s)"] u32_plus_one_eq_0_iff [of "entry_count s (spm_head s)"]
    by (simp add: add.commute)
  then have len: "unat (entry_count t (spm_head t)) = length (chunks t)" using sp cnt ch by (simp add: spm_inv_def)
  have starts: "map (chunk_start t) (chunks t) = frame_addr n # map (chunk_start s) (chunks s)"
    using ch cs d(1) by auto
  have "distinct (map (chunk_start t) (chunks t))"
    using sp own unfolding starts by (auto simp: spm_inv_def)
  moreover have "\<forall>c \<in> set (chunks t). \<exists>m. m < 32768 \<and> m \<notin> free_frames t \<and> chunk_start t c = frame_addr m"
    using sp n d(1) unfolding ch cs fr by (auto simp: spm_inv_def)
  moreover have "\<forall>c \<in> set (chunks t). byte_range sizeof_HugeChunk_2mb c \<subseteq> heap_used t"
    using sp d(4,5) unfolding ch by (auto simp: spm_inv_def)
  moreover have "unat KERNEL_HEAP_START + 2 ^ 31 \<le> unat (spm_head t)" using sp h by (simp add: spm_inv_def)
  ultimately have "spm_inv t" using st len ch unfolding spm_inv_def by simp
  moreover have "pmm_inv t" using pm fr fc by (simp add: pmm_inv_def)
  ultimately show "mem_inv t" using d(3) by (simp add: mem_inv_def)
  have pt: "page_taken t c i = page_taken s c i" "chunk_start t c = chunk_start s c" if "c \<in> set (chunks s)" for c i
    using that d(1) by (auto simp: page_taken_def cb cs)
  have "page_taken t d 0" by (simp add: page_taken_def cb)
  then have "page_bytes () (chunk_frame (chunk_start t d) 0) \<subseteq> pages_used t"
    unfolding pages_used_def ch by fastforce
  then show "page_bytes () (frame_addr n) \<subseteq> pages_used t" by (simp add: cs)
  show "pages_used s \<subseteq> pages_used t"
  proof
    fix x
    assume "x \<in> pages_used s"
    then obtain c i where c: "c \<in> set (chunks s)" "i < 500" "page_taken s c i"
      "x \<in> page_bytes () (chunk_frame (chunk_start s c) i)" by (auto simp: pages_used_def)
    with pt [OF c(1)] have "page_taken t c i" "x \<in> page_bytes () (chunk_frame (chunk_start t c) i)" by simp_all
    with c(1,2) show "x \<in> pages_used t" unfolding pages_used_def ch by auto
  qed
qed

text \<open>The three ways a request for a 4 KB page returns.\<close>

lemma mem_inv_taken:
  assumes "mem_inv s" "n \<in> free_frames s"
  shows "mem_inv (taken n s)" and "chunks (taken n s) = chunks s" and "chunk_start (taken n s) = chunk_start s"
    and "pages_used (taken n s) = pages_used s"
proof -
  have h: "spm_head (taken n s) = spm_head s" by (simp add: spm_head_def taken_def)
  show c: "chunks (taken n s) = chunks s" by (simp add: chunks_def h) (simp add: taken_def)
  show cs: "chunk_start (taken n s) = chunk_start s" by (simp add: taken_def)
  show "pages_used (taken n s) = pages_used s" by (simp add: pages_used_def c page_taken_def) (simp add: taken_def)
  have "dll_stack h (taken n s) xs = dll_stack h s xs" for h xs by (rule dll_stack_cong) (simp_all add: taken_def)
  moreover have "heap_used (taken n s) = heap_used s" "entry_count (taken n s) = entry_count s"
    by (simp_all add: heap_used_def taken_def)
  ultimately have "spm_inv (taken n s)"
    using assms(1) unfolding mem_inv_def spm_inv_def h c cs by fastforce
  moreover have "kheap_inv (taken n s)" using assms(1) by (simp add: mem_inv_def kheap_inv_def taken_def)
  ultimately show "mem_inv (taken n s)" using assms pmm_inv_taken [of s n] by (simp add: mem_inv_def)
qed

lemma request_4kb_effect:
  assumes inv: "mem_inv s" and r: "physical_frame_request_4kb s = Inr (a, t)"
  shows "mem_inv t \<and> pages_used s \<subseteq> pages_used t \<and>
     (a \<noteq> UINT64_MAX \<longrightarrow> page_bytes () a \<inter> pages_used s = {} \<and> page_bytes () a \<subseteq> pages_used t)"
proof -
  from inv have sp: "spm_inv s" by (simp add: mem_inv_def)
  from r obtain b u where b: "check_available_chunked_frame s = Inr (b, u)"
    and rest: "(if b \<noteq> UINT64_MAX then ret b
     else bnd physical_frame_request (\<lambda>frame_2mb.
       if frame_2mb = UINT64_MAX then ret UINT64_MAX
       else create_new_chunked_frame frame_2mb)) u = Inr (a, t)"
    by (auto simp: physical_frame_request_4kb_def bnd_Inr_iff)
  from sp b show ?thesis
  proof (cases rule: check_available_cases)
    case (page c k d i n)
    with rest chunk_frame_not_max have t: "t = u" "a = chunk_frame (frame_addr n) i" by auto
    have "mem_inv t" using inv t page by (simp add: mem_inv_def kheap_inv_def pmm_inv_def free_frames_def)
        (simp add: chunk_take_def)
    moreover have pt: "page_taken t e j \<longleftrightarrow> page_taken s e j \<or> e = d \<and> j = i" for e j
      using page_taken_chunk_take [of d i s e j] t page(7) by (simp add: page_taken_def)
    have ch: "chunks t = chunks s" "chunk_start t = chunk_start s" using t page(7) by simp_all
    have "pages_used s \<subseteq> pages_used t" unfolding pages_used_def ch pt by blast
    moreover have "page_bytes () a \<subseteq> pages_used t"
      unfolding pages_used_def ch pt t(2) page(5) [symmetric] using page(1,2) by blast
    moreover have "page_bytes () a \<inter> pages_used s = {}"
      unfolding t(2)
    proof (rule fresh_page_disjoint [OF sp page(4,2)])
      fix e assume e: "e \<in> set (chunks s)" "chunk_start s e = frame_addr n"
      with sp page(1,5) have "e = d" by (auto simp: spm_inv_def distinct_map inj_on_def)
      with page(3) show "\<not> page_taken s e i" by simp
    qed
    ultimately show ?thesis by blast
  next
    case (none c k)
    then have "mem_inv u" using inv by simp
    then have u: "mem_inv u" "pmm_inv u" "pages_used u = pages_used s" using none by (simp_all add: mem_inv_def)
    from rest none obtain f v where f: "physical_frame_request u = Inr (f, v)"
      and cr: "(if f = UINT64_MAX then ret UINT64_MAX else create_new_chunked_frame f) v = Inr (a, t)"
      by (auto simp: bnd_Inr_iff)
    from u(2) f show ?thesis
    proof (cases rule: physical_frame_request_cases)
      case (fail c' k')
      with cr u show ?thesis by simp
    next
      case (ok c' k' n)
      then have n: "n < 32768" by (simp add: frames_lt)
      have fa: "f \<noteq> UINT64_MAX" using ok(3) chunk_frame_not_max [OF n, of 0] by simp
      note tk = mem_inv_taken [OF u(1) ok(2)]
      from tk ok(4) have v: "mem_inv v" "chunks v = chunks u" "chunk_start v = chunk_start u" "pages_used v = pages_used s"
        using u(3) by simp_all
      have own: "chunk_start v c \<noteq> frame_addr n" if c: "c \<in> set (chunks v)" for c
      proof
        assume e: "chunk_start v c = frame_addr n"
        from u(1) c v(2) obtain m where m: "m < 32768" "m \<notin> free_frames u" "chunk_start u c = frame_addr m"
          by (auto simp: mem_inv_def spm_inv_def)
        have "n = m" by (rule frame_addr_inj [OF _ n m(1)]) (use e v(3) m(3) in metis)
        with m(2) ok(2) show False by blast
      qed
      have nf: "n \<notin> free_frames v" using ok(4) by simp
      from cr fa ok(3) have "create_new_chunked_frame (frame_addr n) v = Inr (a, t)" by simp
      with v(1) show ?thesis
      proof (cases rule: create_cases)
        case (1 d)
        note ad = chunk_added_inv [OF v(1) n nf own 1(4-8)]
        have "page_bytes () (chunk_frame (frame_addr n) 0) \<inter> pages_used v = {}"
        proof (rule fresh_page_disjoint [OF _ n])
          show "spm_inv v" using v(1) by (simp add: mem_inv_def)
        qed (use own in auto)
        with ad v(4) 1(1) show ?thesis by simp
      qed
    qed
  qed
qed

interpretation page_alloc: allocator "\<lambda>_. physical_frame_request_4kb" "\<lambda>a. a = UINT64_MAX" mem_inv pages_used page_bytes
proof unfold_locales
  fix s t :: "'a pmm_scheme" and n :: unit and a :: u64
  assume "mem_inv s" "physical_frame_request_4kb s = Inr (a, t)"
  note e = request_4kb_effect [OF this]
  from e show "mem_inv t" "pages_used s \<subseteq> pages_used t" by blast+
  show "page_bytes n a \<inter> pages_used s = {} \<and> page_bytes n a \<subseteq> pages_used t" if "a \<noteq> UINT64_MAX"
    using e that by (cases n) simp
qed

section \<open>Returning pages\<close>

lemma find_unique: "d \<in> set xs \<Longrightarrow> P d \<Longrightarrow> \<forall>c \<in> set xs. P c \<longrightarrow> c = d \<Longrightarrow> find P xs = Some d"
proof (cases "find P xs")
  case None
  moreover assume "d \<in> set xs" "P d"
  ultimately show ?thesis by (simp add: find_None_iff)
next
  case (Some c)
  then have "c \<in> set xs" "P c" by (auto simp: find_Some_iff)
  moreover assume "\<forall>c \<in> set xs. P c \<longrightarrow> c = d"
  ultimately show ?thesis using Some by blast
qed

lemma in_frame_iff:
  "n < 32768 \<Longrightarrow> frame_addr n \<le> a \<and> a < frame_addr n + HUGEPGSIZE \<longleftrightarrow> unat a \<in> frame_bytes n"
proof -
  assume n: "n < 32768"
  then have "unat (frame_addr n + HUGEPGSIZE) = (n + 1) * 0x200000"
    by (subst unat_plus_nowrap) (simp_all add: unat_frame_addr HUGEPGSIZE_def)
  with n show ?thesis by (simp add: word_le_nat_alt word_less_nat_alt unat_frame_addr frame_bytes_def)
qed

lemma page_index:
  assumes n: "n < 32768" "i < 512" "unat a = n * 0x200000 + i * 4096 + r" "r < 4096"
  shows "unat ((PGROUNDDOWN a - frame_addr n) div PGSIZE) = i"
proof -
  have "unat a = r + 4096 * (n * 512 + i)" using n(3) by simp
  then have "unat a mod 4096 = r" using n(4) by (simp only: mod_mult_self2 mod_less)
  then have p: "unat (PGROUNDDOWN a) = n * 0x200000 + i * 4096"
    unfolding PGROUNDDOWN_def PGSIZE_def using n(3)
    by (subst unat_minus_nowrap) (simp_all add: word_le_nat_alt unat_mod)
  have "unat (PGROUNDDOWN a - frame_addr n) = i * 4096"
    using p n(1) by (subst unat_minus_nowrap) (simp_all add: word_le_nat_alt unat_frame_addr)
  then show ?thesis by (simp add: unat_div PGSIZE_def)
qed

lemma chunk_of_address:
  assumes sp: "spm_inv s" and d: "d \<in> set (chunks s)" "chunk_start s d = frame_addr n" and n: "n < 32768" "unat a \<in> frame_bytes n"
  shows "find (\<lambda>c. a \<ge> chunk_start s c \<and> a < chunk_start s c + HUGEPGSIZE) (chunks s) = Some d"
proof (rule find_unique [OF d(1)])
  show "a \<ge> chunk_start s d \<and> a < chunk_start s d + HUGEPGSIZE" using n d(2) in_frame_iff by simp
  show "\<forall>c \<in> set (chunks s). a \<ge> chunk_start s c \<and> a < chunk_start s c + HUGEPGSIZE \<longrightarrow> c = d"
  proof (intro ballI impI)
  fix c
  assume c: "c \<in> set (chunks s)" "a \<ge> chunk_start s c \<and> a < chunk_start s c + HUGEPGSIZE"
  with sp obtain m where m: "m < 32768" "chunk_start s c = frame_addr m" by (auto simp: spm_inv_def)
  with c(2) have "unat a \<in> frame_bytes m" using in_frame_iff by simp
  with n(2) have "m = n" using frame_bytes_disjoint [of m n] by blast
  with m(2) d sp c(1) show "c = d" by (auto simp: spm_inv_def distinct_map inj_on_def)
  qed
qed

lemma page_taken_drop:
  assumes "chunk_drop d i s = Inr (u, t)"
  shows "page_taken t c j \<longleftrightarrow> page_taken s c j \<and> \<not> (c = d \<and> j = i)"
proof -
  have e: "j = i \<longleftrightarrow> j div 4 = i div 4 \<and> j mod 4 = i mod 4" by (metis div_mult_mod_eq)
  from assms show ?thesis
    unfolding chunk_drop_def page_taken_def e
    by (auto simp: bit_and_not_push_bit simp del: push_bit_of_1 split: if_splits)
qed

lemma lock_held_chunk [simp]:
  "lock_held l (s\<lparr>chunk_bitmap := b, chunk_use_count := c\<rparr>) = lock_held l s"
  by (simp add: lock_held_def registered_def)

lemma try_free_walk:
  assumes sp: "spm_inv s" and lock: "lock_free spm_lock s"
    and d: "d \<in> set (chunks s)" "chunk_start s d = frame_addr n" and n: "n < 32768" "i < 512"
    and a: "unat a = n * 0x200000 + i * 4096 + r" "r < 4096"
  obtains c k where "lock_held spm_lock (s\<lparr>cpus := c, locks := k\<rparr>)"
    "try_free_chunked_frame a s = seqn (chunk_drop d i)
        (seqn (bnd (gets (\<lambda>s. chunk_use_count s d)) (\<lambda>n.
               if n = 0 then bnd (remove_dll_entry d) (\<lambda>_. bnd (kfree d) (\<lambda>_. ret ())) else ret ()))
        (seqn (release_Spinlock spm_lock) (ret True))) (s\<lparr>cpus := c, locks := k\<rparr>)"
proof -
  from lock_free_taken [OF lock] obtain j where
    j: "acquire_Spinlock spm_lock s = Inr ((), lock_taken spm_lock j s)"
    "lock_held spm_lock (lock_taken spm_lock j s)" by blast
  from acquire_Spinlock_frame [OF j(1)] obtain c k where f: "lock_taken spm_lock j s = s\<lparr>cpus := c, locks := k\<rparr>" by blast
  let ?u = "s\<lparr>cpus := c, locks := k\<rparr>"
  from sp have sp': "spm_inv ?u" by simp
  then have st: "dll_stack (spm_head ?u) ?u (chunks s)" by (simp add: spm_inv_def)
  have "unat a \<in> frame_bytes n" using a n by (simp add: frame_bytes_def)
  from chunk_of_address [OF sp d n(1) this]
  have fd: "find (\<lambda>c. a \<ge> chunk_start ?u c \<and> a < chunk_start ?u c + HUGEPGSIZE) (chunks s) = Some d" by simp
  note walk = stack_walk(2) [OF st, of a, unfolded fd]
  have ix: "unat ((PGROUNDDOWN a - chunk_start s d) div PGSIZE) = i" using page_index [OF n a] d(2) by simp
  have "try_free_chunked_frame a s = seqn (chunk_drop d i)
        (seqn (bnd (gets (\<lambda>s. chunk_use_count s d)) (\<lambda>n.
               if n = 0 then bnd (remove_dll_entry d) (\<lambda>_. bnd (kfree d) (\<lambda>_. ret ())) else ret ()))
        (seqn (release_Spinlock spm_lock) (ret True))) ?u"
    unfolding try_free_chunked_frame_def
    by (subst seqn_step [where m = "acquire_Spinlock spm_lock", OF j(1)]) (simp only: f bnd_gets walk, simp add: bnd_gets ix)
  with j(2) f show ?thesis by (intro that) simp_all
qed

lemma spm_inv_bitmap [simp]:
  "spm_inv (s\<lparr>chunk_bitmap := b, chunk_use_count := c\<rparr>) = spm_inv s"
  "chunks (s\<lparr>chunk_bitmap := b, chunk_use_count := c\<rparr>) = chunks s"
proof -
  have h: "spm_head (s\<lparr>chunk_bitmap := b, chunk_use_count := c\<rparr>) = spm_head s" by (simp add: spm_head_def)
  then show c: "chunks (s\<lparr>chunk_bitmap := b, chunk_use_count := c\<rparr>) = chunks s" by (simp add: chunks_def)
  have "dll_stack h (s\<lparr>chunk_bitmap := b, chunk_use_count := c\<rparr>) xs = dll_stack h s xs" for h xs
    by (rule dll_stack_cong) simp_all
  then show "spm_inv (s\<lparr>chunk_bitmap := b, chunk_use_count := c\<rparr>) = spm_inv s"
    by (simp add: spm_inv_def h c heap_used_def free_frames_def)
qed

lemma search_list_None:
  "search_list s xs = None \<longleftrightarrow> (\<forall>c \<in> set xs. chunk_use_count s c < 500 \<longrightarrow> (\<forall>i < 500. page_taken s c i))"
proof (induction xs)
  case (Cons x xs)
  have "scan_chunk (chunk_bitmap s x) 0 = None \<longleftrightarrow> (\<forall>i < 500. page_taken s x i)"
    using scan_chunk_spec [where bm = "chunk_bitmap s x" and i = 0]
    by (cases "scan_chunk (chunk_bitmap s x) 0") (auto simp: page_taken_def)
  with Cons.IH show ?case
    by (cases "chunk_use_count s x < 500"; cases "scan_chunk (chunk_bitmap s x) 0") auto
qed simp

lemma lock_held_chunk_take [simp]: "lock_held l (chunk_take d i s) = lock_held l s"
  by (simp add: lock_held_def registered_def chunk_take_def)

lemma check_available_returns:
  assumes sp: "spm_inv s" and lock: "lock_free spm_lock s"
  shows "\<exists>a t. check_available_chunked_frame s = Inr (a, t) \<and> lock_free spm_lock t \<and> spm_inv t
     \<and> (a = UINT64_MAX \<longleftrightarrow> (\<forall>c \<in> set (chunks s). chunk_use_count s c < 500 \<longrightarrow> (\<forall>i < 500. page_taken s c i)))"
proof -
  from lock_free_taken [OF lock] obtain j where
    j: "acquire_Spinlock spm_lock s = Inr ((), lock_taken spm_lock j s)"
    "lock_held spm_lock (lock_taken spm_lock j s)" by blast
  from acquire_Spinlock_frame [OF j(1)] obtain c k where f: "lock_taken spm_lock j s = s\<lparr>cpus := c, locks := k\<rparr>" by blast
  let ?u = "s\<lparr>cpus := c, locks := k\<rparr>"
  have "spm_inv ?u" using sp by simp
  then have st: "dll_stack (spm_head ?u) ?u (chunks s)" by (simp add: spm_inv_def)
  have full: "search_list ?u (chunks s) = None \<longleftrightarrow>
      (\<forall>c \<in> set (chunks s). chunk_use_count s c < 500 \<longrightarrow> (\<forall>i < 500. page_taken s c i))"
    by (simp add: search_list_None page_taken_def)
  have run: "check_available_chunked_frame s = (case search_list ?u (chunks s) of
       None \<Rightarrow> seqn (release_Spinlock spm_lock) (ret UINT64_MAX) ?u
     | Some (c, i) \<Rightarrow> seqn (release_Spinlock spm_lock) (ret (chunk_frame (chunk_start s c) i)) (chunk_take c i ?u))"
    unfolding check_available_chunked_frame_def
    by (subst seqn_step [where m = "acquire_Spinlock spm_lock", OF j(1)])
       (simp only: f bnd_gets stack_walk(1) [OF st], auto simp: bnd_gets seqn_upd split: option.splits)
  show ?thesis
  proof (cases "search_list ?u (chunks s)")
    case None
    from lock_held_dropped [OF j(2)] f obtain t where
      t: "release_Spinlock spm_lock ?u = Inr ((), t)" "lock_free spm_lock t" by auto
    from release_Spinlock_frame [OF t(1)] sp have "spm_inv t" by auto
    then show ?thesis unfolding run full [symmetric] using None t by (simp add: seqn_def bnd_def ret_def)
  next
    case (Some p)
    obtain d i where p: "p = (d, i)" by (cases p)
    from search_list_Some [OF Some [unfolded p]] have d: "d \<in> set (chunks s)" "i < 500" by auto
    with sp obtain n where n: "n < 32768" "chunk_start s d = frame_addr n" by (auto simp: spm_inv_def)
    have "lock_held spm_lock (chunk_take d i ?u)" using j(2) f by simp
    from lock_held_dropped [OF this] obtain t where
      t: "release_Spinlock spm_lock (chunk_take d i ?u) = Inr ((), t)" "lock_free spm_lock t" by blast
    from release_Spinlock_frame [OF t(1)] sp have "spm_inv t" by auto
    then show ?thesis unfolding run full [symmetric]
      using Some p t n chunk_frame_not_max [OF n(1) d(2)] by (simp add: seqn_def bnd_def ret_def)
  qed
qed

section \<open>A concrete state with one chunk\<close>

definition chunked_pmm :: pmm where
  "chunked_pmm = (taken 512 small_pmm)\<lparr>
     heap_tree := mark 0 16384 (heap_tree boot_kheap),
     dll_next := (\<lambda>_. 0)(0xffffffff80130000 := 0xffffffff40000000, 0xffffffff40000000 := 0xffffffff80130000),
     dll_prev := (\<lambda>_. 0)(0xffffffff40000000 := 0xffffffff80130000),
     entry_count := (\<lambda>_. 0)(0xffffffff80130000 := 1),
     chunk_start := (\<lambda>_. 0)(0xffffffff40000000 := frame_addr 512),
     chunk_bitmap := (\<lambda>_ _. 0)(0xffffffff40000000 := (\<lambda>_. 0)(0 := 3)),
     chunk_use_count := (\<lambda>_. 0)(0xffffffff40000000 := 2)\<rparr>"

lemma small_pmm_link: "link small_pmm = boot_link" "heap_va_start small_pmm = KERNEL_HEAP_START"
  "no_return small_pmm = Some UINT64_MAX"
  by (simp_all add: small_pmm_def given_back_def boot_pmm_def kheap.defs boot_kheap_env)

lemma chunked_pmm_head: "spm_head chunked_pmm = 0xffffffff80130000"
  by (simp add: spm_head_def chunked_pmm_def taken_def small_pmm_link boot_link_def)

lemma chunked_pmm_stack: "dll_stack (spm_head chunked_pmm) chunked_pmm [0xffffffff40000000]"
  unfolding chunked_pmm_head by (simp add: dll_stack_def dll_ok_def chunked_pmm_def)

lemmas chunked_pmm_chunks = chunks_stack [OF chunked_pmm_stack]

lemma chunked_pmm_frames: "free_frames chunked_pmm = {513}"
proof -
  have "free_frames chunked_pmm = free_frames (taken 512 small_pmm)" by (simp add: free_frames_def chunked_pmm_def)
  then show ?thesis by (auto simp: small_pmm_frames)
qed

lemma chunked_pmm_inv: "mem_inv chunked_pmm"
proof -
  have "pmm_inv (taken 512 small_pmm)" by (rule pmm_inv_taken) (simp_all add: small_pmm_inv small_pmm_frames)
  then have pm: "pmm_inv chunked_pmm" by (simp add: pmm_inv_def free_frames_def chunked_pmm_def)
  have tr: "heap_tree chunked_pmm = mark 0 16384 (heap_tree boot_kheap)" by (simp add: chunked_pmm_def)
  have "heap_wf (heap_tree boot_kheap)" using kheap_inv_boot by (simp add: kheap_inv_def)
  from heap_wf_mark [OF this boot_kheap_candidate] have kh: "kheap_inv chunked_pmm"
    by (simp add: kheap_inv_def tr) (simp add: chunked_pmm_def taken_def small_pmm_link returns_max_def)
  have "(+) (unat KERNEL_HEAP_START) ` blk 16384 \<subseteq> heap_used chunked_pmm"
    unfolding heap_used_def tr by (rule UN_upper) (simp add: occ_mark KERNEL_HEAP_LEN_def)
  moreover have "byte_range sizeof_HugeChunk_2mb 0xffffffff40000000 \<subseteq> (+) (unat KERNEL_HEAP_START) ` blk 16384"
    by (simp add: byte_range_def sizeof_HugeChunk_2mb_def blk_def hsz_leaves image_add_atLeastLessThan KERNEL_HEAP_START_def)
  ultimately have "byte_range sizeof_HugeChunk_2mb 0xffffffff40000000 \<subseteq> heap_used chunked_pmm" by blast
  moreover have "\<exists>n. n < 32768 \<and> n \<notin> free_frames chunked_pmm \<and> chunk_start chunked_pmm 0xffffffff40000000 = frame_addr n"
    by (rule exI [of _ 512]) (simp add: chunked_pmm_frames, simp add: chunked_pmm_def)
  ultimately have "spm_inv chunked_pmm"
    using chunked_pmm_stack unfolding spm_inv_def chunked_pmm_chunks
    by (simp add: chunked_pmm_head) (simp add: chunked_pmm_def KERNEL_HEAP_START_def)
  with pm kh show ?thesis by (simp add: mem_inv_def)
qed

lemma chunked_pmm_lock: "lock_free l chunked_pmm"
  using small_pmm_lock [of l] by (simp add: lock_free_def registered_def chunked_pmm_def taken_def)

section \<open>Properties\<close>

text \<open>C15: no two 4 KB pages handed out by \<open>physical_frame_request_4kb\<close> overlap. For any sequence of
  successful requests from a state that satisfies the invariant, the returned pages are pairwise
  disjoint and disjoint from every page taken before, and the invariant of heap, bitmap and chunk
  list is kept.\<close>

theorem physical_frame_request_4kb_disjoint:
  assumes "mem_inv s" and "alloc_seq (\<lambda>_. physical_frame_request_4kb) ns s = Inr (as, t)" and "\<forall>a \<in> set as. a \<noteq> UINT64_MAX"
  shows "mem_inv t \<and> blocks_disjoint page_bytes (pages_used s) (zip ns as)"
  using page_alloc.alloc_seq_disjoint [OF assms] by blast

theorem physical_frame_request_4kb_disjoint_witness:
  "\<exists>a t. alloc_seq (\<lambda>_. physical_frame_request_4kb) [()] chunked_pmm = Inr ([a], t) \<and> a \<noteq> UINT64_MAX
     \<and> page_bytes () a \<inter> pages_used chunked_pmm = {}"
proof -
  have sp: "spm_inv chunked_pmm" using chunked_pmm_inv by (simp add: mem_inv_def)
  obtain a t where c: "check_available_chunked_frame chunked_pmm = Inr (a, t)"
    using check_available_returns [OF sp chunked_pmm_lock] by blast
  have "\<not> page_taken chunked_pmm 0xffffffff40000000 2" by (simp add: page_taken_def chunked_pmm_def)
  moreover have "chunk_use_count chunked_pmm 0xffffffff40000000 < 500" by (simp add: chunked_pmm_def)
  ultimately have a: "a \<noteq> UINT64_MAX"
    using check_available_returns [OF sp chunked_pmm_lock] c by (auto simp: chunked_pmm_chunks)
  have "physical_frame_request_4kb chunked_pmm = Inr (a, t)"
    using c a by (simp add: physical_frame_request_4kb_def bnd_step ret_def)
  then have s: "alloc_seq (\<lambda>_. physical_frame_request_4kb) [()] chunked_pmm = Inr ([a], t)"
    by (simp add: bnd_step ret_def)
  then show ?thesis using physical_frame_request_4kb_disjoint [OF chunked_pmm_inv s] a by auto
qed

text \<open>The walk of \<open>check_available_chunked_frame\<close> along the list of chunks ends. With the lock free
  it returns, with the lock free again and the invariant kept, and it answers \<open>UINT64_MAX\<close> only when
  every chunk whose use count is below 500 has all of its 500 pages taken.\<close>

theorem check_available_chunked_frame_complete:
  assumes "spm_inv s" and "lock_free spm_lock s"
  shows "\<exists>a t. check_available_chunked_frame s = Inr (a, t) \<and> lock_free spm_lock t \<and> spm_inv t
     \<and> (a = UINT64_MAX \<longleftrightarrow> (\<forall>c \<in> set (chunks s). chunk_use_count s c < 500 \<longrightarrow> (\<forall>i < 500. page_taken s c i)))"
  using check_available_returns [OF assms] .

theorem check_available_chunked_frame_complete_witness:
  "\<exists>a t. check_available_chunked_frame chunked_pmm = Inr (a, t) \<and> a \<noteq> UINT64_MAX \<and> spm_inv t"
proof -
  have sp: "spm_inv chunked_pmm" using chunked_pmm_inv by (simp add: mem_inv_def)
  have "\<not> page_taken chunked_pmm 0xffffffff40000000 2" by (simp add: page_taken_def chunked_pmm_def)
  moreover have "chunk_use_count chunked_pmm 0xffffffff40000000 < 500" by (simp add: chunked_pmm_def)
  ultimately show ?thesis
    using check_available_chunked_frame_complete [OF sp chunked_pmm_lock]
    by (auto simp: chunked_pmm_chunks)
qed

text \<open>\<open>try_free_chunked_frame\<close> of an address in one of the first 500 pages of a chunked 2 MB frame
  whose use count does not drop to zero clears exactly that page, keeps the list of chunks and the
  invariant, returns true and releases the lock.\<close>

theorem try_free_chunked_frame_page:
  assumes sp: "spm_inv s" and lock: "lock_free spm_lock s"
    and d: "d \<in> set (chunks s)" "chunk_start s d = frame_addr n" "chunk_use_count s d \<noteq> 1" and n: "n < 32768" "i < 500"
    and a: "unat a = n * 0x200000 + i * 4096 + r" "r < 4096"
  shows "\<exists>t. try_free_chunked_frame a s = Inr (True, t) \<and> spm_inv t \<and> chunks t = chunks s \<and> lock_free spm_lock t
     \<and> (\<forall>c j. page_taken t c j \<longleftrightarrow> page_taken s c j \<and> \<not> (c = d \<and> j = i))
     \<and> chunk_use_count t = (chunk_use_count s)(d := chunk_use_count s d - 1)"
proof -
  from n have i: "i < 512" "i div 4 < 125" by auto
  obtain c k where h: "lock_held spm_lock (s\<lparr>cpus := c, locks := k\<rparr>)"
    and run: "try_free_chunked_frame a s = seqn (chunk_drop d i)
        (seqn (bnd (gets (\<lambda>s. chunk_use_count s d)) (\<lambda>n.
               if n = 0 then bnd (remove_dll_entry d) (\<lambda>_. bnd (kfree d) (\<lambda>_. ret ())) else ret ()))
        (seqn (release_Spinlock spm_lock) (ret True))) (s\<lparr>cpus := c, locks := k\<rparr>)"
    by (rule try_free_walk [OF sp lock d(1,2) n(1) i(1) a])
  let ?u = "s\<lparr>cpus := c, locks := k\<rparr>"
  define v where "v = ?u\<lparr>chunk_bitmap := (chunk_bitmap s)(d := (chunk_bitmap s d)
         (i div 4 := chunk_bitmap s d (i div 4) AND NOT (push_bit (i mod 4) 1))),
       chunk_use_count := (chunk_use_count s)(d := chunk_use_count s d - 1)\<rparr>"
  have drop: "chunk_drop d i ?u = Inr ((), v)" using i(2) by (simp add: chunk_drop_def v_def del: push_bit_of_1)
  have "lock_held spm_lock v" using h by (simp add: v_def del: push_bit_of_1)
  from lock_held_dropped [OF this] obtain t where t: "release_Spinlock spm_lock v = Inr ((), t)" "lock_free spm_lock t" by blast
  have uc: "chunk_use_count v d \<noteq> 0" using d(3) by (simp add: v_def)
  have "try_free_chunked_frame a s = Inr (True, t)"
    unfolding run using drop t uc by (simp add: seqn_def bnd_def gets_def ret_def)
  moreover have "spm_inv v" "chunks v = chunks s" using sp by (simp_all add: v_def del: push_bit_of_1)
  moreover have "page_taken v e j \<longleftrightarrow> page_taken s e j \<and> \<not> (e = d \<and> j = i)" for e j
    using page_taken_drop [OF drop, of e j] by (simp add: page_taken_def)
  moreover from release_Spinlock_frame [OF t(1)] obtain c' k' where f: "t = v\<lparr>cpus := c', locks := k'\<rparr>" by blast
  ultimately show ?thesis using t(2) by (simp add: f page_taken_def) (simp add: v_def)
qed

theorem try_free_chunked_frame_page_witness:
  "\<exists>t. try_free_chunked_frame 0x40001008 chunked_pmm = Inr (True, t) \<and> spm_inv t
     \<and> page_taken chunked_pmm 0xffffffff40000000 1 \<and> \<not> page_taken t 0xffffffff40000000 1"
proof -
  have sp: "spm_inv chunked_pmm" using chunked_pmm_inv by (simp add: mem_inv_def)
  have f: "chunk_start chunked_pmm 0xffffffff40000000 = frame_addr 512" "chunk_use_count chunked_pmm 0xffffffff40000000 \<noteq> 1"
    "page_taken chunked_pmm 0xffffffff40000000 1"
    by (simp_all add: chunked_pmm_def page_taken_def)
  from try_free_chunked_frame_page [OF sp chunked_pmm_lock _ f(1,2), of 1 "0x40001008" 8] f(3)
  show ?thesis by (auto simp: chunked_pmm_chunks)
qed

text \<open>The last 12 pages of a chunked 2 MB frame are outside its bitmap of 125 words; freeing an
  address there writes past the end of the array. (No request hands these pages out.)\<close>

theorem try_free_last_pages_undefined:
  assumes sp: "spm_inv s" and lock: "lock_free spm_lock s"
    and d: "d \<in> set (chunks s)" "chunk_start s d = frame_addr n" and n: "n < 32768" "500 \<le> i" "i < 512"
    and a: "unat a = n * 0x200000 + i * 4096 + r" "r < 4096"
  shows "try_free_chunked_frame a s = Inl Undefined"
proof -
  obtain c k where run: "try_free_chunked_frame a s = seqn (chunk_drop d i)
        (seqn (bnd (gets (\<lambda>s. chunk_use_count s d)) (\<lambda>n.
               if n = 0 then bnd (remove_dll_entry d) (\<lambda>_. bnd (kfree d) (\<lambda>_. ret ())) else ret ()))
        (seqn (release_Spinlock spm_lock) (ret True))) (s\<lparr>cpus := c, locks := k\<rparr>)"
    by (rule try_free_walk [OF sp lock d n(1,3) a])
  have "125 \<le> i div 4" using n(2) by linarith
  then show ?thesis unfolding run by (simp add: seqn_def bnd_def chunk_drop_def)
qed

theorem try_free_last_pages_undefined_witness:
  "spm_inv chunked_pmm \<and> try_free_chunked_frame 0x401F5000 chunked_pmm = Inl Undefined"
proof -
  have sp: "spm_inv chunked_pmm" using chunked_pmm_inv by (simp add: mem_inv_def)
  have f: "chunk_start chunked_pmm 0xffffffff40000000 = frame_addr 512" by (simp add: chunked_pmm_def)
  from try_free_last_pages_undefined [OF sp chunked_pmm_lock _ f, of 501 "0x401F5000" 0] sp
  show ?thesis by (auto simp: chunked_pmm_chunks)
qed

end
