(* ===== verification/Paging.thy ===== *)
theory Paging
  imports Small_Pages
begin

text \<open>
  The page tables of the kernel: the mapping functions of src/src/kernel/mem/pmm.c and \<open>kheap_init\<close>
  of src/src/kernel/mem/vmm.c.

  \<open>qmem\<close> is the memory that holds page tables, as 64-bit cells at kernel virtual addresses. The
  kernel image is mapped at \<open>KERNEL_HH_START\<close>, so the physical address of a table is its virtual
  address without the bits of \<open>KERNEL_HH_START\<close>, and the code reaches a table through an entry by
  adding \<open>KERNEL_HH_START\<close> to the address in the entry. The tables have link-time addresses; that
  they are page aligned, lie in the kernel image and do not overlap is \<open>layout_ok\<close>, which the linker
  guarantees for the declarations of kernel.h (\<open>aligned(0x1000)\<close>).
\<close>

section \<open>Data\<close>

definition KERNEL_HH_START :: u64 where "KERNEL_HH_START = 0xffffffff80000000"
definition PTADDRMASK :: u64 where "PTADDRMASK = 0xFFFFFFFFFFFFF000"

definition PAGE_PRESENT :: u64 where "PAGE_PRESENT = push_bit 0 1"
definition PAGE_WRITE :: u64 where "PAGE_WRITE = push_bit 1 1"
definition PAGE_USER :: u64 where "PAGE_USER = push_bit 2 1"
definition PAGE_CACHEDISABLE :: u64 where "PAGE_CACHEDISABLE = push_bit 4 1"
definition PAGE_HUGE :: u64 where "PAGE_HUGE = push_bit 7 1"

definition KERNEL_PML4T_PHYS :: "u64 \<Rightarrow> u64" where
  "KERNEL_PML4T_PHYS va = va AND NOT KERNEL_HH_START"

datatype PAGE_ALLOC_TYPE =
    ALLOC_TYPE_KERNEL_BINARY | ALLOC_TYPE_KERNEL_HEAP | ALLOC_TYPE_KERNEL_HEAP2 | ALLOC_TYPE_DM_IO
  | ALLOC_TYPE_USER_BINARY | ALLOC_TYPE_USER_HEAP | ALLOC_TYPE_TEMPORARY

fun alloc_type_int :: "PAGE_ALLOC_TYPE \<Rightarrow> nat" where
  "alloc_type_int ALLOC_TYPE_KERNEL_BINARY = 0"
| "alloc_type_int ALLOC_TYPE_KERNEL_HEAP = 1"
| "alloc_type_int ALLOC_TYPE_KERNEL_HEAP2 = 2"
| "alloc_type_int ALLOC_TYPE_DM_IO = 3"
| "alloc_type_int ALLOC_TYPE_USER_BINARY = 4"
| "alloc_type_int ALLOC_TYPE_USER_HEAP = 5"
| "alloc_type_int ALLOC_TYPE_TEMPORARY = 6"

record paging = pmm +
  qmem :: "u64 \<Rightarrow> u64"

definition pml4t_index :: "u64 \<Rightarrow> nat" where "pml4t_index va = unat (drop_bit 39 va AND 0x1FF)"
definition pdpt_index :: "u64 \<Rightarrow> nat" where "pdpt_index va = unat (drop_bit 30 va AND 0x1FF)"
definition pdt_index :: "u64 \<Rightarrow> nat" where "pdt_index va = unat (drop_bit 21 va AND 0x1FF)"
definition pt_index :: "u64 \<Rightarrow> nat" where "pt_index va = unat (drop_bit 12 va AND 0x1FF)"

text \<open>\<open>entry b i\<close> is \<open>&b[i]\<close> for a table of 64-bit entries, \<open>row b k\<close> is \<open>&b[k]\<close> for an array of tables.\<close>

definition entry :: "u64 \<Rightarrow> nat \<Rightarrow> u64" where "entry b i = b + 8 * of_nat i"
definition row :: "u64 \<Rightarrow> nat \<Rightarrow> u64" where "row b k = b + 4096 * of_nat k"

definition set_qword :: "u64 \<Rightarrow> u64 \<Rightarrow> 'a paging_scheme \<Rightarrow> 'a paging_scheme" where
  "set_qword a v s = s\<lparr>qmem := (qmem s)(a := v)\<rparr>"

section \<open>Operations\<close>

definition map_kernel_page :: "u64 \<Rightarrow> u64 \<Rightarrow> PAGE_ALLOC_TYPE \<Rightarrow> 'a paging_scheme \<Rightarrow> fault + bool \<times> 'a paging_scheme" where
  "map_kernel_page va pa type s =
     (let L = link s;
          page_flags = PAGE_PRESENT OR PAGE_WRITE OR PAGE_HUGE;
          page_flags = (if type = ALLOC_TYPE_DM_IO then page_flags OR PAGE_CACHEDISABLE else page_flags);
          pdpt_addr = pdpt_va L AND NOT KERNEL_HH_START;
          pdt_addr = row (pdt_kernel_va L) (alloc_type_int type) AND NOT KERNEL_HH_START;
          s1 = set_qword (entry (pml4t_va L) (pml4t_index va)) (pdpt_addr OR (PAGE_PRESENT OR PAGE_WRITE)) s;
          s2 = set_qword (entry (pdpt_va L) (pdpt_index va)) (pdt_addr OR (PAGE_PRESENT OR PAGE_WRITE)) s1;
          s3 = set_qword (entry (row (pdt_kernel_va L) (alloc_type_int type)) (pdt_index va)) (pa OR page_flags) s2
      in Inr (True, s3))"

definition map_4kb_page_kernel :: "u64 \<Rightarrow> u64 \<Rightarrow> PAGE_ALLOC_TYPE \<Rightarrow> 'a paging_scheme \<Rightarrow> fault + unit \<times> 'a paging_scheme" where
  "map_4kb_page_kernel virtual_address physical_address type s =
     (let L = link s;
          fl = PAGE_PRESENT OR PAGE_WRITE;
          pdpt_addr = pdpt_va L AND NOT KERNEL_HH_START;
          pdt = row (pdt_kernel_va L) (alloc_type_int type);
          pt = row (pt_kernel_va L) (pdt_index virtual_address);
          s1 = set_qword (entry (pml4t_va L) (pml4t_index virtual_address)) (pdpt_addr OR fl) s;
          s2 = set_qword (entry (pdpt_va L) (pdpt_index virtual_address)) ((pdt AND NOT KERNEL_HH_START) OR fl) s1;
          s3 = set_qword (entry pdt (pdt_index virtual_address)) ((pt AND NOT KERNEL_HH_START) OR fl) s2;
          s4 = set_qword (entry pt (pt_index virtual_address)) (physical_address OR fl) s3
      in Inr ((), s4))"

definition map_4kb_page_smp :: "u64 \<Rightarrow> u64 \<Rightarrow> u32 \<Rightarrow> 'a paging_scheme \<Rightarrow> fault + unit \<times> 'a paging_scheme" where
  "map_4kb_page_smp virtual_address physical_address fl s =
     (let L = link s;
          pdpt_addr = pdpt_va L AND NOT KERNEL_HH_START;
          pdt_addr = smp_pdt_va L AND NOT KERNEL_HH_START;
          pt_addr = smp_pt_va L AND NOT KERNEL_HH_START;
          s1 = set_qword (entry (pml4t_va L) (pml4t_index virtual_address)) (pdpt_addr OR ucast fl) s;
          s2 = set_qword (entry (pdpt_va L) (pdpt_index virtual_address)) (pdt_addr OR ucast fl) s1;
          s3 = set_qword (entry (smp_pdt_va L) (pdt_index virtual_address)) (pt_addr OR ucast fl) s2;
          s4 = set_qword (entry (smp_pt_va L) (pt_index virtual_address)) (physical_address OR ucast fl) s3
      in Inr ((), s4))"

definition is_frame_mapped_kernel :: "u64 \<Rightarrow> u64 \<Rightarrow> 'a paging_scheme \<Rightarrow> fault + bool \<times> 'a paging_scheme" where
  "is_frame_mapped_kernel virtual_address pml4t_addr s =
     (if qmem s (entry pml4t_addr (pml4t_index virtual_address)) AND PTADDRMASK = 0 then Inr (False, s)
      else let pdt0 = qmem s (entry (pdpt_va (link s)) (pdpt_index virtual_address)) AND PTADDRMASK in
        if pdt0 = 0 then Inr (False, s)
        else let pdt = pdt0 + KERNEL_HH_START; e = qmem s (entry pdt (pdt_index virtual_address)) in
          if e = 0 then Inr (False, s)
          else if e AND PAGE_HUGE \<noteq> 0 then Inr (True, s)
          else Inr (e AND PTADDRMASK \<noteq> 0, s))"

text \<open>The two results that the code stores through \<open>frame_addr\<close> and \<open>frame_offset\<close> are returned as a pair.\<close>

definition virtual_to_physical :: "u64 \<Rightarrow> u64 \<Rightarrow> 'a paging_scheme \<Rightarrow> fault + (u64 \<times> u64) \<times> 'a paging_scheme" where
  "virtual_to_physical virtual_address pml4t_addr s =
     (let pdpt = (qmem s (entry pml4t_addr (pml4t_index virtual_address)) AND PTADDRMASK) + KERNEL_HH_START in
      if pdpt = 0 then Inr ((UINT64_MAX, UINT64_MAX), s)
      else let pdt = (qmem s (entry pdpt (pdpt_index virtual_address)) AND PTADDRMASK) + KERNEL_HH_START in
      if pdt = 0 then Inr ((UINT64_MAX, UINT64_MAX), s)
      else let e = qmem s (entry pdt (pdt_index virtual_address)) in
      if e = 0 then Inr ((UINT64_MAX, UINT64_MAX), s)
      else if e AND PAGE_HUGE \<noteq> 0 then Inr ((e AND PTADDRMASK, virtual_address AND 0x1FFFFF), s)
      else let pt = (e AND PTADDRMASK) + KERNEL_HH_START in
      if pt = 0 then Inr ((UINT64_MAX, UINT64_MAX), s)
      else Inr ((qmem s (entry pt (pt_index virtual_address)) AND PTADDRMASK, virtual_address AND 0xFFF), s))"

definition unmap_4kb_page_kernel :: "u64 \<Rightarrow> 'a paging_scheme \<Rightarrow> fault + unit \<times> 'a paging_scheme" where
  "unmap_4kb_page_kernel virtual_address s =
     Inr ((), set_qword (entry (row (pt_kernel_va (link s)) (pdt_index virtual_address)) (pt_index virtual_address)) 0 s)"

text \<open>The loop of \<open>kheap_init\<close> maps 1024 huge pages. \<open>va_start\<close> is \<open>KERNEL_HH_START - (uint32_t)(2*HUGEPGSIZE*512)\<close>;
  the product overflows \<open>int\<close> and its low 32 bits are \<open>2 ^ 31\<close>.\<close>

function kheap_map_loop :: "nat \<Rightarrow> 'a paging_scheme \<Rightarrow> fault + unit \<times> 'a paging_scheme" where
  "kheap_map_loop i s =
     (if i < 1024
      then bnd (is_frame_mapped_kernel (HUGEPGROUNDDOWN (heap_va_start s + of_nat i * HUGEPGSIZE + 1)) (pml4t_va (link s))) (\<lambda>mapped.
        if mapped then raise (Panic ''kheap_init() --> heap frame already mapped.'')
        else bnd physical_frame_request (\<lambda>free_frame.
        if free_frame = UINT64_MAX
        then raise (Panic ''kheap_init() --> could not find free frame for kernel heap initialization.'')
        else bnd (map_kernel_page (HUGEPGROUNDDOWN (heap_va_start s + of_nat i * HUGEPGSIZE)) free_frame
               (if i \<ge> 512 then ALLOC_TYPE_KERNEL_HEAP2 else ALLOC_TYPE_KERNEL_HEAP)) (\<lambda>_.
             kheap_map_loop (i + 1)))) s
      else Inr ((), s))"
  by pat_completeness auto
termination by (relation "measure (\<lambda>(i, s). 1024 - i)") auto

declare kheap_map_loop.simps [simp del]

definition kheap_init :: "'a paging_scheme \<Rightarrow> fault + unit \<times> 'a paging_scheme" where
  "kheap_init =
     seqn (upd (\<lambda>s. s\<lparr>heap_va_start := KERNEL_HH_START - 0x80000000\<rparr>))
    (seqn (kheap_map_loop 0)
          (upd (kernel_heap_tree_init 0 0x80000000 0)))"

section \<open>Addresses of table entries\<close>

lemma index_bounds: "pml4t_index va < 512" "pdpt_index va < 512" "pdt_index va < 512" "pt_index va < 512"
proof -
  have "unat (w AND 0x1FF) < 512" for w :: u64
  proof -
    have "w AND 0x1FF = take_bit 9 w" by (simp add: take_bit_eq_mask mask_eq_decr_exp)
    then show ?thesis by (simp add: unsigned_take_bit_eq take_bit_nat_def)
  qed
  then show "pml4t_index va < 512" "pdpt_index va < 512" "pdt_index va < 512" "pt_index va < 512"
    by (simp_all add: pml4t_index_def pdpt_index_def pdt_index_def pt_index_def)
qed

definition table_ok :: "u64 \<Rightarrow> bool" where
  "table_ok b \<longleftrightarrow> take_bit 12 b = 0 \<and> KERNEL_HH_START < b"

lemma table_page:
  assumes "table_ok b"
  obtains q where "unat b = 4096 * q" "q < 2 ^ 52"
proof -
  have "unat (take_bit 12 b) = 0" using assms by (simp add: table_ok_def)
  then have "unat b mod 4096 = 0" by (simp add: unsigned_take_bit_eq take_bit_nat_def)
  then have q: "unat b = 4096 * (unat b div 4096)" by auto
  moreover have "unat b < 2 ^ 64" using unsigned_less [of b] by simp
  ultimately have "unat b div 4096 < 2 ^ 52" by (simp add: div_less_iff_less_mult)
  with q show ?thesis by (rule that)
qed

lemma unat_entry:
  assumes "table_ok b" "i < 512" "unat b = 4096 * q" "q < 2 ^ 52"
  shows "unat (entry b i) = 4096 * q + 8 * i"
proof -
  have "unat (8 * of_nat i :: u64) = 8 * i"
    using assms(2) by (subst unat_mult_nowrap) (simp_all add: unat_of_nat)
  then show ?thesis
    using assms unfolding entry_def by (subst unat_plus_nowrap) simp_all
qed

lemma entry_eq_iff:
  assumes "table_ok b" "table_ok c" "i < 512" "j < 512"
  shows "entry b i = entry c j \<longleftrightarrow> b = c \<and> i = j"
proof
  assume e: "entry b i = entry c j"
  obtain q where q: "unat b = 4096 * q" "q < 2 ^ 52" by (rule table_page [OF assms(1)])
  obtain r where r: "unat c = 4096 * r" "r < 2 ^ 52" by (rule table_page [OF assms(2)])
  have e': "4096 * q + 8 * i = 4096 * r + 8 * j"
    using unat_entry [OF assms(1,3) q] unat_entry [OF assms(2,4) r] e by simp
  have "(4096 * q + 8 * i) div 4096 = q" "(4096 * r + 8 * j) div 4096 = r"
    using assms(3,4) by simp_all
  with e' have "q = r" by simp
  with e' q r show "b = c \<and> i = j" by (simp add: word_unat_eq_iff)
qed simp

lemma HH_mask: "KERNEL_HH_START = NOT (mask 31)"
  by (simp add: KERNEL_HH_START_def mask_eq_decr_exp)

lemma PT_mask: "PTADDRMASK = NOT (mask 12)"
  by (simp add: PTADDRMASK_def mask_eq_decr_exp)

lemma unat_drop_bit: "unat (drop_bit k w) = unat w div 2 ^ k" for w :: u64
proof -
  have "unat w < 2 ^ 64" using unsigned_less [of w] by simp
  then show ?thesis by (simp add: unsigned_drop_bit_eq drop_bit_nat_def take_bit_nat_def)
qed

lemma table_ok_high: "table_ok b \<Longrightarrow> b AND KERNEL_HH_START = KERNEL_HH_START"
proof -
  assume "table_ok b"
  then have "unat KERNEL_HH_START \<le> unat b" by (simp add: table_ok_def word_less_nat_alt)
  then have "2 ^ 33 - 1 \<le> unat b div 2 ^ 31"
    by (simp add: KERNEL_HH_START_def less_eq_div_iff_mult_less_eq)
  moreover have "unat b < 2 ^ 64" using unsigned_less [of b] by simp
  then have "unat b div 2 ^ 31 < 2 ^ 33" by (simp add: div_less_iff_less_mult)
  ultimately have "unat (drop_bit 31 b) = 2 ^ 33 - 1" unfolding unat_drop_bit by linarith
  then have "drop_bit 31 b = 0x1FFFFFFFF" by (simp add: word_unat_eq_iff)
  then have "push_bit 31 (drop_bit 31 b) = KERNEL_HH_START" by (simp add: KERNEL_HH_START_def)
  moreover have "b AND NOT (mask 31) = push_bit 31 (drop_bit 31 b)"
    by (rule bit_word_eqI) (auto simp: bit_simps)
  ultimately show ?thesis by (simp add: HH_mask)
qed

lemma take_bit_0_bits: "take_bit m w = 0 \<Longrightarrow> n < m \<Longrightarrow> \<not> bit w n" for w :: u64
  by (metis bit_0_eq bit_take_bit_iff bot_apply bot_bool_def)

lemma drop_bit_0_bits: "drop_bit m w = 0 \<Longrightarrow> m \<le> n \<Longrightarrow> \<not> bit w n" for w :: u64
proof
  assume w: "drop_bit m w = 0" "m \<le> n" "bit w n"
  from w(2,3) have "bit (drop_bit m w) (n - m)" by (simp add: bit_drop_bit_eq)
  with w(1) show False by simp
qed

lemma frame_of_entry:
  assumes "take_bit 12 pa = 0" "drop_bit 12 fl = 0"
  shows "(pa OR fl) AND PTADDRMASK = pa"
  unfolding PT_mask
proof (rule bit_word_eqI)
  fix n
  show "bit ((pa OR fl) AND NOT (mask 12)) n = bit pa n" if "n < LENGTH(64)"
    using that take_bit_0_bits [OF assms(1), of n] drop_bit_0_bits [OF assms(2), of n]
    by (cases "n < 12") (auto simp: bit_simps)
qed

text \<open>Following an entry that points to a table in the kernel image leads to that table.\<close>

lemma follow_entry:
  assumes "table_ok b" "drop_bit 12 fl = 0"
  shows "(((b AND NOT KERNEL_HH_START) OR fl) AND PTADDRMASK) + KERNEL_HH_START = b"
proof -
  have "take_bit 12 (b AND NOT KERNEL_HH_START) = 0" using assms(1) by (simp add: table_ok_def)
  then have "((b AND NOT KERNEL_HH_START) OR fl) AND PTADDRMASK = b AND NOT KERNEL_HH_START"
    using assms(2) by (rule frame_of_entry)
  moreover have "(b AND NOT KERNEL_HH_START) AND KERNEL_HH_START = 0" by (simp add: and.assoc)
  then have "(b AND NOT KERNEL_HH_START) + KERNEL_HH_START = (b AND NOT KERNEL_HH_START) OR KERNEL_HH_START"
    by (rule disjunctive_add_eq_or)
  moreover have "(b AND NOT KERNEL_HH_START) OR (b AND KERNEL_HH_START) = b"
    by (rule bit_word_eqI) (auto simp: bit_simps)
  ultimately show ?thesis using table_ok_high [OF assms(1)] by simp
qed

section \<open>Walking the tables\<close>

definition layout_ok :: "linkmap \<Rightarrow> bool" where
  "layout_ok L \<longleftrightarrow> table_ok (pml4t_va L) \<and> table_ok (pdpt_va L) \<and> pml4t_va L \<noteq> pdpt_va L
     \<and> table_ok (smp_pdt_va L) \<and> table_ok (smp_pt_va L) \<and> distinct [pml4t_va L, pdpt_va L, smp_pdt_va L, smp_pt_va L]
     \<and> (\<forall>k < 512. table_ok (row (pdt_kernel_va L) k) \<and> row (pdt_kernel_va L) k \<noteq> pml4t_va L \<and> row (pdt_kernel_va L) k \<noteq> pdpt_va L)
     \<and> (\<forall>k < 512. table_ok (row (pt_kernel_va L) k) \<and> row (pt_kernel_va L) k \<noteq> pml4t_va L \<and> row (pt_kernel_va L) k \<noteq> pdpt_va L)
     \<and> (\<forall>j < 512. \<forall>k < 512. row (pt_kernel_va L) j \<noteq> row (pdt_kernel_va L) k)
     \<and> (\<forall>j < 512. \<forall>k < 512. row (pdt_kernel_va L) j = row (pdt_kernel_va L) k \<longrightarrow> j = k)"

definition points_to :: "(u64 \<Rightarrow> u64) \<Rightarrow> u64 \<Rightarrow> u64 \<Rightarrow> bool" where
  "points_to m a b \<longleftrightarrow> table_ok b \<and> (m a AND PTADDRMASK) + KERNEL_HH_START = b \<and> m a AND PTADDRMASK \<noteq> 0 \<and> m a AND PAGE_HUGE = 0"

lemma table_ok_nonzero: "table_ok b \<Longrightarrow> b \<noteq> 0"
  by (auto simp: table_ok_def KERNEL_HH_START_def)

lemma flag_words:
  "drop_bit 12 (PAGE_PRESENT OR PAGE_WRITE) = 0" "drop_bit 12 (PAGE_PRESENT OR PAGE_WRITE OR PAGE_HUGE) = 0"
  "drop_bit 12 (PAGE_PRESENT OR PAGE_WRITE OR PAGE_HUGE OR PAGE_CACHEDISABLE) = 0"
  "(PAGE_PRESENT OR PAGE_WRITE) AND PAGE_HUGE = 0"
  by (simp_all add: PAGE_PRESENT_def PAGE_WRITE_def PAGE_HUGE_def PAGE_CACHEDISABLE_def)

lemma huge_test: "w AND PAGE_HUGE = 0 \<longleftrightarrow> \<not> bit w 7"
  unfolding PAGE_HUGE_def by (rule and_push_bit_1_eq_0_iff) simp

lemma points_toI:
  assumes "table_ok b" "m a = (b AND NOT KERNEL_HH_START) OR (PAGE_PRESENT OR PAGE_WRITE)"
  shows "points_to m a b"
proof -
  have f: "(m a AND PTADDRMASK) + KERNEL_HH_START = b"
    unfolding assms(2) using follow_entry [OF assms(1) flag_words(1)] .
  moreover from this assms(1) have "m a AND PTADDRMASK \<noteq> 0" by (auto simp: table_ok_def)
  moreover have "\<not> bit (m a) 7"
    using take_bit_0_bits [of 12 b 7] assms(1) flag_words(4) [unfolded huge_test]
    by (simp add: assms(2) bit_simps table_ok_def)
  ultimately show ?thesis using assms(1) by (simp add: points_to_def huge_test)
qed

lemma translate_huge:
  assumes "points_to (qmem s) (entry P (pml4t_index va)) (pdpt_va (link s))"
    "points_to (qmem s) (entry (pdpt_va (link s)) (pdpt_index va)) pdt"
    and e: "qmem s (entry pdt (pdt_index va)) = pa OR fl" "take_bit 12 pa = 0" "drop_bit 12 fl = 0" "bit fl 7"
  shows "virtual_to_physical va P s = Inr ((pa, va AND 0x1FFFFF), s)"
    and "is_frame_mapped_kernel va P s = Inr (True, s)"
proof -
  have h: "bit (pa OR fl) 7" using e(4) by (simp add: bit_simps)
  then have n0: "pa OR fl \<noteq> 0" by (metis bit_0_eq bot_apply bot_bool_def)
  from assms(1,2) h n0 frame_of_entry [OF e(2,3)]
  show "virtual_to_physical va P s = Inr ((pa, va AND 0x1FFFFF), s)"
    by (simp add: virtual_to_physical_def Let_def points_to_def e(1) huge_test table_ok_nonzero)
  from assms(1,2) h n0
  show "is_frame_mapped_kernel va P s = Inr (True, s)"
    by (simp add: is_frame_mapped_kernel_def Let_def points_to_def e(1) huge_test)
qed

lemma translate_4kb:
  assumes "points_to (qmem s) (entry P (pml4t_index va)) (pdpt_va (link s))"
    "points_to (qmem s) (entry (pdpt_va (link s)) (pdpt_index va)) pdt"
    "points_to (qmem s) (entry pdt (pdt_index va)) pt"
  shows "virtual_to_physical va P s = Inr ((qmem s (entry pt (pt_index va)) AND PTADDRMASK, va AND 0xFFF), s)"
    and "is_frame_mapped_kernel va P s = Inr (True, s)"
proof -
  have n0: "qmem s (entry pdt (pdt_index va)) \<noteq> 0" using assms(3) by (auto simp: points_to_def)
  from assms n0
  show "virtual_to_physical va P s = Inr ((qmem s (entry pt (pt_index va)) AND PTADDRMASK, va AND 0xFFF), s)"
    by (simp add: virtual_to_physical_def Let_def points_to_def table_ok_nonzero)
  from assms n0
  show "is_frame_mapped_kernel va P s = Inr (True, s)"
    by (simp add: is_frame_mapped_kernel_def Let_def points_to_def)
qed

lemma alloc_type_int_less: "alloc_type_int ty < 512"
  by (cases ty) simp_all

lemma alloc_type_int_inj: "alloc_type_int a = alloc_type_int b \<longleftrightarrow> a = b"
  by (cases a; cases b) simp_all

lemma layout_tables:
  assumes "layout_ok L"
  shows "table_ok (pml4t_va L)" "table_ok (pdpt_va L)" "pml4t_va L \<noteq> pdpt_va L"
    "table_ok (row (pdt_kernel_va L) (alloc_type_int ty))" "row (pdt_kernel_va L) (alloc_type_int ty) \<noteq> pml4t_va L"
    "row (pdt_kernel_va L) (alloc_type_int ty) \<noteq> pdpt_va L"
    "k < 512 \<Longrightarrow> table_ok (row (pt_kernel_va L) k)" "k < 512 \<Longrightarrow> row (pt_kernel_va L) k \<noteq> pml4t_va L"
    "k < 512 \<Longrightarrow> row (pt_kernel_va L) k \<noteq> pdpt_va L"
    "k < 512 \<Longrightarrow> row (pt_kernel_va L) k \<noteq> row (pdt_kernel_va L) (alloc_type_int ty)"
    "row (pdt_kernel_va L) (alloc_type_int ty) = row (pdt_kernel_va L) (alloc_type_int ty') \<longleftrightarrow> ty = ty'"
  using assms alloc_type_int_less [of ty] alloc_type_int_less [of ty'] alloc_type_int_inj [of ty ty']
  unfolding layout_ok_def by auto

definition page_flags_of :: "PAGE_ALLOC_TYPE \<Rightarrow> u64" where
  "page_flags_of ty = (if ty = ALLOC_TYPE_DM_IO then PAGE_PRESENT OR PAGE_WRITE OR PAGE_HUGE OR PAGE_CACHEDISABLE
     else PAGE_PRESENT OR PAGE_WRITE OR PAGE_HUGE)"

lemma page_flags_bits: "drop_bit 12 (page_flags_of ty) = 0" "bit (page_flags_of ty) 7"
proof -
  show "drop_bit 12 (page_flags_of ty) = 0"
    using flag_words(2,3) by (simp add: page_flags_of_def)
  show "bit (page_flags_of ty) 7"
    by (simp add: page_flags_of_def bit_simps PAGE_HUGE_def PAGE_PRESENT_def PAGE_WRITE_def del: push_bit_of_1)
qed

text \<open>What a walk of the kernel tables sees after \<open>map_kernel_page\<close>.\<close>

lemma map_kernel_page_cells:
  assumes lay: "layout_ok (link s)" and m: "map_kernel_page va pa ty s = Inr (r, t)"
  defines "P \<equiv> pml4t_va (link s)" and "Q \<equiv> pdpt_va (link s)" and "R \<equiv> row (pdt_kernel_va (link s)) (alloc_type_int ty)"
  shows "r = True" "link t = link s"
    "points_to (qmem t) (entry P (pml4t_index va)) Q" "points_to (qmem t) (entry Q (pdpt_index va)) R"
    "qmem t (entry R (pdt_index va)) = pa OR page_flags_of ty"
    "\<And>b i. table_ok b \<Longrightarrow> i < 512 \<Longrightarrow> (b, i) \<notin> {(P, pml4t_index va), (Q, pdpt_index va), (R, pdt_index va)} \<Longrightarrow>
        qmem t (entry b i) = qmem s (entry b i)"
proof -
  note L = layout_tables [OF lay]
  from m show "r = True" "link t = link s"
    by (auto simp: map_kernel_page_def Let_def set_qword_def)
  have q: "qmem t = (qmem s)(entry P (pml4t_index va) := (Q AND NOT KERNEL_HH_START) OR (PAGE_PRESENT OR PAGE_WRITE),
      entry Q (pdpt_index va) := (R AND NOT KERNEL_HH_START) OR (PAGE_PRESENT OR PAGE_WRITE),
      entry R (pdt_index va) := pa OR page_flags_of ty)"
    using m by (auto simp: map_kernel_page_def Let_def set_qword_def P_def Q_def R_def page_flags_of_def or.assoc)
  have ok: "table_ok P" "table_ok Q" "table_ok R" "P \<noteq> Q" "R \<noteq> P" "R \<noteq> Q"
    using L by (simp_all add: P_def Q_def R_def)
  note eq = entry_eq_iff [OF _ _ _ _] index_bounds
  show "points_to (qmem t) (entry P (pml4t_index va)) Q"
    by (rule points_toI) (use ok in \<open>simp_all add: q entry_eq_iff index_bounds\<close>)
  show "points_to (qmem t) (entry Q (pdpt_index va)) R"
    by (rule points_toI) (use ok in \<open>simp_all add: q entry_eq_iff index_bounds\<close>)
  show "qmem t (entry R (pdt_index va)) = pa OR page_flags_of ty" by (simp add: q)
  show "qmem t (entry b i) = qmem s (entry b i)"
    if "table_ok b" "i < 512" "(b, i) \<notin> {(P, pml4t_index va), (Q, pdpt_index va), (R, pdt_index va)}" for b i
    using that ok by (auto simp: q entry_eq_iff index_bounds)
qed

lemma map_4kb_page_kernel_cells:
  assumes lay: "layout_ok (link s)" and m: "map_4kb_page_kernel va pa ty s = Inr (r, t)"
  defines "P \<equiv> pml4t_va (link s)" and "Q \<equiv> pdpt_va (link s)" and "R \<equiv> row (pdt_kernel_va (link s)) (alloc_type_int ty)"
    and "T \<equiv> row (pt_kernel_va (link s)) (pdt_index va)"
  shows "link t = link s"
    "points_to (qmem t) (entry P (pml4t_index va)) Q" "points_to (qmem t) (entry Q (pdpt_index va)) R"
    "points_to (qmem t) (entry R (pdt_index va)) T"
    "qmem t (entry T (pt_index va)) = pa OR (PAGE_PRESENT OR PAGE_WRITE)"
proof -
  note L = layout_tables [OF lay]
  from m show "link t = link s" by (auto simp: map_4kb_page_kernel_def Let_def set_qword_def)
  have q: "qmem t = (qmem s)(entry P (pml4t_index va) := (Q AND NOT KERNEL_HH_START) OR (PAGE_PRESENT OR PAGE_WRITE),
      entry Q (pdpt_index va) := (R AND NOT KERNEL_HH_START) OR (PAGE_PRESENT OR PAGE_WRITE),
      entry R (pdt_index va) := (T AND NOT KERNEL_HH_START) OR (PAGE_PRESENT OR PAGE_WRITE),
      entry T (pt_index va) := pa OR (PAGE_PRESENT OR PAGE_WRITE))"
    using m by (auto simp: map_4kb_page_kernel_def Let_def set_qword_def P_def Q_def R_def T_def)
  have ok: "table_ok P" "table_ok Q" "table_ok R" "table_ok T" "P \<noteq> Q" "R \<noteq> P" "R \<noteq> Q" "T \<noteq> P" "T \<noteq> Q" "T \<noteq> R"
    using L index_bounds by (simp_all add: P_def Q_def R_def T_def)
  show "points_to (qmem t) (entry P (pml4t_index va)) Q"
    by (rule points_toI) (use ok in \<open>simp_all add: q entry_eq_iff index_bounds\<close>)
  show "points_to (qmem t) (entry Q (pdpt_index va)) R"
    by (rule points_toI) (use ok in \<open>simp_all add: q entry_eq_iff index_bounds\<close>)
  show "points_to (qmem t) (entry R (pdt_index va)) T"
    by (rule points_toI) (use ok in \<open>simp_all add: q entry_eq_iff index_bounds\<close>)
  show "qmem t (entry T (pt_index va)) = pa OR (PAGE_PRESENT OR PAGE_WRITE)" by (simp add: q)
qed

lemma index_nat:
  "pml4t_index va = unat va div 2 ^ 39 mod 512" "pdpt_index va = unat va div 2 ^ 30 mod 512"
  "pdt_index va = unat va div 2 ^ 21 mod 512" "pt_index va = unat va div 2 ^ 12 mod 512"
proof -
  have "unat (drop_bit k w AND 0x1FF) = unat w div 2 ^ k mod 512" for k and w :: u64
  proof -
    have "drop_bit k w AND 0x1FF = take_bit 9 (drop_bit k w)" by (simp add: take_bit_eq_mask mask_eq_decr_exp)
    then show ?thesis by (simp add: unsigned_take_bit_eq take_bit_nat_def unat_drop_bit)
  qed
  then show "pml4t_index va = unat va div 2 ^ 39 mod 512" "pdpt_index va = unat va div 2 ^ 30 mod 512"
    "pdt_index va = unat va div 2 ^ 21 mod 512" "pt_index va = unat va div 2 ^ 12 mod 512"
    unfolding pml4t_index_def pdpt_index_def pdt_index_def pt_index_def by blast+
qed

section \<open>Mapping the kernel heap\<close>

definition heap_page :: "nat \<Rightarrow> u64" where
  "heap_page i = KERNEL_HEAP_START + of_nat i * HUGEPGSIZE"

definition heap_type :: "nat \<Rightarrow> PAGE_ALLOC_TYPE" where
  "heap_type i = (if i \<ge> 512 then ALLOC_TYPE_KERNEL_HEAP2 else ALLOC_TYPE_KERNEL_HEAP)"

lemma unat_heap_page: "i < 1024 \<Longrightarrow> unat (heap_page i) = 0xffffffff00000000 + i * 0x200000"
proof -
  assume i: "i < 1024"
  then have "unat (of_nat i * HUGEPGSIZE) = i * 0x200000"
    unfolding HUGEPGSIZE_def by (subst unat_mult_nowrap) (simp_all add: unat_of_nat)
  then show ?thesis unfolding heap_page_def KERNEL_HEAP_START_def
    using i by (subst unat_plus_nowrap) simp_all
qed

lemma heap_page_index:
  assumes "i < 1024"
  shows "pml4t_index (heap_page i) = 511" "pdpt_index (heap_page i) = 508 + i div 512" "pdt_index (heap_page i) = i mod 512"
proof -
  note u = unat_heap_page [OF assms]
  have e: "unat (heap_page i) = 0x200000 * (0x7fffffff800 + i)" using u by simp
  have "unat (heap_page i) div 2 ^ 21 = 0x7fffffff800 + i" unfolding e by simp
  moreover have "unat (heap_page i) div 2 ^ 30 = (unat (heap_page i) div 2 ^ 21) div 512"
    by (simp add: div_mult2_eq [symmetric])
  moreover have "unat (heap_page i) div 2 ^ 39 = (unat (heap_page i) div 2 ^ 30) div 512"
    by (simp add: div_mult2_eq [symmetric])
  moreover have "(0x7fffffff800 + i) div 512 = 0x3fffffffc + i div 512" by simp
  moreover have "(0x3fffffffc + i div 512) div 512 = 0x1ffffff" using assms by linarith
  ultimately have n: "unat (heap_page i) div 2 ^ 21 = 0x7fffffff800 + i" "unat (heap_page i) div 2 ^ 30 = 0x3fffffffc + i div 512"
    "unat (heap_page i) div 2 ^ 39 = 0x1ffffff" by metis+
  show "pml4t_index (heap_page i) = 511" unfolding index_nat n by simp
  have "0x7fffffff800 + i = i + 512 * 0x3fffffffc" by simp
  then show "pdt_index (heap_page i) = i mod 512" unfolding index_nat n by (simp only: mod_mult_self2)
  have "i div 512 = 0 \<or> i div 512 = 1" using assms by linarith
  then show "pdpt_index (heap_page i) = 508 + i div 512" unfolding index_nat n by (elim disjE) simp_all
qed

lemma heap_page_round:
  assumes "i < 1024"
  shows "HUGEPGROUNDDOWN (heap_page i + 1) = heap_page i" "HUGEPGROUNDDOWN (heap_page i) = heap_page i"
    "heap_page i AND 0x1FFFFF = 0"
proof -
  note u = unat_heap_page [OF assms]
  have e: "unat (heap_page i) = 0x200000 * (0x7fffffff800 + i)" using u by simp
  then have m: "unat (heap_page i) mod 0x200000 = 0" by (simp only: mod_mult_self1_is_0)
  then have z: "heap_page i mod 0x200000 = 0" by (simp add: word_unat_eq_iff unat_mod)
  then show "HUGEPGROUNDDOWN (heap_page i) = heap_page i" by (simp add: HUGEPGROUNDDOWN_def HUGEPGSIZE_def)
  have p: "unat (heap_page i + 1) = unat (heap_page i) + 1" using u assms by (subst unat_plus_nowrap) simp_all
  have "(1 + 0x200000 * (0x7fffffff800 + i)) mod 0x200000 = 1 mod 0x200000" by (simp only: mod_mult_self2)
  then have "(unat (heap_page i) + 1) mod 0x200000 = 1" unfolding e by (simp only: add.commute mod_less one_less_numeral_iff rel_simps)
  then have "(heap_page i + 1) mod 0x200000 = 1" by (simp add: word_unat_eq_iff unat_mod p)
  then show "HUGEPGROUNDDOWN (heap_page i + 1) = heap_page i" by (simp add: HUGEPGROUNDDOWN_def HUGEPGSIZE_def)
  have "heap_page i AND 0x1FFFFF = take_bit 21 (heap_page i)" by (simp add: take_bit_eq_mask mask_eq_decr_exp)
  also have "\<dots> = 0" using m by (simp add: word_unat_eq_iff unsigned_take_bit_eq take_bit_nat_def)
  finally show "heap_page i AND 0x1FFFFF = 0" .
qed

text \<open>
  The state of the loop before iteration \<open>i\<close>: the first \<open>i\<close> pages of the heap have their own frames
  (\<open>f j\<close> is the number of the frame of page \<open>j\<close>) and nothing is mapped at the others.
\<close>

definition heap_dir :: "linkmap \<Rightarrow> nat \<Rightarrow> u64" where
  "heap_dir L i = row (pdt_kernel_va L) (alloc_type_int (heap_type i))"

definition heap_mapped :: "nat \<Rightarrow> (nat \<Rightarrow> nat) \<Rightarrow> 'a paging_scheme \<Rightarrow> bool" where
  "heap_mapped i f s \<longleftrightarrow>
     (0 < i \<longrightarrow> points_to (qmem s) (entry (pml4t_va (link s)) 511) (pdpt_va (link s)))
   \<and> (\<forall>j < 1024. if j < i
        then points_to (qmem s) (entry (pdpt_va (link s)) (508 + j div 512)) (heap_dir (link s) j)
          \<and> qmem s (entry (heap_dir (link s) j) (j mod 512)) = frame_addr (f j) OR page_flags_of (heap_type j)
          \<and> 512 \<le> f j \<and> f j < 32768 \<and> f j \<notin> free_frames s
        else qmem s (entry (heap_dir (link s) j) (j mod 512)) = 0)
   \<and> (i = 0 \<longrightarrow> qmem s (entry (pdpt_va (link s)) 508) = 0) \<and> (i \<le> 512 \<longrightarrow> qmem s (entry (pdpt_va (link s)) 509) = 0)
   \<and> inj_on f {..< i}"

lemma heap_mappedD:
  assumes "heap_mapped i f s" "j < 1024"
  shows "j < i \<Longrightarrow> points_to (qmem s) (entry (pdpt_va (link s)) (508 + j div 512)) (heap_dir (link s) j)"
    "j < i \<Longrightarrow> qmem s (entry (heap_dir (link s) j) (j mod 512)) = frame_addr (f j) OR page_flags_of (heap_type j)"
    "j < i \<Longrightarrow> 512 \<le> f j \<and> f j < 32768 \<and> f j \<notin> free_frames s"
    "\<not> j < i \<Longrightarrow> qmem s (entry (heap_dir (link s) j) (j mod 512)) = 0"
proof -
  from assms have h: "if j < i
        then points_to (qmem s) (entry (pdpt_va (link s)) (508 + j div 512)) (heap_dir (link s) j)
          \<and> qmem s (entry (heap_dir (link s) j) (j mod 512)) = frame_addr (f j) OR page_flags_of (heap_type j)
          \<and> 512 \<le> f j \<and> f j < 32768 \<and> f j \<notin> free_frames s
        else qmem s (entry (heap_dir (link s) j) (j mod 512)) = 0" unfolding heap_mapped_def by blast
  then show "j < i \<Longrightarrow> points_to (qmem s) (entry (pdpt_va (link s)) (508 + j div 512)) (heap_dir (link s) j)"
    "j < i \<Longrightarrow> qmem s (entry (heap_dir (link s) j) (j mod 512)) = frame_addr (f j) OR page_flags_of (heap_type j)"
    "j < i \<Longrightarrow> 512 \<le> f j \<and> f j < 32768 \<and> f j \<notin> free_frames s"
    "\<not> j < i \<Longrightarrow> qmem s (entry (heap_dir (link s) j) (j mod 512)) = 0" by simp_all
qed

lemma heap_type_eq: "heap_type i = heap_type j \<longleftrightarrow> (i \<ge> 512 \<longleftrightarrow> j \<ge> 512)"
  by (auto simp: heap_type_def)

lemma div_512: "i < 1024 \<Longrightarrow> i div 512 = (if 512 \<le> i then 1 else 0)" for i :: nat
  by (auto intro!: div_nat_eqI)

lemma heap_slot_eq: "i < 1024 \<Longrightarrow> j < 1024 \<Longrightarrow> heap_type i = heap_type j \<Longrightarrow> i mod 512 = j mod 512 \<Longrightarrow> i = j"
proof -
  assume h: "i < 1024" "j < 1024" "heap_type i = heap_type j" "i mod 512 = j mod 512"
  then have "i div 512 = j div 512" by (auto simp: heap_type_eq div_512)
  with h(4) show ?thesis by (metis div_mult_mod_eq)
qed

lemma heap_page_not_mapped:
  assumes lay: "layout_ok (link s)" and K: "heap_mapped i f s" and i: "i < 1024"
  shows "is_frame_mapped_kernel (heap_page i) (pml4t_va (link s)) s = Inr (False, s)"
proof -
  let ?Q = "pdpt_va (link s)" and ?R = "heap_dir (link s) i"
  note ix = heap_page_index [OF i]
  have cell: "qmem s (entry ?R (i mod 512)) = 0" using K i by (simp add: heap_mapped_def)
  have "qmem s (entry ?Q (508 + i div 512)) = 0 \<or> points_to (qmem s) (entry ?Q (508 + i div 512)) ?R"
  proof (cases "i = 0 \<or> i = 512")
    case True
    with K show ?thesis by (auto simp: heap_mapped_def)
  next
    case False
    then have "i - 1 < i" "(i - 1) div 512 = i div 512" "heap_type (i - 1) = heap_type i"
      using i by (auto simp: heap_type_def div_512)
    with K i show ?thesis by (metis heap_dir_def heap_mapped_def less_imp_diff_less)
  qed
  with cell show ?thesis
    by (auto simp: is_frame_mapped_kernel_def Let_def ix points_to_def)
qed

lemma map_kernel_page_frame: "map_kernel_page va pa ty s = Inr (r, t) \<Longrightarrow> \<exists>q. t = s\<lparr>qmem := q\<rparr>"
  by (auto simp: map_kernel_page_def Let_def set_qword_def)

lemma heap_mapped_step:
  assumes lay: "layout_ok (link s)" and K: "heap_mapped i f s" and i: "i < 1024" and n: "n \<in> free_frames s" "512 \<le> n"
    and u: "qmem u = qmem s" "link u = link s" "free_frames u = free_frames s - {n}"
    and m: "map_kernel_page (heap_page i) (frame_addr n) (heap_type i) u = Inr (r, t)"
  shows "heap_mapped (i + 1) (f(i := n)) t"
proof -
  let ?P = "pml4t_va (link s)" and ?Q = "pdpt_va (link s)" and ?R = "heap_dir (link s)"
  note c = map_kernel_page_cells [OF lay [folded u(2)] m, unfolded u(2), folded heap_dir_def, unfolded heap_page_index [OF i]]
  note L = layout_tables [OF lay]
  have fr: "free_frames t = free_frames s - {n}"
  proof -
    from map_kernel_page_frame [OF m] obtain q where "t = u\<lparr>qmem := q\<rparr>" by blast
    then have "free_frames t = free_frames u" by (simp add: free_frames_def)
    with u(3) show ?thesis by simp
  qed
  have R: "table_ok (?R j)" "?R j \<noteq> ?P" "?R j \<noteq> ?Q" "?R j = ?R k \<longleftrightarrow> heap_type j = heap_type k" for j k
    using L(4-6) [of "heap_type j"] L(11) [of "heap_type j" "heap_type k"] by (simp_all add: heap_dir_def)
  have bound: "508 + j div 512 < 512" "j mod 512 < 512" if "j < 1024" for j :: nat using that by (auto simp: div_512)
  have keep_dir: "qmem t (entry (?R j) (j mod 512)) = qmem s (entry (?R j) (j mod 512))" if "j < 1024" "j \<noteq> i" for j
  proof -
    have "?R j = ?R i \<Longrightarrow> j mod 512 \<noteq> i mod 512" using heap_slot_eq [OF that(1) i] that(2) R(4) by blast
    then have "qmem t (entry (?R j) (j mod 512)) = qmem u (entry (?R j) (j mod 512))"
      using R(1-3) [of j] bound [OF that(1)] by (intro c(6)) auto
    with u(1) show ?thesis by simp
  qed
  have pt: "points_to (qmem t) (entry ?Q (508 + j div 512)) (?R j)" if j: "j < i + 1" for j
  proof (cases "heap_type j = heap_type i")
    case True
    then have "508 + j div 512 = 508 + i div 512" "?R j = ?R i"
      using i j R(4) by (auto simp: heap_type_eq div_512)
    with c(4) show ?thesis by simp
  next
    case False
    then have ji: "j < i" using j by (cases "j = i") auto
    have "j div 512 \<noteq> i div 512" using False i j by (auto simp: heap_type_eq div_512)
    then have "qmem t (entry ?Q (508 + j div 512)) = qmem u (entry ?Q (508 + j div 512))"
      using L(2,3) R(3) [of i] bound [of j] i ji by (intro c(6)) auto
    with heap_mappedD(1) [OF K _ ji] ji i u(1) show ?thesis by (simp add: points_to_def)
  qed
  have far: "qmem t (entry ?Q 509) = 0" if "i + 1 \<le> 512"
  proof -
    have "qmem t (entry ?Q 509) = qmem u (entry ?Q 509)"
      using L(2,3) R(3) [of i] that i by (intro c(6)) (auto simp: div_512)
    with K that u(1) show ?thesis by (simp add: heap_mapped_def)
  qed
  have lt: "link t = link s" using c(2) .
  have inj: "inj_on (f(i := n)) {..< i + 1}"
    using K n(1) i by (auto simp: heap_mapped_def inj_on_def less_Suc_eq)
  show ?thesis unfolding heap_mapped_def lt
  proof (intro conjI allI impI)
    fix j :: nat
    assume j: "j < 1024"
    show "if j < i + 1
        then points_to (qmem t) (entry ?Q (508 + j div 512)) (?R j)
          \<and> qmem t (entry (?R j) (j mod 512)) = frame_addr ((f(i := n)) j) OR page_flags_of (heap_type j)
          \<and> 512 \<le> (f(i := n)) j \<and> (f(i := n)) j < 32768 \<and> (f(i := n)) j \<notin> free_frames t
        else qmem t (entry (?R j) (j mod 512)) = 0"
    proof (cases "j < i + 1")
      case True
      show ?thesis
      proof (cases "j = i")
        case True
        with pt [of j] c(5) n fr frames_lt [OF n(1)] show ?thesis by simp
      next
        case False
        with \<open>j < i + 1\<close> have "j < i" by simp
        with heap_mappedD(2,3) [OF K j] pt [of j] keep_dir [OF j False] fr False show ?thesis by simp
      qed
    next
      case False
      with heap_mappedD(4) [OF K j] keep_dir [OF j] show ?thesis by simp
    qed
  qed (use c(3) far inj in simp_all)
qed

lemma kheap_map_loop_runs:
  assumes "layout_ok (link s)" "heap_mapped i f s" "pmm_inv s" "lock_free PMM_lock s" "heap_va_start s = KERNEL_HEAP_START"
    and "1024 - i \<le> card (free_frames s)" "i \<le> 1024"
  shows "\<exists>g t. kheap_map_loop i s = Inr ((), t) \<and> heap_mapped 1024 g t \<and> pmm_inv t \<and> link t = link s
     \<and> heap_va_start t = KERNEL_HEAP_START \<and> no_return t = no_return s"
  using assms
proof (induction "1024 - i" arbitrary: i f s rule: less_induct)
  case less
  show ?case
  proof (cases "i < 1024")
    case False
    with less.prems have "i = 1024" by simp
    with less.prems show ?thesis by (intro exI [of _ f] exI [of _ s]) (simp add: kheap_map_loop.simps)
  next
    case True
    note r = heap_page_round [OF True]
    have ne: "free_frames s \<noteq> {}" using less.prems(6) True by auto
    obtain a u where req: "physical_frame_request s = Inr (a, u)" and lu: "lock_free PMM_lock u"
      using physical_frame_request_returns [OF less.prems(3,4)] by blast
    obtain c k n where n: "n \<in> free_frames s" "a = frame_addr n" "u = (taken n s)\<lparr>cpus := c, locks := k\<rparr>"
      using less.prems(3) req
    proof (cases rule: physical_frame_request_cases)
      case (ok c k n)
      then show ?thesis by (intro that)
    qed (use ne in simp)
    have n5: "512 \<le> n" using n(1) less.prems(3) by (fastforce simp: pmm_inv_def)
    have am: "a \<noteq> UINT64_MAX" using chunk_frame_not_max [OF frames_lt [OF n(1)], of 0] n(2) by simp
    have u: "qmem u = qmem s" "link u = link s" "free_frames u = free_frames s - {n}" "pmm_inv u"
      "heap_va_start u = heap_va_start s" "no_return u = no_return s"
    proof -
      show "free_frames u = free_frames s - {n}" "pmm_inv u"
        using n pmm_inv_taken [OF less.prems(3) n(1)] by simp_all
    qed (simp_all add: n(3) taken_def)
    obtain t where m: "map_kernel_page (heap_page i) a (heap_type i) u = Inr (True, t)"
      by (simp add: map_kernel_page_def Let_def)
    from map_kernel_page_frame [OF m] obtain q where t: "t = u\<lparr>qmem := q\<rparr>" by blast
    have K': "heap_mapped (i + 1) (f(i := n)) t"
      by (rule heap_mapped_step [OF less.prems(1,2) True n(1) n5 u(1-3) m [unfolded n(2)]])
    have t': "layout_ok (link t)" "pmm_inv t" "lock_free PMM_lock t" "heap_va_start t = KERNEL_HEAP_START"
      "1024 - (i + 1) \<le> card (free_frames t)"
      using less.prems u lu n(1) True by (auto simp: t pmm_inv_def free_frames_def lock_free_def registered_def card_Diff_singleton)
    have run: "kheap_map_loop i s = kheap_map_loop (i + 1) t"
      using True heap_page_not_mapped [OF less.prems(1,2) True] req am m less.prems(5)
      by (subst kheap_map_loop.simps)
         (simp add: bnd_def r heap_page_def [symmetric] heap_type_def)
    have "1024 - (i + 1) < 1024 - i" using True by linarith
    from less.hyps [OF this t'(1) K' t'(2,3,4,5)] True show ?thesis unfolding run by (auto simp: t u)
  qed
qed

section \<open>A concrete state\<close>

definition boot_paging :: paging where
  "boot_paging = pmm.extend small_pmm \<lparr>qmem = (\<lambda>_. 0)\<rparr>"

lemma row_table_ok:
  assumes "table_ok b" "unat b + 4096 * 512 \<le> 2 ^ 64" "k < 512"
  shows "table_ok (row b k)" "unat (row b k) = unat b + 4096 * k"
proof -
  have m: "unat (4096 * of_nat k :: u64) = 4096 * k"
    using assms(3) by (subst unat_mult_nowrap) (simp_all add: unat_of_nat)
  then show u: "unat (row b k) = unat b + 4096 * k"
    unfolding row_def using assms(2,3) by (subst unat_plus_nowrap) simp_all
  obtain q where q: "unat b = 4096 * q" by (rule table_page [OF assms(1)])
  have "unat (take_bit 12 (row b k)) = 0"
    by (simp add: unsigned_take_bit_eq take_bit_nat_def u q)
  then have "take_bit 12 (row b k) = 0" by (simp add: unat_eq_zero)
  then show "table_ok (row b k)" using assms(1) u by (simp add: table_ok_def word_less_nat_alt)
qed

lemma boot_layout: "layout_ok boot_link"
proof -
  have t: "table_ok 0xffffffff80400000" "table_ok 0xffffffff80600000"
    by (simp_all add: table_ok_def KERNEL_HH_START_def)
  have r: "unat (row 0xffffffff80400000 k) = 0xffffffff80400000 + 4096 * k"
    "unat (row 0xffffffff80600000 k) = 0xffffffff80600000 + 4096 * k"
    "table_ok (row 0xffffffff80400000 k)" "table_ok (row 0xffffffff80600000 k)" if "k < 512" for k
    using row_table_ok [OF t(1) _ that] row_table_ok [OF t(2) _ that] by simp_all
  have b: "pml4t_va boot_link = 0xffffffff80100000" "pdpt_va boot_link = 0xffffffff80101000"
    "smp_pdt_va boot_link = 0xffffffff80102000" "smp_pt_va boot_link = 0xffffffff80103000"
    "pdt_kernel_va boot_link = 0xffffffff80400000" "pt_kernel_va boot_link = 0xffffffff80600000"
    by (simp_all add: boot_link_def)
  have lo: "unat (0xffffffff80100000 :: u64) = 0xffffffff80100000" "unat (0xffffffff80101000 :: u64) = 0xffffffff80101000"
    by simp_all
  have ne: "row 0xffffffff80400000 k \<noteq> 0xffffffff80100000" "row 0xffffffff80400000 k \<noteq> 0xffffffff80101000"
    "row 0xffffffff80600000 k \<noteq> 0xffffffff80100000" "row 0xffffffff80600000 k \<noteq> 0xffffffff80101000" if "k < 512" for k
  proof -
    have gt: "x \<noteq> y" if "unat y < unat x" for x y :: u64 using that by auto
    show "row 0xffffffff80400000 k \<noteq> 0xffffffff80100000" "row 0xffffffff80400000 k \<noteq> 0xffffffff80101000"
      by (intro gt; simp only: r(1) [OF that] lo; simp)+
    show "row 0xffffffff80600000 k \<noteq> 0xffffffff80100000" "row 0xffffffff80600000 k \<noteq> 0xffffffff80101000"
      by (intro gt; simp only: r(2) [OF that] lo; simp)+
  qed
  have rr: "row 0xffffffff80600000 j \<noteq> row 0xffffffff80400000 k" if "j < 512" "k < 512" for j k
  proof
    assume "row 0xffffffff80600000 j = row 0xffffffff80400000 k"
    with r(2) [OF that(1)] r(1) [OF that(2)] have "0xffffffff80600000 + 4096 * j = 0xffffffff80400000 + 4096 * k" by metis
    with that show False by linarith
  qed
  have inj: "j = k" if "j < 512" "k < 512" "row 0xffffffff80400000 j = row 0xffffffff80400000 k" for j k
  proof -
    from r(1) [OF that(1)] r(1) [OF that(2)] that(3) have "0xffffffff80400000 + 4096 * j = 0xffffffff80400000 + 4096 * k" by metis
    then show ?thesis by simp
  qed
  show ?thesis unfolding layout_ok_def b
    using r(3,4) ne rr inj by (simp add: table_ok_def KERNEL_HH_START_def)
qed

section \<open>Properties\<close>

text \<open>C16: mapping and translation agree. After \<open>map_kernel_page va pa type\<close> with a page-aligned \<open>pa\<close>,
  \<open>virtual_to_physical\<close> of \<open>va\<close> returns \<open>pa\<close> and the low 21 bits of \<open>va\<close>, and
  \<open>is_frame_mapped_kernel\<close> reports the page as mapped.\<close>

theorem map_kernel_page_translates:
  assumes lay: "layout_ok (link s)" and pa: "take_bit 12 pa = 0"
  shows "\<exists>t. map_kernel_page va pa ty s = Inr (True, t)
     \<and> virtual_to_physical va (pml4t_va (link t)) t = Inr ((pa, va AND 0x1FFFFF), t)
     \<and> is_frame_mapped_kernel va (pml4t_va (link t)) t = Inr (True, t)"
proof -
  obtain r t where m: "map_kernel_page va pa ty s = Inr (r, t)" by (simp add: map_kernel_page_def Let_def)
  note c = map_kernel_page_cells [OF lay m]
  note tr = translate_huge [of t "pml4t_va (link t)" va, OF _ _ _ pa page_flags_bits [of ty]]
  from c m show ?thesis using tr by simp
qed

theorem map_kernel_page_translates_witness:
  "\<exists>t. map_kernel_page 0xFEE00000 0xFEE00000 ALLOC_TYPE_DM_IO boot_paging = Inr (True, t)
     \<and> virtual_to_physical 0xFEE00000 (pml4t_va (link t)) t = Inr ((0xFEE00000, 0), t)"
proof -
  have "layout_ok (link boot_paging)" using boot_layout by (simp add: boot_paging_def pmm.defs small_pmm_link)
  from map_kernel_page_translates [OF this, of "0xFEE00000" "0xFEE00000" ALLOC_TYPE_DM_IO] show ?thesis by auto
qed

text \<open>A second \<open>map_kernel_page\<close> keeps the translation of an earlier one when the two pages use
  the same allocation type and different entries of its directory, or different types and different
  gigabytes. The directory is chosen by the allocation type alone, so the condition is needed: with
  the same type and the same directory index in two different gigabytes, the second mapping replaces
  the translation of the first.\<close>

theorem map_kernel_page_interference:
  assumes lay: "layout_ok (link s)" and pa: "take_bit 12 pa1 = 0" "take_bit 12 pa2 = 0"
    and m: "map_kernel_page va1 pa1 ty1 s = Inr (r1, t)" "map_kernel_page va2 pa2 ty2 t = Inr (r2, u)"
  shows "(ty1 = ty2 \<and> pdt_index va1 \<noteq> pdt_index va2 \<or> ty1 \<noteq> ty2 \<and> pdpt_index va1 \<noteq> pdpt_index va2 \<longrightarrow>
        virtual_to_physical va1 (pml4t_va (link u)) u = Inr ((pa1, va1 AND 0x1FFFFF), u))
     \<and> (ty1 = ty2 \<and> pdt_index va1 = pdt_index va2 \<longrightarrow>
        virtual_to_physical va1 (pml4t_va (link u)) u = Inr ((pa2, va1 AND 0x1FFFFF), u))"
proof -
  note c1 = map_kernel_page_cells [OF lay m(1)]
  have lay': "layout_ok (link t)" using lay c1(2) by simp
  note c2 = map_kernel_page_cells [OF lay' m(2), unfolded c1(2)] and L = layout_tables [OF lay]
  let ?P = "pml4t_va (link s)" and ?Q = "pdpt_va (link s)" and ?R = "\<lambda>ty. row (pdt_kernel_va (link s)) (alloc_type_int ty)"
  have root: "points_to (qmem u) (entry ?P (pml4t_index va1)) ?Q"
  proof (cases "pml4t_index va1 = pml4t_index va2")
    case True
    with c2(3) show ?thesis by simp
  next
    case False
    then have "qmem u (entry ?P (pml4t_index va1)) = qmem t (entry ?P (pml4t_index va1))"
      using L(1,3) L(5) [of ty2] by (intro c2(6)) (auto simp: index_bounds)
    with c1(3) show ?thesis by (simp add: points_to_def)
  qed
  have dir: "points_to (qmem u) (entry ?Q (pdpt_index va1)) (?R ty1)"
    if "ty1 = ty2 \<or> pdpt_index va1 \<noteq> pdpt_index va2"
  proof (cases "pdpt_index va1 = pdpt_index va2")
    case True
    with that c2(4) show ?thesis by simp
  next
    case False
    then have "qmem u (entry ?Q (pdpt_index va1)) = qmem t (entry ?Q (pdpt_index va1))"
      using L(2,3) L(6) [of ty2] by (intro c2(6)) (auto simp: index_bounds)
    with c1(4) show ?thesis by (simp add: points_to_def)
  qed
  have lu: "link u = link s" using c2(2) c1(2) by simp
  note walk = translate_huge(1) [of u ?P va1 "?R ty1", unfolded lu, OF root dir]
  have keep: "qmem u (entry (?R ty1) (pdt_index va1)) = pa1 OR page_flags_of ty1"
    if "ty1 = ty2 \<and> pdt_index va1 \<noteq> pdt_index va2 \<or> ty1 \<noteq> ty2"
    using that c1(5) L(4) [of ty1] L(5) [of ty1] L(6) [of ty1] L(11) [of ty1 ty2] by (subst c2(6)) (auto simp: index_bounds)
  show ?thesis
  proof (intro conjI impI)
    assume h: "ty1 = ty2 \<and> pdt_index va1 \<noteq> pdt_index va2 \<or> ty1 \<noteq> ty2 \<and> pdpt_index va1 \<noteq> pdpt_index va2"
    then have "ty1 = ty2 \<or> pdpt_index va1 \<noteq> pdpt_index va2"
      "ty1 = ty2 \<and> pdt_index va1 \<noteq> pdt_index va2 \<or> ty1 \<noteq> ty2" by auto
    from walk [OF this(1) keep [OF this(2)] pa(1) page_flags_bits] lu
    show "virtual_to_physical va1 (pml4t_va (link u)) u = Inr ((pa1, va1 AND 0x1FFFFF), u)" by simp
  next
    assume h: "ty1 = ty2 \<and> pdt_index va1 = pdt_index va2"
    then have "qmem u (entry (?R ty1) (pdt_index va1)) = pa2 OR page_flags_of ty2" using c2(5) by simp
    with h walk [OF _ this pa(2) page_flags_bits] lu
    show "virtual_to_physical va1 (pml4t_va (link u)) u = Inr ((pa2, va1 AND 0x1FFFFF), u)" by simp
  qed
qed

theorem map_kernel_page_interference_witness:
  "\<exists>t u. map_kernel_page 0xC0000000 0x40000000 ALLOC_TYPE_DM_IO boot_paging = Inr (True, t)
     \<and> map_kernel_page 0x80000000 0x40200000 ALLOC_TYPE_DM_IO t = Inr (True, u)
     \<and> virtual_to_physical 0xC0000000 (pml4t_va (link u)) u = Inr ((0x40200000, 0), u)"
proof -
  have lay: "layout_ok (link boot_paging)" using boot_layout by (simp add: boot_paging_def pmm.defs small_pmm_link)
  obtain t where t: "map_kernel_page 0xC0000000 0x40000000 ALLOC_TYPE_DM_IO boot_paging = Inr (True, t)"
    by (simp add: map_kernel_page_def Let_def)
  obtain u where u: "map_kernel_page 0x80000000 0x40200000 ALLOC_TYPE_DM_IO t = Inr (True, u)"
    by (simp add: map_kernel_page_def Let_def)
  have "pdt_index 0xC0000000 = pdt_index 0x80000000" by (simp add: index_nat)
  with map_kernel_page_interference [OF lay _ _ t u] t u show ?thesis by simp
qed

text \<open>\<open>map_4kb_page_kernel\<close> and \<open>unmap_4kb_page_kernel\<close>. A mapped 4 KB page translates to its frame and
  the low 12 bits of the address. After unmapping, \<open>virtual_to_physical\<close> answers frame 0 instead of
  the documented \<open>UINT64_MAX\<close>, and \<open>is_frame_mapped_kernel\<close>, which stops at the directory entry,
  still reports the page as mapped.\<close>

theorem map_unmap_4kb_page_kernel:
  assumes lay: "layout_ok (link s)" and pa: "take_bit 12 pa = 0"
  shows "\<exists>t u. map_4kb_page_kernel va pa ty s = Inr ((), t)
     \<and> virtual_to_physical va (pml4t_va (link t)) t = Inr ((pa, va AND 0xFFF), t)
     \<and> unmap_4kb_page_kernel va t = Inr ((), u)
     \<and> virtual_to_physical va (pml4t_va (link u)) u = Inr ((0, va AND 0xFFF), u)
     \<and> is_frame_mapped_kernel va (pml4t_va (link u)) u = Inr (True, u)"
proof -
  obtain t where m: "map_4kb_page_kernel va pa ty s = Inr ((), t)" by (simp add: map_4kb_page_kernel_def Let_def)
  note c = map_4kb_page_kernel_cells [OF lay m]
  let ?T = "row (pt_kernel_va (link s)) (pdt_index va)" and ?R = "row (pdt_kernel_va (link s)) (alloc_type_int ty)"
  define u where "u = set_qword (entry ?T (pt_index va)) 0 t"
  have u: "unmap_4kb_page_kernel va t = Inr ((), u)" "link u = link s"
    by (simp_all add: unmap_4kb_page_kernel_def u_def c(1), simp add: set_qword_def c(1))
  have T: "table_ok ?T" using layout_tables(7) [OF lay index_bounds(3)] .
  have ne: "pml4t_va (link s) \<noteq> ?T" "pdpt_va (link s) \<noteq> ?T" "?R \<noteq> ?T"
    using layout_tables(8-10) [OF lay index_bounds(3)] by metis+
  have "virtual_to_physical va (pml4t_va (link t)) t = Inr ((pa, va AND 0xFFF), t)"
    using translate_4kb(1) [of t "pml4t_va (link s)" va ?R ?T] c frame_of_entry [OF pa flag_words(1)] by simp
  moreover have q: "qmem u (entry b i) = qmem t (entry b i)" if "table_ok b" "i < 512" "b \<noteq> ?T" for b i
    using that T by (simp add: u_def set_qword_def entry_eq_iff index_bounds)
  have "points_to (qmem u) (entry (pml4t_va (link s)) (pml4t_index va)) (pdpt_va (link s))"
    "points_to (qmem u) (entry (pdpt_va (link s)) (pdpt_index va)) ?R" "points_to (qmem u) (entry ?R (pdt_index va)) ?T"
    using c(2-4) layout_tables(1,2,4) [OF lay] ne index_bounds by (simp_all add: points_to_def q)
  from translate_4kb [of u "pml4t_va (link s)" va ?R ?T, unfolded u(2), OF this]
  have "virtual_to_physical va (pml4t_va (link s)) u = Inr ((0, va AND 0xFFF), u)"
    "is_frame_mapped_kernel va (pml4t_va (link s)) u = Inr (True, u)"
    by (simp_all add: u_def set_qword_def)
  ultimately show ?thesis using m u by auto
qed

theorem map_unmap_4kb_page_kernel_witness:
  "\<exists>t u. map_4kb_page_kernel 0x5000 0x8000 ALLOC_TYPE_TEMPORARY boot_paging = Inr ((), t)
     \<and> virtual_to_physical 0x5000 (pml4t_va (link t)) t = Inr ((0x8000, 0), t)
     \<and> unmap_4kb_page_kernel 0x5000 t = Inr ((), u)
     \<and> is_frame_mapped_kernel 0x5000 (pml4t_va (link u)) u = Inr (True, u)"
proof -
  have "layout_ok (link boot_paging)" using boot_layout by (simp add: boot_paging_def pmm.defs small_pmm_link)
  from map_unmap_4kb_page_kernel [OF this, of "0x8000" "0x5000" ALLOC_TYPE_TEMPORARY] show ?thesis by auto
qed

text \<open>\<open>virtual_to_physical\<close> does not recognise an address without a table. It adds \<open>KERNEL_HH_START\<close>
  before it tests for NULL, so for an empty top-level entry it takes the physical page 0 for the next
  tables, and reports whatever frame the bytes there denote instead of \<open>UINT64_MAX\<close>.\<close>

theorem virtual_to_physical_reads_page_zero:
  assumes "qmem s (entry P (pml4t_index va)) = 0" "qmem s (entry KERNEL_HH_START (pdpt_index va)) AND PTADDRMASK = 0"
    and "bit (qmem s (entry KERNEL_HH_START (pdt_index va))) 7"
  shows "virtual_to_physical va P s =
     Inr ((qmem s (entry KERNEL_HH_START (pdt_index va)) AND PTADDRMASK, va AND 0x1FFFFF), s)"
proof -
  have "qmem s (entry KERNEL_HH_START (pdt_index va)) \<noteq> 0"
    using assms(3) by (metis bit_0_eq bot_apply bot_bool_def)
  moreover have "KERNEL_HH_START \<noteq> 0" by (simp add: KERNEL_HH_START_def)
  ultimately show ?thesis using assms by (simp add: virtual_to_physical_def Let_def huge_test)
qed

theorem virtual_to_physical_reads_page_zero_witness:
  "\<exists>(s :: paging) P. qmem s (entry P (pml4t_index 0x200000)) = 0 \<and> virtual_to_physical 0x200000 P s = Inr ((0xF000E000, 0), s)"
proof -
  let ?s = "boot_paging\<lparr>qmem := (\<lambda>_. 0)(0xffffffff80000008 := 0xF000E0C3)\<rparr>"
  have i: "pml4t_index 0x200000 = 0" "pdpt_index 0x200000 = 0" "pdt_index 0x200000 = 1" by (simp_all add: index_nat)
  have "virtual_to_physical 0x200000 0xffffffff80100000 ?s =
     Inr ((qmem ?s (entry KERNEL_HH_START (pdt_index 0x200000)) AND PTADDRMASK, 0x200000 AND 0x1FFFFF), ?s)"
    by (rule virtual_to_physical_reads_page_zero)
       (simp_all add: i entry_def KERNEL_HH_START_def)
  then show ?thesis
    by (intro exI [of _ ?s] exI [of _ "0xffffffff80100000"]) (simp add: i entry_def KERNEL_HH_START_def PTADDRMASK_def)
qed

text \<open>C29: \<open>kheap_init\<close> brings up the kernel heap. With 1024 free frames, the frame lock free and nothing
  mapped in the heap area, it ends without a panic; afterwards every one of the 1024 heap pages
  translates to a 2 MB frame of its own that is outside the kernel's gigabyte and taken in the bitmap,
  and the heap satisfies the invariant of the allocator, with no live block and its lock free.\<close>

theorem kheap_init_correct:
  assumes lay: "layout_ok (link s)" and pm: "pmm_inv s" "lock_free PMM_lock s" "1024 \<le> card (free_frames s)"
    and nr: "returns_max (no_return s)"
    and none: "\<forall>j < 1024. qmem s (entry (heap_dir (link s) j) (j mod 512)) = 0"
      "qmem s (entry (pdpt_va (link s)) 508) = 0" "qmem s (entry (pdpt_va (link s)) 509) = 0"
  shows "\<exists>t f. kheap_init s = Inr ((), t) \<and> kheap_inv t \<and> heap_used t = {} \<and> pmm_inv t
     \<and> \<not> is_locked (locks t KernelHeapLock) \<and> inj_on f {..< 1024}
     \<and> (\<forall>j < 1024. 512 \<le> f j \<and> f j < 32768 \<and> f j \<notin> free_frames t
          \<and> virtual_to_physical (heap_page j) (pml4t_va (link t)) t = Inr ((frame_addr (f j), 0), t))"
proof -
  let ?s = "s\<lparr>heap_va_start := KERNEL_HH_START - 0x80000000\<rparr>"
  have va: "KERNEL_HH_START - 0x80000000 = KERNEL_HEAP_START"
    by (simp add: KERNEL_HH_START_def KERNEL_HEAP_START_def)
  have s0: "heap_mapped 0 f ?s" for f using none by (simp add: heap_mapped_def)
  have "\<exists>g t. kheap_map_loop 0 ?s = Inr ((), t) \<and> heap_mapped 1024 g t \<and> pmm_inv t \<and> link t = link ?s
     \<and> heap_va_start t = KERNEL_HEAP_START \<and> no_return t = no_return ?s"
  proof (rule kheap_map_loop_runs [OF _ s0])
    show "pmm_inv ?s" "1024 - 0 \<le> card (free_frames ?s)" using pm by (simp_all add: pmm_inv_def free_frames_def)
    show "lock_free PMM_lock ?s" using pm(2) by (simp add: lock_free_def registered_def)
  qed (use lay va in simp_all)
  then obtain g t where t: "kheap_map_loop 0 ?s = Inr ((), t)" "heap_mapped 1024 g t" "pmm_inv t" "link t = link s"
    "heap_va_start t = KERNEL_HEAP_START" "no_return t = no_return s" by auto
  define u where "u = kernel_heap_tree_init 0 0x80000000 0 t"
  have run: "kheap_init s = Inr ((), u)"
    using t(1) by (simp add: kheap_init_def op_combinators u_def)
  from kernel_heap_tree_init_frame [of 0 "0x80000000" 0 t] obtain k tr where
    f: "u = t\<lparr>locks := k, heap_tree := tr\<rparr>" and nl: "\<not> is_locked (k KernelHeapLock)"
    by (auto simp: u_def KERNEL_HEAP_LEN_def)
  have tree: "heap_tree u j = fresh_section j" if "j < KERNEL_HEAP_LEN" for j
    using that by (simp add: u_def kernel_heap_tree_init_root kernel_heap_tree_init_tree)
  note fresh = heap_wf_fresh [of "heap_tree u", OF tree]
  have "kheap_inv u" using fresh(1) t(5,6) nr by (simp add: kheap_inv_def) (simp add: f)
  moreover have "heap_used u = {}" using fresh(2) by (auto simp: heap_used_def)
  moreover have "pmm_inv u" using t(3) by (simp add: f pmm_inv_def free_frames_def)
  moreover have "inj_on g {..< 1024}" using t(2) by (simp add: heap_mapped_def)
  moreover have "512 \<le> g j \<and> g j < 32768 \<and> g j \<notin> free_frames u
      \<and> virtual_to_physical (heap_page j) (pml4t_va (link u)) u = Inr ((frame_addr (g j), 0), u)" if j: "j < 1024" for j
  proof -
    note d = heap_mappedD [OF t(2) j]
    have root: "points_to (qmem u) (entry (pml4t_va (link u)) (pml4t_index (heap_page j))) (pdpt_va (link u))"
      using t(2) by (simp add: heap_mapped_def heap_page_index [OF j] f)
    have dir: "points_to (qmem u) (entry (pdpt_va (link u)) (pdpt_index (heap_page j))) (heap_dir (link u) j)"
      using d(1) j by (simp add: heap_page_index [OF j] f)
    have cell: "qmem u (entry (heap_dir (link u) j) (pdt_index (heap_page j))) = frame_addr (g j) OR page_flags_of (heap_type j)"
      using d(2) j by (simp add: heap_page_index [OF j] f)
    have al: "take_bit 12 (frame_addr (g j)) = 0"
      using d(3) j by (simp add: word_unat_eq_iff unsigned_take_bit_eq take_bit_nat_def unat_frame_addr)
    from translate_huge(1) [OF root dir cell al page_flags_bits] d(3) j show ?thesis
      by (simp add: heap_page_round [OF j]) (simp add: f free_frames_def)
  qed
  moreover have "\<not> is_locked (locks u KernelHeapLock)" using nl by (simp add: f)
  ultimately show ?thesis using run by blast
qed

text \<open>A machine with 1024 free frames above the kernel's gigabyte.\<close>

definition big_paging :: paging where
  "big_paging = boot_paging\<lparr>PhysicalPageBitmap := (\<lambda>i. if 8 \<le> i \<and> i < 24 then 0 else UINT64_MAX), free_framecount := 1024\<rparr>"

lemma big_paging_frames: "free_frames big_paging = {512 ..< 1536}"
proof -
  have b: "bit UINT64_MAX (n mod 64)" for n :: nat
    unfolding minus_one_u64 [symmetric] bit_minus_1_iff possible_bit_word by simp
  have d: "8 \<le> n div 64 \<and> n div 64 < 24 \<longleftrightarrow> 512 \<le> n \<and> n < 1536" for n :: nat
    by (simp add: less_eq_div_iff_mult_less_eq div_less_iff_less_mult)
  have "n \<in> free_frames big_paging \<longleftrightarrow> n \<in> {512 ..< 1536}" for n
    using b [of n] d [of n] by (auto simp: free_frames_def big_paging_def)
  then show ?thesis by blast
qed

theorem kheap_init_correct_witness:
  "\<exists>t n. kheap_init big_paging = Inr ((), t) \<and> kheap_inv t \<and>
     virtual_to_physical 0xffffffff00000000 (pml4t_va (link t)) t = Inr ((frame_addr n, 0), t)"
proof -
  have l: "link big_paging = boot_link" by (simp add: big_paging_def boot_paging_def pmm.defs small_pmm_link)
  have pm: "pmm_inv big_paging" by (simp add: pmm_inv_def big_paging_frames) (auto simp: big_paging_def)
  have "lock_free PMM_lock big_paging"
    using small_pmm_lock [of PMM_lock] by (simp add: lock_free_def registered_def big_paging_def boot_paging_def pmm.defs)
  moreover have "returns_max (no_return big_paging)"
    by (simp add: big_paging_def boot_paging_def pmm.defs small_pmm_link returns_max_def)
  moreover have "qmem big_paging a = 0" for a by (simp add: big_paging_def boot_paging_def pmm.defs)
  ultimately obtain t f where tf: "kheap_init big_paging = Inr ((), t)" "kheap_inv t"
      "\<forall>j < 1024. 512 \<le> f j \<and> f j < 32768 \<and> f j \<notin> free_frames t
          \<and> virtual_to_physical (heap_page j) (pml4t_va (link t)) t = Inr ((frame_addr (f j), 0), t)"
    using kheap_init_correct [of big_paging] pm boot_layout l by (auto simp: big_paging_frames)
  have "heap_page 0 = 0xffffffff00000000" by (simp add: heap_page_def KERNEL_HEAP_START_def)
  moreover have "virtual_to_physical (heap_page 0) (pml4t_va (link t)) t = Inr ((frame_addr (f 0), 0), t)"
    using tf(3) by (elim allE [of _ 0]) simp
  ultimately show ?thesis using tf(1,2) by (intro exI [of _ t] exI [of _ "f 0"]) simp
qed

end
