(* ===== verification/Process_Table.thy ===== *)
theory Process_Table
  imports Paging
begin

text \<open>
  The process and thread tables: src/src/kernel/include/kernel/proc.h, sleeplock.h, errno.h and the
  operations of kernel/proc.c on single table entries.

  The record \<open>proc\<close> extends the memory state with \<open>global_Settings.proc_table\<close>. A \<open>Thread*\<close> is an
  index into \<open>thread_table\<close>, whose entry 300 is the idle thread, a \<open>Process*\<close> an index into
  \<open>proc_table\<close>, and NULL is \<open>None\<close>. The heap objects that hang off a process
  (\<open>proc_used_page_entry\<close>, \<open>ThreadEntry\<close>, \<open>HeapAllocEntry\<close>) are kept by address; their links are in
  the pointer store of the linked lists.
\<close>

section \<open>Data\<close>

definition MAX_NUM_THREADS :: nat where "MAX_NUM_THREADS = 300"
definition IDLE_THREAD :: nat where "IDLE_THREAD = MAX_NUM_THREADS"
definition MAX_NUM_PROC :: nat where "MAX_NUM_PROC = 64"
definition USER_STACK_LOC :: u64 where "USER_STACK_LOC = 0xfffffc000"
definition USER_HEAP_START :: u64 where "USER_HEAP_START = 0xffffffff00000000 - 0x1000"
definition MAX_ARG_COUNT :: nat where "MAX_ARG_COUNT = 16"
definition MAX_PATH :: nat where "MAX_PATH = 260"
definition MAX_FILE_DESC :: nat where "MAX_FILE_DESC = 16"
definition KERNEL_CS :: u64 where "KERNEL_CS = 0x8"
definition KERNEL_DS :: u64 where "KERNEL_DS = 0x10"
definition USER_CS :: u64 where "USER_CS = 0x18 OR 0x3"
definition USER_DS :: u64 where "USER_DS = 0x20 OR 0x3"

datatype THREAD_STATE =
    THREAD_STATE_NOT_INITIALIZED
  | THREAD_STATE_READY
  | THREAD_STATE_RUNNING
  | THREAD_STATE_KILLED
  | THREAD_STATE_SLEEPING
  | THREAD_STATE_WAKEUP_READY

datatype THREAD_RUN_MODE = KERNEL_THREAD | USER_THREAD

datatype PROCESS_STATE = PROCESS_STATE_FREE | PROCESS_STATE_EXITED | PROCESS_STATE_INUSE

datatype ERROR = NO_ERROR | FILE_NOT_FOUND | FILE_READ_ERROR | MAX_ERROR

record cpu_context_t =
  r15 :: u64
  r14 :: u64
  r13 :: u64
  r12 :: u64
  r11 :: u64
  r10 :: u64
  r9 :: u64
  r8 :: u64
  rdi :: u64
  rsi :: u64
  rbp :: u64
  rdx :: u64
  rcx :: u64
  rbx :: u64
  rax :: u64
  isr_id :: u64
  error_code :: u64
  i_rip :: u64
  i_cs :: u64
  i_rflags :: u64
  i_rsp :: u64
  i_ss :: u64

record proc_used_page_entry =
  page_va :: u64
  page_pa :: u64
  pdt_table_index :: u64
  pd_table_index :: u64

record HeapAllocEntry =
  ha_start :: u64
  ha_end :: u64
  bit_start :: u32
  bit_end :: u32
  i_start :: u32
  i_end :: u32

text \<open>A path is the C string held in the 260-byte array, without its terminating zero.\<close>

record file_descriptor =
  fd_in_use :: bool
  fd_path :: string

record Thread =
  can_wakeup :: bool
  sleep_interrupt :: bool
  status :: THREAD_STATE
  run_mode :: THREAD_RUN_MODE
  thread_id :: u32
  thread_pml4t_va :: u64
  thread_pml4t_phys :: u64
  execution_context :: cpu_context_t
  errno :: ERROR
  owner_proc :: "nat option"
  sleep_channel :: u64

record Process =
  thread_count :: u32
  pid :: u32
  ppid :: u32
  proc_state :: PROCESS_STATE
  user_heap_bitmap :: "nat \<Rightarrow> u64"
  proc_fd :: "nat \<Rightarrow> file_descriptor"

record Sleeplock =
  sl_is_locked :: bool
  sl_owner_tid :: u32

text \<open>The last four fields: the page-table base register of each CPU, the number of
  end-of-interrupt writes each local APIC has received, the panic flag and the tick counter of
  \<open>global_Settings\<close>.\<close>

record proc = paging +
  threads :: "nat \<Rightarrow> Thread"
  procs :: "nat \<Rightarrow> Process"
  used_page :: "u64 \<Rightarrow> proc_used_page_entry"
  thread_entry :: "u64 \<Rightarrow> nat"
  heap_alloc :: "u64 \<Rightarrow> HeapAllocEntry"
  sleeplocks :: "u64 \<Rightarrow> Sleeplock"
  cr3 :: "nat \<Rightarrow> u64"
  apic_eoi :: "nat \<Rightarrow> nat"
  settings_panic :: bool
  tick_counter :: u64

text \<open>The three list heads of a process. \<open>threads\<close> is the first field of \<open>struct Process\<close>, so its
  address is also the value of the \<open>Process*\<close>, which \<open>waitpid\<close> uses as a sleep channel.\<close>

definition threads_head :: "nat \<Rightarrow> 'a smp_scheme \<Rightarrow> u64" where
  "threads_head p s = dll_head_va (link s) (1 + 3 * p)"
definition used_pages_head :: "nat \<Rightarrow> 'a smp_scheme \<Rightarrow> u64" where
  "used_pages_head p s = dll_head_va (link s) (2 + 3 * p)"
definition heap_allocations_head :: "nat \<Rightarrow> 'a smp_scheme \<Rightarrow> u64" where
  "heap_allocations_head p s = dll_head_va (link s) (3 + 3 * p)"

text \<open>\<open>thread_pagetables_t\<close>: the tables of process \<open>p\<close> lie one after the other.\<close>

definition pgdir_pml4t :: "nat \<Rightarrow> 'a smp_scheme \<Rightarrow> u64" where
  "pgdir_pml4t p s = pgdir_va (link s) p"
definition pgdir_pdpt :: "nat \<Rightarrow> 'a smp_scheme \<Rightarrow> u64" where
  "pgdir_pdpt p s = pgdir_va (link s) p + 0x1000"
definition pgdir_pdt :: "nat \<Rightarrow> nat \<Rightarrow> 'a smp_scheme \<Rightarrow> u64" where
  "pgdir_pdt p k s = row (pgdir_va (link s) p + 0x2000) k"
definition pgdir_pd :: "nat \<Rightarrow> nat \<Rightarrow> 'a smp_scheme \<Rightarrow> u64" where
  "pgdir_pd p k s = row (pgdir_va (link s) p + 0x202000) k"

definition upd_thread :: "nat \<Rightarrow> (Thread \<Rightarrow> Thread) \<Rightarrow> 'a proc_scheme \<Rightarrow> 'a proc_scheme" where
  "upd_thread t f s = s\<lparr>threads := (threads s)(t := f (threads s t))\<rparr>"

definition upd_proc :: "nat \<Rightarrow> (Process \<Rightarrow> Process) \<Rightarrow> 'a proc_scheme \<Rightarrow> 'a proc_scheme" where
  "upd_proc p f s = s\<lparr>procs := (procs s)(p := f (procs s p))\<rparr>"

definition upd_ctx :: "nat \<Rightarrow> (cpu_context_t \<Rightarrow> cpu_context_t) \<Rightarrow> 'a proc_scheme \<Rightarrow> 'a proc_scheme" where
  "upd_ctx t f = upd_thread t (\<lambda>x. x\<lparr>execution_context := f (execution_context x)\<rparr>)"

section \<open>proc.c: table entries\<close>

definition GetCurrentThread :: "'a smp_scheme \<Rightarrow> fault + nat option \<times> 'a smp_scheme" where
  "GetCurrentThread = bnd get_current_cpu (\<lambda>i. gets (\<lambda>s. current_thread (cpus s ! i)))"

text \<open>A use of the returned pointer: dereferencing NULL is undefined.\<close>

definition deref :: "'b option \<Rightarrow> 's \<Rightarrow> fault + 'b \<times> 's" where
  "deref x = (case x of None \<Rightarrow> raise Undefined | Some t \<Rightarrow> ret t)"

definition load_page_table :: "u64 \<Rightarrow> 'a proc_scheme \<Rightarrow> fault + unit \<times> 'a proc_scheme" where
  "load_page_table new_page_table = bnd get_current_cpu (\<lambda>i.
     upd (\<lambda>s. s\<lparr>cr3 := (cr3 s)(i := new_page_table)\<rparr>))"

definition kernel_table :: "'a smp_scheme \<Rightarrow> u64" where
  "kernel_table s = KERNEL_PML4T_PHYS (pml4t_va (link s))"

definition free_slot :: "Thread \<Rightarrow> bool" where
  "free_slot t \<longleftrightarrow> status t = THREAD_STATE_NOT_INITIALIZED \<or> status t = THREAD_STATE_KILLED"

definition FindFreeThread :: "'a proc_scheme \<Rightarrow> fault + nat option \<times> 'a proc_scheme" where
  "FindFreeThread s = Inr (find (\<lambda>i. free_slot (threads s i)) [0..<MAX_NUM_THREADS], s)"

definition FindFreeProcess :: "'a proc_scheme \<Rightarrow> fault + nat option \<times> 'a proc_scheme" where
  "FindFreeProcess s =
     (case find (\<lambda>i. proc_state (procs s i) = PROCESS_STATE_FREE) [0..<MAX_NUM_PROC] of
        None \<Rightarrow> Inr (None, s)
      | Some i \<Rightarrow> Inr (Some i, upd_proc i (\<lambda>p. p\<lparr>pid := of_nat i\<rparr>) s))"

definition CreateIdleThread :: "u64 \<Rightarrow> 'a proc_scheme \<Rightarrow> fault + unit \<times> 'a proc_scheme" where
  "CreateIdleThread ent =
     seqn (upd (\<lambda>s. upd_thread IDLE_THREAD (\<lambda>t. t\<lparr>thread_id := of_nat IDLE_THREAD,
             thread_pml4t_phys := kernel_table s,
             thread_pml4t_va := pml4t_va (link s),
             status := THREAD_STATE_READY,
             can_wakeup := True,
             run_mode := KERNEL_THREAD\<rparr>) s))
    (bnd (kalloc 0x1000) (\<lambda>stack_alloc.
     if stack_alloc = 0 then raise (Panic ''CreateIdleThread() --> kalloc() failed!'')
     else upd (upd_ctx IDLE_THREAD (\<lambda>c. c\<lparr>i_rip := ent, i_rsp := stack_alloc + 0x1000, i_rflags := 0x202,
            i_cs := 0x8, i_ss := 0x10, rdi := 0, rsi := 0, rbp := 0\<rparr>))))"

definition CreateKernelThread :: "u64 \<Rightarrow> 'a proc_scheme \<Rightarrow> fault + unit \<times> 'a proc_scheme" where
  "CreateKernelThread ent =
     seqn (acquire_Spinlock proc_table_lock)
    (bnd FindFreeThread (\<lambda>found. case found of
       None \<Rightarrow> raise (Panic ''CreateKernelThread() --> could not find free thread'')
     | Some tid \<Rightarrow>
       seqn (upd (\<lambda>s. upd_thread tid (\<lambda>t. t\<lparr>thread_id := of_nat tid,
               thread_pml4t_phys := kernel_table s,
               thread_pml4t_va := pml4t_va (link s),
               status := THREAD_STATE_READY,
               run_mode := KERNEL_THREAD\<rparr>) s))
      (bnd (kalloc 0x10000) (\<lambda>stack_alloc.
       if stack_alloc = 0 then raise (Panic ''CreateThread() --> kalloc() failed!'')
       else seqn (upd (upd_thread tid (\<lambda>t. t\<lparr>can_wakeup := True\<rparr>)))
           (seqn (upd (upd_ctx tid (\<lambda>c. c\<lparr>i_rip := ent, i_rsp := stack_alloc + 0x10000, i_rflags := 0x202,
                 i_cs := KERNEL_CS, i_ss := KERNEL_DS, rdi := 0, rsi := 0, rbp := 0\<rparr>)))
                 (release_Spinlock proc_table_lock))))))"

definition SetErrNo :: "nat \<Rightarrow> ERROR \<Rightarrow> 'a proc_scheme \<Rightarrow> fault + unit \<times> 'a proc_scheme" where
  "SetErrNo t e = upd (upd_thread t (\<lambda>x. x\<lparr>errno := e\<rparr>))"

fun error_strings :: "ERROR \<Rightarrow> string" where
  "error_strings NO_ERROR = []"
| "error_strings FILE_NOT_FOUND = ''File not found.'' @ [CHR 0x0A]"
| "error_strings FILE_READ_ERROR = ''File read error.'' @ [CHR 0x0A]"
| "error_strings MAX_ERROR = []"

definition GetErrNo :: "nat \<Rightarrow> 'a proc_scheme \<Rightarrow> fault + string option \<times> 'a proc_scheme" where
  "GetErrNo t = gets (\<lambda>s. let e = errno (threads s t) in
     if e = MAX_ERROR then None else Some (error_strings e))"

section \<open>Sleeping and waking\<close>

text \<open>\<open>Wakeup\<close> and \<open>NoLockWakeup\<close> scan the first 300 entries.\<close>

definition wakes :: "u64 \<Rightarrow> Thread \<Rightarrow> bool" where
  "wakes channel t \<longleftrightarrow> (status t = THREAD_STATE_SLEEPING \<or> status t = THREAD_STATE_WAKEUP_READY)
     \<and> sleep_channel t = channel"

fun wakeup_loop :: "u64 \<Rightarrow> nat \<Rightarrow> (nat \<Rightarrow> Thread) \<Rightarrow> (nat \<Rightarrow> Thread)" where
  "wakeup_loop channel 0 T = T"
| "wakeup_loop channel (Suc i) T =
     (let T1 = wakeup_loop channel i T in
      if wakes channel (T1 i) then T1(i := (T1 i)\<lparr>can_wakeup := True\<rparr>) else T1)"

definition NoLockWakeup :: "u64 \<Rightarrow> 'a proc_scheme \<Rightarrow> fault + unit \<times> 'a proc_scheme" where
  "NoLockWakeup channel = upd (\<lambda>s. s\<lparr>threads := wakeup_loop channel MAX_NUM_THREADS (threads s)\<rparr>)"

definition Wakeup :: "u64 \<Rightarrow> 'a proc_scheme \<Rightarrow> fault + unit \<times> 'a proc_scheme" where
  "Wakeup channel =
     seqn (acquire_Spinlock proc_table_lock)
    (seqn (upd (\<lambda>s. s\<lparr>threads := wakeup_loop channel MAX_NUM_THREADS (threads s)\<rparr>))
          (release_Spinlock proc_table_lock))"

text \<open>
  \<open>ThreadSleep(sleep_channel, spin_lock)\<close> up to its \<open>int3\<close> instruction, and from there on. The result
  of the first half says whether the instruction is reached (the thread is still marked as
  sleeping); control comes back to the second half when the thread runs again.
\<close>

definition ThreadSleep_begin :: "u64 \<Rightarrow> lock_id \<Rightarrow> 'a proc_scheme \<Rightarrow> fault + bool \<times> 'a proc_scheme" where
  "ThreadSleep_begin channel spin_lock =
     bnd GetCurrentThread (\<lambda>thread. bnd (deref thread) (\<lambda>t.
     seqn (upd (upd_thread t (\<lambda>x. x\<lparr>sleep_channel := channel, status := THREAD_STATE_SLEEPING, can_wakeup := False\<rparr>)))
    (seqn (ensure (\<lambda>_. channel \<noteq> 0) (Panic ''ThreadSleep() --> got NULL.''))
    (seqn (if spin_lock \<noteq> proc_table_lock then release_Spinlock spin_lock else ret ())
          (gets (\<lambda>s. status (threads s t) = THREAD_STATE_SLEEPING))))))"

definition ThreadSleep_end :: "nat \<Rightarrow> lock_id \<Rightarrow> 'a proc_scheme \<Rightarrow> fault + unit \<times> 'a proc_scheme" where
  "ThreadSleep_end t spin_lock =
     seqn (upd (upd_thread t (\<lambda>x. x\<lparr>sleep_channel := 0\<rparr>)))
          (if spin_lock \<noteq> proc_table_lock then acquire_Spinlock spin_lock else ret ())"

text \<open>\<open>ExitThread\<close> up to the loop in which the CPU waits for the next timer interrupt.\<close>

definition ExitThread :: "'a proc_scheme \<Rightarrow> fault + unit \<times> 'a proc_scheme" where
  "ExitThread =
     seqn (acquire_Spinlock proc_table_lock)
    (bnd GetCurrentThread (\<lambda>thread. bnd get_current_cpu (\<lambda>i.
     seqn (upd (upd_cpu i (current_thread_update (\<lambda>_. None))))
    (bnd (deref thread) (\<lambda>t.
     seqn (upd (upd_thread t (\<lambda>x. x\<lparr>status := THREAD_STATE_KILLED, thread_id := UINT32_MAX\<rparr>)))
    (seqn (release_Spinlock proc_table_lock)
          (upd (sti i))))))))"

section \<open>sleeplock.c\<close>

definition upd_sleeplock :: "u64 \<Rightarrow> (Sleeplock \<Rightarrow> Sleeplock) \<Rightarrow> 'a proc_scheme \<Rightarrow> 'a proc_scheme" where
  "upd_sleeplock a f s = s\<lparr>sleeplocks := (sleeplocks s)(a := f (sleeplocks s a))\<rparr>"

definition init_Sleeplock :: "u64 \<Rightarrow> 'a proc_scheme \<Rightarrow> fault + unit \<times> 'a proc_scheme" where
  "init_Sleeplock a =
     seqn (init_Spinlock (sleeplock_lock a) ''sleeplock'')
          (upd (upd_sleeplock a (\<lambda>l. l\<lparr>sl_is_locked := False, sl_owner_tid := 0\<rparr>)))"

text \<open>\<open>acquire_Sleeplock\<close> as its two pieces of straight-line code: the test of the loop with the
  inner spinlock held, which either takes the lock or goes to sleep on it, and the way back from
  sleep. The result of \<open>acquire_Sleeplock_try\<close> is \<open>None\<close> when the lock is taken, otherwise whether
  \<open>ThreadSleep\<close> reaches its \<open>int3\<close>.\<close>

definition acquire_Sleeplock_try :: "u64 \<Rightarrow> 'a proc_scheme \<Rightarrow> fault + bool option \<times> 'a proc_scheme" where
  "acquire_Sleeplock_try a =
     bnd (gets (\<lambda>s. sl_is_locked (sleeplocks s a))) (\<lambda>lk.
     if lk then bnd (ThreadSleep_begin a (sleeplock_lock a)) (\<lambda>b. ret (Some b))
     else seqn (upd (upd_sleeplock a (\<lambda>l. l\<lparr>sl_is_locked := True\<rparr>)))
         (bnd GetCurrentThread (\<lambda>thread. bnd (deref thread) (\<lambda>t.
          seqn (upd (\<lambda>s. upd_sleeplock a (\<lambda>l. l\<lparr>sl_owner_tid := thread_id (threads s t)\<rparr>) s))
         (seqn (release_Spinlock (sleeplock_lock a)) (ret None))))))"

definition acquire_Sleeplock_start :: "u64 \<Rightarrow> 'a proc_scheme \<Rightarrow> fault + bool option \<times> 'a proc_scheme" where
  "acquire_Sleeplock_start a =
     seqn (acquire_Spinlock (sleeplock_lock a)) (acquire_Sleeplock_try a)"

definition acquire_Sleeplock_resume :: "u64 \<Rightarrow> nat \<Rightarrow> 'a proc_scheme \<Rightarrow> fault + bool option \<times> 'a proc_scheme" where
  "acquire_Sleeplock_resume a t =
     seqn (ThreadSleep_end t (sleeplock_lock a)) (acquire_Sleeplock_try a)"

definition release_Sleeplock :: "u64 \<Rightarrow> 'a proc_scheme \<Rightarrow> fault + unit \<times> 'a proc_scheme" where
  "release_Sleeplock a =
     seqn (acquire_Spinlock (sleeplock_lock a))
    (seqn (upd (upd_sleeplock a (\<lambda>l. l\<lparr>sl_is_locked := False, sl_owner_tid := UINT32_MAX\<rparr>)))
    (seqn (release_Spinlock (sleeplock_lock a))
          (Wakeup a)))"

definition holdingsleep :: "u64 \<Rightarrow> 'a proc_scheme \<Rightarrow> fault + bool \<times> 'a proc_scheme" where
  "holdingsleep a =
     seqn (acquire_Spinlock (sleeplock_lock a))
    (bnd (gets (\<lambda>s. sl_is_locked (sleeplocks s a))) (\<lambda>lk.
     bnd (if lk then bnd GetCurrentThread (\<lambda>thread. bnd (deref thread) (\<lambda>t.
            gets (\<lambda>s. sl_owner_tid (sleeplocks s a) = thread_id (threads s t)))) else ret False) (\<lambda>r.
     seqn (release_Spinlock (sleeplock_lock a)) (ret r))))"

end
