(* ===== verification/Scheduler.thy ===== *)
theory Scheduler
  imports Process_Table
begin

text \<open>
  The scheduler: src/src/kernel/kernel/scheduler.c, with the two interrupt cases of idt.c that call
  it (the timer and the breakpoint a sleeping thread executes) and \<open>apic_end_of_interrupt\<close>.

  \<open>schedule\<close> does not return when it loads a thread: its last instruction is \<open>iretq\<close>. The result
  type \<open>flow\<close> says which of the two happened and, for \<open>iretq\<close>, which saved context the processor
  continues with.
\<close>

datatype flow = Returned | Iret cpu_context_t

definition apic_end_of_interrupt :: "'a proc_scheme \<Rightarrow> fault + unit \<times> 'a proc_scheme" where
  "apic_end_of_interrupt =
     seqn (upd (\<lambda>s. s\<lparr>apic_eoi := (apic_eoi s)(unat (lapic_id s) := Suc (apic_eoi s (unat (lapic_id s))))\<rparr>))
          NoINT_Disable"

text \<open>The inline assembly at the end of \<open>schedule\<close>: the page table of the thread is loaded, the
  general registers are popped from the saved context, and \<open>iretq\<close> loads the rest, the interrupt
  flag (bit 9 of RFLAGS) included.\<close>

definition iretq_to :: "nat \<Rightarrow> nat \<Rightarrow> 'a proc_scheme \<Rightarrow> fault + flow \<times> 'a proc_scheme" where
  "iretq_to c t s =
     (let x = execution_context (threads s t);
          s1 = s\<lparr>cr3 := (cr3 s)(c := thread_pml4t_phys (threads s t))\<rparr>;
          s2 = upd_cpu c (rflags_IF_update (\<lambda>_. bit (i_rflags x) 9)) s1
      in Inr (Iret x, s2))"

definition schedule :: "nat \<Rightarrow> nat \<Rightarrow> THREAD_STATE \<Rightarrow> 'a proc_scheme \<Rightarrow> fault + flow \<times> 'a proc_scheme" where
  "schedule c t st =
     bnd (gets (\<lambda>s. i_rip (execution_context (threads s t)))) (\<lambda>rip.
     if rip = 0 then ret Returned
     else seqn (upd (upd_cpu c (current_thread_update (\<lambda>_. Some t))))
         (seqn (upd (upd_thread t (status_update (\<lambda>_. st))))
         (seqn (upd (ctx_switch_tss c t))
         (seqn (release_Spinlock proc_table_lock)
         (seqn (upd (cli c))
         (seqn apic_end_of_interrupt
               (iretq_to c t)))))))"

text \<open>\<open>memset(old_thread, sizeof(Thread), 0x00)\<close> writes zero bytes, so a killed thread is left as it is.\<close>

definition SaveThreadContext :: "nat option \<Rightarrow> cpu_context_t option \<Rightarrow> 'a proc_scheme \<Rightarrow> fault + unit \<times> 'a proc_scheme" where
  "SaveThreadContext old_thread ctx =
     (case old_thread of None \<Rightarrow> ret ()
      | Some t \<Rightarrow> (case ctx of None \<Rightarrow> ret ()
      | Some x \<Rightarrow>
         if t = IDLE_THREAD then ret ()
         else bnd (gets (\<lambda>s. status (threads s t))) (\<lambda>st.
           case st of
             THREAD_STATE_KILLED \<Rightarrow> ret ()
           | THREAD_STATE_SLEEPING \<Rightarrow>
               upd (upd_thread t (\<lambda>y. y\<lparr>status := THREAD_STATE_WAKEUP_READY, execution_context := x\<rparr>))
           | THREAD_STATE_RUNNING \<Rightarrow>
               upd (upd_thread t (\<lambda>y. y\<lparr>execution_context := x, status := THREAD_STATE_READY\<rparr>))
           | _ \<Rightarrow> raise (Panic ''InvokeScheduler() --> old_thread was in unexpected state.''))))"

definition HandleNoSchedule :: "nat option \<Rightarrow> 'a proc_scheme \<Rightarrow> fault + unit \<times> 'a proc_scheme" where
  "HandleNoSchedule old_thread =
     seqn apic_end_of_interrupt
    (bnd (deref old_thread) (\<lambda>t.
     bnd (gets (\<lambda>s. threads s t)) (\<lambda>x.
     if run_mode x = USER_THREAD then load_page_table (thread_pml4t_phys x) else ret ())))"

definition ScheduleIdleThread :: "nat option \<Rightarrow> cpu_context_t option \<Rightarrow> 'a proc_scheme \<Rightarrow> fault + flow \<times> 'a proc_scheme" where
  "ScheduleIdleThread old_thread ctx =
     bnd get_current_cpu (\<lambda>c.
     seqn (SaveThreadContext old_thread ctx)
          (schedule c IDLE_THREAD THREAD_STATE_READY))"

text \<open>One pass of the loops of \<open>InvokeScheduler\<close> over \<open>thread_table[i .. n-1]\<close>.\<close>

definition promote :: "nat \<Rightarrow> 'a proc_scheme \<Rightarrow> 'a proc_scheme" where
  "promote i s = (if status (threads s i) = THREAD_STATE_WAKEUP_READY \<and> can_wakeup (threads s i)
     then upd_thread i (status_update (\<lambda>_. THREAD_STATE_READY)) s else s)"

function sched_loop :: "nat \<Rightarrow> nat \<Rightarrow> nat \<Rightarrow> nat option \<Rightarrow> cpu_context_t option \<Rightarrow> 'a proc_scheme \<Rightarrow> fault + flow \<times> 'a proc_scheme" where
  "sched_loop i n c old_thread ctx s =
     (if i < n
      then seqn (ensure (\<lambda>_. i \<le> MAX_NUM_THREADS) Undefined)
          (seqn (upd (promote i))
          (bnd (gets (\<lambda>s. status (threads s i))) (\<lambda>st.
           if st \<noteq> THREAD_STATE_READY then sched_loop (i + 1) n c old_thread ctx
           else seqn (SaveThreadContext old_thread ctx)
               (bnd (schedule c i THREAD_STATE_RUNNING) (\<lambda>f.
                case f of Iret x \<Rightarrow> ret (Iret x)
                | Returned \<Rightarrow> sched_loop (i + 1) n c old_thread ctx))))) s
      else Inr (Returned, s))"
  by pat_completeness auto
termination by (relation "measure (\<lambda>(i, n, _). n - i)") auto

declare sched_loop.simps [simp del]

definition old_thread_id :: "nat option \<Rightarrow> 'a proc_scheme \<Rightarrow> u32" where
  "old_thread_id old_thread s =
     (case old_thread of None \<Rightarrow> UINT32_MAX
      | Some t \<Rightarrow> if thread_id (threads s t) = UINT32_MAX then of_nat MAX_NUM_THREADS else thread_id (threads s t))"

definition schedule_idle :: "nat option \<Rightarrow> cpu_context_t option \<Rightarrow> 'a proc_scheme \<Rightarrow> fault + flow \<times> 'a proc_scheme" where
  "schedule_idle old_thread ctx =
     bnd (gets (\<lambda>s. case old_thread of None \<Rightarrow> True | Some t \<Rightarrow> status (threads s t) = THREAD_STATE_KILLED)) (\<lambda>b.
     bnd (if b then ScheduleIdleThread old_thread ctx else ret Returned) (\<lambda>f.
     case f of Iret x \<Rightarrow> ret (Iret x)
     | Returned \<Rightarrow> seqn (release_Spinlock proc_table_lock) (seqn (HandleNoSchedule old_thread) (ret Returned))))"

text \<open>The body of \<open>InvokeScheduler\<close> between taking the table lock and its end.\<close>

definition sched_decide :: "nat \<Rightarrow> nat option \<Rightarrow> cpu_context_t option \<Rightarrow> 'a proc_scheme \<Rightarrow> fault + flow \<times> 'a proc_scheme" where
  "sched_decide c old_thread ctx =
     bnd (gets (old_thread_id old_thread)) (\<lambda>oid.
     if oid = UINT32_MAX
     then bnd (sched_loop 0 MAX_NUM_THREADS c old_thread ctx) (\<lambda>f.
          case f of Iret x \<Rightarrow> ret (Iret x) | Returned \<Rightarrow> schedule_idle old_thread ctx)
     else bnd (sched_loop (unat (oid + 1)) MAX_NUM_THREADS c old_thread ctx) (\<lambda>f.
          case f of Iret x \<Rightarrow> ret (Iret x)
          | Returned \<Rightarrow> bnd (sched_loop 0 (unat oid) c old_thread ctx) (\<lambda>g.
              case g of Iret x \<Rightarrow> ret (Iret x) | Returned \<Rightarrow> schedule_idle old_thread ctx)))"

definition InvokeScheduler :: "cpu_context_t option \<Rightarrow> 'a proc_scheme \<Rightarrow> fault + flow \<times> 'a proc_scheme" where
  "InvokeScheduler ctx =
     seqn (ensure (\<lambda>s. \<not> settings_panic s) (Panic ''panic2''))
    (bnd get_current_cpu (\<lambda>c.
     bnd (gets (\<lambda>s. current_thread (cpus s ! c))) (\<lambda>old_thread.
     seqn (acquire_Spinlock proc_table_lock)
          (sched_decide c old_thread ctx))))"

section \<open>The interrupts that enter the scheduler\<close>

text \<open>The entry of \<open>isr_handler\<close>, and its cases 3 and \<open>IDT_APIC_TIMER_INT\<close>.\<close>

definition isr_enter :: "'a proc_scheme \<Rightarrow> fault + unit \<times> 'a proc_scheme" where
  "isr_enter = seqn (bnd (gets kernel_table) load_page_table) NoINT_Enable"

definition isr_int3 :: "cpu_context_t \<Rightarrow> 'a proc_scheme \<Rightarrow> fault + flow \<times> 'a proc_scheme" where
  "isr_int3 tf =
     bnd GetCurrentThread (\<lambda>thread. bnd (deref thread) (\<lambda>t.
     bnd (gets (\<lambda>s. status (threads s t))) (\<lambda>st.
     if st = THREAD_STATE_SLEEPING
     then bnd (InvokeScheduler (Some tf)) (\<lambda>f.
          case f of Iret x \<Rightarrow> ret (Iret x)
          | Returned \<Rightarrow> seqn apic_end_of_interrupt (ret Returned))
     else raise (Panic [CHR 0x0A]))))"

definition isr_timer :: "bool \<Rightarrow> cpu_context_t \<Rightarrow> 'a proc_scheme \<Rightarrow> fault + flow \<times> 'a proc_scheme" where
  "isr_timer bTimerCalibrated tf =
     seqn (ensure (\<lambda>_. bTimerCalibrated) (Panic ''isr_handler() --> APIC TIMER INTERRUPT BEFORE CALIBRATION.''))
    (seqn (upd (\<lambda>s. s\<lparr>tick_counter := tick_counter s + 1\<rparr>))
          (InvokeScheduler (Some tf)))"

section \<open>Operations that the tables do not notice\<close>

text \<open>The part of the state that decides which thread runs where, and the operations that leave it
  alone whenever they return.\<close>

definition view :: "'a proc_scheme \<Rightarrow> u32 \<times> u16 list \<times> nat option list \<times> (nat \<Rightarrow> Thread) \<times> bool" where
  "view s = (lapic_id s, map cpu_id (cpus s), map current_thread (cpus s), threads s, settings_panic s)"

definition quiet :: "('a proc_scheme \<Rightarrow> fault + 'b \<times> 'a proc_scheme) \<Rightarrow> bool" where
  "quiet m \<longleftrightarrow> (\<forall>s b t. m s = Inr (b, t) \<longrightarrow> view t = view s)"

lemma quietD: "quiet m \<Longrightarrow> m s = Inr (b, t) \<Longrightarrow> view t = view s"
  by (auto simp: quiet_def)

lemma quiet_bnd: "quiet m \<Longrightarrow> (\<And>a. quiet (f a)) \<Longrightarrow> quiet (bnd m f)"
  unfolding quiet_def bnd_Inr_iff by metis

lemma quiet_seqn: "quiet m \<Longrightarrow> quiet n \<Longrightarrow> quiet (seqn m n)"
  unfolding quiet_def seqn_Inr_iff by metis

lemma quiet_basic: "quiet (ret a)" "quiet (gets f)" "quiet (raise e)" "quiet (ensure P e)"
  by (auto simp: quiet_def)

lemma quiet_upd: "(\<And>s. view (f s) = view s) \<Longrightarrow> quiet (upd f)"
  by (auto simp: quiet_def)

lemma map_upd_same: "f x = f (xs ! i) \<Longrightarrow> map f (xs[i := x]) = map f xs"
  by (metis list_update_id map_update)

lemma map_nth_same: "(map f xs)[i := f (xs ! i)] = map f xs"
  by (metis list_update_id map_update)

lemma view_upd_cpu:
  "(\<And>x. cpu_id (f x) = cpu_id x) \<Longrightarrow> (\<And>x. current_thread (f x) = current_thread x) \<Longrightarrow>
   view (upd_cpu i f s) = view s"
  by (simp add: view_def upd_cpu_def map_upd_same)

lemma view_upd_lock [simp]: "view (upd_lock l f s) = view s"
  by (simp add: view_def upd_lock_def)

lemma quiet_get_current_cpu: "quiet get_current_cpu"
  by (auto simp: quiet_def dest: get_current_cpu_frame)

lemmas quiet_rules = quiet_bnd quiet_seqn quiet_basic quiet_upd quiet_get_current_cpu

lemma quiet_inc_cli: "quiet inc_cli"
  unfolding inc_cli_def cli_def by (intro quiet_rules) (simp add: view_upd_cpu)

lemma quiet_dec_cli: "quiet dec_cli"
  unfolding dec_cli_def sti_def by (intro quiet_rules) (simp_all add: view_upd_cpu)

lemma quiet_check_held: "quiet (spinlock_check_held l)"
  unfolding spinlock_check_held_def by (intro quiet_rules) (auto intro: quiet_rules)

lemma quiet_acquire: "quiet (acquire_Spinlock l)"
  unfolding acquire_Spinlock_def
  by (intro quiet_bnd quiet_seqn quiet_inc_cli quiet_check_held) (auto intro!: quiet_rules)

lemma quiet_release: "quiet (release_Spinlock l)"
  unfolding release_Spinlock_def
  by (intro quiet_bnd quiet_check_held) (auto intro!: quiet_rules quiet_dec_cli)

lemma quiet_noINT: "quiet NoINT_Enable" "quiet NoINT_Disable"
  unfolding NoINT_Enable_def NoINT_Disable_def by (intro quiet_rules; simp add: view_upd_cpu)+

lemma quiet_eoi: "quiet apic_end_of_interrupt"
  unfolding apic_end_of_interrupt_def by (intro quiet_rules quiet_noINT) (simp add: view_def)

lemma quiet_load_page_table: "quiet (load_page_table a)"
  unfolding load_page_table_def by (intro quiet_rules) (simp add: view_def)

lemma quiet_deref: "quiet (deref x)"
  unfolding deref_def by (auto intro: quiet_rules split: option.splits)

lemma quiet_HandleNoSchedule: "quiet (HandleNoSchedule old)"
  unfolding HandleNoSchedule_def
  by (intro quiet_bnd quiet_seqn quiet_eoi quiet_deref quiet_basic) (auto intro: quiet_rules quiet_load_page_table)

lemma quiet_isr_enter: "quiet isr_enter"
  unfolding isr_enter_def by (intro quiet_bnd quiet_seqn quiet_basic quiet_load_page_table quiet_noINT)

lemma quiet_GetCurrentThread: "quiet GetCurrentThread"
  unfolding GetCurrentThread_def by (intro quiet_rules)

lemma view_threads: "view s = view t \<Longrightarrow> threads s = threads t"
  and view_lapic: "view s = view t \<Longrightarrow> lapic_id s = lapic_id t"
  and view_ids: "view s = view t \<Longrightarrow> map cpu_id (cpus s) = map cpu_id (cpus t)"
  and view_curr: "view s = view t \<Longrightarrow> map current_thread (cpus s) = map current_thread (cpus t)"
  and view_panic: "view s = view t \<Longrightarrow> settings_panic s = settings_panic t"
  by (simp_all add: view_def)

lemma view_length: "view s = view t \<Longrightarrow> length (cpus s) = length (cpus t)"
  by (metis length_map view_ids)

lemma view_curr_nth: "view s = view t \<Longrightarrow> i < length (cpus t) \<Longrightarrow> current_thread (cpus s ! i) = current_thread (cpus t ! i)"
  by (metis nth_map view_curr view_length)

lemma find_cpu_ids: "map cpu_id cs = map cpu_id ds \<Longrightarrow> find_cpu l cs = find_cpu l ds"
proof (induction cs arbitrary: ds)
  case (Cons c cs)
  then show ?case by (cases ds) auto
qed simp

lemma view_registered: "view s = view t \<Longrightarrow> registered s i = registered t i"
  unfolding registered_def by (metis find_cpu_ids view_ids view_lapic)

section \<open>Which thread runs next\<close>

definition runnable :: "Thread \<Rightarrow> bool" where
  "runnable t \<longleftrightarrow> status t = THREAD_STATE_READY \<or> (status t = THREAD_STATE_WAKEUP_READY \<and> can_wakeup t)"

text \<open>Threads the scheduler may load have been given an instruction pointer.\<close>

definition rips_ok :: "(nat \<Rightarrow> Thread) \<Rightarrow> bool" where
  "rips_ok T \<longleftrightarrow> (\<forall>k < MAX_NUM_THREADS. status (T k) = THREAD_STATE_READY \<or> status (T k) = THREAD_STATE_WAKEUP_READY
     \<longrightarrow> i_rip (execution_context (T k)) \<noteq> 0)"

definition switch_to :: "nat \<Rightarrow> nat option \<Rightarrow> cpu_context_t option \<Rightarrow> nat \<Rightarrow> 'a proc_scheme \<Rightarrow> fault + flow \<times> 'a proc_scheme" where
  "switch_to c old_thread ctx k =
     seqn (upd (promote k)) (seqn (SaveThreadContext old_thread ctx) (schedule c k THREAD_STATE_RUNNING))"

lemma seqn_not_Returned: "(\<And>t u. n t \<noteq> Inr (Returned, u)) \<Longrightarrow> seqn m n s \<noteq> Inr (Returned, u)"
  by (auto simp: seqn_Inr_iff)

lemma schedule_not_Returned:
  assumes "i_rip (execution_context (threads s t)) \<noteq> 0"
  shows "schedule c t st s \<noteq> Inr (Returned, u)"
  unfolding schedule_def bnd_gets if_not_P [OF assms]
  by (rule seqn_not_Returned)+ (simp add: iretq_to_def Let_def)

lemma SaveThreadContext_other:
  assumes "SaveThreadContext old ctx s = Inr (b, u)" and "status (threads s k) = THREAD_STATE_READY"
  shows "k = IDLE_THREAD \<or> threads u k = threads s k"
  using assms
  by (auto simp: SaveThreadContext_def bnd_gets upd_thread_def split: option.splits if_splits THREAD_STATE.splits)

lemma bnd_Iret:
  assumes "\<And>u. m s \<noteq> Inr (Returned, u)"
  shows "bnd m (\<lambda>f. case f of Iret x \<Rightarrow> ret (Iret x) | Returned \<Rightarrow> n) s = m s"
proof (cases "m s")
  case (Inr r)
  then show ?thesis using assms by (cases r; cases "fst r") (auto simp: bnd_def ret_def)
qed (simp add: bnd_def)

lemma sched_loop_find:
  assumes rips: "rips_ok (threads s)" and n: "n \<le> MAX_NUM_THREADS"
  shows "sched_loop i n c old ctx s =
    (case find (\<lambda>k. runnable (threads s k)) [i..<n] of
       None \<Rightarrow> Inr (Returned, s)
     | Some k \<Rightarrow> switch_to c old ctx k s)"
  using n
proof (induction "n - i" arbitrary: i)
  case 0
  then show ?case by (simp add: sched_loop.simps)
next
  case (Suc d)
  then have i: "i < n" by simp
  have IH: "sched_loop (Suc i) n c old ctx s = (case find (\<lambda>k. runnable (threads s k)) [Suc i..<n] of
       None \<Rightarrow> Inr (Returned, s) | Some k \<Rightarrow> switch_to c old ctx k s)"
    using Suc by (intro Suc.hyps(1)) auto
  let ?m = "\<lambda>t. seqn (SaveThreadContext old ctx) (bnd (schedule c i THREAD_STATE_RUNNING) (\<lambda>f.
                case f of Iret x \<Rightarrow> ret (Iret x) | Returned \<Rightarrow> sched_loop (i + 1) n c old ctx)) t"
  have unf: "sched_loop i n c old ctx s =
     (if status (threads (promote i s) i) \<noteq> THREAD_STATE_READY then sched_loop (i + 1) n c old ctx (promote i s)
      else ?m (promote i s))"
    using i Suc.prems by (subst sched_loop.simps) (simp add: seqn_def bnd_def ensure_def upd_def gets_def)
  show ?case
  proof (cases "runnable (threads s i)")
    case False
    then have "promote i s = s" "status (threads s i) \<noteq> THREAD_STATE_READY"
      by (auto simp: promote_def runnable_def)
    with unf IH False i show ?thesis by (simp add: upt_conv_Cons)
  next
    case True
    then have st: "status (threads (promote i s) i) = THREAD_STATE_READY"
      by (auto simp: promote_def runnable_def upd_thread_def)
    have rip: "i_rip (execution_context (threads (promote i s) i)) \<noteq> 0"
      using rips True i Suc.prems by (auto simp: promote_def runnable_def upd_thread_def rips_ok_def)
    have "?m (promote i s) = seqn (SaveThreadContext old ctx) (schedule c i THREAD_STATE_RUNNING) (promote i s)"
    proof (cases "SaveThreadContext old ctx (promote i s)")
      case (Inr r)
      obtain a u where r: "r = (a, u)" by (cases r)
      from SaveThreadContext_other [OF Inr [unfolded r] st] i Suc.prems
      have "threads u i = threads (promote i s) i" by (auto simp: IDLE_THREAD_def)
      with rip have "\<And>v. schedule c i THREAD_STATE_RUNNING u \<noteq> Inr (Returned, v)"
        by (intro schedule_not_Returned) simp
      then show ?thesis using Inr r by (simp add: seqn_step bnd_Iret)
    qed (simp add: seqn_fail)
    then have "sched_loop i n c old ctx s =
        seqn (SaveThreadContext old ctx) (schedule c i THREAD_STATE_RUNNING) (promote i s)"
      using unf st by metis
    with True i show ?thesis by (simp add: upt_conv_Cons switch_to_def seqn_upd)
  qed
qed

text \<open>What \<open>SaveThreadContext\<close> does to the thread table, when it does not panic.\<close>

definition save_ok :: "nat option \<Rightarrow> cpu_context_t option \<Rightarrow> (nat \<Rightarrow> Thread) \<Rightarrow> bool" where
  "save_ok old ctx T \<longleftrightarrow> (case old of None \<Rightarrow> True | Some t \<Rightarrow> ctx = None \<or> t = IDLE_THREAD \<or>
     status (T t) \<in> {THREAD_STATE_KILLED, THREAD_STATE_SLEEPING, THREAD_STATE_RUNNING})"

definition saved :: "nat option \<Rightarrow> cpu_context_t option \<Rightarrow> (nat \<Rightarrow> Thread) \<Rightarrow> (nat \<Rightarrow> Thread)" where
  "saved old ctx T = (case (old, ctx) of
       (Some t, Some x) \<Rightarrow>
         if t = IDLE_THREAD then T
         else if status (T t) = THREAD_STATE_SLEEPING
         then T(t := (T t)\<lparr>status := THREAD_STATE_WAKEUP_READY, execution_context := x\<rparr>)
         else if status (T t) = THREAD_STATE_RUNNING
         then T(t := (T t)\<lparr>execution_context := x, status := THREAD_STATE_READY\<rparr>)
         else T
     | _ \<Rightarrow> T)"

lemma SaveThreadContext_run:
  "SaveThreadContext old ctx s = (if save_ok old ctx (threads s)
     then Inr ((), s\<lparr>threads := saved old ctx (threads s)\<rparr>)
     else Inl (Panic ''InvokeScheduler() --> old_thread was in unexpected state.''))"
  by (auto simp: SaveThreadContext_def save_ok_def saved_def bnd_gets upd_thread_def ret_def upd_def raise_def
      split: option.splits THREAD_STATE.splits)

lemma view_upd_thread: "view (upd_thread t f s) = (lapic_id s, map cpu_id (cpus s), map current_thread (cpus s),
    (threads s)(t := f (threads s t)), settings_panic s)"
  by (simp add: view_def upd_thread_def)

lemma view_set_threads: "view (s\<lparr>threads := T\<rparr>) = (lapic_id s, map cpu_id (cpus s), map current_thread (cpus s),
    T, settings_panic s)"
  by (simp add: view_def)

lemma cpu_id_ctx_switch [simp]: "map cpu_id (cpus (ctx_switch_tss c t s)) = map cpu_id (cpus s)"
  "map current_thread (cpus (ctx_switch_tss c t s)) = map current_thread (cpus s)"
  by (simp_all add: ctx_switch_tss_def upd_cpu_def map_upd_same Let_def set_tss_def write_gdt_def)

lemma ctx_switch_view [simp]: "view (ctx_switch_tss c t s) = view s"
  unfolding view_def by simp (simp add: ctx_switch_tss_def upd_cpu_def)

lemma schedule_view:
  assumes "schedule c t st s = Inr (f, u)" and "i_rip (execution_context (threads s t)) \<noteq> 0"
  shows "f = Iret (execution_context (threads s t)) \<and>
    view u = (lapic_id s, map cpu_id (cpus s), (map current_thread (cpus s))[c := Some t],
      (threads s)(t := (threads s t)\<lparr>status := st\<rparr>), settings_panic s)"
proof -
  let ?s1 = "upd_cpu c (current_thread_update (\<lambda>_. Some t)) s"
  let ?s3 = "ctx_switch_tss c t (upd_thread t (status_update (\<lambda>_. st)) ?s1)"
  from assms obtain s4 s5 where r: "release_Spinlock proc_table_lock ?s3 = Inr ((), s4)"
    and e: "apic_end_of_interrupt (cli c s4) = Inr ((), s5)" and i: "iretq_to c t s5 = Inr (f, u)"
    by (auto simp: schedule_def bnd_gets seqn_Inr_iff)
  have v3: "view ?s3 = (lapic_id s, map cpu_id (cpus s), (map current_thread (cpus s))[c := Some t],
      (threads s)(t := (threads s t)\<lparr>status := st\<rparr>), settings_panic s)"
    by (simp add: view_upd_thread) (simp add: upd_cpu_def map_update map_nth_same)
  have v5: "view s5 = view ?s3"
    using quietD [OF quiet_release r] quietD [OF quiet_eoi e] by (simp add: cli_def view_upd_cpu)
  with v3 have "threads s5 = (threads s)(t := (threads s t)\<lparr>status := st\<rparr>)" by (simp add: view_def)
  with i have f: "f = Iret (execution_context (threads s t))" by (simp add: iretq_to_def Let_def)
  from i have "view u = view s5"
    by (auto simp: iretq_to_def Let_def view_def upd_cpu_def map_upd_same)
  with v5 v3 f show ?thesis by simp
qed

lemma promote_saved:
  assumes "runnable (threads s k)"
  shows "promote k s = s\<lparr>threads := (threads s)(k := (threads s k)\<lparr>status := THREAD_STATE_READY\<rparr>)\<rparr>"
  using assms by (cases "threads s k") (auto simp: promote_def runnable_def upd_thread_def fun_upd_idem)

text \<open>The thread table after a switch from \<open>old\<close> to \<open>k\<close>.\<close>

definition switched :: "nat option \<Rightarrow> cpu_context_t option \<Rightarrow> nat \<Rightarrow> (nat \<Rightarrow> Thread) \<Rightarrow> (nat \<Rightarrow> Thread)" where
  "switched old ctx k T = (saved old ctx T)(k := (T k)\<lparr>status := THREAD_STATE_RUNNING\<rparr>)"

lemma saved_other: "old \<noteq> Some k \<Longrightarrow> saved old ctx (T(k := x)) = (saved old ctx T)(k := x)"
  by (auto simp: saved_def fun_upd_twist split: option.splits)

lemma saved_at_other: "old \<noteq> Some k \<Longrightarrow> saved old ctx T k = T k"
  by (auto simp: saved_def split: option.splits)

lemma switch_to_view:
  assumes sw: "switch_to c old ctx k s = Inr (f, u)" and r: "runnable (threads s k)"
    and rip: "i_rip (execution_context (threads s k)) \<noteq> 0" and ne: "old \<noteq> Some k"
  shows "f = Iret (execution_context (threads s k)) \<and>
    view u = (lapic_id s, map cpu_id (cpus s), (map current_thread (cpus s))[c := Some k],
      switched old ctx k (threads s), settings_panic s)"
proof -
  let ?T1 = "(threads s)(k := (threads s k)\<lparr>status := THREAD_STATE_READY\<rparr>)"
  from sw have sch: "schedule c k THREAD_STATE_RUNNING (s\<lparr>threads := saved old ctx ?T1\<rparr>) = Inr (f, u)"
    by (auto simp: switch_to_def seqn_upd promote_saved [OF r] seqn_Inr_iff SaveThreadContext_run split: if_splits)
  have k: "saved old ctx ?T1 k = (threads s k)\<lparr>status := THREAD_STATE_READY\<rparr>"
    by (simp add: saved_other [OF ne])
  from schedule_view [OF sch] rip k show ?thesis
    by (simp add: saved_other [OF ne] switched_def)
qed

section \<open>A scheduling decision always completes\<close>

lemma NoINT_Disable_run:
  "registered s c \<Longrightarrow> NoINT_Disable s = Inr ((), upd_cpu c (noINT_update (\<lambda>_. False)) s)"
  by (simp add: NoINT_Disable_def bnd_def get_current_cpu_registered upd_def)

lemma apic_eoi_run:
  assumes "registered s c"
  shows "\<exists>e. apic_end_of_interrupt s = Inr ((), upd_cpu c (noINT_update (\<lambda>_. False)) (s\<lparr>apic_eoi := e\<rparr>))"
proof -
  have "registered (s\<lparr>apic_eoi := e\<rparr>) c" for e using assms by (simp add: registered_def)
  from NoINT_Disable_run [OF this] show ?thesis
    unfolding apic_end_of_interrupt_def seqn_upd by blast
qed

lemma lock_held_upd_thread [simp]: "lock_held l (upd_thread t f s) = lock_held l s"
  by (simp add: lock_held_def upd_thread_def registered_def)

lemma lock_held_upd_cpu:
  assumes "\<And>x. cpu_id (f x) = cpu_id x" "\<And>x. rflags_IF (f x) = rflags_IF x" "\<And>x. cli_count (f x) = cli_count x"
  shows "lock_held l (upd_cpu c f s) = lock_held l s"
proof -
  have "rflags_IF ((cpus s)[c := f (cpus s ! c)] ! i) = rflags_IF (cpus s ! i)
      \<and> cli_count ((cpus s)[c := f (cpus s ! c)] ! i) = cli_count (cpus s ! i)" for i
    using assms(2,3) by (cases "c < length (cpus s)"; cases "i = c") (auto simp: list_update_beyond)
  then show ?thesis by (simp add: lock_held_def registered_upd_cpu assms(1))
qed

lemma lock_held_ctx_switch [simp]: "lock_held l (ctx_switch_tss c t s) = lock_held l s"
  unfolding ctx_switch_tss_def by (rule lock_held_upd_cpu) (simp_all add: Let_def set_tss_def write_gdt_def)

lemma registered_upd_thread [simp]: "registered (upd_thread t f s) i = registered s i"
  by (simp add: registered_def upd_thread_def)

lemma registered_ctx_switch [simp]: "registered (ctx_switch_tss c t s) i = registered s i"
  unfolding ctx_switch_tss_def by (rule registered_upd_cpu) (simp add: Let_def set_tss_def write_gdt_def)

lemma schedule_run:
  assumes reg: "registered s c" and held: "lock_held proc_table_lock s"
    and rip: "i_rip (execution_context (threads s t)) \<noteq> 0"
  shows "\<exists>u. schedule c t st s = Inr (Iret (execution_context (threads s t)), u)
     \<and> \<not> is_locked (locks u proc_table_lock) \<and> cr3 u c = thread_pml4t_phys (threads s t)
     \<and> \<not> noINT (cpus u ! c) \<and> rflags_IF (cpus u ! c) = bit (i_rflags (execution_context (threads s t))) 9"
proof -
  let ?s1 = "upd_cpu c (current_thread_update (\<lambda>_. Some t)) s"
  let ?s3 = "ctx_switch_tss c t (upd_thread t (status_update (\<lambda>_. st)) ?s1)"
  have r3: "registered ?s3 c" using reg by (simp add: registered_upd_cpu)
  have h3: "lock_held proc_table_lock ?s3" using held by (simp add: lock_held_upd_cpu)
  from lock_held_dropped [OF h3] r3 registered_unique
  obtain s4 where s4: "s4 = lock_dropped proc_table_lock c ?s3"
    and rel: "release_Spinlock proc_table_lock ?s3 = Inr ((), s4)" by blast
  have r4: "registered (cli c s4) c" using r3 s4 by (simp add: lock_dropped_def cli_def registered_upd_cpu)
  from apic_eoi_run [OF r4] obtain e where
    e: "apic_end_of_interrupt (cli c s4) = Inr ((), upd_cpu c (noINT_update (\<lambda>_. False)) ((cli c s4)\<lparr>apic_eoi := e\<rparr>))" by blast
  let ?s5 = "upd_cpu c (noINT_update (\<lambda>_. False)) ((cli c s4)\<lparr>apic_eoi := e\<rparr>)"
  have "schedule c t st s = iretq_to c t ?s5"
    using rip by (simp add: schedule_def bnd_gets seqn_upd
        seqn_step [where m = "release_Spinlock proc_table_lock", OF rel]
        seqn_step [where m = apic_end_of_interrupt, OF e])
  moreover have "threads ?s5 = (threads s)(t := (threads s t)\<lparr>status := st\<rparr>)"
    by (simp add: s4 lock_dropped_def cli_def upd_cpu_def upd_lock_def ctx_switch_tss_def upd_thread_def)
  moreover have "\<not> is_locked (locks ?s5 proc_table_lock)"
    by (simp add: s4 lock_dropped_def cli_def upd_cpu_def upd_lock_def)
  moreover have "c < length (cpus ?s5)"
    using registered_less [OF r4] by simp
  ultimately show ?thesis
    by (auto simp: iretq_to_def Let_def upd_cpu_def)
qed

lemma switch_to_run:
  assumes reg: "registered s c" and held: "lock_held proc_table_lock s"
    and r: "runnable (threads s k)" and rip: "i_rip (execution_context (threads s k)) \<noteq> 0"
    and ne: "old \<noteq> Some k" and sv: "save_ok old ctx (threads s)"
  shows "\<exists>u. switch_to c old ctx k s = Inr (Iret (execution_context (threads s k)), u)
     \<and> \<not> is_locked (locks u proc_table_lock) \<and> cr3 u c = thread_pml4t_phys (threads s k)
     \<and> \<not> noINT (cpus u ! c) \<and> rflags_IF (cpus u ! c) = bit (i_rflags (execution_context (threads s k))) 9"
proof -
  let ?T1 = "(threads s)(k := (threads s k)\<lparr>status := THREAD_STATE_READY\<rparr>)"
  let ?s2 = "s\<lparr>threads := saved old ctx ?T1\<rparr>"
  have sv1: "save_ok old ctx ?T1" using sv ne by (auto simp: save_ok_def split: option.splits)
  have k: "saved old ctx ?T1 k = (threads s k)\<lparr>status := THREAD_STATE_READY\<rparr>"
    by (simp add: saved_other [OF ne])
  have "switch_to c old ctx k s = schedule c k THREAD_STATE_RUNNING ?s2"
    by (simp add: switch_to_def seqn_upd promote_saved [OF r] seqn_step [where m = "SaveThreadContext old ctx"]
        SaveThreadContext_run sv1)
  moreover have "registered ?s2 c" using reg by (simp add: registered_def)
  moreover have "lock_held proc_table_lock ?s2" using held by (simp add: lock_held_def registered_def)
  ultimately show ?thesis using schedule_run [of ?s2 c k THREAD_STATE_RUNNING] rip k by simp
qed

text \<open>The order in which \<open>InvokeScheduler\<close> looks at the table, from the identifier of the old thread.\<close>

definition sched_order :: "u32 \<Rightarrow> nat list" where
  "sched_order oid = (if oid = UINT32_MAX then [0..<MAX_NUM_THREADS]
     else [Suc (unat oid)..<MAX_NUM_THREADS] @ [0..<unat oid])"

definition next_thread :: "nat option \<Rightarrow> 'a proc_scheme \<Rightarrow> nat option" where
  "next_thread old s = find (\<lambda>k. runnable (threads s k)) (sched_order (old_thread_id old s))"

definition oid_ok :: "nat option \<Rightarrow> 'a proc_scheme \<Rightarrow> bool" where
  "oid_ok old s \<longleftrightarrow> old_thread_id old s = UINT32_MAX \<or> unat (old_thread_id old s) \<le> MAX_NUM_THREADS"

lemma find_append: "find P (xs @ ys) = (case find P xs of None \<Rightarrow> find P ys | Some x \<Rightarrow> Some x)"
  by (induction xs) auto

lemma unat_plus_one_u32: "x \<noteq> UINT32_MAX \<Longrightarrow> unat (x + 1) = Suc (unat x)" for x :: u32
  by (metis Suc_eq_plus1 add.commute unatSuc u32_plus_one_eq_0_iff)

lemma switch_to_not_Returned:
  assumes "runnable (threads s k)" "i_rip (execution_context (threads s k)) \<noteq> 0" "k \<noteq> IDLE_THREAD"
  shows "switch_to c old ctx k s \<noteq> Inr (Returned, u)"
proof
  assume sw: "switch_to c old ctx k s = Inr (Returned, u)"
  let ?T1 = "(threads s)(k := (threads s k)\<lparr>status := THREAD_STATE_READY\<rparr>)"
  from sw have sch: "schedule c k THREAD_STATE_RUNNING (s\<lparr>threads := saved old ctx ?T1\<rparr>) = Inr (Returned, u)"
    and ok: "save_ok old ctx ?T1"
    by (auto simp: switch_to_def seqn_upd promote_saved [OF assms(1)] seqn_Inr_iff SaveThreadContext_run split: if_splits)
  have "saved old ctx ?T1 k = ?T1 k"
    using ok assms(3) by (cases "old = Some k") (auto simp: save_ok_def saved_at_other, auto simp: saved_def)
  then show False using schedule_not_Returned [of "s\<lparr>threads := saved old ctx ?T1\<rparr>" k] sch assms(2) by simp
qed

lemma find_SomeD: "find P xs = Some x \<Longrightarrow> x \<in> set xs \<and> P x"
  by (induction xs) (auto split: if_splits)

lemma sched_decide_next:
  assumes oid: "oid_ok old s" and rips: "rips_ok (threads s)"
  shows "sched_decide c old ctx s = (case next_thread old s of
       Some k \<Rightarrow> switch_to c old ctx k s | None \<Rightarrow> schedule_idle old ctx s)"
proof -
  let ?o = "old_thread_id old s"
  note loop = sched_loop_find [OF rips, where c = c and old = old and ctx = ctx]
  have sw: "switch_to c old ctx k s \<noteq> Inr (Returned, u)" if "runnable (threads s k)" "k < MAX_NUM_THREADS" for k u
    using that rips by (intro switch_to_not_Returned) (auto simp: rips_ok_def runnable_def IDLE_THREAD_def)
  have tail: "bnd (sched_loop i n c old ctx) (\<lambda>f. case f of Iret x \<Rightarrow> ret (Iret x) | Returned \<Rightarrow> m) s =
     (case find (\<lambda>k. runnable (threads s k)) [i..<n] of Some k \<Rightarrow> switch_to c old ctx k s | None \<Rightarrow> m s)"
    if "n \<le> MAX_NUM_THREADS" for i n m
  proof (cases "find (\<lambda>k. runnable (threads s k)) [i..<n]")
    case None
    then show ?thesis using loop [OF that] by (simp add: bnd_def)
  next
    case (Some k)
    from find_SomeD [OF Some] that have "runnable (threads s k)" "k < MAX_NUM_THREADS" by auto
    then show ?thesis using loop [OF that, of i] Some by (simp add: bnd_Iret sw)
  qed
  show ?thesis
  proof (cases "?o = UINT32_MAX")
    case True
    then show ?thesis using tail [of MAX_NUM_THREADS 0]
      by (simp add: sched_decide_def bnd_gets next_thread_def sched_order_def)
  next
    case False
    with oid have "unat ?o \<le> MAX_NUM_THREADS" by (simp add: oid_ok_def)
    with False show ?thesis
      by (simp add: sched_decide_def bnd_gets next_thread_def sched_order_def tail find_append unat_plus_one_u32
          split: option.split)
  qed
qed

lemma old_thread_id_cong: "threads s = threads t \<Longrightarrow> old_thread_id old s = old_thread_id old t"
  by (simp add: old_thread_id_def split: option.splits)

lemma next_thread_cong: "threads s = threads t \<Longrightarrow> next_thread old s = next_thread old t"
  by (simp add: next_thread_def old_thread_id_cong [of s t])

lemma oid_ok_cong: "threads s = threads t \<Longrightarrow> oid_ok old s = oid_ok old t"
  by (simp add: oid_ok_def old_thread_id_cong [of s t])

lemma InvokeScheduler_unfold:
  assumes reg: "registered s c" and free: "\<not> is_locked (locks s proc_table_lock)" and np: "\<not> settings_panic s"
    and old: "current_thread (cpus s ! c) = old" and oid: "oid_ok old s" and rips: "rips_ok (threads s)"
  shows "InvokeScheduler ctx s = (case next_thread old s of
       Some k \<Rightarrow> switch_to c old ctx k (lock_taken proc_table_lock c s)
     | None \<Rightarrow> schedule_idle old ctx (lock_taken proc_table_lock c s))"
proof -
  let ?s1 = "lock_taken proc_table_lock c s"
  have T: "threads ?s1 = threads s" by (simp add: lock_taken_def upd_cpu_def upd_lock_def)
  have "InvokeScheduler ctx s = sched_decide c old ctx ?s1"
    unfolding InvokeScheduler_def
    by (subst seqn_step [where t = s and a = "()"], simp add: ensure_def np)
       (simp add: bnd_step [where m = get_current_cpu, OF get_current_cpu_registered [OF reg]] bnd_gets old
          seqn_step [where m = "acquire_Spinlock proc_table_lock", OF acquire_Spinlock_free [OF reg free]])
  with sched_decide_next [of old ?s1 c ctx] oid rips show ?thesis
    by (simp add: T next_thread_cong [OF T] oid_ok_cong [OF T])
qed

section \<open>Round robin\<close>

lemma next_thread_props:
  assumes "next_thread old s = Some k" and "oid_ok old s"
  shows "k < MAX_NUM_THREADS \<and> runnable (threads s k) \<and> k \<in> set (sched_order (old_thread_id old s))"
  using find_SomeD [OF assms(1) [unfolded next_thread_def]] assms(2)
  by (auto simp: sched_order_def oid_ok_def split: if_splits)

lemma save_ok_not_next:
  assumes "save_ok old (Some x) (threads s)" "runnable (threads s k)" "k < MAX_NUM_THREADS"
  shows "old \<noteq> Some k"
  using assms by (auto simp: save_ok_def runnable_def IDLE_THREAD_def)

lemma view_lock_taken: "view (lock_taken l c s) = view s"
  by (simp add: lock_taken_def view_upd_cpu)

lemma registered_lock_taken: "registered (lock_taken l c s) i = registered s i"
  by (simp add: lock_taken_def registered_upd_cpu)

lemma lock_free_held:
  assumes "registered s c" "\<not> is_locked (locks s l)" "cli_count (cpus s ! c) \<noteq> UINT32_MAX"
  shows "lock_held l (lock_taken l c s)"
  using lock_free_taken [of l s] assms registered_unique by (auto simp: lock_free_def)

text \<open>Positions in the table, counted cyclically from the entry the scheduler looks at first.\<close>

definition sched_start :: "u32 \<Rightarrow> nat" where
  "sched_start oid = (if oid = UINT32_MAX \<or> MAX_NUM_THREADS \<le> Suc (unat oid) then 0 else Suc (unat oid))"

definition cdist :: "nat \<Rightarrow> nat \<Rightarrow> nat" where
  "cdist a k = (if a \<le> k then k - a else k + MAX_NUM_THREADS - a)"

lemma sched_order_sorted:
  assumes "oid = UINT32_MAX \<or> unat oid \<le> MAX_NUM_THREADS"
  shows "sorted_wrt (\<lambda>j k. cdist (sched_start oid) j < cdist (sched_start oid) k) (sched_order oid)"
proof (cases "oid = UINT32_MAX")
  case True
  then show ?thesis by (simp add: sched_order_def sched_start_def cdist_def)
next
  case False
  show ?thesis
  proof (cases "MAX_NUM_THREADS \<le> Suc (unat oid)")
    case True
    with False show ?thesis by (simp add: sched_order_def sched_start_def cdist_def)
  next
    case big: False
    then have st: "sched_start oid = Suc (unat oid)" using False by (simp add: sched_start_def)
    show ?thesis unfolding st sched_order_def using big False
      by (auto simp: sorted_wrt_append cdist_def intro!: sorted_wrt_mono_rel [OF _ sorted_wrt_upt])
  qed
qed

lemma find_first_sorted:
  "find P xs = Some k \<Longrightarrow> sorted_wrt R xs \<Longrightarrow> j \<in> set xs \<Longrightarrow> P j \<Longrightarrow> j = k \<or> R k j"
  by (induction xs) (auto split: if_splits)

lemma cdist_step:
  assumes "cdist a j < cdist a k" "a < MAX_NUM_THREADS" "j < MAX_NUM_THREADS" "k < MAX_NUM_THREADS"
  shows "cdist (if MAX_NUM_THREADS \<le> Suc j then 0 else Suc j) k < cdist a k"
  using assms by (auto simp: cdist_def split: if_splits)

lemma cdist_bound: "k < MAX_NUM_THREADS \<Longrightarrow> cdist a k < MAX_NUM_THREADS"
  by (auto simp: cdist_def)

lemma unat_of_nat_thread: "t \<le> MAX_NUM_THREADS \<Longrightarrow> unat (of_nat t :: u32) = t \<and> (of_nat t :: u32) \<noteq> UINT32_MAX"
proof -
  assume "t \<le> MAX_NUM_THREADS"
  then have t: "t < 2 ^ 32 - 1" by (simp add: MAX_NUM_THREADS_def)
  then have u: "unat (of_nat t :: u32) = t" by (simp add: unat_of_nat)
  moreover have "(of_nat t :: u32) \<noteq> UINT32_MAX"
  proof
    assume "(of_nat t :: u32) = UINT32_MAX"
    then have "unat (of_nat t :: u32) = unat UINT32_MAX" by simp
    with u t show False by simp
  qed
  ultimately show ?thesis by simp
qed

lemma HandleNoSchedule_run:
  assumes reg: "registered s c" and free: "\<not> is_locked (locks s l)"
  shows "\<exists>u. HandleNoSchedule (Some t) s = Inr ((), u) \<and> \<not> is_locked (locks u l)"
proof -
  from apic_eoi_run [OF reg] obtain e where
    e: "apic_end_of_interrupt s = Inr ((), upd_cpu c (noINT_update (\<lambda>_. False)) (s\<lparr>apic_eoi := e\<rparr>))" by blast
  let ?u = "upd_cpu c (noINT_update (\<lambda>_. False)) (s\<lparr>apic_eoi := e\<rparr>)"
  have r: "registered ?u c" using reg by (simp add: registered_upd_cpu) (simp add: registered_def)
  have f: "\<not> is_locked (locks ?u l)" using free by simp
  have "HandleNoSchedule (Some t) s = (if run_mode (threads ?u t) = USER_THREAD
      then load_page_table (thread_pml4t_phys (threads ?u t)) else ret ()) ?u"
    unfolding HandleNoSchedule_def seqn_step [where m = apic_end_of_interrupt, OF e]
    by (simp add: deref_def bnd_ret bnd_gets)
  moreover have "load_page_table a ?u = Inr ((), ?u\<lparr>cr3 := (cr3 ?u)(c := a)\<rparr>)" for a
    by (simp add: load_page_table_def bnd_step [where m = get_current_cpu, OF get_current_cpu_registered [OF r]] upd_def)
  ultimately show ?thesis using f by (auto simp: ret_def)
qed

lemma schedule_idle_returns:
  assumes reg: "registered s c" and free: "\<not> is_locked (locks s proc_table_lock)"
    and cnt: "cli_count (cpus s ! c) \<noteq> UINT32_MAX" and t: "status (threads s t) \<noteq> THREAD_STATE_KILLED"
  shows "\<exists>u. schedule_idle (Some t) ctx (lock_taken proc_table_lock c s) = Inr (Returned, u)
     \<and> view u = view s \<and> \<not> is_locked (locks u proc_table_lock)"
proof -
  let ?s1 = "lock_taken proc_table_lock c s"
  have v1: "view ?s1 = view s" by (rule view_lock_taken)
  have T: "threads ?s1 = threads s" by (rule view_threads [OF v1])
  have r1: "registered ?s1 c" using reg by (simp add: registered_lock_taken)
  from lock_held_dropped [OF lock_free_held [OF reg free cnt]] r1 registered_unique
  obtain s2 where rel: "release_Spinlock proc_table_lock ?s1 = Inr ((), s2)"
    and s2: "s2 = lock_dropped proc_table_lock c ?s1" by blast
  have v2: "view s2 = view s" using quietD [OF quiet_release rel] v1 by simp
  have r2: "registered s2 c" using reg view_registered [OF v2] by simp
  have "\<not> is_locked (locks s2 proc_table_lock)" by (simp add: s2 lock_dropped_def)
  from HandleNoSchedule_run [OF r2 this] obtain u where
    u: "HandleNoSchedule (Some t) s2 = Inr ((), u)" "\<not> is_locked (locks u proc_table_lock)" by blast
  have "view u = view s" using quietD [OF quiet_HandleNoSchedule u(1)] v2 by simp
  moreover have "schedule_idle (Some t) ctx ?s1 = Inr (Returned, u)"
    using t T by (simp add: schedule_idle_def bnd_gets bnd_ret
        seqn_step [where m = "release_Spinlock proc_table_lock", OF rel]
        seqn_step [where m = "HandleNoSchedule (Some t)", OF u(1)] ret_def)
  ultimately show ?thesis using u(2) by blast
qed

section \<open>A concrete machine\<close>

definition zero_context :: cpu_context_t where
  "zero_context = \<lparr>r15 = 0, r14 = 0, r13 = 0, r12 = 0, r11 = 0, r10 = 0, r9 = 0, r8 = 0, rdi = 0, rsi = 0,
     rbp = 0, rdx = 0, rcx = 0, rbx = 0, rax = 0, isr_id = 0, error_code = 0,
     i_rip = 0, i_cs = 0, i_rflags = 0, i_rsp = 0, i_ss = 0\<rparr>"

definition zero_thread :: Thread where
  "zero_thread = \<lparr>can_wakeup = False, sleep_interrupt = False, status = THREAD_STATE_NOT_INITIALIZED,
     run_mode = KERNEL_THREAD, thread_id = 0, thread_pml4t_va = 0, thread_pml4t_phys = 0,
     execution_context = zero_context, errno = NO_ERROR, owner_proc = None, sleep_channel = 0\<rparr>"

definition zero_process :: Process where
  "zero_process = \<lparr>thread_count = 0, pid = 0, ppid = 0, proc_state = PROCESS_STATE_FREE,
     user_heap_bitmap = (\<lambda>_. 0), proc_fd = (\<lambda>_. \<lparr>fd_in_use = False, fd_path = []\<rparr>)\<rparr>"

text \<open>A kernel thread with entry point \<open>a\<close>.\<close>

definition kthread :: "nat \<Rightarrow> THREAD_STATE \<Rightarrow> u64 \<Rightarrow> Thread" where
  "kthread t st a = zero_thread\<lparr>status := st, thread_id := of_nat t, can_wakeup := True,
     execution_context := zero_context\<lparr>i_rip := a, i_rflags := 0x202\<rparr>\<rparr>"

definition machine :: "nat option list \<Rightarrow> (nat \<Rightarrow> Thread) \<Rightarrow> proc" where
  "machine cur T = (paging.extend boot_paging \<lparr>threads = T, procs = (\<lambda>_. zero_process),
      used_page = (\<lambda>_. \<lparr>page_va = 0, page_pa = 0, pdt_table_index = 0, pd_table_index = 0\<rparr>),
      thread_entry = (\<lambda>_. 0),
      heap_alloc = (\<lambda>_. \<lparr>ha_start = 0, ha_end = 0, bit_start = 0, bit_end = 0, i_start = 0, i_end = 0\<rparr>),
      sleeplocks = (\<lambda>_. \<lparr>sl_is_locked = False, sl_owner_tid = 0\<rparr>),
      cr3 = (\<lambda>_. 0), apic_eoi = (\<lambda>_. 0), settings_panic = False, tick_counter = 0\<rparr>)
     \<lparr>cpus := map (\<lambda>i. (boot_cpu (of_nat i))\<lparr>current_thread := cur ! i\<rparr>) [0..<length cur]\<rparr>"

lemma boot_paging_env [simp]:
  "lapic_id boot_paging = 0" "cpus boot_paging = [boot_cpu 0]" "link boot_paging = boot_link"
  "locks boot_paging = locks boot_smp"
  by (simp_all add: boot_paging_def pmm.defs small_pmm_def given_back_def boot_pmm_def kheap.defs boot_kheap_env)

lemma machine_simps [simp]:
  "lapic_id (machine cur T) = 0" "threads (machine cur T) = T" "settings_panic (machine cur T) = False"
  "locks (machine cur T) = locks boot_smp" "link (machine cur T) = boot_link"
  "cpus (machine cur T) = map (\<lambda>i. (boot_cpu (of_nat i))\<lparr>current_thread := cur ! i\<rparr>) [0..<length cur]"
  by (simp_all add: machine_def paging.defs)

lemma boot_unlocked [simp]: "\<not> is_locked (locks boot_smp l)"
  by (simp add: boot_smp_def)

lemma machine_registered: "cur \<noteq> [] \<Longrightarrow> registered (machine cur T) 0"
  by (cases cur) (auto simp: registered_def boot_cpu_def upt_conv_Cons simp del: upt_Suc)

section \<open>Properties of the scheduler\<close>

lemma InvokeScheduler_some:
  fixes s :: "'a proc_scheme"
  assumes reg: "registered s c" and free: "\<not> is_locked (locks s proc_table_lock)"
    and cnt: "cli_count (cpus s ! c) \<noteq> UINT32_MAX" and np: "\<not> settings_panic s"
    and old: "current_thread (cpus s ! c) = old" and oid: "oid_ok old s"
    and rips: "rips_ok (threads s)" and sv: "save_ok old (Some x) (threads s)" and nxt: "next_thread old s = Some k"
  shows "\<exists>u. InvokeScheduler (Some x) s = Inr (Iret (execution_context (threads s k)), u)
       \<and> map current_thread (cpus u) = (map current_thread (cpus s))[c := Some k]
       \<and> threads u = (saved old (Some x) (threads s))(k := (threads s k)\<lparr>status := THREAD_STATE_RUNNING\<rparr>)
       \<and> cr3 u c = thread_pml4t_phys (threads s k)
       \<and> rflags_IF (cpus u ! c) = bit (i_rflags (execution_context (threads s k))) 9
       \<and> \<not> is_locked (locks u proc_table_lock)"
proof -
  let ?s1 = "lock_taken proc_table_lock c s"
  have T: "threads ?s1 = threads s" by (rule view_threads [OF view_lock_taken])
  from next_thread_props [OF nxt oid] have k: "k < MAX_NUM_THREADS" "runnable (threads s k)" by auto
  from save_ok_not_next [OF sv k(2,1)] have ne: "old \<noteq> Some k" .
  from rips k have rip: "i_rip (execution_context (threads s k)) \<noteq> 0" by (auto simp: rips_ok_def runnable_def)
  from switch_to_run [of ?s1 c k old "Some x"] reg lock_free_held [OF reg free cnt] k(2) rip ne sv
  obtain u where u: "switch_to c old (Some x) k ?s1 = Inr (Iret (execution_context (threads s k)), u)"
    "\<not> is_locked (locks u proc_table_lock)" "cr3 u c = thread_pml4t_phys (threads s k)"
    "rflags_IF (cpus u ! c) = bit (i_rflags (execution_context (threads s k))) 9"
    by (auto simp: registered_lock_taken T)
  from switch_to_view [OF u(1)] k(2) rip ne have v: "view u = (lapic_id ?s1, map cpu_id (cpus ?s1),
      (map current_thread (cpus ?s1))[c := Some k], switched old (Some x) k (threads s), settings_panic ?s1)"
    by (simp add: T)
  from v have "threads u = switched old (Some x) k (threads s)"
    "map current_thread (cpus u) = (map current_thread (cpus s))[c := Some k]"
    using view_curr [OF view_lock_taken, of proc_table_lock c s] by (simp_all add: view_def)
  moreover have "InvokeScheduler (Some x) s = Inr (Iret (execution_context (threads s k)), u)"
    using InvokeScheduler_unfold [OF reg free np old oid rips] nxt u(1) by simp
  ultimately show ?thesis using u by (simp add: switched_def)
qed

lemma InvokeScheduler_none:
  fixes s :: "'a proc_scheme"
  assumes reg: "registered s c" and free: "\<not> is_locked (locks s proc_table_lock)"
    and cnt: "cli_count (cpus s ! c) \<noteq> UINT32_MAX" and np: "\<not> settings_panic s"
    and old: "current_thread (cpus s ! c) = old" and oid: "oid_ok old s"
    and rips: "rips_ok (threads s)" and nxt: "next_thread old s = None"
    and t: "old = Some t" "status (threads s t) \<noteq> THREAD_STATE_KILLED"
  shows "\<exists>u. InvokeScheduler (Some x) s = Inr (Returned, u) \<and> threads u = threads s
      \<and> map current_thread (cpus u) = map current_thread (cpus s) \<and> \<not> is_locked (locks u proc_table_lock)"
proof -
  from schedule_idle_returns [OF reg free cnt t(2)] obtain u where
    "schedule_idle old (Some x) (lock_taken proc_table_lock c s) = Inr (Returned, u)" "view u = view s"
    "\<not> is_locked (locks u proc_table_lock)" using t(1) by blast
  moreover have "InvokeScheduler (Some x) s = schedule_idle old (Some x) (lock_taken proc_table_lock c s)"
    using InvokeScheduler_unfold [OF reg free np old oid rips] nxt by simp
  ultimately show ?thesis by (metis view_threads view_curr)
qed


definition two_threads :: "nat \<Rightarrow> Thread" where
  "two_threads = (\<lambda>_. zero_thread)(0 := kthread 0 THREAD_STATE_RUNNING 0x100, 1 := kthread 1 THREAD_STATE_READY 0x200,
     IDLE_THREAD := kthread IDLE_THREAD THREAD_STATE_READY 0x300)"

lemma two_threads_simps [simp]:
  "two_threads 0 = kthread 0 THREAD_STATE_RUNNING 0x100" "two_threads (Suc 0) = kthread 1 THREAD_STATE_READY 0x200"
  "status (kthread t st a) = st" "i_rip (execution_context (kthread t st a)) = a" "thread_id (kthread t st a) = of_nat t"
  "i_rflags (execution_context (kthread t st a)) = 0x202"
  by (simp_all add: two_threads_def kthread_def IDLE_THREAD_def MAX_NUM_THREADS_def)

lemma two_threads_rips: "rips_ok two_threads"
  by (auto simp: rips_ok_def two_threads_def kthread_def zero_thread_def IDLE_THREAD_def)

lemma two_threads_next: "next_thread (Some 0) (machine [Some 0] two_threads) = Some 1"
proof -
  have "[Suc 0..<300] = Suc 0 # [Suc (Suc 0)..<300]" by (rule upt_conv_Cons) simp
  then show ?thesis
    by (simp add: next_thread_def sched_order_def old_thread_id_def runnable_def MAX_NUM_THREADS_def)
qed


text \<open>One scheduling decision brings the CPU strictly closer to a runnable thread that it does not choose.\<close>

definition turn :: "nat \<Rightarrow> nat option \<Rightarrow> 'a proc_scheme \<Rightarrow> nat" where
  "turn k old s = cdist (sched_start (old_thread_id old s)) k"

lemma next_thread_exists:
  assumes "oid_ok old s" "runnable (threads s k)" "k < MAX_NUM_THREADS" "old_thread_id old s \<noteq> of_nat k"
  shows "\<exists>j. next_thread old s = Some j \<and> (j = k \<or> cdist (sched_start (old_thread_id old s)) j < turn k old s)"
proof -
  let ?o = "old_thread_id old s"
  have "unat ?o \<noteq> k" using assms(4) by auto
  then have k: "k \<in> set (sched_order ?o)" using assms(1,3) by (auto simp: sched_order_def oid_ok_def)
  with assms(2) have "next_thread old s \<noteq> None" by (auto simp: next_thread_def find_None_iff)
  then obtain j where j: "next_thread old s = Some j" by auto
  from find_first_sorted [OF j [unfolded next_thread_def] sched_order_sorted k] assms(1,2)
  show ?thesis using j by (auto simp: turn_def oid_ok_def)
qed

lemma sched_start_bound: "sched_start oid < MAX_NUM_THREADS"
  by (simp add: sched_start_def MAX_NUM_THREADS_def)

lemma turn_decreases:
  assumes "oid_ok old s" "runnable (threads s k)" "k < MAX_NUM_THREADS" "old_thread_id old s \<noteq> of_nat k"
    and "next_thread old s = Some j" "j \<noteq> k" and t: "old_thread_id (Some j) t = of_nat j"
  shows "turn k (Some j) t < turn k old s"
proof -
  from next_thread_exists [OF assms(1-4)] assms(5,6)
  have d: "cdist (sched_start (old_thread_id old s)) j < turn k old s" by auto
  from next_thread_props [OF assms(5,1)] have j: "j < MAX_NUM_THREADS" by simp
  have "sched_start (old_thread_id (Some j) t) = (if MAX_NUM_THREADS \<le> Suc j then 0 else Suc j)"
    using unat_of_nat_thread [of j] j by (simp add: t sched_start_def)
  with cdist_step [OF d [unfolded turn_def] sched_start_bound j assms(3)] show ?thesis by (simp add: turn_def)
qed

lemma scheduler_decides:
  fixes s :: "'a proc_scheme"
  assumes k: "k < MAX_NUM_THREADS" "runnable (threads s k)"
    and reg: "registered s c" and free: "\<not> is_locked (locks s proc_table_lock)"
    and cnt: "cli_count (cpus s ! c) \<noteq> UINT32_MAX" and np: "\<not> settings_panic s"
    and old: "current_thread (cpus s ! c) = old"
    and rips: "rips_ok (threads s)" and sv: "save_ok old (Some x) (threads s)"
    and ids: "\<forall>t. old = Some t \<longrightarrow> old_thread_id (Some t) s = of_nat t \<and> t \<le> MAX_NUM_THREADS"
  shows "\<exists>j f u. InvokeScheduler (Some x) s = Inr (f, u) \<and> current_thread (cpus u ! c) = Some j
     \<and> (j = k \<or> 0 < turn k old s)
     \<and> (\<forall>t :: 'a proc_scheme. j \<noteq> k \<longrightarrow> old_thread_id (Some j) t = of_nat j \<longrightarrow> turn k (Some j) t < turn k old s)"
proof -
  have oid: "oid_ok old s"
    using ids unat_of_nat_thread by (cases old) (auto simp: oid_ok_def, auto simp: old_thread_id_def)
  have ne: "old \<noteq> Some k" using sv k save_ok_not_next by blast
  have idne: "old_thread_id old s \<noteq> of_nat k"
  proof (cases old)
    case None
    then show ?thesis using unat_of_nat_thread [of k] k by (simp add: old_thread_id_def)
  next
    case (Some t)
    with ids have "old_thread_id old s = of_nat t" "t \<le> MAX_NUM_THREADS" by auto
    moreover have "t \<noteq> k" using ne Some by simp
    ultimately show ?thesis using unat_of_nat_thread [of k] unat_of_nat_thread [of t] k by auto
  qed
  from next_thread_exists [OF oid k(2,1) idne] obtain j where
    j: "next_thread old s = Some j" "j = k \<or> 0 < turn k old s" by (auto intro: le_less_trans)
  from InvokeScheduler_some [OF reg free cnt np old oid rips sv j(1)] obtain u where
    u: "InvokeScheduler (Some x) s = Inr (Iret (execution_context (threads s j)), u)"
    "map current_thread (cpus u) = (map current_thread (cpus s))[c := Some j]" by auto
  have "length (cpus u) = length (cpus s)" by (metis u(2) length_list_update length_map)
  then have "current_thread (cpus u ! c) = Some j"
    using registered_less [OF reg] by (metis u(2) nth_list_update_eq nth_map length_map)
  with u(1) j turn_decreases [OF oid k(2,1) idne j(1)] show ?thesis by blast
qed



end
