(* ===== verification/Sched_Protocol.thy ===== *)
theory Sched_Protocol
  imports Scheduler
begin

text \<open>
  The thread life cycle on several CPUs. Every step is one operation of proc.c, scheduler.c or idt.c run by one
  CPU, chosen by its local APIC identifier: a timer interrupt, the two halves of \<open>ThreadSleep\<close> with the \<open>int3\<close>
  between them, \<open>Wakeup\<close>, \<open>CreateKernelThread\<close> and \<open>ExitThread\<close>. Steps are atomic because the operations that
  write the table of another thread hold \<open>proc_table.lock\<close>, and \<open>ThreadSleep\<close> writes only the entry of its own
  thread. The processor and the calling code are arbitrary within the conditions of the rules: an interrupted
  context and a thread entry point are not address 0, and a sleep channel is not NULL.
\<close>

inductive sched_step :: "proc \<Rightarrow> proc \<Rightarrow> bool" where
  timer: "seqn isr_enter (isr_timer cal tf) (s\<lparr>lapic_id := l\<rparr>) = Inr (f, t) \<Longrightarrow> i_rip tf \<noteq> 0 \<Longrightarrow> sched_step s t"
| int3: "seqn isr_enter (isr_int3 tf) (s\<lparr>lapic_id := l\<rparr>) = Inr (f, t) \<Longrightarrow> i_rip tf \<noteq> 0 \<Longrightarrow> sched_step s t"
| sleep: "ThreadSleep_begin ch lk (s\<lparr>lapic_id := l\<rparr>) = Inr (b, t) \<Longrightarrow> sched_step s t"
| awake: "bnd GetCurrentThread (\<lambda>thread. bnd (deref thread) (\<lambda>x. ThreadSleep_end x lk)) (s\<lparr>lapic_id := l\<rparr>) = Inr (u, t)
     \<Longrightarrow> sched_step s t"
| wakeup: "Wakeup ch (s\<lparr>lapic_id := l\<rparr>) = Inr (u, t) \<Longrightarrow> ch \<noteq> 0 \<Longrightarrow> sched_step s t"
| create: "CreateKernelThread ent (s\<lparr>lapic_id := l\<rparr>) = Inr (u, t) \<Longrightarrow> ent \<noteq> 0 \<Longrightarrow> sched_step s t"
| exit: "ExitThread (s\<lparr>lapic_id := l\<rparr>) = Inr (u, t) \<Longrightarrow> sched_step s t"

definition sched_init :: "proc \<Rightarrow> bool" where
  "sched_init s \<longleftrightarrow> (\<forall>i < length (cpus s). current_thread (cpus s ! i) = None)
     \<and> (\<forall>k < MAX_NUM_THREADS. status (threads s k) = THREAD_STATE_NOT_INITIALIZED)
     \<and> thread_id (threads s IDLE_THREAD) = of_nat IDLE_THREAD"

section \<open>The invariant\<close>

definition waiting :: "Thread \<Rightarrow> bool" where
  "waiting x \<longleftrightarrow> status x = THREAD_STATE_READY \<or> status x = THREAD_STATE_WAKEUP_READY"

definition active :: "Thread \<Rightarrow> bool" where
  "active x \<longleftrightarrow> status x = THREAD_STATE_RUNNING \<or> status x = THREAD_STATE_SLEEPING"

definition waiting_ok :: "(nat \<Rightarrow> Thread) \<Rightarrow> bool" where
  "waiting_ok T \<longleftrightarrow> (\<forall>k < MAX_NUM_THREADS. waiting (T k) \<longrightarrow> i_rip (execution_context (T k)) \<noteq> 0 \<and> thread_id (T k) = of_nat k)"

definition current_ok :: "nat option list \<Rightarrow> (nat \<Rightarrow> Thread) \<Rightarrow> bool" where
  "current_ok cur T \<longleftrightarrow> (\<forall>i < length cur. \<forall>t. cur ! i = Some t \<longrightarrow> t \<le> MAX_NUM_THREADS \<and>
     (t \<noteq> IDLE_THREAD \<longrightarrow> active (T t) \<and> thread_id (T t) = of_nat t))"

definition exclusive :: "nat option list \<Rightarrow> bool" where
  "exclusive cur \<longleftrightarrow> (\<forall>i < length cur. \<forall>j < length cur. \<forall>t. i \<noteq> j \<longrightarrow> cur ! i = Some t \<longrightarrow> cur ! j = Some t \<longrightarrow> t = IDLE_THREAD)"

definition idle_ok :: "(nat \<Rightarrow> Thread) \<Rightarrow> bool" where
  "idle_ok T \<longleftrightarrow> thread_id (T IDLE_THREAD) = of_nat IDLE_THREAD \<or> thread_id (T IDLE_THREAD) = UINT32_MAX"

definition table_inv :: "nat option list \<Rightarrow> (nat \<Rightarrow> Thread) \<Rightarrow> bool" where
  "table_inv cur T \<longleftrightarrow> waiting_ok T \<and> current_ok cur T \<and> exclusive cur \<and> idle_ok T"

definition sched_inv :: "'a proc_scheme \<Rightarrow> bool" where
  "sched_inv s \<longleftrightarrow> table_inv (map current_thread (cpus s)) (threads s)"

lemma sched_inv_view: "view s = view t \<Longrightarrow> sched_inv s = sched_inv t"
  by (simp add: sched_inv_def view_def)

lemma sched_inv_lapic [simp]: "sched_inv (s\<lparr>lapic_id := l\<rparr>) = sched_inv s"
  by (simp add: sched_inv_def)

lemma sched_init_inv: "sched_init s \<Longrightarrow> sched_inv s"
  by (simp add: sched_init_def sched_inv_def table_inv_def waiting_ok_def current_ok_def exclusive_def idle_ok_def waiting_def)

subsection \<open>Changes of the table that keep it\<close>

lemma current_okD: "current_ok cur T \<Longrightarrow> i < length cur \<Longrightarrow> cur ! i = Some t \<Longrightarrow> t \<noteq> IDLE_THREAD \<Longrightarrow>
    active (T t) \<and> thread_id (T t) = of_nat t \<and> t < MAX_NUM_THREADS"
  by (force simp: current_ok_def IDLE_THREAD_def)

text \<open>An entry is replaced by one of the same kind: a waiting entry may change nothing the invariant
  reads, an active one must stay active.\<close>

definition same_kind :: "Thread \<Rightarrow> Thread \<Rightarrow> bool" where
  "same_kind x y \<longleftrightarrow> (waiting x \<longrightarrow> waiting y \<longrightarrow> i_rip (execution_context y) = i_rip (execution_context x))
     \<and> (waiting y \<longrightarrow> waiting x) \<and> (active x \<longrightarrow> active y) \<and> thread_id y = thread_id x"

lemma table_inv_same_kind:
  assumes "table_inv cur T" "\<And>k. same_kind (T k) (U k)"
  shows "table_inv cur U"
proof -
  have k: "waiting (U k) \<Longrightarrow> waiting (T k) \<and> i_rip (execution_context (U k)) = i_rip (execution_context (T k))"
    "active (T k) \<Longrightarrow> active (U k)" "thread_id (U k) = thread_id (T k)" for k
    using assms(2) [of k] by (auto simp: same_kind_def)
  from assms(1) k show ?thesis
    unfolding table_inv_def waiting_ok_def current_ok_def idle_ok_def by metis
qed

lemma same_kind_refl [simp]: "same_kind x x"
  by (simp add: same_kind_def)

lemma table_inv_drop:
  assumes "table_inv cur T" "i < length cur" "cur ! i = Some t" "status y = THREAD_STATE_KILLED" "thread_id y = UINT32_MAX"
  shows "table_inv (cur[i := None]) (T(t := y))"
proof -
  have other: "j \<noteq> i \<Longrightarrow> j < length cur \<Longrightarrow> cur ! j = Some t \<Longrightarrow> t = IDLE_THREAD" for j
    using assms(1-3) unfolding table_inv_def exclusive_def by blast
  show ?thesis
    using assms other unfolding table_inv_def waiting_ok_def current_ok_def exclusive_def idle_ok_def
    by (auto simp: nth_list_update waiting_def split: if_splits)
qed

lemma table_inv_create:
  assumes "table_inv cur T" "t < MAX_NUM_THREADS" "free_slot (T t)" "waiting y"
    "i_rip (execution_context y) \<noteq> 0" "thread_id y = of_nat t"
  shows "table_inv cur (T(t := y))"
proof -
  have "cur ! i \<noteq> Some t" if "i < length cur" for i
    using assms(1-3) current_okD [of cur T i t] that
    by (auto simp: table_inv_def free_slot_def active_def IDLE_THREAD_def)
  then show ?thesis
    using assms unfolding table_inv_def waiting_ok_def current_ok_def idle_ok_def
    by (auto simp: IDLE_THREAD_def)
qed

lemma table_inv_idle:
  assumes "table_inv cur T" "thread_id y = thread_id (T IDLE_THREAD)" "c < length cur"
  shows "table_inv (cur[c := Some IDLE_THREAD]) (T(IDLE_THREAD := y))"
  using assms unfolding table_inv_def waiting_ok_def current_ok_def exclusive_def idle_ok_def
  by (auto simp: nth_list_update IDLE_THREAD_def split: if_splits)

lemma table_inv_switch:
  assumes inv: "table_inv cur T" and c: "c < length cur" "cur ! c = old"
    and k: "k < MAX_NUM_THREADS" "waiting (T k)" and x: "i_rip x \<noteq> 0"
  shows "table_inv (cur[c := Some k]) (switched old (Some x) k T)"
proof -
  have nk: "cur ! i \<noteq> Some k" if "i < length cur" for i
    using inv k current_okD [of cur T i k] that
    by (auto simp: table_inv_def active_def waiting_def IDLE_THREAD_def)
  have idk: "thread_id (T k) = of_nat k" using inv k by (simp add: table_inv_def waiting_ok_def)
  let ?U = "saved old (Some x) T"
  have id: "thread_id (?U j) = thread_id (T j)" for j by (auto simp: saved_def split: option.splits)
  have rest: "cur ! c \<noteq> Some j \<Longrightarrow> ?U j = T j" for j using c by (intro saved_at_other) auto
  have oldk: "old = Some t \<Longrightarrow> t \<noteq> IDLE_THREAD \<Longrightarrow> active (T t) \<and> thread_id (T t) = of_nat t" for t
    using inv c current_okD [of cur T c t] by (auto simp: table_inv_def)
  have rip: "i_rip (execution_context (?U t)) \<noteq> 0" if "old = Some t" "t \<noteq> IDLE_THREAD" for t
    using that oldk [OF that] x by (auto simp: saved_def active_def)
  have W: "waiting_ok ?U"
    unfolding waiting_ok_def
  proof (intro allI impI)
    fix j assume j: "j < MAX_NUM_THREADS" "waiting (?U j)"
    show "i_rip (execution_context (?U j)) \<noteq> 0 \<and> thread_id (?U j) = of_nat j"
    proof (cases "old = Some j")
      case True
      with j oldk [of j] rip [of j] id [of j] show ?thesis by (simp add: IDLE_THREAD_def)
    next
      case False
      then show ?thesis using inv j rest [of j] c by (simp add: table_inv_def waiting_ok_def)
    qed
  qed
  have ex: "cur ! i \<noteq> Some t" if "i < length cur" "i \<noteq> c" "old = Some t" "t \<noteq> IDLE_THREAD" for i t
    using inv c that unfolding table_inv_def exclusive_def by blast
  have C: "current_ok (cur[c := Some k]) (?U(k := (T k)\<lparr>status := THREAD_STATE_RUNNING\<rparr>))"
    unfolding current_ok_def
  proof (intro allI impI)
    fix i t assume i: "i < length (cur[c := Some k])" "cur[c := Some k] ! i = Some t"
    show "t \<le> MAX_NUM_THREADS \<and> (t \<noteq> IDLE_THREAD \<longrightarrow> active ((?U(k := (T k)\<lparr>status := THREAD_STATE_RUNNING\<rparr>)) t)
        \<and> thread_id ((?U(k := (T k)\<lparr>status := THREAD_STATE_RUNNING\<rparr>)) t) = of_nat t)"
    proof (cases "i = c")
      case True
      with i k idk show ?thesis by (simp add: active_def)
    next
      case False
      with i have i': "i < length cur" "cur ! i = Some t" by auto
      have "?U t = T t" if "t \<noteq> IDLE_THREAD"
        using ex [OF i'(1) False _ that] i'(2) c by (intro rest) auto
      with inv nk [of i] i' show ?thesis by (auto simp: table_inv_def current_ok_def)
    qed
  qed
  have "exclusive (cur[c := Some k])"
    using inv nk c(1) unfolding table_inv_def exclusive_def by (auto simp: nth_list_update split: if_splits)
  moreover have "waiting_ok (?U(k := (T k)\<lparr>status := THREAD_STATE_RUNNING\<rparr>))"
    using W by (simp add: waiting_ok_def waiting_def)
  moreover have "idle_ok (?U(k := (T k)\<lparr>status := THREAD_STATE_RUNNING\<rparr>))"
    using inv k by (simp add: table_inv_def idle_ok_def id IDLE_THREAD_def)
  ultimately show ?thesis using C by (simp add: table_inv_def switched_def)
qed

subsection \<open>The operations keep the invariant\<close>

lemma sched_inv_rips: "sched_inv s \<Longrightarrow> rips_ok (threads s)"
  by (auto simp: sched_inv_def table_inv_def waiting_ok_def rips_ok_def waiting_def)

lemma sched_inv_oid:
  assumes "sched_inv s" "c < length (cpus s)" "current_thread (cpus s ! c) = old"
  shows "oid_ok old s"
proof (cases old)
  case (Some t)
  have "t \<le> MAX_NUM_THREADS" "t \<noteq> IDLE_THREAD \<Longrightarrow> thread_id (threads s t) = of_nat t" "idle_ok (threads s)"
    using assms Some by (auto simp: sched_inv_def table_inv_def current_ok_def)
  then show ?thesis using Some unat_of_nat_thread [of t] unat_of_nat_thread [of MAX_NUM_THREADS]
    by (cases "t = IDLE_THREAD") (auto simp: oid_ok_def old_thread_id_def idle_ok_def IDLE_THREAD_def)
qed (simp add: oid_ok_def old_thread_id_def)

lemma schedule_idle_view:
  assumes "schedule_idle old ctx s = Inr (f, u)" and reg: "registered s c"
  shows "view u = view s \<or> view u = (lapic_id s, map cpu_id (cpus s), (map current_thread (cpus s))[c := Some IDLE_THREAD],
      (threads s)(IDLE_THREAD := (threads s IDLE_THREAD)\<lparr>status := THREAD_STATE_READY\<rparr>), settings_panic s)"
proof -
  let ?b = "case old of None \<Rightarrow> True | Some t \<Rightarrow> status (threads s t) = THREAD_STATE_KILLED"
  from assms(1) obtain g s1 where g: "(if ?b then ScheduleIdleThread old ctx else ret Returned) s = Inr (g, s1)"
    and tl: "(case g of Iret x \<Rightarrow> ret (Iret x) | Returned \<Rightarrow> seqn (release_Spinlock proc_table_lock)
        (seqn (HandleNoSchedule old) (ret Returned))) s1 = Inr (f, u)"
    by (auto simp: schedule_idle_def bnd_gets bnd_Inr_iff)
  have "view u = view s1"
    using tl by (cases g) (auto simp: seqn_Inr_iff dest!: quietD [OF quiet_release] quietD [OF quiet_HandleNoSchedule])
  moreover have "view s1 = view s \<or> view s1 = (lapic_id s, map cpu_id (cpus s), (map current_thread (cpus s))[c := Some IDLE_THREAD],
      (threads s)(IDLE_THREAD := (threads s IDLE_THREAD)\<lparr>status := THREAD_STATE_READY\<rparr>), settings_panic s)"
  proof (cases ?b)
    case True
    then have "saved old ctx (threads s) = threads s" by (auto simp: saved_def split: option.splits)
    with g True have sch: "schedule c IDLE_THREAD THREAD_STATE_READY s = Inr (g, s1)"
      by (auto simp: ScheduleIdleThread_def bnd_Inr_iff get_current_cpu_registered [OF reg] seqn_Inr_iff
          SaveThreadContext_run split: if_splits)
    show ?thesis
    proof (cases "i_rip (execution_context (threads s IDLE_THREAD)) = 0")
      case True
      with sch show ?thesis by (simp add: schedule_def bnd_gets ret_def)
    next
      case False
      from schedule_view [OF sch False] show ?thesis by simp
    qed
  next
    case False
    with g show ?thesis by (simp only: if_False ret_Inr_iff) simp
  qed
  ultimately show ?thesis by simp
qed

lemma InvokeScheduler_cases:
  assumes "InvokeScheduler ctx s = Inr (f, u)"
  obtains c s1 where "registered s c" "view s1 = view s" "sched_decide c (current_thread (cpus s ! c)) ctx s1 = Inr (f, u)"
proof -
  from assms obtain c where c: "get_current_cpu s = Inr (c, s)" by (auto simp: InvokeScheduler_def seqn_Inr_iff bnd_Inr_iff dest: get_current_cpu_frame)
  with assms obtain s1 where s1: "acquire_Spinlock proc_table_lock s = Inr ((), s1)"
    and d: "sched_decide c (current_thread (cpus s ! c)) ctx s1 = Inr (f, u)"
    by (auto simp: InvokeScheduler_def seqn_Inr_iff bnd_Inr_iff)
  from c have "registered s c" by (auto simp: registered_def get_current_cpu_def split: option.splits)
  with quietD [OF quiet_acquire s1] d show thesis by (intro that)
qed

lemma InvokeScheduler_inv:
  assumes inv: "sched_inv s" and run: "InvokeScheduler (Some x) s = Inr (f, u)" and x: "i_rip x \<noteq> 0"
  shows "sched_inv u"
proof -
  from InvokeScheduler_cases [OF run] obtain c s1 where reg: "registered s c" and v: "view s1 = view s"
    and d: "sched_decide c (current_thread (cpus s ! c)) (Some x) s1 = Inr (f, u)" by blast
  let ?old = "current_thread (cpus s ! c)"
  have inv1: "sched_inv s1" using inv sched_inv_view [OF v] by simp
  have reg1: "registered s1 c" using reg view_registered [OF v] by simp
  have c1: "c < length (cpus s1)" "current_thread (cpus s1 ! c) = ?old"
    using registered_less [OF reg1] view_curr_nth [OF v] registered_less [OF reg] by auto
  note oid = sched_inv_oid [OF inv1 c1]
  note next1 = sched_decide_next [OF oid sched_inv_rips [OF inv1], of c "Some x"]
  have cur: "map current_thread (cpus s1) ! c = ?old" using c1 by simp
  show ?thesis
  proof (cases "next_thread ?old s1")
    case None
    with next1 d have "schedule_idle ?old (Some x) s1 = Inr (f, u)" by simp
    from schedule_idle_view [OF this reg1] show ?thesis
    proof
      assume "view u = view s1"
      with inv1 sched_inv_view show ?thesis by blast
    next
      assume "view u = (lapic_id s1, map cpu_id (cpus s1), (map current_thread (cpus s1))[c := Some IDLE_THREAD],
        (threads s1)(IDLE_THREAD := (threads s1 IDLE_THREAD)\<lparr>status := THREAD_STATE_READY\<rparr>), settings_panic s1)"
      then show ?thesis using table_inv_idle [of "map current_thread (cpus s1)" "threads s1"] inv1 c1(1)
        by (simp add: view_def sched_inv_def)
    qed
  next
    case (Some k)
    from next_thread_props [OF Some oid] have k: "k < MAX_NUM_THREADS" "runnable (threads s1 k)" by auto
    then have w: "waiting (threads s1 k)" by (auto simp: runnable_def waiting_def)
    with k inv1 have rip: "i_rip (execution_context (threads s1 k)) \<noteq> 0"
      by (simp add: sched_inv_def table_inv_def waiting_ok_def)
    have ne: "?old \<noteq> Some k"
      using inv1 c1 cur k w current_okD [of "map current_thread (cpus s1)" "threads s1" c k]
      by (auto simp: sched_inv_def table_inv_def active_def waiting_def IDLE_THREAD_def)
    from next1 d Some have "switch_to c ?old (Some x) k s1 = Inr (f, u)" by simp
    from switch_to_view [OF this k(2) rip ne]
    have "view u = (lapic_id s1, map cpu_id (cpus s1), (map current_thread (cpus s1))[c := Some k],
        switched ?old (Some x) k (threads s1), settings_panic s1)" by simp
    then show ?thesis
      using table_inv_switch [where T = "threads s1", OF _ _ cur k(1) w x] inv1 c1(1)
      by (simp add: view_def sched_inv_def)
  qed
qed

text \<open>What each operation does to the tables, when it returns.\<close>

lemma get_current_cpu_iff: "get_current_cpu s = Inr (c, u) \<longleftrightarrow> registered s c \<and> u = s"
  by (auto simp: registered_def get_current_cpu_def split: option.splits)

lemma GetCurrentThread_iff:
  "GetCurrentThread s = Inr (th, u) \<longleftrightarrow> (\<exists>c. registered s c \<and> current_thread (cpus s ! c) = th \<and> u = s)"
  by (auto simp: GetCurrentThread_def bnd_Inr_iff get_current_cpu_iff)

lemma deref_iff: "deref x s = Inr (t, u) \<longleftrightarrow> x = Some t \<and> u = s"
  by (auto simp: deref_def split: option.splits)

lemmas current_iff = get_current_cpu_iff GetCurrentThread_iff deref_iff

lemma timer_cases:
  fixes s :: "'a proc_scheme"
  assumes "seqn isr_enter (isr_timer cal x) s = Inr (f, u)"
  obtains s1 :: "'a proc_scheme" where "view s1 = view s" "InvokeScheduler (Some x) s1 = Inr (f, u)"
proof -
  from assms obtain s1 where s1: "isr_enter s = Inr ((), s1)"
    and i: "InvokeScheduler (Some x) (s1\<lparr>tick_counter := tick_counter s1 + 1\<rparr>) = Inr (f, u)"
    by (auto simp: seqn_Inr_iff isr_timer_def)
  have "view (s1\<lparr>tick_counter := tick_counter s1 + 1\<rparr>) = view s"
    using quietD [OF quiet_isr_enter s1] by (simp add: view_def)
  with i show thesis by (intro that)
qed

lemma int3_cases:
  fixes s :: "'a proc_scheme"
  assumes "seqn isr_enter (isr_int3 x) s = Inr (f, u)"
  obtains s1 s2 :: "'a proc_scheme" and g where "view s1 = view s" "InvokeScheduler (Some x) s1 = Inr (g, s2)" "view u = view s2"
proof -
  from assms obtain s1 where s1: "isr_enter s = Inr ((), s1)"
    and i: "bnd (InvokeScheduler (Some x)) (\<lambda>f. case f of Iret y \<Rightarrow> ret (Iret y)
          | Returned \<Rightarrow> seqn apic_end_of_interrupt (ret Returned)) s1 = Inr (f, u)"
    by (auto simp: seqn_Inr_iff isr_int3_def bnd_Inr_iff [of GetCurrentThread] bnd_Inr_iff [of "deref z" for z] bnd_gets
        current_iff split: if_splits)
  from i obtain g s2 where i2: "InvokeScheduler (Some x) s1 = Inr (g, s2)"
    and tl: "(case g of Iret y \<Rightarrow> ret (Iret y) | Returned \<Rightarrow> seqn apic_end_of_interrupt (ret Returned)) s2 = Inr (f, u)"
    by (auto simp: bnd_Inr_iff)
  have "view u = view s2" using tl by (cases g) (auto simp: seqn_Inr_iff dest!: quietD [OF quiet_eoi])
  from quietD [OF quiet_isr_enter s1] i2 this show thesis by (rule that)
qed

lemma Wakeup_cases:
  fixes s :: "'a proc_scheme"
  assumes "Wakeup ch s = Inr (r, u)"
  obtains s1 :: "'a proc_scheme" where "view s1 = view s"
    "view u = view (s1\<lparr>threads := wakeup_loop ch MAX_NUM_THREADS (threads s1)\<rparr>)"
proof -
  from assms obtain s1 where s1: "acquire_Spinlock proc_table_lock s = Inr ((), s1)"
    and u: "release_Spinlock proc_table_lock (s1\<lparr>threads := wakeup_loop ch MAX_NUM_THREADS (threads s1)\<rparr>) = Inr ((), u)"
    by (auto simp: Wakeup_def seqn_Inr_iff)
  show thesis by (rule that [OF quietD [OF quiet_acquire s1] quietD [OF quiet_release u]])
qed

lemma ThreadSleep_begin_cases:
  assumes "ThreadSleep_begin ch lk s = Inr (b, u)"
  obtains c t where "registered s c" "current_thread (cpus s ! c) = Some t"
    "view u = view (upd_thread t (\<lambda>x. x\<lparr>sleep_channel := ch, status := THREAD_STATE_SLEEPING, can_wakeup := False\<rparr>) s)"
proof -
  let ?f = "\<lambda>x. x\<lparr>sleep_channel := ch, status := THREAD_STATE_SLEEPING, can_wakeup := False\<rparr>"
  from assms obtain t c where c: "registered s c" "current_thread (cpus s ! c) = Some t"
    and r: "(if lk \<noteq> proc_table_lock then release_Spinlock lk else ret ()) (upd_thread t ?f s) = Inr ((), u)"
    by (auto simp: ThreadSleep_begin_def bnd_Inr_iff seqn_Inr_iff current_iff)
  have "view u = view (upd_thread t ?f s)" using r by (auto split: if_splits dest!: quietD [OF quiet_release])
  with c show thesis by (intro that)
qed

lemma ThreadSleep_end_view:
  "ThreadSleep_end t lk s = Inr (b, u) \<Longrightarrow> view u = view (upd_thread t (\<lambda>x. x\<lparr>sleep_channel := 0\<rparr>) s)"
  by (auto simp: ThreadSleep_end_def seqn_Inr_iff split: if_splits dest!: quietD [OF quiet_acquire])

lemma ExitThread_cases:
  fixes s :: "'a proc_scheme"
  assumes "ExitThread s = Inr (b, u)"
  obtains s1 :: "'a proc_scheme" and c t where "view s1 = view s" "registered s1 c" "current_thread (cpus s1 ! c) = Some t"
    "view u = view (upd_thread t (\<lambda>x. x\<lparr>status := THREAD_STATE_KILLED, thread_id := UINT32_MAX\<rparr>)
       (upd_cpu c (current_thread_update (\<lambda>_. None)) s1))"
proof -
  let ?f = "\<lambda>x. x\<lparr>status := THREAD_STATE_KILLED, thread_id := UINT32_MAX\<rparr>"
  from assms obtain s1 c t s3 where s1: "acquire_Spinlock proc_table_lock s = Inr ((), s1)"
    and c: "registered s1 c" "current_thread (cpus s1 ! c) = Some t"
    and rel: "release_Spinlock proc_table_lock (upd_thread t ?f (upd_cpu c (current_thread_update (\<lambda>_. None)) s1)) = Inr ((), s3)"
    and u: "u = sti c s3"
    by (auto simp: ExitThread_def seqn_Inr_iff bnd_Inr_iff current_iff dest: registered_unique)
  have "view u = view s3" by (simp add: u sti_def view_upd_cpu)
  with quietD [OF quiet_release rel] quietD [OF quiet_acquire s1] c show thesis by (intro that) auto
qed

lemma quiet_kalloc: "quiet (kalloc n)"
proof -
  have "quiet (kheap_request n)"
    by (auto simp: quiet_def kheap_request_def view_def split: sum.splits prod.splits)
  then show ?thesis
    unfolding kalloc_def by (intro quiet_bnd quiet_seqn quiet_acquire) (auto intro: quiet_rules quiet_release)
qed

lemma FindFreeThread_Some:
  "FindFreeThread s = Inr (Some t, u) \<Longrightarrow> u = s \<and> t < MAX_NUM_THREADS \<and> free_slot (threads s t)"
  by (auto simp: FindFreeThread_def dest: find_SomeD)

lemma CreateKernelThread_cases:
  fixes s :: "'a proc_scheme"
  assumes "CreateKernelThread ent s = Inr (r, u)"
  obtains s1 :: "'a proc_scheme" and t st where "view s1 = view s" "t < MAX_NUM_THREADS" "free_slot (threads s1 t)"
    "view u = view (upd_thread t (\<lambda>x. x\<lparr>thread_id := of_nat t, thread_pml4t_phys := kernel_table s1,
        thread_pml4t_va := pml4t_va (link s1), status := THREAD_STATE_READY, run_mode := KERNEL_THREAD, can_wakeup := True,
        execution_context := (execution_context x)\<lparr>i_rip := ent, i_rsp := st, i_rflags := 0x202,
          i_cs := KERNEL_CS, i_ss := KERNEL_DS, rdi := 0, rsi := 0, rbp := 0\<rparr>\<rparr>) s1)"
proof -
  from assms obtain s1 t where s1: "acquire_Spinlock proc_table_lock s = Inr ((), s1)"
    and t: "FindFreeThread s1 = Inr (Some t, s1)"
    by (auto simp: CreateKernelThread_def seqn_Inr_iff bnd_Inr_iff FindFreeThread_def split: option.splits)
  let ?s2 = "upd_thread t (\<lambda>x. x\<lparr>thread_id := of_nat t, thread_pml4t_phys := kernel_table s1,
        thread_pml4t_va := pml4t_va (link s1), status := THREAD_STATE_READY, run_mode := KERNEL_THREAD\<rparr>) s1"
  from assms s1 t obtain a s3 where k: "kalloc 0x10000 ?s2 = Inr (a, s3)" and
    r: "release_Spinlock proc_table_lock (upd_ctx t (\<lambda>c. c\<lparr>i_rip := ent, i_rsp := a + 0x10000, i_rflags := 0x202,
         i_cs := KERNEL_CS, i_ss := KERNEL_DS, rdi := 0, rsi := 0, rbp := 0\<rparr>) (upd_thread t (\<lambda>t. t\<lparr>can_wakeup := True\<rparr>) s3)) = Inr ((), u)"
    by (auto simp: CreateKernelThread_def seqn_Inr_iff bnd_Inr_iff split: if_splits)
  have v3: "view s3 = view ?s2" by (rule quietD [OF quiet_kalloc k])
  have "view u = view (upd_thread t (\<lambda>x. x\<lparr>thread_id := of_nat t, thread_pml4t_phys := kernel_table s1,
        thread_pml4t_va := pml4t_va (link s1), status := THREAD_STATE_READY, run_mode := KERNEL_THREAD, can_wakeup := True,
        execution_context := (execution_context x)\<lparr>i_rip := ent, i_rsp := a + 0x10000, i_rflags := 0x202,
          i_cs := KERNEL_CS, i_ss := KERNEL_DS, rdi := 0, rsi := 0, rbp := 0\<rparr>\<rparr>) s1)"
    using quietD [OF quiet_release r] v3 by (simp add: view_def upd_ctx_def upd_thread_def)
  with FindFreeThread_Some [OF t] quietD [OF quiet_acquire s1] show thesis by (intro that [of s1 t]) auto
qed

text \<open>So each of them keeps the invariant.\<close>

lemma wakeup_loop_entry:
  "wakeup_loop ch n T k = T k \<or> (wakes ch (T k) \<and> wakeup_loop ch n T k = (T k)\<lparr>can_wakeup := True\<rparr>)"
  by (induction n) (auto simp: Let_def wakes_def)

lemma wakeup_loop_same_kind: "same_kind (T k) (wakeup_loop ch n T k)"
  using wakeup_loop_entry [of ch n T k] by (auto simp: same_kind_def waiting_def active_def)

lemma Wakeup_inv:
  assumes "sched_inv s" "Wakeup ch s = Inr (r, u)"
  shows "sched_inv u"
  using assms(2)
proof (rule Wakeup_cases)
  fix s1 :: "'a proc_scheme" assume v: "view s1 = view s"
    and u: "view u = view (s1\<lparr>threads := wakeup_loop ch MAX_NUM_THREADS (threads s1)\<rparr>)"
  have "sched_inv s1" using assms(1) sched_inv_view [OF v] by simp
  then have "sched_inv (s1\<lparr>threads := wakeup_loop ch MAX_NUM_THREADS (threads s1)\<rparr>)"
    by (auto simp: sched_inv_def intro: table_inv_same_kind wakeup_loop_same_kind)
  then show ?thesis using sched_inv_view [OF u] by simp
qed

lemma table_inv_idle_entry:
  assumes "table_inv cur T" "thread_id y = thread_id (T IDLE_THREAD)"
  shows "table_inv cur (T(IDLE_THREAD := y))"
  using assms by (auto simp: table_inv_def waiting_ok_def current_ok_def idle_ok_def IDLE_THREAD_def)

lemma table_inv_sleep:
  assumes "table_inv cur T" "c < length cur" "cur ! c = Some t"
  shows "table_inv cur (T(t := (T t)\<lparr>sleep_channel := ch, status := THREAD_STATE_SLEEPING, can_wakeup := b\<rparr>))"
proof (cases "t = IDLE_THREAD")
  case True
  with assms show ?thesis by (auto intro: table_inv_idle_entry)
next
  case False
  with assms have "active (T t)" using current_okD [of cur T c t] by (auto simp: table_inv_def)
  with assms(1) show ?thesis
    by (auto simp: same_kind_def waiting_def active_def intro!: table_inv_same_kind [of _ T])
qed

lemma ThreadSleep_begin_inv:
  assumes inv: "sched_inv s" and run: "ThreadSleep_begin ch lk s = Inr (b, u)"
  shows "sched_inv u"
  using run
proof (rule ThreadSleep_begin_cases)
  fix c t assume c: "registered s c" "current_thread (cpus s ! c) = Some t"
    and v: "view u = view (upd_thread t (\<lambda>x. x\<lparr>sleep_channel := ch, status := THREAD_STATE_SLEEPING, can_wakeup := False\<rparr>) s)"
  show ?thesis
    unfolding sched_inv_view [OF v] using inv registered_less [OF c(1)] c(2)
    by (simp add: sched_inv_def upd_thread_def table_inv_sleep)
qed

lemma ThreadSleep_end_inv:
  assumes inv: "sched_inv s" and run: "ThreadSleep_end t lk s = Inr (b, u)"
  shows "sched_inv u"
  unfolding sched_inv_view [OF ThreadSleep_end_view [OF run]] using inv
  by (auto simp: sched_inv_def upd_thread_def same_kind_def waiting_def active_def intro!: table_inv_same_kind [of _ "threads s"])

lemma ExitThread_inv:
  assumes inv: "sched_inv s" and run: "ExitThread s = Inr (b, u)"
  shows "sched_inv u"
  using run
proof (rule ExitThread_cases)
  let ?f = "\<lambda>x. x\<lparr>status := THREAD_STATE_KILLED, thread_id := UINT32_MAX\<rparr>"
  fix s1 :: "'a proc_scheme" and c t assume v: "view s1 = view s" and c: "registered s1 c" "current_thread (cpus s1 ! c) = Some t"
    and u: "view u = view (upd_thread t ?f (upd_cpu c (current_thread_update (\<lambda>_. None)) s1))"
  have inv1: "sched_inv s1" using inv sched_inv_view [OF v] by simp
  show ?thesis
    unfolding sched_inv_view [OF u]
    using table_inv_drop [of "map current_thread (cpus s1)" "threads s1" c t "?f (threads s1 t)"] inv1 c registered_less [OF c(1)]
    by (simp add: sched_inv_def upd_thread_def upd_cpu_def map_update)
qed

lemma CreateKernelThread_inv:
  assumes inv: "sched_inv s" and run: "CreateKernelThread ent s = Inr (r, u)" and ent: "ent \<noteq> 0"
  shows "sched_inv u"
proof -
  from run show ?thesis
  proof (rule CreateKernelThread_cases)
    fix s1 t st assume v: "view s1 = view s" and t: "t < MAX_NUM_THREADS" "free_slot (threads s1 t)"
      and u: "view u = view (upd_thread t (\<lambda>x. x\<lparr>thread_id := of_nat t, thread_pml4t_phys := kernel_table s1,
        thread_pml4t_va := pml4t_va (link s1), status := THREAD_STATE_READY, run_mode := KERNEL_THREAD, can_wakeup := True,
        execution_context := (execution_context x)\<lparr>i_rip := ent, i_rsp := st, i_rflags := 0x202,
          i_cs := KERNEL_CS, i_ss := KERNEL_DS, rdi := 0, rsi := 0, rbp := 0\<rparr>\<rparr>) s1)"
    have "table_inv (map current_thread (cpus s1)) (threads s1)"
      using inv sched_inv_view [OF v] by (simp add: sched_inv_def)
    from table_inv_create [OF this t] ent show ?thesis
      unfolding sched_inv_view [OF u] by (simp add: sched_inv_def upd_thread_def waiting_def)
  qed
qed

lemma sched_inv_step:
  assumes inv: "sched_inv s" and st: "sched_step s t"
  shows "sched_inv t"
  using st
proof cases
  case (timer cal tf l f)
  from timer(1) show ?thesis
  proof (rule timer_cases)
    fix s1 assume v: "view s1 = view (s\<lparr>lapic_id := l\<rparr>)" and r: "InvokeScheduler (Some tf) s1 = Inr (f, t)"
    from sched_inv_view [OF v] inv show ?thesis by (intro InvokeScheduler_inv [OF _ r timer(2)]) simp
  qed
next
  case (int3 tf l f)
  from int3(1) show ?thesis
  proof (rule int3_cases)
    fix s1 s2 g assume v: "view s1 = view (s\<lparr>lapic_id := l\<rparr>)" and r: "InvokeScheduler (Some tf) s1 = Inr (g, s2)"
      and u: "view t = view s2"
    from sched_inv_view [OF v] inv show ?thesis
      unfolding sched_inv_view [OF u] by (intro InvokeScheduler_inv [OF _ r int3(2)]) simp
  qed
next
  case (awake lk l u)
  then show ?thesis using inv
    by (auto simp: bnd_Inr_iff current_iff intro: ThreadSleep_end_inv [where s = "s\<lparr>lapic_id := l\<rparr>"])
next
  case (sleep ch lk l b)
  then show ?thesis using inv ThreadSleep_begin_inv [of "s\<lparr>lapic_id := l\<rparr>"] by simp
next
  case (wakeup ch l u)
  then show ?thesis using inv Wakeup_inv [of "s\<lparr>lapic_id := l\<rparr>"] by simp
next
  case (create ent l u)
  then show ?thesis using inv CreateKernelThread_inv [of "s\<lparr>lapic_id := l\<rparr>"] by simp
next
  case (exit l u)
  then show ?thesis using inv ExitThread_inv [of "s\<lparr>lapic_id := l\<rparr>"] by simp
qed

interpretation sched_ts: transition_system sched_init sched_step sched_inv
  by unfold_locales (auto intro: sched_init_inv sched_inv_step)

section \<open>A sleeping thread that nobody can wake\<close>

definition lost :: "nat \<Rightarrow> 'a proc_scheme \<Rightarrow> bool" where
  "lost t s \<longleftrightarrow> t < MAX_NUM_THREADS \<and> status (threads s t) = THREAD_STATE_WAKEUP_READY \<and> \<not> can_wakeup (threads s t)
     \<and> sleep_channel (threads s t) = 0 \<and> Some t \<notin> set (map current_thread (cpus s))"

lemma lost_view: "view s = view u \<Longrightarrow> lost t s = lost t u"
  by (simp only: lost_def view_def prod.inject)

lemma lost_lapic [simp]: "lost t (s\<lparr>lapic_id := l\<rparr>) = lost t s"
  by (simp add: lost_def)

lemma lost_not_current:
  assumes "lost t s" "registered s c"
  shows "current_thread (cpus s ! c) \<noteq> Some t"
proof -
  from registered_less [OF assms(2)] have "current_thread (cpus s ! c) \<in> set (map current_thread (cpus s))" by simp
  with assms(1) show ?thesis unfolding lost_def by metis
qed

lemma lost_upd_thread: "lost t s \<Longrightarrow> k \<noteq> t \<Longrightarrow> lost t (upd_thread k f s)"
  by (simp add: lost_def upd_thread_def)

lemma lost_set_current: "lost t s \<Longrightarrow> x \<noteq> Some t \<Longrightarrow> lost t (upd_cpu c (current_thread_update (\<lambda>_. x)) s)"
  by (auto simp: lost_def upd_cpu_def map_update dest!: set_update_subset_insert [THEN subsetD])

lemma lost_via:
  assumes "lost t s" "cur = map current_thread (cpus s) \<or> cur = (map current_thread (cpus s))[c := Some k]" "k \<noteq> t"
    and "T t = threads s t" and "view u = (l, ids, cur, T, p)"
  shows "lost t u"
  using assms by (auto simp: lost_def view_def dest!: set_update_subset_insert [THEN subsetD])

lemma lost_InvokeScheduler:
  assumes inv: "sched_inv s" and l: "lost t s" and run: "InvokeScheduler (Some x) s = Inr (f, u)"
  shows "lost t u"
proof -
  from InvokeScheduler_cases [OF run] obtain c s1 where reg: "registered s c" and v: "view s1 = view s"
    and d: "sched_decide c (current_thread (cpus s ! c)) (Some x) s1 = Inr (f, u)" by blast
  let ?old = "current_thread (cpus s ! c)"
  have inv1: "sched_inv s1" and l1: "lost t s1" using inv l sched_inv_view [OF v] lost_view [OF v] by simp_all
  have reg1: "registered s1 c" using reg view_registered [OF v] by simp
  have c1: "c < length (cpus s1)" "current_thread (cpus s1 ! c) = ?old"
    using registered_less [OF reg1] view_curr_nth [OF v] registered_less [OF reg] by auto
  note oid = sched_inv_oid [OF inv1 c1]
  note next1 = sched_decide_next [OF oid sched_inv_rips [OF inv1], of c "Some x"]
  have ot: "?old \<noteq> Some t" using lost_not_current [OF l1 reg1] c1 by simp
  show ?thesis
  proof (cases "next_thread ?old s1")
    case None
    with next1 d have "schedule_idle ?old (Some x) s1 = Inr (f, u)" by simp
    from schedule_idle_view [OF this reg1] show ?thesis
    proof
      assume "view u = view s1"
      with l1 lost_view show ?thesis by blast
    next
      assume v: "view u = (lapic_id s1, map cpu_id (cpus s1), (map current_thread (cpus s1))[c := Some IDLE_THREAD],
        (threads s1)(IDLE_THREAD := (threads s1 IDLE_THREAD)\<lparr>status := THREAD_STATE_READY\<rparr>), settings_panic s1)"
      have it: "IDLE_THREAD \<noteq> t" using l1 by (auto simp: lost_def IDLE_THREAD_def)
      show ?thesis by (rule lost_via [OF l1 disjI2 it _ v]) (use it in simp_all)
    qed
  next
    case (Some k)
    from next_thread_props [OF Some oid] have k: "k < MAX_NUM_THREADS" "runnable (threads s1 k)" by auto
    then have kt: "k \<noteq> t" using l1 by (auto simp: lost_def runnable_def)
    have rip: "i_rip (execution_context (threads s1 k)) \<noteq> 0"
      using sched_inv_rips [OF inv1] k by (auto simp: rips_ok_def runnable_def)
    have "save_ok ?old (Some x) (threads s1)"
      using next1 d Some k(2) inv1 c1 current_okD [of "map current_thread (cpus s1)" "threads s1" c]
      by (cases ?old) (auto simp: save_ok_def sched_inv_def table_inv_def active_def)
    from save_ok_not_next [OF this k(2,1)] have ne: "?old \<noteq> Some k" .
    from next1 d Some have "switch_to c ?old (Some x) k s1 = Inr (f, u)" by simp
    from switch_to_view [OF this k(2) rip ne]
    have "view u = (lapic_id s1, map cpu_id (cpus s1), (map current_thread (cpus s1))[c := Some k],
        switched ?old (Some x) k (threads s1), settings_panic s1)" by simp
    then show ?thesis
      using kt ot by (intro lost_via [OF l1 disjI2 kt]) (auto simp: switched_def saved_at_other)
  qed
qed

lemma lost_current: "lost t s \<Longrightarrow> registered s c \<Longrightarrow> current_thread (cpus s ! c) = Some k \<Longrightarrow> lost t (upd_thread k f s)"
  using lost_not_current [of t s c] by (intro lost_upd_thread) auto

lemma lost_Wakeup:
  assumes l: "lost t s" and "Wakeup ch s = Inr (r, u)" and ch: "ch \<noteq> 0"
  shows "lost t u"
  using assms(2)
proof (rule Wakeup_cases)
  fix s1 :: "'a proc_scheme" assume v: "view s1 = view s"
    and u: "view u = view (s1\<lparr>threads := wakeup_loop ch MAX_NUM_THREADS (threads s1)\<rparr>)"
  have l1: "lost t s1" using l lost_view [OF v] by simp
  then have "wakeup_loop ch MAX_NUM_THREADS (threads s1) t = threads s1 t"
    using wakeup_loop_entry [of ch MAX_NUM_THREADS "threads s1" t] ch by (auto simp: lost_def wakes_def)
  with l1 show ?thesis unfolding lost_view [OF u] by (simp add: lost_def)
qed

lemma lost_Create:
  fixes s :: "'a proc_scheme"
  assumes l: "lost t s" and "CreateKernelThread ent s = Inr (r, u)"
  shows "lost t u"
  using assms(2)
proof (rule CreateKernelThread_cases)
  fix s1 :: "'a proc_scheme" and x st
  assume v: "view s1 = view s" and x: "free_slot (threads s1 x)"
    and u: "view u = view (upd_thread x (\<lambda>x'. x'\<lparr>thread_id := of_nat x, thread_pml4t_phys := kernel_table s1,
        thread_pml4t_va := pml4t_va (link s1), status := THREAD_STATE_READY, run_mode := KERNEL_THREAD, can_wakeup := True,
        execution_context := (execution_context x')\<lparr>i_rip := ent, i_rsp := st, i_rflags := 0x202,
          i_cs := KERNEL_CS, i_ss := KERNEL_DS, rdi := 0, rsi := 0, rbp := 0\<rparr>\<rparr>) s1)"
  have l1: "lost t s1" using l lost_view [OF v] by simp
  with x have "x \<noteq> t" by (auto simp: lost_def free_slot_def)
  with l1 show ?thesis unfolding lost_view [OF u] by (rule lost_upd_thread)
qed

lemma lost_Exit:
  assumes l: "lost t s" and "ExitThread s = Inr (r, u)"
  shows "lost t u"
  using assms(2)
proof (rule ExitThread_cases)
  let ?f = "\<lambda>x. x\<lparr>status := THREAD_STATE_KILLED, thread_id := UINT32_MAX\<rparr>"
  fix s1 :: "'a proc_scheme" and c k assume v: "view s1 = view s" and c: "registered s1 c" "current_thread (cpus s1 ! c) = Some k"
    and u: "view u = view (upd_thread k ?f (upd_cpu c (current_thread_update (\<lambda>_. None)) s1))"
  have l1: "lost t s1" using l lost_view [OF v] by simp
  then show ?thesis
    unfolding lost_view [OF u] using lost_not_current [OF l1 c(1)] c(2) by (intro lost_upd_thread lost_set_current) auto
qed

lemma lost_step:
  assumes inv: "sched_inv s" and l: "lost t s" and st: "sched_step s u"
  shows "lost t u"
  using st
proof cases
  case (timer cal tf lid f)
  from timer(1) show ?thesis
  proof (rule timer_cases)
    fix s1 assume v: "view s1 = view (s\<lparr>lapic_id := lid\<rparr>)" and r: "InvokeScheduler (Some tf) s1 = Inr (f, u)"
    from sched_inv_view [OF v] lost_view [OF v, of t] inv l show ?thesis by (intro lost_InvokeScheduler [OF _ _ r]) simp_all
  qed
next
  case (int3 tf lid f)
  from int3(1) show ?thesis
  proof (rule int3_cases)
    fix s1 s2 g assume v: "view s1 = view (s\<lparr>lapic_id := lid\<rparr>)" and r: "InvokeScheduler (Some tf) s1 = Inr (g, s2)"
      and w: "view u = view s2"
    from sched_inv_view [OF v] lost_view [OF v, of t] inv l show ?thesis
      unfolding lost_view [OF w] by (intro lost_InvokeScheduler [OF _ _ r]) simp_all
  qed
next
  case (sleep ch lk lid b)
  let ?f = "\<lambda>x. x\<lparr>sleep_channel := ch, status := THREAD_STATE_SLEEPING, can_wakeup := False\<rparr>"
  from sleep show ?thesis
  proof (rule ThreadSleep_begin_cases)
    fix c x assume c: "registered (s\<lparr>lapic_id := lid\<rparr>) c" "current_thread (cpus (s\<lparr>lapic_id := lid\<rparr>) ! c) = Some x"
      and v: "view u = view (upd_thread x ?f (s\<lparr>lapic_id := lid\<rparr>))"
    show ?thesis unfolding lost_view [OF v] using l c by (intro lost_current) simp_all
  qed
next
  case (awake lk lid b)
  then obtain x c where c: "registered (s\<lparr>lapic_id := lid\<rparr>) c" "current_thread (cpus (s\<lparr>lapic_id := lid\<rparr>) ! c) = Some x"
    and r: "ThreadSleep_end x lk (s\<lparr>lapic_id := lid\<rparr>) = Inr ((), u)" by (auto simp: bnd_Inr_iff current_iff)
  show ?thesis unfolding lost_view [OF ThreadSleep_end_view [OF r]] using l c by (intro lost_current) simp_all
qed (use l in \<open>auto intro: lost_Wakeup [where s = "s\<lparr>lapic_id := k\<rparr>" for k] lost_Create [where s = "s\<lparr>lapic_id := k\<rparr>" for k]
      lost_Exit [where s = "s\<lparr>lapic_id := k\<rparr>" for k]\<close>)

interpretation lost_ts: transition_system "\<lambda>s. sched_inv s \<and> lost t s" sched_step "\<lambda>s. sched_inv s \<and> lost t s" for t
  by unfold_locales (auto intro: sched_inv_step lost_step)

lemma reach_from: "reach (\<lambda>a. a = w) step z \<Longrightarrow> P w \<Longrightarrow> reach P step z"
  by (induction rule: reach.induct) (auto intro: reach.intros)

lemma sleeper_descheduled:
  assumes inv: "sched_inv v" and reg: "registered v c" and cur: "current_thread (cpus v ! c) = Some t"
    and t: "t < MAX_NUM_THREADS" "status (threads v t) = THREAD_STATE_SLEEPING" "\<not> can_wakeup (threads v t)"
      "sleep_channel (threads v t) = 0"
    and run: "InvokeScheduler (Some x) v = Inr (Iret f, w)"
  shows "lost t w"
proof -
  from InvokeScheduler_cases [OF run] obtain c' s1 where reg': "registered v c'" and v1: "view s1 = view v"
    and d0: "sched_decide c' (current_thread (cpus v ! c')) (Some x) s1 = Inr (Iret f, w)" by blast
  from registered_unique [OF reg' reg] cur d0 have d: "sched_decide c (Some t) (Some x) s1 = Inr (Iret f, w)" by simp
  have inv1: "sched_inv s1" using inv sched_inv_view [OF v1] by simp
  have T: "threads s1 = threads v" by (rule view_threads [OF v1])
  have c1: "c < length (cpus s1)" "current_thread (cpus s1 ! c) = Some t"
    using view_length [OF v1] view_curr_nth [OF v1] registered_less [OF reg] cur by auto
  note oid = sched_inv_oid [OF inv1 c1]
  note next1 = sched_decide_next [OF oid sched_inv_rips [OF inv1], of c "Some x"]
  show ?thesis
  proof (cases "next_thread (Some t) s1")
    case None
    with next1 d have "schedule_idle (Some t) (Some x) s1 = Inr (Iret f, w)" by simp
    then show ?thesis using t T by (auto simp: schedule_idle_def bnd_gets bnd_ret seqn_Inr_iff)
  next
    case (Some k)
    from next_thread_props [OF Some oid] have k: "k < MAX_NUM_THREADS" "runnable (threads s1 k)" by auto
    then have kt: "k \<noteq> t" using t T by (auto simp: runnable_def)
    have rip: "i_rip (execution_context (threads s1 k)) \<noteq> 0"
      using sched_inv_rips [OF inv1] k by (auto simp: rips_ok_def runnable_def)
    from next1 d Some have "switch_to c (Some t) (Some x) k s1 = Inr (Iret f, w)" by simp
    from switch_to_view [OF this k(2) rip] kt have w: "map current_thread (cpus w) = (map current_thread (cpus s1))[c := Some k]"
      "threads w t = (threads v t)\<lparr>status := THREAD_STATE_WAKEUP_READY, execution_context := x\<rparr>"
      using t by (auto simp: view_def switched_def saved_def T IDLE_THREAD_def)
    have "Some t \<notin> set ((map current_thread (cpus s1))[c := Some k])"
    proof
      assume "Some t \<in> set ((map current_thread (cpus s1))[c := Some k])"
      then obtain i where i: "i < length (cpus s1)" "(map current_thread (cpus s1))[c := Some k] ! i = Some t"
        by (auto simp: in_set_conv_nth)
      with kt c1 have "i \<noteq> c" "current_thread (cpus s1 ! i) = Some t" by (auto simp: nth_list_update split: if_splits)
      with inv1 i c1 have "t = IDLE_THREAD" unfolding sched_inv_def table_inv_def exclusive_def
        by (metis length_map nth_map)
      with t show False by (simp add: IDLE_THREAD_def)
    qed
    with w t show ?thesis by (simp only: lost_def) simp
  qed
qed

lemma int3_returns:
  fixes s :: "'a proc_scheme"
  assumes inv: "sched_inv s" and reg: "registered s c" and free: "\<not> is_locked (locks s proc_table_lock)"
    and cnt: "cli_count (cpus s ! c) \<noteq> UINT32_MAX" and np: "\<not> settings_panic s"
    and cur: "current_thread (cpus s ! c) = Some t" and st: "status (threads s t) = THREAD_STATE_SLEEPING"
    and none: "next_thread (Some t) s = None"
  shows "\<exists>u. isr_int3 x s = Inr (Returned, u) \<and> threads u = threads s
        \<and> map current_thread (cpus u) = map current_thread (cpus s)"
proof -
  have oid: "oid_ok (Some t) s" using sched_inv_oid [OF inv registered_less [OF reg] cur] .
  from InvokeScheduler_none [OF reg free cnt np cur oid sched_inv_rips [OF inv] none refl] st
  obtain u where u: "InvokeScheduler (Some x) s = Inr (Returned, u)" "threads u = threads s"
    "map current_thread (cpus u) = map current_thread (cpus s)" by auto
  from InvokeScheduler_cases [OF u(1)] obtain c' s1 where c': "registered s c'" and v1: "view s1 = view s"
    and d0: "sched_decide c' (current_thread (cpus s ! c')) (Some x) s1 = Inr (Returned, u)" by blast
  from registered_unique [OF c' reg] cur d0 have d: "sched_decide c (Some t) (Some x) s1 = Inr (Returned, u)" by simp
  have T1: "threads s1 = threads s" by (rule view_threads [OF v1])
  have "schedule_idle (Some t) (Some x) s1 = Inr (Returned, u)"
    using d sched_decide_next [of "Some t" s1 c "Some x"] oid none sched_inv_rips [OF inv]
    by (simp add: oid_ok_cong [OF T1] next_thread_cong [OF T1] T1)
  then have "view u = view s1"
    using st T1 by (auto simp: schedule_idle_def bnd_gets bnd_ret seqn_Inr_iff
        dest!: quietD [OF quiet_release] quietD [OF quiet_HandleNoSchedule])
  with v1 reg have ru: "registered u c" using view_registered by metis
  from apic_eoi_run [OF ru] obtain e where
    e: "apic_end_of_interrupt u = Inr ((), upd_cpu c (noINT_update (\<lambda>_. False)) (u\<lparr>apic_eoi := e\<rparr>))" by blast
  have g: "GetCurrentThread s = Inr (Some t, s)" using reg cur by (auto simp: GetCurrentThread_iff)
  have "isr_int3 x s = bnd (InvokeScheduler (Some x)) (\<lambda>f. case f of Iret y \<Rightarrow> ret (Iret y)
      | Returned \<Rightarrow> seqn apic_end_of_interrupt (ret Returned)) s"
    using st by (simp add: isr_int3_def bnd_step [where m = GetCurrentThread, OF g] deref_def bnd_ret bnd_gets)
  then have "isr_int3 x s = Inr (Returned, upd_cpu c (noINT_update (\<lambda>_. False)) (u\<lparr>apic_eoi := e\<rparr>))"
    using u(1) e by (simp add: bnd_def seqn_def ret_def)
  then show ?thesis
    using u by (simp add: upd_cpu_def map_upd_same)
qed

section \<open>Properties\<close>


definition idle_only :: "nat \<Rightarrow> Thread" where
  "idle_only = (\<lambda>_. zero_thread)(IDLE_THREAD := kthread IDLE_THREAD THREAD_STATE_READY 0x300)"

lemma idle_only_simps: "k < MAX_NUM_THREADS \<Longrightarrow> idle_only k = zero_thread"
  "idle_only IDLE_THREAD = kthread IDLE_THREAD THREAD_STATE_READY 0x300"
  by (simp_all add: idle_only_def IDLE_THREAD_def)

lemma idle_only_init: "sched_init (machine cur idle_only)" if "set cur \<subseteq> {None}"
  using that unfolding sched_init_def by (auto simp: idle_only_simps zero_thread_def subset_iff all_set_conv_all_nth)


text \<open>C39: a sleeping thread can be lost. When a thread executes the \<open>int3\<close> of \<open>ThreadSleep\<close> and no other thread is
  runnable, \<open>InvokeScheduler\<close> returns to it: it goes on although nobody woke it, still marked as sleeping, and its
  next instruction clears \<open>sleep_channel\<close>. If the timer takes the CPU away from it before it sleeps again, it is
  left waiting with no channel, and in no state the system can reach afterwards does it ever become ready or
  current again, whatever channels are woken.\<close>

theorem sleeper_lost_forever:
  fixes s :: proc
  assumes inv: "sched_inv s" and reg: "registered s c" and free: "\<not> is_locked (locks s proc_table_lock)"
    and cnt: "cli_count (cpus s ! c) \<noteq> UINT32_MAX" and np: "\<not> settings_panic s"
    and cur: "current_thread (cpus s ! c) = Some t" and t: "t < MAX_NUM_THREADS"
    and st: "status (threads s t) = THREAD_STATE_SLEEPING" and cw: "\<not> can_wakeup (threads s t)"
    and none: "next_thread (Some t) s = None"
  shows "(\<exists>u. isr_int3 x s = Inr (Returned, u) \<and> threads u = threads s
        \<and> map current_thread (cpus u) = map current_thread (cpus s))
     \<and> (\<forall>v tf f w z. sched_inv v \<and> registered v c \<and> current_thread (cpus v ! c) = Some t
          \<and> threads v t = (threads s t)\<lparr>sleep_channel := 0\<rparr> \<and> i_rip tf \<noteq> 0
          \<and> isr_timer True tf v = Inr (Iret f, w) \<and> reach (\<lambda>a. a = w) sched_step z
        \<longrightarrow> status (threads z t) = THREAD_STATE_WAKEUP_READY \<and> Some t \<notin> set (map current_thread (cpus z)))"
proof (intro conjI allI impI)
  show "\<exists>u. isr_int3 x s = Inr (Returned, u) \<and> threads u = threads s
      \<and> map current_thread (cpus u) = map current_thread (cpus s)"
    by (rule int3_returns [OF inv reg free cnt np cur st none])
next
  fix v tf f w z
  assume a: "sched_inv v \<and> registered v c \<and> current_thread (cpus v ! c) = Some t
      \<and> threads v t = (threads s t)\<lparr>sleep_channel := 0\<rparr> \<and> i_rip tf \<noteq> 0
      \<and> isr_timer True tf v = Inr (Iret f, w) \<and> reach (\<lambda>a. a = w) sched_step z"
  let ?v = "v\<lparr>tick_counter := tick_counter v + 1\<rparr>"
  from a have run: "InvokeScheduler (Some tf) ?v = Inr (Iret f, w)" by (auto simp: isr_timer_def seqn_Inr_iff)
  have iv: "sched_inv ?v" "registered ?v c" using a by (auto simp: sched_inv_def registered_def)
  have "lost t w" by (rule sleeper_descheduled [OF iv _ t _ _ _ run]) (use a st cw in simp_all)
  moreover have "sched_inv w" using InvokeScheduler_inv [OF iv(1) run] a by blast
  ultimately have "lost t z" using a lost_ts.reach_inv [of t z] reach_from [of w sched_step z "\<lambda>s. sched_inv s \<and> lost t s"] by blast
  then show "status (threads z t) = THREAD_STATE_WAKEUP_READY" "Some t \<notin> set (map current_thread (cpus z))"
    unfolding lost_def by blast+
qed

definition sleepy :: "nat \<Rightarrow> Thread" where
  "sleepy = idle_only(0 := (kthread 0 THREAD_STATE_SLEEPING 0x100)\<lparr>can_wakeup := False, sleep_channel := 0x5000\<rparr>)"

lemma sleepy_inv: "sched_inv (machine [Some 0] sleepy)"
  by (auto simp: sched_inv_def table_inv_def waiting_ok_def current_ok_def exclusive_def idle_ok_def sleepy_def
      idle_only_def waiting_def active_def zero_thread_def IDLE_THREAD_def MAX_NUM_THREADS_def)

theorem sleeper_lost_forever_witness:
  "\<exists>u. isr_int3 zero_context (machine [Some 0] sleepy) = Inr (Returned, u) \<and> status (threads u 0) = THREAD_STATE_SLEEPING
     \<and> map current_thread (cpus u) = [Some 0]"
proof -
  let ?s = "machine [Some 0] sleepy"
  have r: "registered ?s 0" by (rule machine_registered) simp
  have c: "current_thread (cpus ?s ! 0) = Some 0" "cli_count (cpus ?s ! 0) \<noteq> UINT32_MAX" by (simp_all add: boot_cpu_def)
  have st: "status (threads ?s 0) = THREAD_STATE_SLEEPING" "\<not> can_wakeup (threads ?s 0)" by (simp_all add: sleepy_def)
  have n: "next_thread (Some 0) ?s = None"
    by (auto simp: next_thread_def sched_order_def old_thread_id_def find_None_iff runnable_def sleepy_def idle_only_simps zero_thread_def)
  from sleeper_lost_forever [OF sleepy_inv r _ c(2) _ c(1) _ st n, of zero_context] st show ?thesis
    by (auto simp: MAX_NUM_THREADS_def)
qed

end
