(* ===== verification/User_Paging.thy ===== *)
theory User_Paging
  imports Scheduler
begin

text \<open>
  User address spaces: the page tables inside \<open>struct Process\<close> (the user part of
  src/src/kernel/mem/pmm.c, \<open>CreatePageTables\<close> and \<open>CreateUserProcessStack\<close> of kernel/proc.c) and the
  accesses to user memory from system calls (\<open>Fetch...\<close>, \<open>WriteStruct\<close> of arch/x86_64/syscalls.c).

  The record \<open>user\<close> adds the bytes of physical memory that user pages are made of. An access with a
  user page table loaded goes through \<open>user_translate\<close>, the walk the processor does; a page that is
  not present raises the page fault that \<open>isr_handler\<close> answers with a panic.
\<close>

record user = proc +
  pmem :: "u64 \<Rightarrow> u8"

section \<open>Page tables of a process\<close>

fun uva_copy_loop :: "nat \<Rightarrow> nat \<Rightarrow> 'a proc_scheme \<Rightarrow> 'a proc_scheme" where
  "uva_copy_loop p 0 s = s"
| "uva_copy_loop p (Suc i) s =
     (let s1 = uva_copy_loop p i s in
      set_qword (entry (pgdir_pdt p 0 s1) i) ((of_nat i * HUGEPGSIZE) OR PAGE_HUGE OR PAGE_PRESENT OR PAGE_WRITE) s1)"

text \<open>The function is declared \<open>bool\<close> but returns nothing; no caller uses the value.\<close>

definition uva_copy_kernel :: "nat \<Rightarrow> 'a proc_scheme \<Rightarrow> fault + unit \<times> 'a proc_scheme" where
  "uva_copy_kernel p =
     seqn (upd (\<lambda>s. set_qword (entry (pgdir_pml4t p s) 511) (KERNEL_PML4T_PHYS (pgdir_pdpt p s) OR (PAGE_PRESENT OR PAGE_WRITE)) s))
    (seqn (upd (\<lambda>s. set_qword (entry (pgdir_pdpt p s) 510) (KERNEL_PML4T_PHYS (pgdir_pdt p 0 s) OR (PAGE_PRESENT OR PAGE_WRITE)) s))
          (upd (uva_copy_loop p 512)))"

definition sizeof_proc_used_page_entry :: u64 where "sizeof_proc_used_page_entry = 48"

text \<open>\<open>x & PTADDRMASK != NULL\<close> parses as \<open>x & (PTADDRMASK != NULL)\<close>, the present bit of \<open>x\<close>. The fields of
  the new entry are written before the test of \<open>page_entry == NULL\<close>.\<close>

definition map_4kb_page_user :: "u64 \<Rightarrow> u64 \<Rightarrow> nat \<Rightarrow> u64 \<Rightarrow> u64 \<Rightarrow> 'a proc_scheme \<Rightarrow> fault + unit \<times> 'a proc_scheme" where
  "map_4kb_page_user virtual_address physical_address t pdt_i pd_i =
     bnd (gets (\<lambda>s. owner_proc (threads s t))) (\<lambda>own. case own of
       None \<Rightarrow> raise (Panic ''owner proc null'')
     | Some p \<Rightarrow>
       let fl = PAGE_USER OR PAGE_WRITE OR PAGE_PRESENT in
       seqn (ensure (\<lambda>_. pdt_i < 512 \<and> pd_i < 512) Undefined)
      (seqn (upd (\<lambda>s. set_qword (entry (pgdir_pml4t p s) (pml4t_index virtual_address))
               ((pgdir_pdpt p s AND NOT KERNEL_HH_START) OR fl) s))
      (seqn (upd (\<lambda>s. set_qword (entry (pgdir_pdpt p s) (pdpt_index virtual_address))
               ((pgdir_pdt p (unat pdt_i) s AND NOT KERNEL_HH_START) OR fl) s))
      (seqn (ensure (\<lambda>s. let e = qmem s (entry (pgdir_pdt p (unat pdt_i) s) (pdt_index virtual_address)) AND PTADDRMASK in
               \<not> (e \<noteq> 0 \<and> e \<noteq> (pgdir_pd p (unat pd_i) s AND NOT KERNEL_HH_START))) (Panic ''pdt''))
      (seqn (upd (\<lambda>s. set_qword (entry (pgdir_pdt p (unat pdt_i) s) (pdt_index virtual_address))
               ((pgdir_pd p (unat pd_i) s AND NOT KERNEL_HH_START) OR fl) s))
      (seqn (ensure (\<lambda>s. qmem s (entry (pgdir_pd p (unat pd_i) s) (pt_index virtual_address)) AND 1 = 0) (Panic ''pd''))
      (seqn (upd (\<lambda>s. set_qword (entry (pgdir_pd p (unat pd_i) s) (pt_index virtual_address)) (physical_address OR fl) s))
      (bnd (kalloc sizeof_proc_used_page_entry) (\<lambda>page_entry.
       if page_entry = 0 then raise Undefined
       else seqn (upd (\<lambda>s. s\<lparr>used_page := (used_page s)(page_entry :=
                \<lparr>page_va = PGROUNDDOWN virtual_address, page_pa = physical_address, pdt_table_index = pdt_i, pd_table_index = pd_i\<rparr>)\<rparr>))
           (bnd (gets (used_pages_head p)) (\<lambda>h. insert_dll_entry_head h page_entry)))))))))))"

text \<open>Here too the test \<open>pdt[..][..] & PTADDRMASK != NULL\<close> reads the present bit.\<close>

definition map_huge_page_user :: "u64 \<Rightarrow> u64 \<Rightarrow> nat \<Rightarrow> int \<Rightarrow> 'a proc_scheme \<Rightarrow> fault + unit \<times> 'a proc_scheme" where
  "map_huge_page_user virtual_address physical_address t index =
     bnd (gets (\<lambda>s. owner_proc (threads s t))) (\<lambda>own. case own of
       None \<Rightarrow> ret ()
     | Some p \<Rightarrow>
       let fl = PAGE_PRESENT OR PAGE_WRITE; i = nat index in
       seqn (ensure (\<lambda>_. 0 \<le> index \<and> index < 512) Undefined)
      (seqn (upd (\<lambda>s. set_qword (entry (pgdir_pml4t p s) (pml4t_index virtual_address)) (KERNEL_PML4T_PHYS (pgdir_pdpt p s) OR fl) s))
      (seqn (upd (\<lambda>s. set_qword (entry (pgdir_pdpt p s) (pdpt_index virtual_address)) (KERNEL_PML4T_PHYS (pgdir_pdt p i s) OR fl) s))
      (seqn (ensure (\<lambda>s. qmem s (entry (pgdir_pdt p i s) (pdt_index virtual_address)) AND 1 = 0) (Panic ''not null huge''))
            (upd (\<lambda>s. set_qword (entry (pgdir_pdt p i s) (pdt_index virtual_address)) (physical_address OR fl OR PAGE_HUGE) s))))))"

text \<open>\<open>pdt_addr[i] & PTADDRMASK == NULL\<close> parses as \<open>pdt_addr[i] & (PTADDRMASK == NULL)\<close>, which is 0, so that
  test never fires; \<open>pt_addr[i] & PTADDRMASK != 0\<close> is the present bit of the last entry.\<close>

definition is_frame_mapped_thread :: "nat \<Rightarrow> u64 \<Rightarrow> 'a proc_scheme \<Rightarrow> fault + bool \<times> 'a proc_scheme" where
  "is_frame_mapped_thread t virtual_address s =
     (case owner_proc (threads s t) of
        None \<Rightarrow> Inr (False, s)
      | Some p \<Rightarrow>
        let e4 = qmem s (entry (pgdir_pml4t p s) (pml4t_index virtual_address)) AND PTADDRMASK in
        if e4 = 0 then Inr (False, s)
        else let e3 = qmem s (entry (e4 + KERNEL_HH_START) (pdpt_index virtual_address)) AND PTADDRMASK in
        if e3 = 0 then Inr (False, s)
        else let e2 = qmem s (entry (e3 + KERNEL_HH_START) (pdt_index virtual_address)) in
        if e2 AND PAGE_HUGE \<noteq> 0 then Inr (True, s)
        else let e1 = qmem s (entry ((e2 AND PTADDRMASK) + KERNEL_HH_START) (pt_index virtual_address)) in
        Inr (e1 AND 1 \<noteq> 0, s))"

definition unmap_4kb_page_process :: "u64 \<Rightarrow> nat \<Rightarrow> 'a proc_scheme \<Rightarrow> fault + unit \<times> 'a proc_scheme" where
  "unmap_4kb_page_process virtual_address p =
     upd (\<lambda>s. set_qword (entry (pgdir_pd p (pdt_index virtual_address) s) (pt_index virtual_address)) 0 s)"

definition sizeof_thread_pagetables_t :: u64 where "sizeof_thread_pagetables_t = 0x402000"

definition clear_pgdir :: "nat \<Rightarrow> 'a proc_scheme \<Rightarrow> 'a proc_scheme" where
  "clear_pgdir p s = s\<lparr>qmem := (\<lambda>a. if a - pgdir_va (link s) p < sizeof_thread_pagetables_t then 0 else qmem s a)\<rparr>"

definition CreatePageTables :: "nat \<Rightarrow> nat \<Rightarrow> 'a proc_scheme \<Rightarrow> fault + unit \<times> 'a proc_scheme" where
  "CreatePageTables p t =
     seqn (upd (\<lambda>s. upd_thread t (\<lambda>x. x\<lparr>thread_pml4t_va := pgdir_pml4t p s\<rparr>) s))
    (seqn (ensure (\<lambda>s. thread_pml4t_va (threads s t) \<noteq> 0) (Panic ''CreatePageTables() --> kalloc() returned NULL for pml4t!''))
    (seqn (upd (clear_pgdir p))
    (bnd (bnd (gets (\<lambda>s. (thread_pml4t_va (threads s t), pml4t_va (link s)))) (\<lambda>(va, root). virtual_to_physical va root)) (\<lambda>(frame, offset).
     seqn (upd (upd_thread t (\<lambda>x. x\<lparr>thread_pml4t_phys := frame + offset\<rparr>)))
    (seqn (ensure (\<lambda>s. thread_pml4t_phys (threads s t) = KERNEL_PML4T_PHYS (pgdir_pml4t p s)) (Panic ''CreatePageTables() --> bad pml4t''))
          (uva_copy_kernel p))))))"

fun user_stack_loop :: "nat \<Rightarrow> nat \<Rightarrow> 'a proc_scheme \<Rightarrow> fault + unit \<times> 'a proc_scheme" where
  "user_stack_loop t 0 s = Inr ((), s)"
| "user_stack_loop t (Suc n) s =
     (let i = 5 - Suc n in
      bnd physical_frame_request_4kb (\<lambda>frame.
      if frame = UINT64_MAX then raise (Panic ''CreateUserProcessStack() --> got null frame'')
      else seqn (map_4kb_page_user (USER_STACK_LOC - of_nat i * PGSIZE) frame t 500 500) (user_stack_loop t n)) s)"

definition CreateUserProcessStack :: "nat \<Rightarrow> 'a proc_scheme \<Rightarrow> fault + u64 \<times> 'a proc_scheme" where
  "CreateUserProcessStack t = seqn (user_stack_loop t 5) (ret (USER_STACK_LOC + PGSIZE - 8))"

section \<open>Access to user memory\<close>

text \<open>The walk of the processor from the table at physical address \<open>root\<close>; the tables are visible to
  the kernel at \<open>KERNEL_HH_START\<close> plus their physical address.\<close>

definition user_translate :: "u64 \<Rightarrow> u64 \<Rightarrow> 'a paging_scheme \<Rightarrow> u64 option" where
  "user_translate root va s =
     (let e4 = qmem s (entry (root + KERNEL_HH_START) (pml4t_index va)) in
      if e4 AND PAGE_PRESENT = 0 then None
      else let e3 = qmem s (entry ((e4 AND PTADDRMASK) + KERNEL_HH_START) (pdpt_index va)) in
      if e3 AND PAGE_PRESENT = 0 then None
      else let e2 = qmem s (entry ((e3 AND PTADDRMASK) + KERNEL_HH_START) (pdt_index va)) in
      if e2 AND PAGE_PRESENT = 0 then None
      else if e2 AND PAGE_HUGE \<noteq> 0 then Some ((e2 AND PTADDRMASK) + (va AND 0x1FFFFF))
      else let e1 = qmem s (entry ((e2 AND PTADDRMASK) + KERNEL_HH_START) (pt_index va)) in
      if e1 AND PAGE_PRESENT = 0 then None else Some ((e1 AND PTADDRMASK) + (va AND 0xFFF)))"

definition page_fault :: fault where "page_fault = Panic ''''"

fun load_bytes :: "u64 \<Rightarrow> u64 \<Rightarrow> nat \<Rightarrow> 'a user_scheme \<Rightarrow> fault + u8 list" where
  "load_bytes root a 0 s = Inr []"
| "load_bytes root a (Suc n) s =
     (case user_translate root a s of
        None \<Rightarrow> Inl page_fault
      | Some x \<Rightarrow> (case load_bytes root (a + 1) n s of Inl e \<Rightarrow> Inl e | Inr bs \<Rightarrow> Inr (pmem s x # bs)))"

fun store_bytes :: "u64 \<Rightarrow> u64 \<Rightarrow> u8 list \<Rightarrow> 'a user_scheme \<Rightarrow> fault + unit \<times> 'a user_scheme" where
  "store_bytes root a [] s = Inr ((), s)"
| "store_bytes root a (b # bs) s =
     (case user_translate root a s of
        None \<Rightarrow> Inl page_fault
      | Some x \<Rightarrow> store_bytes root (a + 1) bs (s\<lparr>pmem := (pmem s)(x := b)\<rparr>))"

text \<open>The guard all these functions share: both ends of the range are mapped for the calling thread and
  the first byte is not mapped for the kernel.\<close>

definition user_range_ok :: "u64 \<Rightarrow> u64 \<Rightarrow> 'a proc_scheme \<Rightarrow> fault + bool \<times> 'a proc_scheme" where
  "user_range_ok addr sz =
     bnd GetCurrentThread (\<lambda>calling_thread. bnd (deref calling_thread) (\<lambda>t.
     bnd (is_frame_mapped_thread t addr) (\<lambda>m1.
     if \<not> m1 then ret False
     else bnd (is_frame_mapped_thread t (addr + sz - 1)) (\<lambda>m2.
     if \<not> m2 then ret False
     else bnd (gets (\<lambda>s. pml4t_va (link s))) (\<lambda>kt.
     bnd (is_frame_mapped_kernel addr kt) (\<lambda>m3. ret (\<not> m3)))))))"

text \<open>The switch to the user's page table and back around an access \<open>m\<close>, with interrupts off.\<close>

definition with_page_table :: "u64 \<Rightarrow> ('a proc_scheme \<Rightarrow> fault + 'b \<times> 'a proc_scheme) \<Rightarrow> 'a proc_scheme \<Rightarrow> fault + 'b \<times> 'a proc_scheme" where
  "with_page_table pagetable m =
     seqn inc_cli
    (seqn (load_page_table pagetable)
    (bnd m (\<lambda>r.
     seqn (bnd (gets kernel_table) load_page_table)
    (seqn dec_cli (ret r)))))"

definition read_user :: "u64 \<Rightarrow> u64 \<Rightarrow> nat \<Rightarrow> 'a user_scheme \<Rightarrow> fault + u8 list \<times> 'a user_scheme" where
  "read_user root a n s = (case load_bytes root a n s of Inl e \<Rightarrow> Inl e | Inr bs \<Rightarrow> Inr (bs, s))"

text \<open>\<open>FetchByte\<close> to \<open>FetchQword\<close> assign the value they read to their own parameter \<open>out\<close>, a pointer, so
  nothing reaches the caller; only the success flag is a result.\<close>

definition FetchByte :: "u64 \<Rightarrow> 'a user_scheme \<Rightarrow> fault + bool \<times> 'a user_scheme" where
  "FetchByte addr = bnd (user_range_ok addr 1) (\<lambda>ok. if \<not> ok then ret False
     else bnd GetCurrentThread (\<lambda>th. bnd (deref th) (\<lambda>t. bnd (gets (\<lambda>s. thread_pml4t_phys (threads s t))) (\<lambda>pt.
       seqn (with_page_table pt (read_user pt addr 1)) (ret True)))))"

definition FetchHword :: "u64 \<Rightarrow> 'a user_scheme \<Rightarrow> fault + bool \<times> 'a user_scheme" where
  "FetchHword addr = bnd (user_range_ok addr 2) (\<lambda>ok. if \<not> ok then ret False
     else bnd GetCurrentThread (\<lambda>th. bnd (deref th) (\<lambda>t. bnd (gets (\<lambda>s. thread_pml4t_phys (threads s t))) (\<lambda>pt.
       seqn (with_page_table pt (read_user pt addr 2)) (ret True)))))"

definition FetchDword :: "u64 \<Rightarrow> 'a user_scheme \<Rightarrow> fault + bool \<times> 'a user_scheme" where
  "FetchDword addr = bnd (user_range_ok addr 4) (\<lambda>ok. if \<not> ok then ret False
     else bnd GetCurrentThread (\<lambda>th. bnd (deref th) (\<lambda>t. bnd (gets (\<lambda>s. thread_pml4t_phys (threads s t))) (\<lambda>pt.
       seqn (with_page_table pt (read_user pt addr 4)) (ret True)))))"

definition FetchQword :: "u64 \<Rightarrow> u64 \<Rightarrow> 'a user_scheme \<Rightarrow> fault + bool \<times> 'a user_scheme" where
  "FetchQword addr user_pagetable = bnd (user_range_ok addr 8) (\<lambda>ok. if \<not> ok then ret False
     else seqn (with_page_table user_pagetable (read_user user_pagetable addr 8)) (ret True))"

text \<open>\<open>FetchStruct\<close> and \<open>FetchString\<close> return the bytes stored through \<open>out\<close>, or \<open>None\<close> for \<open>false\<close>.\<close>

definition FetchStruct :: "u64 \<Rightarrow> u32 \<Rightarrow> u64 \<Rightarrow> 'a user_scheme \<Rightarrow> fault + u8 list option \<times> 'a user_scheme" where
  "FetchStruct addr sz pagetable = bnd (user_range_ok addr (ucast sz)) (\<lambda>ok. if \<not> ok then ret None
     else bnd (with_page_table pagetable (read_user pagetable addr (unat sz))) (\<lambda>bs. ret (Some bs)))"

fun load_string :: "u64 \<Rightarrow> u64 \<Rightarrow> nat \<Rightarrow> 'a user_scheme \<Rightarrow> fault + u8 list" where
  "load_string root a 0 s = Inr []"
| "load_string root a (Suc n) s =
     (case user_translate root a s of
        None \<Rightarrow> Inl page_fault
      | Some x \<Rightarrow> if pmem s x = 0 then Inr []
          else (case load_string root (a + 1) n s of Inl e \<Rightarrow> Inl e | Inr bs \<Rightarrow> Inr (pmem s x # bs)))"

definition FetchString :: "u64 \<Rightarrow> u32 \<Rightarrow> u64 \<Rightarrow> 'a user_scheme \<Rightarrow> fault + u8 list option \<times> 'a user_scheme" where
  "FetchString addr max_len pagetable = bnd (user_range_ok addr (ucast max_len)) (\<lambda>ok. if \<not> ok then ret None
     else bnd (with_page_table pagetable (\<lambda>s. case load_string pagetable addr (unat max_len) s of
         Inl e \<Rightarrow> Inl e | Inr bs \<Rightarrow> Inr (bs, s))) (\<lambda>bs. ret (Some bs)))"

definition WriteStruct :: "u64 \<Rightarrow> u8 list \<Rightarrow> u32 \<Rightarrow> u64 \<Rightarrow> 'a user_scheme \<Rightarrow> fault + bool \<times> 'a user_scheme" where
  "WriteStruct addr src sz pagetable = bnd (user_range_ok addr (ucast sz)) (\<lambda>ok. if \<not> ok then ret False
     else seqn (with_page_table pagetable (store_bytes pagetable addr (take (unat sz) src))) (ret True))"

section \<open>What allocation leaves alone\<close>

text \<open>Page tables, processes and threads are not touched by the heap, the locks and the lists.\<close>

definition tables :: "'a proc_scheme \<Rightarrow> (u64 \<Rightarrow> u64) \<times> linkmap \<times> (nat \<Rightarrow> Thread) \<times> (nat \<Rightarrow> Process)" where
  "tables s = (qmem s, link s, threads s, procs s)"

definition keeps :: "('s \<Rightarrow> 'c) \<Rightarrow> ('s \<Rightarrow> fault + 'b \<times> 's) \<Rightarrow> bool" where
  "keeps f m \<longleftrightarrow> (\<forall>s b t. m s = Inr (b, t) \<longrightarrow> f t = f s)"

lemma keepsD: "keeps f m \<Longrightarrow> m s = Inr (b, t) \<Longrightarrow> f t = f s"
  by (auto simp: keeps_def)

lemma keeps_bnd: "keeps f m \<Longrightarrow> (\<And>a. keeps f (g a)) \<Longrightarrow> keeps f (bnd m g)"
  unfolding keeps_def bnd_Inr_iff by metis

lemma keeps_seqn: "keeps f m \<Longrightarrow> keeps f n \<Longrightarrow> keeps f (seqn m n)"
  unfolding keeps_def seqn_Inr_iff by metis

lemma keeps_basic: "keeps f (ret a)" "keeps f (gets g)" "keeps f (raise e)" "keeps f (ensure P e)"
  by (auto simp: keeps_def)

lemma keeps_upd: "(\<And>s. f (g s) = f s) \<Longrightarrow> keeps f (upd g)"
  by (auto simp: keeps_def)

lemmas keeps_rules = keeps_bnd keeps_seqn keeps_basic keeps_upd

lemma tables_acquire: "keeps tables (acquire_Spinlock l)"
  by (auto simp: keeps_def tables_def dest!: acquire_Spinlock_frame)

lemma tables_release: "keeps tables (release_Spinlock l)"
  by (auto simp: keeps_def tables_def dest!: release_Spinlock_frame)

lemma tables_kalloc: "keeps tables (kalloc n)"
proof -
  have "keeps tables (kheap_request n)"
    by (auto simp: keeps_def kheap_request_def tables_def split: sum.splits prod.splits)
  then show ?thesis
    unfolding kalloc_def by (intro keeps_bnd keeps_seqn tables_acquire) (auto intro: keeps_rules tables_release)
qed

lemma tables_insert_head: "keeps tables (insert_dll_entry_head h e)"
  by (auto simp: keeps_def insert_dll_entry_head_def op_combinators tables_def set_next_def set_prev_def set_count_def
      split: if_splits)

section \<open>Walking the tables of a process\<close>

definition pgdir_ok :: "u64 \<Rightarrow> bool" where
  "pgdir_ok b \<longleftrightarrow> table_ok b \<and> unat b + 4096 * 0x402 \<le> 2 ^ 64"

lemma pgdir_row:
  assumes "pgdir_ok b" "k < 0x402"
  shows "table_ok (row b k)" "unat (row b k) = unat b + 4096 * k"
proof -
  have b: "table_ok b" "unat b + 4096 * 0x402 \<le> 2 ^ 64" using assms(1) by (auto simp: pgdir_ok_def)
  have m: "unat (4096 * of_nat k :: u64) = 4096 * k"
    using assms(2) by (subst unat_mult_nowrap) (simp_all add: unat_of_nat)
  then show u: "unat (row b k) = unat b + 4096 * k"
    unfolding row_def using assms(2) b(2) by (subst unat_plus_nowrap) simp_all
  obtain q where q: "unat b = 4096 * q" by (rule table_page [OF b(1)])
  have "unat (take_bit 12 (row b k)) = 0"
    by (simp add: unsigned_take_bit_eq take_bit_nat_def u q)
  then have "take_bit 12 (row b k) = 0" by (simp add: unat_eq_zero)
  then show "table_ok (row b k)" using b(1) u by (simp add: table_ok_def word_less_nat_alt)
qed

lemma pgdir_tables:
  "pgdir_pml4t p s = row (pgdir_va (link s) p) 0" "pgdir_pdpt p s = row (pgdir_va (link s) p) 1"
  "pgdir_pdt p k s = row (pgdir_va (link s) p) (2 + k)" "pgdir_pd p k s = row (pgdir_va (link s) p) (0x202 + k)"
  by (simp_all add: pgdir_pml4t_def pgdir_pdpt_def pgdir_pdt_def pgdir_pd_def row_def algebra_simps)

lemma pgdir_row_eq_iff: "pgdir_ok b \<Longrightarrow> j < 0x402 \<Longrightarrow> k < 0x402 \<Longrightarrow> row b j = row b k \<longleftrightarrow> j = k"
  using pgdir_row(2) [of b j] pgdir_row(2) [of b k] by (metis add_left_cancel mult_left_cancel zero_neq_numeral)

definition user_flags :: u64 where "user_flags = PAGE_USER OR PAGE_WRITE OR PAGE_PRESENT"

lemma user_flags_bits: "drop_bit 12 user_flags = 0" "\<not> bit user_flags 7" "bit user_flags 0"
  by (simp_all add: user_flags_def PAGE_USER_def PAGE_WRITE_def PAGE_PRESENT_def bit_simps)

text \<open>An entry that points to the table \<open>b\<close> with the user flags.\<close>

definition user_entry :: "u64 \<Rightarrow> u64 \<Rightarrow> bool" where
  "user_entry e b \<longleftrightarrow> table_ok b \<and> e = (b AND NOT KERNEL_HH_START) OR user_flags"

lemma present_test: "w AND PAGE_PRESENT = 0 \<longleftrightarrow> \<not> bit w 0" "w AND 1 = 0 \<longleftrightarrow> \<not> bit w 0" for w :: u64
  using and_push_bit_1_eq_0_iff [of 0 w] by (simp_all add: PAGE_PRESENT_def)

lemma user_entryD:
  assumes "user_entry e b"
  shows "(e AND PTADDRMASK) + KERNEL_HH_START = b" "e AND PTADDRMASK \<noteq> 0" "bit e 0" "\<not> bit e 7"
proof -
  from assms have b: "table_ok b" and e: "e = (b AND NOT KERNEL_HH_START) OR user_flags" by (auto simp: user_entry_def)
  show f: "(e AND PTADDRMASK) + KERNEL_HH_START = b" unfolding e by (rule follow_entry [OF b user_flags_bits(1)])
  with b show "e AND PTADDRMASK \<noteq> 0" by (auto simp: table_ok_def)
  show "bit e 0" using user_flags_bits(3) by (simp add: e bit_simps)
  show "\<not> bit e 7" using take_bit_0_bits [of 12 b 7] b user_flags_bits(2) by (simp add: e bit_simps table_ok_def)
qed

lemma table_root:
  assumes "table_ok b"
  shows "KERNEL_PML4T_PHYS b + KERNEL_HH_START = b"
proof -
  have "take_bit 12 (b AND NOT KERNEL_HH_START) = 0" using assms by (simp add: table_ok_def)
  from frame_of_entry [OF this, of 0] have "((b AND NOT KERNEL_HH_START) OR 0) AND PTADDRMASK = b AND NOT KERNEL_HH_START" by simp
  with follow_entry [OF assms, of 0] show ?thesis by (simp add: KERNEL_PML4T_PHYS_def)
qed

lemma user_walk:
  assumes e4: "user_entry (qmem s (entry P (pml4t_index va))) Q" and e3: "user_entry (qmem s (entry Q (pdpt_index va))) R"
    and e2: "user_entry (qmem s (entry R (pdt_index va))) T"
    and e1: "qmem s (entry T (pt_index va)) = pa OR user_flags" "take_bit 12 pa = 0" and P: "table_ok P"
  shows "user_translate (KERNEL_PML4T_PHYS P) va s = Some (pa + (va AND 0xFFF))"
    and "owner_proc (threads s t) = Some p \<Longrightarrow> pgdir_pml4t p s = P \<Longrightarrow> is_frame_mapped_thread t va s = Inr (True, s)"
proof -
  note D = user_entryD [OF e4] user_entryD [OF e3] user_entryD [OF e2]
  have b1: "bit (pa OR user_flags) 0" using user_flags_bits(3) by (simp add: bit_simps)
  show "user_translate (KERNEL_PML4T_PHYS P) va s = Some (pa + (va AND 0xFFF))"
    using D b1 frame_of_entry [OF e1(2) user_flags_bits(1)] table_root [OF P]
    by (simp add: user_translate_def Let_def present_test huge_test e1(1))
  show "owner_proc (threads s t) = Some p \<Longrightarrow> pgdir_pml4t p s = P \<Longrightarrow> is_frame_mapped_thread t va s = Inr (True, s)"
    using D b1 by (simp add: is_frame_mapped_thread_def Let_def present_test huge_test e1(1))
qed

lemma map_4kb_page_user_tables:
  assumes own: "owner_proc (threads s t) = Some p" and m: "map_4kb_page_user va pa t i j s = Inr (r, u)"
    and ok: "pgdir_ok (pgdir_va (link s) p)"
  shows "i < 512" "j < 512" and "tables u = ((qmem s)
       (entry (pgdir_pml4t p s) (pml4t_index va) := (pgdir_pdpt p s AND NOT KERNEL_HH_START) OR user_flags,
        entry (pgdir_pdpt p s) (pdpt_index va) := (pgdir_pdt p (unat i) s AND NOT KERNEL_HH_START) OR user_flags,
        entry (pgdir_pdt p (unat i) s) (pdt_index va) := (pgdir_pd p (unat j) s AND NOT KERNEL_HH_START) OR user_flags,
        entry (pgdir_pd p (unat j) s) (pt_index va) := pa OR user_flags), link s, threads s, procs s)"
proof -
  let ?q = "(qmem s)
       (entry (pgdir_pml4t p s) (pml4t_index va) := (pgdir_pdpt p s AND NOT KERNEL_HH_START) OR user_flags,
        entry (pgdir_pdpt p s) (pdpt_index va) := (pgdir_pdt p (unat i) s AND NOT KERNEL_HH_START) OR user_flags,
        entry (pgdir_pdt p (unat i) s) (pdt_index va) := (pgdir_pd p (unat j) s AND NOT KERNEL_HH_START) OR user_flags,
        entry (pgdir_pd p (unat j) s) (pt_index va) := pa OR user_flags)"
  have same: "pgdir_pml4t p (set_qword a v x) = pgdir_pml4t p x" "pgdir_pdpt p (set_qword a v x) = pgdir_pdpt p x"
    "pgdir_pdt p k (set_qword a v x) = pgdir_pdt p k x" "pgdir_pd p k (set_qword a v x) = pgdir_pd p k x" for a v k and x :: "'a proc_scheme"
    by (simp_all add: pgdir_tables set_qword_def)
  from m show "i < 512" "j < 512"
    by (auto simp: map_4kb_page_user_def bnd_gets own Let_def seqn_Inr_iff)
  from m obtain e s1 s2 where k: "kalloc sizeof_proc_used_page_entry
        (set_qword (entry (pgdir_pd p (unat j) s) (pt_index va)) (pa OR user_flags)
        (set_qword (entry (pgdir_pdt p (unat i) s) (pdt_index va)) ((pgdir_pd p (unat j) s AND NOT KERNEL_HH_START) OR user_flags)
        (set_qword (entry (pgdir_pdpt p s) (pdpt_index va)) ((pgdir_pdt p (unat i) s AND NOT KERNEL_HH_START) OR user_flags)
        (set_qword (entry (pgdir_pml4t p s) (pml4t_index va)) ((pgdir_pdpt p s AND NOT KERNEL_HH_START) OR user_flags) s)))) = Inr (e, s1)"
    and h: "insert_dll_entry_head (used_pages_head p (s1\<lparr>used_page := s2\<rparr>)) e (s1\<lparr>used_page := s2\<rparr>) = Inr (r, u)"
    by (auto simp: map_4kb_page_user_def bnd_gets own Let_def seqn_Inr_iff bnd_Inr_iff same
        user_flags_def [symmetric] split: if_splits)
  have "tables s1 = (?q, link s, threads s, procs s)"
    using keepsD [OF tables_kalloc k] by (simp add: tables_def set_qword_def)
  then show "tables u = (?q, link s, threads s, procs s)"
    using keepsD [OF tables_insert_head h] by (simp add: tables_def)
qed

section \<open>Properties\<close>

text \<open>C20: mapping a page into a process. Whenever \<open>map_4kb_page_user va pa t i j\<close> returns, the processor's walk
  from the tables of the thread's process takes every address of the page of \<open>va\<close> to the frame \<open>pa\<close> and keeps the
  offset, \<open>is_frame_mapped_thread\<close> reports the page as mapped, the page-table arrays were indexed within bounds,
  and no thread and no other process entry changes.\<close>

theorem map_4kb_page_user_translates:
  fixes s :: "'a proc_scheme"
  assumes own: "owner_proc (threads s t) = Some p" and ok: "pgdir_ok (pgdir_va (link s) p)"
    and m: "map_4kb_page_user va pa t i j s = Inr ((), u)" and pa: "take_bit 12 pa = 0"
    and va': "drop_bit 12 va' = drop_bit 12 va"
  shows "user_translate (KERNEL_PML4T_PHYS (pgdir_pml4t p s)) va' u = Some (pa + (va' AND 0xFFF))
    \<and> is_frame_mapped_thread t va' u = Inr (True, u)
    \<and> i < 512 \<and> j < 512 \<and> threads u = threads s \<and> procs u = procs s"
proof (intro conjI)
  note t = map_4kb_page_user_tables [OF own m ok]
  let ?b = "pgdir_va (link s) p"
  have ij: "unat i < 512" "unat j < 512" using t(1,2) by (simp_all add: word_less_nat_alt)
  have tab: "table_ok (row ?b 0)" "table_ok (row ?b 1)" "table_ok (row ?b (2 + unat i))" "table_ok (row ?b (0x202 + unat j))"
    using pgdir_row(1) [OF ok] ij by simp_all
  have ne: "row ?b 0 \<noteq> row ?b 1" "row ?b 0 \<noteq> row ?b (2 + unat i)" "row ?b 0 \<noteq> row ?b (0x202 + unat j)"
    "row ?b 1 \<noteq> row ?b (2 + unat i)" "row ?b 1 \<noteq> row ?b (0x202 + unat j)" "row ?b (2 + unat i) \<noteq> row ?b (0x202 + unat j)"
    using ij by (simp_all add: pgdir_row_eq_iff [OF ok])
  have idx: "pml4t_index va' = pml4t_index va" "pdpt_index va' = pdpt_index va" "pdt_index va' = pdt_index va" "pt_index va' = pt_index va"
  proof -
    have "drop_bit k (drop_bit 12 va') = drop_bit k (drop_bit 12 va)" for k by (simp only: va')
    then have "drop_bit (k + 12) va' = drop_bit (k + 12) va" for k by (simp only: drop_bit_drop_bit)
    from this [of 27] this [of 18] this [of 9] va'
    show "pml4t_index va' = pml4t_index va" "pdpt_index va' = pdpt_index va" "pdt_index va' = pdt_index va" "pt_index va' = pt_index va"
      by (simp_all add: pml4t_index_def pdpt_index_def pdt_index_def pt_index_def)
  qed
  have q: "qmem u = (qmem s)(entry (row ?b 0) (pml4t_index va) := (row ?b 1 AND NOT KERNEL_HH_START) OR user_flags,
      entry (row ?b 1) (pdpt_index va) := (row ?b (2 + unat i) AND NOT KERNEL_HH_START) OR user_flags,
      entry (row ?b (2 + unat i)) (pdt_index va) := (row ?b (0x202 + unat j) AND NOT KERNEL_HH_START) OR user_flags,
      entry (row ?b (0x202 + unat j)) (pt_index va) := pa OR user_flags)" and lu: "link u = link s"
    and tu: "threads u = threads s" "procs u = procs s"
    using t(3) by (simp_all add: tables_def pgdir_tables)
  have "user_entry (qmem u (entry (row ?b 0) (pml4t_index va'))) (row ?b 1)"
    "user_entry (qmem u (entry (row ?b 1) (pdpt_index va'))) (row ?b (2 + unat i))"
    "user_entry (qmem u (entry (row ?b (2 + unat i)) (pdt_index va'))) (row ?b (0x202 + unat j))"
    "qmem u (entry (row ?b (0x202 + unat j)) (pt_index va')) = pa OR user_flags"
    using tab ne by (simp_all add: q idx user_entry_def entry_eq_iff index_bounds)
  note w = user_walk [OF this pa tab(1)]
  show "user_translate (KERNEL_PML4T_PHYS (pgdir_pml4t p s)) va' u = Some (pa + (va' AND 0xFFF))"
    using w(1) by (simp add: pgdir_tables)
  show "is_frame_mapped_thread t va' u = Inr (True, u)"
    using w(2) [of t p] own by (simp add: tu pgdir_tables lu)
  show "i < 512" "j < 512" "threads u = threads s" "procs u = procs s" using t(1,2) tu by simp_all
qed

text \<open>\<open>is_frame_mapped_thread\<close> does not see a missing page directory entry. If the directory entry of an address is
  0, the answer is the present bit of an entry of the physical page 0 instead of \<open>false\<close>, because
  \<open>pdt_addr[pdt_index] & PTADDRMASK == NULL\<close> is parsed as a conjunction with 0.\<close>

theorem is_frame_mapped_thread_reads_page_zero:
  assumes own: "owner_proc (threads s t) = Some p"
    and e4: "user_entry (qmem s (entry (pgdir_pml4t p s) (pml4t_index va))) Q"
    and e3: "user_entry (qmem s (entry Q (pdpt_index va))) R"
    and e2: "qmem s (entry R (pdt_index va)) = 0"
  shows "is_frame_mapped_thread t va s = Inr (bit (qmem s (entry KERNEL_HH_START (pt_index va))) 0, s)"
  using user_entryD [OF e4] user_entryD [OF e3] own
  by (simp add: is_frame_mapped_thread_def Let_def e2 present_test)

section \<open>A concrete process\<close>

lemma fresh_kalloc:
  assumes inv: "kheap_inv s" and lock: "lock_free KernelHeapLock s" and nr: "no_return s = Some UINT64_MAX"
    and cand: "candidate (heap_tree s) sz 0 k"
  shows "\<exists>a t. kalloc sz s = Inr (a, t) \<and> a \<noteq> 0"
proof -
  have va: "heap_va_start s = KERNEL_HEAP_START" using inv by (simp add: kheap_inv_def)
  from kheap_request_complete [OF inv nr cand] obtain a u where
    q: "kheap_request sz s = Inr (a, u)" "a \<noteq> UINT64_MAX" by blast
  then obtain tree where "find_heap_frame (no_return s) KERNEL_HEAP_START (heap_tree s) sz 0 = Inr (a, tree)"
    using va by (auto simp: kheap_request_def split: sum.splits)
  from kalloc_find(1) [OF lock va this q(2)] obtain t where t: "kalloc sz s = Inr (a, t)" by blast
  from kheap_request_cases [OF inv q(1)] q(2) obtain j where j: "candidate (heap_tree s) sz 0 j"
    and a: "a = sec_offset (heap_tree s j) + KERNEL_HEAP_START" by blast
  from inv have "heap_wf (heap_tree s)" by (simp add: kheap_inv_def)
  with j a have "a \<noteq> 0" using section_address(4) by (auto simp: heap_wf_def candidate_def)
  with t show ?thesis by blast
qed

definition user_threads :: "nat \<Rightarrow> Thread" where
  "user_threads = two_threads(0 := (kthread 0 THREAD_STATE_RUNNING 0x100)\<lparr>owner_proc := Some 0\<rparr>)"

lemma machine_memory [simp]:
  "heap_tree (machine cur T) = heap_tree boot_kheap" "heap_va_start (machine cur T) = KERNEL_HEAP_START"
  "no_return (machine cur T) = Some UINT64_MAX" "qmem (machine cur T) = (\<lambda>_. 0)"
  "dll_next (machine cur T) = (\<lambda>_. 0)" "dll_prev (machine cur T) = (\<lambda>_. 0)" "entry_count (machine cur T) = (\<lambda>_. 0)"
  "procs (machine cur T) = (\<lambda>_. zero_process)"
  by (simp_all add: machine_def paging.defs boot_paging_def pmm.defs small_pmm_def given_back_def boot_pmm_def kheap.defs boot_kheap_env)

lemma boot_candidate_small: "candidate (heap_tree boot_kheap) 48 0 16384"
  by (rule fresh_candidate [OF boot_kheap_tree])
     (simp_all add: KERNEL_HEAP_LEN_def boot_kheap_tree fits_def fresh_section_def KERNEL_HEAP_MINBLOCK_def hsz.simps)

definition lists :: "'a dll_scheme \<Rightarrow> (u64 \<Rightarrow> u64) \<times> (u64 \<Rightarrow> u64) \<times> (u64 \<Rightarrow> u32) \<times> linkmap" where
  "lists s = (dll_next s, dll_prev s, entry_count s, link s)"

lemma lists_kalloc: "keeps lists (kalloc n)"
proof -
  have "keeps lists (acquire_Spinlock l)" "keeps lists (release_Spinlock l)" for l
    by (auto simp: keeps_def lists_def dest!: acquire_Spinlock_frame release_Spinlock_frame)
  moreover have "keeps lists (kheap_request n)"
    by (auto simp: keeps_def kheap_request_def lists_def split: sum.splits prod.splits)
  ultimately show ?thesis
    unfolding kalloc_def by (intro keeps_bnd keeps_seqn) (auto intro: keeps_rules)
qed

lemma boot_pgdir_ok: "pgdir_ok (pgdir_va boot_link 0)"
  by (simp add: pgdir_ok_def table_ok_def boot_link_def KERNEL_HH_START_def)

lemma machine_maps:
  "\<exists>u. map_4kb_page_user 0x400000 0x40200000 0 1 1 (machine [Some 0] user_threads) = Inr ((), u)"
proof -
  let ?s = "machine [Some 0] user_threads"
  have own: "owner_proc (user_threads 0) = Some 0" by (simp add: user_threads_def)
  let ?b = "pgdir_va boot_link 0"
  let ?s4 = "set_qword (entry (pgdir_pd 0 1 ?s) (pt_index 0x400000)) (0x40200000 OR user_flags)
        (set_qword (entry (pgdir_pdt 0 1 ?s) (pdt_index 0x400000)) ((pgdir_pd 0 1 ?s AND NOT KERNEL_HH_START) OR user_flags)
        (set_qword (entry (pgdir_pdpt 0 ?s) (pdpt_index 0x400000)) ((pgdir_pdt 0 1 ?s AND NOT KERNEL_HH_START) OR user_flags)
        (set_qword (entry (pgdir_pml4t 0 ?s) (pml4t_index 0x400000)) ((pgdir_pdpt 0 ?s AND NOT KERNEL_HH_START) OR user_flags) ?s)))"
  have same: "pgdir_pml4t p (set_qword a v x) = pgdir_pml4t p x" "pgdir_pdpt p (set_qword a v x) = pgdir_pdpt p x"
    "pgdir_pdt p k (set_qword a v x) = pgdir_pdt p k x" "pgdir_pd p k (set_qword a v x) = pgdir_pd p k x" for p a v k and x :: proc
    by (simp_all add: pgdir_tables set_qword_def)
  have tab: "table_ok (row ?b 0)" "table_ok (row ?b 1)" "table_ok (row ?b 3)" "table_ok (row ?b 0x203)"
    using pgdir_row(1) [OF boot_pgdir_ok] by simp_all
  have ne: "row ?b 0 \<noteq> row ?b 3" "row ?b 1 \<noteq> row ?b 3" "row ?b 0 \<noteq> row ?b 0x203" "row ?b 1 \<noteq> row ?b 0x203" "row ?b 3 \<noteq> row ?b 0x203"
    by (simp_all add: pgdir_row_eq_iff [OF boot_pgdir_ok])
  have k4: "kheap_inv ?s4" "lock_free KernelHeapLock ?s4" "no_return ?s4 = Some UINT64_MAX"
    "candidate (heap_tree ?s4) 48 0 16384" "lists ?s4 = ((\<lambda>_. 0), (\<lambda>_. 0), (\<lambda>_. 0), boot_link)"
    using kheap_inv_boot boot_candidate_small machine_registered [of "[Some 0]" user_threads]
    by (auto simp: kheap_inv_def set_qword_def lock_free_def registered_def boot_cpu_def lists_def boot_kheap_env)
  from fresh_kalloc [OF k4(1-4)] obtain a t where k: "kalloc 48 ?s4 = Inr (a, t)" "a \<noteq> 0" by blast
  have lt: "dll_next t = (\<lambda>_. 0)" "dll_prev t = (\<lambda>_. 0)" "link t = boot_link"
    using keepsD [OF lists_kalloc k(1)] k4(5) by (simp_all add: lists_def)
  have h: "used_pages_head 0 (t\<lparr>used_page := f\<rparr>) \<noteq> 0" for f
    by (simp add: used_pages_head_def lt boot_link_def)
  have ins: "\<exists>u. insert_dll_entry_head (used_pages_head 0 (t\<lparr>used_page := f\<rparr>)) a (t\<lparr>used_page := f\<rparr>) = Inr ((), u)" for f
    using k(2) h [of f] by (simp add: insert_dll_entry_head_def lt Let_def)
  have "map_4kb_page_user 0x400000 0x40200000 0 1 1 ?s =
      bnd (kalloc 48) (\<lambda>page_entry. if page_entry = 0 then raise Undefined
       else seqn (upd (\<lambda>s. s\<lparr>used_page := (used_page s)(page_entry :=
                \<lparr>page_va = PGROUNDDOWN 0x400000, page_pa = 0x40200000, pdt_table_index = 1, pd_table_index = 1\<rparr>)\<rparr>))
           (bnd (gets (used_pages_head 0)) (\<lambda>h. insert_dll_entry_head h page_entry))) ?s4"
    using tab ne by (simp add: map_4kb_page_user_def bnd_gets own Let_def seqn_upd seqn_def [of "ensure P e" for P e]
        bnd_def [of "ensure P e" for P e] ensure_def same user_flags_def [symmetric] sizeof_proc_used_page_entry_def)
       (simp add: pgdir_tables set_qword_def entry_eq_iff index_bounds)
  also have "\<exists>u. \<dots> = Inr ((), u)"
    unfolding bnd_step [where m = "kalloc 48", OF k(1)] using k(2) ins by (simp add: seqn_upd bnd_gets)
  finally show ?thesis .
qed

theorem map_4kb_page_user_translates_witness:
  "\<exists>u. map_4kb_page_user 0x400000 0x40200000 0 1 1 (machine [Some 0] user_threads) = Inr ((), u)
     \<and> user_translate (KERNEL_PML4T_PHYS (pgdir_va boot_link 0)) 0x400123 u = Some 0x40200123"
proof -
  obtain u where u: "map_4kb_page_user 0x400000 0x40200000 0 1 1 (machine [Some 0] user_threads) = Inr ((), u)"
    using machine_maps by blast
  have own: "owner_proc (threads (machine [Some 0] user_threads) 0) = Some 0" by (simp add: user_threads_def)
  show ?thesis
    using map_4kb_page_user_translates [OF own _ u, of "0x400123"] boot_pgdir_ok u
    by (simp add: pgdir_pml4t_def)
qed

definition bare_tables :: "proc \<Rightarrow> proc" where
  "bare_tables s = s\<lparr>qmem := (\<lambda>_. 0)
     (entry (pgdir_pml4t 0 s) 0 := (pgdir_pdpt 0 s AND NOT KERNEL_HH_START) OR user_flags,
      entry (pgdir_pdpt 0 s) 0 := (pgdir_pdt 0 1 s AND NOT KERNEL_HH_START) OR user_flags,
      entry KERNEL_HH_START 0 := 1)\<rparr>"

theorem is_frame_mapped_thread_reads_page_zero_witness:
  "is_frame_mapped_thread 0 0x400000 (bare_tables (machine [Some 0] user_threads)) =
     Inr (True, bare_tables (machine [Some 0] user_threads))"
proof -
  let ?m = "machine [Some 0] user_threads" let ?s = "bare_tables ?m" let ?b = "pgdir_va boot_link 0"
  have tab: "table_ok (row ?b 0)" "table_ok (row ?b 1)" "table_ok (row ?b 3)"
    using pgdir_row(1) [OF boot_pgdir_ok] by simp_all
  have ne: "row ?b 0 \<noteq> row ?b 1" "row ?b 3 \<noteq> row ?b 0" "row ?b 3 \<noteq> row ?b 1"
    by (simp_all add: pgdir_row_eq_iff [OF boot_pgdir_ok])
  have z: "entry (row ?b k) i \<noteq> entry KERNEL_HH_START 0" if "k < 4" "i < 512" for k i
  proof -
    have t: "table_ok (row ?b k)" using that by (intro pgdir_row(1) [OF boot_pgdir_ok]) simp
    obtain q where q: "unat (row ?b k) = 4096 * q" "q < 2 ^ 52" by (rule table_page [OF t])
    have "unat KERNEL_HH_START < unat (row ?b k)" using t by (simp add: table_ok_def word_less_nat_alt)
    then have "unat KERNEL_HH_START < unat (entry (row ?b k) i)" using unat_entry [OF t that(2) q] q(1) by simp
    then show ?thesis by (auto simp: entry_def)
  qed
  have idx: "pml4t_index 0x400000 = 0" "pdpt_index 0x400000 = 0" "pdt_index 0x400000 = 2" "pt_index 0x400000 = 0"
    by (simp_all add: pml4t_index_def pdpt_index_def pdt_index_def pt_index_def)
  have own: "owner_proc (threads ?s 0) = Some 0" by (simp add: bare_tables_def user_threads_def)
  have P: "pgdir_pml4t 0 ?s = row ?b 0" by (simp add: pgdir_tables bare_tables_def)
  have q: "qmem ?s = (\<lambda>_. 0)(entry (row ?b 0) 0 := (row ?b 1 AND NOT KERNEL_HH_START) OR user_flags,
      entry (row ?b 1) 0 := (row ?b 3 AND NOT KERNEL_HH_START) OR user_flags, entry KERNEL_HH_START 0 := 1)"
    by (simp add: bare_tables_def pgdir_tables)
  have e4: "user_entry (qmem ?s (entry (pgdir_pml4t 0 ?s) (pml4t_index 0x400000))) (row ?b 1)"
    and e3: "user_entry (qmem ?s (entry (row ?b 1) (pdpt_index 0x400000))) (row ?b 3)"
    and e2: "qmem ?s (entry (row ?b 3) (pdt_index 0x400000)) = 0"
    using tab ne z [of 0 0] z [of 1 0] z [of 3 2] by (simp_all add: P q idx user_entry_def entry_eq_iff)
  show ?thesis
    using is_frame_mapped_thread_reads_page_zero [OF own e4 e3 e2] by (simp add: idx q)
qed

section \<open>Writing and reading back user memory\<close>

lemma translate_pmem [simp]: "user_translate root a (s\<lparr>pmem := f\<rparr>) = user_translate root a s"
  by (simp add: user_translate_def Let_def)

lemma load_bytes_pmem_cong:
  assumes "qmem t = qmem s" "pmem t = pmem s"
  shows "load_bytes root a n t = load_bytes root a n s"
proof -
  have "user_translate root b t = user_translate root b s" for b by (simp add: user_translate_def Let_def assms(1))
  then show ?thesis by (induction n arbitrary: a) (auto simp: assms(2) split: option.splits sum.splits)
qed

lemma store_bytes_frame: "store_bytes root a bs s = Inr ((), u) \<Longrightarrow> \<exists>f. u = s\<lparr>pmem := f\<rparr>"
proof (induction bs arbitrary: a s)
  case Nil
  then show ?case by (auto intro: exI [of _ "pmem s"])
next
  case (Cons b bs)
  then show ?case by (fastforce split: option.splits)
qed

lemma store_bytes_other:
  "store_bytes root a bs s = Inr ((), u) \<Longrightarrow> (\<And>j. j < length bs \<Longrightarrow> user_translate root (a + of_nat j) s \<noteq> Some x) \<Longrightarrow> pmem u x = pmem s x"
proof (induction bs arbitrary: a s)
  case (Cons b bs)
  obtain y where y: "user_translate root a s = Some y" "store_bytes root (a + 1) bs (s\<lparr>pmem := (pmem s)(y := b)\<rparr>) = Inr ((), u)"
    using Cons.prems(1) by (auto split: option.splits)
  have "y \<noteq> x" using Cons.prems(2) [of 0] y(1) by simp
  moreover have "user_translate root (a + 1 + of_nat j) (s\<lparr>pmem := (pmem s)(y := b)\<rparr>) \<noteq> Some x" if "j < length bs" for j
    using Cons.prems(2) [of "Suc j"] that by (simp add: algebra_simps)
  ultimately show ?case using Cons.IH [OF y(2)] by simp
qed simp

lemma store_load:
  assumes "store_bytes root a bs s = Inr ((), u)" "inj_on (\<lambda>j. user_translate root (a + of_nat j) s) {..<length bs}"
  shows "load_bytes root a (length bs) u = Inr bs"
  using assms
proof (induction bs arbitrary: a s)
  case (Cons b bs)
  obtain y where y: "user_translate root a s = Some y" "store_bytes root (a + 1) bs (s\<lparr>pmem := (pmem s)(y := b)\<rparr>) = Inr ((), u)"
    using Cons.prems(1) by (auto split: option.splits)
  let ?s = "s\<lparr>pmem := (pmem s)(y := b)\<rparr>"
  have sh: "user_translate root (a + 1 + of_nat j) ?s = user_translate root (a + of_nat (Suc j)) s" for j
    by (simp add: algebra_simps)
  have "inj_on (\<lambda>j. user_translate root (a + 1 + of_nat j) ?s) {..<length bs}"
  proof (rule inj_onI)
    fix j k assume "j \<in> {..<length bs}" "k \<in> {..<length bs}"
      "user_translate root (a + 1 + of_nat j) ?s = user_translate root (a + 1 + of_nat k) ?s"
    then have "Suc j = Suc k" using inj_onD [OF Cons.prems(2), of "Suc j" "Suc k"] unfolding sh by simp
    then show "j = k" by simp
  qed
  from Cons.IH [OF y(2) this] have tl: "load_bytes root (a + 1) (length bs) u = Inr bs" .
  have "pmem u y = pmem ?s y"
  proof (rule store_bytes_other [OF y(2)])
    fix j assume "j < length bs"
    then have "user_translate root (a + of_nat (Suc j)) s \<noteq> user_translate root (a + of_nat 0) s"
      using inj_onD [OF Cons.prems(2), of "Suc j" 0] by auto
    then show "user_translate root (a + 1 + of_nat j) ?s \<noteq> Some y" unfolding sh using y(1) by simp
  qed
  moreover have "user_translate root a u = Some y"
    using store_bytes_frame [OF y(2)] y(1) by auto
  ultimately show ?case using tl by simp
qed simp

text \<open>What entering and leaving the user's page table does to the executing CPU.\<close>

definition entered :: "u64 \<Rightarrow> nat \<Rightarrow> 'a proc_scheme \<Rightarrow> 'a proc_scheme" where
  "entered pt i s = (upd_cpu i (\<lambda>c. c\<lparr>cli_count := cli_count c + 1\<rparr>) (cli i s))\<lparr>cr3 := (cr3 s)(i := pt)\<rparr>"

lemma entered_simps [simp]:
  "qmem (entered pt i s) = qmem s" "pmem (entered pt i s') = pmem s'" "link (entered pt i s) = link s" "lapic_id (entered pt i s) = lapic_id s"
  "threads (entered pt i s) = threads s" "procs (entered pt i s) = procs s"
  by (simp_all add: entered_def upd_cpu_def cli_def)

lemma registered_cr3 [simp]: "registered (s\<lparr>cr3 := f\<rparr>) j = registered s j"
  by (simp add: registered_def)

lemma entered_cpu:
  "registered (entered pt i s) j = registered s j"
  "registered s i \<Longrightarrow> cpus (entered pt i s) ! i = (cpus s ! i)\<lparr>rflags_IF := False, cli_count := cli_count (cpus s ! i) + 1\<rparr>"
  by (auto simp: entered_def cli_def registered_upd_cpu) (auto simp: upd_cpu_def dest: registered_less)

lemma with_page_table_enter:
  assumes "registered s i"
  shows "with_page_table pt m s = bnd m (\<lambda>r. seqn (bnd (gets kernel_table) load_page_table) (seqn dec_cli (ret r))) (entered pt i s)"
proof -
  let ?s1 = "upd_cpu i (\<lambda>c. c\<lparr>cli_count := cli_count c + 1\<rparr>) (cli i s)"
  have "registered ?s1 i" using assms by (simp add: cli_def registered_upd_cpu)
  then have l: "load_page_table pt ?s1 = Inr ((), entered pt i s)"
    by (simp add: load_page_table_def bnd_step [OF get_current_cpu_registered] upd_def entered_def upd_cpu_def cli_def)
  have "inc_cli s = Inr ((), ?s1)"
    using assms by (simp add: inc_cli_def bnd_step [OF get_current_cpu_registered] upd_def)
  then show ?thesis unfolding with_page_table_def by (simp add: seqn_step [where m = inc_cli] seqn_step [where m = "load_page_table pt", OF l])
qed

lemma with_page_table_leave:
  assumes "registered s i" "\<not> rflags_IF (cpus s ! i)"
  shows "seqn (bnd (gets kernel_table) load_page_table) (seqn dec_cli (ret r)) s =
    (if cli_count (cpus s ! i) = 0 then Inl (Panic ''dec_cli() --> cpu->cli_count == zero.'')
     else Inr (r, let t = upd_cpu i (\<lambda>c. c\<lparr>cli_count := cli_count c - 1\<rparr>) (s\<lparr>cr3 := (cr3 s)(i := kernel_table s)\<rparr>)
       in if cli_count (cpus t ! i) = 0 \<and> \<not> noINT (cpus t ! i) then sti i t else t))"
proof -
  let ?s = "s\<lparr>cr3 := (cr3 s)(i := kernel_table s)\<rparr>"
  have r: "registered ?s i" using assms(1) by (simp add: registered_def)
  have l: "bnd (gets kernel_table) load_page_table s = Inr ((), ?s)"
    using assms(1) by (simp add: bnd_gets load_page_table_def bnd_step [OF get_current_cpu_registered] upd_def)
  show ?thesis
    unfolding seqn_step [where m = "bnd (gets kernel_table) load_page_table", OF l] dec_cli_def
    using get_current_cpu_registered [OF r] assms(2) by (simp add: op_combinators Let_def)
qed

text \<open>The guard reads the executing CPU's thread and the page tables only.\<close>

lemma user_range_ok_reads:
  fixes s :: "'a proc_scheme" and t :: "'b proc_scheme"
  assumes "user_range_ok a z s = Inr (b, s')" "registered s i" "registered t i"
    "current_thread (cpus t ! i) = current_thread (cpus s ! i)" "qmem t = qmem s" "link t = link s" "threads t = threads s"
  shows "user_range_ok a z t = Inr (b, t) \<and> s' = s"
proof -
  have cur: "GetCurrentThread s = Inr (current_thread (cpus s ! i), s)" "GetCurrentThread t = Inr (current_thread (cpus s ! i), t)"
    using assms(2-4) by (simp_all add: GetCurrentThread_def bnd_step [OF get_current_cpu_registered] gets_def)
  obtain k where k: "current_thread (cpus s ! i) = Some k"
    using assms(1) cur(1) by (cases "current_thread (cpus s ! i)") (auto simp: user_range_ok_def bnd_def deref_def raise_def)
  have m: "\<exists>r. is_frame_mapped_thread k v s = Inr (r, s) \<and> is_frame_mapped_thread k v t = Inr (r, t)" for v
    by (auto simp: is_frame_mapped_thread_def Let_def assms(5-7) pgdir_pml4t_def split: option.splits)
  have n: "\<exists>r. is_frame_mapped_kernel v w s = Inr (r, s) \<and> is_frame_mapped_kernel v w t = Inr (r, t)" for v w
    by (auto simp: is_frame_mapped_kernel_def Let_def assms(5,6))
  obtain r1 r2 r3 where r: "is_frame_mapped_thread k a s = Inr (r1, s)" "is_frame_mapped_thread k a t = Inr (r1, t)"
    "is_frame_mapped_thread k (a + z - 1) s = Inr (r2, s)" "is_frame_mapped_thread k (a + z - 1) t = Inr (r2, t)"
    "is_frame_mapped_kernel a (pml4t_va (link s)) s = Inr (r3, s)" "is_frame_mapped_kernel a (pml4t_va (link s)) t = Inr (r3, t)"
    using m [of a] m [of "a + z - 1"] n [of a "pml4t_va (link s)"] by blast
  show ?thesis
    using assms(1) cur k r assms(6) by (simp add: user_range_ok_def bnd_def deref_def ret_def gets_def split: if_splits)
qed

lemma WriteStruct_cases:
  assumes w: "WriteStruct a bs n pt s = Inr (True, u)" and reg: "registered s i"
  obtains v where "user_range_ok a (ucast n) s = Inr (True, s)" "store_bytes pt a (take (unat n) bs) (entered pt i s) = Inr ((), v)"
    "cli_count (cpus s ! i) + 1 \<noteq> 0" "pmem u = pmem v" "qmem u = qmem s" "link u = link s" "threads u = threads s" "procs u = procs s"
    "registered u i" "current_thread (cpus u ! i) = current_thread (cpus s ! i)" "cli_count (cpus u ! i) = cli_count (cpus s ! i)"
proof -
  let ?e = "entered pt i s"
  from w obtain s1 where r0: "user_range_ok a (ucast n) s = Inr (True, s1)"
    by (auto simp: WriteStruct_def bnd_Inr_iff split: if_splits)
  with user_range_ok_reads [OF this reg reg] have r: "user_range_ok a (ucast n) s = Inr (True, s)" by simp
  have "with_page_table pt (store_bytes pt a (take (unat n) bs)) s = Inr ((), u)"
    using w r by (auto simp: WriteStruct_def bnd_step seqn_def [of "with_page_table x m" for x m] bnd_Inr_iff)
  then have "bnd (store_bytes pt a (take (unat n) bs)) (\<lambda>r. seqn (bnd (gets kernel_table) load_page_table) (seqn dec_cli (ret r))) ?e = Inr ((), u)"
    by (simp only: with_page_table_enter [OF reg])
  then obtain v where v: "store_bytes pt a (take (unat n) bs) ?e = Inr ((), v)"
    "seqn (bnd (gets kernel_table) load_page_table) (seqn dec_cli (ret ())) v = Inr ((), u)" by (auto simp: bnd_Inr_iff)
  obtain f where f: "v = ?e\<lparr>pmem := f\<rparr>" using store_bytes_frame [OF v(1)] by blast
  have rv: "registered v i" using reg entered_cpu(1) by (auto simp: f registered_def)
  have cv: "cpus v ! i = (cpus s ! i)\<lparr>rflags_IF := False, cli_count := cli_count (cpus s ! i) + 1\<rparr>"
    using entered_cpu(2) [OF reg] by (simp add: f)
  let ?t = "upd_cpu i (\<lambda>c. c\<lparr>cli_count := cli_count c - 1\<rparr>) (v\<lparr>cr3 := (cr3 v)(i := kernel_table v)\<rparr>)"
  have nz: "cli_count (cpus v ! i) \<noteq> 0" and u: "u = (if cli_count (cpus ?t ! i) = 0 \<and> \<not> noINT (cpus ?t ! i) then sti i ?t else ?t)"
    using v(2) with_page_table_leave [OF rv, of "()"] cv by (auto simp: Let_def split: if_splits)
  have ct: "cpus ?t ! i = (cpus s ! i)\<lparr>rflags_IF := False\<rparr>" and rt: "registered ?t i"
    using cv registered_less [OF rv] rv by (auto simp: upd_cpu_def registered_upd_cpu registered_def)
  have "registered u i" using rt by (auto simp: u sti_def registered_upd_cpu)
  moreover have "current_thread (cpus u ! i) = current_thread (cpus s ! i)" "cli_count (cpus u ! i) = cli_count (cpus s ! i)"
    using ct registered_less [OF rt] by (auto simp: u sti_def upd_cpu_def)
  moreover have "pmem u = pmem v" "qmem u = qmem s" "link u = link s" "threads u = threads s" "procs u = procs s"
    by (auto simp: u sti_def upd_cpu_def f)
  ultimately show ?thesis using that r v(1) nz cv by auto
qed

lemma FetchStruct_run:
  assumes reg: "registered s i" and ok: "user_range_ok a (ucast n) s = Inr (True, s)"
    and ld: "load_bytes pt a (unat n) s = Inr bs" and nz: "cli_count (cpus s ! i) + 1 \<noteq> 0"
  shows "\<exists>v. FetchStruct a n pt s = Inr (Some bs, v)"
proof -
  let ?e = "entered pt i s"
  have "load_bytes pt a (unat n) ?e = Inr bs" using ld load_bytes_pmem_cong [of ?e s pt a "unat n"] by simp
  then have rd: "read_user pt a (unat n) ?e = Inr (bs, ?e)" by (simp add: read_user_def)
  have c: "registered ?e i" "\<not> rflags_IF (cpus ?e ! i)" "cli_count (cpus ?e ! i) \<noteq> 0"
    using nz by (simp_all add: entered_cpu reg)
  have "\<exists>v. with_page_table pt (read_user pt a (unat n)) s = Inr (bs, v)"
    unfolding with_page_table_enter [OF reg] bnd_step [where m = "read_user pt a (unat n)", OF rd] with_page_table_leave [OF c(1,2)]
    using c(3) by simp
  then show ?thesis using ok by (auto simp: FetchStruct_def bnd_step bnd_def ret_def)
qed

text \<open>C21: what a system call writes to user memory it reads back. If \<open>WriteStruct\<close> of \<open>n\<close> bytes to a user address
  succeeds and no two bytes of the range share physical memory, then \<open>FetchStruct\<close> of the same range in the
  resulting state succeeds too and returns exactly those bytes; page tables, threads and processes are left
  alone by the write.\<close>

theorem write_fetch_roundtrip:
  fixes s :: "'a user_scheme"
  assumes w: "WriteStruct a bs n pt s = Inr (True, u)" and reg: "registered s i" and len: "length bs = unat n"
    and inj: "inj_on (\<lambda>j. user_translate pt (a + of_nat j) s) {..<unat n}"
  shows "(\<exists>v. FetchStruct a n pt u = Inr (Some bs, v)) \<and> qmem u = qmem s \<and> threads u = threads s \<and> procs u = procs s"
proof (intro conjI)
  from WriteStruct_cases [OF w reg] obtain v where
    ok: "user_range_ok a (ucast n) s = Inr (True, s)" and st: "store_bytes pt a (take (unat n) bs) (entered pt i s) = Inr ((), v)"
    and nz: "cli_count (cpus s ! i) + 1 \<noteq> 0" and u: "pmem u = pmem v" "qmem u = qmem s" "link u = link s" "threads u = threads s"
    "procs u = procs s" "registered u i" "current_thread (cpus u ! i) = current_thread (cpus s ! i)" "cli_count (cpus u ! i) = cli_count (cpus s ! i)"
    by blast
  have tr: "user_translate pt b (entered pt i s) = user_translate pt b s" for b by (simp add: user_translate_def Let_def)
  have "load_bytes pt a (length bs) v = Inr bs" using store_load [of pt a bs "entered pt i s" v] st inj len by (simp add: tr)
  moreover have "qmem u = qmem v" using store_bytes_frame [OF st] u(2) by auto
  ultimately have ld: "load_bytes pt a (unat n) u = Inr bs" using load_bytes_pmem_cong [of u v pt a "unat n"] u(1) len by simp
  from user_range_ok_reads [OF ok reg u(6,7,2,3,4)] have "user_range_ok a (ucast n) u = Inr (True, u)" by simp
  from FetchStruct_run [OF u(6) this ld] nz u(8) show "\<exists>v. FetchStruct a n pt u = Inr (Some bs, v)" by simp
  show "qmem u = qmem s" "threads u = threads s" "procs u = procs s" using u by simp_all
qed

text \<open>One page of user memory at 0x400000, backed by the frame 0x40200000.\<close>

definition one_page :: user where
  "one_page = (let m = machine [Some 0] user_threads in proc.extend
     (m\<lparr>qmem := (\<lambda>_. 0)
       (entry (pgdir_pml4t 0 m) 0 := (pgdir_pdpt 0 m AND NOT KERNEL_HH_START) OR user_flags,
        entry (pgdir_pdpt 0 m) 0 := (pgdir_pdt 0 1 m AND NOT KERNEL_HH_START) OR user_flags,
        entry (pgdir_pdt 0 1 m) 2 := (pgdir_pd 0 1 m AND NOT KERNEL_HH_START) OR user_flags,
        entry (pgdir_pd 0 1 m) 0 := 0x40200000 OR user_flags)\<rparr>) \<lparr>pmem = (\<lambda>_. 0)\<rparr>)"

lemma one_page_simps [simp]:
  "link one_page = boot_link" "lapic_id one_page = 0" "threads one_page = user_threads"
  "cpus one_page = [(boot_cpu 0)\<lparr>current_thread := Some 0\<rparr>]"
  by (simp_all add: one_page_def proc.defs Let_def)

lemma one_page_tables:
  fixes va :: u64
  assumes "drop_bit 12 va = 0x400"
  shows "user_translate (KERNEL_PML4T_PHYS (pgdir_va boot_link 0)) va one_page = Some (0x40200000 + (va AND 0xFFF))"
    and "is_frame_mapped_thread 0 va one_page = Inr (True, one_page)"
    and "is_frame_mapped_kernel va (pml4t_va boot_link) one_page = Inr (False, one_page)"
proof -
  let ?b = "pgdir_va boot_link 0"
  have tab: "table_ok (row ?b 0)" "table_ok (row ?b 1)" "table_ok (row ?b 3)" "table_ok (row ?b 0x203)"
    using pgdir_row(1) [OF boot_pgdir_ok] by simp_all
  have ne: "row ?b 0 \<noteq> row ?b 1" "row ?b 0 \<noteq> row ?b 3" "row ?b 1 \<noteq> row ?b 3" "row ?b 0 \<noteq> row ?b 0x203" "row ?b 1 \<noteq> row ?b 0x203" "row ?b 3 \<noteq> row ?b 0x203"
    by (simp_all add: pgdir_row_eq_iff [OF boot_pgdir_ok])
  have idx: "pml4t_index va = 0" "pdpt_index va = 0" "pdt_index va = 2" "pt_index va = 0"
  proof -
    have "drop_bit (k + 12) va = drop_bit k 0x400" for k using assms by (metis drop_bit_drop_bit)
    from this [of 27] this [of 18] this [of 9] assms show "pml4t_index va = 0" "pdpt_index va = 0" "pdt_index va = 2" "pt_index va = 0"
      by (simp_all add: pml4t_index_def pdpt_index_def pdt_index_def pt_index_def)
  qed
  have q: "qmem one_page = (\<lambda>_. 0)(entry (row ?b 0) 0 := (row ?b 1 AND NOT KERNEL_HH_START) OR user_flags,
      entry (row ?b 1) 0 := (row ?b 3 AND NOT KERNEL_HH_START) OR user_flags,
      entry (row ?b 3) 2 := (row ?b 0x203 AND NOT KERNEL_HH_START) OR user_flags, entry (row ?b 0x203) 0 := 0x40200000 OR user_flags)"
    by (simp add: one_page_def proc.defs Let_def pgdir_tables)
  have "user_entry (qmem one_page (entry (row ?b 0) (pml4t_index va))) (row ?b 1)"
    "user_entry (qmem one_page (entry (row ?b 1) (pdpt_index va))) (row ?b 3)"
    "user_entry (qmem one_page (entry (row ?b 3) (pdt_index va))) (row ?b 0x203)"
    "qmem one_page (entry (row ?b 0x203) (pt_index va)) = 0x40200000 OR user_flags"
    using tab ne by (simp_all add: q idx user_entry_def entry_eq_iff)
  note w = user_walk [OF this _ tab(1)]
  show "user_translate (KERNEL_PML4T_PHYS ?b) va one_page = Some (0x40200000 + (va AND 0xFFF))"
    using w(1) by (simp add: row_def)
  show "is_frame_mapped_thread 0 va one_page = Inr (True, one_page)"
    using w(2) [of 0 0] by (simp add: pgdir_tables user_threads_def)
  have "table_ok (pml4t_va boot_link)" "pml4t_va boot_link \<notin> {row ?b 0, row ?b 1, row ?b 3, row ?b 0x203}"
    by (simp_all add: boot_link_def table_ok_def KERNEL_HH_START_def row_def)
  then have "qmem one_page (entry (pml4t_va boot_link) 0) = 0" using tab by (simp add: q entry_eq_iff)
  then show "is_frame_mapped_kernel va (pml4t_va boot_link) one_page = Inr (False, one_page)"
    by (simp add: is_frame_mapped_kernel_def idx)
qed

lemma WriteStruct_run:
  assumes reg: "registered s i" and ok: "user_range_ok a (ucast n) s = Inr (True, s)"
    and st: "store_bytes pt a (take (unat n) bs) (entered pt i s) = Inr ((), v)" and nz: "cli_count (cpus s ! i) + 1 \<noteq> 0"
  shows "\<exists>u. WriteStruct a bs n pt s = Inr (True, u)"
proof -
  obtain f where f: "v = (entered pt i s)\<lparr>pmem := f\<rparr>" using store_bytes_frame [OF st] by blast
  have c: "registered v i" "\<not> rflags_IF (cpus v ! i)" "cli_count (cpus v ! i) \<noteq> 0"
    using nz entered_cpu(1) [of pt i s i] reg by (simp_all add: f entered_cpu(2) [OF reg] registered_def)
  have "\<exists>u. with_page_table pt (store_bytes pt a (take (unat n) bs)) s = Inr ((), u)"
    unfolding with_page_table_enter [OF reg] bnd_step [where m = "store_bytes pt a (take (unat n) bs)", OF st] with_page_table_leave [OF c(1,2)]
    using c(3) by simp
  then show ?thesis using ok by (auto simp: WriteStruct_def bnd_step seqn_def bnd_def ret_def)
qed

theorem write_fetch_roundtrip_witness:
  "\<exists>u v. WriteStruct 0x400FF0 [1, 2, 3] 3 (KERNEL_PML4T_PHYS (pgdir_va boot_link 0)) one_page = Inr (True, u)
     \<and> FetchStruct 0x400FF0 3 (KERNEL_PML4T_PHYS (pgdir_va boot_link 0)) u = Inr (Some [1, 2, 3], v)"
proof -
  let ?pt = "KERNEL_PML4T_PHYS (pgdir_va boot_link 0)" and ?e = "entered (KERNEL_PML4T_PHYS (pgdir_va boot_link 0)) 0 one_page"
  have reg: "registered one_page 0" by (simp add: registered_def boot_cpu_def)
  have cur: "GetCurrentThread one_page = Inr (Some 0, one_page)"
    using reg by (simp add: GetCurrentThread_def bnd_step [OF get_current_cpu_registered] gets_def)
  have pages: "drop_bit 12 (0x400FF0 :: u64) = 0x400" "drop_bit 12 (0x400FF1 :: u64) = 0x400" "drop_bit 12 (0x400FF2 :: u64) = 0x400" by simp_all
  note m = one_page_tables [OF pages(1)] one_page_tables [OF pages(2)] one_page_tables [OF pages(3)]
  have ok: "user_range_ok 0x400FF0 (ucast (3 :: u32)) one_page = Inr (True, one_page)"
    using cur m by (simp add: user_range_ok_def bnd_def deref_def ret_def gets_def)
  have tr: "user_translate ?pt b ?e = user_translate ?pt b one_page" for b by (simp add: user_translate_def Let_def)
  have "\<exists>v. store_bytes ?pt 0x400FF0 (take (unat (3 :: u32)) [1, 2, 3]) ?e = Inr ((), v)"
    using m by (simp add: tr)
  then obtain v where "store_bytes ?pt 0x400FF0 (take (unat (3 :: u32)) [1, 2, 3]) ?e = Inr ((), v)" by blast
  from WriteStruct_run [OF reg ok this] obtain u where u: "WriteStruct 0x400FF0 [1, 2, 3] 3 ?pt one_page = Inr (True, u)"
    by (auto simp: boot_cpu_def)
  have "inj_on (\<lambda>j. user_translate ?pt (0x400FF0 + of_nat j) one_page) {..<unat (3 :: u32)}"
    using m by (simp add: lessThan_nat_numeral lessThan_Suc)
  from write_fetch_roundtrip [OF u reg _ this] u show ?thesis by auto
qed

end
