(* ===== verification/Process_Life.thy ===== *)
theory Process_Life
  imports User_Paging
begin

text \<open>
  The life of a user process: \<open>CreateUserProcess\<close>, \<open>ForkUserProcess\<close>, \<open>ExecUserProcess\<close> and
  \<open>ProcessFree\<close> with its parts (src/src/kernel/kernel/proc.c) and the ELF loader (fs/elf_load.c).

  Walks along the lists of a process are instances of \<open>dll_while\<close>, which is \<open>None\<close> when the walk does
  not end. A file image is the address of its heap buffer together with the bytes found from there
  on. The file system is reached through the record \<open>fs\<close> of its entry points, an argument of the
  operations that use it; a call covers all that happens until it returns, other threads included.
\<close>

section \<open>Loops\<close>

text \<open>\<open>while (entry != NULL && entry != head)\<close>: the body returns the entry for the next test; \<open>break\<close> is
  the entry 0.\<close>

partial_function (option) dll_while ::
  "u64 \<Rightarrow> (u64 \<Rightarrow> 's \<Rightarrow> fault + u64 \<times> 's) \<Rightarrow> u64 \<Rightarrow> 's \<Rightarrow> (fault + unit \<times> 's) option" where
  "dll_while head body e s =
     (if e = 0 \<or> e = head then Some (Inr ((), s))
      else case body e s of
        Inl f \<Rightarrow> Some (Inl f)
      | Inr r \<Rightarrow> dll_while head body (fst r) (snd r))"

definition dll_walk :: "('s \<Rightarrow> u64) \<Rightarrow> ('s \<Rightarrow> u64) \<Rightarrow> (u64 \<Rightarrow> 's \<Rightarrow> fault + u64 \<times> 's) \<Rightarrow> 's \<Rightarrow> fault + unit \<times> 's" where
  "dll_walk head start body s = lift_loop (dll_while (head s) body (start s)) s"

section \<open>Releasing what a process owns\<close>

definition ProcFreeUserPages :: "nat \<Rightarrow> 'a proc_scheme \<Rightarrow> fault + unit \<times> 'a proc_scheme" where
  "ProcFreeUserPages p = dll_walk (used_pages_head p) (\<lambda>s. dll_first s (used_pages_head p s)) (\<lambda>e.
     seqn (bnd (gets (\<lambda>s. page_pa (used_page s e))) try_free_chunked_frame)
    (bnd (gets (\<lambda>s. dll_next s e)) (\<lambda>nxt.
     seqn (remove_dll_entry e)
    (seqn (kfree e) (ret nxt)))))"

definition ProcessFreeFileDescriptors :: "nat \<Rightarrow> 'a proc_scheme \<Rightarrow> fault + unit \<times> 'a proc_scheme" where
  "ProcessFreeFileDescriptors p = upd (upd_proc p (\<lambda>x. x\<lparr>proc_fd := (\<lambda>i.
     if i < MAX_FILE_DESC then \<lparr>fd_in_use = False, fd_path = ''''\<rparr> else proc_fd x i)\<rparr>))"

definition ProcessFreeThreads :: "nat \<Rightarrow> 'a proc_scheme \<Rightarrow> fault + unit \<times> 'a proc_scheme" where
  "ProcessFreeThreads p =
     seqn (dll_walk (threads_head p) (\<lambda>s. dll_first s (threads_head p s)) (\<lambda>e.
       seqn (upd (\<lambda>s. upd_thread (thread_entry s e) (\<lambda>t. t\<lparr>status := THREAD_STATE_KILLED\<rparr>) s))
      (bnd (gets (\<lambda>s. dll_next s e)) (\<lambda>nxt.
       seqn (remove_dll_entry e)
      (seqn (kfree e) (ret nxt))))))
          (upd (upd_proc p (\<lambda>x. x\<lparr>thread_count := 0\<rparr>)))"

text \<open>\<open>remove_dll_entry\<close> is applied to the next entry, after \<open>entry\<close> has advanced.\<close>

definition ProcFreeHeapAllocations :: "nat \<Rightarrow> 'a proc_scheme \<Rightarrow> fault + unit \<times> 'a proc_scheme" where
  "ProcFreeHeapAllocations p = dll_walk (heap_allocations_head p) (\<lambda>s. dll_first s (heap_allocations_head p s)) (\<lambda>e.
     bnd (gets (\<lambda>s. dll_next s e)) (\<lambda>nxt.
     seqn (remove_dll_entry nxt)
    (seqn (kfree e) (ret nxt))))"

definition ProcessFree :: "nat \<Rightarrow> 'a proc_scheme \<Rightarrow> fault + unit \<times> 'a proc_scheme" where
  "ProcessFree p =
     seqn (ProcessFreeFileDescriptors p)
    (seqn (ProcessFreeThreads p)
    (seqn (ProcFreeUserPages p)
          (ProcFreeHeapAllocations p)))"

text \<open>The frame handed to \<open>try_free_chunked_frame\<close> is that of the next entry, \<open>up_entry\<close>; at the end of the
  list that is NULL or the list head, which is not a page entry. \<open>1 << bit\<close> is computed in \<open>int\<close>
  and undefined from bit 31 on.\<close>

definition FreeUserHeapBits :: "nat \<Rightarrow> u64 \<Rightarrow> 'a proc_scheme \<Rightarrow> fault + unit \<times> 'a proc_scheme" where
  "FreeUserHeapBits p a =
     bnd (gets (\<lambda>s. heap_alloc s a)) (\<lambda>en.
     seqn (dll_walk (used_pages_head p) (\<lambda>s. dll_first s (used_pages_head p s)) (\<lambda>old_entry.
       bnd (gets (\<lambda>s. dll_next s old_entry)) (\<lambda>up_entry.
       bnd (gets (\<lambda>s. page_va (used_page s old_entry))) (\<lambda>va.
       if va \<ge> ha_start en \<and> va \<le> ha_end en
       then seqn (ensure (\<lambda>s. up_entry \<noteq> 0 \<and> up_entry \<noteq> used_pages_head p s) Undefined)
           (seqn (bnd (gets (\<lambda>s. page_pa (used_page s up_entry))) try_free_chunked_frame)
           (seqn (remove_dll_entry old_entry)
           (seqn (kfree old_entry) (ret up_entry))))
       else ret up_entry))))
      (foreach [unat (i_start en) ..< Suc (unat (i_end en))] (\<lambda>i.
       foreach [unat (bit_start en) ..< Suc (unat (bit_end en))] (\<lambda>bt.
         seqn (ensure (\<lambda>_. i < 512 \<and> bt < 31) Undefined)
              (upd (upd_proc p (\<lambda>x. x\<lparr>user_heap_bitmap := (user_heap_bitmap x)
                 (i := user_heap_bitmap x i AND NOT (push_bit bt 1))\<rparr>)))))))"

definition FreeHeapAllocEntry :: "nat \<Rightarrow> u64 \<Rightarrow> 'a proc_scheme \<Rightarrow> fault + unit \<times> 'a proc_scheme" where
  "FreeHeapAllocEntry p address = dll_walk (heap_allocations_head p) (\<lambda>s. dll_first s (heap_allocations_head p s)) (\<lambda>e.
     bnd (gets (\<lambda>s. heap_alloc s e)) (\<lambda>en.
     if address \<ge> ha_start en \<and> address \<le> ha_end en
     then seqn (remove_dll_entry e)
         (seqn (FreeUserHeapBits p e)
         (seqn (kfree e) (ret 0)))
     else gets (\<lambda>s. dll_next s e)))"

section \<open>Copying an address space\<close>

text \<open>Both \<open>FetchStruct\<close> and \<open>WriteStruct\<close> check the address against the calling thread's process.\<close>

definition copy_page :: "nat \<Rightarrow> nat \<Rightarrow> nat \<Rightarrow> u64 \<Rightarrow> 'a user_scheme \<Rightarrow> fault + u64 \<times> 'a user_scheme" where
  "copy_page new_proc new_thread old_proc e =
     bnd physical_frame_request_4kb (\<lambda>new_frame.
     if new_frame = UINT64_MAX
     then raise (Panic ''CreatePageTableFromCopy() --> physical_frame_request_4kb() returned bad frame'')
     else bnd (gets (\<lambda>s. used_page s e)) (\<lambda>en.
     bnd (bnd (gets (\<lambda>s. KERNEL_PML4T_PHYS (pgdir_pml4t old_proc s))) (FetchStruct (page_va en) 0x1000)) (\<lambda>r.
     case r of
       None \<Rightarrow> raise (Panic ''fetch struct fail'')
     | Some buf \<Rightarrow>
       seqn (map_4kb_page_user (page_va en) new_frame new_thread (pdt_table_index en) (pd_table_index en))
      (bnd (bnd (gets (\<lambda>s. KERNEL_PML4T_PHYS (pgdir_pml4t new_proc s))) (WriteStruct (page_va en) buf 0x1000)) (\<lambda>ok.
       if \<not> ok then raise (Panic ''write struct fail'') else gets (\<lambda>s. dll_next s e))))))"

definition CreatePageTableFromCopy :: "nat \<Rightarrow> nat \<Rightarrow> nat \<Rightarrow> 'a user_scheme \<Rightarrow> fault + unit \<times> 'a user_scheme" where
  "CreatePageTableFromCopy new_proc new_thread old_proc =
     seqn (upd (clear_pgdir new_proc))
    (seqn (uva_copy_kernel new_proc)
          (dll_walk (used_pages_head old_proc) (\<lambda>s. dll_first s (used_pages_head old_proc s))
             (copy_page new_proc new_thread old_proc)))"

definition sizeof_ThreadEntry :: u64 where "sizeof_ThreadEntry = 24"

text \<open>\<open>ThreadEntry\<close>: the allocation and the insertion at the head of the process's list.\<close>

definition add_thread_entry :: "string \<Rightarrow> nat \<Rightarrow> nat \<Rightarrow> 'a proc_scheme \<Rightarrow> fault + unit \<times> 'a proc_scheme" where
  "add_thread_entry msg p t =
     bnd (kalloc sizeof_ThreadEntry) (\<lambda>e.
     if e = 0 then raise (Panic msg)
     else seqn (upd (\<lambda>s. s\<lparr>thread_entry := (thread_entry s)(e := t)\<rparr>))
              (bnd (gets (threads_head p)) (\<lambda>h. insert_dll_entry_head h e)))"

text \<open>\<open>int\<close> results are 32-bit words, -1 is \<open>UINT32_MAX\<close>.\<close>

definition ForkUserProcess :: "nat \<Rightarrow> cpu_context_t \<Rightarrow> 'a user_scheme \<Rightarrow> fault + u32 \<times> 'a user_scheme" where
  "ForkUserProcess old_thread ctx =
     seqn (acquire_Spinlock proc_table_lock)
    (bnd (gets (\<lambda>s. owner_proc (threads s old_thread))) (\<lambda>op.
     bnd FindFreeProcess (\<lambda>np. bnd FindFreeThread (\<lambda>nt.
     case (np, nt, op) of
       (Some new_proc, Some new_thread, Some old_proc) \<Rightarrow>
         seqn (add_thread_entry ''ForkUserProcess() --> kalloc() failure to allocate ThreadEntry.'' new_proc new_thread)
        (seqn (upd (upd_thread new_thread (\<lambda>x. x\<lparr>execution_context := ctx\<rparr>)))
        (seqn (upd (\<lambda>s. upd_proc new_proc (\<lambda>x. x\<lparr>proc_fd := proc_fd (procs s old_proc)\<rparr>) s))
        (seqn (upd (\<lambda>s. upd_thread new_thread (\<lambda>x. x\<lparr>thread_id := of_nat new_thread,
                run_mode := run_mode (threads s old_thread),
                status := THREAD_STATE_READY, owner_proc := Some new_proc, can_wakeup := True,
                thread_pml4t_phys := KERNEL_PML4T_PHYS (pgdir_pml4t new_proc s)\<rparr>) s))
        (seqn (CreatePageTableFromCopy new_proc new_thread old_proc)
        (seqn (upd (\<lambda>s. upd_thread new_thread (\<lambda>x. x\<lparr>thread_pml4t_va := pgdir_pml4t new_proc s\<rparr>) s))
        (seqn (upd (\<lambda>s. upd_proc new_proc (\<lambda>x. x\<lparr>ppid := pid (procs s old_proc), thread_count := 1\<rparr>) s))
        (seqn (init_Spinlock (pid_wait_spinlock new_proc) ''pid_spinlock'')
        (seqn (upd (upd_proc new_proc (\<lambda>x. x\<lparr>proc_state := PROCESS_STATE_INUSE\<rparr>)))
        (seqn (upd (upd_ctx new_thread (\<lambda>c. c\<lparr>rax := 0\<rparr>)))
        (bnd (bnd (gets (\<lambda>s. i_rip (execution_context (threads s new_thread)))) (is_frame_mapped_thread new_thread)) (\<lambda>m.
         if \<not> m then raise (Panic ''ForkUserProcess() --> RIP not mapped!'')
         else seqn (release_Spinlock proc_table_lock)
                   (gets (\<lambda>s. pid (procs s new_proc))))))))))))))
     | _ \<Rightarrow> seqn (release_Spinlock proc_table_lock) (ret UINT32_MAX)))))"

section \<open>elf_load.c\<close>

text \<open>\<open>img k\<close> is the byte at address \<open>elf + k\<close>; multi-byte fields are little-endian.\<close>

type_synonym image = "u64 \<Rightarrow> u8"

fun le_bytes :: "image \<Rightarrow> u64 \<Rightarrow> nat \<Rightarrow> u64" where
  "le_bytes img a 0 = 0"
| "le_bytes img a (Suc n) = ucast (img a) OR push_bit 8 (le_bytes img (a + 1) n)"

definition PT_LOAD :: u32 where "PT_LOAD = 1"
definition ELF_CLASS_64 :: u8 where "ELF_CLASS_64 = 2"

record elf64_header_t =
  eh_id :: "u8 list"
  eh_type :: u16
  eh_machine :: u16
  eh_version :: u32
  eh_entry :: u64
  eh_phOff :: u64
  eh_shOff :: u64
  eh_flags :: u32
  eh_hdrSize :: u16
  eh_phEntrySize :: u16
  eh_phNum :: u16
  eh_shEntrySize :: u16
  eh_shNum :: u16
  eh_shStrIndex :: u16

definition elf_header :: "image \<Rightarrow> elf64_header_t" where
  "elf_header img = \<lparr>eh_id = map (\<lambda>k. img (of_nat k)) [0..<16],
     eh_type = ucast (le_bytes img 16 2), eh_machine = ucast (le_bytes img 18 2), eh_version = ucast (le_bytes img 20 4),
     eh_entry = le_bytes img 24 8, eh_phOff = le_bytes img 32 8, eh_shOff = le_bytes img 40 8,
     eh_flags = ucast (le_bytes img 48 4), eh_hdrSize = ucast (le_bytes img 52 2), eh_phEntrySize = ucast (le_bytes img 54 2),
     eh_phNum = ucast (le_bytes img 56 2), eh_shEntrySize = ucast (le_bytes img 58 2), eh_shNum = ucast (le_bytes img 60 2),
     eh_shStrIndex = ucast (le_bytes img 62 2)\<rparr>"

record elf64_program_header_t =
  ph_type :: u32
  ph_flags :: u32
  ph_offset :: u64
  ph_vaddr :: u64
  ph_paddr :: u64
  ph_fileSize :: u64
  ph_memSize :: u64
  ph_align :: u64

definition elf_program_header :: "image \<Rightarrow> u64 \<Rightarrow> elf64_program_header_t" where
  "elf_program_header img a = \<lparr>ph_type = ucast (le_bytes img a 4), ph_flags = ucast (le_bytes img (a + 4) 4),
     ph_offset = le_bytes img (a + 8) 8, ph_vaddr = le_bytes img (a + 16) 8, ph_paddr = le_bytes img (a + 24) 8,
     ph_fileSize = le_bytes img (a + 32) 8, ph_memSize = le_bytes img (a + 40) 8, ph_align = le_bytes img (a + 48) 8\<rparr>"

definition ELF_check_magic :: "image \<Rightarrow> bool" where
  "ELF_check_magic img \<longleftrightarrow> (let i = eh_id (elf_header img) in
     i ! 0 = 0x7f \<and> i ! 1 = of_char CHR ''E'' \<and> i ! 2 = of_char CHR ''L'' \<and> i ! 3 = of_char CHR ''F'')"

definition ELF_check_file_class :: "image \<Rightarrow> bool" where
  "ELF_check_file_class img \<longleftrightarrow> eh_id (elf_header img) ! 4 = ELF_CLASS_64"

definition VA_LOAD_TRANSFER :: "'a smp_scheme \<Rightarrow> u64" where
  "VA_LOAD_TRANSFER s = ucast (lapic_id s * 0x1000 + 0xeeec000)"

text \<open>A store by the kernel at a virtual address, through the page table the executing CPU has loaded.\<close>

definition store_va :: "u64 \<Rightarrow> u8 list \<Rightarrow> 'a user_scheme \<Rightarrow> fault + unit \<times> 'a user_scheme" where
  "store_va a bs = bnd get_current_cpu (\<lambda>i. bnd (gets (\<lambda>s. cr3 s i)) (\<lambda>root. store_bytes root a bs))"

text \<open>The body of the loop over the pages of a segment ends with \<open>break\<close>: it runs once, with \<open>j\<close> and
  \<open>copy_offset\<close> both 0.\<close>

definition load_segment :: "nat \<Rightarrow> image \<Rightarrow> elf64_program_header_t \<Rightarrow> 'a user_scheme \<Rightarrow> fault + unit \<times> 'a user_scheme" where
  "load_segment t img ph =
     (if ph_memSize ph = 0 \<or> ph_type ph \<noteq> PT_LOAD then ret ()
      else bnd physical_frame_request_4kb (\<lambda>frame.
        if frame = UINT64_MAX then raise (Panic ''ELF_load_segments() failed! could not get 4kb frame.'')
        else bnd (gets VA_LOAD_TRANSFER) (\<lambda>va.
        seqn (map_4kb_page_smp va frame (ucast (PAGE_PRESENT OR PAGE_WRITE)))
       (bnd (bnd (gets (\<lambda>s. pml4t_va (link s))) (virtual_to_physical va)) (\<lambda>(check_frame, check_offset).
        if check_frame + check_offset \<noteq> frame then raise (Panic ''check_frame+check_offset!=frame'')
        else seqn (map_4kb_page_user (ph_vaddr ph) frame t 1 0)
            (seqn (store_va va (replicate 4096 0))
                  (if 0 < ph_fileSize ph
                   then let n = (if PGSIZE < ph_fileSize ph then PGSIZE else ph_fileSize ph) in
                     store_va va (map (\<lambda>k. img (ph_offset ph + of_nat k)) [0..<unat n])
                   else ret ())))))))"

text \<open>\<open>i * header->phEntrySize\<close> is an \<open>int\<close> product.\<close>

definition ELF_load_segments :: "nat \<Rightarrow> image \<Rightarrow> 'a user_scheme \<Rightarrow> fault + u64 \<times> 'a user_scheme" where
  "ELF_load_segments t img =
     (let header = elf_header img in
      if \<not> ELF_check_magic img \<or> \<not> ELF_check_file_class img then ret 0
      else seqn (foreach [0..<unat (eh_phNum header)] (\<lambda>i.
             seqn (ensure (\<lambda>_. i * unat (eh_phEntrySize header) < 2 ^ 31) Undefined)
                  (load_segment t img (elf_program_header img
                     (eh_phOff header + of_nat (i * unat (eh_phEntrySize header)))))))
           (ret (eh_entry header)))"

section \<open>Starting a program\<close>

record 's fs =
  fs_file_exists :: "string \<Rightarrow> 's \<Rightarrow> fault + bool \<times> 's"
  fs_dir_exists :: "string \<Rightarrow> 's \<Rightarrow> fault + bool \<times> 's"
  fs_read_file :: "string \<Rightarrow> 's \<Rightarrow> fault + (u64 \<times> image) \<times> 's"
  fs_PathToFileSize :: "string \<Rightarrow> 's \<Rightarrow> fault + u64 \<times> 's"
  fs_fill_statbuf :: "string \<Rightarrow> 's \<Rightarrow> fault + u8 list option \<times> 's"

text \<open>\<open>CreateUserProcess\<close> falls off its end after success; its caller does not use the value.\<close>

definition CreateUserProcess :: "u64 \<Rightarrow> image \<Rightarrow> 'a user_scheme \<Rightarrow> fault + unit \<times> 'a user_scheme" where
  "CreateUserProcess elf img =
     seqn (acquire_Spinlock proc_table_lock)
    (bnd FindFreeProcess (\<lambda>np. bnd FindFreeThread (\<lambda>nt.
     case (np, nt) of
       (Some p, Some t) \<Rightarrow>
         seqn (init_Spinlock (pid_wait_spinlock p) ''pid_spinlock'')
        (seqn (upd (upd_proc p (\<lambda>x. x\<lparr>thread_count := 1, proc_state := PROCESS_STATE_INUSE\<rparr>)))
        (seqn (upd (upd_thread t (\<lambda>x. x\<lparr>owner_proc := Some p\<rparr>)))
        (seqn (add_thread_entry ''CreateUserProcess() --> unable to allocate ThreadEntry!'' p t)
        (seqn (upd (upd_thread t (\<lambda>x. x\<lparr>thread_id := of_nat t, status := THREAD_STATE_READY, run_mode := USER_THREAD\<rparr>)))
        (seqn (CreatePageTables p t)
        (bnd (ELF_load_segments t img) (\<lambda>rip.
         seqn (upd (upd_ctx t (\<lambda>c. c\<lparr>i_rip := rip\<rparr>)))
        (seqn (upd (upd_thread t (\<lambda>x. x\<lparr>can_wakeup := True\<rparr>)))
        (bnd (CreateUserProcessStack t) (\<lambda>rsp.
         seqn (upd (upd_ctx t (\<lambda>c. c\<lparr>i_rsp := rsp, i_rflags := 0x202, i_cs := USER_CS, i_ss := USER_DS\<rparr>)))
        (bnd (is_frame_mapped_thread t rip) (\<lambda>m1.
         if \<not> m1 then raise (Panic ''rip not mapped'')
         else bnd (is_frame_mapped_thread t rsp) (\<lambda>m2.
         if \<not> m2 then raise (Panic ''rsp not mapped'')
         else seqn (upd (upd_ctx t (\<lambda>c. c\<lparr>rdi := 0, rsi := 0, rbp := 0\<rparr>)))
             (seqn (kfree elf) (release_Spinlock proc_table_lock)))))))))))))))
     | _ \<Rightarrow> release_Spinlock proc_table_lock)))"

fun bytes_le :: "nat \<Rightarrow> u64 \<Rightarrow> u8 list" where
  "bytes_le 0 w = []"
| "bytes_le (Suc n) w = ucast w # bytes_le n (drop_bit 8 w)"

text \<open>
  The loop over \<open>args->args[15]\<close> down to \<open>args->args[0]\<close>: \<open>n\<close> is \<open>i + 1\<close>. Each argument is the C string in
  its 260-byte field; \<open>argv\<close> is the local array of pointers, of which the loop sets those of the
  non-empty arguments. The result of \<open>WriteStruct\<close> is ignored.
\<close>

fun push_args :: "(nat \<Rightarrow> u8 list) \<Rightarrow> u64 \<Rightarrow> nat \<Rightarrow> u64 \<Rightarrow> u64 \<Rightarrow> (nat \<Rightarrow> u64)
    \<Rightarrow> 'a user_scheme \<Rightarrow> fault + (u64 \<times> u64 \<times> (nat \<Rightarrow> u64)) \<times> 'a user_scheme" where
  "push_args args root 0 rsp argc argv = ret (rsp, argc, argv)"
| "push_args args root (Suc i) rsp argc argv =
     (let arg_len = of_nat (length (args i)) :: u32 in
      if arg_len \<noteq> 0
      then let rsp' = rsp - ucast (arg_len + 1) in
        seqn (WriteStruct rsp' (args i @ [0]) (arg_len + 1) root)
             (push_args args root i rsp' (argc + 1) (argv(i := rsp')))
      else push_args args root i rsp argc argv)"

text \<open>\<open>argv0\<close> is what the uninitialised array \<open>argv\<close> holds. The context \<open>ctx\<close> is passed in and returned.\<close>

definition ExecUserProcess :: "'a user_scheme fs \<Rightarrow> (nat \<Rightarrow> u64) \<Rightarrow> nat \<Rightarrow> string \<Rightarrow> (nat \<Rightarrow> u8 list) \<Rightarrow> cpu_context_t
    \<Rightarrow> 'a user_scheme \<Rightarrow> fault + (u32 \<times> cpu_context_t) \<times> 'a user_scheme" where
  "ExecUserProcess F argv0 t filepath args ctx =
     bnd (gets (\<lambda>s. owner_proc (threads s t))) (\<lambda>own. case own of
       None \<Rightarrow> ret (UINT32_MAX, ctx)
     | Some p \<Rightarrow>
       bnd (fs_file_exists F filepath) (\<lambda>ex. if \<not> ex then ret (UINT32_MAX, ctx) else
       bnd (fs_read_file F filepath) (\<lambda>(elf, img). if elf = 0 then ret (UINT32_MAX, ctx) else
       seqn (acquire_Spinlock proc_table_lock)
      (seqn (ProcessFree p)
      (seqn (upd (upd_thread t (\<lambda>x. x\<lparr>run_mode := USER_THREAD, owner_proc := Some p\<rparr>)))
      (seqn (upd (upd_proc p (\<lambda>x. x\<lparr>thread_count := 1\<rparr>)))
      (seqn (add_thread_entry ''CreateUserProcess() --> unable to allocate ThreadEntry!'' p t)
      (seqn (upd (upd_thread t (\<lambda>x. x\<lparr>status := THREAD_STATE_NOT_INITIALIZED\<rparr>)))
      (seqn (upd (upd_proc p (\<lambda>x. x\<lparr>thread_count := 1\<rparr>)))
      (seqn (init_Spinlock (pid_wait_spinlock p) ''pid_spinlock'')
      (seqn (upd (upd_proc p (\<lambda>x. x\<lparr>proc_state := PROCESS_STATE_INUSE\<rparr>)))
      (seqn (CreatePageTables p t)
      (bnd (CreateUserProcessStack t) (\<lambda>rsp0.
       bnd (ELF_load_segments t img) (\<lambda>rip.
       bnd (is_frame_mapped_thread t rip) (\<lambda>m1.
       if \<not> m1 then raise (Panic ''rip not mapped'')
       else bnd (is_frame_mapped_thread t rsp0) (\<lambda>m2.
       if \<not> m2 then raise (Panic ''rsp not mapped'')
       else bnd (gets (\<lambda>s. KERNEL_PML4T_PHYS (pgdir_pml4t p s))) (\<lambda>root.
       bnd (push_args args root MAX_ARG_COUNT rsp0 0 argv0) (\<lambda>(rsp1, argc, argv).
       let rsp2 = rsp1 - 128 in
       seqn (WriteStruct rsp2 (concat (map (\<lambda>i. bytes_le 8 (argv i)) [0..<MAX_ARG_COUNT])) 128 root)
      (seqn (upd (upd_thread t (\<lambda>x. x\<lparr>status := THREAD_STATE_RUNNING\<rparr>)))
      (seqn (kfree elf)
      (seqn (release_Spinlock proc_table_lock)
            (ret (0, zero_context\<lparr>i_rsp := rsp2, i_rip := rip, i_rflags := 0x202, i_cs := USER_CS, i_ss := USER_DS,
                       rdi := argc, rsi := rsp2\<rparr>))))))))))))))))))))))))"

section \<open>Walks that release every entry\<close>

text \<open>What such a walk needs of the heap: the lock is free, the tree has its shape and something is allocated, and the
  entries lie in the heap window.\<close>

definition releasable :: "u64 list \<Rightarrow> 'a kheap_scheme \<Rightarrow> bool" where
  "releasable xs s \<longleftrightarrow> lock_free KernelHeapLock s \<and> heap_shape (heap_tree s) \<and> in_use (heap_tree s 0)
     \<and> (\<forall>x \<in> set xs. heap_va_start s \<le> x \<and> unat (x - heap_va_start s) < 2 ^ 31)"

definition proc_data :: "'a proc_scheme \<Rightarrow> (nat \<Rightarrow> Thread) \<times> (nat \<Rightarrow> Process) \<times> (u64 \<Rightarrow> nat) \<times> (u64 \<Rightarrow> u64) \<times> linkmap" where
  "proc_data s = (threads s, procs s, thread_entry s, qmem s, link s)"

lemma kfree_keeps:
  fixes s :: "'a proc_scheme"
  assumes "kfree a s = Inr (b, t)"
  shows "lists t = lists s" "proc_data t = proc_data s" "heap_va_start t = heap_va_start s"
proof -
  have lk: "\<exists>c k. t = s\<lparr>cpus := c, locks := k\<rparr>"
    using assms unfolding kfree_def
    by (fastforce simp: seqn_Inr_iff bnd_Inr_iff dest!: acquire_Spinlock_frame release_Spinlock_frame
        split: if_splits option.splits sum.splits)
  then show "lists t = lists s" "proc_data t = proc_data s" "heap_va_start t = heap_va_start s"
    by (auto simp: lists_def proc_data_def)
qed

lemma remove_keeps:
  fixes s :: "'a proc_scheme"
  assumes "remove_dll_entry x s = Inr (y, t)"
  shows "\<exists>f g. t = s\<lparr>dll_next := f, dll_prev := g\<rparr>"
  using assms by (auto simp: remove_dll_entry_def Let_def dll_set_defs split: if_splits)
     (metis dll.surjective dll.update_convs(1,2))+

lemma dll_stack_lists: "lists t = lists s \<Longrightarrow> dll_stack h t xs = dll_stack h s xs"
  by (simp add: dll_stack_def lists_def)

lemma release_entry:
  fixes s :: "'a proc_scheme"
  assumes st: "dll_stack h s (x # zs)" and r: "releasable (x # zs) s"
  shows "\<exists>t. bnd (gets (\<lambda>s. dll_next s x)) (\<lambda>nxt. seqn (remove_dll_entry x) (seqn (kfree x) (ret nxt))) s = Inr (dll_next s x, t)
    \<and> dll_stack h t zs \<and> releasable zs t \<and> proc_data t = proc_data s"
proof -
  from dll_stack_remove_entry [of h s "[]" x zs] st obtain u where u: "remove_dll_entry x s = Inr (x, u)" "dll_stack h u zs" by auto
  from remove_keeps [OF u(1)] obtain f g where fg: "u = s\<lparr>dll_next := f, dll_prev := g\<rparr>" by blast
  have ru: "lock_free KernelHeapLock u" "heap_shape (heap_tree u)" "in_use (heap_tree u 0)" "heap_va_start u \<le> x"
    "unat (x - heap_va_start u) < 2 ^ 31"
    using r by (auto simp: fg releasable_def lock_free_def registered_def)
  from kfree_in_use [OF ru] obtain t where t: "kfree x u = Inr (True, t)" "heap_tree t = heap_tree u" "lock_free KernelHeapLock t" by blast
  note k = kfree_keeps [OF t(1)]
  have "bnd (gets (\<lambda>s. dll_next s x)) (\<lambda>nxt. seqn (remove_dll_entry x) (seqn (kfree x) (ret nxt))) s = Inr (dll_next s x, t)"
    by (simp add: gets_def seqn_def bnd_def u(1) t(1) ret_def)
  moreover have "dll_stack h t zs" using u(2) dll_stack_lists [OF k(1)] by blast
  moreover have "releasable zs t" using t(2,3) ru(2,3) k(3) r by (auto simp: releasable_def fg)
  moreover have "proc_data t = proc_data s" using k(2) by (simp add: fg proc_data_def)
  ultimately show ?thesis by blast
qed

lemma dll_stack_next: "dll_stack h s (x # zs) \<Longrightarrow> dll_first s h = x \<and> x \<noteq> 0 \<and> x \<noteq> h \<and> dll_next s x = (case zs of [] \<Rightarrow> h | z # _ \<Rightarrow> z)"
  by (cases zs) (auto simp: dll_stack_def dll_ok_def)

definition kill_entry :: "u64 \<Rightarrow> 'a proc_scheme \<Rightarrow> 'a proc_scheme" where
  "kill_entry e s = upd_thread (thread_entry s e) (\<lambda>t. t\<lparr>status := THREAD_STATE_KILLED\<rparr>) s"

abbreviation kill_body :: "u64 \<Rightarrow> 'a proc_scheme \<Rightarrow> fault + u64 \<times> 'a proc_scheme" where
  "kill_body \<equiv> \<lambda>e. seqn (upd (kill_entry e)) (bnd (gets (\<lambda>s. dll_next s e)) (\<lambda>nxt. seqn (remove_dll_entry e) (seqn (kfree e) (ret nxt))))"

lemma kill_walk:
  fixes s :: "'a proc_scheme"
  assumes "dll_stack h s xs" "releasable xs s"
  shows "\<exists>t. dll_while h kill_body (case xs of [] \<Rightarrow> h | x # _ \<Rightarrow> x) s = Some (Inr ((), t)) \<and> dll_stack h t []
    \<and> procs t = procs s \<and> qmem t = qmem s \<and> link t = link s
    \<and> threads t = (\<lambda>k. if k \<in> thread_entry s ` set xs then (threads s k)\<lparr>status := THREAD_STATE_KILLED\<rparr> else threads s k)"
  using assms
proof (induction xs arbitrary: s)
  case Nil
  then show ?case by (subst dll_while.simps) auto
next
  case (Cons x zs)
  let ?k = "kill_entry x s"
  have "lists ?k = lists s" by (simp add: lists_def kill_entry_def upd_thread_def)
  then have st: "dll_stack h ?k (x # zs)" using Cons.prems(1) dll_stack_lists by blast
  have r: "releasable (x # zs) ?k" using Cons.prems(2) by (simp add: releasable_def kill_entry_def upd_thread_def lock_free_def registered_def)
  from release_entry [OF st r] obtain u where
    u: "bnd (gets (\<lambda>s. dll_next s x)) (\<lambda>nxt. seqn (remove_dll_entry x) (seqn (kfree x) (ret nxt))) ?k = Inr (dll_next ?k x, u)"
    "dll_stack h u zs" "releasable zs u" "proc_data u = proc_data ?k" by blast
  note nx = dll_stack_next [OF st]
  have "kill_body x s = Inr ((case zs of [] \<Rightarrow> h | z # _ \<Rightarrow> z), u)" using u(1) nx by (simp add: seqn_upd)
  then have w: "dll_while h kill_body x s = dll_while h kill_body (case zs of [] \<Rightarrow> h | z # _ \<Rightarrow> z) u"
    using nx by (subst dll_while.simps) simp
  from Cons.IH [OF u(2,3)] obtain t where t: "dll_while h kill_body (case zs of [] \<Rightarrow> h | z # _ \<Rightarrow> z) u = Some (Inr ((), t))"
    "dll_stack h t []" "procs t = procs u" "qmem t = qmem u" "link t = link u"
    "threads t = (\<lambda>k. if k \<in> thread_entry u ` set zs then (threads u k)\<lparr>status := THREAD_STATE_KILLED\<rparr> else threads u k)" by blast
  have d: "threads u = (threads s)(thread_entry s x := (threads s (thread_entry s x))\<lparr>status := THREAD_STATE_KILLED\<rparr>)"
    "thread_entry u = thread_entry s" "procs u = procs s" "qmem u = qmem s" "link u = link s"
    using u(4) by (simp_all add: proc_data_def kill_entry_def upd_thread_def)
  have "threads t = (\<lambda>k. if k \<in> thread_entry s ` set (x # zs) then (threads s k)\<lparr>status := THREAD_STATE_KILLED\<rparr> else threads s k)"
    unfolding t(6) d by (auto simp: fun_eq_iff)
  with w t d show ?case by simp
qed

section \<open>Properties\<close>

text \<open>C22: \<open>ProcessFreeThreads\<close> ends and kills exactly the threads of the process. For a process whose list of
  \<open>ThreadEntry\<close> objects was built with \<open>insert_dll_entry_head\<close> and lies in the kernel heap, the walk along the
  list terminates although it unlinks every entry it stands on; afterwards the list is empty, every thread that
  was on it is marked as killed, every other thread is as before, and the thread count is 0.\<close>

theorem ProcessFreeThreads_kills:
  fixes s :: "'a proc_scheme"
  assumes st: "dll_stack (threads_head p s) s xs" and r: "releasable xs s"
  shows "\<exists>t. ProcessFreeThreads p s = Inr ((), t) \<and> dll_stack (threads_head p t) t [] \<and> qmem t = qmem s
    \<and> threads t = (\<lambda>k. if k \<in> thread_entry s ` set xs then (threads s k)\<lparr>status := THREAD_STATE_KILLED\<rparr> else threads s k)
    \<and> procs t = (procs s)(p := (procs s p)\<lparr>thread_count := 0\<rparr>)"
proof -
  let ?h = "threads_head p s"
  from kill_walk [OF st r] obtain u where u: "dll_while ?h kill_body (case xs of [] \<Rightarrow> ?h | x # _ \<Rightarrow> x) s = Some (Inr ((), u))"
    "dll_stack ?h u []" "procs u = procs s" "qmem u = qmem s" "link u = link s"
    "threads u = (\<lambda>k. if k \<in> thread_entry s ` set xs then (threads s k)\<lparr>status := THREAD_STATE_KILLED\<rparr> else threads s k)" by blast
  have "dll_while ?h kill_body (dll_first s ?h) s = Some (Inr ((), u))"
  proof (cases xs)
    case Nil
    then have "dll_first s ?h = 0 \<or> dll_first s ?h = ?h" using st by (auto simp: dll_stack_def)
    then show ?thesis using u(1) Nil by (auto simp: dll_while.simps)
  next
    case (Cons x zs)
    then show ?thesis using u(1) dll_stack_next [of ?h s x zs] st by simp
  qed
  then have w: "dll_walk (threads_head p) (\<lambda>s. dll_first s (threads_head p s)) kill_body s = Inr ((), u)"
    by (simp add: dll_walk_def lift_loop_def)
  let ?t = "upd_proc p (\<lambda>x. x\<lparr>thread_count := 0\<rparr>) u"
  have "ProcessFreeThreads p s = Inr ((), ?t)"
    unfolding ProcessFreeThreads_def kill_entry_def [abs_def, symmetric]
    using w unfolding kill_entry_def [abs_def] by (simp add: seqn_step upd_def)
  moreover have "lists ?t = lists u" "threads_head p ?t = ?h" using u(5) by (simp_all add: lists_def upd_proc_def threads_head_def)
  ultimately show ?thesis using u dll_stack_lists [of ?t u ?h "[]"] by (simp add: upd_proc_def)
qed

text \<open>A process with one thread, whose entry is the heap object at 0xffffffff00010000.\<close>

definition lone_thread :: proc where
  "lone_thread = (let m = machine [Some 0] user_threads; h = threads_head 0 m; a = 0xffffffff00010000 in
     m\<lparr>dll_next := (\<lambda>_. 0)(h := a, a := h), dll_prev := (\<lambda>_. 0)(a := h), entry_count := (\<lambda>_. 0)(h := 1),
       heap_tree := (heap_tree m)(0 := (heap_tree m 0)\<lparr>in_use := True\<rparr>), thread_entry := (\<lambda>_. 0)\<rparr>)"

theorem ProcessFreeThreads_kills_witness:
  "\<exists>t. ProcessFreeThreads 0 lone_thread = Inr ((), t) \<and> status (threads t 0) = THREAD_STATE_KILLED
     \<and> threads t 1 = threads lone_thread 1 \<and> thread_count (procs t 0) = 0"
proof -
  let ?a = "0xffffffff00010000 :: u64"
  have h: "threads_head 0 lone_thread = dll_head_va boot_link 1" by (simp add: lone_thread_def threads_head_def Let_def)
  have ne: "dll_head_va boot_link 1 \<noteq> 0" "dll_head_va boot_link 1 \<noteq> ?a" by (simp_all add: boot_link_def)
  have st: "dll_stack (threads_head 0 lone_thread) lone_thread [?a]"
    unfolding h using ne by (simp add: dll_stack_def dll_ok_def lone_thread_def threads_head_def Let_def)
  have "heap_shape (heap_tree boot_kheap)" using kheap_inv_boot by (simp add: kheap_inv_def heap_wf_def)
  then have sh: "heap_shape (heap_tree lone_thread)" by (auto simp: heap_shape_def lone_thread_def Let_def)
  have "lock_free KernelHeapLock lone_thread"
    using machine_registered [of "[Some 0]" user_threads]
    by (auto simp: lock_free_def lone_thread_def Let_def registered_def boot_cpu_def)
  then have r: "releasable [?a] lone_thread"
    using sh by (simp add: releasable_def lone_thread_def Let_def KERNEL_HEAP_START_def)
  from ProcessFreeThreads_kills [OF st r] show ?thesis
    by (auto simp: lone_thread_def Let_def)
qed

end
