(* ===== verification/Libc.thy ===== *)
theory Libc
  imports Prelude "HOL-Library.Signed_Division"
begin

text \<open>
  The C library routines of src/src/libc: memory and string functions and the conversion of
  integers to text. Memory is a function from addresses to bytes; addresses wrap at 64 bits. Loops
  that run until a condition on the data holds are \<open>partial_function (option)\<close>, so \<open>None\<close> means
  that the loop does not end; \<open>int\<close> values are integers with their range checked where C leaves
  overflow undefined.
\<close>

type_synonym mem = "u64 \<Rightarrow> u8"

section \<open>Memory\<close>

definition memcpy :: "u64 \<Rightarrow> u64 \<Rightarrow> u64 \<Rightarrow> mem \<Rightarrow> mem" where
  "memcpy dst src sz m = fold (\<lambda>i m. m(dst + of_nat i := m (src + of_nat i))) [0..<unat sz] m"

definition memmove :: "u64 \<Rightarrow> u64 \<Rightarrow> u64 \<Rightarrow> mem \<Rightarrow> mem" where
  "memmove dst src sz m =
     (if dst < src then fold (\<lambda>i m. m(dst + of_nat i := m (src + of_nat i))) [0..<unat sz] m
      else fold (\<lambda>i m. m(dst + of_nat i := m (src + of_nat i))) (rev [0..<unat sz]) m)"

definition memset :: "u64 \<Rightarrow> u32 \<Rightarrow> u64 \<Rightarrow> mem \<Rightarrow> mem" where
  "memset buf val sz m = fold (\<lambda>i m. m(buf + of_nat i := ucast val)) [0..<unat sz] m"

fun memcmp_loop :: "u64 \<Rightarrow> u64 \<Rightarrow> nat list \<Rightarrow> mem \<Rightarrow> int" where
  "memcmp_loop a b [] m = 0"
| "memcmp_loop a b (i # is) m =
     (if m (a + of_nat i) < m (b + of_nat i) then -1
      else if m (b + of_nat i) < m (a + of_nat i) then 1
      else memcmp_loop a b is m)"

definition memcmp :: "u64 \<Rightarrow> u64 \<Rightarrow> u64 \<Rightarrow> mem \<Rightarrow> int" where
  "memcmp a b sz m = memcmp_loop a b [0..<unat sz] m"

definition min_u32 :: "u32 \<Rightarrow> u32 \<Rightarrow> u32" where "min_u32 a b = (if a < b then a else b)"
definition max_u32 :: "u32 \<Rightarrow> u32 \<Rightarrow> u32" where "max_u32 a b = (if a > b then a else b)"

section \<open>Strings\<close>

partial_function (option) strlen :: "mem \<Rightarrow> u64 \<Rightarrow> u64 \<Rightarrow> u64 option" where
  "strlen m str len = (if m (str + len) = 0 then Some len else strlen m str (len + 1))"

text \<open>The difference of two \<open>unsigned char\<close> is an \<open>int\<close>, converted to \<open>size_t\<close>.\<close>

partial_function (option) strcmp :: "mem \<Rightarrow> u64 \<Rightarrow> u64 \<Rightarrow> u64 option" where
  "strcmp m str1 str2 =
     (let res = ucast (m str1) - ucast (m str2) :: u64 in
      if res = 0 \<and> m str2 \<noteq> 0 then strcmp m (str1 + 1) (str2 + 1) else Some res)"

partial_function (option) strsplit :: "u64 \<Rightarrow> u8 \<Rightarrow> nat \<Rightarrow> nat \<Rightarrow> mem \<Rightarrow> (nat \<times> mem) option" where
  "strsplit str split_on i num m =
     (let c = m (str + of_nat i) in
      if c = 0 then Some (num + 1, m)
      else if c = split_on then strsplit str split_on (i + 1) (num + 1) (m(str + of_nat i := 0))
      else strsplit str split_on (i + 1) num m)"

section \<open>itoa.c\<close>

function reverse_loop :: "u64 \<Rightarrow> int \<Rightarrow> int \<Rightarrow> mem \<Rightarrow> mem" where
  "reverse_loop str start stop m =
     (if start < stop
      then reverse_loop str (start + 1) (stop - 1)
        (m(str + of_int start := m (str + of_int stop), str + of_int stop := m (str + of_int start)))
      else m)"
  by pat_completeness auto
termination
  by (relation "measure (\<lambda>(str, a, b, m). nat (b - a))") auto

declare reverse_loop.simps [simp del]

definition reverse :: "u64 \<Rightarrow> int \<Rightarrow> mem \<Rightarrow> mem" where
  "reverse str len = reverse_loop str 0 (len - 1)"

definition digit_char :: "int \<Rightarrow> u8" where
  "digit_char rem = of_int (if rem > 9 then (rem - 10) + 97 else rem + 48)"

partial_function (option) itoa_digits :: "int \<Rightarrow> u64 \<Rightarrow> int \<Rightarrow> int \<Rightarrow> mem \<Rightarrow> (int \<times> mem) option" where
  "itoa_digits base str num i m =
     (if num = 0 then Some (i, m)
      else itoa_digits base str (num sdiv base) (i + 1) (m(str + of_int i := digit_char (num smod base))))"

definition itoa :: "int \<Rightarrow> u64 \<Rightarrow> int \<Rightarrow> mem \<Rightarrow> fault + mem" where
  "itoa num str base m =
     (if num = 0 then Inr (m(str := 48, str + 1 := 0))
      else let isNegative = (num < 0 \<and> base = 10) in
        if base = 0 \<or> (isNegative \<and> num = - (2 ^ 31)) then Inl Undefined
        else case itoa_digits base str (if isNegative then - num else num) 0 m of
          None \<Rightarrow> Inl Diverge
        | Some (i, m1) \<Rightarrow>
            let (j, m2) = (if isNegative then (i + 1, m1(str + of_int i := 45)) else (i, m1))
            in Inr (reverse str j (m2(str + of_int j := 0))))"

text \<open>In \<open>utoa\<close> the base is converted to \<open>unsigned int\<close>.\<close>

partial_function (option) utoa_digits :: "u32 \<Rightarrow> u64 \<Rightarrow> u32 \<Rightarrow> int \<Rightarrow> mem \<Rightarrow> (int \<times> mem) option" where
  "utoa_digits base str num i m =
     (if num = 0 then Some (i, m)
      else utoa_digits base str (num div base) (i + 1) (m(str + of_int i := digit_char (sint (num mod base)))))"

definition utoa :: "u32 \<Rightarrow> u64 \<Rightarrow> int \<Rightarrow> mem \<Rightarrow> fault + mem" where
  "utoa num str base m =
     (if num = 0 then Inr (m(str := 48, str + 1 := 0))
      else if (of_int base :: u32) = 0 then Inl Undefined
      else case utoa_digits (of_int base) str num 0 m of
        None \<Rightarrow> Inl Diverge
      | Some (i, m1) \<Rightarrow> Inr (reverse str i (m1(str + of_int i := 0))))"

section \<open>Memory ranges\<close>

text \<open>The \<open>n\<close> bytes from address \<open>a\<close>.\<close>

definition bytes_at :: "mem \<Rightarrow> u64 \<Rightarrow> nat \<Rightarrow> u8 list" where
  "bytes_at m a n = map (\<lambda>i. m (a + of_nat i)) [0..<n]"

lemma length_bytes_at [simp]: "length (bytes_at m a n) = n"
  by (simp add: bytes_at_def)

lemma nth_bytes_at [simp]: "i < n \<Longrightarrow> bytes_at m a n ! i = m (a + of_nat i)"
  by (simp add: bytes_at_def)

lemma offset_eq_iff: "i < 2 ^ 64 \<Longrightarrow> j < 2 ^ 64 \<Longrightarrow> (a :: u64) + of_nat i = a + of_nat j \<longleftrightarrow> i = j"
  by (simp add: word_of_nat_eq_iff take_bit_nat_eq_self)

text \<open>Writing the bytes of a list at consecutive addresses, as one parallel assignment.\<close>

definition put :: "u64 \<Rightarrow> u8 list \<Rightarrow> mem \<Rightarrow> mem" where
  "put a bs m = (\<lambda>x. if unat (x - a) < length bs then bs ! unat (x - a) else m x)"

lemma put_Nil [simp]: "put a [] m = m"
  by (simp add: put_def)

lemma unat_offset: "i < 2 ^ 64 \<Longrightarrow> unat (a + of_nat i - a :: u64) = i"
  by (simp add: unat_of_nat)

lemma put_snoc:
  assumes "length bs < 2 ^ 64"
  shows "put a (bs @ [b]) m = (put a bs m)(a + of_nat (length bs) := b)"
proof
  fix x
  have "x = a + of_nat (length bs) \<longleftrightarrow> x - a = of_nat (length bs)" by (auto simp: algebra_simps)
  also have "\<dots> \<longleftrightarrow> unat (x - a) = length bs"
    using assms by (simp add: word_unat_eq_iff [of "x - a"] unat_of_nat take_bit_nat_eq_self_iff)
  finally have x: "x = a + of_nat (length bs) \<longleftrightarrow> unat (x - a) = length bs" .
  show "put a (bs @ [b]) m x = ((put a bs m)(a + of_nat (length bs) := b)) x"
    by (auto simp: put_def x nth_append)
qed

lemma bytes_at_put: "length bs \<le> 2 ^ 64 \<Longrightarrow> bytes_at (put a bs m) a (length bs) = bs"
  by (auto intro!: nth_equalityI simp: put_def unat_of_nat)

lemma put_put: "length bs = length cs \<Longrightarrow> put a bs (put a cs m) = put a bs m"
  by (auto simp: put_def)

section \<open>memmove\<close>

text \<open>A range that does not wrap around the end of the address space.\<close>

definition no_wrap :: "u64 \<Rightarrow> nat \<Rightarrow> bool" where
  "no_wrap a n \<longleftrightarrow> unat a + n \<le> 2 ^ 64"

lemma unat_no_wrap: "no_wrap a n \<Longrightarrow> i < n \<Longrightarrow> unat (a + of_nat i) = unat a + i"
  unfolding no_wrap_def by (subst unat_plus_nowrap) (simp_all add: unat_of_nat take_bit_nat_eq_self)

definition copy_byte :: "u64 \<Rightarrow> u64 \<Rightarrow> nat \<Rightarrow> mem \<Rightarrow> mem" where
  "copy_byte dst src i m = m(dst + of_nat i := m (src + of_nat i))"

lemma copy_up:
  assumes "no_wrap dst n" "no_wrap src n" "dst < src \<or> unat src + n \<le> unat dst"
  shows "k \<le> n \<Longrightarrow> fold (copy_byte dst src) [0..<k] m = put dst (bytes_at m src k) m"
proof (induction k)
  case (Suc k)
  then have k: "k < n" by simp
  have "\<not> unat (src + of_nat k - dst) < k"
    using unat_no_wrap [OF assms(2) k] assms(1,3) k by (auto simp: unat_sub_if' word_less_nat_alt no_wrap_def)
  then have rd: "put dst (bytes_at m src k) m (src + of_nat k) = m (src + of_nat k)" by (simp add: put_def)
  have "length (bytes_at m src k) < 2 ^ 64" using k assms(1) by (simp add: no_wrap_def)
  from put_snoc [OF this] have "put dst (bytes_at m src (Suc k)) m
      = (put dst (bytes_at m src k) m)(dst + of_nat k := m (src + of_nat k))"
    by (simp add: bytes_at_def)
  with Suc rd show ?case by (simp add: copy_byte_def [of dst src k])
qed (simp add: bytes_at_def)

lemma copy_down:
  assumes "no_wrap dst n" "no_wrap src n" "\<not> dst < src"
  shows "i \<le> n \<Longrightarrow> fold (copy_byte dst src) (rev [i..<n]) m
    = (\<lambda>x. if i \<le> unat (x - dst) \<and> unat (x - dst) < n then m (src + (x - dst)) else m x)"
proof (induction "n - i" arbitrary: i)
  case 0
  then have "i = n" by simp
  then show ?case by (auto simp: fun_eq_iff)
next
  case (Suc j)
  then have i: "i < n" by simp
  let ?f = "\<lambda>x. if Suc i \<le> unat (x - dst) \<and> unat (x - dst) < n then m (src + (x - dst)) else m x"
  have IH: "fold (copy_byte dst src) (rev [Suc i..<n]) m = ?f" using Suc by simp
  have "\<not> (Suc i \<le> unat (src + of_nat i - dst) \<and> unat (src + of_nat i - dst) < n)"
    using unat_no_wrap [OF assms(2) i] assms(1,3) by (auto simp: unat_sub_if' word_less_nat_alt no_wrap_def)
  then have rd: "?f (src + of_nat i) = m (src + of_nat i)" by auto
  have big: "i < 2 ^ 64" using i assms(1) by (simp add: no_wrap_def)
  have ix: "x = dst + of_nat i \<longleftrightarrow> unat (x - dst) = i" for x
  proof -
    have "x = dst + of_nat i \<longleftrightarrow> x - dst = of_nat i" by (auto simp: algebra_simps)
    also have "\<dots> \<longleftrightarrow> unat (x - dst) = i"
      using big by (simp add: word_unat_eq_iff [of "x - dst"] unat_of_nat take_bit_nat_eq_self)
    finally show ?thesis .
  qed
  have "fold (copy_byte dst src) (rev [i..<n]) m = ?f(dst + of_nat i := m (src + of_nat i))"
    using i IH rd by (simp add: upt_conv_Cons copy_byte_def)
  also have "\<dots> = (\<lambda>x. if i \<le> unat (x - dst) \<and> unat (x - dst) < n then m (src + (x - dst)) else m x)"
    using i by (auto simp: fun_eq_iff ix le_less Suc_le_eq)
  finally show ?case .
qed

text \<open>C25: \<open>memmove\<close> is correct for overlapping ranges. Whatever the position of the two ranges, as long as neither
  wraps around the address space, the result is the memory in which the destination holds the bytes the source
  held before the call, all read before any is written, and no other byte changes. \<open>memcpy\<close> agrees with it
  whenever the destination starts below the source or the ranges are disjoint.\<close>

theorem memmove_correct:
  assumes "no_wrap dst (unat sz)" "no_wrap src (unat sz)"
  shows "memmove dst src sz m = put dst (bytes_at m src (unat sz)) m
    \<and> (dst < src \<or> unat src + unat sz \<le> unat dst \<longrightarrow> memcpy dst src sz m = put dst (bytes_at m src (unat sz)) m)"
proof (intro conjI impI)
  have cb: "(\<lambda>i m. m(dst + of_nat i := m (src + of_nat i))) = copy_byte dst src" by (simp add: copy_byte_def fun_eq_iff)
  show "memmove dst src sz m = put dst (bytes_at m src (unat sz)) m"
  proof (cases "dst < src")
    case True
    then show ?thesis using copy_up [OF assms] by (simp add: memmove_def cb)
  next
    case False
    have "put dst (bytes_at m src (unat sz)) m = (\<lambda>x. if unat (x - dst) < unat sz then m (src + (x - dst)) else m x)"
      by (auto simp: put_def fun_eq_iff)
    then show ?thesis using copy_down [OF assms False, of 0 m] False by (simp add: memmove_def cb)
  qed
  show "memcpy dst src sz m = put dst (bytes_at m src (unat sz)) m" if "dst < src \<or> unat src + unat sz \<le> unat dst"
    using copy_up [OF assms that] by (simp add: memcpy_def cb)
qed

theorem memmove_correct_witness:
  "no_wrap 0x1001 3 \<and> no_wrap 0x1000 3
   \<and> bytes_at (memmove 0x1001 0x1000 3 (\<lambda>a. ucast (a - 0x1000))) 0x1001 3 = [0, 1, 2]
   \<and> memcpy 0x1000 0x1001 3 (\<lambda>a. ucast (a - 0x1000)) = put 0x1000 [1, 2, 3] (\<lambda>a. ucast (a - 0x1000))"
proof -
  let ?m = "\<lambda>a. ucast (a - 0x1000) :: u8"
  have w: "no_wrap 0x1001 (unat (3 :: u64))" "no_wrap 0x1000 (unat (3 :: u64))" by (simp_all add: no_wrap_def)
  have u: "[0..<unat (3 :: u64)] = [0, 1, 2]" by code_simp
  from conjunct1 [OF memmove_correct [OF w, of ?m]] have "memmove 0x1001 0x1000 3 ?m = put 0x1001 [0, 1, 2] ?m"
    by (simp only: bytes_at_def u) simp
  moreover from conjunct2 [OF memmove_correct [OF w(2,1), of ?m]] have "memcpy 0x1000 0x1001 3 ?m = put 0x1000 [1, 2, 3] ?m"
    by (simp only: bytes_at_def u) simp
  moreover have "bytes_at (put 0x1001 [0, 1, 2] ?m) 0x1001 3 = [0, 1, 2]"
    using bytes_at_put [of "[0, 1, 2]" "0x1001" ?m] by (simp add: numeral_3_eq_3)
  ultimately show ?thesis using w by simp
qed

section \<open>Text of a number\<close>

lemma reverse_loop_bytes:
  assumes "0 \<le> a" "b < 2 ^ 64" "k < 2 ^ 64"
  shows "reverse_loop str a b m (str + of_nat k)
    = (if a \<le> int k \<and> int k \<le> b then m (str + of_int (a + b - int k)) else m (str + of_nat k))"
  using assms
proof (induction str a b m rule: reverse_loop.induct)
  case (1 str a b m)
  let ?m = "m(str + of_int a := m (str + of_int b), str + of_int b := m (str + of_int a))"
  have eq: "(str + of_int i = str + of_nat j) \<longleftrightarrow> i = int j" if "0 \<le> i" "i < 2 ^ 64" "j < 2 ^ 64" for i :: int and j
    using offset_eq_iff [of "nat i" j str] that by auto
  show ?case
  proof (cases "a < b")
    case True
    have IH: "reverse_loop str (a + 1) (b - 1) ?m (str + of_nat k)
       = (if a + 1 \<le> int k \<and> int k \<le> b - 1 then ?m (str + of_int (a + 1 + (b - 1) - int k)) else ?m (str + of_nat k))"
      by (rule 1(1) [OF True]) (use 1(2-4) True in auto)
    have mid: "?m (str + of_int (a + b - int k)) = m (str + of_int (a + b - int k))" if "a < int k" "int k < b"
      using that 1(2,3) eq [of a "nat (a + b - int k)"] eq [of b "nat (a + b - int k)"] by simp
    have st: "reverse_loop str a b m = reverse_loop str (a + 1) (b - 1) ?m"
      using True by (subst reverse_loop.simps) simp
    have ka: "str + of_nat k = str + of_int a \<longleftrightarrow> int k = a" "str + of_nat k = str + of_int b \<longleftrightarrow> int k = b"
      using eq [of a k] eq [of b k] 1(2-4) True by (metis less_trans le_less_trans less_imp_le)+
    have out: "?m (str + of_nat k) = (if int k = b then m (str + of_int a) else if int k = a then m (str + of_int b) else m (str + of_nat k))"
      by (simp only: fun_upd_apply ka)
    consider "int k = a" | "int k = b" | "a < int k" "int k < b" | "int k < a \<or> b < int k" by linarith
    then show ?thesis
    proof cases
      case 3
      then show ?thesis unfolding st IH using mid by auto
    qed (use True in \<open>auto simp: st IH out simp del: fun_upd_apply\<close>)
  next
    case False
    then have "reverse_loop str a b m = m" by (subst reverse_loop.simps) simp
    moreover have "a + b - int k = int k" if "a \<le> int k" "int k \<le> b" using False that by simp
    ultimately show ?thesis by (simp only: of_int_of_nat_eq split: if_split) auto
  qed
qed

text \<open>The digits of a positive number, most significant first, and the number a text denotes.\<close>

fun num_text :: "nat \<Rightarrow> nat \<Rightarrow> u8 list" where
  "num_text base n = (if n = 0 \<or> base < 2 then [] else num_text base (n div base) @ [digit_char (int (n mod base))])"

declare num_text.simps [simp del]

definition digit_value :: "u8 \<Rightarrow> nat" where
  "digit_value c = (if c \<ge> 97 then unat c - 87 else unat c - 48)"

definition text_value :: "nat \<Rightarrow> u8 list \<Rightarrow> int" where
  "text_value base cs =
     (let val = (\<lambda>ds. foldl (\<lambda>v c. v * int base + int (digit_value c)) 0 ds)
      in if cs \<noteq> [] \<and> hd cs = 45 then - val (tl cs) else val cs)"

lemma digit_char_props:
  assumes "d < 36"
  shows "digit_value (digit_char (int d)) = d" "digit_char (int d) \<noteq> 0" "digit_char (int d) \<noteq> 45"
proof -
  have "\<forall>d \<in> set [0..<36]. digit_value (digit_char (int d)) = d \<and> digit_char (int d) \<noteq> 0 \<and> digit_char (int d) \<noteq> 45"
    by code_simp
  with assms show "digit_value (digit_char (int d)) = d" "digit_char (int d) \<noteq> 0" "digit_char (int d) \<noteq> 45" by auto
qed

lemma num_text_value:
  assumes "2 \<le> base" "base \<le> 36"
  shows "foldl (\<lambda>v c. v * int base + int (digit_value c)) 0 (num_text base n) = int n"
    and "\<forall>c \<in> set (num_text base n). c \<noteq> 0 \<and> c \<noteq> 45"
  using assms
proof (induction base n rule: num_text.induct)
  case (1 base n)
  { case 1
    show ?case
    proof (cases "n = 0")
      case False
      have d: "n mod base < 36" using mod_less_divisor [of base n] 1 by linarith
      have "int (n div base) * int base + int (n mod base) = int n"
        by (metis div_mult_mod_eq of_nat_add of_nat_mult)
      with False 1 "1.IH"(1) digit_char_props(1) [OF d] show ?thesis by (subst num_text.simps) simp
    qed (simp add: num_text.simps)
  next
    case 2
    have d: "n mod base < 36" using mod_less_divisor [of base n] 2 by linarith
    with 2 "1.IH"(2) digit_char_props(2,3) [OF d] show ?case by (subst num_text.simps) auto }
qed

lemma num_text_length: "length (num_text base n) \<le> n"
proof (induction base n rule: num_text.induct)
  case (1 base n)
  show ?case
  proof (cases "n = 0 \<or> base < 2")
    case False
    then have "n div base < n" by simp
    with 1 [OF False] show ?thesis by (subst num_text.simps) simp
  qed (subst num_text.simps, simp)
qed

lemma put_Cons:
  assumes "length bs < 2 ^ 64"
  shows "put a (b # bs) m = put (a + 1) bs (m(a := b))"
proof
  fix x
  show "put a (b # bs) m x = put (a + 1) bs (m(a := b)) x"
  proof (cases "x = a")
    case True
    have "unat (- 1 :: u64) = 2 ^ 64 - 1" by (simp add: unsigned_minus_1_eq_mask mask_eq_exp_minus_1)
    with True assms show ?thesis by (simp add: put_def)
  next
    case False
    then have "x - a \<noteq> 0" by simp
    then have "unat (x - a) = Suc (unat (x - a - 1))" by (simp add: unat_minus_one unat_gt_0)
    moreover have "x - a - 1 = x - (a + 1)" by simp
    ultimately show ?thesis using False by (simp add: put_def)
  qed
qed

lemma itoa_digits_run:
  assumes "2 \<le> base" "length (num_text base n) < 2 ^ 64"
  shows "itoa_digits (int base) str (int n) (int i) m
    = Some (int (i + length (num_text base n)), put (str + of_nat i) (rev (num_text base n)) m)"
  using assms
proof (induction base n arbitrary: i m rule: num_text.induct)
  case (1 base n)
  show ?case
  proof (cases "n = 0")
    case True
    then show ?thesis by (simp add: num_text.simps itoa_digits.simps)
  next
    case False
    let ?t = "num_text base (n div base)" and ?d = "digit_char (int (n mod base))"
    have t: "num_text base n = ?t @ [?d]" using False 1(2) by (subst num_text.simps) simp
    then have l: "length ?t < 2 ^ 64" using 1(3) by simp
    have "itoa_digits (int base) str (int n) (int i) m
        = itoa_digits (int base) str (int (n div base)) (int (Suc i)) (m(str + of_nat i := ?d))"
      using False 1(2) by (subst itoa_digits.simps) (simp add: zdiv_int zmod_int signed_divide_int_def signed_modulo_int_def sgn_if add.commute)
    also have "\<dots> = Some (int (Suc i + length ?t), put (str + of_nat (Suc i)) (rev ?t) (m(str + of_nat i := ?d)))"
      by (rule 1(1)) (use False 1(2) l in auto)
    finally show ?thesis using l by (simp add: t put_Cons algebra_simps)
  qed
qed

lemma reverse_put:
  assumes "length bs < 2 ^ 64"
  shows "reverse str (int (length bs)) (put str bs m) = put str (rev bs) m"
proof
  fix x
  obtain k where k: "k < 2 ^ 64" "x = str + of_nat k"
    by (rule that [of "unat (x - str)"]) (use unsigned_less [of "x - str"] in simp_all)
  have u: "unat (of_nat j :: u64) = j" if "j < length bs \<or> j = k" for j
    using that assms k by (auto simp: unat_of_nat take_bit_nat_eq_self)
  show "reverse str (int (length bs)) (put str bs m) x = put str (rev bs) m x"
  proof (cases "k < length bs")
    case True
    then have "int (length bs) - 1 - int k = int (length bs - 1 - k)" by simp
    then have "reverse str (int (length bs)) (put str bs m) x = put str bs m (str + of_nat (length bs - 1 - k))"
      using True assms k by (simp add: reverse_def reverse_loop_bytes algebra_simps)
    also have "\<dots> = rev bs ! k"
    proof -
      have lt: "length bs - 1 - k < length bs" using True by simp
      have "unat (str + of_nat (length bs - 1 - k) - str) = length bs - 1 - k" using u lt by simp
      then show ?thesis using lt True by (simp only: put_def if_True) (simp add: rev_nth)
    qed
    finally show ?thesis using True k u [of k] by (simp add: put_def)
  next
    case False
    then show ?thesis using assms k u [of k] by (simp add: reverse_def reverse_loop_bytes put_def)
  qed
qed

lemma itoa_text:
  assumes "text \<noteq> []" "length text + 1 < 2 ^ 64"
  shows "reverse str (int (length text)) ((put str (rev text) m)(str + of_nat (length text) := 0)) = put str (text @ [0]) m"
proof -
  have len: "length (rev text) < 2 ^ 64" using assms(2) by simp
  have "(put str (rev text) m)(str + of_nat (length text) := 0) = put str (rev text) (m(str + of_nat (length text) := 0))"
    using assms(2) by (auto simp: put_def fun_eq_iff unat_of_nat take_bit_nat_eq_self)
  then have "reverse str (int (length text)) ((put str (rev text) m)(str + of_nat (length text) := 0))
      = put str text (m(str + of_nat (length text) := 0))"
    using reverse_put [OF len] by simp
  also have "\<dots> = put str (text @ [0]) m"
    using assms(2) by (subst put_snoc) (auto simp: put_def fun_eq_iff unat_of_nat take_bit_nat_eq_self)
  finally show ?thesis .
qed

text \<open>C26: \<open>itoa\<close> writes the number it is given. For every \<open>int\<close> except the most negative one, and a base from 2 to
  36 (10 for negative numbers), the conversion ends, the bytes it writes are a non-empty text without zero bytes
  followed by the terminating zero and nothing else, and reading that text back in the same base yields the
  number.\<close>

theorem itoa_roundtrip:
  assumes base: "2 \<le> base" "base \<le> 36" and num: "- (2 ^ 31) < num" "num < 2 ^ 31" "num < 0 \<longrightarrow> base = 10"
  shows "\<exists>text. itoa num str (int base) m = Inr (put str (text @ [0]) m) \<and> text \<noteq> [] \<and> 0 \<notin> set text
    \<and> text_value base text = num"
proof (cases "num = 0")
  case True
  have "text_value base [48] = 0" by (simp add: text_value_def digit_value_def)
  moreover have "itoa num str (int base) m = Inr (put str ([48] @ [0]) m)"
    using True by (simp add: itoa_def put_Cons)
  ultimately show ?thesis using True by (intro exI [of _ "[48]"]) simp
next
  case False
  let ?n = "nat \<bar>num\<bar>" and ?t = "num_text base (nat \<bar>num\<bar>)"
  let ?x = "if num < 0 then 45 # ?t else ?t"
  have n: "0 < ?n" "?n < 2 ^ 31" using False num by auto
  have l: "length ?t < 2 ^ 31" using num_text_length [of base ?n] n by linarith
  have ne: "?t \<noteq> []" using n base by (subst num_text.simps) simp
  note v = num_text_value [OF base, of ?n]
  have run: "itoa_digits (int base) str \<bar>num\<bar> 0 m = Some (int (length ?t), put str (rev ?t) m)"
    using itoa_digits_run [OF base(1), of ?n str 0 m] l by simp
  have "itoa num str (int base) m = Inr (put str (?x @ [0]) m)"
  proof (cases "num < 0")
    case True
    then have b10: "int base = 10" using num(3) by simp
    have "(put str (rev ?t) m)(str + of_nat (length ?t) := 45) = put str (rev (45 # ?t)) m"
      using put_snoc [of "rev ?t" str 45 m] l by simp
    then show ?thesis
      using True False num(1) run itoa_text [of "45 # ?t" str m] l
      by (simp add: itoa_def b10 add.commute)
  next
    case nneg: False
    then show ?thesis using False base run itoa_text [OF ne, of str m] l by (simp add: itoa_def)
  qed
  moreover have "text_value base ?x = num" using v False ne by (auto simp: text_value_def dest: hd_in_set)
  ultimately show ?thesis using v(2) ne by (intro exI [of _ ?x]) auto
qed

theorem itoa_roundtrip_witness:
  "\<exists>text. itoa (-205) 0x2000 10 (\<lambda>_. 7) = Inr (put 0x2000 (text @ [0]) (\<lambda>_. 7)) \<and> text \<noteq> [] \<and> 0 \<notin> set text
     \<and> text_value 10 text = -205"
  using itoa_roundtrip [of 10 "-205" "0x2000" "\<lambda>_. 7"] by simp

end
