(* ===== verification/Terminal.thy ===== *)
theory Terminal
  imports Libc
begin

text \<open>
  The text terminal on the framebuffer: src/src/kernel/drivers/terminal.c and drivers/video.c.

  The record \<open>console\<close> holds \<open>global_Settings.TerminalDriver\<close>, the framebuffer tag the boot loader
  passes, the glyphs of include/drivers/font.h and the bytes of the framebuffer by their offset from
  \<open>framebuffer_addr\<close>. Every \<open>uint32_t\<close> computation wraps at 32 bits. An access outside the terminal's
  character buffer is \<open>Undefined\<close>; the framebuffer is not bounded, so that a theorem can say which of
  its bytes are written.
\<close>

section \<open>Data\<close>

record TerminalState =
  current_x :: u32
  current_y :: u32
  max_x :: u32
  max_y :: u32
  terminal_buf :: "nat \<Rightarrow> u8"
  terminal_buf_size :: u32
  buffer_write_location :: u32
  color :: u32

record multiboot_tag_framebuffer_common =
  framebuffer_addr :: u64
  framebuffer_pitch :: u32
  framebuffer_width :: u32
  framebuffer_height :: u32
  framebuffer_bpp :: u8
  framebuffer_type :: u8

record console =
  TerminalDriver :: TerminalState
  framebuffer :: multiboot_tag_framebuffer_common
  BITMAP_GLOBAL :: "nat \<Rightarrow> nat \<Rightarrow> u8"
  screen :: "u64 \<Rightarrow> u8"

abbreviation term_upd :: "(TerminalState \<Rightarrow> TerminalState) \<Rightarrow> console \<Rightarrow> console" where
  "term_upd f s \<equiv> s\<lparr>TerminalDriver := f (TerminalDriver s)\<rparr>"

section \<open>video.c\<close>

text \<open>\<open>pitch * y + pixel_width * x\<close> is computed in \<open>uint32_t\<close>, the type of \<open>pitch\<close>.\<close>

definition get_pixel_index :: "u32 \<Rightarrow> u32 \<Rightarrow> console \<Rightarrow> u64" where
  "get_pixel_index x y s =
     (let pitch = framebuffer_pitch (framebuffer s); pixel_width = ucast (framebuffer_bpp (framebuffer s) div 8)
      in ucast (pitch * y + pixel_width * x))"

definition set_pixel :: "u32 \<Rightarrow> u32 \<Rightarrow> u32 \<Rightarrow> console \<Rightarrow> console" where
  "set_pixel x y col s =
     (let where = get_pixel_index x y s in
      s\<lparr>screen := (screen s)(where := ucast col, where + 1 := ucast (drop_bit 8 col), where + 2 := ucast (drop_bit 16 col))\<rparr>)"

definition RGB_COLOR :: "u8 \<Rightarrow> u8 \<Rightarrow> u8 \<Rightarrow> u32" where
  "RGB_COLOR r g b = ucast b OR push_bit 8 (ucast g) OR push_bit 16 (ucast r)"

text \<open>The cells of a character in the order of the two loops, column by column.\<close>

definition glyph_cells :: "(nat \<times> nat) list" where
  "glyph_cells = List.product [0..<8] [0..<16]"

text \<open>A glyph row is a \<open>char\<close>, sign-extended before the shift. The background is the variable
  \<open>TERMINAL_COLOR\<close> of video.c, which is 0 and never assigned.\<close>

definition draw_character :: "u32 \<Rightarrow> u32 \<Rightarrow> u32 \<Rightarrow> u8 \<Rightarrow> console \<Rightarrow> console" where
  "draw_character x y col key s =
     (if key \<ge> 97 then s
      else fold (\<lambda>(i, j) s.
        set_pixel (x + of_nat i) (y + of_nat j)
          (if bit (scast (BITMAP_GLOBAL s (unat key) j) :: u32) (8 - i) then col else 0) s) glyph_cells s)"

definition clear_screen :: "u8 \<Rightarrow> u8 \<Rightarrow> u8 \<Rightarrow> console \<Rightarrow> console" where
  "clear_screen r g b s =
     fold (\<lambda>(y, x). set_pixel (of_nat x) (of_nat y) (RGB_COLOR r g b))
       (List.product [0..<unat (framebuffer_height (framebuffer s))] [0..<unat (framebuffer_width (framebuffer s))]) s"

definition draw_rect :: "u32 \<Rightarrow> u32 \<Rightarrow> u32 \<Rightarrow> u32 \<Rightarrow> u8 \<Rightarrow> u8 \<Rightarrow> u8 \<Rightarrow> console \<Rightarrow> console" where
  "draw_rect top_left_x top_left_y width height r g b s =
     (let xmax = framebuffer_width (framebuffer s); ymax = framebuffer_height (framebuffer s) in
      if top_left_x \<ge> xmax \<or> top_left_y \<ge> ymax then s
      else fold (\<lambda>(x, y). if of_nat x \<ge> xmax \<or> of_nat y \<ge> ymax then id
                   else set_pixel (of_nat x) (of_nat y) (RGB_COLOR r g b))
        (List.product [unat top_left_x ..< unat (top_left_x + width)] [unat top_left_y ..< unat (top_left_y + height)]) s)"

section \<open>terminal.c\<close>

definition terminal_set_color :: "u8 \<Rightarrow> u8 \<Rightarrow> u8 \<Rightarrow> console \<Rightarrow> fault + unit \<times> console" where
  "terminal_set_color r g b = upd (term_upd (\<lambda>d. d\<lparr>color := RGB_COLOR r g b\<rparr>))"

definition char_code_to_fontcode :: "u8 \<Rightarrow> u8" where
  "char_code_to_fontcode c = c - 32"

definition terminal_buf_location_to_ypixel :: "console \<Rightarrow> fault + u32 \<times> console" where
  "terminal_buf_location_to_ypixel =
     seqn (ensure (\<lambda>s. max_x (TerminalDriver s) \<noteq> 0) Undefined)
    (gets (\<lambda>s. let d = TerminalDriver s; x = (buffer_write_location d * 16) mod max_x d
               in (16 * (buffer_write_location d * 16 - x)) div max_x d))"

definition terminal_buf_location_to_xpixel :: "console \<Rightarrow> fault + u32 \<times> console" where
  "terminal_buf_location_to_xpixel =
     seqn (ensure (\<lambda>s. max_x (TerminalDriver s) \<noteq> 0) Undefined)
    (gets (\<lambda>s. let d = TerminalDriver s in (buffer_write_location d * 16) mod max_x d))"

definition draw_cursor_loc :: "console \<Rightarrow> fault + unit \<times> console" where
  "draw_cursor_loc =
     bnd terminal_buf_location_to_xpixel (\<lambda>x. bnd terminal_buf_location_to_ypixel (\<lambda>y.
     upd (fold (\<lambda>(i, j). set_pixel (x + of_nat i) (y + of_nat j) (NOT 0)) glyph_cells)))"

text \<open>A read or write of the character buffer, which has \<open>terminal_buf_size\<close> bytes.\<close>

definition read_cell :: "nat \<Rightarrow> console \<Rightarrow> fault + u8 \<times> console" where
  "read_cell i = seqn (ensure (\<lambda>s. i < unat (terminal_buf_size (TerminalDriver s))) Undefined)
     (gets (\<lambda>s. terminal_buf (TerminalDriver s) i))"

definition write_cell :: "nat \<Rightarrow> u8 \<Rightarrow> console \<Rightarrow> fault + unit \<times> console" where
  "write_cell i c = seqn (ensure (\<lambda>s. i < unat (terminal_buf_size (TerminalDriver s))) Undefined)
     (upd (term_upd (\<lambda>d. d\<lparr>terminal_buf := (terminal_buf d)(i := c)\<rparr>)))"

definition terminal_scroll_down :: "console \<Rightarrow> fault + unit \<times> console" where
  "terminal_scroll_down =
     bnd (gets (\<lambda>s. (max_x (TerminalDriver s) div 16, terminal_buf_size (TerminalDriver s)))) (\<lambda>(row, sz).
     seqn (foreach [unat row ..< unat sz] (\<lambda>i. bnd (read_cell i) (write_cell (i - unat row))))
    (seqn (foreach [0..<unat row] (\<lambda>i. write_cell (unat (sz - of_nat i - 1)) 32))
          (upd (term_upd (\<lambda>d. d\<lparr>buffer_write_location := sz - row\<rparr>)))))"

definition terminal_reset :: "console \<Rightarrow> fault + unit \<times> console" where
  "terminal_reset = seqn (upd (clear_screen 0 0 0)) (upd (term_upd (\<lambda>d. d\<lparr>buffer_write_location := 0\<rparr>)))"

text \<open>The loop variable of \<open>terminal_print_buffer\<close> is \<open>buffer_write_location\<close> itself.\<close>

definition terminal_print_buffer :: "u32 \<Rightarrow> console \<Rightarrow> fault + unit \<times> console" where
  "terminal_print_buffer col =
     seqn (upd (clear_screen 0 0 0))
    (bnd (gets (\<lambda>s. buffer_write_location (TerminalDriver s))) (\<lambda>og_write_loc.
     seqn (upd (term_upd (\<lambda>d. d\<lparr>buffer_write_location := 0\<rparr>)))
          (foreach [0..<unat og_write_loc] (\<lambda>k.
             bnd terminal_buf_location_to_xpixel (\<lambda>x. bnd terminal_buf_location_to_ypixel (\<lambda>y.
             bnd (read_cell k) (\<lambda>c.
             seqn (upd (draw_character x y col (char_code_to_fontcode c)))
                  (upd (term_upd (\<lambda>d. d\<lparr>buffer_write_location := buffer_write_location d + 1\<rparr>))))))))))"

definition whiteout_cur_loc :: "console \<Rightarrow> fault + unit \<times> console" where
  "whiteout_cur_loc =
     bnd terminal_buf_location_to_xpixel (\<lambda>x. bnd terminal_buf_location_to_ypixel (\<lambda>y.
     upd (\<lambda>s. draw_character x y (color (TerminalDriver s)) (char_code_to_fontcode 32) s)))"

definition handle_endline :: "console \<Rightarrow> fault + unit \<times> console" where
  "handle_endline =
     seqn whiteout_cur_loc
    (seqn (ensure (\<lambda>s. max_x (TerminalDriver s) div 16 \<noteq> 0) Undefined)
          (upd (term_upd (\<lambda>d. let row = max_x d div 16 in
             d\<lparr>buffer_write_location := buffer_write_location d + (row - buffer_write_location d mod row)\<rparr>))))"

definition at_end :: "console \<Rightarrow> bool" where
  "at_end s \<longleftrightarrow> buffer_write_location (TerminalDriver s) \<ge> terminal_buf_size (TerminalDriver s)"

definition put_char :: "u8 \<Rightarrow> console \<Rightarrow> fault + unit \<times> console" where
  "put_char c =
     seqn (bnd (gets (\<lambda>s. unat (buffer_write_location (TerminalDriver s)))) (\<lambda>i. write_cell i c))
          (upd (term_upd (\<lambda>d. d\<lparr>buffer_write_location := buffer_write_location d + 1\<rparr>)))"

definition terminal_write_char :: "u8 \<Rightarrow> u32 \<Rightarrow> console \<Rightarrow> fault + unit \<times> console" where
  "terminal_write_char c col =
     (if c = 10
      then seqn handle_endline (bnd (gets at_end) (\<lambda>e.
           if e then seqn terminal_scroll_down (seqn (terminal_print_buffer col) draw_cursor_loc) else ret ()))
      else if c = 8
      then bnd (gets (\<lambda>s. buffer_write_location (TerminalDriver s) = 0)) (\<lambda>z.
           if z then ret ()
           else seqn whiteout_cur_loc
               (seqn (upd (term_upd (\<lambda>d. d\<lparr>buffer_write_location := buffer_write_location d - 1\<rparr>)))
                     draw_cursor_loc))
      else bnd (gets at_end) (\<lambda>e.
           if e then seqn terminal_scroll_down (seqn (put_char c) (seqn (terminal_print_buffer col) draw_cursor_loc))
           else bnd terminal_buf_location_to_xpixel (\<lambda>x. bnd terminal_buf_location_to_ypixel (\<lambda>y.
                seqn (upd (draw_character x y col (char_code_to_fontcode c)))
               (seqn (put_char c) draw_cursor_loc)))))"

text \<open>The argument is the C string, without its zero byte.\<close>

definition terminal_print_string :: "u8 list \<Rightarrow> u32 \<Rightarrow> console \<Rightarrow> fault + unit \<times> console" where
  "terminal_print_string str col = foreach str (\<lambda>c. terminal_write_char c col)"

text \<open>The digit loop of the two number formats: \<open>buf\<close> has \<open>len\<close> bytes and is filled downwards from
  \<open>buf_write_loc\<close>, a \<open>uint16_t\<close>; the text is what was written so far. Every division by 10 brings \<open>arg\<close>
  closer to 0.\<close>

function format_digits :: "nat \<Rightarrow> u16 \<Rightarrow> int \<Rightarrow> u8 list \<Rightarrow> fault + u16 \<times> u8 list" where
  "format_digits len buf_write_loc arg txt =
     (if arg = 0 then Inr (buf_write_loc, txt)
      else if unat buf_write_loc \<ge> len then Inl Undefined
      else format_digits len (buf_write_loc - 1) (arg sdiv 10) (of_int (arg smod 10 + 48) # txt))"
  by pat_completeness auto
termination
  by (relation "measure (\<lambda>(len, l, arg, txt). nat \<bar>arg\<bar>)") (auto simp: signed_divide_int_def abs_mult sgn_if)

declare format_digits.simps [simp del]

definition handle_format_int :: "int \<Rightarrow> u32 \<Rightarrow> console \<Rightarrow> fault + unit \<times> console" where
  "handle_format_int arg col =
     (if arg = 0 then terminal_write_char 48 col
      else if arg = - (2 ^ 31) then raise Undefined
      else case format_digits 13 11 \<bar>arg\<bar> [] of
        Inl e \<Rightarrow> raise e
      | Inr (l, txt) \<Rightarrow>
          if arg < 0 then (if unat l \<ge> 13 then raise Undefined else terminal_print_string (45 # txt) col)
          else terminal_print_string txt col)"

definition handle_format_long :: "int \<Rightarrow> u32 \<Rightarrow> console \<Rightarrow> fault + unit \<times> console" where
  "handle_format_long arg col =
     (if arg = 0 then terminal_write_char 48 col
      else case format_digits 14 12 arg [] of
        Inl e \<Rightarrow> raise e
      | Inr (l, txt) \<Rightarrow> terminal_print_string txt col)"

section \<open>Drawing touches only the framebuffer\<close>

definition redraw :: "console \<Rightarrow> console \<Rightarrow> bool" where
  "redraw s t \<longleftrightarrow> t = s\<lparr>screen := screen t\<rparr>"

lemma redraw_refl [simp]: "redraw s s"
  by (simp add: redraw_def)

lemma redraw_trans: "redraw s t \<Longrightarrow> redraw t u \<Longrightarrow> redraw s u"
  unfolding redraw_def by (metis console.surjective console.update_convs(4))

lemma redraw_same: "redraw s t \<Longrightarrow> TerminalDriver t = TerminalDriver s \<and> framebuffer t = framebuffer s"
  unfolding redraw_def by (metis console.select_convs(1,2) console.surjective console.update_convs(4))

lemma redraw_term: "redraw s t \<Longrightarrow> redraw (term_upd f s) (term_upd f t)"
  unfolding redraw_def by (metis (no_types) console.select_convs(1) console.surjective console.update_convs(1,4))

lemma redraw_set_pixel: "redraw s (set_pixel x y c s)"
  by (simp add: redraw_def set_pixel_def Let_def)

lemma redraw_fold: "(\<And>x s. x \<in> set xs \<Longrightarrow> redraw s (f x s)) \<Longrightarrow> redraw s (fold f xs s)"
  by (induction xs arbitrary: s) (auto intro: redraw_trans)

lemma redraw_draw_character: "redraw s (draw_character x y c k s)"
  by (auto simp: draw_character_def intro!: redraw_fold redraw_set_pixel)

lemma redraw_clear_screen: "redraw s (clear_screen r g b s)"
  by (auto simp: clear_screen_def intro!: redraw_fold redraw_set_pixel)

section \<open>The terminal as a text buffer\<close>

text \<open>A screen of at least 16 by 16 pixels whose size in pixels fits 32 bits.\<close>

definition geometry_ok :: "TerminalState \<Rightarrow> bool" where
  "geometry_ok d \<longleftrightarrow> 16 \<le> unat (max_x d) \<and> 16 \<le> unat (max_y d) \<and> unat (max_x d) * unat (max_y d) < 2 ^ 32
     \<and> terminal_buf_size d = (max_x d * max_y d) div 256"

definition term_ok :: "console \<Rightarrow> bool" where
  "term_ok s \<longleftrightarrow> geometry_ok (TerminalDriver s)
     \<and> buffer_write_location (TerminalDriver s) \<le> terminal_buf_size (TerminalDriver s)"

definition rows :: "console \<Rightarrow> nat" where "rows s = unat (max_x (TerminalDriver s)) div 16"
definition cells :: "console \<Rightarrow> nat" where "cells s = unat (terminal_buf_size (TerminalDriver s))"

definition view_text :: "console \<Rightarrow> u8 list \<times> nat" where
  "view_text s = (map (terminal_buf (TerminalDriver s)) [0..<cells s], unat (buffer_write_location (TerminalDriver s)))"

text \<open>What the terminal promises: a fixed number \<open>n\<close> of cells in rows of \<open>r\<close>, and a write position.\<close>

definition spec_scroll :: "nat \<Rightarrow> nat \<Rightarrow> u8 list \<times> nat \<Rightarrow> u8 list \<times> nat" where
  "spec_scroll n r v = (drop r (fst v) @ replicate r 32, n - r)"

definition spec_write :: "nat \<Rightarrow> nat \<Rightarrow> u8 \<Rightarrow> u8 list \<times> nat \<Rightarrow> u8 list \<times> nat" where
  "spec_write n r c v =
     (if c = 10 then let p = (snd v div r + 1) * r in if p \<ge> n then spec_scroll n r v else (fst v, p)
      else if c = 8 then (fst v, snd v - 1)
      else let w = (if snd v \<ge> n then spec_scroll n r v else v) in ((fst w)[snd w := c], snd w + 1))"

lemma geometry:
  assumes "geometry_ok (TerminalDriver s)"
  shows "0 < rows s" "rows s \<le> cells s" "max_x (TerminalDriver s) \<noteq> 0" "max_x (TerminalDriver s) div 16 \<noteq> 0"
    "unat (max_x (TerminalDriver s) div 16) = rows s" "16 * rows s \<le> unat (max_x (TerminalDriver s))"
    "256 * cells s \<le> unat (max_x (TerminalDriver s)) * unat (max_y (TerminalDriver s))" "256 * cells s < 2 ^ 32"
proof -
  let ?x = "unat (max_x (TerminalDriver s))" and ?y = "unat (max_y (TerminalDriver s))"
  have g: "16 \<le> ?x" "16 \<le> ?y" "?x * ?y < 2 ^ 32" "terminal_buf_size (TerminalDriver s) = (max_x (TerminalDriver s) * max_y (TerminalDriver s)) div 256"
    using assms by (auto simp: geometry_ok_def)
  have c: "cells s = ?x * ?y div 256"
    unfolding cells_def g(4) using g(3) by (simp add: unat_div_distrib unat_mult_nowrap)
  have "?x div 16 = ?x * 16 div 256" by simp
  also have "\<dots> \<le> ?x * ?y div 256" using g(2) by (intro div_le_mono mult_le_mono) auto
  finally show "rows s \<le> cells s" by (simp add: rows_def c)
  show r: "0 < rows s" using g(1) by (simp add: rows_def)
  show "max_x (TerminalDriver s) \<noteq> 0" using g(1) by auto
  show u: "unat (max_x (TerminalDriver s) div 16) = rows s" by (simp add: unat_div_distrib rows_def)
  then show "max_x (TerminalDriver s) div 16 \<noteq> 0" using r by auto
  show "16 * rows s \<le> ?x" by (simp add: rows_def)
  show "256 * cells s \<le> ?x * ?y" by (simp add: c)
  then show "256 * cells s < 2 ^ 32" using g(3) by linarith
qed

text \<open>Drawing operations always succeed on a screen with a width and change nothing but pixels.\<close>

definition draws :: "(console \<Rightarrow> fault + unit \<times> console) \<Rightarrow> bool" where
  "draws m \<longleftrightarrow> (\<forall>s. max_x (TerminalDriver s) \<noteq> 0 \<longrightarrow> (\<exists>t. m s = Inr ((), t) \<and> redraw s t))"

lemma drawsE:
  assumes "draws m" "max_x (TerminalDriver s) \<noteq> 0"
  obtains t where "m s = Inr ((), t)" "redraw s t"
  using assms by (auto simp: draws_def)

lemma xy_run:
  "max_x (TerminalDriver s) \<noteq> 0 \<Longrightarrow>
     \<exists>x y. bnd terminal_buf_location_to_xpixel (\<lambda>x. bnd terminal_buf_location_to_ypixel (f x)) s = f x y s"
  by (auto simp: terminal_buf_location_to_xpixel_def terminal_buf_location_to_ypixel_def op_combinators)

lemma draws_whiteout: "draws whiteout_cur_loc"
  unfolding draws_def whiteout_cur_loc_def
proof (intro allI impI)
  fix s :: console assume "max_x (TerminalDriver s) \<noteq> 0"
  from xy_run [OF this, of "\<lambda>x y. upd (\<lambda>s. draw_character x y (color (TerminalDriver s)) (char_code_to_fontcode 32) s)"]
  show "\<exists>t. bnd terminal_buf_location_to_xpixel (\<lambda>x. bnd terminal_buf_location_to_ypixel (\<lambda>y.
     upd (\<lambda>s. draw_character x y (color (TerminalDriver s)) (char_code_to_fontcode 32) s))) s = Inr ((), t) \<and> redraw s t"
    by (auto simp: upd_def redraw_draw_character)
qed

lemma draws_cursor: "draws draw_cursor_loc"
  unfolding draws_def draw_cursor_loc_def
proof (intro allI impI)
  fix s :: console assume "max_x (TerminalDriver s) \<noteq> 0"
  from xy_run [OF this, of "\<lambda>x y. upd (fold (\<lambda>(i, j). set_pixel (x + of_nat i) (y + of_nat j) (NOT 0)) glyph_cells)"]
  show "\<exists>t. bnd terminal_buf_location_to_xpixel (\<lambda>x. bnd terminal_buf_location_to_ypixel (\<lambda>y.
     upd (fold (\<lambda>(i, j). set_pixel (x + of_nat i) (y + of_nat j) (NOT 0)) glyph_cells))) s = Inr ((), t) \<and> redraw s t"
    by (auto simp: upd_def intro!: redraw_fold redraw_set_pixel)
qed

abbreviation loc :: "console \<Rightarrow> u32" where "loc s \<equiv> buffer_write_location (TerminalDriver s)"

lemma print_loop:
  assumes "max_x (TerminalDriver s) \<noteq> 0" "n \<le> cells s"
  shows "\<exists>t. foreach [0..<n] (\<lambda>k. bnd terminal_buf_location_to_xpixel (\<lambda>x. bnd terminal_buf_location_to_ypixel (\<lambda>y.
             bnd (read_cell k) (\<lambda>c.
             seqn (upd (draw_character x y col (char_code_to_fontcode c)))
                  (upd (term_upd (\<lambda>d. d\<lparr>buffer_write_location := buffer_write_location d + 1\<rparr>)))))))
           (term_upd (\<lambda>d. d\<lparr>buffer_write_location := 0\<rparr>) s) = Inr ((), t)
         \<and> redraw (term_upd (\<lambda>d. d\<lparr>buffer_write_location := of_nat n\<rparr>) s) t"
proof (rule foreach_upt_inv)
  fix k and t :: console
  assume "k < n" and r: "redraw (term_upd (\<lambda>d. d\<lparr>buffer_write_location := of_nat k\<rparr>) s) t"
  let ?step = "\<lambda>x y. bnd (read_cell k) (\<lambda>c. seqn (upd (draw_character x y col (char_code_to_fontcode c)))
      (upd (term_upd (\<lambda>d. d\<lparr>buffer_write_location := buffer_write_location d + 1\<rparr>))))"
  from redraw_same [OF r] have d: "TerminalDriver t = (TerminalDriver s)\<lparr>buffer_write_location := of_nat k\<rparr>" by simp
  with assms(1) have x: "max_x (TerminalDriver t) \<noteq> 0" by simp
  from xy_run [OF this, of ?step] obtain x y where
    run: "bnd terminal_buf_location_to_xpixel (\<lambda>x. bnd terminal_buf_location_to_ypixel (?step x)) t = ?step x y t" by auto
  let ?u = "draw_character x y col (char_code_to_fontcode (terminal_buf (TerminalDriver t) k)) t"
  have "k < unat (terminal_buf_size (TerminalDriver t))" using \<open>k < n\<close> assms(2) d by (simp add: cells_def)
  then have st: "?step x y t = Inr ((), term_upd (\<lambda>d. d\<lparr>buffer_write_location := buffer_write_location d + 1\<rparr>) ?u)"
    by (simp add: read_cell_def op_combinators)
  have "redraw (term_upd (\<lambda>d. d\<lparr>buffer_write_location := of_nat k\<rparr>) s) ?u"
    using r redraw_draw_character redraw_trans by blast
  from redraw_term [OF this, of "\<lambda>d. d\<lparr>buffer_write_location := buffer_write_location d + 1\<rparr>"]
  have "redraw (term_upd (\<lambda>d. d\<lparr>buffer_write_location := of_nat (Suc k)\<rparr>) s)
      (term_upd (\<lambda>d. d\<lparr>buffer_write_location := buffer_write_location d + 1\<rparr>) ?u)"
    by (simp add: add.commute)
  with run st show "\<exists>u. bnd terminal_buf_location_to_xpixel (\<lambda>x. bnd terminal_buf_location_to_ypixel (?step x)) t = Inr ((), u)
      \<and> redraw (term_upd (\<lambda>d. d\<lparr>buffer_write_location := of_nat (Suc k)\<rparr>) s) u" by metis
qed simp_all

lemma print_buffer_run:
  assumes "max_x (TerminalDriver s) \<noteq> 0" "unat (loc s) \<le> cells s"
  shows "\<exists>t. terminal_print_buffer col s = Inr ((), t) \<and> redraw s t"
proof -
  let ?s = "clear_screen 0 0 0 s"
  note r = redraw_clear_screen [of s 0 0 0]
  note same = redraw_same [OF r]
  have "max_x (TerminalDriver ?s) \<noteq> 0" "unat (loc s) \<le> cells ?s" using assms same by (simp_all add: cells_def)
  from print_loop [OF this, of col] obtain t where
    "terminal_print_buffer col s = Inr ((), t)" "redraw (term_upd (\<lambda>d. d\<lparr>buffer_write_location := loc s\<rparr>) ?s) t"
    using same by (auto simp: terminal_print_buffer_def op_combinators)
  moreover have "term_upd (\<lambda>d. d\<lparr>buffer_write_location := loc s\<rparr>) ?s = ?s"
    using same by (metis TerminalState.surjective TerminalState.update_convs(7) console.surjective console.update_convs(1))
  ultimately show ?thesis using r redraw_trans by metis
qed

abbreviation buf_upd :: "(nat \<Rightarrow> u8) \<Rightarrow> console \<Rightarrow> console" where
  "buf_upd b s \<equiv> term_upd (\<lambda>d. d\<lparr>terminal_buf := b\<rparr>) s"

lemma cell_run:
  "i < cells s \<Longrightarrow> read_cell i s = Inr (terminal_buf (TerminalDriver s) i, s)"
  "i < cells s \<Longrightarrow> write_cell i c s = Inr ((), buf_upd ((terminal_buf (TerminalDriver s))(i := c)) s)"
  by (simp_all add: read_cell_def write_cell_def op_combinators cells_def)

lemma scroll_copy:
  fixes s :: console
  assumes "r \<le> cells s"
  shows "\<exists>t. foreach [r..<cells s] (\<lambda>i. bnd (read_cell i) (write_cell (i - r))) s = Inr ((), t)
    \<and> t = buf_upd (\<lambda>i. if i < cells s - r then terminal_buf (TerminalDriver s) (i + r) else terminal_buf (TerminalDriver s) i) s"
proof (rule foreach_upt_inv)
  let ?b = "terminal_buf (TerminalDriver s)"
  let ?m = "\<lambda>k i. if i < k - r then ?b (i + r) else ?b i"
  fix k t
  assume k: "r \<le> k" "k < cells s" and t: "t = buf_upd (?m k) s"
  have c: "cells t = cells s" by (simp add: t cells_def)
  have "?m k k = ?b k" using k by auto
  then have "bnd (read_cell k) (write_cell (k - r)) t = Inr ((), buf_upd ((?m k)(k - r := ?b k)) s)"
    using k c by (simp add: bnd_def cell_run t)
  moreover have "(?m k)(k - r := ?b k) = ?m (Suc k)" using k by (auto simp: fun_eq_iff)
  ultimately show "\<exists>u. bnd (read_cell k) (write_cell (k - r)) t = Inr ((), u) \<and> u = buf_upd (?m (Suc k)) s" by simp
qed (use assms in simp_all)

lemma scroll_blank:
  fixes s :: console
  assumes "r \<le> cells s"
  shows "\<exists>t. foreach [0..<r] (\<lambda>i. write_cell (unat (terminal_buf_size (TerminalDriver s) - of_nat i - 1)) 32) s = Inr ((), t)
    \<and> t = buf_upd (\<lambda>i. if cells s - r \<le> i \<and> i < cells s then 32 else terminal_buf (TerminalDriver s) i) s"
proof (rule foreach_upt_inv)
  let ?b = "terminal_buf (TerminalDriver s)"
  let ?m = "\<lambda>k i. if cells s - k \<le> i \<and> i < cells s then 32 else ?b i"
  let ?z = "terminal_buf_size (TerminalDriver s)"
  fix k t
  assume k: "k < r" and t: "t = buf_upd (?m k) s"
  have c: "cells t = cells s" by (simp add: t cells_def)
  have "unat ?z < 2 ^ LENGTH(32)" by (rule unsigned_less)
  then have "k < 2 ^ 32" using k assms by (simp add: cells_def)
  then have uk: "unat (of_nat k :: u32) = k" by (simp add: unat_of_nat take_bit_nat_eq_self)
  have kz: "of_nat k \<le> ?z" "1 \<le> ?z - of_nat k"
    using k assms uk by (simp_all add: word_le_nat_alt cells_def unat_sub)
  have ix: "unat (?z - of_nat k - 1) = cells s - k - 1"
    using kz uk by (simp add: unat_sub cells_def)
  have "write_cell (unat (?z - of_nat k - 1)) 32 t = Inr ((), buf_upd ((?m k)(cells s - k - 1 := 32)) s)"
    unfolding ix using k assms c by (subst cell_run) (auto simp: t)
  moreover have "(?m k)(cells s - k - 1 := 32) = ?m (Suc k)" using k assms by (auto simp: fun_eq_iff)
  ultimately show "\<exists>u. write_cell (unat (?z - of_nat k - 1)) 32 t = Inr ((), u) \<and> u = buf_upd (?m (Suc k)) s" by simp
next
  have "(\<lambda>i. if cells s - 0 \<le> i \<and> i < cells s then 32 else terminal_buf (TerminalDriver s) i) = terminal_buf (TerminalDriver s)"
    by (auto simp: fun_eq_iff)
  then show "s = buf_upd (\<lambda>i. if cells s - 0 \<le> i \<and> i < cells s then 32 else terminal_buf (TerminalDriver s) i) s" by simp
qed simp

lemma scroll_run:
  assumes "geometry_ok (TerminalDriver s)"
  shows "\<exists>t. terminal_scroll_down s = Inr ((), t) \<and> view_text t = spec_scroll (cells s) (rows s) (view_text s)
    \<and> (\<exists>b p. t = term_upd (\<lambda>d. d\<lparr>terminal_buf := b, buffer_write_location := p\<rparr>) s)"
proof -
  note g = geometry [OF assms]
  let ?b = "terminal_buf (TerminalDriver s)" and ?n = "cells s" and ?r = "rows s"
  let ?b1 = "\<lambda>i. if i < ?n - ?r then ?b (i + ?r) else ?b i"
  let ?s1 = "buf_upd ?b1 s"
  have c1: "cells ?s1 = ?n" "terminal_buf_size (TerminalDriver ?s1) = terminal_buf_size (TerminalDriver s)" by (simp_all add: cells_def)
  let ?b2 = "\<lambda>i. if ?n - ?r \<le> i \<and> i < ?n then 32 else ?b1 i"
  let ?t = "term_upd (\<lambda>d. d\<lparr>terminal_buf := ?b2, buffer_write_location := terminal_buf_size (TerminalDriver s) - max_x (TerminalDriver s) div 16\<rparr>) s"
  have e1: "foreach [?r..<?n] (\<lambda>i. bnd (read_cell i) (write_cell (i - ?r))) s = Inr ((), ?s1)"
    using scroll_copy [OF g(2)] by simp
  have e2: "foreach [0..<?r] (\<lambda>i. write_cell (unat (terminal_buf_size (TerminalDriver s) - of_nat i - 1)) 32) ?s1 = Inr ((), buf_upd ?b2 s)"
    using scroll_blank [of ?r ?s1] g(2) by (simp add: c1 cong: if_cong)
  have run: "terminal_scroll_down s = Inr ((), ?t)"
    unfolding terminal_scroll_down_def bnd_gets case_prod_conv
    unfolding g(5) cells_def [symmetric]
    unfolding seqn_step [where m = "foreach [?r..<?n] (\<lambda>i. bnd (read_cell i) (write_cell (i - ?r)))", OF e1]
    unfolding seqn_step [where m = "foreach [0..<?r] (\<lambda>i. write_cell (unat (terminal_buf_size (TerminalDriver s) - of_nat i - 1)) 32)", OF e2]
    by (simp add: upd_def)
  have "unat (terminal_buf_size (TerminalDriver s) - max_x (TerminalDriver s) div 16) = ?n - ?r"
    using g(2,5) by (simp add: unat_sub word_le_nat_alt cells_def)
  moreover have "map ?b2 [0..<?n] = drop ?r (map ?b [0..<?n]) @ replicate ?r 32"
    using g(2) by (auto intro!: nth_equalityI simp: nth_append add.commute)
  moreover have "cells ?t = ?n" by (simp add: cells_def)
  ultimately have "view_text ?t = spec_scroll ?n ?r (view_text s)" by (simp add: view_text_def spec_scroll_def)
  with run show ?thesis by blast
qed

lemma put_char_run:
  assumes "unat (loc s) < cells s"
  shows "\<exists>t. put_char c s = Inr ((), t) \<and> view_text t = ((fst (view_text s))[snd (view_text s) := c], snd (view_text s) + 1)
    \<and> (\<exists>b p. t = term_upd (\<lambda>d. d\<lparr>terminal_buf := b, buffer_write_location := p\<rparr>) s)"
proof -
  let ?b = "(terminal_buf (TerminalDriver s))(unat (loc s) := c)"
  let ?t = "term_upd (\<lambda>d. d\<lparr>terminal_buf := ?b, buffer_write_location := buffer_write_location d + 1\<rparr>) s"
  have "put_char c s = Inr ((), ?t)"
    using cell_run(2) [OF assms, of c] by (simp add: put_char_def op_combinators)
  moreover have "unat (loc s + 1) = unat (loc s) + 1"
  proof -
    have "unat (terminal_buf_size (TerminalDriver s)) < 2 ^ LENGTH(32)" by (rule unsigned_less)
    with assms have "unat (loc s) + 1 < 2 ^ 32" by (simp add: cells_def)
    then show ?thesis by (simp add: unat_plus_nowrap)
  qed
  moreover have "map ?b [0..<cells s] = (map (terminal_buf (TerminalDriver s)) [0..<cells s])[unat (loc s) := c]"
    using assms by (auto intro!: nth_equalityI simp: nth_list_update)
  ultimately show ?thesis by (intro exI [of _ ?t]) (auto simp: view_text_def cells_def)
qed

lemma endline_run:
  assumes "term_ok s"
  shows "\<exists>t. handle_endline s = Inr ((), t) \<and> redraw (term_upd (\<lambda>d. d\<lparr>buffer_write_location := loc t\<rparr>) s) t
    \<and> unat (loc t) = (unat (loc s) div rows s + 1) * rows s"
proof -
  have geo: "geometry_ok (TerminalDriver s)" and le: "unat (loc s) \<le> cells s"
    using assms by (auto simp: term_ok_def cells_def word_le_nat_alt)
  note g = geometry [OF geo]
  from drawsE [OF draws_whiteout g(3)] obtain u where u: "whiteout_cur_loc s = Inr ((), u)" "redraw s u" .
  note same = redraw_same [OF u(2)]
  let ?r = "max_x (TerminalDriver s) div 16"
  let ?p = "loc s + (?r - loc s mod ?r)"
  have "handle_endline s = Inr ((), term_upd (\<lambda>d. d\<lparr>buffer_write_location := ?p\<rparr>) u)"
    using u(1) g(4) same by (simp add: handle_endline_def op_combinators Let_def)
  moreover have "unat ?p = (unat (loc s) div rows s + 1) * rows s"
  proof -
    have m: "unat (loc s mod ?r) = unat (loc s) mod rows s" by (simp add: unat_mod_distrib g(5))
    have lt: "unat (loc s) mod rows s < rows s" using g(1) by simp
    then have sub: "unat (?r - loc s mod ?r) = rows s - unat (loc s) mod rows s"
      using m g(5) by (simp add: unat_sub word_le_nat_alt)
    have "unat (loc s) + (rows s - unat (loc s) mod rows s) < 2 ^ 32" using le g(2,8) by linarith
    then have "unat ?p = unat (loc s) + (rows s - unat (loc s) mod rows s)"
      using sub by (subst unat_plus_nowrap) simp_all
    also have "\<dots> = (unat (loc s) div rows s + 1) * rows s"
      using lt div_mult_mod_eq [of "unat (loc s)" "rows s"] unfolding add_mult_distrib mult_1 by linarith
    finally show ?thesis .
  qed
  ultimately show ?thesis using redraw_term [OF u(2)] by fastforce
qed

text \<open>Pixels do not matter for the text.\<close>

lemma view_redraw: "redraw s t \<Longrightarrow> view_text t = view_text s \<and> cells t = cells s \<and> rows t = rows s"
  by (drule redraw_same) (simp add: view_text_def cells_def rows_def)

lemma view_len: "length (fst (view_text s)) = cells s" "snd (view_text s) = unat (loc s)"
  by (simp_all add: view_text_def)

text \<open>The tail every branch shares: the buffer is printed, then the cursor is drawn.\<close>

lemma show_run:
  assumes "max_x (TerminalDriver s) \<noteq> 0" "unat (loc s) \<le> cells s"
  shows "\<exists>t. seqn (terminal_print_buffer col) draw_cursor_loc s = Inr ((), t) \<and> redraw s t"
proof -
  from print_buffer_run [OF assms] obtain u where u: "terminal_print_buffer col s = Inr ((), u)" "redraw s u" by blast
  from assms(1) redraw_same [OF u(2)] have "max_x (TerminalDriver u) \<noteq> 0" by simp
  from drawsE [OF draws_cursor this] obtain t where "draw_cursor_loc u = Inr ((), t)" "redraw u t" .
  with u show ?thesis by (auto simp: seqn_def bnd_def intro: redraw_trans)
qed

definition steps_to :: "(console \<Rightarrow> fault + unit \<times> console) \<Rightarrow> console \<Rightarrow> u8 list \<times> nat \<Rightarrow> bool" where
  "steps_to m s v \<longleftrightarrow> (\<exists>t. m s = Inr ((), t) \<and> view_text t = v
     \<and> (\<exists>b p sc. t = s\<lparr>TerminalDriver := (TerminalDriver s)\<lparr>terminal_buf := b, buffer_write_location := p\<rparr>, screen := sc\<rparr>))"

lemma steps_to_keep:
  assumes "t = s\<lparr>TerminalDriver := (TerminalDriver s)\<lparr>terminal_buf := b, buffer_write_location := p\<rparr>, screen := sc\<rparr>"
  shows "cells t = cells s" "rows t = rows s" "geometry_ok (TerminalDriver t) = geometry_ok (TerminalDriver s)"
    "max_x (TerminalDriver t) = max_x (TerminalDriver s)"
  using assms by (simp_all add: cells_def rows_def geometry_ok_def)

lemma steps_draw:
  assumes "m s = Inr ((), t)" "redraw s t"
  shows "steps_to m s (view_text s)"
proof -
  have "t = s\<lparr>TerminalDriver := (TerminalDriver s)\<lparr>terminal_buf := terminal_buf (TerminalDriver s),
      buffer_write_location := loc s\<rparr>, screen := screen t\<rparr>"
    using assms(2) by (simp add: redraw_def)
  with assms view_redraw [OF assms(2)] show ?thesis unfolding steps_to_def by blast
qed

lemma steps_to_seq:
  assumes "steps_to m s v" and "\<And>t. cells t = cells s \<Longrightarrow> rows t = rows s \<Longrightarrow> geometry_ok (TerminalDriver t) = geometry_ok (TerminalDriver s)
      \<Longrightarrow> view_text t = v \<Longrightarrow> steps_to n t w"
  shows "steps_to (seqn m n) s w"
proof -
  from assms(1) obtain t b p sc where t: "m s = Inr ((), t)" "view_text t = v"
    "t = s\<lparr>TerminalDriver := (TerminalDriver s)\<lparr>terminal_buf := b, buffer_write_location := p\<rparr>, screen := sc\<rparr>"
    by (auto simp: steps_to_def)
  note k = steps_to_keep [OF t(3)]
  from assms(2) [OF k(1-3) t(2)] obtain u b' p' sc' where u: "n t = Inr ((), u)" "view_text u = w"
    "u = t\<lparr>TerminalDriver := (TerminalDriver t)\<lparr>terminal_buf := b', buffer_write_location := p'\<rparr>, screen := sc'\<rparr>"
    by (auto simp: steps_to_def)
  then have "u = s\<lparr>TerminalDriver := (TerminalDriver s)\<lparr>terminal_buf := b', buffer_write_location := p'\<rparr>, screen := sc'\<rparr>"
    using t(3) by simp
  with t u show ?thesis by (auto simp: steps_to_def seqn_def bnd_def)
qed

lemma at_end_view: "at_end s \<longleftrightarrow> cells s \<le> snd (view_text s)"
  by (simp add: at_end_def cells_def view_text_def word_le_nat_alt)

lemma steps_scroll: "geometry_ok (TerminalDriver s) \<Longrightarrow> steps_to terminal_scroll_down s (spec_scroll (cells s) (rows s) (view_text s))"
proof -
  assume "geometry_ok (TerminalDriver s)"
  from scroll_run [OF this] obtain t b p where t: "terminal_scroll_down s = Inr ((), t)"
    "view_text t = spec_scroll (cells s) (rows s) (view_text s)" "t = term_upd (\<lambda>d. d\<lparr>terminal_buf := b, buffer_write_location := p\<rparr>) s"
    by auto
  then have "t = s\<lparr>TerminalDriver := (TerminalDriver s)\<lparr>terminal_buf := b, buffer_write_location := p\<rparr>, screen := screen s\<rparr>" by simp
  with t show ?thesis unfolding steps_to_def by blast
qed

lemma steps_put: "snd (view_text s) < cells s \<Longrightarrow>
    steps_to (put_char c) s ((fst (view_text s))[snd (view_text s) := c], snd (view_text s) + 1)"
proof -
  assume "snd (view_text s) < cells s"
  then have "unat (loc s) < cells s" by (simp add: view_len)
  from put_char_run [OF this] obtain t b p where t: "put_char c s = Inr ((), t)"
    "view_text t = ((fst (view_text s))[snd (view_text s) := c], snd (view_text s) + 1)"
    "t = term_upd (\<lambda>d. d\<lparr>terminal_buf := b, buffer_write_location := p\<rparr>) s" by metis
  then have "t = s\<lparr>TerminalDriver := (TerminalDriver s)\<lparr>terminal_buf := b, buffer_write_location := p\<rparr>, screen := screen s\<rparr>" by simp
  with t show ?thesis unfolding steps_to_def by blast
qed

lemma steps_cursor: "geometry_ok (TerminalDriver s) \<Longrightarrow> steps_to draw_cursor_loc s (view_text s)"
  using drawsE [OF draws_cursor geometry(3)] steps_draw by metis

lemma steps_show: "geometry_ok (TerminalDriver s) \<Longrightarrow> snd (view_text s) \<le> cells s \<Longrightarrow>
    steps_to (seqn (terminal_print_buffer col) draw_cursor_loc) s (view_text s)"
  using show_run [OF geometry(3)] steps_draw by (metis view_len(2))

lemma steps_endline:
  assumes "term_ok s"
  shows "steps_to handle_endline s (fst (view_text s), (snd (view_text s) div rows s + 1) * rows s)"
proof -
  from endline_run [OF assms] obtain t where t: "handle_endline s = Inr ((), t)"
    "redraw (term_upd (\<lambda>d. d\<lparr>buffer_write_location := loc t\<rparr>) s) t" "unat (loc t) = (unat (loc s) div rows s + 1) * rows s" by blast
  have "t = s\<lparr>TerminalDriver := (TerminalDriver s)\<lparr>terminal_buf := terminal_buf (TerminalDriver s), buffer_write_location := loc t\<rparr>,
      screen := screen t\<rparr>" using t(2) by (simp add: redraw_def)
  moreover have "view_text t = (fst (view_text s), (snd (view_text s) div rows s + 1) * rows s)"
    using view_redraw [OF t(2)] t(3) by (auto simp: view_text_def cells_def simp del: map_eq_conv)
  ultimately show ?thesis using t(1) unfolding steps_to_def by blast
qed

lemma spec_scroll_len: "r \<le> n \<Longrightarrow> length (fst v) = n \<Longrightarrow> length (fst (spec_scroll n r v)) = n \<and> snd (spec_scroll n r v) = n - r"
  by (simp add: spec_scroll_def)

lemma write_newline:
  assumes "term_ok s"
  shows "steps_to (terminal_write_char 10 col) s (spec_write (cells s) (rows s) 10 (view_text s))"
proof -
  have geo: "geometry_ok (TerminalDriver s)" using assms by (simp add: term_ok_def)
  note g = geometry [OF geo]
  let ?p = "(snd (view_text s) div rows s + 1) * rows s"
  show ?thesis unfolding terminal_write_char_def if_P [OF refl]
  proof (rule steps_to_seq [OF steps_endline [OF assms]])
    fix t :: console
    assume t: "cells t = cells s" "rows t = rows s" "geometry_ok (TerminalDriver t) = geometry_ok (TerminalDriver s)"
      "view_text t = (fst (view_text s), ?p)"
    have sc: "spec_scroll (cells s) (rows s) (fst (view_text s), ?p) = spec_scroll (cells s) (rows s) (view_text s)"
      by (simp add: spec_scroll_def)
    show "steps_to (bnd (gets at_end) (\<lambda>e. if e then seqn terminal_scroll_down (seqn (terminal_print_buffer col) draw_cursor_loc) else ret ()))
        t (spec_write (cells s) (rows s) 10 (view_text s))"
    proof (cases "cells s \<le> ?p")
      case True
      have "steps_to (seqn terminal_scroll_down (seqn (terminal_print_buffer col) draw_cursor_loc)) t (spec_scroll (cells s) (rows s) (view_text s))"
      proof (rule steps_to_seq)
        show "steps_to terminal_scroll_down t (spec_scroll (cells s) (rows s) (view_text s))"
          using steps_scroll [of t] t geo sc by simp
        fix u :: console
        assume u: "cells u = cells t" "geometry_ok (TerminalDriver u) = geometry_ok (TerminalDriver t)"
          "view_text u = spec_scroll (cells s) (rows s) (view_text s)"
        then show "steps_to (seqn (terminal_print_buffer col) draw_cursor_loc) u (spec_scroll (cells s) (rows s) (view_text s))"
          using steps_show [of u col] t geo by (simp add: spec_scroll_def)
      qed
      then show ?thesis using True t by (simp add: bnd_gets at_end_view spec_write_def steps_to_def)
    next
      case False
      then show ?thesis using t steps_draw [of "ret ()" t t] by (simp add: bnd_gets at_end_view spec_write_def steps_to_def ret_def)
    qed
  qed
qed

lemma write_backspace:
  assumes "term_ok s"
  shows "steps_to (terminal_write_char 8 col) s (spec_write (cells s) (rows s) 8 (view_text s))"
proof -
  have geo: "geometry_ok (TerminalDriver s)" using assms by (simp add: term_ok_def)
  let ?m = "seqn whiteout_cur_loc (seqn (upd (term_upd (\<lambda>d. d\<lparr>buffer_write_location := buffer_write_location d - 1\<rparr>))) draw_cursor_loc)"
  have e: "terminal_write_char 8 col s = (if loc s = 0 then ret () s else ?m s)"
    by (simp add: terminal_write_char_def bnd_gets)
  show ?thesis
  proof (cases "loc s = 0")
    case True
    then show ?thesis using steps_draw [of "ret ()" s s] by (simp add: steps_to_def e ret_def spec_write_def view_text_def)
  next
    case False
    have "steps_to ?m s (fst (view_text s), snd (view_text s) - 1)"
    proof (rule steps_to_seq)
      show "steps_to whiteout_cur_loc s (view_text s)"
        using drawsE [OF draws_whiteout geometry(3) [OF geo]] steps_draw by metis
      fix t :: console
      assume t: "geometry_ok (TerminalDriver t) = geometry_ok (TerminalDriver s)" "view_text t = view_text s"
      show "steps_to (seqn (upd (term_upd (\<lambda>d. d\<lparr>buffer_write_location := buffer_write_location d - 1\<rparr>))) draw_cursor_loc)
          t (fst (view_text s), snd (view_text s) - 1)"
      proof (rule steps_to_seq)
        have nz: "loc t \<noteq> 0" using t(2) False by (metis view_len(2) unat_eq_zero)
        let ?u = "term_upd (\<lambda>d. d\<lparr>buffer_write_location := buffer_write_location d - 1\<rparr>) t"
        have "view_text ?u = (fst (view_text t), snd (view_text t) - 1)"
          using nz by (simp add: view_text_def cells_def unat_minus_one)
        moreover have "?u = t\<lparr>TerminalDriver := (TerminalDriver t)\<lparr>terminal_buf := terminal_buf (TerminalDriver t),
            buffer_write_location := loc t - 1\<rparr>, screen := screen t\<rparr>" by simp
        ultimately show "steps_to (upd (term_upd (\<lambda>d. d\<lparr>buffer_write_location := buffer_write_location d - 1\<rparr>))) t
            (fst (view_text s), snd (view_text s) - 1)"
          unfolding steps_to_def upd_def t(2) by blast
      next
        fix u :: console
        assume "geometry_ok (TerminalDriver u) = geometry_ok (TerminalDriver t)" "view_text u = (fst (view_text s), snd (view_text s) - 1)"
        then show "steps_to draw_cursor_loc u (fst (view_text s), snd (view_text s) - 1)"
          using steps_cursor [of u] t(1) geo by simp
      qed
    qed
    then show ?thesis using False by (simp add: steps_to_def e spec_write_def)
  qed
qed

lemma write_plain:
  assumes "term_ok s" "c \<noteq> 10" "c \<noteq> 8"
  shows "steps_to (terminal_write_char c col) s (spec_write (cells s) (rows s) c (view_text s))"
proof -
  have geo: "geometry_ok (TerminalDriver s)" using assms by (simp add: term_ok_def)
  note g = geometry [OF geo]
  let ?v = "if snd (view_text s) \<ge> cells s then spec_scroll (cells s) (rows s) (view_text s) else view_text s"
  let ?w = "((fst ?v)[snd ?v := c], snd ?v + 1)"
  have spec: "spec_write (cells s) (rows s) c (view_text s) = ?w" using assms by (simp add: spec_write_def Let_def)
  have fit: "snd ?v < cells s" using g(1,2) by (auto simp: spec_scroll_def)
  have put: "steps_to (seqn (put_char c) m) t ?w"
    if "cells t = cells s" "geometry_ok (TerminalDriver t)" "view_text t = ?v"
      "\<And>u. cells u = cells s \<Longrightarrow> geometry_ok (TerminalDriver u) \<Longrightarrow> view_text u = ?w \<Longrightarrow> steps_to m u ?w" for m t
  proof (rule steps_to_seq)
    show "steps_to (put_char c) t ?w" using steps_put [of t c] that(1,3) fit by simp
  qed (use that in auto)
  show ?thesis
  proof (cases "cells s \<le> snd (view_text s)")
    case True
    have "steps_to (seqn terminal_scroll_down (seqn (put_char c) (seqn (terminal_print_buffer col) draw_cursor_loc))) s ?w"
    proof (rule steps_to_seq [OF steps_scroll [OF geo]])
      fix t :: console
      assume t: "cells t = cells s" "geometry_ok (TerminalDriver t) = geometry_ok (TerminalDriver s)"
        "view_text t = spec_scroll (cells s) (rows s) (view_text s)"
      show "steps_to (seqn (put_char c) (seqn (terminal_print_buffer col) draw_cursor_loc)) t ?w"
      proof (rule put)
        fix u :: console
        assume "cells u = cells s" "geometry_ok (TerminalDriver u)" "view_text u = ?w"
        then show "steps_to (seqn (terminal_print_buffer col) draw_cursor_loc) u ?w" using steps_show [of u col] fit by simp
      qed (use t True geo in auto)
    qed
    then show ?thesis using True assms(2,3) by (simp add: steps_to_def terminal_write_char_def bnd_gets at_end_view spec)
  next
    case False
    obtain x y where xy: "bnd terminal_buf_location_to_xpixel (\<lambda>x. bnd terminal_buf_location_to_ypixel (\<lambda>y.
        seqn (upd (draw_character x y col (char_code_to_fontcode c))) (seqn (put_char c) draw_cursor_loc))) s
        = seqn (upd (draw_character x y col (char_code_to_fontcode c))) (seqn (put_char c) draw_cursor_loc) s"
      using xy_run [OF g(3), of "\<lambda>x y. seqn (upd (draw_character x y col (char_code_to_fontcode c))) (seqn (put_char c) draw_cursor_loc)"] by auto
    have "steps_to (seqn (upd (draw_character x y col (char_code_to_fontcode c))) (seqn (put_char c) draw_cursor_loc)) s ?w"
    proof (rule steps_to_seq)
      show "steps_to (upd (draw_character x y col (char_code_to_fontcode c))) s (view_text s)"
        by (rule steps_draw [OF _ redraw_draw_character]) (simp add: upd_def)
      fix t :: console
      assume t: "cells t = cells s" "geometry_ok (TerminalDriver t) = geometry_ok (TerminalDriver s)" "view_text t = view_text s"
      show "steps_to (seqn (put_char c) draw_cursor_loc) t ?w"
        by (rule put) (use t False geo in \<open>auto dest: steps_cursor\<close>)
    qed
    then show ?thesis using False assms(2,3) xy by (simp add: steps_to_def terminal_write_char_def bnd_gets at_end_view spec)
  qed
qed

lemma write_char_steps:
  assumes "term_ok s"
  shows "\<exists>t. terminal_write_char c col s = Inr ((), t) \<and> term_ok t \<and> cells t = cells s \<and> rows t = rows s
    \<and> view_text t = spec_write (cells s) (rows s) c (view_text s)
    \<and> max_x (TerminalDriver t) = max_x (TerminalDriver s) \<and> max_y (TerminalDriver t) = max_y (TerminalDriver s) \<and> framebuffer t = framebuffer s"
proof -
  have geo: "geometry_ok (TerminalDriver s)" and le: "snd (view_text s) \<le> cells s"
    using assms by (auto simp: term_ok_def cells_def view_text_def word_le_nat_alt)
  note g = geometry [OF geo]
  let ?v = "spec_write (cells s) (rows s) c (view_text s)"
  have "steps_to (terminal_write_char c col) s ?v"
    using write_newline [OF assms] write_backspace [OF assms] write_plain [OF assms] by (cases "c = 10"; cases "c = 8") auto
  then obtain t b p sc where t: "terminal_write_char c col s = Inr ((), t)" "view_text t = ?v"
    "t = s\<lparr>TerminalDriver := (TerminalDriver s)\<lparr>terminal_buf := b, buffer_write_location := p\<rparr>, screen := sc\<rparr>"
    by (auto simp: steps_to_def)
  note k = steps_to_keep [OF t(3)]
  have "snd ?v \<le> cells s" using le g(1,2) by (auto simp: spec_write_def spec_scroll_def Let_def)
  then have "term_ok t" using t(2) k geo by (simp add: term_ok_def word_le_nat_alt cells_def flip: view_len(2))
  with t k show ?thesis by simp
qed

interpretation text_terminal: stepwise "\<lambda>c. terminal_write_char c col" term_ok view_text "\<lambda>s. (cells s, rows s)" "\<lambda>(n, r). spec_write n r" for col
  by unfold_locales (use write_char_steps in fastforce)

section \<open>Properties\<close>

text \<open>C23: the terminal driver implements a text buffer of fixed size. On every screen of at least 16 by 16 pixels whose
  area fits 32 bits, printing any string returns, never reads or writes outside the character buffer, keeps the
  write position within it, and leaves the buffer and the position that the abstract terminal reaches: a character
  goes to the current cell, a newline moves to the start of the next row, a backspace goes one cell back, and
  when the last cell has been used up all rows move up by one and the last row becomes blank.\<close>

theorem terminal_print_string_refines:
  assumes "term_ok s"
  shows "\<exists>t. terminal_print_string str col s = Inr ((), t) \<and> term_ok t
    \<and> view_text t = fold (spec_write (cells s) (rows s)) str (view_text s)"
  using text_terminal.steps_refine [OF assms, of str col] by (auto simp: terminal_print_string_def)

text \<open>A screen of 32 by 32 pixels with two rows of two characters.\<close>

definition small_console :: console where
  "small_console = \<lparr>
     TerminalDriver = \<lparr>current_x = 0, current_y = 0, max_x = 32, max_y = 32, terminal_buf = (\<lambda>_. 32),
       terminal_buf_size = 4, buffer_write_location = 0, color = 0xaa613e\<rparr>,
     framebuffer = \<lparr>framebuffer_addr = 0xfd000000, framebuffer_pitch = 128, framebuffer_width = 32, framebuffer_height = 32,
       framebuffer_bpp = 32, framebuffer_type = 1\<rparr>,
     BITMAP_GLOBAL = (\<lambda>_ _. 0x7e), screen = (\<lambda>_. 0)\<rparr>"

lemma small_console_ok: "term_ok small_console" "cells small_console = 4" "rows small_console = 2"
  "view_text small_console = ([32, 32, 32, 32], 0)"
proof -
  have "[0..<4] = [0, 1, 2, 3 :: nat]" by code_simp
  then show "view_text small_console = ([32, 32, 32, 32], 0)"
    by (simp add: view_text_def cells_def small_console_def)
qed (simp_all add: term_ok_def geometry_ok_def cells_def rows_def small_console_def word_le_nat_alt)

theorem terminal_print_string_refines_witness:
  "term_ok small_console \<and> (\<exists>t. terminal_print_string [65, 10, 66, 67, 68] 1 small_console = Inr ((), t)
     \<and> view_text t = ([66, 67, 68, 32], 3))"
proof -
  have "fold (spec_write 4 2) [65, 10, 66, 67, 68] ([32, 32, 32, 32], 0) = ([66, 67, 68, 32], 3)"
    by code_simp
  with terminal_print_string_refines [OF small_console_ok(1), of "[65, 10, 66, 67, 68]" 1] small_console_ok show ?thesis by auto
qed

section \<open>The cursor below the last row\<close>

abbreviation white_cells :: "u32 \<Rightarrow> u32 \<Rightarrow> console \<Rightarrow> console" where
  "white_cells x y \<equiv> fold (\<lambda>(i, j). set_pixel (x + of_nat i) (y + of_nat j) (NOT 0)) glyph_cells"

lemma white_pixel: "screen (set_pixel x y (- 1) s) w = (if w \<in> {get_pixel_index x y s, get_pixel_index x y s + 1, get_pixel_index x y s + 2} then 255 else screen s w)"
proof -
  have "ucast (- 1 :: u32) = (255 :: u8)" "ucast (drop_bit 8 (- 1 :: u32)) = (255 :: u8)" "ucast (drop_bit 16 (- 1 :: u32)) = (255 :: u8)"
    by code_simp+
  then show ?thesis by (auto simp: set_pixel_def Let_def)
qed

lemma white_stays: "screen s w = 255 \<Longrightarrow> screen (fold (\<lambda>(i, j). set_pixel (x + of_nat i) (y + of_nat j) (NOT 0)) is s) w = 255"
  by (induction "is" arbitrary: s) (auto simp: white_pixel)

lemma white_corner: "screen (white_cells x y s) (get_pixel_index x y s) = 255"
proof -
  obtain js where g: "glyph_cells = (0, 0) # js" by (simp add: glyph_cells_def upt_conv_Cons)
  have "screen (set_pixel x y (- 1) s) (get_pixel_index x y s) = 255" by (simp add: white_pixel)
  from white_stays [OF this, of x y js] show ?thesis unfolding g by simp
qed

lemma cursor_at_end:
  assumes geo: "geometry_ok (TerminalDriver s)" and l: "loc s = terminal_buf_size (TerminalDriver s)"
    and dv: "16 dvd unat (max_x (TerminalDriver s))" "16 dvd unat (max_y (TerminalDriver s))"
  shows "draw_cursor_loc s = Inr ((), white_cells 0 (max_y (TerminalDriver s)) s)"
proof -
  let ?d = "TerminalDriver s"
  obtain a b where ab: "unat (max_x ?d) = 16 * a" "unat (max_y ?d) = 16 * b" using dv by (auto elim!: dvdE)
  have p: "unat (max_x ?d) * unat (max_y ?d) < 2 ^ 32" "16 \<le> unat (max_x ?d)" using geo by (auto simp: geometry_ok_def)
  then have a: "0 < a" using ab by simp
  have "unat (loc s) = unat (max_x ?d) * unat (max_y ?d) div 256"
    using geo p(1) unfolding l geometry_ok_def by (simp add: unat_div_distrib unat_mult_nowrap)
  then have u: "unat (loc s) = a * b" by (simp add: ab)
  have lt: "16 * (16 * (a * b)) < 2 ^ 32" using p(1) by (simp add: ab mult.commute mult.left_commute)
  have w: "unat (loc s * 16) = 16 * (a * b)" using lt u by (subst unat_mult_nowrap) (simp_all add: mult.commute)
  have "unat ((loc s * 16) mod max_x ?d) = 0"
    unfolding unat_mod_distrib w ab by simp
  then have x: "(loc s * 16) mod max_x ?d = 0" by (simp add: unat_eq_zero)
  have "unat (16 * (loc s * 16)) = 16 * (16 * (a * b))" using lt w by (subst unat_mult_nowrap) simp_all
  then have "unat (16 * (loc s * 16) div max_x ?d) = 16 * b" using a by (simp add: unat_div_distrib ab)
  then have y: "16 * (loc s * 16) div max_x ?d = max_y ?d" by (simp add: word_unat_eq_iff ab)
  show ?thesis using geometry(3) [OF geo] x y
    by (simp add: draw_cursor_loc_def terminal_buf_location_to_xpixel_def terminal_buf_location_to_ypixel_def op_combinators Let_def)
qed

text \<open>C40: the cursor leaves the framebuffer. When a character is written to the last cell of a screen whose width and
  height are multiples of 16, \<open>draw_cursor_loc\<close> is called with the write position one past the buffer and paints
  the cursor below the last row: the byte at offset \<open>pitch * height\<close>, the first one after the framebuffer, is
  overwritten with 255.\<close>

theorem cursor_leaves_framebuffer:
  assumes ok: "term_ok s" and c: "c \<noteq> 10" "c \<noteq> 8" and last: "loc s + 1 = terminal_buf_size (TerminalDriver s)"
    and dv: "16 dvd unat (max_x (TerminalDriver s))" "16 dvd unat (max_y (TerminalDriver s))"
    and fb: "framebuffer_height (framebuffer s) = max_y (TerminalDriver s)"
      "unat (framebuffer_pitch (framebuffer s)) * unat (max_y (TerminalDriver s)) < 2 ^ 32"
  shows "\<exists>t. terminal_write_char c col s = Inr ((), t) \<and>
    screen t (of_nat (unat (framebuffer_pitch (framebuffer s)) * unat (framebuffer_height (framebuffer s)))) = 255"
proof -
  have geo: "geometry_ok (TerminalDriver s)" using ok by (simp add: term_ok_def)
  note g = geometry [OF geo]
  have "0 < cells s" using g(1,2) by simp
  then have "terminal_buf_size (TerminalDriver s) \<noteq> 0" by (auto simp: cells_def)
  then have lt: "unat (loc s) < cells s" using last unat_minus_one [of "terminal_buf_size (TerminalDriver s)"]
    by (metis \<open>0 < cells s\<close> add_diff_cancel cells_def diff_less zero_less_one)
  then have ne: "\<not> at_end s" by (simp add: at_end_view view_len)
  let ?m = "\<lambda>x y. seqn (upd (draw_character x y col (char_code_to_fontcode c))) (seqn (put_char c) draw_cursor_loc)"
  from xy_run [OF g(3), of ?m] obtain x y where
    xy: "bnd terminal_buf_location_to_xpixel (\<lambda>x. bnd terminal_buf_location_to_ypixel (?m x)) s = ?m x y s" by auto
  let ?s1 = "draw_character x y col (char_code_to_fontcode c) s"
  let ?b = "(terminal_buf (TerminalDriver s))(unat (loc s) := c)"
  let ?s2 = "term_upd (\<lambda>d. d\<lparr>terminal_buf := ?b, buffer_write_location := buffer_write_location d + 1\<rparr>) ?s1"
  note same = redraw_same [OF redraw_draw_character [of s x y col "char_code_to_fontcode c"]]
  have "put_char c ?s1 = Inr ((), ?s2)"
    using cell_run(2) [of "unat (loc s)" ?s1 c] lt same by (simp add: put_char_def op_combinators cells_def)
  moreover have "draw_cursor_loc ?s2 = Inr ((), white_cells 0 (max_y (TerminalDriver s)) ?s2)"
  proof -
    have "geometry_ok (TerminalDriver ?s2)" using geo same by (simp add: geometry_ok_def)
    from cursor_at_end [OF this] show ?thesis using same last dv by simp
  qed
  ultimately have "?m x y s = Inr ((), white_cells 0 (max_y (TerminalDriver s)) ?s2)"
    by (simp add: seqn_def bnd_def upd_def)
  then have run: "terminal_write_char c col s = Inr ((), white_cells 0 (max_y (TerminalDriver s)) ?s2)"
    using c ne xy by (simp add: terminal_write_char_def bnd_gets)
  let ?p = "framebuffer_pitch (framebuffer s)" and ?h = "max_y (TerminalDriver s)"
  have u: "ucast w = (of_nat (unat w) :: u64)" for w :: u32 by simp
  have "get_pixel_index 0 ?h ?s2 = of_nat (unat (?p * ?h))"
    using same u [of "?p * ?h"] by (simp add: get_pixel_index_def Let_def)
  also have "unat (?p * ?h) = unat ?p * unat ?h" using fb(2) by (simp add: unat_mult_nowrap)
  finally have "get_pixel_index 0 ?h ?s2 = of_nat (unat ?p * unat (framebuffer_height (framebuffer s)))" by (simp only: fb(1))
  with white_corner [of 0 "max_y (TerminalDriver s)" ?s2] run show ?thesis by metis
qed

theorem cursor_leaves_framebuffer_witness:
  "let s = term_upd (\<lambda>d. d\<lparr>buffer_write_location := 3\<rparr>) small_console in
     term_ok s \<and> (\<exists>t. terminal_write_char 65 1 s = Inr ((), t) \<and> screen s 4096 = 0 \<and> screen t 4096 = 255)"
proof -
  let ?s = "term_upd (\<lambda>d. d\<lparr>buffer_write_location := 3\<rparr>) small_console"
  have ok: "term_ok ?s" by (simp add: term_ok_def geometry_ok_def small_console_def word_le_nat_alt)
  from cursor_leaves_framebuffer [OF this, of 65 1] ok show ?thesis by (simp add: small_console_def)
qed

end
