(* ===== verification/Keyboard.thy ===== *)
theory Keyboard
  imports Process_Life Terminal
begin

text \<open>
  The keyboard driver (src/src/kernel/drivers/ps2_keyboard.c and its header) and the entry points of
  the terminal that take its lock or allocate: \<open>printf\<close>, \<open>init_terminal\<close> (drivers/terminal.c) and
  \<open>video_init\<close> (drivers/video.c).

  The record \<open>io\<close> adds to the kernel state the console, the one-character buffer of the keyboard with
  its address, which is also the sleep channel of its readers, and the shift flag. The scan code a
  handler reads from port 0x60 is an argument.
\<close>

record io = user +
  con :: console
  character_buf :: u8
  character_buf_va :: u64
  shift_pressed :: bool

definition on_con :: "(console \<Rightarrow> fault + 'b \<times> console) \<Rightarrow> 'a io_scheme \<Rightarrow> fault + 'b \<times> 'a io_scheme" where
  "on_con m s = (case m (con s) of Inl e \<Rightarrow> Inl e | Inr (a, c) \<Rightarrow> Inr (a, s\<lparr>con := c\<rparr>))"

section \<open>terminal.c and video.c\<close>

definition init_terminal :: "'a io_scheme \<Rightarrow> fault + unit \<times> 'a io_scheme" where
  "init_terminal =
     seqn (init_Spinlock terminal_lock ''TERMINAL'')
    (seqn (on_con (upd (\<lambda>c. term_upd (\<lambda>d. d\<lparr>current_x := 0, current_y := 0,
             max_x := framebuffer_width (framebuffer c), max_y := framebuffer_height (framebuffer c)\<rparr>) c)))
    (seqn (on_con (upd (term_upd (\<lambda>d. d\<lparr>terminal_buf_size := (max_x d * max_y d) div (16 * 16)\<rparr>))))
    (bnd (bnd (gets (\<lambda>s. ucast (terminal_buf_size (TerminalDriver (con s))))) kalloc) (\<lambda>buf.
     seqn (on_con (upd (term_upd (\<lambda>d. d\<lparr>buffer_write_location := 0\<rparr>))))
    (seqn (ensure (\<lambda>_. buf \<noteq> 0) (Panic ''init_terminal() --> could not allocate memory for terminal driver buffer.''))
          (on_con (terminal_set_color 0xaa 0x61 0x3e)))))))"

text \<open>\<open>printf\<close>: the format is the C string without its zero byte, \<open>args\<close> the values the caller passes; taking one
  more is undefined. \<open>kstr\<close> reads the C string at an address, or faults.\<close>

fun printf_loop :: "(u64 \<Rightarrow> fault + u8 list) \<Rightarrow> u8 list \<Rightarrow> u64 list \<Rightarrow> console \<Rightarrow> fault + unit \<times> console" where
  "printf_loop kstr [] args = ret ()"
| "printf_loop kstr (c # fmt) args =
     (if c = 37
      then (case fmt of
          [] \<Rightarrow> ret ()
        | d # fmt' \<Rightarrow>
            if d = 100 then (case args of [] \<Rightarrow> raise Undefined
              | a # args' \<Rightarrow> seqn (bnd (gets (\<lambda>s. color (TerminalDriver s))) (handle_format_int (sint (ucast a :: u32))))
                                  (printf_loop kstr fmt' args'))
            else if d = 117 then (case args of [] \<Rightarrow> raise Undefined
              | a # args' \<Rightarrow> seqn (bnd (gets (\<lambda>s. color (TerminalDriver s))) (handle_format_long (sint a)))
                                  (printf_loop kstr fmt' args'))
            else if d = 115 then (case args of [] \<Rightarrow> raise Undefined
              | a # args' \<Rightarrow> (case kstr a of Inl e \<Rightarrow> raise e
                  | Inr str \<Rightarrow> seqn (bnd (gets (\<lambda>s. color (TerminalDriver s))) (terminal_print_string str))
                                     (printf_loop kstr fmt' args')))
            else printf_loop kstr fmt args)
      else seqn (bnd (gets (\<lambda>s. color (TerminalDriver s))) (terminal_write_char c)) (printf_loop kstr fmt args))"

definition printf :: "(u64 \<Rightarrow> fault + u8 list) \<Rightarrow> u8 list \<Rightarrow> u64 list \<Rightarrow> 'a io_scheme \<Rightarrow> fault + unit \<times> 'a io_scheme" where
  "printf kstr fmt args =
     seqn (acquire_Spinlock terminal_lock)
    (seqn (on_con (printf_loop kstr fmt args))
          (release_Spinlock terminal_lock))"

text \<open>The size is a 32-bit product, hence the bound in the loop test.\<close>

function video_map_loop :: "u64 \<Rightarrow> u64 \<Rightarrow> u64 \<Rightarrow> 'a paging_scheme \<Rightarrow> fault + unit \<times> 'a paging_scheme" where
  "video_map_loop fbsize mapped addr s =
     (if mapped < fbsize \<and> fbsize < 2 ^ 32
      then (case map_kernel_page (HUGEPGROUNDDOWN addr) (HUGEPGROUNDDOWN addr) ALLOC_TYPE_DM_IO s of
          Inl e \<Rightarrow> Inl e
        | Inr (ok, s1) \<Rightarrow>
            if \<not> ok then Inl (Panic ''video_init() --> map_kernel_page() failure'')
            else (case is_frame_mapped_kernel (HUGEPGROUNDDOWN addr) (pml4t_va (link s1)) s1 of
                Inl e \<Rightarrow> Inl e
              | Inr (m, s2) \<Rightarrow>
                  if \<not> m then Inl (Panic ''video_init() --> is_frame_mapped_hugepages() failure'')
                  else video_map_loop fbsize (mapped + HUGEPGSIZE) (addr + HUGEPGSIZE) s2))
      else Inr ((), s))"
  by pat_completeness auto
termination
proof (relation "measure (\<lambda>(fbsize, mapped, addr, s). unat (2 ^ 33 - mapped))", simp)
  fix fbsize mapped addr :: u64 and s s1 s2 :: "'a paging_scheme"
  assume a: "mapped < fbsize \<and> fbsize < 2 ^ 32"
  then have m: "unat mapped < 2 ^ 32" by (auto simp: word_less_nat_alt)
  then have "unat (mapped + 0x200000) = unat mapped + 0x200000" by (subst unat_plus_nowrap) simp_all
  with m show "((fbsize, mapped + HUGEPGSIZE, addr + HUGEPGSIZE, s2), fbsize, mapped, addr, s)
      \<in> measure (\<lambda>(fbsize, mapped, addr, s). unat (2 ^ 33 - mapped))"
    by (simp add: HUGEPGSIZE_def unat_sub word_le_nat_alt)
qed

declare video_map_loop.simps [simp del]

text \<open>\<open>framebuffer_pitch * framebuffer_height\<close> is a 32-bit product.\<close>

definition video_init :: "'a io_scheme \<Rightarrow> fault + unit \<times> 'a io_scheme" where
  "video_init =
     bnd (gets (\<lambda>s. framebuffer (con s))) (\<lambda>fb.
     seqn (ensure (\<lambda>_. framebuffer_type fb = 1) (Panic ''video_init() --> we currently only support direct RGB mode frame buffering.''))
          (video_map_loop (ucast (framebuffer_pitch fb * framebuffer_height fb)) 0 (framebuffer_addr fb)))"

section \<open>ps2_keyboard.c\<close>

definition key_row :: "string \<Rightarrow> u8 list" where "key_row cs = map of_char cs"

definition qwertz :: "u8 list" where
  "qwertz = [0] @ key_row ''`123456789'' @ key_row ''0-='' @ [8, 9]
     @ key_row ''qwertyuiop[]'' @ [10, 0] @ key_row ''asdfghjkl;'' @ [39, 96, 0, 92]
     @ key_row ''zxcvbnm,./'' @ [0, 42, 0, 32, 0] @ replicate 10 0 @ [0, 0]
     @ key_row ''789-456+1230.'' @ replicate 44 0"

definition shifted_qwertz :: "u8 list" where
  "shifted_qwertz = [0] @ key_row ''~!@#$%^&*('' @ key_row '')_+'' @ [8, 9]
     @ key_row ''QWERTYUIOP{}'' @ [10, 0] @ key_row ''ASDFGHJKL:'' @ [34, 126, 0, 92]
     @ key_row ''ZXCVBNM<>?'' @ [0, 42, 0, 32, 0] @ replicate 10 0 @ [0, 0]
     @ key_row ''789-456+1230'' @ [0] @ replicate 44 0"

definition PRESSED_ENTER :: u8 where "PRESSED_ENTER = 28"
definition PRESSED_LEFT_SHIFT :: u8 where "PRESSED_LEFT_SHIFT = 42"
definition PRESSED_RIGHT_SHIFT :: u8 where "PRESSED_RIGHT_SHIFT = 54"
definition RELEASED_LEFT_SHIFT :: u8 where "RELEASED_LEFT_SHIFT = 42"
definition RELEASED_RIGHT_SHIFT :: u8 where "RELEASED_RIGHT_SHIFT = 54"

definition shift_key_to_ascii :: "u8 \<Rightarrow> fault + u8" where
  "shift_key_to_ascii key = (if unat key < 128 then Inr (shifted_qwertz ! unat key) else Inl Undefined)"

definition is_ascii :: "u8 \<Rightarrow> bool" where
  "is_ascii c \<longleftrightarrow> c = 10 \<or> c = 8 \<or> (0x20 \<le> c \<and> c \<le> 0x7e)"

text \<open>The result is the return value with what \<open>outchar\<close> points to, \<open>c0\<close> before the call.\<close>

definition scancode_to_char :: "u8 \<Rightarrow> u8 \<Rightarrow> 'a io_scheme \<Rightarrow> (bool \<times> u8) \<times> 'a io_scheme" where
  "scancode_to_char scancode c0 s =
     (if scancode AND 0x80 \<noteq> 0
      then let code = scancode AND NOT 0x80 in
        ((False, c0), if code = RELEASED_LEFT_SHIFT \<or> code = RELEASED_RIGHT_SHIFT then s\<lparr>shift_pressed := False\<rparr> else s)
      else if scancode = PRESSED_ENTER then ((True, 10), s)
      else if scancode = PRESSED_LEFT_SHIFT \<or> scancode = PRESSED_RIGHT_SHIFT then ((True, c0), s\<lparr>shift_pressed := True\<rparr>)
      else ((True, if shift_pressed s then shifted_qwertz ! unat scancode else qwertz ! unat scancode), s))"

definition add_char_to_buf :: "u8 \<Rightarrow> 'a io_scheme \<Rightarrow> fault + unit \<times> 'a io_scheme" where
  "add_char_to_buf c = upd (\<lambda>s. s\<lparr>character_buf := c\<rparr>)"

text \<open>\<open>c0\<close> is what the uninitialised local \<open>c\<close> holds; it is used when a shift key is pressed.\<close>

definition keyboard_irq_handler :: "u8 \<Rightarrow> u8 \<Rightarrow> 'a io_scheme \<Rightarrow> fault + unit \<times> 'a io_scheme" where
  "keyboard_irq_handler scancode c0 s =
     (case scancode_to_char scancode c0 s of
        ((r, c), s1) \<Rightarrow>
          if r \<and> is_ascii c
          then seqn (add_char_to_buf c) (bnd (gets character_buf_va) Wakeup) s1
          else Inr ((), s1))"

text \<open>\<open>retrieve_character_buf\<close> in two pieces, like \<open>acquire_Sleeplock\<close>: \<open>Inr c\<close> is the character it returns,
  \<open>Inl b\<close> means that \<open>ThreadSleep\<close> was entered. The buffer is read and cleared after the lock is released.\<close>

definition retrieve_character_try :: "'a io_scheme \<Rightarrow> fault + (bool + u8) \<times> 'a io_scheme" where
  "retrieve_character_try =
     bnd (gets (\<lambda>s. character_buf s = 0)) (\<lambda>empty.
     if empty
     then bnd (gets character_buf_va) (\<lambda>a. bnd (ThreadSleep_begin a char_buf_spinlock) (\<lambda>b. ret (Inl b)))
     else seqn (release_Spinlock char_buf_spinlock)
         (bnd (gets character_buf) (\<lambda>c.
          seqn (upd (\<lambda>s. s\<lparr>character_buf := 0\<rparr>)) (ret (Inr c)))))"

definition retrieve_character_start :: "'a io_scheme \<Rightarrow> fault + (bool + u8) \<times> 'a io_scheme" where
  "retrieve_character_start = seqn (acquire_Spinlock char_buf_spinlock) retrieve_character_try"

definition retrieve_character_resume :: "nat \<Rightarrow> 'a io_scheme \<Rightarrow> fault + (bool + u8) \<times> 'a io_scheme" where
  "retrieve_character_resume t = seqn (ThreadSleep_end t char_buf_spinlock) retrieve_character_try"

lemma key_tables: "length qwertz = 128" "length shifted_qwertz = 128"
  by (simp_all add: qwertz_def shifted_qwertz_def key_row_def)

end
