(* ===== verification/Syscalls.thy ===== *)
theory Syscalls
  imports Keyboard
begin

text \<open>
  System calls: src/src/kernel/arch/x86_64/syscalls.c.

  A handler works on \<open>syscall_handler\<close>'s copy of the register frame; in the model it takes that frame and
  returns it. A system call either finishes, ends the thread (\<open>exit\<close>), or puts it to sleep inside the
  kernel (\<open>getchar\<close>, \<open>waitpid\<close>); the way back from sleep is a definition of its own. The file system is
  the argument \<open>F\<close>; values of uninitialised locals are arguments too.
\<close>

definition sys_exit :: u64 where "sys_exit = 0"
definition sys_sbrk :: u64 where "sys_sbrk = 1"
definition sys_tprintf :: u64 where "sys_tprintf = 2"
definition sys_open :: u64 where "sys_open = 3"
definition sys_read :: u64 where "sys_read = 4"
definition sys_fork :: u64 where "sys_fork = 6"
definition sys_exec :: u64 where "sys_exec = 7"
definition sys_free :: u64 where "sys_free = 8"
definition sys_perror :: u64 where "sys_perror = 9"
definition sys_getchar :: u64 where "sys_getchar = 10"
definition sys_waitpid :: u64 where "sys_waitpid = 11"
definition sys_fstat :: u64 where "sys_fstat = 12"
definition sys_close :: u64 where "sys_close = 13"
definition sys_clear :: u64 where "sys_clear = 15"
definition sys_tchangecolor :: u64 where "sys_tchangecolor = 0x1000"
definition sys_debugvalue :: u64 where "sys_debugvalue = 0x1111"

text \<open>What a system call does to the thread. \<open>Sleeping b\<close>: inside \<open>ThreadSleep\<close>, where \<open>b\<close> says whether the
  \<open>int3\<close> is reached.\<close>

datatype sysflow = Finished cpu_context_t | Exited | Sleeping bool

definition current_process :: "'a proc_scheme \<Rightarrow> fault + nat \<times> 'a proc_scheme" where
  "current_process = bnd GetCurrentThread (\<lambda>th. bnd (deref th) (\<lambda>t.
     bnd (gets (\<lambda>s. owner_proc (threads s t))) deref))"

definition c_string :: "u8 list \<Rightarrow> u8 list" where "c_string bs = takeWhile (\<lambda>b. b \<noteq> 0) bs"
definition to_string :: "u8 list \<Rightarrow> string" where "to_string bs = map (\<lambda>b. char_of (unat b)) bs"

section \<open>exit\<close>

text \<open>Up to the loop in which the CPU waits for the next interrupt.\<close>

definition SYSHANDLER_exit :: "'a io_scheme \<Rightarrow> fault + unit \<times> 'a io_scheme" where
  "SYSHANDLER_exit =
     seqn (acquire_Spinlock proc_table_lock)
    (bnd GetCurrentThread (\<lambda>th. bnd (deref th) (\<lambda>t.
     bnd (gets (\<lambda>s. owner_proc (threads s t))) (\<lambda>own.
     seqn (case own of None \<Rightarrow> ret ()
       | Some p \<Rightarrow>
           seqn (upd (upd_proc p (\<lambda>x. x\<lparr>thread_count := thread_count x - 1\<rparr>)))
          (bnd (gets (\<lambda>s. thread_count (procs s p) = 0)) (\<lambda>empty.
           if empty
           then seqn (ProcessFree p)
               (seqn (upd (upd_proc p (\<lambda>x. x\<lparr>proc_state := PROCESS_STATE_EXITED\<rparr>)))
                     (bnd (gets (threads_head p)) NoLockWakeup))
           else ret ())))
    (bnd get_current_cpu (\<lambda>i.
     seqn (upd (upd_cpu i (current_thread_update (\<lambda>_. None))))
    (seqn (upd (upd_thread t (\<lambda>x. x\<lparr>status := THREAD_STATE_KILLED, thread_id := UINT32_MAX\<rparr>)))
    (seqn (upd (upd_cpu i (noINT_update (\<lambda>_. False))))
    (seqn (release_Spinlock proc_table_lock)
    (seqn apic_end_of_interrupt
          (upd (sti i))))))))))))"

section \<open>sbrk and free\<close>

text \<open>The search for \<open>num_pages\<close> clear bits in a row: \<open>curr_count\<close> is the length of the current run, which
  began at \<open>start\<close>; the result adds the position at which the search stopped. Words and bits are
  scanned in order, so the two nested loops are one pass over all positions.\<close>

fun sbrk_scan :: "(nat \<Rightarrow> u64) \<Rightarrow> u64 \<Rightarrow> (nat \<times> nat) list \<Rightarrow> u32 \<Rightarrow> nat \<times> nat \<Rightarrow> u32 \<times> (nat \<times> nat) \<times> (nat \<times> nat)" where
  "sbrk_scan bitmap num_pages [] curr_count start = (curr_count, start, (0, 0))"
| "sbrk_scan bitmap num_pages ((i, bt) # ps) curr_count start =
     (let unused = \<not> bit (bitmap i) bt;
          start' = (if unused \<and> curr_count = 0 then (i, bt) else start);
          count' = (if unused then curr_count + 1 else 0)
      in if ucast count' = num_pages then (count', start', (i, bt))
         else sbrk_scan bitmap num_pages ps count' start')"

definition heap_positions :: "(nat \<times> nat) list" where
  "heap_positions = List.product [0..<512] [0..<64]"

definition sbrk_va :: "nat \<Rightarrow> nat \<Rightarrow> u64" where
  "sbrk_va i bt = USER_HEAP_START - ((PGSIZE * of_nat bt) + ((64 * PGSIZE) * of_nat i))"

text \<open>The mapping loop. The result is \<open>None\<close> when no frame is left, otherwise the last value of \<open>end\<close>.
  \<open>1 << bit\<close> is computed in \<open>int\<close> and undefined from bit 31 on.\<close>

fun sbrk_map :: "nat \<Rightarrow> nat \<Rightarrow> (nat \<times> nat) list \<Rightarrow> u64 \<Rightarrow> 'a proc_scheme \<Rightarrow> fault + u64 option \<times> 'a proc_scheme" where
  "sbrk_map t p [] stop = ret (Some stop)"
| "sbrk_map t p ((i, bt) # ps) stop =
     bnd physical_frame_request_4kb (\<lambda>pa.
     if pa = UINT64_MAX then ret None
     else seqn (ensure (\<lambda>_. bt < 31) Undefined)
         (seqn (upd (upd_proc p (\<lambda>x. x\<lparr>user_heap_bitmap := (user_heap_bitmap x)
                  (i := user_heap_bitmap x i OR push_bit bt 1)\<rparr>)))
         (seqn (map_4kb_page_user (sbrk_va i bt) pa t 3 (2 + (USER_HEAP_START - sbrk_va i bt) div HUGEPGSIZE))
               (sbrk_map t p ps (sbrk_va i bt + 0xFFF)))))"

definition sizeof_HeapAllocEntry :: u64 where "sizeof_HeapAllocEntry = 48"

definition SYSHANDLER_sbrk :: "cpu_context_t \<Rightarrow> 'a proc_scheme \<Rightarrow> fault + cpu_context_t \<times> 'a proc_scheme" where
  "SYSHANDLER_sbrk ctx =
     (let num_pages = rsi ctx div PGSIZE + 1 in
      bnd GetCurrentThread (\<lambda>th. bnd (deref th) (\<lambda>t.
      bnd (gets (\<lambda>s. owner_proc (threads s t))) (\<lambda>own. bnd (deref own) (\<lambda>p.
      bnd (gets (\<lambda>s. sbrk_scan (user_heap_bitmap (procs s p)) num_pages heap_positions 0 (0, 0)))
        (\<lambda>(curr_count, (is, bs), (ie, be)).
      if ucast curr_count \<noteq> num_pages then ret (ctx\<lparr>rax := UINT64_MAX\<rparr>)
      else let alloc_ptr = sbrk_va is bs in
        bnd (kalloc sizeof_HeapAllocEntry) (\<lambda>entry.
        bnd (sbrk_map t p (List.product [is..<Suc ie] [bs..<Suc be]) 0) (\<lambda>r. case r of
          None \<Rightarrow> ret (ctx\<lparr>rax := UINT64_MAX\<rparr>)
        | Some stop \<Rightarrow>
            seqn (ensure (\<lambda>_. entry \<noteq> 0) Undefined)
           (seqn (upd (\<lambda>s. s\<lparr>heap_alloc := (heap_alloc s)(entry := \<lparr>ha_start = alloc_ptr, ha_end = stop,
                   bit_start = of_nat bs, bit_end = of_nat be, i_start = of_nat is, i_end = of_nat ie\<rparr>)\<rparr>))
           (seqn (bnd (gets (heap_allocations_head p)) (\<lambda>h. insert_dll_entry_head h entry))
                 (ret (ctx\<lparr>rax := alloc_ptr\<rparr>))))))))))))"

definition SYSHANDLER_free :: "cpu_context_t \<Rightarrow> 'a proc_scheme \<Rightarrow> fault + cpu_context_t \<times> 'a proc_scheme" where
  "SYSHANDLER_free ctx = bnd current_process (\<lambda>p. seqn (FreeHeapAllocEntry p (rsi ctx)) (ret ctx))"

section \<open>Output\<close>

text \<open>The buffer is zeroed before the user's bytes are fetched into it, so a failed fetch prints nothing.\<close>

definition SYSHANDLER_tprintf :: "(u64 \<Rightarrow> fault + u8 list) \<Rightarrow> cpu_context_t \<Rightarrow> u64 \<Rightarrow> 'a io_scheme \<Rightarrow> fault + cpu_context_t \<times> 'a io_scheme" where
  "SYSHANDLER_tprintf kstr ctx user_pagetable =
     (if rdx ctx > PGSIZE then ret (ctx\<lparr>rax := UINT64_MAX\<rparr>)
      else bnd (FetchStruct (rsi ctx) (ucast (rdx ctx)) user_pagetable) (\<lambda>r.
        seqn (printf kstr (case r of None \<Rightarrow> [] | Some bs \<Rightarrow> c_string bs) [rcx ctx])
             (ret (ctx\<lparr>rax := 0\<rparr>))))"

definition SYSHANDLER_perror :: "(u64 \<Rightarrow> fault + u8 list) \<Rightarrow> cpu_context_t \<Rightarrow> u64 \<Rightarrow> 'a io_scheme \<Rightarrow> fault + cpu_context_t \<times> 'a io_scheme" where
  "SYSHANDLER_perror kstr ctx user_pagetable =
     seqn (if rdx ctx > 0 \<and> rdx ctx < 0x1000
           then bnd (FetchStruct (rsi ctx) (ucast (rdx ctx)) user_pagetable) (\<lambda>r.
                printf kstr (case r of None \<Rightarrow> [] | Some bs \<Rightarrow> c_string bs) [])
           else ret ())
    (bnd GetCurrentThread (\<lambda>th. bnd (deref th) (\<lambda>t. bnd (GetErrNo t) (\<lambda>e. case e of
       None \<Rightarrow> raise Undefined
     | Some msg \<Rightarrow> seqn (printf kstr (map of_char msg) []) (ret ctx)))))"

definition SYSHANDLER_clear :: "cpu_context_t \<Rightarrow> 'a io_scheme \<Rightarrow> fault + cpu_context_t \<times> 'a io_scheme" where
  "SYSHANDLER_clear ctx = seqn (on_con terminal_reset) (ret ctx)"

section \<open>Files\<close>

text \<open>\<open>req_path\<close> is a zeroed array of \<open>MAX_PATH\<close> bytes into which \<open>rdx\<close> bytes are copied. More bytes than it
  holds, or a path without a zero byte in it, are outside the array.\<close>

definition fetch_path :: "cpu_context_t \<Rightarrow> u64 \<Rightarrow> 'a user_scheme \<Rightarrow> fault + string \<times> 'a user_scheme" where
  "fetch_path ctx user_pagetable =
     bnd (FetchStruct (rsi ctx) (ucast (rdx ctx)) user_pagetable) (\<lambda>r. case r of
       None \<Rightarrow> ret ''''
     | Some bs \<Rightarrow> seqn (ensure (\<lambda>_. length bs \<le> MAX_PATH \<and> length (c_string bs) < MAX_PATH) Undefined)
                       (ret (to_string (c_string bs))))"

text \<open>The test for a free descriptor reads \<open>t->fd->in_use\<close>, the flag of descriptor 0, in every round.\<close>

definition open_slot :: "Process \<Rightarrow> nat option" where
  "open_slot x = (if \<not> fd_in_use (proc_fd x 0) then Some 0 else None)"

definition SYSHANDLER_open :: "'a io_scheme fs \<Rightarrow> cpu_context_t \<Rightarrow> u64 \<Rightarrow> 'a io_scheme \<Rightarrow> fault + cpu_context_t \<times> 'a io_scheme" where
  "SYSHANDLER_open F ctx user_pagetable =
     bnd current_process (\<lambda>p.
     bnd (fetch_path ctx user_pagetable) (\<lambda>req_path.
     bnd (gets (\<lambda>s. procs s p)) (\<lambda>x. case find (\<lambda>i. req_path = fd_path (proc_fd x i)) [0..<MAX_FILE_DESC] of
       Some i \<Rightarrow>
         seqn (upd (upd_proc p (\<lambda>x. x\<lparr>proc_fd := (proc_fd x)(i := (proc_fd x i)\<lparr>fd_in_use := True\<rparr>)\<rparr>)))
              (ret (ctx\<lparr>rax := of_nat i\<rparr>))
     | None \<Rightarrow>
         seqn apic_end_of_interrupt
        (bnd (fs_file_exists F req_path) (\<lambda>isfile.
         bnd (if isfile then ret True else fs_dir_exists F req_path) (\<lambda>found.
         if found
         then (case open_slot x of
             None \<Rightarrow> raise Undefined
           | Some i \<Rightarrow>
               seqn (upd (upd_proc p (\<lambda>x. x\<lparr>proc_fd := (proc_fd x)(i := \<lparr>fd_in_use = True, fd_path = req_path\<rparr>)\<rparr>)))
                    (ret (ctx\<lparr>rax := of_nat i\<rparr>)))
         else bnd GetCurrentThread (\<lambda>th. bnd (deref th) (\<lambda>t.
              seqn (SetErrNo t FILE_NOT_FOUND) (ret (ctx\<lparr>rax := UINT64_MAX\<rparr>))))))))))"

text \<open>The copy loop of \<open>read\<close>: 512 bytes at a time from \<open>&buf[num_read]\<close>, whatever the start offset in \<open>r8\<close>. The
  result says whether every \<open>WriteStruct\<close> succeeded.\<close>

function read_copy :: "image \<Rightarrow> u64 \<Rightarrow> u64 \<Rightarrow> u64 \<Rightarrow> u64 \<Rightarrow> 'a user_scheme \<Rightarrow> fault + bool \<times> 'a user_scheme" where
  "read_copy img user_pagetable write_dst to_read num_read s =
     (if num_read < to_read
      then let rw_size = (if to_read - num_read < 0x200 then to_read - num_read else 0x200) in
        (case WriteStruct (write_dst + num_read) (map (\<lambda>k. img (num_read + of_nat k)) [0..<unat rw_size]) (ucast rw_size) user_pagetable s of
          Inl e \<Rightarrow> Inl e
        | Inr (ok, s1) \<Rightarrow> if \<not> ok then Inr (False, s1)
            else read_copy img user_pagetable write_dst to_read (num_read + rw_size) s1)
      else Inr (True, s))"
  by pat_completeness auto
termination
proof (relation "measure (\<lambda>(img, pt, d, to_read, num_read, s). unat (to_read - num_read))", simp)
  fix img :: image and pt d to_read num_read rw :: u64 and s s1 :: "'a user_scheme"
  assume lt: "num_read < to_read" and rw: "rw = (if to_read - num_read < 0x200 then to_read - num_read else 0x200)"
  have pos: "0 < to_read - num_read" using lt by (auto simp: word_gt_0)
  have le: "rw \<le> to_read - num_read" "0 < rw" using pos rw by (auto simp: not_less)
  have "to_read - (num_read + rw) = (to_read - num_read) - rw" by (rule diff_diff_eq [symmetric])
  moreover have "unat ((to_read - num_read) - rw) = unat (to_read - num_read) - unat rw" using le by (simp add: unat_sub word_le_nat_alt)
  ultimately show "((img, pt, d, to_read, num_read + rw, s1), img, pt, d, to_read, num_read, s)
      \<in> measure (\<lambda>(img, pt, d, to_read, num_read, s). unat (to_read - num_read))"
    using le pos by (simp only: in_measure case_prod_conv word_less_nat_alt)
qed

declare read_copy.simps [simp del]

definition SYSHANDLER_read :: "'a io_scheme fs \<Rightarrow> cpu_context_t \<Rightarrow> u64 \<Rightarrow> 'a io_scheme \<Rightarrow> fault + cpu_context_t \<times> 'a io_scheme" where
  "SYSHANDLER_read F ctx user_pagetable =
     bnd current_process (\<lambda>p.
     seqn (ensure (\<lambda>_. unat (rsi ctx) < MAX_FILE_DESC) Undefined)
    (bnd (gets (\<lambda>s. proc_fd (procs s p) (unat (rsi ctx)))) (\<lambda>fd.
     if \<not> fd_in_use fd then ret (ctx\<lparr>rax := UINT64_MAX\<rparr>)
     else seqn apic_end_of_interrupt
    (bnd (fs_PathToFileSize F (fd_path fd)) (\<lambda>file_size.
     if file_size = UINT64_MAX
     then bnd GetCurrentThread (\<lambda>th. bnd (deref th) (\<lambda>t. seqn (SetErrNo t FILE_READ_ERROR) (ret (ctx\<lparr>rax := UINT64_MAX\<rparr>))))
     else let ctx1 = (if r8 ctx + rcx ctx > file_size then ctx\<lparr>rcx := file_size - r8 ctx\<rparr> else ctx) in
     bnd (fs_read_file F (fd_path fd)) (\<lambda>(buf, img).
     if buf = 0
     then bnd GetCurrentThread (\<lambda>th. bnd (deref th) (\<lambda>t. seqn (SetErrNo t FILE_READ_ERROR) (ret (ctx1\<lparr>rax := UINT64_MAX\<rparr>))))
     else bnd (read_copy img user_pagetable (rdx ctx1) (rcx ctx1) 0) (\<lambda>ok.
       seqn (kfree buf) (ret (if ok then ctx1\<lparr>rax := 0\<rparr> else ctx1\<lparr>rax := UINT64_MAX\<rparr>)))))))))"

definition sizeof_stat :: u32 where "sizeof_stat = 96"

definition SYSHANDLER_fstat :: "'a io_scheme fs \<Rightarrow> cpu_context_t \<Rightarrow> u64 \<Rightarrow> 'a io_scheme \<Rightarrow> fault + cpu_context_t \<times> 'a io_scheme" where
  "SYSHANDLER_fstat F ctx user_pagetable =
     bnd current_process (\<lambda>p.
     seqn (ensure (\<lambda>_. unat (rsi ctx) < MAX_FILE_DESC) Undefined)
    (bnd (gets (\<lambda>s. proc_fd (procs s p) (unat (rsi ctx)))) (\<lambda>fd.
     if \<not> fd_in_use fd then ret (ctx\<lparr>rax := UINT64_MAX\<rparr>)
     else seqn apic_end_of_interrupt
    (bnd (fs_file_exists F (fd_path fd)) (\<lambda>isfile.
     bnd (if isfile then ret True else fs_dir_exists F (fd_path fd)) (\<lambda>found.
     if \<not> found then ret (ctx\<lparr>rax := UINT64_MAX\<rparr>)
     else bnd (fs_fill_statbuf F (fd_path fd)) (\<lambda>r. case r of
       None \<Rightarrow> ret (ctx\<lparr>rax := UINT64_MAX\<rparr>)
     | Some statbuf \<Rightarrow>
         bnd (WriteStruct (rdx ctx) statbuf sizeof_stat user_pagetable) (\<lambda>ok.
         ret (ctx\<lparr>rax := (if ok then 0 else UINT64_MAX)\<rparr>)))))))))"

text \<open>The descriptor number is truncated to \<open>int\<close> and not checked.\<close>

definition SYSHANDLER_close :: "cpu_context_t \<Rightarrow> 'a io_scheme \<Rightarrow> fault + cpu_context_t \<times> 'a io_scheme" where
  "SYSHANDLER_close ctx =
     bnd current_process (\<lambda>p. let fd = unat (ucast (rsi ctx) :: u32) in
     seqn (ensure (\<lambda>_. fd < MAX_FILE_DESC) Undefined)
    (seqn (upd (upd_proc p (\<lambda>x. x\<lparr>proc_fd := (proc_fd x)(fd := \<lparr>fd_in_use = False, fd_path = ''''\<rparr>)\<rparr>)))
          (ret (ctx\<lparr>rax := 0\<rparr>))))"

section \<open>Processes\<close>

definition SYSHANDLER_fork :: "cpu_context_t \<Rightarrow> 'a io_scheme \<Rightarrow> fault + cpu_context_t \<times> 'a io_scheme" where
  "SYSHANDLER_fork ctx =
     bnd GetCurrentThread (\<lambda>th. bnd (deref th) (\<lambda>t.
     bnd (ForkUserProcess t ctx) (\<lambda>child_pid.
     ret (ctx\<lparr>rax := (if child_pid = UINT32_MAX then UINT64_MAX else scast child_pid)\<rparr>))))"

definition sizeof_exec_args :: u32 where "sizeof_exec_args = 4160"

text \<open>The strings of an \<open>exec_args\<close>: each begins at its 260-byte field and ends at the first zero byte, which may
  lie in a later field.\<close>

definition exec_strings :: "u8 list \<Rightarrow> nat \<Rightarrow> u8 list" where
  "exec_strings bs i = c_string (drop (260 * i) bs)"

text \<open>\<open>args0\<close> and \<open>argv0\<close> are what the uninitialised \<open>execargs\<close> and \<open>argv\<close> hold; a failed \<open>FetchStruct\<close> leaves
  \<open>execargs\<close> that way.\<close>

definition SYSHANDLER_exec :: "'a io_scheme fs \<Rightarrow> u8 list \<Rightarrow> (nat \<Rightarrow> u64) \<Rightarrow> cpu_context_t \<Rightarrow> u64
    \<Rightarrow> 'a io_scheme \<Rightarrow> fault + cpu_context_t \<times> 'a io_scheme" where
  "SYSHANDLER_exec F args0 argv0 ctx user_pagetable =
     bnd GetCurrentThread (\<lambda>th. bnd (deref th) (\<lambda>t.
     bnd (FetchString (rsi ctx) (of_nat MAX_PATH) user_pagetable) (\<lambda>r. case r of
       None \<Rightarrow> ret (ctx\<lparr>rax := UINT64_MAX\<rparr>)
     | Some path \<Rightarrow>
         seqn (ensure (\<lambda>_. length path < MAX_PATH) Undefined)
        (bnd (FetchStruct (rdx ctx) sizeof_exec_args user_pagetable) (\<lambda>a.
         let bs = (case a of None \<Rightarrow> args0 | Some bs \<Rightarrow> bs) in
         seqn apic_end_of_interrupt
        (seqn (ensure (\<lambda>_. 0 \<in> set (drop (260 * 15) bs)) Undefined)
        (bnd (ExecUserProcess F argv0 t (to_string path) (exec_strings bs) ctx) (\<lambda>(res, ctx1).
         ret (ctx1\<lparr>rax := scast res\<rparr>)))))))))"

text \<open>\<open>getchar\<close> up to the point where a character is there or the thread sleeps, and from there on. A zero
  character repeats the loop, but \<open>retrieve_character_buf\<close> does not return one.\<close>

definition getchar_flow :: "cpu_context_t \<Rightarrow> bool + u8 \<Rightarrow> sysflow" where
  "getchar_flow ctx r = (case r of Inl b \<Rightarrow> Sleeping b | Inr c \<Rightarrow> Finished (ctx\<lparr>rax := scast c\<rparr>))"

definition SYSHANDLER_getchar :: "cpu_context_t \<Rightarrow> 'a io_scheme \<Rightarrow> fault + sysflow \<times> 'a io_scheme" where
  "SYSHANDLER_getchar ctx =
     seqn apic_end_of_interrupt
    (bnd get_current_cpu (\<lambda>i. seqn (upd (sti i))
    (bnd retrieve_character_start (\<lambda>r. ret (getchar_flow ctx r)))))"

definition SYSHANDLER_getchar_resume :: "nat \<Rightarrow> cpu_context_t \<Rightarrow> 'a io_scheme \<Rightarrow> fault + sysflow \<times> 'a io_scheme" where
  "SYSHANDLER_getchar_resume t ctx = bnd (retrieve_character_resume t) (\<lambda>r. ret (getchar_flow ctx r))"

definition waitpid_try :: "cpu_context_t \<Rightarrow> nat \<Rightarrow> 'a io_scheme \<Rightarrow> fault + sysflow \<times> 'a io_scheme" where
  "waitpid_try ctx p =
     bnd (gets (\<lambda>s. proc_state (procs s p))) (\<lambda>st.
     if st \<noteq> PROCESS_STATE_EXITED
     then bnd (gets (threads_head p)) (\<lambda>ch. bnd (ThreadSleep_begin ch (pid_wait_spinlock p)) (\<lambda>b. ret (Sleeping b)))
     else seqn (release_Spinlock (pid_wait_spinlock p)) (ret (Finished ctx)))"

definition SYSHANDLER_waitpid :: "cpu_context_t \<Rightarrow> 'a io_scheme \<Rightarrow> fault + sysflow \<times> 'a io_scheme" where
  "SYSHANDLER_waitpid ctx =
     (let pid = sint (ucast (rsi ctx) :: u32) in
      if pid \<ge> 64 \<or> pid < 0 then seqn apic_end_of_interrupt (ret (Finished ctx))
      else seqn (acquire_Spinlock (pid_wait_spinlock (nat pid))) (waitpid_try ctx (nat pid)))"

definition SYSHANDLER_waitpid_resume :: "nat \<Rightarrow> nat \<Rightarrow> cpu_context_t \<Rightarrow> 'a io_scheme \<Rightarrow> fault + sysflow \<times> 'a io_scheme" where
  "SYSHANDLER_waitpid_resume t p ctx = seqn (ThreadSleep_end t (pid_wait_spinlock p)) (waitpid_try ctx p)"

section \<open>Dispatch\<close>

definition fin :: "('s \<Rightarrow> fault + cpu_context_t \<times> 's) \<Rightarrow> 's \<Rightarrow> fault + sysflow \<times> 's" where
  "fin m = bnd m (\<lambda>c. ret (Finished c))"

definition sys_switch :: "'a io_scheme fs \<Rightarrow> (u64 \<Rightarrow> fault + u8 list) \<Rightarrow> u8 list \<Rightarrow> (nat \<Rightarrow> u64) \<Rightarrow> cpu_context_t \<Rightarrow> u64
    \<Rightarrow> 'a io_scheme \<Rightarrow> fault + sysflow \<times> 'a io_scheme" where
  "sys_switch F kstr args0 argv0 ctx user_pt =
     (let n = rdi ctx in
      if n = sys_exit then seqn SYSHANDLER_exit (ret Exited)
      else if n = sys_sbrk then fin (SYSHANDLER_sbrk ctx)
      else if n = sys_tprintf then fin (SYSHANDLER_tprintf kstr ctx user_pt)
      else if n = sys_open then fin (SYSHANDLER_open F ctx user_pt)
      else if n = sys_read then fin (SYSHANDLER_read F ctx user_pt)
      else if n = sys_fork then fin (SYSHANDLER_fork ctx)
      else if n = sys_exec then fin (SYSHANDLER_exec F args0 argv0 ctx user_pt)
      else if n = sys_free then fin (SYSHANDLER_free ctx)
      else if n = sys_perror then fin (SYSHANDLER_perror kstr ctx user_pt)
      else if n = sys_getchar then SYSHANDLER_getchar ctx
      else if n = sys_waitpid then SYSHANDLER_waitpid ctx
      else if n = sys_tchangecolor then fin (seqn (on_con (terminal_set_color (ucast (rsi ctx)) (ucast (rdx ctx)) (ucast (rcx ctx)))) (ret ctx))
      else if n = sys_fstat then fin (SYSHANDLER_fstat F ctx user_pt)
      else if n = sys_close then fin (SYSHANDLER_close ctx)
      else if n = sys_clear then fin (SYSHANDLER_clear ctx)
      else ret (Finished ctx))"

definition do_eoi :: "u64 \<Rightarrow> bool" where
  "do_eoi n \<longleftrightarrow> n \<notin> {sys_open, sys_read, sys_exec, sys_getchar, sys_waitpid, sys_fstat}"

text \<open>The part after the switch.\<close>

definition syscall_leave :: "nat \<Rightarrow> u64 \<Rightarrow> u64 \<Rightarrow> 'a io_scheme \<Rightarrow> fault + unit \<times> 'a io_scheme" where
  "syscall_leave t user_pt n =
     seqn (upd (upd_thread t (\<lambda>x. x\<lparr>thread_pml4t_phys := user_pt\<rparr>)))
    (seqn (if do_eoi n then apic_end_of_interrupt else ret ())
    (seqn (load_page_table user_pt)
          (bnd get_current_cpu (\<lambda>i. upd (cli i)))))"

definition syscall_handler :: "'a io_scheme fs \<Rightarrow> (u64 \<Rightarrow> fault + u8 list) \<Rightarrow> u8 list \<Rightarrow> (nat \<Rightarrow> u64) \<Rightarrow> cpu_context_t
    \<Rightarrow> 'a io_scheme \<Rightarrow> fault + sysflow \<times> 'a io_scheme" where
  "syscall_handler F kstr args0 argv0 context =
     seqn (bnd (gets kernel_table) load_page_table)
    (bnd GetCurrentThread (\<lambda>th. bnd (deref th) (\<lambda>t.
     bnd (gets (\<lambda>s. thread_pml4t_phys (threads s t))) (\<lambda>user_pt.
     seqn (upd (\<lambda>s. upd_thread t (\<lambda>x. x\<lparr>execution_context := context, thread_pml4t_phys := kernel_table s\<rparr>) s))
    (seqn NoINT_Enable
    (bnd (sys_switch F kstr args0 argv0 context user_pt) (\<lambda>flow. case flow of
       Finished ctx \<Rightarrow> seqn (syscall_leave t user_pt (rdi context)) (ret (Finished ctx))
     | _ \<Rightarrow> ret flow)))))))"

section \<open>The search for heap pages\<close>

text \<open>Page \<open>k\<close> of the user heap and its bit.\<close>

definition heap_pos :: "nat \<Rightarrow> nat \<times> nat" where "heap_pos k = (k div 64, k mod 64)"
definition heap_page_free :: "(nat \<Rightarrow> u64) \<Rightarrow> nat \<Rightarrow> bool" where
  "heap_page_free bitmap k \<longleftrightarrow> \<not> bit (bitmap (k div 64)) (k mod 64)"

text \<open>The reference: the least \<open>k\<close> from which \<open>n\<close> of the \<open>total\<close> pages in a row are free.\<close>

definition fits_at :: "(nat \<Rightarrow> bool) \<Rightarrow> nat \<Rightarrow> nat \<Rightarrow> nat \<Rightarrow> bool" where
  "fits_at unused n amount k \<longleftrightarrow> k + n \<le> amount \<and> (\<forall>j \<in> set [0..<n]. unused (k + j))"

definition first_fit :: "(nat \<Rightarrow> bool) \<Rightarrow> nat \<Rightarrow> nat \<Rightarrow> nat option" where
  "first_fit unused n amount = find (fits_at unused n amount) [0..<amount]"

lemma heap_positions_flat: "heap_positions = map heap_pos [0..<32768]"
  unfolding heap_positions_def heap_pos_def by (rule nth_equalityI) (auto simp: product_nth)

lemma sbrk_scan_from:
  fixes num :: u64
  assumes n: "n = unat num" "0 < n" and N: "N < 2 ^ 32"
  shows "\<lbrakk>a \<le> N; r \<le> a; r < n; \<forall>j. a - r \<le> j \<and> j < a \<longrightarrow> heap_page_free bm j;
      a = r \<or> \<not> heap_page_free bm (a - r - 1); \<forall>k. \<not> fits_at (heap_page_free bm) n a k; 0 < r \<longrightarrow> st = heap_pos (a - r)\<rbrakk>
    \<Longrightarrow> case sbrk_scan bm num (map heap_pos [a..<N]) (of_nat r) st of (c, b, e) \<Rightarrow>
        (\<exists>k. fits_at (heap_page_free bm) n N k \<and> (\<forall>k' < k. \<not> fits_at (heap_page_free bm) n N k')
           \<and> ucast c = num \<and> b = heap_pos k \<and> e = heap_pos (k + n - 1))
        \<or> (\<forall>k. \<not> fits_at (heap_page_free bm) n N k) \<and> ucast c \<noteq> num"
proof (induction "N - a" arbitrary: a r st)
  case 0
  then have a: "a = N" by simp
  have "r < 2 ^ 32" using 0 N by simp
  then have "unat (ucast (of_nat r :: u32) :: u64) = r"
    by (simp add: unsigned_ucast_eq unat_of_nat take_bit_nat_eq_self)
  then have "ucast (of_nat r :: u32) \<noteq> num" using 0 n by auto
  with 0 a show ?case by simp
next
  case (Suc m)
  then have aN: "a < N" by simp
  let ?f = "heap_page_free bm"
  let ?r = "if ?f a then r + 1 else 0"
  let ?st = "if ?f a \<and> of_nat r = (0 :: u32) then heap_pos a else st"
  have up: "[a..<N] = a # [Suc a..<N]" using aN by (rule upt_conv_Cons)
  have rl: "r + 1 < 2 ^ 32" using Suc.prems aN N by simp
  then have r0: "of_nat r = (0 :: u32) \<longleftrightarrow> r = 0"
    using word_of_nat_eq_iff [of r 0, where 'a = 32] by (simp add: take_bit_nat_eq_self)
  have ur: "unat (ucast (of_nat ?r :: u32) :: u64) = ?r"
    using rl by (auto simp: unsigned_ucast_eq unat_of_nat take_bit_nat_eq_self simp flip: of_nat_Suc)
  have stop: "ucast (of_nat ?r :: u32) = num \<longleftrightarrow> ?r = n"
    unfolding word_unat_eq_iff ur n(1) ..
  have step: "sbrk_scan bm num (map heap_pos [a..<N]) (of_nat r) st
      = (if ?r = n then (of_nat ?r, ?st, heap_pos a) else sbrk_scan bm num (map heap_pos [Suc a..<N]) (of_nat ?r) ?st)"
  proof (cases "?f a")
    case True
    then have "\<not> bit (bm (a div 64)) (a mod 64)" by (simp add: heap_page_free_def)
    with True stop show ?thesis unfolding up by (simp add: heap_pos_def Let_def add.commute del: upt_Suc) auto
  next
    case False
    then have "bit (bm (a div 64)) (a mod 64)" by (simp add: heap_page_free_def)
    with False stop show ?thesis unfolding up by (simp add: heap_pos_def Let_def del: upt_Suc)
  qed
  have st': "0 < ?r \<longrightarrow> ?st = heap_pos (Suc a - ?r)" using Suc.prems r0 by auto
  have run: "\<forall>j. Suc a - ?r \<le> j \<and> j < Suc a \<longrightarrow> ?f j"
  proof (cases "?f a")
    case True
    then show ?thesis using Suc.prems(2,4) by (auto simp: less_Suc_eq)
  qed auto
  show ?case
  proof (cases "?r = n")
    case True
    then have k: "Suc a - n + n = Suc a" "?r \<le> Suc a" using Suc.prems(2) n(2) by (auto split: if_splits)
    have "?f (Suc a - n + j)" if "j < n" for j
      using run k(1) that unfolding True by (metis le_add1 nat_add_left_cancel_less)
    then have "fits_at ?f n N (Suc a - n)" using k(1) aN unfolding fits_at_def by (metis Suc_leI atLeastLessThan_iff atLeastLessThan_upt)
    moreover have "\<not> fits_at ?f n N k'" if "k' < Suc a - n" for k'
      using Suc.prems(6) that k(1) by (auto simp: fits_at_def)
    moreover have "?st = heap_pos (Suc a - n)" "heap_pos a = heap_pos (Suc a - n + n - 1)" using st' True n(2) k by auto
    moreover have "ucast (of_nat ?r :: u32) = num" using stop True by simp
    ultimately show ?thesis unfolding step using True by auto
  next
    case False
    have f1: "?r < n" using False Suc.prems(3) n(2) by auto
    have f2: "Suc a = ?r \<or> \<not> ?f (Suc a - ?r - 1)" using Suc.prems(5) by auto
    have f3: "\<forall>k. \<not> fits_at ?f n (Suc a) k"
    proof (intro allI notI)
      fix k assume k: "fits_at ?f n (Suc a) k"
      then have "k + n = Suc a" using Suc.prems(6) by (auto simp: fits_at_def le_Suc_eq)
      with k have all: "?f j" if "k \<le> j" "j \<le> a" for j using that by (auto simp: fits_at_def dest!: bspec [of _ _ "j - k"])
      with \<open>k + n = Suc a\<close> n(2) have "?f a" by simp
      then have "r + 1 < n" using False Suc.prems(3) by simp
      then have "k \<le> a - r - 1" "a \<noteq> r" using \<open>k + n = Suc a\<close> by auto
      then show False using Suc.prems(5) all [of "a - r - 1"] by simp
    qed
    have m: "m = N - Suc a" "Suc a \<le> N" "?r \<le> Suc a" using Suc.hyps(2) Suc.prems(2) aN by auto
    have "case sbrk_scan bm num (map heap_pos [Suc a..<N]) (of_nat ?r) ?st of (c, b, e) \<Rightarrow>
        (\<exists>k. fits_at ?f n N k \<and> (\<forall>k' < k. \<not> fits_at ?f n N k') \<and> ucast c = num \<and> b = heap_pos k \<and> e = heap_pos (k + n - 1))
        \<or> (\<forall>k. \<not> fits_at ?f n N k) \<and> ucast c \<noteq> num"
      by (rule Suc.hyps(1)) (fact m f1 run f2 f3 st')+
    then show ?thesis unfolding step using False by simp
  qed
qed

lemma scan_reference:
  fixes num :: u64
  assumes "num \<noteq> 0"
  shows "case (first_fit (heap_page_free bm) (unat num) 32768, sbrk_scan bm num heap_positions 0 st) of
      (Some k, (c, b, e)) \<Rightarrow> ucast c = num \<and> b = heap_pos k \<and> e = heap_pos (k + unat num - 1)
    | (None, (c, b, e)) \<Rightarrow> ucast c \<noteq> num"
proof -
  let ?f = "fits_at (heap_page_free bm) (unat num) 32768"
  have n: "0 < unat num" using assms by (simp add: unat_gt_0)
  obtain c b e where res: "sbrk_scan bm num heap_positions 0 st = (c, b, e)" by (metis prod_cases3)
  have "\<forall>k. \<not> fits_at (heap_page_free bm) (unat num) 0 k" using n by (auto simp: fits_at_def)
  then have main: "(\<exists>k. ?f k \<and> (\<forall>k' < k. \<not> ?f k') \<and> ucast c = num \<and> b = heap_pos k \<and> e = heap_pos (k + unat num - 1))
      \<or> (\<forall>k. \<not> ?f k) \<and> ucast c \<noteq> num"
    using sbrk_scan_from [OF refl n, of 32768 0 0 bm st] n res by (simp add: heap_positions_flat)
  show ?thesis
  proof (cases "first_fit (heap_page_free bm) (unat num) 32768")
    case None
    then have "\<not> ?f k" for k using n by (auto simp: first_fit_def find_None_iff fits_at_def)
    then show ?thesis using main None res by simp
  next
    case (Some k)
    then obtain i where i: "i < 32768" "?f i" "k = i" "\<forall>j < i. \<not> ?f j" by (auto simp: first_fit_def find_Some_iff)
    from main i(2) obtain k' where k': "?f k'" "\<forall>j < k'. \<not> ?f j" "ucast c = num" "b = heap_pos k'" "e = heap_pos (k' + unat num - 1)"
      by blast
    then have "k' = k" using i by (metis linorder_neqE_nat)
    with k' Some res show ?thesis by simp
  qed
qed

text \<open>C19: the bitmap search of \<open>sbrk\<close> is first fit. For every bitmap and every number of pages, the two nested loops of
  \<open>SYSHANDLER_sbrk\<close>, which count free bits in a row and start again at a used one, find a run exactly when the
  reference search over all 32768 pages finds one, and then report the first page and the last page of the
  lowest run; otherwise the count they end with differs from the request, and \<open>sbrk\<close> fails.\<close>

theorem sbrk_scan_first_fit:
  fixes num :: u64
  assumes "num \<noteq> 0"
  shows "case (first_fit (heap_page_free bm) (unat num) 32768, sbrk_scan bm num heap_positions 0 st) of
      (Some k, (c, b, e)) \<Rightarrow> ucast c = num \<and> b = heap_pos k \<and> e = heap_pos (k + unat num - 1)
    | (None, (c, b, e)) \<Rightarrow> ucast c \<noteq> num"
  by (rule scan_reference [OF assms])

theorem sbrk_scan_first_fit_witness:
  "(3 :: u64) \<noteq> 0 \<and> (\<exists>c. sbrk_scan (\<lambda>i. if i = 0 then 0b1011 else 0) 3 heap_positions 0 (0, 0) = (c, (0, 4), (0, 6))
     \<and> ucast c = (3 :: u64))"
proof -
  let ?bm = "\<lambda>i. if i = 0 then 0b1011 else 0 :: u64"
  have u: "[0..<3] = [0, 1, 2 :: nat]" "[0..<4] = [0, 1, 2, 3 :: nat]" by code_simp+
  have "\<forall>j \<in> set [0..<4]. \<not> fits_at (heap_page_free ?bm) 3 32768 j" "fits_at (heap_page_free ?bm) 3 32768 4"
    unfolding fits_at_def u by (simp_all add: heap_page_free_def)
  then have "first_fit (heap_page_free ?bm) 3 32768 = Some 4"
    unfolding first_fit_def find_Some_iff by (intro exI [of _ 4]) simp
  then have "case sbrk_scan ?bm 3 heap_positions 0 (0, 0) of (c, b, e) \<Rightarrow> ucast c = (3 :: u64) \<and> b = heap_pos 4 \<and> e = heap_pos 6"
    using sbrk_scan_first_fit [of 3 ?bm "(0, 0)"] by simp
  then show ?thesis by (simp add: heap_pos_def split: prod.splits)
qed

section \<open>Runs that cross a word of the bitmap\<close>

lemma GetCurrentThread_run: "registered s i \<Longrightarrow> GetCurrentThread s = Inr (current_thread (cpus s ! i), s)"
  by (simp add: GetCurrentThread_def bnd_step [OF get_current_cpu_registered] gets_def)

lemma deref_Some: "bnd (deref (Some x)) f s = f x s"
  by (simp add: deref_def bnd_ret)

text \<open>\<open>sbrk\<close> can hand out memory it never maps. When the run it finds begins at a higher bit of its first word than
  it ends at in its last word, the loop over the bits from \<open>bit_start\<close> to \<open>end_bit\<close> is empty: the call reports
  success with the address of the run, but no page is mapped, no page table entry changes and no bit of the
  heap bitmap is set, so the next request can be given the same address.\<close>

theorem sbrk_maps_nothing:
  fixes s :: "'a proc_scheme"
  assumes n_def: "n = rsi ctx div PGSIZE + 1" and reg: "registered s i" "current_thread (cpus s ! i) = Some t" and own: "owner_proc (threads s t) = Some p"
    and fit: "first_fit (heap_page_free (user_heap_bitmap (procs s p))) (unat n) 32768 = Some k"
    and cross: "(k + unat n - 1) mod 64 < k mod 64" and n: "n \<noteq> 0"
    and al: "kalloc sizeof_HeapAllocEntry s = Inr (e, s1)" "e \<noteq> 0"
    and hd: "heap_allocations_head p s1 \<noteq> 0" "dll_first s1 (heap_allocations_head p s1) \<noteq> 0 \<or> dll_last s1 (heap_allocations_head p s1) = 0"
  shows "\<exists>u. SYSHANDLER_sbrk ctx s = Inr (ctx\<lparr>rax := sbrk_va (k div 64) (k mod 64)\<rparr>, u) \<and> procs u = procs s \<and> qmem u = qmem s"
proof -
  let ?bm = "user_heap_bitmap (procs s p)"
  obtain c where scan: "sbrk_scan ?bm n heap_positions 0 (0, 0)
      = (c, (k div 64, k mod 64), ((k + unat n - 1) div 64, (k + unat n - 1) mod 64))" "ucast c = n"
    using scan_reference [OF n, of ?bm "(0, 0)"] fit by (auto simp: heap_pos_def split: prod.splits)
  let ?h = "heap_allocations_head p s1"
  let ?s2 = "s1\<lparr>heap_alloc := (heap_alloc s1)(e := \<lparr>ha_start = sbrk_va (k div 64) (k mod 64), ha_end = 0,
      bit_start = of_nat (k mod 64), bit_end = of_nat ((k + unat n - 1) mod 64), i_start = of_nat (k div 64),
      i_end = of_nat ((k + unat n - 1) div 64)\<rparr>)\<rparr>"
  have h2: "heap_allocations_head p ?s2 = ?h" by (simp add: heap_allocations_head_def)
  have "\<exists>u. insert_dll_entry_head ?h e ?s2 = Inr ((), u)"
    using hd al(2) by (auto simp: insert_dll_entry_head_def Let_def)
  then obtain u where u: "insert_dll_entry_head ?h e ?s2 = Inr ((), u)" by blast
  have none: "sbrk_map t p (List.product [k div 64..<Suc ((k + unat n - 1) div 64)] [k mod 64..<Suc ((k + unat n - 1) mod 64)]) 0
      = ret (Some 0)"
  proof -
    have "List.product xs ([] :: nat list) = []" for xs :: "nat list" by (induction xs) simp_all
    moreover have "[k mod 64..<Suc ((k + unat n - 1) mod 64)] = []" using cross by simp
    ultimately show ?thesis by simp
  qed
  have "SYSHANDLER_sbrk ctx s = Inr (ctx\<lparr>rax := sbrk_va (k div 64) (k mod 64)\<rparr>, u)"
    unfolding SYSHANDLER_sbrk_def Let_def n_def [symmetric] bnd_step [where m = GetCurrentThread, OF GetCurrentThread_run [OF reg(1)]]
      reg(2) deref_Some bnd_gets own scan case_prod_conv none
    using al u scan(2) h2
    by (simp add: bnd_step [where m = "kalloc sizeof_HeapAllocEntry", OF al(1)] op_combinators)
  moreover have "tables u = tables s"
    using keepsD [OF tables_kalloc al(1)] keepsD [OF tables_insert_head u] by (simp add: tables_def)
  ultimately show ?thesis by (auto simp: tables_def)
qed

definition worn_heap :: "nat \<Rightarrow> Process" where
  "worn_heap = (\<lambda>_. zero_process\<lparr>user_heap_bitmap := (\<lambda>i. if i = 0 then mask 21 else 0)\<rparr>)"

lemma worn_heap_fit: "first_fit (heap_page_free (user_heap_bitmap (worn_heap 0))) 50 32768 = Some 21"
proof -
  have f: "heap_page_free (user_heap_bitmap (worn_heap 0)) k \<longleftrightarrow> 21 \<le> k" for k
    by (cases "k div 64 = 0") (auto simp: heap_page_free_def worn_heap_def bit_mask_iff zero_process_def)
  have "fits_at (heap_page_free (user_heap_bitmap (worn_heap 0))) 50 32768 21" by (simp add: fits_at_def f)
  moreover have "\<not> fits_at (heap_page_free (user_heap_bitmap (worn_heap 0))) 50 32768 j" if "j < 21" for j
    using that by (auto simp: fits_at_def f intro!: bexI [of _ 0])
  ultimately show ?thesis unfolding first_fit_def find_Some_iff by (intro exI [of _ 21]) simp
qed

theorem sbrk_maps_nothing_witness:
  "\<exists>u. SYSHANDLER_sbrk (zero_context\<lparr>rdi := sys_sbrk, rsi := 49 * 4096\<rparr>) ((machine [Some 0] user_threads)\<lparr>procs := worn_heap\<rparr>)
     = Inr (zero_context\<lparr>rdi := sys_sbrk, rsi := 49 * 4096, rax := USER_HEAP_START - 21 * 4096\<rparr>, u) \<and> procs u = worn_heap"
proof -
  let ?s = "(machine [Some 0] user_threads)\<lparr>procs := worn_heap\<rparr>"
  let ?ctx = "zero_context\<lparr>rdi := sys_sbrk, rsi := 49 * 4096\<rparr>"
  have reg: "registered ?s 0" "current_thread (cpus ?s ! 0) = Some 0" "owner_proc (threads ?s 0) = Some 0"
    using machine_registered [of "[Some 0]" user_threads] by (auto simp: registered_def user_threads_def)
  have n: "rsi ?ctx div PGSIZE + 1 = 50" by (simp add: PGSIZE_def)
  have k4: "kheap_inv ?s" "lock_free KernelHeapLock ?s" "no_return ?s = Some UINT64_MAX"
    "candidate (heap_tree ?s) 48 0 16384" "lists ?s = ((\<lambda>_. 0), (\<lambda>_. 0), (\<lambda>_. 0), boot_link)"
    using kheap_inv_boot boot_candidate_small machine_registered [of "[Some 0]" user_threads]
    by (auto simp: kheap_inv_def lock_free_def registered_def boot_cpu_def lists_def boot_kheap_env)
  from fresh_kalloc [OF k4(1-4)] obtain a t where k: "kalloc 48 ?s = Inr (a, t)" "a \<noteq> 0" by blast
  have lt: "dll_next t = (\<lambda>_. 0)" "dll_prev t = (\<lambda>_. 0)" "link t = boot_link"
    using keepsD [OF lists_kalloc k(1)] k4(5) by (simp_all add: lists_def)
  have h: "heap_allocations_head 0 t \<noteq> 0" by (simp add: heap_allocations_head_def lt boot_link_def)
  have "\<exists>u. SYSHANDLER_sbrk ?ctx ?s = Inr (?ctx\<lparr>rax := sbrk_va (21 div 64) (21 mod 64)\<rparr>, u) \<and> procs u = procs ?s \<and> qmem u = qmem ?s"
    by (rule sbrk_maps_nothing [OF n [symmetric] reg, of 21 a t])
       (use worn_heap_fit k h lt in \<open>simp_all add: sizeof_HeapAllocEntry_def\<close>)
  then show ?thesis by (auto simp: sbrk_va_def PGSIZE_def)
qed

section \<open>Opening a second file\<close>

lemma eoi_run: "registered s i \<Longrightarrow> \<exists>t. apic_end_of_interrupt s = Inr ((), t)"
  by (simp add: apic_end_of_interrupt_def NoINT_Disable_def seqn_upd get_current_cpu_def registered_def op_combinators)

lemma current_process_run:
  "registered s i \<Longrightarrow> current_thread (cpus s ! i) = Some t \<Longrightarrow> owner_proc (threads s t) = Some p \<Longrightarrow> current_process s = Inr (p, s)"
  by (simp add: current_process_def bnd_step [OF GetCurrentThread_run] deref_def bnd_ret bnd_gets ret_def)

text \<open>A process can have only one open file. The loop of \<open>SYSHANDLER_open\<close> looks for a free descriptor in
  \<open>t->fd->in_use\<close>, which is the flag of descriptor 0. Once descriptor 0 is in use, opening any other file that
  exists leaves \<open>min_fd\<close> at \<open>UINT32_MAX\<close> and writes outside the array of descriptors.\<close>

theorem open_second_file_undefined:
  fixes s :: "'a io_scheme"
  assumes reg: "registered s i" "current_thread (cpus s ! i) = Some t" and own: "owner_proc (threads s t) = Some p"
    and path: "fetch_path ctx pt s = Inr (path, s1)" and reg1: "registered s1 j"
    and other: "\<forall>i < MAX_FILE_DESC. path \<noteq> fd_path (proc_fd (procs s1 p) i)" and used: "fd_in_use (proc_fd (procs s1 p) 0)"
    and ex: "\<forall>s'. \<exists>s''. fs_file_exists F path s' = Inr (True, s'')"
  shows "SYSHANDLER_open F ctx pt s = Inl Undefined"
proof -
  from eoi_run [OF reg1] obtain s2 where s2: "apic_end_of_interrupt s1 = Inr ((), s2)" by blast
  from ex obtain s3 where s3: "fs_file_exists F path s2 = Inr (True, s3)" by blast
  have none: "find (\<lambda>i. path = fd_path (proc_fd (procs s1 p) i)) [0..<MAX_FILE_DESC] = None"
    using other by (auto simp: find_None_iff)
  have slot: "open_slot (procs s1 p) = None" using used by (simp add: open_slot_def)
  show ?thesis
    unfolding SYSHANDLER_open_def bnd_step [where m = current_process, OF current_process_run [OF reg own]]
      bnd_step [where m = "fetch_path ctx pt", OF path] bnd_gets none option.case
      seqn_step [where m = apic_end_of_interrupt, OF s2] bnd_step [where m = "fs_file_exists F path", OF s3] if_True bnd_ret slot
    by (simp add: raise_def)
qed

text \<open>A machine with one thread of a user process that has all its descriptors in use.\<close>

definition desk :: "console \<Rightarrow> (nat \<Rightarrow> Process) \<Rightarrow> io" where
  "desk c P = (user.extend (proc.extend (machine [Some 0] user_threads) \<lparr>pmem = (\<lambda>_. 0)\<rparr>)
     \<lparr>con = c, character_buf = 0, character_buf_va = 0xffffffff80104000, shift_pressed = False\<rparr>)\<lparr>procs := P\<rparr>"

lemma desk_simps [simp]:
  "lapic_id (desk c P) = 0" "threads (desk c P) = user_threads" "procs (desk c P) = P" "link (desk c P) = boot_link"
  "cpus (desk c P) = [(boot_cpu 0)\<lparr>current_thread := Some 0\<rparr>]" "locks (desk c P) = locks boot_smp" "qmem (desk c P) = (\<lambda>_. 0)"
  "con (desk c P) = c" "pmem (desk c P) = (\<lambda>_. 0)"
  by (simp_all add: desk_def user.defs proc.defs)

lemma desk_registered: "registered (desk c P) 0" "current_thread (cpus (desk c P) ! 0) = Some 0"
  "owner_proc (threads (desk c P) 0) = Some 0"
  by (simp_all add: registered_def boot_cpu_def user_threads_def)

definition some_fs :: "'s fs" where
  "some_fs = \<lparr>fs_file_exists = (\<lambda>_ s. Inr (True, s)), fs_dir_exists = (\<lambda>_ s. Inr (False, s)),
     fs_read_file = (\<lambda>_ s. Inr ((0, \<lambda>_. 0), s)), fs_PathToFileSize = (\<lambda>_ s. Inr (0, s)), fs_fill_statbuf = (\<lambda>_ s. Inr (None, s))\<rparr>"

theorem open_second_file_undefined_witness:
  "SYSHANDLER_open some_fs (zero_context\<lparr>rdi := sys_open, rsi := 0x400000, rdx := 5\<rparr>) 0
     (desk small_console (\<lambda>_. zero_process\<lparr>proc_fd := (\<lambda>_. \<lparr>fd_in_use = True, fd_path = ''/a''\<rparr>)\<rparr>)) = Inl Undefined"
proof -
  let ?P = "\<lambda>_. zero_process\<lparr>proc_fd := (\<lambda>_. \<lparr>fd_in_use = True, fd_path = ''/a''\<rparr>)\<rparr>"
  let ?s = "desk small_console ?P" and ?ctx = "zero_context\<lparr>rdi := sys_open, rsi := 0x400000, rdx := 5\<rparr>"
  note r = desk_registered [of small_console ?P]
  have "user_range_ok 0x400000 5 ?s = Inr (False, ?s)"
    using GetCurrentThread_run [OF r(1)]
    by (simp add: user_range_ok_def is_frame_mapped_thread_def user_threads_def bnd_def ret_def deref_def)
  then have path: "fetch_path ?ctx 0 ?s = Inr ('''', ?s)"
    by (simp add: fetch_path_def FetchStruct_def bnd_def ret_def)
  show ?thesis
    by (rule open_second_file_undefined [OF r path r(1)]) (simp_all add: some_fs_def)
qed

section \<open>Entering and leaving a system call\<close>

lemma NoINT_run:
  "registered s i \<Longrightarrow> NoINT_Enable s = Inr ((), upd_cpu i (noINT_update (\<lambda>_. True)) s)"
  "registered s i \<Longrightarrow> NoINT_Disable s = Inr ((), upd_cpu i (noINT_update (\<lambda>_. False)) s)"
  by (simp_all add: NoINT_Enable_def NoINT_Disable_def bnd_step [OF get_current_cpu_registered] upd_def)

lemma load_page_table_run:
  "registered s i \<Longrightarrow> load_page_table pt s = Inr ((), s\<lparr>cr3 := (cr3 s)(i := pt)\<rparr>)"
  by (simp add: load_page_table_def bnd_step [OF get_current_cpu_registered] upd_def)

lemma registered_threads [simp]: "registered (upd_thread t f s) i = registered s i"
  by (simp add: registered_def upd_thread_def)

lemma syscall_leave_run:
  assumes "registered s i"
  shows "\<exists>u. syscall_leave t pt n s = Inr ((), u) \<and> registered u i \<and> cr3 u i = pt \<and> \<not> rflags_IF (cpus u ! i)
    \<and> thread_pml4t_phys (threads u t) = pt \<and> procs u = procs s \<and> qmem u = qmem s \<and> locks u = locks s"
proof -
  let ?s1 = "upd_thread t (\<lambda>x. x\<lparr>thread_pml4t_phys := pt\<rparr>) s"
  have r1: "registered ?s1 i" using assms by simp
  have "\<exists>s2. (if do_eoi n then apic_end_of_interrupt else ret ()) ?s1 = Inr ((), s2) \<and> registered s2 i \<and> threads s2 = threads ?s1
      \<and> procs s2 = procs s \<and> qmem s2 = qmem s \<and> locks s2 = locks s"
  proof (cases "do_eoi n")
    case True
    let ?a = "?s1\<lparr>apic_eoi := (apic_eoi ?s1)(unat (lapic_id ?s1) := Suc (apic_eoi ?s1 (unat (lapic_id ?s1))))\<rparr>"
    have a: "registered ?a i" using r1 by (simp add: registered_def)
    have "apic_end_of_interrupt ?s1 = Inr ((), upd_cpu i (noINT_update (\<lambda>_. False)) ?a)"
      using NoINT_run(2) [OF a] by (simp add: apic_end_of_interrupt_def seqn_upd)
    then show ?thesis using True a by (simp add: registered_upd_cpu) (simp add: upd_cpu_def upd_thread_def)
  next
    case False
    then show ?thesis using r1 by (simp add: ret_def upd_thread_def)
  qed
  then obtain s2 where s2: "(if do_eoi n then apic_end_of_interrupt else ret ()) ?s1 = Inr ((), s2)" "registered s2 i"
    "threads s2 = threads ?s1" "procs s2 = procs s" "qmem s2 = qmem s" "locks s2 = locks s" by blast
  let ?s3 = "s2\<lparr>cr3 := (cr3 s2)(i := pt)\<rparr>"
  have r3: "registered ?s3 i" using s2(2) by simp
  have "syscall_leave t pt n s = Inr ((), cli i ?s3)"
    unfolding syscall_leave_def seqn_upd seqn_step [where m = "if do_eoi n then apic_end_of_interrupt else ret ()", OF s2(1)]
      seqn_step [where m = "load_page_table pt", OF load_page_table_run [OF s2(2)]]
      bnd_step [where m = get_current_cpu, OF get_current_cpu_registered [OF r3]] upd_def ..
  moreover have "registered (cli i ?s3) i" using r3 by (simp add: cli_def registered_upd_cpu)
  ultimately show ?thesis using s2(3-6) registered_less [OF s2(2)] by (simp add: cli_def upd_cpu_def upd_thread_def)
qed

definition sys_numbers :: "u64 set" where
  "sys_numbers = {sys_exit, sys_sbrk, sys_tprintf, sys_open, sys_read, sys_fork, sys_exec, sys_free, sys_perror, sys_getchar,
     sys_waitpid, sys_fstat, sys_close, sys_clear, sys_tchangecolor}"

definition syscall_entered :: "nat \<Rightarrow> nat \<Rightarrow> cpu_context_t \<Rightarrow> 'a io_scheme \<Rightarrow> 'a io_scheme" where
  "syscall_entered i t ctx s = upd_cpu i (noINT_update (\<lambda>_. True))
     (upd_thread t (\<lambda>x. x\<lparr>execution_context := ctx, thread_pml4t_phys := kernel_table s\<rparr>) (s\<lparr>cr3 := (cr3 s)(i := kernel_table s)\<rparr>))"

lemma registered_entered: "registered (syscall_entered i t ctx s) j = registered s j"
  by (simp add: syscall_entered_def registered_upd_cpu)

lemma syscall_enter_run:
  assumes reg: "registered s i" "current_thread (cpus s ! i) = Some t"
  shows "syscall_handler F kstr args0 argv0 ctx s =
    bnd (sys_switch F kstr args0 argv0 ctx (thread_pml4t_phys (threads s t))) (\<lambda>flow. case flow of
       Finished c \<Rightarrow> seqn (syscall_leave t (thread_pml4t_phys (threads s t)) (rdi ctx)) (ret (Finished c))
     | _ \<Rightarrow> ret flow) (syscall_entered i t ctx s)"
proof -
  let ?s1 = "s\<lparr>cr3 := (cr3 s)(i := kernel_table s)\<rparr>"
  let ?s2 = "upd_thread t (\<lambda>x. x\<lparr>execution_context := ctx, thread_pml4t_phys := kernel_table s\<rparr>) ?s1"
  have l: "bnd (gets kernel_table) load_page_table s = Inr ((), ?s1)" using load_page_table_run [OF reg(1)] by (simp add: bnd_gets)
  have r1: "registered ?s1 i" using reg(1) by simp
  have c: "GetCurrentThread ?s1 = Inr (Some t, ?s1)" using GetCurrentThread_run [OF r1] reg(2) by simp
  have r2: "registered ?s2 i" using r1 by simp
  have k: "kernel_table ?s1 = kernel_table s" "threads ?s1 = threads s" by (simp_all add: kernel_table_def)
  show ?thesis
    unfolding syscall_handler_def seqn_step [where m = "bnd (gets kernel_table) load_page_table", OF l]
      bnd_step [where m = GetCurrentThread, OF c] deref_Some bnd_gets seqn_upd k
      seqn_step [where m = NoINT_Enable, OF NoINT_run(1) [OF r2]] syscall_entered_def ..
qed



end
