(* ===== verification/Buffer_Cache.thy ===== *)
theory Buffer_Cache
  imports Syscalls
begin

text \<open>
  The buffer cache (src/src/kernel/fs/buffered_io.c) and the IDE disk driver (drivers/ide.c).

  The buffers are \<open>bufs 0\<close> to \<open>bufs 15\<close>; \<open>bufs NBUF\<close> is \<open>bcache.head\<close>, and the links of the LRU list are
  indices. A buffer is never null, so the null tests of the code have no counterpart. The disk controller is the
  record \<open>ide_drive\<close>: the registers the driver writes, the sectors of the two drives, and the values the
  status register shows at the next reads.

  A thread that waits gives up its CPU at the \<open>int3\<close> of \<open>ThreadSleep\<close>. What the machine does between that
  instruction and the next one of the thread (the scheduler, other threads, the disk interrupt) is the
  argument \<open>int3\<close> of the operations that may sleep.
\<close>

section \<open>Data\<close>

definition BSIZE :: nat where "BSIZE = 512"
definition DISK_SECTOR_SIZE :: u32 where "DISK_SECTOR_SIZE = 512"
definition NBUF :: nat where "NBUF = 0x10"
definition FSSIZE :: u32 where "FSSIZE = 129024"
definition B_VALID :: u32 where "B_VALID = 0x2"
definition B_DIRTY :: u32 where "B_DIRTY = 0x4"
definition IDE_BSY :: u8 where "IDE_BSY = 0x80"
definition IDE_DRDY :: u8 where "IDE_DRDY = 0x40"
definition IDE_DF :: u8 where "IDE_DF = 0x20"
definition IDE_ERR :: u8 where "IDE_ERR = 0x01"
definition IDE_CMD_READ :: u8 where "IDE_CMD_READ = 0x20"
definition IDE_CMD_WRITE :: u8 where "IDE_CMD_WRITE = 0x30"
definition sizeof_ide_request :: u64 where "sizeof_ide_request = 24"

lemmas ide_consts = B_VALID_def B_DIRTY_def IDE_BSY_def IDE_DRDY_def IDE_DF_def IDE_ERR_def
  IDE_CMD_READ_def IDE_CMD_WRITE_def

record iobuf =
  b_flags :: u32
  b_dev :: u32
  b_blockno :: u32
  b_refcnt :: u32
  b_prev :: nat
  b_next :: nat
  b_data :: "u8 list"

record ide_drive =
  status_in :: "nat \<Rightarrow> u8"
  reg_control :: u8
  reg_count :: u8
  reg_lba0 :: u8
  reg_lba1 :: u8
  reg_lba2 :: u8
  reg_drive :: u8
  reg_command :: u8
  sectors :: "bool \<Rightarrow> nat \<Rightarrow> u8 list"

record bio = io +
  bufs :: "nat \<Rightarrow> iobuf"
  bcache_va :: u64
  ide_queue_va :: u64
  req_buf :: "u64 \<Rightarrow> nat"
  disk1 :: bool
  ide :: ide_drive

text \<open>\<open>sizeof(struct iobuf)\<close> is 584; the buffers follow the 24 bytes of \<open>bcache.lock\<close>, and the sleeplock of
  a buffer is its field at offset 12.\<close>

definition buf_va :: "nat \<Rightarrow> 'a bio_scheme \<Rightarrow> u64" where
  "buf_va b s = bcache_va s + 24 + 584 * of_nat b"

definition buf_lock :: "nat \<Rightarrow> 'a bio_scheme \<Rightarrow> u64" where
  "buf_lock b s = buf_va b s + 12"

definition upd_buf :: "nat \<Rightarrow> (iobuf \<Rightarrow> iobuf) \<Rightarrow> 'a bio_scheme \<Rightarrow> 'a bio_scheme" where
  "upd_buf b f s = s\<lparr>bufs := (bufs s)(b := f (bufs s b))\<rparr>"

definition upd_ide :: "(ide_drive \<Rightarrow> ide_drive) \<Rightarrow> 'a bio_scheme \<Rightarrow> 'a bio_scheme" where
  "upd_ide f s = s\<lparr>ide := f (ide s)\<rparr>"

section \<open>Waiting\<close>

partial_function (option) op_while ::
  "('s \<Rightarrow> bool) \<Rightarrow> ('s \<Rightarrow> fault + unit \<times> 's) \<Rightarrow> 's \<Rightarrow> (fault + unit \<times> 's) option" where
  "op_while c body s =
     (if c s then (case body s of Inl f \<Rightarrow> Some (Inl f) | Inr r \<Rightarrow> op_while c body (snd r))
      else Some (Inr ((), s)))"

definition while_do :: "('s \<Rightarrow> bool) \<Rightarrow> ('s \<Rightarrow> fault + unit \<times> 's) \<Rightarrow> 's \<Rightarrow> fault + unit \<times> 's" where
  "while_do c body = lift_loop (op_while c body)"

definition ThreadSleep :: "('a proc_scheme \<Rightarrow> fault + unit \<times> 'a proc_scheme) \<Rightarrow> u64 \<Rightarrow> lock_id
    \<Rightarrow> 'a proc_scheme \<Rightarrow> fault + unit \<times> 'a proc_scheme" where
  "ThreadSleep int3 channel spin_lock =
     bnd GetCurrentThread (\<lambda>thread. bnd (deref thread) (\<lambda>t.
     bnd (ThreadSleep_begin channel spin_lock) (\<lambda>b.
     seqn (if b then int3 else ret ()) (ThreadSleep_end t spin_lock))))"

definition acquire_Sleeplock :: "('a proc_scheme \<Rightarrow> fault + unit \<times> 'a proc_scheme) \<Rightarrow> u64
    \<Rightarrow> 'a proc_scheme \<Rightarrow> fault + unit \<times> 'a proc_scheme" where
  "acquire_Sleeplock int3 a =
     seqn (acquire_Spinlock (sleeplock_lock a))
    (seqn (while_do (\<lambda>s. sl_is_locked (sleeplocks s a)) (ThreadSleep int3 a (sleeplock_lock a)))
    (seqn (upd (upd_sleeplock a (\<lambda>l. l\<lparr>sl_is_locked := True\<rparr>)))
    (bnd GetCurrentThread (\<lambda>thread. bnd (deref thread) (\<lambda>t.
     seqn (upd (\<lambda>s. upd_sleeplock a (\<lambda>l. l\<lparr>sl_owner_tid := thread_id (threads s t)\<rparr>) s))
          (release_Spinlock (sleeplock_lock a)))))))"

section \<open>The disk controller\<close>

text \<open>The registers behind the ports, and the sector they select: bit 4 of the drive register is the drive,
  its low half the top of the 28-bit sector number.\<close>

definition ide_outb :: "u16 \<Rightarrow> u8 \<Rightarrow> ide_drive \<Rightarrow> ide_drive" where
  "ide_outb port v d =
     (if port = 0x3f6 then d\<lparr>reg_control := v\<rparr>
      else if port = 0x1f2 then d\<lparr>reg_count := v\<rparr>
      else if port = 0x1f3 then d\<lparr>reg_lba0 := v\<rparr>
      else if port = 0x1f4 then d\<lparr>reg_lba1 := v\<rparr>
      else if port = 0x1f5 then d\<lparr>reg_lba2 := v\<rparr>
      else if port = 0x1f6 then d\<lparr>reg_drive := v\<rparr>
      else if port = 0x1f7 then d\<lparr>reg_command := v\<rparr>
      else d)"

definition ide_lba :: "ide_drive \<Rightarrow> u32" where
  "ide_lba d = ucast (reg_lba0 d) OR push_bit 8 (ucast (reg_lba1 d)) OR push_bit 16 (ucast (reg_lba2 d))
     OR push_bit 24 (ucast (reg_drive d AND 0xF))"

definition outb :: "u16 \<Rightarrow> u8 \<Rightarrow> 'a bio_scheme \<Rightarrow> fault + unit \<times> 'a bio_scheme" where
  "outb port v = upd (upd_ide (ide_outb port v))"

definition inb_status :: "'a bio_scheme \<Rightarrow> fault + u8 \<times> 'a bio_scheme" where
  "inb_status s = Inr (status_in (ide s) 0, upd_ide (\<lambda>d. d\<lparr>status_in := (\<lambda>n. status_in d (Suc n))\<rparr>) s)"

definition outsl :: "u8 list \<Rightarrow> 'a bio_scheme \<Rightarrow> fault + unit \<times> 'a bio_scheme" where
  "outsl bs = seqn (ensure (\<lambda>s. reg_command (ide s) = IDE_CMD_WRITE) Undefined)
     (upd (upd_ide (\<lambda>d. d\<lparr>sectors := (sectors d)(bit (reg_drive d) 4 :=
        (sectors d (bit (reg_drive d) 4))(unat (ide_lba d) := bs))\<rparr>)))"

definition insl :: "'a bio_scheme \<Rightarrow> fault + u8 list \<times> 'a bio_scheme" where
  "insl = seqn (ensure (\<lambda>s. reg_command (ide s) = IDE_CMD_READ) Undefined)
     (gets (\<lambda>s. sectors (ide s) (bit (reg_drive (ide s)) 4) (unat (ide_lba (ide s)))))"

section \<open>ide.c\<close>

partial_function (option) idewait_loop :: "(nat \<Rightarrow> u8) \<Rightarrow> (u8 \<times> (nat \<Rightarrow> u8)) option" where
  "idewait_loop st =
     (if st 0 AND (IDE_BSY OR IDE_DRDY) = IDE_DRDY then Some (st 0, \<lambda>n. st (Suc n))
      else idewait_loop (\<lambda>n. st (Suc n)))"

definition idewait :: "bool \<Rightarrow> 'a bio_scheme \<Rightarrow> fault + int \<times> 'a bio_scheme" where
  "idewait check s =
     (case idewait_loop (status_in (ide s)) of
        None \<Rightarrow> Inl Diverge
      | Some (r, st) \<Rightarrow> Inr (if check \<and> r AND (IDE_DF OR IDE_ERR) \<noteq> 0 then -1 else 0, upd_ide (\<lambda>d. d\<lparr>status_in := st\<rparr>) s))"

text \<open>\<open>set_irq\<close> routes the interrupt in the I/O APIC and writes nothing that the driver reads; it is an argument here.\<close>

fun probe_disk1 :: "nat \<Rightarrow> 'a bio_scheme \<Rightarrow> fault + unit \<times> 'a bio_scheme" where
  "probe_disk1 0 = ret ()"
| "probe_disk1 (Suc n) = bnd inb_status (\<lambda>r. if r \<noteq> 0 then upd (\<lambda>s. s\<lparr>disk1 := True\<rparr>) else probe_disk1 n)"

definition ideinit :: "('a bio_scheme \<Rightarrow> fault + unit \<times> 'a bio_scheme) \<Rightarrow> 'a bio_scheme \<Rightarrow> fault + unit \<times> 'a bio_scheme" where
  "ideinit set_irq =
     seqn (init_Spinlock ide_lock ''IDE_LOCK'')
    (seqn set_irq
    (seqn (idewait False)
    (seqn (outb 0x1f6 (0xe0 OR push_bit 4 1))
    (seqn (probe_disk1 1000)
          (outb 0x1f6 0xe0)))))"

text \<open>\<open>BSIZE / DISK_SECTOR_SIZE\<close> is 1, so a block is one sector and the single-sector commands are used.\<close>

definition idestart :: "nat \<Rightarrow> 'a bio_scheme \<Rightarrow> fault + unit \<times> 'a bio_scheme" where
  "idestart b =
     seqn (ensure (\<lambda>s. b_blockno (bufs s b) < FSSIZE) (Panic ''incorrect blockno''))
    (bnd (gets (\<lambda>s. bufs s b)) (\<lambda>x.
     let sector = b_blockno x in
     seqn (idewait False)
    (seqn (outb 0x3f6 0)
    (seqn (outb 0x1f2 1)
    (seqn (outb 0x1f3 (ucast (sector AND 0xff)))
    (seqn (outb 0x1f4 (ucast (drop_bit 8 sector AND 0xff)))
    (seqn (outb 0x1f5 (ucast (drop_bit 16 sector AND 0xff)))
    (seqn (outb 0x1f6 (ucast (0xe0 OR push_bit 4 (b_dev x AND 1) OR (drop_bit 24 sector AND 0x0f))))
          (if b_flags x AND B_DIRTY \<noteq> 0
           then seqn (outb 0x1f7 IDE_CMD_WRITE) (outsl (b_data x))
           else outb 0x1f7 IDE_CMD_READ)))))))))"

text \<open>\<open>ideintr\<close> in three parts: the end of the active transfer, the start of the next one, and the handler.\<close>

definition ide_finish :: "nat \<Rightarrow> 'a bio_scheme \<Rightarrow> fault + unit \<times> 'a bio_scheme" where
  "ide_finish b =
     seqn (bnd (gets (\<lambda>s. b_flags (bufs s b) AND B_DIRTY = 0)) (\<lambda>clean.
            if clean then bnd (idewait True) (\<lambda>r.
              if r \<ge> 0 then bnd insl (\<lambda>bs. upd (upd_buf b (\<lambda>x. x\<lparr>b_data := bs\<rparr>))) else ret ())
            else ret ()))
    (seqn (upd (upd_buf b (\<lambda>x. x\<lparr>b_flags := (b_flags x OR B_VALID) AND NOT B_DIRTY\<rparr>)))
          (bnd (gets (buf_va b)) Wakeup))"

definition ide_next :: "u64 \<Rightarrow> 'a bio_scheme \<Rightarrow> fault + unit \<times> 'a bio_scheme" where
  "ide_next q = bnd (gets (\<lambda>s. (entry_count s q, req_buf s (dll_first s q)))) (\<lambda>(m, f).
     if m \<noteq> 0 then idestart f else ret ())"

definition ideintr :: "'a bio_scheme \<Rightarrow> fault + unit \<times> 'a bio_scheme" where
  "ideintr =
     seqn (acquire_Spinlock ide_lock)
    (bnd (gets ide_queue_va) (\<lambda>q.
     bnd (gets (\<lambda>s. entry_count s q)) (\<lambda>n.
     if n = 0 then release_Spinlock ide_lock
     else bnd (remove_dll_entry_head q) (\<lambda>req.
       seqn (upd (\<lambda>s. set_count q (entry_count s q - 1) s))
      (if req = 0 then raise (Panic ''ideintr() --> got NULL dll_Entry! Condition should not exist.'')
       else bnd (gets (\<lambda>s. req_buf s req)) (\<lambda>b.
         seqn (ide_finish b)
        (seqn (ide_next q)
        (seqn (kfree req)
              (release_Spinlock ide_lock)))))))))"

text \<open>\<open>iderw\<close> up to its waiting loop (the tests and the request, then its place in the queue), and the whole of it.\<close>

definition ide_submit :: "nat \<Rightarrow> u64 \<Rightarrow> 'a bio_scheme \<Rightarrow> fault + unit \<times> 'a bio_scheme" where
  "ide_submit b req =
     seqn (acquire_Spinlock ide_lock)
    (seqn (upd (\<lambda>s. s\<lparr>req_buf := (req_buf s)(req := b)\<rparr>))
    (bnd (gets ide_queue_va) (\<lambda>q.
     seqn (insert_dll_entry_tail q req)
    (seqn (upd (\<lambda>s. set_count q (entry_count s q + 1) s))
    (bnd (gets (\<lambda>s. req_buf s (dll_first s q))) (\<lambda>f.
     if f = b then idestart b else ret ()))))))"

definition iderw_begin :: "nat \<Rightarrow> 'a bio_scheme \<Rightarrow> fault + unit \<times> 'a bio_scheme" where
  "iderw_begin b =
     bnd (bnd (gets (buf_lock b)) holdingsleep) (\<lambda>h.
     if \<not> h then raise (Panic ''iderw: buf not locked'')
     else seqn (ensure (\<lambda>s. b_flags (bufs s b) AND (B_VALID OR B_DIRTY) \<noteq> B_VALID) (Panic ''iderw: nothing to do''))
    (seqn (ensure (\<lambda>s. b_dev (bufs s b) = 0 \<or> disk1 s) (Panic ''iderw: only disk 0 is supported''))
    (bnd (kalloc sizeof_ide_request) (\<lambda>req.
     if req = 0 then raise (Panic ''iderw() --> kalloc returned NULL!'')
     else ide_submit b req))))"

definition iderw :: "('a bio_scheme \<Rightarrow> fault + unit \<times> 'a bio_scheme) \<Rightarrow> nat \<Rightarrow> 'a bio_scheme \<Rightarrow> fault + unit \<times> 'a bio_scheme" where
  "iderw int3 b =
     seqn (iderw_begin b)
    (seqn (while_do (\<lambda>s. b_flags (bufs s b) AND (B_VALID OR B_DIRTY) \<noteq> B_VALID)
             (bnd (gets (buf_va b)) (\<lambda>ch. ThreadSleep int3 ch ide_lock)))
          (release_Spinlock ide_lock))"

section \<open>buffered_io.c\<close>

definition link_buf :: "nat \<Rightarrow> 'a bio_scheme \<Rightarrow> fault + unit \<times> 'a bio_scheme" where
  "link_buf b =
     seqn (upd (\<lambda>s. upd_buf b (\<lambda>x. x\<lparr>b_next := b_next (bufs s NBUF), b_prev := NBUF\<rparr>) s))
    (seqn (bnd (gets (buf_lock b)) init_Sleeplock)
    (seqn (upd (\<lambda>s. upd_buf (b_next (bufs s NBUF)) (\<lambda>x. x\<lparr>b_prev := b\<rparr>) s))
          (upd (upd_buf NBUF (\<lambda>x. x\<lparr>b_next := b\<rparr>)))))"

definition binit :: "'a bio_scheme \<Rightarrow> fault + unit \<times> 'a bio_scheme" where
  "binit = seqn (upd (upd_buf NBUF (\<lambda>x. x\<lparr>b_prev := NBUF, b_next := NBUF\<rparr>))) (foreach [0..<NBUF] link_buf)"

text \<open>The two scans of \<open>bget\<close>: for the block, then for a buffer that may be reused. \<open>bget_lookup\<close> is \<open>bget\<close> up to
  the sleeplock.\<close>

fun first_buf :: "(iobuf \<Rightarrow> bool) \<Rightarrow> (nat \<Rightarrow> iobuf) \<Rightarrow> nat list \<Rightarrow> nat option" where
  "first_buf P B [] = None"
| "first_buf P B (i # is) = (if P (B i) then Some i else first_buf P B is)"

definition holds_block :: "u32 \<Rightarrow> u32 \<Rightarrow> iobuf \<Rightarrow> bool" where
  "holds_block dev blockno x \<longleftrightarrow> b_dev x = dev \<and> b_blockno x = blockno"

definition reusable :: "iobuf \<Rightarrow> bool" where
  "reusable x \<longleftrightarrow> b_refcnt x = 0 \<and> b_flags x AND B_DIRTY = 0"

definition bget_lookup :: "u32 \<Rightarrow> u32 \<Rightarrow> 'a bio_scheme \<Rightarrow> fault + nat \<times> 'a bio_scheme" where
  "bget_lookup dev blockno =
     seqn (acquire_Spinlock bcache_lock)
    (bnd (gets (\<lambda>s. first_buf (holds_block dev blockno) (bufs s) [0..<NBUF])) (\<lambda>r. case r of
       Some b \<Rightarrow> seqn (upd (upd_buf b (\<lambda>x. x\<lparr>b_refcnt := b_refcnt x + 1\<rparr>)))
                (seqn (release_Spinlock bcache_lock) (ret b))
     | None \<Rightarrow> bnd (gets (\<lambda>s. first_buf reusable (bufs s) [0..<NBUF])) (\<lambda>r. case r of
         Some b \<Rightarrow> seqn (upd (upd_buf b (\<lambda>x. x\<lparr>b_dev := dev, b_blockno := blockno, b_flags := 0, b_refcnt := 1\<rparr>)))
                  (seqn (release_Spinlock bcache_lock) (ret b))
       | None \<Rightarrow> raise (Panic ''bget: no buffers''))))"

definition bget :: "('a bio_scheme \<Rightarrow> fault + unit \<times> 'a bio_scheme) \<Rightarrow> u32 \<Rightarrow> u32 \<Rightarrow> 'a bio_scheme \<Rightarrow> fault + nat \<times> 'a bio_scheme" where
  "bget int3 dev blockno = bnd (bget_lookup dev blockno) (\<lambda>b.
     seqn (bnd (gets (buf_lock b)) (acquire_Sleeplock int3)) (ret b))"

definition bread :: "('a bio_scheme \<Rightarrow> fault + unit \<times> 'a bio_scheme) \<Rightarrow> u32 \<Rightarrow> u32 \<Rightarrow> 'a bio_scheme \<Rightarrow> fault + nat \<times> 'a bio_scheme" where
  "bread int3 dev blockno = bnd (bget int3 dev blockno) (\<lambda>b.
     bnd (gets (\<lambda>s. b_flags (bufs s b) AND B_VALID = 0)) (\<lambda>invalid.
     seqn (if invalid then iderw int3 b else ret ()) (ret b)))"

definition bwrite :: "('a bio_scheme \<Rightarrow> fault + unit \<times> 'a bio_scheme) \<Rightarrow> nat \<Rightarrow> 'a bio_scheme \<Rightarrow> fault + unit \<times> 'a bio_scheme" where
  "bwrite int3 b =
     bnd (bnd (gets (buf_lock b)) holdingsleep) (\<lambda>h.
     if \<not> h then raise (Panic ''bwrite() --> spinlock not held'')
     else seqn (upd (upd_buf b (\<lambda>x. x\<lparr>b_flags := b_flags x OR B_DIRTY\<rparr>))) (iderw int3 b))"

definition brelse :: "nat \<Rightarrow> 'a bio_scheme \<Rightarrow> fault + unit \<times> 'a bio_scheme" where
  "brelse b =
     bnd (bnd (gets (buf_lock b)) holdingsleep) (\<lambda>h.
     if \<not> h then raise (Panic ''brelse() --> not holding iobuf sleeplock.'')
     else seqn (bnd (gets (buf_lock b)) release_Sleeplock)
         (seqn (acquire_Spinlock bcache_lock)
         (seqn (upd (upd_buf b (\<lambda>x. x\<lparr>b_refcnt := b_refcnt x - 1\<rparr>)))
               (release_Spinlock bcache_lock))))"

section \<open>What the operations leave alone\<close>

lemma op_while_rule:
  assumes "op_while c body s = Some r"
  shows "r = Inr ((), t) \<longrightarrow> I s \<longrightarrow> (\<forall>u v. I u \<longrightarrow> c u \<longrightarrow> body u = Inr ((), v) \<longrightarrow> I v) \<longrightarrow> I t \<and> \<not> c t"
proof (rule op_while.raw_induct [OF _ assms])
  fix ow :: "('a \<Rightarrow> bool) \<Rightarrow> ('a \<Rightarrow> fault + unit \<times> 'a) \<Rightarrow> 'a \<Rightarrow> (fault + unit \<times> 'a) option" and c body s r
  assume IH: "\<And>c body s r. ow c body s = Some r \<Longrightarrow>
      r = Inr ((), t) \<longrightarrow> I s \<longrightarrow> (\<forall>u v. I u \<longrightarrow> c u \<longrightarrow> body u = Inr ((), v) \<longrightarrow> I v) \<longrightarrow> I t \<and> \<not> c t"
    and r: "(if c s then case body s of Inl f \<Rightarrow> Some (Inl f) | Inr r \<Rightarrow> ow c body (snd r) else Some (Inr ((), s))) = Some r"
  show "r = Inr ((), t) \<longrightarrow> I s \<longrightarrow> (\<forall>u v. I u \<longrightarrow> c u \<longrightarrow> body u = Inr ((), v) \<longrightarrow> I v) \<longrightarrow> I t \<and> \<not> c t"
  proof (cases "c s")
    case True
    show ?thesis
    proof (cases "body s")
      case (Inl f)
      with r True show ?thesis by auto
    next
      case (Inr x)
      then have "body s = Inr ((), snd x)" by (cases x) simp
      moreover from r True Inr have "ow c body (snd x) = Some r" by simp
      ultimately show ?thesis using IH [of c body "snd x" r] True by blast
    qed
  next
    case False
    with r show ?thesis by auto
  qed
qed

lemma while_do_rule:
  assumes "while_do c body s = Inr ((), t)" "I s"
    and "\<And>u v. I u \<Longrightarrow> c u \<Longrightarrow> body u = Inr ((), v) \<Longrightarrow> I v"
  shows "I t \<and> \<not> c t"
  using assms op_while_rule [of c body s _ t I] by (auto simp: while_do_def lift_loop_def split: option.splits)

text \<open>The part of the state the cache, the driver and the heap use, and whatever extends it.\<close>

definition core :: "'a bio_scheme \<Rightarrow> _" where
  "core s = ((bufs s, bcache_va s, ide_queue_va s, req_buf s, disk1 s, ide s),
     (dll_next s, dll_prev s, entry_count s), sleeplocks s, (heap_tree s, heap_va_start s, no_return s), bio.more s)"

lemma core_acquire: "keeps core (acquire_Spinlock l)"
  by (auto simp: keeps_def core_def dest!: acquire_Spinlock_frame)

lemma core_release: "keeps core (release_Spinlock l)"
  by (auto simp: keeps_def core_def dest!: release_Spinlock_frame)

lemma core_current_thread: "keeps core GetCurrentThread"
  by (auto simp: keeps_def GetCurrentThread_def bnd_Inr_iff dest!: get_current_cpu_frame)

lemma core_deref: "keeps core (deref x)"
  by (auto simp: keeps_def deref_def split: option.splits)

lemma core_upd_thread: "core (upd_thread t f s) = core s"
  by (simp add: core_def upd_thread_def)

lemmas core_rules = keeps_rules core_acquire core_release core_current_thread core_deref

lemma core_Wakeup: "keeps core (Wakeup ch)"
  unfolding Wakeup_def by (intro core_rules) (simp add: core_def)

lemma core_holdingsleep: "keeps core (holdingsleep a)"
  unfolding holdingsleep_def by (intro core_rules) (auto intro!: core_rules)

lemma core_ThreadSleep_begin: "keeps core (ThreadSleep_begin ch l)"
  unfolding ThreadSleep_begin_def by (intro core_rules) (auto intro!: core_rules simp: core_upd_thread)

lemma core_ThreadSleep_end: "keeps core (ThreadSleep_end t l)"
  unfolding ThreadSleep_end_def by (intro core_rules) (auto intro!: core_rules simp: core_upd_thread)

lemma core_kfree: "keeps core (kfree a)"
proof -
  have "\<exists>c k. t = s\<lparr>cpus := c, locks := k\<rparr>" if "kfree a s = Inr (b, t)" for s t :: "'a bio_scheme" and b
    using that unfolding kfree_def
    by (fastforce simp: seqn_Inr_iff bnd_Inr_iff dest!: acquire_Spinlock_frame release_Spinlock_frame
        split: if_splits option.splits sum.splits)
  then show ?thesis by (fastforce simp: keeps_def core_def)
qed

lemma core_lapic [simp]: "core (s\<lparr>lapic_id := l\<rparr>) = core s"
  by (simp add: core_def)

section \<open>The controller does what the driver asks\<close>

text \<open>No read of the status register shows an error.\<close>

definition healthy :: "ide_drive \<Rightarrow> bool" where
  "healthy d \<longleftrightarrow> (\<forall>n. status_in d n AND (IDE_DF OR IDE_ERR) = 0)"

text \<open>The controller is programmed for a command on the block of a buffer.\<close>

definition armed :: "u8 \<Rightarrow> ide_drive \<Rightarrow> iobuf \<Rightarrow> bool" where
  "armed c d x \<longleftrightarrow> reg_command d = c \<and> bit (reg_drive d) 4 = bit (b_dev x) 0 \<and> ide_lba d = b_blockno x"

definition disk_block :: "ide_drive \<Rightarrow> iobuf \<Rightarrow> u8 list" where
  "disk_block d x = sectors d (bit (b_dev x) 0) (unat (b_blockno x))"

lemma idewait_loop_suffix: "idewait_loop st = Some (r, st') \<Longrightarrow> \<exists>k. r = st k \<and> st' = (\<lambda>n. st (Suc (k + n)))"
proof -
  have "case x of (r, st') \<Rightarrow> \<exists>k. r = st k \<and> st' = (\<lambda>n. st (Suc (k + n)))" if "idewait_loop st = Some x" for x
  proof (rule idewait_loop.raw_induct [OF _ that])
    fix il :: "(nat \<Rightarrow> u8) \<Rightarrow> (u8 \<times> (nat \<Rightarrow> u8)) option" and st x
    assume IH: "\<And>st x. il st = Some x \<Longrightarrow> case x of (r, st') \<Rightarrow> \<exists>k. r = st k \<and> st' = (\<lambda>n. st (Suc (k + n)))"
      and x: "(if st 0 AND (IDE_BSY OR IDE_DRDY) = IDE_DRDY then Some (st 0, \<lambda>n. st (Suc n)) else il (\<lambda>n. st (Suc n))) = Some x"
    show "case x of (r, st') \<Rightarrow> \<exists>k. r = st k \<and> st' = (\<lambda>n. st (Suc (k + n)))"
    proof (cases "st 0 AND (IDE_BSY OR IDE_DRDY) = IDE_DRDY")
      case True
      with x show ?thesis by (auto intro!: exI [of _ 0])
    next
      case False
      with x IH [of "\<lambda>n. st (Suc n)" x] show ?thesis by (cases x) (auto intro: exI [of _ "Suc _"])
    qed
  qed
  then show "idewait_loop st = Some (r, st') \<Longrightarrow> \<exists>k. r = st k \<and> st' = (\<lambda>n. st (Suc (k + n)))" by fastforce
qed

lemma idewait_healthy:
  assumes "idewait c s = Inr (r, t)" "healthy (ide s)"
  shows "r = 0 \<and> (\<exists>st. t = upd_ide (\<lambda>d. d\<lparr>status_in := st\<rparr>) s) \<and> healthy (ide t)"
  using assms by (auto simp: idewait_def healthy_def upd_ide_def split: option.splits if_splits dest!: idewait_loop_suffix)

lemma low_bits: "w AND 0xff = take_bit 8 w" "w AND 0x0f = take_bit 4 w" "w AND 1 = take_bit 1 w" "v AND 0xF = take_bit 4 v"
  for w :: u32 and v :: u8
  by (simp_all add: take_bit_eq_mask mask_eq_decr_exp)

lemma lba_bytes:
  fixes n dev :: u32
  assumes "n < FSSIZE"
  shows "ide_lba (d\<lparr>reg_lba0 := ucast (n AND 0xff), reg_lba1 := ucast (drop_bit 8 n AND 0xff), reg_lba2 := ucast (drop_bit 16 n AND 0xff),
      reg_drive := ucast (0xe0 OR push_bit 4 (dev AND 1) OR (drop_bit 24 n AND 0x0f))\<rparr>) = n"
    and "bit (ucast (0xe0 OR push_bit 4 (dev AND 1) OR (drop_bit 24 n AND 0x0f)) :: u8) 4 = bit dev 0"
proof -
  have "n < 2 ^ 28" using assms by (simp add: FSSIZE_def word_less_nat_alt)
  then have n: "take_bit 28 n = n" by (intro unsigned_word_eqI [where ?'a = nat]) (simp add: word_less_nat_alt unsigned_take_bit_eq take_bit_nat_eq_self)
  have hi: "\<not> bit n k" if "28 \<le> k" for k using n that by (metis bit_take_bit_iff leD)
  have e: "\<not> bit (0xe0 :: u32) k" if "k < 4" for k
  proof -
    from that have "k = 0 \<or> k = 1 \<or> k = 2 \<or> k = 3" by linarith
    then show ?thesis by auto
  qed
  show "ide_lba (d\<lparr>reg_lba0 := ucast (n AND 0xff), reg_lba1 := ucast (drop_bit 8 n AND 0xff), reg_lba2 := ucast (drop_bit 16 n AND 0xff),
      reg_drive := ucast (0xe0 OR push_bit 4 (dev AND 1) OR (drop_bit 24 n AND 0x0f))\<rparr>) = n" (is "?l = n")
  proof (rule bit_word_eqI)
    fix k assume "k < LENGTH(32)"
    then show "bit ?l k = bit n k"
      using hi [of k] e [of "k - 24"]
      by (cases "k < 8"; cases "k < 16"; cases "k < 24"; cases "k < 28") (auto simp: ide_lba_def low_bits bit_simps)
  qed
  show "bit (ucast (0xe0 OR push_bit 4 (dev AND 1) OR (drop_bit 24 n AND 0x0f)) :: u8) 4 = bit dev 0"
    by (simp add: low_bits bit_simps bit_0)
qed

lemma ide_lba_other [simp]: "ide_lba (d\<lparr>reg_command := c\<rparr>) = ide_lba d" "ide_lba (d\<lparr>sectors := f\<rparr>) = ide_lba d"
  by (simp_all add: ide_lba_def)

definition programmed :: "iobuf \<Rightarrow> ide_drive \<Rightarrow> ide_drive" where
  "programmed x d = (let n = b_blockno x in d\<lparr>reg_control := 0, reg_count := 1,
     reg_lba0 := ucast (n AND 0xff), reg_lba1 := ucast (drop_bit 8 n AND 0xff), reg_lba2 := ucast (drop_bit 16 n AND 0xff),
     reg_drive := ucast (0xe0 OR push_bit 4 (b_dev x AND 1) OR (drop_bit 24 n AND 0x0f))\<rparr>)"

lemma idestart_drive:
  assumes "idestart b s = Inr (v, t)" "healthy (ide s)"
  shows "b_blockno (bufs s b) < FSSIZE \<and> (\<exists>d. healthy d \<and> sectors d = sectors (ide s) \<and> t = s\<lparr>ide :=
     (let e = programmed (bufs s b) d in
      if b_flags (bufs s b) AND B_DIRTY \<noteq> 0
      then let w = e\<lparr>reg_command := IDE_CMD_WRITE\<rparr> in w\<lparr>sectors := (sectors w)(bit (reg_drive w) 4 :=
             (sectors w (bit (reg_drive w) 4))(unat (ide_lba w) := b_data (bufs s b)))\<rparr>
      else e\<lparr>reg_command := IDE_CMD_READ\<rparr>)\<rparr>)"
proof -
  from assms(1) obtain r s1 where n: "b_blockno (bufs s b) < FSSIZE" and w: "idewait False s = Inr (r, s1)"
    and t: "(let x = bufs s b; sector = b_blockno x in
     seqn (outb 0x3f6 0)
    (seqn (outb 0x1f2 1)
    (seqn (outb 0x1f3 (ucast (sector AND 0xff)))
    (seqn (outb 0x1f4 (ucast (drop_bit 8 sector AND 0xff)))
    (seqn (outb 0x1f5 (ucast (drop_bit 16 sector AND 0xff)))
    (seqn (outb 0x1f6 (ucast (0xe0 OR push_bit 4 (b_dev x AND 1) OR (drop_bit 24 sector AND 0x0f))))
          (if b_flags x AND B_DIRTY \<noteq> 0
           then seqn (outb 0x1f7 IDE_CMD_WRITE) (outsl (b_data x))
           else outb 0x1f7 IDE_CMD_READ))))))) s1 = Inr (v, t)"
    unfolding idestart_def Let_def seqn_Inr_iff [where n = "bnd _ _"] bnd_gets ensure_Inr_iff
      seqn_Inr_iff [where m = "idewait False"] by blast
  from idewait_healthy [OF w assms(2)] obtain st where s1: "s1 = upd_ide (\<lambda>d. d\<lparr>status_in := st\<rparr>) s" "healthy (ide s1)" by blast
  let ?d = "ide s1"
  have "t = s\<lparr>ide := (let e = programmed (bufs s b) ?d in
      if b_flags (bufs s b) AND B_DIRTY \<noteq> 0
      then let w = e\<lparr>reg_command := IDE_CMD_WRITE\<rparr> in w\<lparr>sectors := (sectors w)(bit (reg_drive w) 4 :=
             (sectors w (bit (reg_drive w) 4))(unat (ide_lba w) := b_data (bufs s b)))\<rparr>
      else e\<lparr>reg_command := IDE_CMD_READ\<rparr>)\<rparr>"
    using t by (auto simp: outb_def seqn_upd outsl_def seqn_Inr_iff upd_ide_def ide_outb_def programmed_def s1(1) Let_def split: if_splits)
  moreover have "sectors ?d = sectors (ide s)" by (simp add: s1(1) upd_ide_def)
  ultimately show ?thesis using n s1(2) by blast
qed

lemma idestart_runs:
  assumes r: "idestart b s = Inr (v, t)" "healthy (ide s)"
  shows "b_blockno (bufs s b) < FSSIZE" "\<exists>d. t = s\<lparr>ide := d\<rparr>" "healthy (ide t)"
    "armed (if b_flags (bufs s b) AND B_DIRTY \<noteq> 0 then IDE_CMD_WRITE else IDE_CMD_READ) (ide t) (bufs s b)"
    "b_flags (bufs s b) AND B_DIRTY = 0 \<Longrightarrow> sectors (ide t) = sectors (ide s)"
    "b_flags (bufs s b) AND B_DIRTY \<noteq> 0 \<Longrightarrow> sectors (ide t) = (sectors (ide s))(bit (b_dev (bufs s b)) 0 :=
       (sectors (ide s) (bit (b_dev (bufs s b)) 0))(unat (b_blockno (bufs s b)) := b_data (bufs s b)))"
proof -
  note D = idestart_drive [OF r]
  from D show n: "b_blockno (bufs s b) < FSSIZE" by blast
  from D show "\<exists>d. t = s\<lparr>ide := d\<rparr>" by blast
  have p: "ide_lba (programmed (bufs s b) d) = b_blockno (bufs s b)" "bit (reg_drive (programmed (bufs s b) d)) 4 = bit (b_dev (bufs s b)) 0"
    "sectors (programmed (bufs s b) d) = sectors d" "status_in (programmed (bufs s b) d) = status_in d" for d
    using lba_bytes [OF n] by (simp_all add: programmed_def Let_def)
  from D show "healthy (ide t)"
    "armed (if b_flags (bufs s b) AND B_DIRTY \<noteq> 0 then IDE_CMD_WRITE else IDE_CMD_READ) (ide t) (bufs s b)"
    "b_flags (bufs s b) AND B_DIRTY = 0 \<Longrightarrow> sectors (ide t) = sectors (ide s)"
    "b_flags (bufs s b) AND B_DIRTY \<noteq> 0 \<Longrightarrow> sectors (ide t) = (sectors (ide s))(bit (b_dev (bufs s b)) 0 :=
       (sectors (ide s) (bit (b_dev (bufs s b)) 0))(unat (b_blockno (bufs s b)) := b_data (bufs s b)))"
    by (auto simp: healthy_def armed_def Let_def p)
qed

section \<open>The invariant of the cache and the queue\<close>

definition live :: "iobuf \<Rightarrow> bool" where
  "live x \<longleftrightarrow> b_refcnt x \<noteq> 0 \<or> b_flags x \<noteq> 0"

definition key :: "iobuf \<Rightarrow> u32 \<times> u32" where
  "key x = (b_dev x, b_blockno x)"

definition cache_ok :: "(nat \<Rightarrow> iobuf) \<Rightarrow> ide_drive \<Rightarrow> bool" where
  "cache_ok B d \<longleftrightarrow> (\<forall>j < NBUF. (live (B j) \<longrightarrow> (\<forall>i < j. key (B i) \<noteq> key (B j))) \<and> b_flags (B j) AND B_DIRTY = 0
     \<and> (b_flags (B j) AND B_VALID \<noteq> 0 \<longrightarrow> b_data (B j) = disk_block d (B j)))"

definition request_ok :: "'a bio_scheme \<Rightarrow> u64 \<Rightarrow> bool" where
  "request_ok s r \<longleftrightarrow> byte_range sizeof_ide_request r \<subseteq> heap_used s \<and> req_buf s r < NBUF
     \<and> b_refcnt (bufs s (req_buf s r)) \<noteq> 0 \<and> b_flags (bufs s (req_buf s r)) AND B_VALID = 0
     \<and> sl_is_locked (sleeplocks s (buf_lock (req_buf s r) s))"

definition queue_ok :: "'a bio_scheme \<Rightarrow> u64 list \<Rightarrow> bool" where
  "queue_ok s reqs \<longleftrightarrow> dll_queue (ide_queue_va s) s reqs \<and> entry_count s (ide_queue_va s) = of_nat (2 * length reqs)
     \<and> distinct (map (req_buf s) reqs) \<and> (\<forall>r \<in> set reqs. request_ok s r)
     \<and> (reqs \<noteq> [] \<longrightarrow> armed IDE_CMD_READ (ide s) (bufs s (req_buf s (hd reqs))))"

definition outside_heap :: "u64 \<Rightarrow> bool" where
  "outside_heap a \<longleftrightarrow> \<not> (unat KERNEL_HEAP_START \<le> unat a \<and> unat a < unat KERNEL_HEAP_START + 2 ^ 31)"

definition disk_inv :: "'a bio_scheme \<Rightarrow> bool" where
  "disk_inv s \<longleftrightarrow> kheap_inv s \<and> outside_heap (ide_queue_va s) \<and> healthy (ide s) \<and> cache_ok (bufs s) (ide s)
     \<and> (\<exists>reqs. queue_ok s reqs)"

lemma heap_core: "core s = core t \<Longrightarrow> kheap_inv s = kheap_inv t" "core s = core t \<Longrightarrow> heap_used s = heap_used t"
  by (simp_all add: core_def kheap_inv_def heap_used_def)

lemma dll_queue_core: "core s = core t \<Longrightarrow> dll_queue q s xs = dll_queue q t xs"
  by (simp add: core_def dll_queue_def)

lemma dll_queue_bufs: "dll_queue q (s\<lparr>bufs := B\<rparr>) xs = dll_queue q s xs" "dll_queue q (s\<lparr>ide := d\<rparr>) xs = dll_queue q s xs"
  "dll_queue q (s\<lparr>req_buf := f\<rparr>) xs = dll_queue q s xs" "dll_queue q (s\<lparr>sleeplocks := l\<rparr>) xs = dll_queue q s xs"
  by (simp_all add: dll_queue_def)

lemma queue_ok_core: "core s = core t \<Longrightarrow> queue_ok s reqs = queue_ok t reqs"
  using heap_core(2) [of s t] dll_queue_core [of s t]
  by (simp add: queue_ok_def request_ok_def buf_lock_def buf_va_def) (simp add: core_def)

lemma disk_inv_core: "core s = core t \<Longrightarrow> disk_inv s = disk_inv t"
  using heap_core(1) [of s t] queue_ok_core [of s t] by (simp add: disk_inv_def) (simp add: core_def)

lemma queue_ok_mono:
  assumes q: "queue_ok s reqs" and va: "ide_queue_va t = ide_queue_va s" "bcache_va t = bcache_va s"
    and dl: "dll_queue (ide_queue_va s) t reqs" "entry_count t (ide_queue_va s) = entry_count s (ide_queue_va s)"
    and h: "heap_used s \<subseteq> heap_used t" and rb: "\<And>r. r \<in> set reqs \<Longrightarrow> req_buf t r = req_buf s r"
    and b: "\<And>r. r \<in> set reqs \<Longrightarrow> key (bufs t (req_buf s r)) = key (bufs s (req_buf s r)) \<and> b_refcnt (bufs t (req_buf s r)) \<noteq> 0
      \<and> b_flags (bufs t (req_buf s r)) = b_flags (bufs s (req_buf s r)) \<and> sl_is_locked (sleeplocks t (buf_lock (req_buf s r) s))"
    and d: "\<And>x. armed IDE_CMD_READ (ide s) x \<Longrightarrow> armed IDE_CMD_READ (ide t) x"
  shows "queue_ok t reqs"
proof -
  have "map (req_buf t) reqs = map (req_buf s) reqs" using rb by simp
  then have "distinct (map (req_buf t) reqs)" using q unfolding queue_ok_def by metis
  moreover have "request_ok t r" if "r \<in> set reqs" for r
    using q b [OF that] rb [OF that] h that va by (auto simp: queue_ok_def request_ok_def buf_lock_def buf_va_def)
  moreover have "armed IDE_CMD_READ (ide t) (bufs t (req_buf t (hd reqs)))" if "reqs \<noteq> []"
  proof -
    from that q have "armed IDE_CMD_READ (ide t) (bufs s (req_buf s (hd reqs)))" by (intro d) (simp add: queue_ok_def)
    then show ?thesis using b [of "hd reqs"] rb [of "hd reqs"] that by (auto simp: armed_def key_def)
  qed
  ultimately show ?thesis using q dl va by (simp add: queue_ok_def)
qed

lemma queue_ok_length:
  assumes "queue_ok s reqs"
  shows "length reqs \<le> NBUF"
proof -
  from assms have "distinct (map (req_buf s) reqs)" "set (map (req_buf s) reqs) \<subseteq> {..<NBUF}" by (auto simp: queue_ok_def request_ok_def)
  then have "length (map (req_buf s) reqs) \<le> card {..<NBUF}" by (metis card_mono distinct_card finite_lessThan)
  then show ?thesis by simp
qed

lemma queue_ok_empty:
  assumes "queue_ok s reqs"
  shows "entry_count s (ide_queue_va s) = 0 \<longleftrightarrow> reqs = []"
proof -
  have "unat (entry_count s (ide_queue_va s)) = 2 * length reqs"
    using assms queue_ok_length [OF assms] by (simp add: queue_ok_def unat_of_nat NBUF_def take_bit_nat_eq_self del: of_nat_mult)
  then show ?thesis by (auto simp: unat_eq_0 [symmetric])
qed

text \<open>A list determines its entries.\<close>

lemma dpath_unique:
  "dpath f p xs h \<Longrightarrow> dpath f p ys h \<Longrightarrow> h \<notin> set xs \<Longrightarrow> h \<notin> set ys \<Longrightarrow> xs = ys"
proof (induction xs arbitrary: p ys)
  case Nil
  then show ?case by (cases ys) auto
next
  case (Cons x xs)
  then show ?case by (cases ys) auto
qed

lemma dll_queue_unique:
  assumes "dll_queue h s xs" "dll_queue h s ys"
  shows "xs = ys"
proof -
  have e: "zs = []" if "dpath f 0 zs h" "h \<noteq> 0" "0 \<notin> set zs" for f zs using that by (cases zs) auto
  show ?thesis
    using assms by (auto simp: dll_queue_def dll_ok_def dest: e dpath_unique)
qed

definition queued :: "nat \<Rightarrow> 'a bio_scheme \<Rightarrow> bool" where
  "queued b s \<longleftrightarrow> (\<exists>reqs. dll_queue (ide_queue_va s) s reqs \<and> b \<in> req_buf s ` set reqs)"

lemma queued_iff: "queue_ok s reqs \<Longrightarrow> queued b s \<longleftrightarrow> b \<in> req_buf s ` set reqs"
  using dll_queue_unique [of "ide_queue_va s" s reqs] by (auto simp: queued_def queue_ok_def)

lemma buf_lock_inj:
  assumes "b < NBUF" "c < NBUF" "buf_lock b s = buf_lock c s"
  shows "b = c"
proof -
  have "584 * of_nat b = (584 * of_nat c :: u64)" using assms(3) by (simp add: buf_lock_def buf_va_def)
  then have "unat (584 * of_nat b :: u64) = unat (584 * of_nat c :: u64)" by simp
  then show ?thesis using assms(1,2) by (simp add: NBUF_def unat_mult_nowrap unat_of_nat take_bit_nat_eq_self)
qed

section \<open>Looking up a block\<close>

lemma first_buf_find: "first_buf P B is = List.find (\<lambda>i. P (B i)) is"
  by (induction "is") auto

lemma first_buf_Some:
  assumes "first_buf P B [0..<n] = Some i"
  shows "i < n \<and> P (B i) \<and> (\<forall>j < i. \<not> P (B j))"
proof -
  from assms obtain k where "k < n" "P (B k)" "i = k" "\<forall>j < k. \<not> P (B ([0..<n] ! j))"
    by (auto simp: first_buf_find find_Some_iff)
  then show ?thesis by auto
qed

lemma first_buf_None: "first_buf P B [0..<n] = None \<Longrightarrow> \<forall>j < n. \<not> P (B j)"
  by (auto simp: first_buf_find find_None_iff)

definition fresh_buf :: "u32 \<Rightarrow> u32 \<Rightarrow> iobuf \<Rightarrow> iobuf" where
  "fresh_buf dev n x = x\<lparr>b_dev := dev, b_blockno := n, b_flags := 0, b_refcnt := 1\<rparr>"

lemma bget_lookup_cases:
  assumes "bget_lookup dev n s = Inr (b, t)"
  obtains (found) c k where "b < NBUF" "key (bufs s b) = (dev, n)" "\<forall>j < b. key (bufs s j) \<noteq> (dev, n)"
    "t = upd_buf b (\<lambda>x. x\<lparr>b_refcnt := b_refcnt x + 1\<rparr>) (s\<lparr>cpus := c, locks := k\<rparr>)"
  | (recycled) c k where "b < NBUF" "reusable (bufs s b)" "\<forall>j < NBUF. key (bufs s j) \<noteq> (dev, n)"
    "t = upd_buf b (fresh_buf dev n) (s\<lparr>cpus := c, locks := k\<rparr>)"
proof -
  have K: "holds_block dev n x \<longleftrightarrow> key x = (dev, n)" for x by (auto simp: holds_block_def key_def)
  have F: "fresh_buf dev n = (\<lambda>x. x\<lparr>b_dev := dev, b_blockno := n, b_flags := 0, b_refcnt := 1\<rparr>)" by (simp add: fresh_buf_def fun_eq_iff)
  from assms obtain s1 where s1: "acquire_Spinlock bcache_lock s = Inr ((), s1)"
    and r: "(case first_buf (holds_block dev n) (bufs s1) [0..<NBUF] of
       Some b \<Rightarrow> seqn (upd (upd_buf b (\<lambda>x. x\<lparr>b_refcnt := b_refcnt x + 1\<rparr>))) (seqn (release_Spinlock bcache_lock) (ret b))
     | None \<Rightarrow> bnd (gets (\<lambda>s. first_buf reusable (bufs s) [0..<NBUF])) (\<lambda>r. case r of
         Some b \<Rightarrow> seqn (upd (upd_buf b (fresh_buf dev n))) (seqn (release_Spinlock bcache_lock) (ret b))
       | None \<Rightarrow> raise (Panic ''bget: no buffers''))) s1 = Inr (b, t)"
    unfolding F by (auto simp: bget_lookup_def seqn_Inr_iff [where n = "bnd _ _"] bnd_gets)
  from acquire_Spinlock_frame [OF s1] obtain c0 k0 where e: "s1 = s\<lparr>cpus := c0, locks := k0\<rparr>" by blast
  have rel: "\<exists>c k. t = upd_buf b f (s\<lparr>cpus := c, locks := k\<rparr>)" if "release_Spinlock bcache_lock (upd_buf b f s1) = Inr ((), t)" for f
    using release_Spinlock_frame [OF that] by (cases s) (auto simp: e upd_buf_def bio.defs)
  show thesis
  proof (cases "first_buf (holds_block dev n) (bufs s1) [0..<NBUF]")
    case (Some i)
    with r have "i = b" "release_Spinlock bcache_lock (upd_buf b (\<lambda>x. x\<lparr>b_refcnt := b_refcnt x + 1\<rparr>) s1) = Inr ((), t)"
      by (auto simp: seqn_upd seqn_Inr_iff)
    with rel first_buf_Some [OF Some] found show thesis by (auto simp: K e)
  next
    case None
    with r obtain i where i: "first_buf reusable (bufs s1) [0..<NBUF] = Some i"
      and "(seqn (upd (upd_buf i (fresh_buf dev n))) (seqn (release_Spinlock bcache_lock) (ret i))) s1 = Inr (b, t)"
      by (auto simp: bnd_gets split: option.splits)
    then have "i = b" "release_Spinlock bcache_lock (upd_buf b (fresh_buf dev n) s1) = Inr ((), t)"
      by (auto simp: seqn_upd seqn_Inr_iff)
    with rel first_buf_Some [OF i] first_buf_None [OF None] recycled show thesis by (auto simp: K e)
  qed
qed

text \<open>No reference counter is about to wrap around.\<close>

definition refs_ok :: "'a bio_scheme \<Rightarrow> bool" where
  "refs_ok s \<longleftrightarrow> (\<forall>b < NBUF. b_refcnt (bufs s b) \<noteq> UINT32_MAX)"

text \<open>What other threads rely on: the disk is unchanged and a buffer in use keeps its block and stays in use.\<close>

definition holds_on :: "'a bio_scheme \<Rightarrow> 'a bio_scheme \<Rightarrow> bool" where
  "holds_on s t \<longleftrightarrow> sectors (ide t) = sectors (ide s) \<and> bcache_va t = bcache_va s
     \<and> (\<forall>b < NBUF. b_refcnt (bufs s b) \<noteq> 0 \<longrightarrow> key (bufs t b) = key (bufs s b) \<and> b_refcnt (bufs t b) \<noteq> 0)"

lemma cache_ok_ide: "sectors d = sectors e \<Longrightarrow> cache_ok B d = cache_ok B e"
  by (simp add: cache_ok_def disk_block_def)

lemma disk_inv_bufs:
  assumes inv: "disk_inv s" and c: "cache_ok B (ide s)"
    and b: "\<And>b. b < NBUF \<Longrightarrow> b_refcnt (bufs s b) \<noteq> 0 \<Longrightarrow> queued b s \<Longrightarrow>
        key (B b) = key (bufs s b) \<and> b_refcnt (B b) \<noteq> 0 \<and> b_flags (B b) = b_flags (bufs s b)"
  shows "disk_inv (s\<lparr>bufs := B\<rparr>)"
proof -
  from inv obtain reqs where q: "queue_ok s reqs" by (auto simp: disk_inv_def)
  have "queue_ok (s\<lparr>bufs := B\<rparr>) reqs"
  proof (rule queue_ok_mono [OF q])
    show "dll_queue (ide_queue_va s) (s\<lparr>bufs := B\<rparr>) reqs" using q dll_queue_bufs by (auto simp: queue_ok_def)
    show "heap_used s \<subseteq> heap_used (s\<lparr>bufs := B\<rparr>)" by (simp add: heap_used_def)
    show "key (bufs (s\<lparr>bufs := B\<rparr>) (req_buf s r)) = key (bufs s (req_buf s r)) \<and> b_refcnt (bufs (s\<lparr>bufs := B\<rparr>) (req_buf s r)) \<noteq> 0
        \<and> b_flags (bufs (s\<lparr>bufs := B\<rparr>) (req_buf s r)) = b_flags (bufs s (req_buf s r)) \<and> sl_is_locked (sleeplocks (s\<lparr>bufs := B\<rparr>) (buf_lock (req_buf s r) s))" if "r \<in> set reqs" for r
      using q that b [of "req_buf s r"] queued_iff [OF q] by (auto simp: queue_ok_def request_ok_def)
  qed simp_all
  then show ?thesis using inv c by (auto simp: disk_inv_def kheap_inv_def)
qed

lemma bget_lookup_inv:
  assumes r: "bget_lookup dev n s = Inr (b, t)" and inv: "disk_inv s" and refs: "refs_ok s"
  shows "disk_inv t \<and> holds_on s t \<and> b < NBUF \<and> key (bufs t b) = (dev, n) \<and> b_refcnt (bufs t b) \<noteq> 0"
  using r
proof (cases rule: bget_lookup_cases)
  case (found c k)
  let ?x = "bufs s b" and ?u = "s\<lparr>cpus := c, locks := k\<rparr>"
  let ?B = "(bufs s)(b := ?x\<lparr>b_refcnt := b_refcnt ?x + 1\<rparr>)"
  have nz: "b_refcnt ?x + 1 \<noteq> 0" using refs found(1) by (simp add: refs_ok_def u32_plus_one_eq_0_iff)
  have i: "disk_inv ?u" using inv disk_inv_core [of s ?u] by (simp add: core_def)
  have "cache_ok ?B (ide s)"
    using inv found(1,2,3) by (auto simp: disk_inv_def cache_ok_def key_def live_def disk_block_def)
  then have "disk_inv (?u\<lparr>bufs := ?B\<rparr>)" using nz by (intro disk_inv_bufs [OF i]) (auto simp: key_def)
  then show ?thesis using found nz by (auto simp: holds_on_def upd_buf_def key_def)
next
  case (recycled c k)
  let ?u = "s\<lparr>cpus := c, locks := k\<rparr>" and ?B = "(bufs s)(b := fresh_buf dev n (bufs s b))"
  have i: "disk_inv ?u" using inv disk_inv_core [of s ?u] by (simp add: core_def)
  have "cache_ok ?B (ide s)"
    using inv recycled(1,3) by (auto simp: disk_inv_def cache_ok_def key_def live_def disk_block_def fresh_buf_def)
  then have "disk_inv (?u\<lparr>bufs := ?B\<rparr>)" using recycled(2) by (intro disk_inv_bufs [OF i]) (auto simp: reusable_def)
  then show ?thesis using recycled by (auto simp: holds_on_def upd_buf_def key_def fresh_buf_def reusable_def)
qed

section \<open>Requests and completions\<close>

lemma holdingsleep_locked:
  assumes "holdingsleep a s = Inr (True, t)"
  shows "sl_is_locked (sleeplocks s a)"
proof -
  from assms obtain s1 where "acquire_Spinlock (sleeplock_lock a) s = Inr ((), s1)" and l: "sl_is_locked (sleeplocks s1 a)"
    by (auto simp: holdingsleep_def op_Inr_iff split: if_splits)
  with acquire_Spinlock_frame show ?thesis by fastforce
qed

lemma kalloc_disk:
  assumes r: "kalloc n s = Inr (a, t)" and k: "kheap_inv s" and n: "n \<noteq> 0"
  shows "\<exists>tree c k. t = s\<lparr>heap_tree := tree, cpus := c, locks := k\<rparr>" "kheap_inv t" "heap_used s \<subseteq> heap_used t"
    "a \<noteq> 0 \<Longrightarrow> byte_range n a \<subseteq> heap_used t" "a \<noteq> 0 \<Longrightarrow> byte_range n a \<inter> heap_used s = {}" "a \<noteq> 0 \<Longrightarrow> \<not> outside_heap a"
proof -
  show "\<exists>tree c k. t = s\<lparr>heap_tree := tree, cpus := c, locks := k\<rparr>"
  proof (rule kalloc_cases [OF k r])
    fix c k assume "t = s\<lparr>cpus := c, locks := k\<rparr>"
    then have "t = s\<lparr>heap_tree := heap_tree s, cpus := c, locks := k\<rparr>" by simp
    then show ?thesis by blast
  qed blast
  show "kheap_inv t" "heap_used s \<subseteq> heap_used t" by (rule kheap_alloc.alloc_inv [OF k r] kheap_alloc.alloc_used [OF k r])+
  show "a \<noteq> 0 \<Longrightarrow> byte_range n a \<subseteq> heap_used t" "a \<noteq> 0 \<Longrightarrow> byte_range n a \<inter> heap_used s = {}"
    using kheap_alloc.alloc_fresh [OF k r] by auto
  assume "a \<noteq> 0"
  with k r show "\<not> outside_heap a"
  proof (cases rule: kalloc_cases)
    case (ok c k' j)
    have sh: "heap_shape (heap_tree s)" "j < KERNEL_HEAP_LEN" using k ok(1) by (simp_all add: kheap_inv_def heap_wf_def candidate_def)
    have "unat n \<le> hsz j" "unat n \<noteq> 0"
      using ok(1) n section_address(2) [OF sh] by (simp_all add: candidate_def fits_def word_le_nat_alt unat_eq_0)
    then have "hsz j \<noteq> 0" by simp
    then show ?thesis using section_address(1) [OF sh] ok(2) hoff_hsz_le [of j] by (simp add: outside_heap_def)
  qed simp
qed

lemma disk_inv_heap:
  assumes inv: "disk_inv s" and t: "t = s\<lparr>heap_tree := tree, cpus := c, locks := k\<rparr>" and h: "kheap_inv t" "heap_used s \<subseteq> heap_used t"
  shows "queue_ok s reqs \<Longrightarrow> queue_ok t reqs" "disk_inv t"
proof -
  show q: "queue_ok s reqs \<Longrightarrow> queue_ok t reqs" for reqs
    by (rule queue_ok_mono [where s = s]) (use h(2) in \<open>auto simp: t queue_ok_def request_ok_def dll_queue_def\<close>)
  then show "disk_inv t" using inv h(1) by (auto simp: disk_inv_def t)
qed

lemma insert_tail_frame:
  assumes "insert_dll_entry_tail h x s = Inr (v, t)"
  shows "t = s\<lparr>dll_next := dll_next t, dll_prev := dll_prev t, entry_count := (entry_count s)(h := entry_count s h + 1)\<rparr>"
  using assms by (cases s) (auto simp: insert_dll_entry_tail_def Let_def dll_set_defs split: if_splits)

lemma remove_head_frame:
  assumes "remove_dll_entry_head h s = Inr (x, t)" "x \<noteq> 0"
  shows "t = s\<lparr>dll_next := dll_next t, dll_prev := dll_prev t, entry_count := (entry_count s)(h := entry_count s h - 1)\<rparr>"
  using assms by (cases s) (auto simp: remove_dll_entry_head_def remove_dll_entry_def Let_def dll_set_defs split: if_splits)

text \<open>The queue without the state of the controller.\<close>

definition queue_links :: "'a bio_scheme \<Rightarrow> u64 list \<Rightarrow> bool" where
  "queue_links s reqs \<longleftrightarrow> dll_queue (ide_queue_va s) s reqs \<and> entry_count s (ide_queue_va s) = of_nat (2 * length reqs)
     \<and> distinct (map (req_buf s) reqs) \<and> (\<forall>r \<in> set reqs. request_ok s r)"

lemma queue_ok_links:
  "queue_ok s reqs \<longleftrightarrow> queue_links s reqs \<and> (reqs \<noteq> [] \<longrightarrow> armed IDE_CMD_READ (ide s) (bufs s (req_buf s (hd reqs))))"
  by (auto simp: queue_ok_def queue_links_def)

definition enqueued :: "u64 \<Rightarrow> nat \<Rightarrow> 'a bio_scheme \<Rightarrow> 'a bio_scheme \<Rightarrow> bool" where
  "enqueued req b s t \<longleftrightarrow> t = s\<lparr>req_buf := (req_buf s)(req := b), dll_next := dll_next t, dll_prev := dll_prev t,
     entry_count := (entry_count s)(ide_queue_va s := entry_count s (ide_queue_va s) + 2)\<rparr>"

lemma enqueuedD:
  assumes "enqueued req b s t"
  shows "req_buf t = (req_buf s)(req := b)" "bufs t = bufs s" "ide t = ide s" "ide_queue_va t = ide_queue_va s" "bcache_va t = bcache_va s"
    "sleeplocks t = sleeplocks s" "heap_used t = heap_used s" "kheap_inv t = kheap_inv s"
    "entry_count t (ide_queue_va s) = entry_count s (ide_queue_va s) + 2"
  by (subst assms [unfolded enqueued_def], simp add: heap_used_def kheap_inv_def)+

lemma enqueue_links:
  assumes q: "queue_ok s reqs" and b: "b < NBUF" "b_refcnt (bufs s b) \<noteq> 0" "b_flags (bufs s b) AND B_VALID = 0" "sl_is_locked (sleeplocks s (buf_lock b s))" "b \<notin> req_buf s ` set reqs"
    and req: "req \<noteq> 0" "req \<noteq> ide_queue_va s" "req \<notin> set reqs" "byte_range sizeof_ide_request req \<subseteq> heap_used s"
    and ins: "insert_dll_entry_tail (ide_queue_va s) req (s\<lparr>req_buf := (req_buf s)(req := b)\<rparr>) = Inr ((), u)"
  defines "t \<equiv> set_count (ide_queue_va s) (entry_count u (ide_queue_va s) + 1) u"
  shows "enqueued req b s t" "queue_links t (reqs @ [req])" "dll_first t (ide_queue_va s) = hd (reqs @ [req])"
proof -
  let ?q = "ide_queue_va s" and ?s = "s\<lparr>req_buf := (req_buf s)(req := b)\<rparr>"
  obtain f g where u: "u = ?s\<lparr>dll_next := f, dll_prev := g, entry_count := (entry_count ?s)(?q := entry_count ?s ?q + 1)\<rparr>"
    using insert_tail_frame [OF ins] by blast
  show e: "enqueued req b s t" by (simp add: enqueued_def t_def set_count_def u add.commute)
  note D = enqueuedD [OF e]
  have len: "length reqs \<le> NBUF" by (rule queue_ok_length [OF q])
  have c: "entry_count s ?q = of_nat (2 * length reqs)" using q by (simp add: queue_ok_def)
  have uc: "unat (entry_count s ?q) = 2 * length reqs"
    using len unfolding c by (simp add: unat_of_nat take_bit_nat_eq_self NBUF_def del: of_nat_mult)
  then have "unat (entry_count s ?q) < unat UINT32_MAX" using len by (simp add: NBUF_def)
  then have "linkable ?q ?s req reqs" using req by (auto simp: linkable_def)
  moreover have "dll_queue ?q ?s reqs" using q by (simp add: queue_ok_def dll_queue_bufs)
  ultimately have du: "dll_queue ?q u (reqs @ [req])" using dll_queue_insert ins by fastforce
  have ct: "entry_count t ?q = of_nat (2 * length (reqs @ [req]))" unfolding D(9) c by simp
  have "unat (entry_count t ?q) = 2 * length (reqs @ [req])"
    using len unfolding ct unat_of_nat by (intro mod_less) (simp add: NBUF_def)
  then have dq: "dll_queue ?q t (reqs @ [req])" using du unfolding t_def by (intro dll_queue_set_count) (simp_all add: t_def set_count_def)
  then show "dll_first t ?q = hd (reqs @ [req])" by (cases reqs) (auto simp: dll_queue_def)
  have m: "map (req_buf t) (reqs @ [req]) = map (req_buf s) reqs @ [b]" using req(3) by (simp add: D(1))
  have "request_ok t r" if "r \<in> set (reqs @ [req])" for r
    using that q b req(3,4) D by (auto simp: queue_ok_def request_ok_def buf_lock_def buf_va_def)
  moreover have "distinct (map (req_buf t) (reqs @ [req]))" unfolding m using q b(5) by (auto simp: queue_ok_def)
  ultimately show "queue_links t (reqs @ [req])" using dq ct unfolding queue_links_def D(4) by blast
qed

lemma idestart_inv:
  assumes r: "idestart b s = Inr (v, t)" and h: "healthy (ide s)" and c: "b_flags (bufs s b) AND B_DIRTY = 0"
  obtains d where "t = s\<lparr>ide := d\<rparr>" "healthy d" "armed IDE_CMD_READ d (bufs s b)" "sectors d = sectors (ide s)"
proof -
  note R = idestart_runs [OF r h]
  from R(2) obtain d where t: "t = s\<lparr>ide := d\<rparr>" by blast
  show thesis by (rule that [OF t]) (use R(3-5) c in \<open>simp_all add: t\<close>)
qed

lemma clean_valid: "f AND B_DIRTY = 0 \<Longrightarrow> f AND (B_VALID OR B_DIRTY) = f AND B_VALID" "f AND B_VALID \<noteq> 0 \<Longrightarrow> f AND B_VALID = B_VALID"
proof -
  show "f AND B_DIRTY = 0 \<Longrightarrow> f AND (B_VALID OR B_DIRTY) = f AND B_VALID" by (simp add: bit.conj_disj_distrib)
  assume "f AND B_VALID \<noteq> 0"
  then have "bit f 1" using and_push_bit_1_eq_0_iff [of 1 f] by (simp add: B_VALID_def)
  then have "f AND push_bit 1 1 = push_bit 1 1" by (intro bit_word_eqI) (auto simp: bit_simps)
  then show "f AND B_VALID = B_VALID" by (simp add: B_VALID_def)
qed

lemma queue_links_ide: "queue_links (s\<lparr>ide := d\<rparr>) reqs = queue_links s reqs"
  by (simp add: queue_links_def dll_queue_bufs request_ok_def heap_used_def buf_lock_def buf_va_def)

lemma ide_submit_inv:
  assumes r: "ide_submit b req s = Inr ((), t)" and inv: "disk_inv s" and q: "queue_ok s reqs"
    and b: "b < NBUF" "b_refcnt (bufs s b) \<noteq> 0" "b_flags (bufs s b) AND B_VALID = 0" "sl_is_locked (sleeplocks s (buf_lock b s))" "b \<notin> req_buf s ` set reqs"
    and req: "req \<noteq> 0" "req \<noteq> ide_queue_va s" "req \<notin> set reqs" "byte_range sizeof_ide_request req \<subseteq> heap_used s"
  shows "disk_inv t \<and> holds_on s t"
proof -
  from r obtain s3 u where a: "acquire_Spinlock ide_lock s = Inr ((), s3)"
    and i: "insert_dll_entry_tail (ide_queue_va s3) req (s3\<lparr>req_buf := (req_buf s3)(req := b)\<rparr>) = Inr ((), u)"
    and st: "(if req_buf u (dll_first u (ide_queue_va s3)) = b then idestart b else ret ())
       (set_count (ide_queue_va s3) (entry_count u (ide_queue_va s3) + 1) u) = Inr ((), t)"
    by (auto simp: ide_submit_def seqn_Inr_iff bnd_Inr_iff set_count_def)
  have c3: "core s3 = core s" by (rule keepsD [OF core_acquire a])
  have inv3: "disk_inv s3" "queue_ok s3 reqs" using inv q disk_inv_core [OF c3] queue_ok_core [OF c3] by simp_all
  have e: "bufs s3 = bufs s" "ide s3 = ide s" "sleeplocks s3 = sleeplocks s" "ide_queue_va s3 = ide_queue_va s" "bcache_va s3 = bcache_va s"
    "req_buf s3 = req_buf s" "heap_used s3 = heap_used s" using c3 heap_core(2) [OF c3] by (simp_all add: core_def)
  define w where "w = set_count (ide_queue_va s3) (entry_count u (ide_queue_va s3) + 1) u"
  have bl: "buf_lock b s3 = buf_lock b s" by (simp add: buf_lock_def buf_va_def e)
  have E: "enqueued req b s3 w" "queue_links w (reqs @ [req])" "dll_first w (ide_queue_va s3) = hd (reqs @ [req])"
    unfolding w_def by (rule enqueue_links [OF inv3(2) b(1) _ _ _ _ req(1) _ _ _ i]; use b req bl e in simp)+
  note D = enqueuedD [OF E(1)]
  have f: "req_buf u (dll_first u (ide_queue_va s3)) = (if reqs = [] then b else req_buf s (hd reqs))"
  proof -
    have "req_buf u = req_buf w" "dll_first u = dll_first w" by (simp_all add: w_def set_count_def)
    then show ?thesis using E(3) D(1) req(3) by (cases reqs) (auto simp: e)
  qed
  have cl: "b_flags (bufs w b) AND B_DIRTY = 0" using inv b(1) by (simp add: D e disk_inv_def cache_ok_def)
  have hl: "healthy (ide w)" using inv by (simp add: D e disk_inv_def)
  obtain d where t: "t = w\<lparr>ide := d\<rparr>" "healthy d" "sectors d = sectors (ide s)"
    and ar: "armed IDE_CMD_READ d (bufs w (req_buf w (hd (reqs @ [req]))))"
  proof (cases "reqs = []")
    case True
    with st f have "idestart b w = Inr ((), t)" by (simp add: w_def)
    then show thesis by (rule idestart_inv [OF _ hl cl]) (rule that, use True D e in simp_all)
  next
    case False
    then have "req_buf s (hd reqs) \<noteq> b" using b(5) by auto
    with st f False have "t = w" by (simp add: w_def)
    moreover have "armed IDE_CMD_READ (ide w) (bufs w (req_buf w (hd (reqs @ [req]))))"
      using q False req(3) by (auto simp: queue_ok_def D e)
    ultimately show thesis using hl by (intro that [of "ide w"]) (simp_all add: D e)
  qed
  have "queue_ok t (reqs @ [req])" using E(2) ar by (simp add: queue_ok_links t(1) queue_links_ide)
  moreover have "cache_ok (bufs t) (ide t)" using inv cache_ok_ide [OF t(3)] by (simp add: t(1) D e disk_inv_def)
  moreover have "kheap_inv t" using inv3 D(8) by (simp add: t(1) disk_inv_def kheap_inv_def)
  ultimately show ?thesis using inv t D e by (auto simp: disk_inv_def holds_on_def)
qed

lemma iderw_begin_inv:
  assumes r: "iderw_begin b s = Inr ((), t)" and inv: "disk_inv s"
    and b: "b < NBUF" "b_refcnt (bufs s b) \<noteq> 0" "\<not> queued b s"
  shows "disk_inv t \<and> holds_on s t"
proof -
  from r obtain s1 req s2 where h: "holdingsleep (buf_lock b s) s = Inr (True, s1)"
    and fl: "b_flags (bufs s1 b) AND (B_VALID OR B_DIRTY) \<noteq> B_VALID"
    and k: "kalloc sizeof_ide_request s1 = Inr (req, s2)" "req \<noteq> 0" and st: "ide_submit b req s2 = Inr ((), t)"
    by (auto simp: iderw_begin_def bnd_gets seqn_Inr_iff bnd_Inr_iff split: if_splits)
  have lk: "sl_is_locked (sleeplocks s (buf_lock b s))" by (rule holdingsleep_locked [OF h])
  have c1: "core s1 = core s" by (rule keepsD [OF core_holdingsleep h])
  have inv1: "disk_inv s1" using inv disk_inv_core [OF c1] by simp
  from inv obtain reqs where q: "queue_ok s reqs" by (auto simp: disk_inv_def)
  have q1: "queue_ok s1 reqs" using q queue_ok_core [OF c1] by simp
  have n: "sizeof_ide_request \<noteq> 0" by (simp add: sizeof_ide_request_def)
  have k1: "kheap_inv s1" using inv1 by (simp add: disk_inv_def)
  note K = kalloc_disk [OF k(1) k1 n]
  from K(1) obtain tree c l where s2: "s2 = s1\<lparr>heap_tree := tree, cpus := c, locks := l\<rparr>" by blast
  have inv2: "disk_inv s2" "queue_ok s2 reqs" using disk_inv_heap [OF inv1 s2 K(2,3)] q1 by auto
  have e: "bufs s2 = bufs s" "ide s2 = ide s" "sleeplocks s2 = sleeplocks s" "ide_queue_va s2 = ide_queue_va s" "bcache_va s2 = bcache_va s"
    "req_buf s2 = req_buf s" using c1 by (simp_all add: core_def s2)
  have bl: "buf_lock b s2 = buf_lock b s" by (simp add: buf_lock_def buf_va_def e)
  have nq: "b \<notin> req_buf s ` set reqs" using b(3) queued_iff [OF q] by simp
  have nv: "b_flags (bufs s b) AND B_VALID = 0"
    using fl c1 inv b(1) clean_valid [of "b_flags (bufs s b)"] by (auto simp: core_def disk_inv_def cache_ok_def)
  have req: "req \<noteq> ide_queue_va s" using K(6) [OF k(2)] inv by (auto simp: disk_inv_def)
  have "unat req \<in> byte_range sizeof_ide_request req" by (simp add: byte_range_def sizeof_ide_request_def)
  then have "req \<notin> set reqs" using K(5) [OF k(2)] q1 by (auto simp: queue_ok_def request_ok_def)
  then have "disk_inv t \<and> holds_on s2 t"
    using b lk nv nq req bl e by (intro ide_submit_inv [OF st inv2 b(1) _ _ _ _ k(2) _ _ K(4) [OF k(2)]]) simp_all
  then show ?thesis by (simp add: holds_on_def e)
qed

lemma queue_links_core: "core s = core t \<Longrightarrow> queue_links s reqs = queue_links t reqs"
  using heap_core(2) [of s t] dll_queue_core [of s t]
  by (simp add: queue_links_def request_ok_def buf_lock_def buf_va_def) (simp add: core_def)

lemma queue_links_bufs:
  "(\<And>r. r \<in> set reqs \<Longrightarrow> b_refcnt (B (req_buf s r)) = b_refcnt (bufs s (req_buf s r)) \<and> b_flags (B (req_buf s r)) = b_flags (bufs s (req_buf s r)))
     \<Longrightarrow> queue_links (s\<lparr>bufs := B\<rparr>) reqs = queue_links s reqs"
  by (simp add: queue_links_def dll_queue_bufs request_ok_def heap_used_def buf_lock_def buf_va_def)

text \<open>A finished read leaves the cache consistent.\<close>

lemma cache_ok_finished:
  assumes "cache_ok B d" "b_refcnt (B b) \<noteq> 0"
  shows "cache_ok (B(b := (B b)\<lparr>b_data := disk_block d (B b), b_flags := (b_flags (B b) OR B_VALID) AND NOT B_DIRTY\<rparr>)) d"
proof -
  have "((f OR B_VALID) AND NOT B_DIRTY) AND B_DIRTY = 0" for f by (rule bit_word_eqI) (simp add: bit_simps)
  then show ?thesis using assms by (auto simp: cache_ok_def key_def live_def disk_block_def)
qed

lemma dequeue_links:
  assumes q: "queue_ok s (r # rs)" and rm: "remove_dll_entry_head (ide_queue_va s) s = Inr (x, u)"
  defines "t \<equiv> set_count (ide_queue_va s) (entry_count u (ide_queue_va s) - 1) u"
  shows "x = r" "\<exists>f g n. t = s\<lparr>dll_next := f, dll_prev := g, entry_count := n\<rparr>" "queue_links t rs" "rs \<noteq> [] \<Longrightarrow> dll_first t (ide_queue_va s) = hd rs"
    "entry_count t (ide_queue_va s) = 0 \<longleftrightarrow> rs = []"
proof -
  let ?q = "ide_queue_va s"
  have dq: "dll_queue ?q s (r # rs)" using q by (simp add: queue_ok_def)
  with dll_queue_remove_head [OF dq] rm show x: "x = r" by auto
  from dll_queue_remove_head [OF dq] rm have du: "dll_queue ?q u rs" by auto
  have "x \<noteq> 0" using dq x by (auto simp: dll_queue_def dll_ok_def)
  from remove_head_frame [OF rm this] obtain f g where
    u: "u = s\<lparr>dll_next := f, dll_prev := g, entry_count := (entry_count s)(?q := entry_count s ?q - 1)\<rparr>" by blast
  have t: "t = s\<lparr>dll_next := f, dll_prev := g, entry_count := (entry_count s)(?q := entry_count s ?q - 2)\<rparr>"
    by (simp add: t_def set_count_def u)
  then show "\<exists>f g n. t = s\<lparr>dll_next := f, dll_prev := g, entry_count := n\<rparr>" by blast
  have len: "Suc (length rs) \<le> NBUF" using queue_ok_length [OF q] by simp
  have ct: "entry_count t ?q = of_nat (2 * length rs)" using q by (simp add: t queue_ok_def algebra_simps)
  have uc: "unat (entry_count t ?q) = 2 * length rs"
    using len unfolding ct unat_of_nat by (intro mod_less) (simp add: NBUF_def)
  then show "entry_count t ?q = 0 \<longleftrightarrow> rs = []" by (auto simp: unat_eq_0 [symmetric])
  have dt: "dll_queue ?q t rs" using du uc unfolding t_def by (intro dll_queue_set_count) (simp_all add: set_count_def)
  then show "rs \<noteq> [] \<Longrightarrow> dll_first t ?q = hd rs" by (cases rs) (auto simp: dll_queue_def)
  have "request_ok t y" if "y \<in> set rs" for y
    using that q by (auto simp: queue_ok_def request_ok_def t heap_used_def buf_lock_def buf_va_def)
  then show "queue_links t rs" using dt ct q by (simp add: queue_links_def t queue_ok_def)
qed

lemma ide_finish_reads:
  assumes f: "ide_finish b s = Inr ((), t)" and h: "healthy (ide s)" and cl: "b_flags (bufs s b) AND B_DIRTY = 0"
    and ar: "armed IDE_CMD_READ (ide s) (bufs s b)"
  shows "\<exists>st. healthy ((ide s)\<lparr>status_in := st\<rparr>) \<and> core t = core (s\<lparr>ide := (ide s)\<lparr>status_in := st\<rparr>,
     bufs := (bufs s)(b := (bufs s b)\<lparr>b_data := disk_block (ide s) (bufs s b), b_flags := (b_flags (bufs s b) OR B_VALID) AND NOT B_DIRTY\<rparr>)\<rparr>)"
proof -
  from f cl obtain r s1 s2 where w: "idewait True s = Inr (r, s1)"
    and i: "(if r \<ge> 0 then bnd insl (\<lambda>bs. upd (upd_buf b (\<lambda>x. x\<lparr>b_data := bs\<rparr>))) else ret ()) s1 = Inr ((), s2)"
    and k: "Wakeup (buf_va b s2) (upd_buf b (\<lambda>x. x\<lparr>b_flags := (b_flags x OR B_VALID) AND NOT B_DIRTY\<rparr>) s2) = Inr ((), t)"
    by (auto simp: ide_finish_def seqn_Inr_iff bnd_Inr_iff upd_buf_def buf_va_def)
  from idewait_healthy [OF w h] obtain st where s1: "r = 0" "s1 = upd_ide (\<lambda>d. d\<lparr>status_in := st\<rparr>) s" "healthy (ide s1)" by blast
  have "ide_lba ((ide s)\<lparr>status_in := st\<rparr>) = ide_lba (ide s)" by (simp add: ide_lba_def)
  then have "s2 = upd_buf b (\<lambda>x. x\<lparr>b_data := disk_block (ide s) (bufs s b)\<rparr>) s1"
    using i ar by (auto simp: s1(1,2) insl_def bnd_Inr_iff seqn_Inr_iff upd_ide_def armed_def disk_block_def)
  moreover have "core t = core (upd_buf b (\<lambda>x. x\<lparr>b_flags := (b_flags x OR B_VALID) AND NOT B_DIRTY\<rparr>) s2)"
    by (rule keepsD [OF core_Wakeup k])
  ultimately show ?thesis using s1(3) by (intro exI [of _ st]) (simp add: s1(2) upd_ide_def upd_buf_def core_def)
qed

lemma ideintr_cases:
  assumes "ideintr s = Inr ((), t)"
  obtains (idle) s1 where "acquire_Spinlock ide_lock s = Inr ((), s1)" "entry_count s1 (ide_queue_va s1) = 0" "release_Spinlock ide_lock s1 = Inr ((), t)"
  | (active) s1 req u s4 s5 x s6 where "acquire_Spinlock ide_lock s = Inr ((), s1)" "entry_count s1 (ide_queue_va s1) \<noteq> 0"
      "remove_dll_entry_head (ide_queue_va s1) s1 = Inr (req, u)"
      "ide_finish (req_buf u req) (set_count (ide_queue_va s1) (entry_count u (ide_queue_va s1) - 1) u) = Inr ((), s4)"
      "ide_next (ide_queue_va s1) s4 = Inr ((), s5)" "kfree req s5 = Inr (x, s6)" "release_Spinlock ide_lock s6 = Inr ((), t)"
proof -
  from assms obtain s1 where a: "acquire_Spinlock ide_lock s = Inr ((), s1)"
    and r: "bnd (gets ide_queue_va) (\<lambda>q. bnd (gets (\<lambda>s. entry_count s q)) (\<lambda>n.
       if n = 0 then release_Spinlock ide_lock
       else bnd (remove_dll_entry_head q) (\<lambda>req.
         seqn (upd (\<lambda>s. set_count q (entry_count s q - 1) s))
        (if req = 0 then raise (Panic ''ideintr() --> got NULL dll_Entry! Condition should not exist.'')
         else bnd (gets (\<lambda>s. req_buf s req)) (\<lambda>b.
           seqn (ide_finish b) (seqn (ide_next q) (seqn (kfree req) (release_Spinlock ide_lock)))))))) s1 = Inr ((), t)"
    unfolding ideintr_def by (auto simp: seqn_Inr_iff [where n = "bnd (gets ide_queue_va) _"])
  show thesis
  proof (cases "entry_count s1 (ide_queue_va s1) = 0")
    case True
    with a r idle show thesis by (simp add: bnd_gets)
  next
    case False
    from r False show thesis
      by (auto simp: bnd_gets seqn_upd bnd_Inr_iff seqn_Inr_iff set_count_def split: if_splits intro: active [OF a False, unfolded set_count_def])
  qed
qed

lemma ideintr_inv:
  assumes r: "ideintr s = Inr ((), t)" and inv: "disk_inv s"
  shows "disk_inv t \<and> holds_on s t"
  using r
proof (cases rule: ideintr_cases)
  case (idle s1)
  have "core t = core s" using keepsD [OF core_release idle(3)] keepsD [OF core_acquire idle(1)] by simp
  then show ?thesis using inv disk_inv_core [of t s] by (simp add: holds_on_def core_def)
next
  case (active s1 req u s4 s5 x s6)
  have c1: "core s1 = core s" by (rule keepsD [OF core_acquire active(1)])
  have inv1: "disk_inv s1" using inv disk_inv_core [OF c1] by simp
  then obtain reqs where "queue_ok s1 reqs" by (auto simp: disk_inv_def)
  with active(2) queue_ok_empty obtain r rs where q: "queue_ok s1 (r # rs)" by (metis list.exhaust)
  define w where "w = set_count (ide_queue_va s1) (entry_count u (ide_queue_va s1) - 1) u"
  note D = dequeue_links [OF q active(3), folded w_def]
  from D(2) obtain f g n where w: "w = s1\<lparr>dll_next := f, dll_prev := g, entry_count := n\<rparr>" by blast
  let ?b = "req_buf s1 r" and ?q = "ide_queue_va s1"
  have b: "?b < NBUF" "b_refcnt (bufs s1 ?b) \<noteq> 0" "armed IDE_CMD_READ (ide s1) (bufs s1 ?b)"
    using q by (auto simp: queue_ok_def request_ok_def)
  have cl: "b_flags (bufs s1 i) AND B_DIRTY = 0" if "i < NBUF" for i using inv1 that by (simp add: disk_inv_def cache_ok_def)
  have ub: "req_buf u req = ?b"
  proof -
    have "req_buf u = req_buf w" by (simp add: w_def set_count_def)
    then show ?thesis by (simp add: w D(1))
  qed
  let ?B = "(bufs s1)(?b := (bufs s1 ?b)\<lparr>b_data := disk_block (ide s1) (bufs s1 ?b), b_flags := (b_flags (bufs s1 ?b) OR B_VALID) AND NOT B_DIRTY\<rparr>)"
  have hl: "healthy (ide s1)" using inv1 by (simp add: disk_inv_def)
  from active(4) have "ide_finish ?b w = Inr ((), s4)" by (simp add: ub w_def)
  then obtain st where st: "healthy ((ide s1)\<lparr>status_in := st\<rparr>)" "core s4 = core (w\<lparr>ide := (ide s1)\<lparr>status_in := st\<rparr>, bufs := ?B\<rparr>)"
    using ide_finish_reads [of ?b w s4] b(1,3) cl hl by (auto simp: w)
  have e: "bufs s4 = ?B" "ide s4 = (ide s1)\<lparr>status_in := st\<rparr>" "req_buf s4 = req_buf s1" "ide_queue_va s4 = ?q" "bcache_va s4 = bcache_va s1"
    "dll_first s4 ?q = dll_first w ?q" "entry_count s4 ?q = entry_count w ?q" using st(2) by (simp_all add: core_def w)
  have hq: "?b \<notin> req_buf s1 ` set rs" "\<forall>y \<in> set rs. req_buf s1 y < NBUF" using q by (auto simp: queue_ok_def request_ok_def)
  have ne: "req_buf s1 y \<noteq> ?b" if "y \<in> set rs" for y using hq(1) that by (metis imageI)
  have "queue_links (w\<lparr>ide := (ide s1)\<lparr>status_in := st\<rparr>, bufs := ?B\<rparr>) rs"
    using D(3) by (subst queue_links_bufs) (simp_all add: queue_links_ide w ne)
  then have l4: "queue_links s4 rs" using queue_links_core [OF st(2)] by simp
  have k4: "kheap_inv s4" using heap_core(1) [OF st(2)] inv1 by (simp add: w disk_inv_def kheap_inv_def)
  obtain d where s5: "s5 = s4\<lparr>ide := d\<rparr>" "healthy d" "sectors d = sectors (ide s1)"
    and ar: "rs \<noteq> [] \<Longrightarrow> armed IDE_CMD_READ d (?B (req_buf s1 (hd rs)))"
  proof (cases "rs = []")
    case True
    with active(5) D(5) have "s5 = s4" by (simp add: ide_next_def bnd_gets e)
    with True st(1) show thesis by (intro that [of "ide s4"]) (simp_all add: e)
  next
    case False
    then have "hd rs \<in> set rs" by simp
    with hq have h: "req_buf s1 (hd rs) < NBUF" "req_buf s1 (hd rs) \<noteq> ?b" by (blast, metis imageI)
    from False active(5) D(4,5) have "idestart (req_buf s1 (hd rs)) s4 = Inr ((), s5)" by (simp add: ide_next_def bnd_gets e)
    then show thesis
      by (rule idestart_inv) (use st(1) cl h in \<open>auto simp: e intro: that\<close>)
  qed
  have "queue_ok s5 rs" using l4 ar by (simp add: queue_ok_links s5(1) queue_links_ide e)
  moreover have "cache_ok ?B d" using cache_ok_finished [of "bufs s1" "ide s1" ?b] b(2) inv1 cache_ok_ide [OF s5(3)] by (simp add: disk_inv_def)
  ultimately have "disk_inv s5" using inv1 k4 s5(2) by (auto simp: disk_inv_def s5(1) e kheap_inv_def)
  moreover have "holds_on s s5" using c1 by (auto simp: holds_on_def s5 e core_def key_def)
  moreover have "core t = core s5" using keepsD [OF core_release active(7)] keepsD [OF core_kfree active(6)] by simp
  ultimately show ?thesis using disk_inv_core [of t s5] by (simp add: holds_on_def core_def)
qed

section \<open>Locking a buffer and giving it back\<close>

lemma core_sleeplock: "core (upd_sleeplock a f s) = core (s\<lparr>sleeplocks := (sleeplocks s)(a := f (sleeplocks s a))\<rparr>)"
  by (simp add: upd_sleeplock_def)

lemma disk_inv_sleeplocks:
  assumes inv: "disk_inv s" and l: "\<And>b. b < NBUF \<Longrightarrow> queued b s \<Longrightarrow> sl_is_locked (l (buf_lock b s))"
  shows "disk_inv (s\<lparr>sleeplocks := l\<rparr>)"
proof -
  from inv obtain reqs where q: "queue_ok s reqs" by (auto simp: disk_inv_def)
  have "queue_ok (s\<lparr>sleeplocks := l\<rparr>) reqs"
    by (rule queue_ok_mono [OF q]) (use q l queued_iff [OF q] in \<open>auto simp: queue_ok_def request_ok_def dll_queue_bufs heap_used_def\<close>)
  then show ?thesis using inv by (auto simp: disk_inv_def kheap_inv_def)
qed

lemma queued_locked: "disk_inv s \<Longrightarrow> queued b s \<Longrightarrow> b < NBUF \<and> sl_is_locked (sleeplocks s (buf_lock b s)) \<and> b_flags (bufs s b) AND B_VALID = 0"
  using queued_iff [of s _ b] by (auto simp: disk_inv_def queue_ok_def request_ok_def)

lemma queued_sleeplocks: "queued b (s\<lparr>sleeplocks := l\<rparr>) = queued b s"
  by (simp add: queued_def dll_queue_bufs)

lemma queued_core: "core s = core t \<Longrightarrow> queued b s = queued b t"
  using dll_queue_core [of s t] by (simp add: queued_def core_def)

text \<open>While a buffer is released only that buffer may lose its last reference.\<close>

definition holds_on_but :: "nat \<Rightarrow> 'a bio_scheme \<Rightarrow> 'a bio_scheme \<Rightarrow> bool" where
  "holds_on_but b s t \<longleftrightarrow> sectors (ide t) = sectors (ide s) \<and> bcache_va t = bcache_va s
     \<and> (\<forall>c < NBUF. c \<noteq> b \<longrightarrow> b_refcnt (bufs s c) \<noteq> 0 \<longrightarrow> key (bufs t c) = key (bufs s c) \<and> b_refcnt (bufs t c) \<noteq> 0)"

lemma brelse_inv:
  assumes r: "brelse b s = Inr ((), t)" and inv: "disk_inv s" and b: "b < NBUF" "\<not> queued b s" "b_refcnt (bufs s b) \<noteq> 0"
  shows "disk_inv t \<and> holds_on_but b s t"
proof -
  let ?f = "\<lambda>l. l\<lparr>sl_is_locked := False, sl_owner_tid := UINT32_MAX\<rparr>"
  from r obtain s1 s2 s3 s4 s5 where h: "holdingsleep (buf_lock b s) s = Inr (True, s1)"
    and a: "acquire_Spinlock (sleeplock_lock (buf_lock b s1)) s1 = Inr ((), s2)"
    and rl: "release_Spinlock (sleeplock_lock (buf_lock b s1)) (upd_sleeplock (buf_lock b s1) ?f s2) = Inr ((), s3)"
    and w: "Wakeup (buf_lock b s1) s3 = Inr ((), s4)" and a2: "acquire_Spinlock bcache_lock s4 = Inr ((), s5)"
    and r2: "release_Spinlock bcache_lock (upd_buf b (\<lambda>x. x\<lparr>b_refcnt := b_refcnt x - 1\<rparr>) s5) = Inr ((), t)"
    unfolding brelse_def release_Sleeplock_def by (auto simp: bnd_gets bnd_Inr_iff seqn_Inr_iff split: if_splits)
  let ?a = "buf_lock b s" and ?l = "(sleeplocks s)(buf_lock b s := ?f (sleeplocks s (buf_lock b s)))"
  have c1: "core s1 = core s" by (rule keepsD [OF core_holdingsleep h])
  then have e1: "buf_lock b s1 = ?a" by (simp add: core_def buf_lock_def buf_va_def)
  have "core s2 = core s" using keepsD [OF core_acquire a] c1 by simp
  then have "core (upd_sleeplock ?a ?f s2) = core (s\<lparr>sleeplocks := ?l\<rparr>)" by (simp add: core_def upd_sleeplock_def)
  then have c5: "core s5 = core (s\<lparr>sleeplocks := ?l\<rparr>)"
    using keepsD [OF core_release rl] keepsD [OF core_Wakeup w] keepsD [OF core_acquire a2] e1 by simp
  let ?s = "s\<lparr>sleeplocks := ?l\<rparr>"
  have "disk_inv ?s"
    using inv b by (intro disk_inv_sleeplocks) (auto dest: buf_lock_inj queued_locked)
  then have i5: "disk_inv s5" using disk_inv_core [OF c5] by simp
  have q5: "\<not> queued b s5" using b(2) queued_core [OF c5] by (simp add: queued_sleeplocks)
  have e5: "bufs s5 = bufs s" "ide s5 = ide s" "bcache_va s5 = bcache_va s" using c5 by (simp_all add: core_def)
  let ?B = "(bufs s5)(b := (bufs s5 b)\<lparr>b_refcnt := b_refcnt (bufs s5 b) - 1\<rparr>)"
  have "cache_ok ?B (ide s5)"
    using i5 b(3) by (auto simp: disk_inv_def cache_ok_def key_def live_def disk_block_def e5)
  moreover have "c \<noteq> b" if "queued c s5" for c using that q5 by blast
  ultimately have "disk_inv (s5\<lparr>bufs := ?B\<rparr>)" by (intro disk_inv_bufs [OF i5]) auto
  moreover have ct: "core t = core (s5\<lparr>bufs := ?B\<rparr>)" using keepsD [OF core_release r2] by (simp add: upd_buf_def)
  ultimately have "disk_inv t" using disk_inv_core [OF ct] by simp
  moreover have "bufs t = ?B" "ide t = ide s" "bcache_va t = bcache_va s" using ct e5 by (simp_all add: core_def)
  ultimately show ?thesis by (simp add: holds_on_but_def e5)
qed

text \<open>What the rest of the machine may do while a thread sleeps: it keeps the invariant, does not write the disk, and
  leaves the buffers that are in use to their users.\<close>

definition calm :: "('a bio_scheme \<Rightarrow> fault + unit \<times> 'a bio_scheme) \<Rightarrow> bool" where
  "calm int3 \<longleftrightarrow> (\<forall>u v. disk_inv u \<longrightarrow> int3 u = Inr ((), v) \<longrightarrow> disk_inv v \<and> holds_on u v)"

lemma holds_on_refl: "holds_on s s"
  by (simp add: holds_on_def)

lemma holds_on_trans: "holds_on s t \<Longrightarrow> holds_on t u \<Longrightarrow> holds_on s u"
  by (auto simp: holds_on_def)

lemma holds_on_core: "core t = core u \<Longrightarrow> holds_on s t = holds_on s u"
  by (simp add: holds_on_def core_def)

lemma ThreadSleep_calm:
  assumes c: "calm int3" and r: "ThreadSleep int3 ch l s = Inr ((), t)" and inv: "disk_inv s"
  shows "disk_inv t \<and> holds_on s t"
proof -
  from r obtain k s1 b s2 s3 where g: "GetCurrentThread s = Inr (Some k, s1)" and bg: "ThreadSleep_begin ch l s1 = Inr (b, s2)"
    and i: "(if b then int3 else ret ()) s2 = Inr ((), s3)" and e: "ThreadSleep_end k l s3 = Inr ((), t)"
    by (auto simp: ThreadSleep_def bnd_Inr_iff seqn_Inr_iff deref_def split: option.splits)
  have c2: "core s2 = core s" using keepsD [OF core_current_thread g] keepsD [OF core_ThreadSleep_begin bg] by simp
  have ct: "core t = core s3" by (rule keepsD [OF core_ThreadSleep_end e])
  have i2: "disk_inv s2" "holds_on s s2" using inv disk_inv_core [OF c2] holds_on_core [OF c2] holds_on_refl by simp_all
  have "disk_inv s3 \<and> holds_on s s3"
  proof (cases b)
    case True
    with i c i2 show ?thesis by (auto simp: calm_def intro: holds_on_trans)
  next
    case False
    with i i2 show ?thesis by simp
  qed
  then show ?thesis using disk_inv_core [OF ct] holds_on_core [OF ct] by simp
qed

lemma sleep_loop_calm:
  assumes c: "calm int3" and w: "while_do C (\<lambda>u. ThreadSleep int3 (ch u) l u) s = Inr ((), t)" and inv: "disk_inv s"
  shows "disk_inv t \<and> holds_on s t \<and> \<not> C t"
proof -
  have "(disk_inv t \<and> holds_on s t) \<and> \<not> C t"
    by (rule while_do_rule [OF w]) (use inv holds_on_refl in \<open>auto dest: ThreadSleep_calm [OF c] intro: holds_on_trans\<close>)
  then show ?thesis by simp
qed

lemma acquire_Sleeplock_calm:
  assumes c: "calm int3" and r: "acquire_Sleeplock int3 (buf_lock b s) s = Inr ((), t)" and inv: "disk_inv s" and b: "b < NBUF"
  shows "disk_inv t \<and> holds_on s t \<and> \<not> queued b t"
proof -
  let ?a = "buf_lock b s"
  from r obtain s1 s2 k s4 where a: "acquire_Spinlock (sleeplock_lock ?a) s = Inr ((), s1)"
    and w: "while_do (\<lambda>s. sl_is_locked (sleeplocks s ?a)) (ThreadSleep int3 ?a (sleeplock_lock ?a)) s1 = Inr ((), s2)"
    and g: "GetCurrentThread (upd_sleeplock ?a (\<lambda>l. l\<lparr>sl_is_locked := True\<rparr>) s2) = Inr (Some k, s4)"
    and rl: "release_Spinlock (sleeplock_lock ?a) (upd_sleeplock ?a (\<lambda>l. l\<lparr>sl_owner_tid := thread_id (threads s4 k)\<rparr>) s4) = Inr ((), t)"
    by (auto simp: acquire_Sleeplock_def seqn_Inr_iff bnd_Inr_iff deref_def split: option.splits)
  have c1: "core s1 = core s" by (rule keepsD [OF core_acquire a])
  have i1: "disk_inv s1" using inv disk_inv_core [OF c1] by simp
  have i2: "disk_inv s2" "holds_on s1 s2" "\<not> sl_is_locked (sleeplocks s2 ?a)"
    using sleep_loop_calm [OF c, where ch = "\<lambda>_. ?a", OF w i1] by auto
  have h2: "holds_on s s2" using i2(2) c1 by (simp add: holds_on_def core_def)
  have bl: "buf_lock b s2 = ?a" using h2 by (simp add: holds_on_def buf_lock_def buf_va_def)
  have q2: "\<not> queued b s2" using queued_locked [OF i2(1), of b] i2(3) bl by auto
  define l where "l = (sleeplocks s2)(?a := (sleeplocks s2 ?a)\<lparr>sl_is_locked := True, sl_owner_tid := thread_id (threads s4 k)\<rparr>)"
  have "core s4 = core (upd_sleeplock ?a (\<lambda>l. l\<lparr>sl_is_locked := True\<rparr>) s2)" by (rule keepsD [OF core_current_thread g])
  then have ct: "core t = core (s2\<lparr>sleeplocks := l\<rparr>)"
    using keepsD [OF core_release rl] by (simp add: core_def upd_sleeplock_def l_def)
  have "disk_inv (s2\<lparr>sleeplocks := l\<rparr>)"
    by (rule disk_inv_sleeplocks [OF i2(1)]) (use queued_locked [OF i2(1)] in \<open>auto simp: l_def\<close>)
  then have "disk_inv t" using disk_inv_core [OF ct] by simp
  moreover have "holds_on s t" using h2 ct by (simp add: holds_on_def core_def)
  moreover have "\<not> queued b t" using q2 queued_core [OF ct] by (simp add: queued_sleeplocks)
  ultimately show ?thesis by blast
qed

lemma iderw_calm:
  assumes c: "calm int3" and r: "iderw int3 b s = Inr ((), t)" and inv: "disk_inv s"
    and b: "b < NBUF" "b_refcnt (bufs s b) \<noteq> 0" "\<not> queued b s"
  shows "disk_inv t \<and> holds_on s t \<and> b_flags (bufs t b) AND B_VALID \<noteq> 0"
proof -
  let ?C = "\<lambda>s. b_flags (bufs s b) AND (B_VALID OR B_DIRTY) \<noteq> B_VALID"
  have body: "bnd (gets (buf_va b)) (\<lambda>ch. ThreadSleep int3 ch ide_lock) = (\<lambda>u. ThreadSleep int3 (buf_va b u) ide_lock u)"
    by (simp add: bnd_gets fun_eq_iff)
  from r obtain s1 s2 where s1: "iderw_begin b s = Inr ((), s1)"
    and w: "while_do ?C (\<lambda>u. ThreadSleep int3 (buf_va b u) ide_lock u) s1 = Inr ((), s2)" and rl: "release_Spinlock ide_lock s2 = Inr ((), t)"
    by (auto simp: iderw_def body seqn_Inr_iff)
  have i1: "disk_inv s1" "holds_on s s1" using iderw_begin_inv [OF s1 inv b] by auto
  have i2: "disk_inv s2" "holds_on s1 s2" "b_flags (bufs s2 b) AND (B_VALID OR B_DIRTY) = B_VALID"
    using sleep_loop_calm [OF c w i1(1)] by auto
  have "b_flags (bufs s2 b) AND B_VALID = B_VALID"
    using i2(1,3) b(1) clean_valid(1) [of "b_flags (bufs s2 b)"] by (simp add: disk_inv_def cache_ok_def)
  moreover have ct: "core t = core s2" by (rule keepsD [OF core_release rl])
  ultimately have "b_flags (bufs t b) AND B_VALID \<noteq> 0" by (simp add: core_def B_VALID_def)
  then show ?thesis using i2 disk_inv_core [OF ct] holds_on_core [OF ct] holds_on_trans [OF i1(2) i2(2)] by simp
qed

lemma bread_reads_disk:
  assumes c: "calm int3" and r: "bread int3 dev n s = Inr (b, t)" and inv: "disk_inv s" and refs: "refs_ok s"
  shows "disk_inv t \<and> holds_on s t \<and> b < NBUF \<and> key (bufs t b) = (dev, n) \<and> b_refcnt (bufs t b) \<noteq> 0 \<and> \<not> queued b t
     \<and> b_data (bufs t b) = sectors (ide s) (bit dev 0) (unat n)"
proof -
  from r obtain s1 s2 where l: "bget_lookup dev n s = Inr (b, s1)" and a: "acquire_Sleeplock int3 (buf_lock b s1) s1 = Inr ((), s2)"
    and w: "(if b_flags (bufs s2 b) AND B_VALID = 0 then iderw int3 b else ret ()) s2 = Inr ((), t)"
    by (auto simp: bread_def bget_def bnd_Inr_iff seqn_Inr_iff)
  have i1: "disk_inv s1" "holds_on s s1" "b < NBUF" "key (bufs s1 b) = (dev, n)" "b_refcnt (bufs s1 b) \<noteq> 0"
    using bget_lookup_inv [OF l inv refs] by auto
  have i2: "disk_inv s2" "holds_on s1 s2" "\<not> queued b s2" using acquire_Sleeplock_calm [OF c a i1(1,3)] by auto
  have r2: "b_refcnt (bufs s2 b) \<noteq> 0" using i1(3,5) i2(2) by (simp add: holds_on_def)
  have t: "disk_inv t" "holds_on s2 t" "b_flags (bufs t b) AND B_VALID \<noteq> 0"
    using w iderw_calm [OF c _ i2(1) i1(3) r2 i2(3)] i2(1) holds_on_refl by (auto split: if_splits)
  have "holds_on s1 t" by (rule holds_on_trans [OF i2(2) t(2)])
  then have k: "key (bufs t b) = (dev, n)" "b_refcnt (bufs t b) \<noteq> 0" and h: "holds_on s t"
    using i1 by (auto simp: holds_on_def)
  have nq: "\<not> queued b t" using queued_locked [OF t(1), of b] t(3) by auto
  have "b_data (bufs t b) = disk_block (ide t) (bufs t b)" using t(1,3) i1(3) by (simp add: disk_inv_def cache_ok_def)
  then have "b_data (bufs t b) = sectors (ide s) (bit dev 0) (unat n)" using k h by (simp add: disk_block_def key_def holds_on_def)
  with t k h nq i1(3) show ?thesis by blast
qed

end
