(* ===== verification/Heap_Blocks.thy ===== *)
theory Heap_Blocks
  imports Kernel_Heap
begin

text \<open>
  The blocks the kernel heap hands out for small requests (mem/vmm.c). The search takes a free section as soon as it
  meets one that fits, so a request of at most \<open>KERNEL_HEAP_MINBLOCK\<close> bytes gets a whole 64 KB section and such a section
  is never split. \<open>room n\<close> counts how many of them are free; it is what a client that allocates several times needs.
\<close>

section \<open>The search takes the first section that fits\<close>

lemma mark_inj:
  assumes "mark i k tree = mark i k' tree" "candidate tree sz i k" "candidate tree sz i k'"
  shows "k = k'"
proof -
  have "occ (mark i k' tree) k" using assms(2) by (simp add: assms(1) [symmetric] occ_mark candidate_def)
  then show ?thesis using assms(2) by (auto simp: occ_mark candidate_def)
qed

lemma find_heap_frame_first:
  assumes nr: "returns_max nr" and va: "\<And>j. j < KERNEL_HEAP_LEN \<Longrightarrow> sec_offset (tree j) + va \<noteq> UINT64_MAX"
  shows "find_heap_frame nr va tree sz i = Inr (a, mark i k tree) \<Longrightarrow> a \<noteq> UINT64_MAX \<Longrightarrow> candidate tree sz i k \<Longrightarrow>
     anc i j \<Longrightarrow> anc j k \<Longrightarrow> j \<noteq> k \<Longrightarrow> \<not> (fits sz (tree j) \<and> \<not> in_use (tree j))"
proof (induction "KERNEL_HEAP_LEN - i" arbitrary: i rule: less_induct)
  case less
  have sound: "b = UINT64_MAX \<and> u = tree \<or> b \<noteq> UINT64_MAX \<and> (\<exists>k. candidate tree sz c k \<and> b = sec_offset (tree k) + va \<and> u = mark c k tree)"
    if "find_heap_frame nr va tree sz c = Inr (b, u)" for c b u by (rule find_heap_frame_sound [OF nr va that])
  have i: "i < KERNEL_HEAP_LEN" "\<not> occ tree i" using less.prems(3) anc_le [of i k] by (auto simp: candidate_def)
  have ik: "i \<noteq> k" using less.prems(4-6) anc_antisym by blast
  have no: "\<not> (fits sz (tree i) \<and> \<not> in_use (tree i))"
  proof
    assume h: "fits sz (tree i) \<and> \<not> in_use (tree i)"
    then have "mark i k tree = mark i i tree" using less.prems(1) find_heap_frame_hit [OF i(1,2)] by simp
    moreover have "candidate tree sz i i" using h i anc_antisym by (auto simp: candidate_def)
    ultimately show False using mark_inj less.prems(3) ik by blast
  qed
  show ?case
  proof (cases "j = i")
    case False
    have step: ?thesis if c: "0 < c" "c div 2 = i" "find_heap_frame nr va tree sz c = Inr (a, u)" and e: "u(i := (u i)\<lparr>in_use := True\<rparr>) = mark i k tree" for c u
    proof -
      from sound [OF c(3)] less.prems(2) obtain k' where k': "candidate tree sz c k'" "u = mark c k' tree" by auto
      have "anc c k'" using k'(1) by (simp add: candidate_def)
      from e mark_up [OF this c(1,2)] k'(2) have m: "mark i k' tree = mark i k tree" by simp
      have "candidate tree sz i k'" by (rule candidate_up [OF k'(1) c(1,2) i(2)])
      from mark_inj [OF m this less.prems(3)] have kk: "k' = k" .
      have "c < KERNEL_HEAP_LEN" using k'(1) anc_le [of c k'] by (auto simp: candidate_def)
      moreover have "i < c" using c(1,2) by auto
      moreover have "anc c j" using anc_between [of c k j] k'(1) c(1,2) less.prems(4,5) False by (simp add: kk candidate_def)
      ultimately show ?thesis using less.hyps [of c] c(3) k' less.prems by (simp add: kk)
    qed
    have "\<not> sec_size (tree i) < sz"
    proof
      assume "sec_size (tree i) < sz"
      then have "find_heap_frame nr va tree sz i = Inr (UINT64_MAX, tree)" using i(1) by (subst find_heap_frame_unfold) simp
      then show False using less.prems(1,2) by simp
    qed
    then have f: "find_heap_frame nr va tree sz i = (case (if i \<noteq> 0 then find_heap_frame nr va tree sz (i * 2) else Inr (UINT64_MAX, tree)) of
          Inl e \<Rightarrow> Inl e
        | Inr (l, tree1) \<Rightarrow> if l \<noteq> UINT64_MAX then Inr (l, tree1(i := (tree1 i)\<lparr>in_use := True\<rparr>))
            else case find_heap_frame nr va tree1 sz (i * 2 + 1) of
              Inl e \<Rightarrow> Inl e
            | Inr (r, tree2) \<Rightarrow> if r \<noteq> UINT64_MAX then Inr (r, tree2(i := (tree2 i)\<lparr>in_use := True\<rparr>))
                else case nr of None \<Rightarrow> Inl Undefined | Some v \<Rightarrow> Inr (v, tree2))"
      by (subst find_heap_frame_unfold) (simp only: i(2) not_le [THEN iffD2, OF i(1)] no if_False simp_thms)
    from less.prems(1) obtain l tree1 where l: "(if i \<noteq> 0 then find_heap_frame nr va tree sz (i * 2) else Inr (UINT64_MAX, tree)) = Inr (l, tree1)"
      unfolding f by (auto split: sum.splits)
    show ?thesis
    proof (cases "l = UINT64_MAX")
      case False
      with less.prems(1) have "a = l" "tree1(i := (tree1 i)\<lparr>in_use := True\<rparr>) = mark i k tree" unfolding f l by simp_all
      then show ?thesis using step [of "i * 2" tree1] l False by (simp split: if_splits)
    next
      case True
      have t1: "tree1 = tree" using l True sound [of "i * 2" UINT64_MAX tree1] by (auto split: if_splits)
      from less.prems(1,2) nr obtain r tree2 where "find_heap_frame nr va tree sz (i * 2 + 1) = Inr (r, tree2)" "r = a"
        "tree2(i := (tree2 i)\<lparr>in_use := True\<rparr>) = mark i k tree"
        unfolding f l by (auto simp: True t1 returns_max_def split: sum.splits if_splits option.splits)
      then show ?thesis using step [of "i * 2 + 1" tree2] by simp
    qed
  qed (use no in simp)
qed

section \<open>Blocks of the minimal size\<close>

definition unsplit :: "heap_array \<Rightarrow> bool" where
  "unsplit T \<longleftrightarrow> (\<forall>j < KERNEL_HEAP_LEN. hsz j = 65536 \<longrightarrow> in_use (T j) \<longrightarrow> occ T j)"

lemma hsz_anc_strict: "anc i j \<Longrightarrow> i \<noteq> j \<Longrightarrow> hsz j \<le> hsz i div 2"
  using hsz_anc [of i "j div 2"] by (subst (asm) anc.simps) (auto simp: hsz.simps [of j] split: if_splits intro: div_le_mono)

lemma unat_section: "heap_shape T \<Longrightarrow> j < KERNEL_HEAP_LEN \<Longrightarrow> unat (sec_size (T j)) = hsz j"
  by (rule section_address(2))

text \<open>Below a section of more than 64 KB there is one of 64 KB on every path down to a smaller one.\<close>

lemma hsz_split: "hsz k < 65536 \<Longrightarrow> \<exists>j. anc j k \<and> j \<noteq> k \<and> hsz j = 65536"
proof -
  have pow: "\<exists>m. hsz j = 2 ^ m \<or> hsz j = 0" for j
  proof (induction j rule: less_induct)
    case (less j)
    show ?case
    proof (cases "j = 0")
      case True
      then have "hsz j = 2 ^ 31" by (simp add: hsz.simps)
      then show ?thesis by blast
    next
      case False
      with less [of "j div 2"] obtain m where "hsz (j div 2) = 2 ^ m \<or> hsz (j div 2) = 0" by auto
      then show ?thesis using False by (cases m) (auto simp: hsz.simps [of j])
    qed
  qed
  show "hsz k < 65536 \<Longrightarrow> \<exists>j. anc j k \<and> j \<noteq> k \<and> hsz j = 65536"
  proof (induction k rule: less_induct)
    case (less k)
    then have k: "k \<noteq> 0" by (intro notI) (simp add: hsz.simps [of 0])
    show ?case
    proof (cases "hsz (k div 2) < 65536")
      case True
      with less.IH [of "k div 2"] k obtain j where "anc j (k div 2)" "hsz j = 65536" by auto
      moreover from this have "anc j k" "j \<noteq> k" using k anc_trans anc_parent [of k] anc_le [of j "k div 2"] by auto
      ultimately show ?thesis by blast
    next
      case False
      have "hsz (k div 2) div 2 < 65536" using less.prems k by (simp add: hsz.simps [of k])
      moreover from pow obtain m where m: "hsz (k div 2) = 2 ^ m \<or> hsz (k div 2) = 0" by blast
      ultimately have "hsz (k div 2) = 65536"
      proof -
        have p: "hsz (k div 2) = 2 ^ m" using m False by auto
        have "2 ^ m < (2 :: nat) ^ 17" "(2 :: nat) ^ 16 \<le> 2 ^ m" using \<open>hsz (k div 2) div 2 < 65536\<close> False by (auto simp: p)
        then have "m < 17" "16 \<le> m" using power_less_imp_less_exp [of "2 :: nat" m 17] power_le_imp_le_exp [of "2 :: nat" 16 m] by simp_all
        then have "m = 16" by simp
        then show ?thesis by (simp add: p)
      qed
      then show ?thesis using k anc_parent [of k] by (intro exI [of _ "k div 2"]) auto
    qed
  qed
qed

text \<open>An allocation of at most 64 KB: the section that is taken has at least that size.\<close>

definition one_taken :: "heap_array \<Rightarrow> heap_array \<Rightarrow> bool" where
  "one_taken T T' \<longleftrightarrow> (\<exists>i < KERNEL_HEAP_LEN. \<exists>n \<le> KERNEL_HEAP_MINBLOCK. fits n (T i) \<and> T' = mark 0 i T \<and> (unsplit T \<longrightarrow> 65536 \<le> hsz i))"

definition block_taken :: "u64 \<Rightarrow> u64 \<Rightarrow> heap_array \<Rightarrow> heap_array \<Rightarrow> bool" where
  "block_taken n a T T' \<longleftrightarrow> (\<exists>j. candidate T n 0 j \<and> a = sec_offset (T j) + KERNEL_HEAP_START \<and> T' = mark 0 j T
     \<and> (n \<le> KERNEL_HEAP_MINBLOCK \<longrightarrow> unsplit T \<longrightarrow> 65536 \<le> hsz j))"

lemma block_taken_one: "block_taken n a T T' \<Longrightarrow> n \<le> KERNEL_HEAP_MINBLOCK \<Longrightarrow> one_taken T T'"
  by (auto simp: block_taken_def one_taken_def candidate_def)

text \<open>The whole 64 KB from the address of a small block are the caller's.\<close>

lemma block_taken_fresh:
  assumes wf: "heap_wf (heap_tree s)" "unsplit (heap_tree s)" and b: "block_taken n a (heap_tree s) (heap_tree t)" and n: "n \<le> KERNEL_HEAP_MINBLOCK"
  shows "byte_range KERNEL_HEAP_MINBLOCK a \<inter> heap_used s = {}" "byte_range KERNEL_HEAP_MINBLOCK a \<subseteq> heap_used t"
proof -
  from b n wf(2) obtain j where j: "candidate (heap_tree s) n 0 j" "a = sec_offset (heap_tree s j) + KERNEL_HEAP_START"
    "heap_tree t = mark 0 j (heap_tree s)" "65536 \<le> hsz j" by (auto simp: block_taken_def)
  have jl: "heap_shape (heap_tree s)" "j < KERNEL_HEAP_LEN" using wf(1) j(1) by (simp_all add: heap_wf_def candidate_def)
  have r: "byte_range KERNEL_HEAP_MINBLOCK a \<subseteq> (+) (unat KERNEL_HEAP_START) ` blk j"
    using section_address(1) [OF jl] j(4) by (auto simp: j(2) byte_range_def blk_def image_add_atLeastLessThan KERNEL_HEAP_MINBLOCK_def)
  show "byte_range KERNEL_HEAP_MINBLOCK a \<subseteq> heap_used t" using r jl(2) j(3) by (auto simp: heap_used_def occ_mark)
  show "byte_range KERNEL_HEAP_MINBLOCK a \<inter> heap_used s = {}" using r candidate_block(2) [OF wf(1) j(1)] unfolding heap_used_def by fastforce
qed

lemma kheap_request_block:
  assumes inv: "kheap_inv s" and r: "kheap_request sz s = Inr (a, t)" "a \<noteq> UINT64_MAX"
  shows "block_taken sz a (heap_tree s) (heap_tree t) \<and> t = s\<lparr>heap_tree := heap_tree t\<rparr>"
proof -
  from kheap_request_cases [OF inv r(1)] r(2) obtain k where k: "candidate (heap_tree s) sz 0 k" "a = sec_offset (heap_tree s k) + KERNEL_HEAP_START"
    "t = s\<lparr>heap_tree := mark 0 k (heap_tree s)\<rparr>" by blast
  from inv have sh: "heap_shape (heap_tree s)" and va: "heap_va_start s = KERNEL_HEAP_START" and nr: "returns_max (no_return s)"
    by (auto simp: kheap_inv_def heap_wf_def)
  from r(1) va obtain T where f: "find_heap_frame (no_return s) KERNEL_HEAP_START (heap_tree s) sz 0 = Inr (a, T)" "t = s\<lparr>heap_tree := T\<rparr>"
    by (auto simp: kheap_request_def split: sum.splits)
  have "heap_tree t = mark 0 k (heap_tree s)" "heap_tree t = T" by (simp add: k(3), simp add: f(2))
  then have f: "find_heap_frame (no_return s) KERNEL_HEAP_START (heap_tree s) sz 0 = Inr (a, mark 0 k (heap_tree s))" using f(1) by simp
  have "65536 \<le> hsz k" if sz: "sz \<le> KERNEL_HEAP_MINBLOCK" and u: "unsplit (heap_tree s)"
  proof (rule ccontr)
    assume "\<not> 65536 \<le> hsz k"
    then obtain j where j: "anc j k" "j \<noteq> k" "hsz j = 65536" using hsz_split [of k] by auto
    have jl: "j < KERNEL_HEAP_LEN" using k(1) anc_le [OF j(1)] by (simp add: candidate_def)
    have "unat (sec_size (heap_tree s j)) = 65536" using unat_section [OF sh jl] j(3) by simp
    then have "sec_size (heap_tree s j) = KERNEL_HEAP_MINBLOCK" by (simp add: word_unat_eq_iff KERNEL_HEAP_MINBLOCK_def)
    then have "fits sz (heap_tree s j)" using sz by (simp add: fits_def)
    moreover have "\<not> in_use (heap_tree s j)" using u jl j k(1) by (auto simp: unsplit_def candidate_def)
    ultimately show False
      using find_heap_frame_first [OF nr section_address(3) [OF sh] f r(2) k(1) _ j(1,2)] by simp
  qed
  with k show ?thesis by (auto simp: block_taken_def)
qed

section \<open>Counting free blocks\<close>

definition room :: "nat \<Rightarrow> heap_array \<Rightarrow> bool" where
  "room n T \<longleftrightarrow> (\<exists>J. finite J \<and> card J = n \<and> (\<forall>j \<in> J. candidate T KERNEL_HEAP_MINBLOCK 0 j \<and> sec_size (T j) = KERNEL_HEAP_MINBLOCK))"

lemma candidate_small: "candidate T KERNEL_HEAP_MINBLOCK 0 j \<Longrightarrow> sec_size (T j) = KERNEL_HEAP_MINBLOCK \<Longrightarrow> n \<le> KERNEL_HEAP_MINBLOCK \<Longrightarrow> candidate T n 0 j"
  by (auto simp: candidate_def fits_def)

lemma room_candidate: "room (Suc n) T \<Longrightarrow> k \<le> KERNEL_HEAP_MINBLOCK \<Longrightarrow> \<exists>j. candidate T k 0 j"
  unfolding room_def by (metis candidate_small card_gt_0_iff ex_in_conv zero_less_Suc)

lemma room_mono: "room n T \<Longrightarrow> m \<le> n \<Longrightarrow> room m T"
  unfolding room_def by (metis obtain_subset_with_card_n subset_iff)

lemma room_taken:
  assumes sh: "heap_shape T" and r: "room (Suc n) T" and t: "one_taken T T'"
  shows "room n T'"
proof -
  from t obtain i m where i: "i < KERNEL_HEAP_LEN" "fits m (T i)" "m \<le> KERNEL_HEAP_MINBLOCK" "T' = mark 0 i T" by (auto simp: one_taken_def)
  from r obtain J where J: "finite J" "card J = Suc n" "\<And>j. j \<in> J \<Longrightarrow> candidate T KERNEL_HEAP_MINBLOCK 0 j"
    "\<And>j. j \<in> J \<Longrightarrow> sec_size (T j) = KERNEL_HEAP_MINBLOCK" by (auto simp: room_def)
  have lt: "j < KERNEL_HEAP_LEN" if "j \<in> J" for j using J(3) [OF that] by (simp add: candidate_def)
  have h: "hsz j = 65536" if "j \<in> J" for j using unat_section [OF sh lt [OF that]] J(4) [OF that] by (simp add: KERNEL_HEAP_MINBLOCK_def)
  have below: "\<not> anc i j" if "j \<in> J" "\<not> anc j i" for j
  proof
    assume a: "anc i j"
    with that have "hsz j \<le> hsz i div 2" by (intro hsz_anc_strict) auto
    then have "65536 \<le> unat (sec_size (T i)) div 2" using h [OF that(1)] unat_section [OF sh i(1)] by simp
    then show False using i(2,3) by (auto simp: fits_def KERNEL_HEAP_MINBLOCK_def word_le_nat_alt word_less_nat_alt unat_div)
  qed
  let ?J = "{j \<in> J. \<not> anc j i}"
  have keep: "candidate T' KERNEL_HEAP_MINBLOCK 0 j \<and> sec_size (T' j) = KERNEL_HEAP_MINBLOCK" if "j \<in> ?J" for j
    using J(3,4) [of j] below [of j] that by (auto simp: i(4) candidate_def in_use_mark occ_mark)
  have one: "j = k" if "j \<in> J" "k \<in> J" "anc j i" "anc k i" for j k
  proof (rule ccontr)
    assume "j \<noteq> k"
    then have "hsz k \<le> hsz j div 2 \<or> hsz j \<le> hsz k div 2"
      using anc_chain [OF that(3,4)] anc_chain [OF that(4,3)] hsz_anc_strict [of j k] hsz_anc_strict [of k j] by (cases "j \<le> k") auto
    then show False using h that by auto
  qed
  have "card J \<le> Suc (card ?J)"
  proof (cases "\<exists>k \<in> J. anc k i")
    case True
    then obtain k where "k \<in> J" "anc k i" by blast
    with one have "J \<subseteq> insert k ?J" by auto
    then have "card J \<le> card (insert k ?J)" using J(1) by (intro card_mono) auto
    then show ?thesis using card_insert_le_m1 [of "Suc (card ?J)" ?J k] by simp
  next
    case False
    then have "?J = J" by blast
    then show ?thesis by simp
  qed
  then have "room (card ?J) T'" "n \<le> card ?J" using keep J(1,2) by (auto simp: room_def intro!: exI [of _ ?J])
  then show ?thesis by (rule room_mono)
qed

lemma unsplit_taken:
  assumes "unsplit T" "one_taken T T'"
  shows "unsplit T'"
proof -
  from assms obtain i where i: "T' = mark 0 i T" "65536 \<le> hsz i" by (auto simp: one_taken_def)
  have "occ T' j" if j: "j < KERNEL_HEAP_LEN" "hsz j = 65536" "in_use (T' j)" for j
  proof (cases "in_use (T j)")
    case True
    then show ?thesis using assms(1) j by (simp add: unsplit_def i(1) occ_mark)
  next
    case False
    then have "anc j i" using j(3) by (simp add: i(1) in_use_mark)
    then have "j = i" using hsz_anc_strict [of j i] i(2) j(2) by auto
    then show ?thesis by (simp add: i(1) occ_mark)
  qed
  then show ?thesis by (simp add: unsplit_def)
qed

end
