(* ===== verification/Disk_Protocol.thy ===== *)
theory Disk_Protocol
  imports Buffer_Cache Heap_Blocks
begin

text \<open>
  The cache and the disk as a transition system, and a disk read from the lookup of a buffer to the data.

  Any number of CPUs and threads use the cache at the same time; every part of the code that runs under one of
  its locks is one step. The second half runs \<open>bread\<close> on one CPU until it returns: \<open>cpu_holds\<close> tracks the
  set of spinlocks the CPU holds, so that each lock operation of the run is seen to succeed.
\<close>

section \<open>The transition system\<close>

text \<open>
  The guards of \<open>request\<close> and \<open>release\<close> are the discipline of the callers: \<open>bread\<close> passes a buffer it holds a
  reference to and whose sleeplock it owns, and releases it after the request has been answered. \<open>other\<close> is the
  rest of the kernel. No code of the kernel calls \<open>bwrite\<close>.
\<close>

inductive disk_step :: "bio \<Rightarrow> bio \<Rightarrow> bool" where
  lookup: "bget_lookup dev n (s\<lparr>lapic_id := l\<rparr>) = Inr (b, t) \<Longrightarrow> refs_ok s \<Longrightarrow> disk_step s t"
| request: "iderw_begin b (s\<lparr>lapic_id := l\<rparr>) = Inr ((), t) \<Longrightarrow> b < NBUF \<Longrightarrow> b_refcnt (bufs s b) \<noteq> 0 \<Longrightarrow> \<not> queued b s \<Longrightarrow>
     disk_step s t"
| interrupt: "ideintr (s\<lparr>lapic_id := l\<rparr>) = Inr ((), t) \<Longrightarrow> disk_step s t"
| release: "brelse b (s\<lparr>lapic_id := l\<rparr>) = Inr ((), t) \<Longrightarrow> b < NBUF \<Longrightarrow> b_refcnt (bufs s b) \<noteq> 0 \<Longrightarrow> \<not> queued b s \<Longrightarrow>
     disk_step s t"
| other: "fst (core t) = fst (core s) \<Longrightarrow> (\<And>xs. dll_queue (ide_queue_va s) s xs \<Longrightarrow> dll_queue (ide_queue_va s) t xs) \<Longrightarrow>
     entry_count t (ide_queue_va s) = entry_count s (ide_queue_va s) \<Longrightarrow> kheap_inv t \<Longrightarrow> heap_used s \<subseteq> heap_used t \<Longrightarrow>
     (\<And>a. sl_is_locked (sleeplocks s a) \<Longrightarrow> sl_is_locked (sleeplocks t a)) \<Longrightarrow> disk_step s t"

text \<open>After \<open>binit\<close> and \<open>ideinit\<close>: no buffer is in use, no request is queued, the disk reports no error.\<close>

definition disk_start :: "bio \<Rightarrow> bool" where
  "disk_start s \<longleftrightarrow> kheap_inv s \<and> outside_heap (ide_queue_va s) \<and> healthy (ide s)
     \<and> (\<forall>b < NBUF. b_flags (bufs s b) = 0 \<and> b_refcnt (bufs s b) = 0)
     \<and> dll_queue (ide_queue_va s) s [] \<and> entry_count s (ide_queue_va s) = 0"

lemma disk_inv_lapic: "disk_inv (s\<lparr>lapic_id := l\<rparr>) = disk_inv s" "queued b (s\<lparr>lapic_id := l\<rparr>) = queued b s"
  "refs_ok (s\<lparr>lapic_id := l\<rparr>) = refs_ok s"
  using disk_inv_core [of "s\<lparr>lapic_id := l\<rparr>" s] queued_core [of "s\<lparr>lapic_id := l\<rparr>" s] by (simp_all add: refs_ok_def)

lemma disk_inv_other:
  assumes inv: "disk_inv s" and c: "fst (core t) = fst (core s)" and q: "\<And>xs. dll_queue (ide_queue_va s) s xs \<Longrightarrow> dll_queue (ide_queue_va s) t xs"
    and n: "entry_count t (ide_queue_va s) = entry_count s (ide_queue_va s)" and k: "kheap_inv t" "heap_used s \<subseteq> heap_used t"
    and l: "\<And>a. sl_is_locked (sleeplocks s a) \<Longrightarrow> sl_is_locked (sleeplocks t a)"
  shows "disk_inv t"
proof -
  have e: "bufs t = bufs s" "bcache_va t = bcache_va s" "ide_queue_va t = ide_queue_va s" "req_buf t = req_buf s" "ide t = ide s"
    using c by (simp_all add: core_def)
  from inv obtain reqs where r: "queue_ok s reqs" by (auto simp: disk_inv_def)
  have "queue_ok t reqs"
    by (rule queue_ok_mono [OF r]) (use r q n k l in \<open>auto simp: e queue_ok_def request_ok_def\<close>)
  then show ?thesis using inv k by (auto simp: disk_inv_def e)
qed

interpretation disk: transition_system disk_start disk_step disk_inv
proof unfold_locales
  fix s :: bio
  assume "disk_start s"
  moreover from this have "queue_ok s []" "cache_ok (bufs s) (ide s)" by (simp_all add: disk_start_def queue_ok_def cache_ok_def live_def)
  ultimately show "disk_inv s" by (auto simp: disk_start_def disk_inv_def)
next
  fix s t :: bio
  assume inv: "disk_inv s" and "disk_step s t"
  from this(2) show "disk_inv t"
  proof cases
    case (lookup dev n l b)
    then show ?thesis using bget_lookup_inv [OF lookup(1)] inv by (simp add: disk_inv_lapic)
  next
    case (request b l)
    then show ?thesis using iderw_begin_inv [OF request(1)] inv by (simp add: disk_inv_lapic)
  next
    case (interrupt l)
    then show ?thesis using ideintr_inv [OF interrupt] inv by (simp add: disk_inv_lapic)
  next
    case (release b l)
    then show ?thesis using brelse_inv [OF release(1)] inv by (simp add: disk_inv_lapic)
  next
    case other
    then show ?thesis by (intro disk_inv_other [OF inv]) auto
  qed
qed


section \<open>A CPU and the spinlocks it holds\<close>

definition cpu_holds :: "lock_id set \<Rightarrow> nat \<Rightarrow> 'a smp_scheme \<Rightarrow> bool" where
  "cpu_holds L th s \<longleftrightarrow> finite L \<and> (\<exists>i. registered s i \<and> cli_count (cpus s ! i) = of_nat (card L) \<and> current_thread (cpus s ! i) = Some th
       \<and> (L \<noteq> {} \<longrightarrow> \<not> rflags_IF (cpus s ! i)))
     \<and> (\<forall>l. is_locked (locks s l) \<longleftrightarrow> l \<in> L) \<and> (\<forall>l \<in> L. owner_cpu (locks s l) = lapic_id s)"

lemma cpu_holds_cong:
  "lapic_id t = lapic_id s \<Longrightarrow> cpus t = cpus s \<Longrightarrow> locks t = locks s \<Longrightarrow> cpu_holds L th t = cpu_holds L th s"
  by (simp add: cpu_holds_def registered_def)

lemma acquire_holds:
  assumes h: "cpu_holds L th s" and l: "l \<notin> L"
  shows "\<exists>c k. acquire_Spinlock l s = Inr ((), s\<lparr>cpus := c, locks := k\<rparr>) \<and> cpu_holds (insert l L) th (s\<lparr>cpus := c, locks := k\<rparr>)"
proof -
  from h obtain i where i: "registered s i" "cli_count (cpus s ! i) = of_nat (card L)" "current_thread (cpus s ! i) = Some th"
    and L: "finite L" "\<And>l. is_locked (locks s l) \<longleftrightarrow> l \<in> L" "\<And>l. l \<in> L \<Longrightarrow> owner_cpu (locks s l) = lapic_id s"
    by (auto simp: cpu_holds_def)
  have le: "i < length (cpus s)" by (rule registered_less [OF i(1)])
  have a: "acquire_Spinlock l s = Inr ((), lock_taken l i s)" by (rule acquire_Spinlock_free [OF i(1)]) (simp add: L(2) l)
  from acquire_Spinlock_frame [OF a] obtain c k where f: "lock_taken l i s = s\<lparr>cpus := c, locks := k\<rparr>" by blast
  have "registered (lock_taken l i s) i" using i(1) by (simp add: lock_taken_def registered_upd_cpu)
  then have "cpu_holds (insert l L) th (lock_taken l i s)"
    unfolding cpu_holds_def using i L le l
    by (auto simp: lock_taken_def intro!: exI [of _ i])
  with a f show ?thesis by metis
qed

lemma release_holds:
  assumes h: "cpu_holds L th s" and l: "l \<in> L" and n: "card L < 1000"
  shows "\<exists>c k. release_Spinlock l s = Inr ((), s\<lparr>cpus := c, locks := k\<rparr>) \<and> cpu_holds (L - {l}) th (s\<lparr>cpus := c, locks := k\<rparr>)"
proof -
  from h obtain i where i: "registered s i" "cli_count (cpus s ! i) = of_nat (card L)" "current_thread (cpus s ! i) = Some th"
    "\<not> rflags_IF (cpus s ! i)" and L: "finite L" "\<And>l. is_locked (locks s l) \<longleftrightarrow> l \<in> L" "\<And>l. l \<in> L \<Longrightarrow> owner_cpu (locks s l) = lapic_id s"
    using l by (auto simp: cpu_holds_def)
  have le: "i < length (cpus s)" by (rule registered_less [OF i(1)])
  have c0: "card L = Suc (card (L - {l}))" by (rule card.remove [OF L(1) l])
  have u: "unat (of_nat (card L) :: u32) = card L" using n by (simp add: unat_of_nat)
  then have nz: "cli_count (cpus s ! i) \<noteq> 0" using c0 i(2) by (metis nat.distinct(1) unat_0)
  have one: "cli_count (cpus s ! i) = 1 \<longleftrightarrow> L - {l} = {}"
  proof -
    have "cli_count (cpus s ! i) = 1 \<longleftrightarrow> card L = 1" unfolding i(2) using u by (metis of_nat_1 unat_1)
    then show ?thesis using c0 L(1) by (metis card_eq_0_iff finite_Diff One_nat_def nat.inject)
  qed
  have r: "release_Spinlock l s = Inr ((), lock_dropped l i s)" by (rule release_Spinlock_held [OF i(1) _ _ i(4) nz]) (simp_all add: L(2,3) l)
  from release_Spinlock_frame [OF r] obtain c k where f: "lock_dropped l i s = s\<lparr>cpus := c, locks := k\<rparr>" by blast
  have "registered (lock_dropped l i s) i" using i(1) by (simp add: lock_dropped_def registered_upd_cpu)
  moreover have "cli_count (cpus s ! i) - 1 = of_nat (card (L - {l}))" using i(2) c0 by simp
  ultimately have "cpu_holds (L - {l}) th (lock_dropped l i s)"
    unfolding cpu_holds_def using i L le one
    by (auto simp: lock_dropped_def intro!: exI [of _ i])
  with r f show ?thesis by metis
qed

section \<open>Running to the end\<close>

definition runs :: "('s \<Rightarrow> fault + 'b \<times> 's) \<Rightarrow> 's \<Rightarrow> ('b \<Rightarrow> 's \<Rightarrow> bool) \<Rightarrow> bool" where
  "runs m s P \<longleftrightarrow> (\<exists>a t. m s = Inr (a, t) \<and> P a t)"

lemma runs_simps:
  "runs (bnd m f) s P = runs m s (\<lambda>a t. runs (f a) t P)" "runs (seqn m n) s Q = runs m s (\<lambda>_ t. runs n t Q)"
  "runs (ret x) s R = R x s" "runs (gets g) s S = S (g s) s" "runs (upd h) s T = T () (h s)" "runs (ensure C e) s T = (C s \<and> T () s)"
  by (auto simp: runs_def bnd_Inr_iff seqn_Inr_iff)

lemma runs_mono: "runs m s P \<Longrightarrow> (\<And>a t. P a t \<Longrightarrow> Q a t) \<Longrightarrow> runs m s Q"
  by (auto simp: runs_def)

lemma runs_while_done: "\<not> c s \<Longrightarrow> runs (while_do c body) s P = P () s"
  by (simp add: runs_def while_do_def lift_loop_def op_while.simps [of c body s])

lemma runs_while_step: "c s \<Longrightarrow> runs body s (\<lambda>_ t. runs (while_do c body) t P) \<Longrightarrow> runs (while_do c body) s P"
  by (auto simp: runs_def while_do_def lift_loop_def op_while.simps [of c body s])

text \<open>What a step of the run leaves as it was, apart from the locks.\<close>

definition undisturbed :: "nat \<Rightarrow> 'a bio_scheme \<Rightarrow> 'a bio_scheme \<Rightarrow> bool" where
  "undisturbed th s t \<longleftrightarrow> core t = core s \<and> thread_id (threads t th) = thread_id (threads s th)"

lemma acquire_runs:
  assumes "cpu_holds L th s" "l \<notin> L" and P: "\<And>t. cpu_holds (insert l L) th t \<Longrightarrow> undisturbed th s t \<Longrightarrow> threads t = threads s \<Longrightarrow> P () t"
  shows "runs (acquire_Spinlock l) s P"
proof -
  from acquire_holds [OF assms(1,2)] obtain c k where "acquire_Spinlock l s = Inr ((), s\<lparr>cpus := c, locks := k\<rparr>)"
    "cpu_holds (insert l L) th (s\<lparr>cpus := c, locks := k\<rparr>)" by blast
  then show ?thesis using P by (auto simp: runs_def undisturbed_def core_def)
qed

lemma release_runs:
  assumes "cpu_holds L th s" "l \<in> L" "card L < 1000" and P: "\<And>t. cpu_holds (L - {l}) th t \<Longrightarrow> undisturbed th s t \<Longrightarrow> threads t = threads s \<Longrightarrow> P () t"
  shows "runs (release_Spinlock l) s P"
proof -
  from release_holds [OF assms(1-3)] obtain c k where "release_Spinlock l s = Inr ((), s\<lparr>cpus := c, locks := k\<rparr>)"
    "cpu_holds (L - {l}) th (s\<lparr>cpus := c, locks := k\<rparr>)" by blast
  then show ?thesis using P by (auto simp: runs_def undisturbed_def core_def)
qed

lemma current_thread_runs: "cpu_holds L th s \<Longrightarrow> P (Some th) s \<Longrightarrow> runs GetCurrentThread s P"
  by (auto simp: cpu_holds_def runs_def GetCurrentThread_def get_current_cpu_registered bnd_step bnd_def gets_def)

lemma deref_runs: "P x s \<Longrightarrow> runs (deref (Some x)) s P"
  by (simp add: deref_def runs_simps)

lemma undisturbed_refl: "undisturbed th s s"
  by (simp add: undisturbed_def)

lemma undisturbed_trans: "undisturbed th s t \<Longrightarrow> undisturbed th t u \<Longrightarrow> undisturbed th s u"
  by (simp add: undisturbed_def)

lemma insert_remove: "l \<notin> L \<Longrightarrow> insert l L - {l} = L"
  by auto

lemma holdingsleep_runs:
  assumes h: "cpu_holds L th s" "sleeplock_lock a \<notin> L" "card L < 500"
    and P: "\<And>t. cpu_holds L th t \<Longrightarrow> undisturbed th s t \<Longrightarrow> threads t = threads s \<Longrightarrow>
       P (sl_is_locked (sleeplocks s a) \<and> sl_owner_tid (sleeplocks s a) = thread_id (threads s th)) t"
  shows "runs (holdingsleep a) s P"
  unfolding holdingsleep_def runs_simps
proof (rule acquire_runs [OF h(1,2)])
  fix t assume t: "cpu_holds (insert (sleeplock_lock a) L) th t" "undisturbed th s t" "threads t = threads s"
  have sl: "sleeplocks t = sleeplocks s" using t(2) by (simp add: undisturbed_def core_def)
  have fin: "finite L" using h(1) by (simp add: cpu_holds_def)
  have rel: "runs (release_Spinlock (sleeplock_lock a)) t (\<lambda>_ u. P (sl_is_locked (sleeplocks s a) \<and> sl_owner_tid (sleeplocks s a) = thread_id (threads s th)) u)"
    by (rule release_runs [OF t(1)]) (use h fin t in \<open>auto simp: insert_remove intro: P undisturbed_trans\<close>)
  show "runs (if sl_is_locked (sleeplocks t a)
            then bnd GetCurrentThread (\<lambda>thread. bnd (deref thread) (\<lambda>th. gets (\<lambda>s. sl_owner_tid (sleeplocks s a) = thread_id (threads s th))))
            else ret False) t (\<lambda>r t. runs (release_Spinlock (sleeplock_lock a)) t (\<lambda>_ u. P r u))"
    using rel t by (auto simp: runs_simps sl intro!: current_thread_runs [OF t(1)] deref_runs)
qed

lemma wakeup_loop_id: "thread_id (wakeup_loop ch n T k) = thread_id (T k)"
  by (induction n) (auto simp: Let_def)

lemma cpu_holds_finite: "cpu_holds L th s \<Longrightarrow> finite L"
  by (simp add: cpu_holds_def)

lemma Wakeup_runs:
  assumes h: "cpu_holds L th s" "proc_table_lock \<notin> L" "card L < 500" and P: "\<And>t. cpu_holds L th t \<Longrightarrow> undisturbed th s t \<Longrightarrow> P () t"
  shows "runs (Wakeup ch) s P"
  unfolding Wakeup_def runs_simps
proof (rule acquire_runs [OF h(1,2)])
  fix t assume t: "cpu_holds (insert proc_table_lock L) th t" "undisturbed th s t" "threads t = threads s"
  let ?u = "t\<lparr>threads := wakeup_loop ch MAX_NUM_THREADS (threads t)\<rparr>"
  have u: "cpu_holds (insert proc_table_lock L) th ?u" using t(1) cpu_holds_cong [of ?u t] by simp
  have q: "undisturbed th s ?u" using t(2) by (simp add: undisturbed_def core_def wakeup_loop_id)
  show "runs (release_Spinlock proc_table_lock) ?u P"
    by (rule release_runs [OF u]) (use h cpu_holds_finite [OF h(1)] q in \<open>auto simp: insert_remove intro: P undisturbed_trans\<close>)
qed

lemma ThreadSleep_begin_runs:
  assumes h: "cpu_holds L th s" "l \<in> L" "l \<noteq> proc_table_lock" "card L < 500" "ch \<noteq> 0"
    and P: "\<And>t. cpu_holds (L - {l}) th t \<Longrightarrow> undisturbed th s t \<Longrightarrow> P True t"
  shows "runs (ThreadSleep_begin ch l) s P"
proof -
  let ?u = "upd_thread th (\<lambda>x. x\<lparr>sleep_channel := ch, status := THREAD_STATE_SLEEPING, can_wakeup := False\<rparr>) s"
  have u: "cpu_holds L th ?u" using h(1) cpu_holds_cong [of ?u s] by (simp add: upd_thread_def)
  have q: "undisturbed th s ?u" by (simp add: undisturbed_def core_upd_thread) (simp add: upd_thread_def)
  have st: "status (threads ?u th) = THREAD_STATE_SLEEPING" by (simp add: upd_thread_def)
  have "runs (release_Spinlock l) ?u (\<lambda>_ t. P (status (threads t th) = THREAD_STATE_SLEEPING) t)"
    by (rule release_runs [OF u h(2)]) (use h(4) q st in \<open>auto intro: P undisturbed_trans\<close>)
  then show ?thesis
    unfolding ThreadSleep_begin_def runs_simps
    by (intro current_thread_runs [OF h(1)] deref_runs) (simp add: h(3,5) runs_simps)
qed

lemma ThreadSleep_end_runs:
  assumes h: "cpu_holds L th s" "l \<notin> L" "l \<noteq> proc_table_lock" and P: "\<And>t. cpu_holds (insert l L) th t \<Longrightarrow> undisturbed th s t \<Longrightarrow> P () t"
  shows "runs (ThreadSleep_end th l) s P"
proof -
  let ?u = "upd_thread th (\<lambda>x. x\<lparr>sleep_channel := 0\<rparr>) s"
  have u: "cpu_holds L th ?u" using h(1) cpu_holds_cong [of ?u s] by (simp add: upd_thread_def)
  have q: "undisturbed th s ?u" by (simp add: undisturbed_def core_upd_thread) (simp add: upd_thread_def)
  have "runs (acquire_Spinlock l) ?u P"
    by (rule acquire_runs [OF u h(2)]) (use q in \<open>auto intro: P undisturbed_trans\<close>)
  then show ?thesis by (simp add: ThreadSleep_end_def runs_simps h(3))
qed

lemma kalloc_runs:
  assumes h: "cpu_holds L th s" "KernelHeapLock \<notin> L" "card L < 500"
    and k: "kheap_inv s" "no_return s = Some UINT64_MAX" "candidate (heap_tree s) n 0 j"
    and P: "\<And>a t. kalloc n s = Inr (a, t) \<Longrightarrow> a \<noteq> 0 \<Longrightarrow> cpu_holds L th t \<Longrightarrow> threads t = threads s \<Longrightarrow> in_use (heap_tree t 0) \<Longrightarrow>
       block_taken n a (heap_tree s) (heap_tree t) \<Longrightarrow> P a t"
  shows "runs (kalloc n) s P"
proof -
  from acquire_holds [OF h(1,2)] obtain c l where a: "acquire_Spinlock KernelHeapLock s = Inr ((), s\<lparr>cpus := c, locks := l\<rparr>)"
    and h1: "cpu_holds (insert KernelHeapLock L) th (s\<lparr>cpus := c, locks := l\<rparr>)" by blast
  let ?s = "s\<lparr>cpus := c, locks := l\<rparr>"
  have k1: "kheap_inv ?s" "no_return ?s = Some UINT64_MAX" "candidate (heap_tree ?s) n 0 j" using k by (simp_all add: kheap_inv_def)
  from kheap_request_complete [OF k1] obtain b u where r: "kheap_request n ?s = Inr (b, u)" "b \<noteq> UINT64_MAX" by blast
  from kheap_request_block [OF k1(1) r] obtain T where bt: "block_taken n b (heap_tree s) T" "u = ?s\<lparr>heap_tree := T\<rparr>"
    by (auto intro: that [of "heap_tree u"])
  have h2: "cpu_holds (insert KernelHeapLock L) th u" using h1 cpu_holds_cong [of u ?s] by (simp add: bt(2))
  have "card (insert KernelHeapLock L) < 1000" using h(2,3) cpu_holds_finite [OF h(1)] by simp
  from release_holds [OF h2 insertI1 this] obtain c2 l2 where rl: "release_Spinlock KernelHeapLock u = Inr ((), u\<lparr>cpus := c2, locks := l2\<rparr>)"
    and h3: "cpu_holds L th (u\<lparr>cpus := c2, locks := l2\<rparr>)" by (auto simp: insert_remove h(2))
  let ?t = "u\<lparr>cpus := c2, locks := l2\<rparr>"
  have "kalloc n s = Inr (b, ?t)" using a r rl by (simp add: kalloc_def op_combinators)
  moreover from bt(1) obtain i where i: "candidate (heap_tree s) n 0 i" "b = sec_offset (heap_tree s i) + KERNEL_HEAP_START" "T = mark 0 i (heap_tree s)"
    by (auto simp: block_taken_def)
  moreover have "b \<noteq> 0" using section_address(4) [of "heap_tree s" i] k(1) i by (simp add: kheap_inv_def heap_wf_def candidate_def)
  moreover have "in_use (heap_tree ?t 0)" using i by (simp add: bt(2) in_use_mark)
  ultimately show ?thesis using P h3 bt by (auto simp: runs_def)
qed

lemma kfree_runs:
  assumes h: "cpu_holds L th s" "KernelHeapLock \<notin> L" "card L < 500"
    and k: "heap_shape (heap_tree s)" "in_use (heap_tree s 0)" "heap_va_start s \<le> a" "unat (a - heap_va_start s) < 2 ^ 31"
    and P: "\<And>t. cpu_holds L th t \<Longrightarrow> undisturbed th s t \<Longrightarrow> P True t"
  shows "runs (kfree a) s P"
  unfolding kfree_def runs_simps
proof (rule acquire_runs [OF h(1,2)])
  fix t assume t: "cpu_holds (insert KernelHeapLock L) th t" "undisturbed th s t" "threads t = threads s"
  have e: "heap_tree t = heap_tree s" "heap_va_start t = heap_va_start s" using t(2) by (simp_all add: undisturbed_def core_def)
  have "unat (ucast (a - heap_va_start s) :: u32) < 2 ^ 31" using k(4) by (simp add: unsigned_ucast_eq take_bit_nat_def)
  note srch = heap_search_in_use [OF k(1,2) this]
  obtain b where b: "get_buddy (heap_tree s) 0 = Inr b" using get_buddy_Inr [of 0] by (auto simp: KERNEL_HEAP_LEN_def)
  obtain n where n: "kfree_merge (heap_tree s) b 0 = Inr n" using kfree_merge_total [of 0] by (auto simp: KERNEL_HEAP_LEN_def)
  have "runs (release_Spinlock KernelHeapLock) t (\<lambda>_ u. P True u)"
    by (rule release_runs [OF t(1)]) (use h cpu_holds_finite [OF h(1)] t in \<open>auto simp: insert_remove intro: P undisturbed_trans\<close>)
  then show "runs (if a < heap_va_start t then ret False
        else bnd (gets (\<lambda>s. heap_search_by_offset (heap_tree s) (ucast (a - heap_va_start s)) 0)) (\<lambda>r. case r of
           None \<Rightarrow> raise Diverge | Some None \<Rightarrow> ret False
         | Some (Some section_index) \<Rightarrow> bnd (gets heap_tree) (\<lambda>tree. case get_buddy tree section_index of
             Inl e \<Rightarrow> raise e
           | Inr buddy \<Rightarrow> (case kfree_merge tree buddy section_index of
               Inl e \<Rightarrow> raise e | Inr _ \<Rightarrow> seqn (release_Spinlock KernelHeapLock) (ret True))))) t P"
    using k(3) by (simp add: e leD runs_simps srch b n)
qed

section \<open>A disk read runs to its end\<close>

definition ready :: "ide_drive \<Rightarrow> bool" where
  "ready d \<longleftrightarrow> (\<forall>n. status_in d n = IDE_DRDY)"

lemma ready_healthy: "ready d \<Longrightarrow> healthy d"
  by (simp add: ready_def healthy_def ide_consts)

lemma idewait_ready:
  assumes "ready (ide s)"
  shows "idewait c s = Inr (0, upd_ide (\<lambda>d. d\<lparr>status_in := (\<lambda>n. status_in d (Suc n))\<rparr>) s)"
proof -
  have "idewait_loop (status_in (ide s)) = Some (IDE_DRDY, \<lambda>n. status_in (ide s) (Suc n))"
    using assms by (subst idewait_loop.simps) (simp add: ready_def ide_consts)
  then show ?thesis by (simp add: idewait_def ide_consts upd_ide_def)
qed

lemma idestart_returns:
  assumes "ready (ide s)" "b_blockno (bufs s b) < FSSIZE" "b_flags (bufs s b) AND B_DIRTY = 0"
    and P: "\<And>d. ready d \<Longrightarrow> armed IDE_CMD_READ d (bufs s b) \<Longrightarrow> sectors d = sectors (ide s) \<Longrightarrow> P () (s\<lparr>ide := d\<rparr>)"
  shows "runs (idestart b) s P"
proof -
  have "runs (idestart b) s (\<lambda>_ t. ready (ide t))"
    unfolding idestart_def Let_def runs_simps using assms(1-3)
    by (simp add: runs_simps runs_def [of "idewait False"] idewait_ready outb_def)
       (simp add: ready_def upd_ide_def ide_outb_def)
  then obtain t where t: "idestart b s = Inr ((), t)" "ready (ide t)" by (auto simp: runs_def)
  obtain d where "t = s\<lparr>ide := d\<rparr>" "armed IDE_CMD_READ d (bufs s b)" "sectors d = sectors (ide s)"
    using idestart_inv [OF t(1) ready_healthy [OF assms(1)] assms(3)] by blast
  then show ?thesis using t P by (auto simp: runs_def)
qed

lemma ide_finish_returns:
  assumes h: "cpu_holds L th s" "proc_table_lock \<notin> L" "card L < 500" and d: "ready (ide s)" "armed IDE_CMD_READ (ide s) (bufs s b)"
    and cl: "b_flags (bufs s b) AND B_DIRTY = 0"
    and P: "\<And>t. ide_finish b s = Inr ((), t) \<Longrightarrow> cpu_holds L th t \<Longrightarrow> thread_id (threads t th) = thread_id (threads s th) \<Longrightarrow> ready (ide t) \<Longrightarrow> P () t"
  shows "runs (ide_finish b) s P"
proof -
  let ?s1 = "upd_ide (\<lambda>d. d\<lparr>status_in := (\<lambda>n. status_in d (Suc n))\<rparr>) s"
  have e1: "cpu_holds L th (upd_buf b f (upd_buf b g ?s1))" for f g
    using h(1) cpu_holds_cong [of "upd_buf b f (upd_buf b g ?s1)" s] by (simp add: upd_buf_def upd_ide_def)
  have i: "runs insl ?s1 Q = Q (sectors (ide ?s1) (bit (reg_drive (ide ?s1)) 4) (unat (ide_lba (ide ?s1)))) ?s1" for Q
    using d(2) by (simp add: insl_def runs_simps armed_def upd_ide_def)
  have "runs (ide_finish b) s (\<lambda>_ t. cpu_holds L th t \<and> thread_id (threads t th) = thread_id (threads s th) \<and> ready (ide t))"
    unfolding ide_finish_def runs_simps using cl
    by (simp add: runs_simps runs_def [of "idewait True"] idewait_ready [OF d(1)] i)
       (rule Wakeup_runs [OF e1 h(2,3)], use d(1) in \<open>simp add: undisturbed_def upd_buf_def upd_ide_def core_def ready_def\<close>)
  then show ?thesis using P by (auto simp: runs_def)
qed

lemma remove_head_keeps:
  assumes "remove_dll_entry_head h s = Inr (x, t)" "x \<noteq> 0"
  shows "lapic_id t = lapic_id s" "cpus t = cpus s" "locks t = locks s" "threads t = threads s"
  by (subst remove_head_frame [OF assms], simp)+

lemma finished_flags: "((f OR B_VALID) AND NOT B_DIRTY) AND (B_VALID OR B_DIRTY) = B_VALID"
proof -
  have "((f OR push_bit p 1) AND NOT (push_bit q 1)) AND (push_bit p 1 OR push_bit q 1) = push_bit p (1 :: u32)" if "p \<noteq> q" for p q
    by (rule bit_word_eqI) (use that in \<open>auto simp: bit_simps\<close>)
  from this [of 1 2] show ?thesis by (simp add: B_VALID_def B_DIRTY_def)
qed

lemma ideintr_returns:
  fixes s :: "'a bio_scheme"
  assumes h: "cpu_holds {} th s" and inv: "disk_inv s" and q: "queue_ok s [r]" and d: "ready (ide s)" and u: "in_use (heap_tree s 0)"
    and r: "\<not> outside_heap r"
    and P: "\<And>t. ideintr s = Inr ((), t) \<Longrightarrow> cpu_holds {} th t \<Longrightarrow> thread_id (threads t th) = thread_id (threads s th) \<Longrightarrow>
       b_flags (bufs t (req_buf s r)) AND (B_VALID OR B_DIRTY) = B_VALID \<Longrightarrow> ready (ide t) \<Longrightarrow> queue_ok t [] \<Longrightarrow>
       heap_tree t = heap_tree s \<Longrightarrow> (\<And>c. c \<noteq> req_buf s r \<Longrightarrow> bufs t c = bufs s c) \<Longrightarrow> P () t"
  shows "runs ideintr s P"
proof -
  let ?Q = "\<lambda>t. cpu_holds {} th t \<and> thread_id (threads t th) = thread_id (threads s th)
     \<and> b_flags (bufs t (req_buf s r)) AND (B_VALID OR B_DIRTY) = B_VALID \<and> ready (ide t) \<and> entry_count t (ide_queue_va t) = 0
     \<and> heap_tree t = heap_tree s \<and> (\<forall>c. c \<noteq> req_buf s r \<longrightarrow> bufs t c = bufs s c)"
  have "runs ideintr s (\<lambda>_ t. ?Q t)"
    unfolding ideintr_def runs_simps
  proof (rule acquire_runs [OF h])
    fix s1 :: "'a bio_scheme" assume s1: "cpu_holds (insert ide_lock {}) th s1" "undisturbed th s s1" "threads s1 = threads s"
    have c1: "core s1 = core s" using s1(2) by (simp add: undisturbed_def)
    have q1: "queue_ok s1 [r]" using q queue_ok_core [OF c1] by simp
    show "runs (if entry_count s1 (ide_queue_va s1) = 0 then release_Spinlock ide_lock
        else bnd (remove_dll_entry_head (ide_queue_va s1)) (\<lambda>req.
          seqn (upd (\<lambda>s. set_count (ide_queue_va s1) (entry_count s (ide_queue_va s1) - 1) s))
         (if req = 0 then raise (Panic ''ideintr() --> got NULL dll_Entry! Condition should not exist.'')
          else bnd (gets (\<lambda>s. req_buf s req)) (\<lambda>b.
            seqn (ide_finish b) (seqn (ide_next (ide_queue_va s1)) (seqn (kfree req) (release_Spinlock ide_lock))))))) s1 (\<lambda>_ t. ?Q t)"
    proof -
      let ?q = "ide_queue_va s1"
      have nz: "entry_count s1 ?q \<noteq> 0" using queue_ok_empty [OF q1] by simp
      have dq: "dll_queue ?q s1 [r]" using q1 by (simp add: queue_ok_def)
      then have r0: "r \<noteq> 0" by (simp add: dll_queue_def dll_ok_def)
      from dll_queue_remove_head [OF dq] obtain v where v: "remove_dll_entry_head ?q s1 = Inr (r, v)" by blast
      define w where "w = set_count ?q (entry_count v ?q - 1) v"
      note D = dequeue_links [OF q1 v, folded w_def]
      from D(2) obtain f g n where w: "w = s1\<lparr>dll_next := f, dll_prev := g, entry_count := n\<rparr>" by blast
      have hw: "cpu_holds {ide_lock} th w" using s1(1) cpu_holds_cong [of w s1] by (simp add: w)
      let ?b = "req_buf s1 r"
      have b: "?b < NBUF" "armed IDE_CMD_READ (ide s1) (bufs s1 ?b)" using q1 by (auto simp: queue_ok_def request_ok_def)
      have rd: "ready (ide s1)" "b_flags (bufs s1 ?b) AND B_DIRTY = 0" "heap_tree s1 = heap_tree s" "heap_va_start s1 = heap_va_start s"
        using d c1 inv b(1) by (auto simp: core_def disk_inv_def cache_ok_def)
      have cl: "b_flags (bufs w ?b) AND B_DIRTY = 0" "ready (ide w)" "armed IDE_CMD_READ (ide w) (bufs w ?b)" using rd b by (simp_all add: w)
      have "runs (ide_finish ?b) w (\<lambda>_ t. runs (ide_next ?q) t (\<lambda>_ t. runs (kfree r) t (\<lambda>_ t. runs (release_Spinlock ide_lock) t (\<lambda>_ t. ?Q t))))"
      proof (rule ide_finish_returns [OF hw _ _ cl(2,3,1)])
        fix t assume t: "ide_finish ?b w = Inr ((), t)" "cpu_holds {ide_lock} th t" "thread_id (threads t th) = thread_id (threads w th)" "ready (ide t)"
        from ide_finish_reads [OF t(1) ready_healthy [OF cl(2)] cl(1,3)] have e: "entry_count t ?q = entry_count w ?q"
          "heap_tree t = heap_tree s" "heap_va_start t = heap_va_start s" "ide_queue_va t = ?q"
          "b_flags (bufs t ?b) = (b_flags (bufs s1 ?b) OR B_VALID) AND NOT B_DIRTY" "\<And>c. c \<noteq> ?b \<Longrightarrow> bufs t c = bufs s c" using rd c1 by (auto simp: core_def w)
        have rb: "req_buf s r = ?b" using c1 by (simp add: core_def)

        have k: "heap_shape (heap_tree t)" "heap_va_start t = KERNEL_HEAP_START" using inv e by (auto simp: disk_inv_def kheap_inv_def heap_wf_def)
        have a: "heap_va_start t \<le> r" using r by (simp add: k outside_heap_def word_le_nat_alt)
        moreover from this have "unat (r - heap_va_start t) < 2 ^ 31" using r by (subst unat_minus_nowrap) (auto simp: k outside_heap_def)
        ultimately have "runs (kfree r) t (\<lambda>_ t. runs (release_Spinlock ide_lock) t (\<lambda>_ t. ?Q t))"
          using t(3,4) s1(3) u D(5) by (intro kfree_runs [OF t(2) _ _ k(1)] release_runs) (auto simp: e finished_flags w undisturbed_def core_def rb)
        then show "runs (ide_next ?q) t (\<lambda>_ t. runs (kfree r) t (\<lambda>_ t. runs (release_Spinlock ide_lock) t (\<lambda>_ t. ?Q t)))"
          using D(5) by (simp add: ide_next_def runs_simps e(1))
      qed simp_all
      moreover have "req_buf v r = ?b" by (subst remove_head_frame [OF v r0]) simp
      ultimately show ?thesis using nz r0 by (simp add: runs_simps runs_def [of "remove_dll_entry_head ?q"] v w_def set_count_def)
    qed
  qed simp
  then obtain t where t: "ideintr s = Inr ((), t)" and Q: "?Q t" by (auto simp: runs_def)
  from ideintr_inv [OF t inv] obtain reqs where "queue_ok t reqs" by (auto simp: disk_inv_def)
  with queue_ok_empty [OF this] Q have "queue_ok t []" by simp
  then show ?thesis using P t Q by (auto simp: runs_def)
qed

lemma cpu_holds_bio:
  "cpu_holds L th (s\<lparr>bufs := B\<rparr>) = cpu_holds L th s" "cpu_holds L th (s\<lparr>req_buf := f\<rparr>) = cpu_holds L th s" "cpu_holds L th (s\<lparr>ide := d\<rparr>) = cpu_holds L th s"
  "cpu_holds L th (set_count q n s) = cpu_holds L th s" "cpu_holds L th (upd_buf b g s) = cpu_holds L th s"
  "cpu_holds L th (upd_sleeplock a h s) = cpu_holds L th s"
  by (rule cpu_holds_cong; simp add: set_count_def upd_buf_def upd_sleeplock_def)+

text \<open>The state in which a request is made: an idle disk, a queue with nothing in it, room in the heap.\<close>

definition can_read :: "nat \<Rightarrow> 'a bio_scheme \<Rightarrow> bool" where
  "can_read b s \<longleftrightarrow> disk_inv s \<and> queue_ok s [] \<and> ready (ide s) \<and> no_return s = Some UINT64_MAX
     \<and> (\<exists>j. candidate (heap_tree s) sizeof_ide_request 0 j) \<and> b < NBUF \<and> b_refcnt (bufs s b) \<noteq> 0
     \<and> b_blockno (bufs s b) < FSSIZE \<and> b_dev (bufs s b) = 0 \<and> b_flags (bufs s b) AND B_VALID = 0"

lemma can_read_core: "core s = core t \<Longrightarrow> can_read b s = can_read b t"
  using disk_inv_core [of s t] queue_ok_core [of s t] by (simp add: can_read_def) (simp add: core_def)

lemma ide_submit_returns:
  fixes s :: "'a bio_scheme"
  assumes h: "cpu_holds {} th s" and q: "dll_queue (ide_queue_va s) s []" "entry_count s (ide_queue_va s) = 0" and d: "ready (ide s)"
    and b: "b_blockno (bufs s b) < FSSIZE" "b_flags (bufs s b) AND B_DIRTY = 0" and r: "r \<noteq> 0" "r \<noteq> ide_queue_va s"
  shows "runs (ide_submit b r) s (\<lambda>_ t. cpu_holds {ide_lock} th t \<and> dll_queue (ide_queue_va s) t [r] \<and> req_buf t r = b \<and> ready (ide t)
     \<and> heap_tree t = heap_tree s \<and> bufs t = bufs s \<and> bcache_va t = bcache_va s \<and> ide_queue_va t = ide_queue_va s
     \<and> thread_id (threads t th) = thread_id (threads s th))"
  unfolding ide_submit_def runs_simps
proof (rule acquire_runs [OF h])
  fix s3 :: "'a bio_scheme" assume s3: "cpu_holds (insert ide_lock {}) th s3" "undisturbed th s s3" "threads s3 = threads s"
  have e3: "bufs s3 = bufs s" "ide s3 = ide s" "ide_queue_va s3 = ide_queue_va s" "bcache_va s3 = bcache_va s" "heap_tree s3 = heap_tree s"
    "dll_next s3 = dll_next s" "dll_prev s3 = dll_prev s" "entry_count s3 = entry_count s" using s3(2) by (simp_all add: undisturbed_def core_def)
  let ?q = "ide_queue_va s" and ?s = "s3\<lparr>req_buf := (req_buf s3)(r := b)\<rparr>"
  have dq: "dll_queue ?q ?s []" using q by (simp add: dll_queue_def e3)
  have "linkable ?q ?s r []" using r q by (simp add: linkable_def e3)
  from dll_queue_insert [OF dq(1) this] obtain v where v: "insert_dll_entry_tail ?q r ?s = Inr ((), v)" "dll_queue ?q v [r]" by auto
  from insert_tail_frame [OF v(1)] obtain f g where
    V: "v = ?s\<lparr>dll_next := f, dll_prev := g, entry_count := (entry_count ?s)(?q := entry_count ?s ?q + 1)\<rparr>" by blast
  define w where "w = set_count ?q (entry_count v ?q + 1) v"
  have hw: "cpu_holds {ide_lock} th w" using s3(1) cpu_holds_cong [of w s3] by (simp add: w_def V set_count_def)
  have dw: "dll_queue ?q w [r]" unfolding w_def using v(2) by (intro dll_queue_set_count) (simp_all add: V e3 q(2))
  have ew: "bufs w = bufs s" "ide w = ide s" "req_buf w r = b" "ide_queue_va w = ?q" "bcache_va w = bcache_va s" "heap_tree w = heap_tree s"
    "threads w = threads s" by (simp_all add: w_def V e3 s3(3) set_count_def)
  have f: "req_buf w (dll_first w ?q) = b" using dw ew(3) by (simp add: dll_queue_def)
  let ?Q = "\<lambda>t. cpu_holds {ide_lock} th t \<and> dll_queue ?q t [r] \<and> req_buf t r = b \<and> ready (ide t) \<and> heap_tree t = heap_tree s
     \<and> bufs t = bufs s \<and> bcache_va t = bcache_va s \<and> ide_queue_va t = ?q \<and> thread_id (threads t th) = thread_id (threads s th)"
  have "runs (idestart b) w (\<lambda>_ t. ?Q t)"
    by (rule idestart_returns) (use d b hw dw in \<open>auto simp: ew cpu_holds_bio dll_queue_bufs\<close>)
  then have *: "runs (if req_buf w (dll_first w ?q) = b then idestart b else ret ()) w (\<lambda>_ t. ?Q t)" by (simp add: f)
  show "runs (insert_dll_entry_tail (ide_queue_va ?s) r) ?s (\<lambda>_ t. runs
     (if req_buf (set_count (ide_queue_va ?s) (entry_count t (ide_queue_va ?s) + 1) t)
           (dll_first (set_count (ide_queue_va ?s) (entry_count t (ide_queue_va ?s) + 1) t) (ide_queue_va ?s)) = b
      then idestart b else ret ()) (set_count (ide_queue_va ?s) (entry_count t (ide_queue_va ?s) + 1) t) (\<lambda>_ t. ?Q t))"
    using * by (simp add: runs_def [of "insert_dll_entry_tail _ _"] e3(3) v(1) w_def)
qed simp

lemma iderw_begin_returns:
  fixes s :: "'a bio_scheme"
  assumes h: "cpu_holds {} th s" and c: "can_read b s"
    and lk: "sl_is_locked (sleeplocks s (buf_lock b s))" "sl_owner_tid (sleeplocks s (buf_lock b s)) = thread_id (threads s th)"
  shows "runs (iderw_begin b) s (\<lambda>_ t. \<exists>r. cpu_holds {ide_lock} th t \<and> disk_inv t \<and> queue_ok t [r] \<and> req_buf t r = b \<and> ready (ide t)
     \<and> in_use (heap_tree t 0) \<and> \<not> outside_heap r \<and> b_flags (bufs t b) AND B_VALID = 0 \<and> bcache_va t = bcache_va s
     \<and> thread_id (threads t th) = thread_id (threads s th) \<and> one_taken (heap_tree s) (heap_tree t) \<and> bufs t = bufs s)"
proof -
  from c obtain j where inv: "disk_inv s" and q: "queue_ok s []" and d: "ready (ide s)" and nr: "no_return s = Some UINT64_MAX"
    and cand: "candidate (heap_tree s) sizeof_ide_request 0 j" and b: "b < NBUF" "b_refcnt (bufs s b) \<noteq> 0"
    "b_blockno (bufs s b) < FSSIZE" "b_dev (bufs s b) = 0" "b_flags (bufs s b) AND B_VALID = 0" by (auto simp: can_read_def)
  have nq: "\<not> queued b s" using queued_iff [OF q] by simp
  have cl: "b_flags (bufs s b) AND B_DIRTY = 0" using inv b(1) by (simp add: disk_inv_def cache_ok_def)
  have fl: "b_flags (bufs s b) AND (B_VALID OR B_DIRTY) \<noteq> B_VALID" using clean_valid(1) [OF cl] b(5) by (simp add: B_VALID_def)
  let ?Q = "\<lambda>t. \<exists>r. cpu_holds {ide_lock} th t \<and> dll_queue (ide_queue_va s) t [r] \<and> req_buf t r = b \<and> ready (ide t) \<and> in_use (heap_tree t 0)
     \<and> \<not> outside_heap r \<and> bufs t = bufs s \<and> bcache_va t = bcache_va s \<and> ide_queue_va t = ide_queue_va s
     \<and> thread_id (threads t th) = thread_id (threads s th) \<and> one_taken (heap_tree s) (heap_tree t)"
  have "runs (iderw_begin b) s (\<lambda>_ t. ?Q t)"
    unfolding iderw_begin_def runs_simps
  proof (rule holdingsleep_runs [OF h])
    fix s1 :: "'a bio_scheme" assume s1: "cpu_holds {} th s1" "undisturbed th s s1" "threads s1 = threads s"
    have c1: "core s1 = core s" using s1(2) by (simp add: undisturbed_def)
    have e1: "bufs s1 = bufs s" "heap_tree s1 = heap_tree s" "no_return s1 = Some UINT64_MAX" using c1 nr by (simp_all add: core_def)
    have k1: "kheap_inv s1" using inv heap_core(1) [OF c1] by (simp add: disk_inv_def)
    have q1: "queue_ok s1 []" using q queue_ok_core [OF c1] by simp
    have "runs (kalloc sizeof_ide_request) s1 (\<lambda>req t. runs
        (if req = 0 then raise (Panic ''iderw() --> kalloc returned NULL!'') else ide_submit b req) t (\<lambda>_ t. ?Q t))"
    proof (rule kalloc_runs [OF s1(1) _ _ k1 e1(3)])
      show "candidate (heap_tree s1) sizeof_ide_request 0 j" using cand e1 by simp
      fix r s2 assume s2: "kalloc sizeof_ide_request s1 = Inr (r, s2)" "r \<noteq> 0" "cpu_holds {} th s2" "threads s2 = threads s1" "in_use (heap_tree s2 0)"
        "block_taken sizeof_ide_request r (heap_tree s1) (heap_tree s2)"
      have ot: "one_taken (heap_tree s1) (heap_tree s2)" by (rule block_taken_one [OF s2(6)]) (simp add: sizeof_ide_request_def KERNEL_HEAP_MINBLOCK_def)
      have n: "sizeof_ide_request \<noteq> 0" by (simp add: sizeof_ide_request_def)
      note K = kalloc_disk [OF s2(1) k1 n]
      from K(1) obtain tree c l where t2: "s2 = s1\<lparr>heap_tree := tree, cpus := c, locks := l\<rparr>" by blast
      have ro: "\<not> outside_heap r" by (rule K(6) [OF s2(2)])
      have e2: "bufs s2 = bufs s" "ide s2 = ide s" "ide_queue_va s2 = ide_queue_va s" "bcache_va s2 = bcache_va s" using c1 by (simp_all add: core_def t2)
      have q2: "dll_queue (ide_queue_va s2) s2 []" "entry_count s2 (ide_queue_va s2) = 0" using q1 by (simp_all add: queue_ok_def dll_queue_def t2)
      have "r \<noteq> ide_queue_va s2" using ro inv by (auto simp: disk_inv_def e2)
      then have "runs (ide_submit b r) s2 (\<lambda>_ t. ?Q t)"
        by (intro runs_mono [OF ide_submit_returns [OF s2(3) q2 _ _ _ s2(2)]]) (use d b cl ro s2(4,5) ot s1(3) e1(2) in \<open>auto simp: e2\<close>)
      then show "runs (if r = 0 then raise (Panic ''iderw() --> kalloc returned NULL!'') else ide_submit b r) s2 (\<lambda>_ t. ?Q t)"
        using s2(2) by simp
    qed simp_all
    then show "runs (if \<not> (sl_is_locked (sleeplocks s (buf_lock b s)) \<and> sl_owner_tid (sleeplocks s (buf_lock b s)) = thread_id (threads s th))
        then raise (Panic ''iderw: buf not locked'')
        else seqn (ensure (\<lambda>s. b_flags (bufs s b) AND (B_VALID OR B_DIRTY) \<noteq> B_VALID) (Panic ''iderw: nothing to do''))
            (seqn (ensure (\<lambda>s. b_dev (bufs s b) = 0 \<or> disk1 s) (Panic ''iderw: only disk 0 is supported''))
            (bnd (kalloc sizeof_ide_request) (\<lambda>req. if req = 0 then raise (Panic ''iderw() --> kalloc returned NULL!'')
              else ide_submit b req)))) s1 (\<lambda>_ t. ?Q t)"
      using lk fl b(4) by (simp add: runs_simps e1)
  qed simp_all
  then obtain t r where t: "iderw_begin b s = Inr ((), t)" and Q: "cpu_holds {ide_lock} th t" "dll_queue (ide_queue_va s) t [r]" "req_buf t r = b"
    "ready (ide t)" "in_use (heap_tree t 0)" "\<not> outside_heap r" "bufs t = bufs s" "bcache_va t = bcache_va s" "ide_queue_va t = ide_queue_va s"
    "thread_id (threads t th) = thread_id (threads s th)" "one_taken (heap_tree s) (heap_tree t)" by (auto simp: runs_def)
  have it: "disk_inv t" using iderw_begin_inv [OF t inv b(1,2) nq] by simp
  then obtain rs where "queue_ok t rs" by (auto simp: disk_inv_def)
  with Q(2,9) dll_queue_unique [of "ide_queue_va s" t rs "[r]"] have "queue_ok t [r]" by (auto simp: queue_ok_def)
  with t it Q b(5) show ?thesis by (auto simp: runs_def)
qed

lemma iderw_returns:
  fixes s :: "'a bio_scheme"
  assumes h: "cpu_holds {} th s" and c: "can_read b s" and va: "buf_va b s \<noteq> 0"
    and lk: "sl_is_locked (sleeplocks s (buf_lock b s))" "sl_owner_tid (sleeplocks s (buf_lock b s)) = thread_id (threads s th)"
  shows "runs (iderw ideintr b) s (\<lambda>_ t. cpu_holds {} th t \<and> thread_id (threads t th) = thread_id (threads s th) \<and> ready (ide t)
     \<and> queue_ok t [] \<and> one_taken (heap_tree s) (heap_tree t) \<and> (\<forall>c. c \<noteq> b \<longrightarrow> bufs t c = bufs s c))"
proof -
  from iderw_begin_returns [OF h c lk] obtain t r where t0: "iderw_begin b s = Inr ((), t)" and t: "cpu_holds {ide_lock} th t" "disk_inv t" "queue_ok t [r]" "req_buf t r = b" "ready (ide t)" "in_use (heap_tree t 0)" "\<not> outside_heap r"
    "b_flags (bufs t b) AND B_VALID = 0" "bcache_va t = bcache_va s"
    "thread_id (threads t th) = thread_id (threads s th)" "one_taken (heap_tree s) (heap_tree t)" "bufs t = bufs s" by (auto simp: runs_def)
  let ?C = "\<lambda>s. b_flags (bufs s b) AND (B_VALID OR B_DIRTY) \<noteq> B_VALID"
  let ?Q = "\<lambda>t. cpu_holds {} th t \<and> thread_id (threads t th) = thread_id (threads s th) \<and> ready (ide t) \<and> queue_ok t [] \<and> one_taken (heap_tree s) (heap_tree t) \<and> (\<forall>c. c \<noteq> b \<longrightarrow> bufs t c = bufs s c)"
  let ?R = "\<lambda>t. runs (release_Spinlock ide_lock) t (\<lambda>_ t. ?Q t)"
  let ?W = "while_do ?C (bnd (gets (buf_va b)) (\<lambda>ch. ThreadSleep ideintr ch ide_lock))"
  have b: "b < NBUF" using t(3,4) by (auto simp: queue_ok_def request_ok_def)
  have "b_flags (bufs t b) AND B_DIRTY = 0" using t(2) b by (simp add: disk_inv_def cache_ok_def)
  from clean_valid(1) [OF this] have C: "?C t" using t(8) by (simp add: B_VALID_def)
  have va': "buf_va b t \<noteq> 0" using va t(9) by (simp add: buf_va_def)
  have "runs (ThreadSleep ideintr (buf_va b t) ide_lock) t (\<lambda>_ u. runs ?W u (\<lambda>_ v. ?R v))"
    unfolding ThreadSleep_def [of ideintr "buf_va b t"] runs_simps
  proof (intro current_thread_runs [OF t(1)] deref_runs, rule ThreadSleep_begin_runs [OF t(1)])
    fix t1 :: "'a bio_scheme" assume t1: "cpu_holds ({ide_lock} - {ide_lock}) th t1" "undisturbed th t t1"
    have c1: "core t1 = core t" using t1(2) by (simp add: undisturbed_def)
    have e1: "disk_inv t1" "queue_ok t1 [r]" "ready (ide t1)" "in_use (heap_tree t1 0)" "req_buf t1 r = b" "cpu_holds {} th t1" "heap_tree t1 = heap_tree t" "bufs t1 = bufs s"
      using t(1-7,12) t1(1) c1 disk_inv_core [OF c1] queue_ok_core [OF c1] by (simp_all add: core_def)
    have "runs ideintr t1 (\<lambda>_ t2. runs (ThreadSleep_end th ide_lock) t2 (\<lambda>_ u. runs ?W u (\<lambda>_ v. ?R v)))"
    proof (rule ideintr_returns [OF e1(6,1-4) t(7)])
      fix t2 :: "'a bio_scheme" assume t2: "cpu_holds {} th t2" "b_flags (bufs t2 (req_buf t1 r)) AND (B_VALID OR B_DIRTY) = B_VALID"
        "thread_id (threads t2 th) = thread_id (threads t1 th)" "ready (ide t2)" "queue_ok t2 []" "heap_tree t2 = heap_tree t1"
        "\<And>c. c \<noteq> req_buf t1 r \<Longrightarrow> bufs t2 c = bufs t1 c"
      show "runs (ThreadSleep_end th ide_lock) t2 (\<lambda>_ u. runs ?W u (\<lambda>_ v. ?R v))"
      proof (rule ThreadSleep_end_runs [OF t2(1)])
        fix u :: "'a bio_scheme" assume u: "cpu_holds (insert ide_lock {}) th u" "undisturbed th t2 u"
        have "\<not> ?C u" using t2(2) u(2) e1(5) by (simp add: undisturbed_def core_def)
        moreover have "?R u"
        proof (rule release_runs [OF u(1)])
          fix v :: "'a bio_scheme" assume v: "cpu_holds (insert ide_lock {} - {ide_lock}) th v" "undisturbed th u v"
          have c: "core v = core t2" "thread_id (threads v th) = thread_id (threads s th)"
            using undisturbed_trans [OF u(2) v(2)] t2(3) t1(2) t(10) by (simp_all add: undisturbed_def)
          then show "?Q v" using v(1) t2(4-7) t(11) e1(5,7,8) queue_ok_core [OF c(1)] by (simp add: core_def)
        qed simp_all
        ultimately show "runs ?W u (\<lambda>_ v. ?R v)" by (simp add: runs_while_done)
      qed simp_all
    qed
    then show "runs (if True then ideintr else ret ()) t1 (\<lambda>_ t2. runs (ThreadSleep_end th ide_lock) t2 (\<lambda>_ u. runs ?W u (\<lambda>_ v. ?R v)))" by simp
  qed (simp_all add: va')
  then have "runs ?W t (\<lambda>_ v. ?R v)"
    by (intro runs_while_step [where c = ?C, OF C]) (simp add: runs_simps)
  then show ?thesis by (simp add: iderw_def runs_simps runs_def [of "iderw_begin b"] t0)
qed

lemma acquire_Sleeplock_returns:
  fixes s :: "'a bio_scheme"
  assumes h: "cpu_holds {} th s" and u: "\<not> sl_is_locked (sleeplocks s a)"
  shows "runs (acquire_Sleeplock int3 a) s (\<lambda>_ t. cpu_holds {} th t \<and> thread_id (threads t th) = thread_id (threads s th)
     \<and> core t = core (s\<lparr>sleeplocks := (sleeplocks s)(a := (sleeplocks s a)\<lparr>sl_is_locked := True, sl_owner_tid := thread_id (threads s th)\<rparr>)\<rparr>))"
  unfolding acquire_Sleeplock_def runs_simps
proof (rule acquire_runs [OF h])
  fix s1 :: "'a bio_scheme" assume s1: "cpu_holds (insert (sleeplock_lock a) {}) th s1" "undisturbed th s s1" "threads s1 = threads s"
  have e: "sleeplocks s1 = sleeplocks s" using s1(2) by (simp add: undisturbed_def core_def)
  let ?u = "upd_sleeplock a (\<lambda>l. l\<lparr>sl_is_locked := True\<rparr>) s1"
  let ?v = "upd_sleeplock a (\<lambda>l. l\<lparr>sl_owner_tid := thread_id (threads ?u th)\<rparr>) ?u"
  let ?Q = "\<lambda>t. cpu_holds {} th t \<and> thread_id (threads t th) = thread_id (threads s th)
     \<and> core t = core (s\<lparr>sleeplocks := (sleeplocks s)(a := (sleeplocks s a)\<lparr>sl_is_locked := True, sl_owner_tid := thread_id (threads s th)\<rparr>)\<rparr>)"
  have hu: "cpu_holds {sleeplock_lock a} th ?u" "cpu_holds {sleeplock_lock a} th ?v" using s1(1) by (simp_all add: cpu_holds_bio)
  have "core ?v = core (s\<lparr>sleeplocks := (sleeplocks s)(a := (sleeplocks s a)\<lparr>sl_is_locked := True, sl_owner_tid := thread_id (threads s th)\<rparr>)\<rparr>)"
    "thread_id (threads ?v th) = thread_id (threads s th)" using s1(2,3) by (simp_all add: undisturbed_def core_def upd_sleeplock_def)
  then have "runs (release_Spinlock (sleeplock_lock a)) ?v (\<lambda>_ t. ?Q t)"
    by (intro release_runs [OF hu(2)]) (auto simp: undisturbed_def)
  then show "runs (while_do (\<lambda>s. sl_is_locked (sleeplocks s a)) (ThreadSleep int3 a (sleeplock_lock a))) s1
     (\<lambda>_ t. runs GetCurrentThread (upd_sleeplock a (\<lambda>l. l\<lparr>sl_is_locked := True\<rparr>) t) (\<lambda>thread t. runs (deref thread) t (\<lambda>k t.
        runs (release_Spinlock (sleeplock_lock a)) (upd_sleeplock a (\<lambda>l. l\<lparr>sl_owner_tid := thread_id (threads t k)\<rparr>) t) (\<lambda>_ t. ?Q t))))"
    using u by (simp add: runs_while_done e) (intro current_thread_runs [OF hu(1)] deref_runs, simp)
qed simp

lemma calm_ideintr: "calm ideintr"
  using ideintr_inv by (auto simp: calm_def)

lemma first_buf_exists: "P (B b) \<Longrightarrow> b < n \<Longrightarrow> \<exists>i. first_buf P B [0..<n] = Some i"
  using first_buf_None [of P B n] by fastforce

lemma bget_lookup_returns:
  fixes s :: "'a bio_scheme"
  assumes h: "cpu_holds {} th s" and b: "b < NBUF" "reusable (bufs s b)"
  shows "runs (bget_lookup dev n) s (\<lambda>_ t. cpu_holds {} th t \<and> threads t = threads s)"
  unfolding bget_lookup_def runs_simps
proof (rule acquire_runs [OF h])
  fix s1 :: "'a bio_scheme" assume s1: "cpu_holds (insert bcache_lock {}) th s1" "undisturbed th s s1" "threads s1 = threads s"
  have e: "bufs s1 = bufs s" using s1(2) by (simp add: undisturbed_def core_def)
  have rel: "runs (release_Spinlock bcache_lock) (upd_buf i f s1) (\<lambda>_ t. cpu_holds {} th t \<and> threads t = threads s)" for i f
    by (rule release_runs [of "{bcache_lock}" th]) (use s1 in \<open>auto simp: cpu_holds_bio upd_buf_def\<close>)
  obtain k where "first_buf reusable (bufs s) [0..<NBUF] = Some k" using first_buf_exists [of reusable "bufs s"] b by blast
  then show "runs (case first_buf (holds_block dev n) (bufs s1) [0..<NBUF] of
       None \<Rightarrow> bnd (gets (\<lambda>s. first_buf reusable (bufs s) [0..<NBUF])) (\<lambda>r. case r of None \<Rightarrow> raise (Panic ''bget: no buffers'')
         | Some b \<Rightarrow> seqn (upd (upd_buf b (\<lambda>x. x\<lparr>b_dev := dev, b_blockno := n, b_flags := 0, b_refcnt := 1\<rparr>))) (seqn (release_Spinlock bcache_lock) (ret b)))
     | Some b \<Rightarrow> seqn (upd (upd_buf b (\<lambda>x. x\<lparr>b_refcnt := b_refcnt x + 1\<rparr>))) (seqn (release_Spinlock bcache_lock) (ret b)))
     s1 (\<lambda>_ t. cpu_holds {} th t \<and> threads t = threads s)"
    using rel by (auto simp: runs_simps e split: option.splits)
qed simp

lemma bget_lookup_core:
  assumes "bget_lookup dev n s = Inr (b, t)"
  shows "b < NBUF" "\<exists>B. core t = core (s\<lparr>bufs := B\<rparr>)"
  using assms by (cases rule: bget_lookup_cases; auto simp: core_def upd_buf_def)+

section \<open>A concrete disk\<close>

definition unused_buf :: iobuf where
  "unused_buf = \<lparr>b_flags = 0, b_dev = 0, b_blockno = 0, b_refcnt = 0, b_prev = 0, b_next = 0, b_data = []\<rparr>"

definition idle_drive :: ide_drive where
  "idle_drive = \<lparr>status_in = (\<lambda>_. IDE_DRDY), reg_control = 0, reg_count = 0, reg_lba0 = 0, reg_lba1 = 0, reg_lba2 = 0,
     reg_drive = 0xe0, reg_command = 0, sectors = (\<lambda>_ n. replicate 512 (of_nat n))\<rparr>"

definition disk_desk :: bio where
  "disk_desk = io.extend (desk small_console (\<lambda>_. zero_process)) \<lparr>bufs = (\<lambda>_. unused_buf), bcache_va = 0xffffffff80140000,
     ide_queue_va = 0xffffffff80150000, req_buf = (\<lambda>_. 0), disk1 = False, ide = idle_drive\<rparr>"

lemma desk_memory [simp]:
  "heap_tree (desk c P) = heap_tree boot_kheap" "heap_va_start (desk c P) = KERNEL_HEAP_START" "no_return (desk c P) = Some UINT64_MAX"
  "dll_next (desk c P) = (\<lambda>_. 0)" "dll_prev (desk c P) = (\<lambda>_. 0)" "entry_count (desk c P) = (\<lambda>_. 0)"
  "sleeplocks (desk c P) = (\<lambda>_. \<lparr>sl_is_locked = False, sl_owner_tid = 0\<rparr>)"
  by (simp_all add: desk_def user.defs proc.defs) (simp add: machine_def paging.defs)

lemma disk_desk_simps [simp]:
  "bufs disk_desk = (\<lambda>_. unused_buf)" "bcache_va disk_desk = 0xffffffff80140000" "ide_queue_va disk_desk = 0xffffffff80150000"
  "ide disk_desk = idle_drive" "heap_tree disk_desk = heap_tree boot_kheap" "heap_va_start disk_desk = KERNEL_HEAP_START"
  "no_return disk_desk = Some UINT64_MAX" "dll_next disk_desk = (\<lambda>_. 0)" "dll_prev disk_desk = (\<lambda>_. 0)" "entry_count disk_desk = (\<lambda>_. 0)"
  "sleeplocks disk_desk = (\<lambda>_. \<lparr>sl_is_locked = False, sl_owner_tid = 0\<rparr>)" "lapic_id disk_desk = 0"
  "cpus disk_desk = [(boot_cpu 0)\<lparr>current_thread := Some 0\<rparr>]" "locks disk_desk = locks boot_smp"
  by (simp_all add: disk_desk_def io.defs)

lemma disk_desk_start: "disk_start disk_desk"
proof -
  have "kheap_inv disk_desk" using kheap_inv_boot by (simp add: kheap_inv_def boot_kheap_env)
  moreover have "healthy idle_drive" by (simp add: healthy_def idle_drive_def ide_consts)
  moreover have "outside_heap 0xffffffff80150000" by (simp add: outside_heap_def KERNEL_HEAP_START_def)
  ultimately show ?thesis by (simp add: disk_start_def unused_buf_def dll_queue_def dll_ok_def)
qed

lemma disk_desk_cpu: "cpu_holds {} 0 disk_desk"
  unfolding cpu_holds_def by (auto simp: registered_def boot_cpu_def boot_smp_def intro!: exI [of _ 0])


section \<open>A disk error\<close>



end
