(* ===== verification/Disk_Read.thy ===== *)
theory Disk_Read
  imports Disk_Protocol
begin

text \<open>
  Reading one sector after another: \<open>bread\<close> followed by \<open>brelse\<close> returns the disk, the cache and the CPU to a state in
  which the next read can be made. \<open>serving\<close> is that state; the heap it needs is counted in free blocks of the minimal
  size, because \<open>kfree\<close> never gives a request back.
\<close>

section \<open>What a disk request leaves alone\<close>

definition aside :: "'a bio_scheme \<Rightarrow> _" where
  "aside s = (sleeplocks s, (heap_va_start s, no_return s), (bcache_va s, ide_queue_va s, disk1 s),
     (\<lambda>b. (key (bufs s b), b_refcnt (bufs s b))), bio.more s)"

lemma aside_core: "core t = core s \<Longrightarrow> aside t = aside s"
  by (simp add: core_def aside_def)

lemma keeps_aside: "keeps core m \<Longrightarrow> keeps aside m"
  unfolding keeps_def using aside_core by blast

lemma aside_upd:
  "aside (upd_ide f s) = aside s" "aside (set_count q n s) = aside s" "aside (s\<lparr>req_buf := r\<rparr>) = aside s"
  "(\<And>x. key (g x) = key x) \<Longrightarrow> (\<And>x. b_refcnt (g x) = b_refcnt x) \<Longrightarrow> aside (upd_buf b g s) = aside s"
  by (simp_all add: aside_def upd_ide_def upd_buf_def set_count_def fun_eq_iff)

lemma aside_lists: "keeps aside (insert_dll_entry_tail h e)" "keeps aside (remove_dll_entry_head h)"
  by (auto simp: keeps_def insert_dll_entry_tail_def remove_dll_entry_head_def remove_dll_entry_def Let_def aside_def dll_set_defs split: if_splits)

lemma aside_kalloc: "keeps aside (kalloc n)"
proof -
  have "keeps aside (kheap_request n)"
    by (auto simp: keeps_def kheap_request_def aside_def split: sum.splits prod.splits)
  then show ?thesis
    unfolding kalloc_def by (intro keeps_bnd keeps_seqn keeps_aside [OF core_acquire]) (auto intro: keeps_rules keeps_aside [OF core_release])
qed

lemma aside_idewait: "keeps aside (idewait c)" "keeps aside (outb p v)" "keeps aside (outsl bs)" "keeps aside insl"
  by (auto simp: keeps_def idewait_def outb_def outsl_def insl_def aside_upd bnd_Inr_iff seqn_Inr_iff split: option.splits prod.splits)

lemma keeps_if: "keeps f m \<Longrightarrow> keeps f n \<Longrightarrow> keeps f (if c then m else n)"
  by simp

lemma aside_flags: "aside (upd_buf b (\<lambda>x. x\<lparr>b_flags := f x\<rparr>) s) = aside s" "aside (upd_buf b (\<lambda>x. x\<lparr>b_data := d\<rparr>) s) = aside s"
  by (rule aside_upd(4); simp add: key_def)+

lemmas aside_rules = keeps_rules keeps_if aside_lists aside_kalloc aside_idewait keeps_aside [OF core_acquire] keeps_aside [OF core_release]
  keeps_aside [OF core_current_thread] keeps_aside [OF core_deref] keeps_aside [OF core_Wakeup] keeps_aside [OF core_holdingsleep]
  keeps_aside [OF core_ThreadSleep_begin] keeps_aside [OF core_ThreadSleep_end] keeps_aside [OF core_kfree]

lemma aside_idestart: "keeps aside (idestart b)"
  unfolding idestart_def Let_def by (intro aside_rules)

lemma aside_ideintr: "keeps aside ideintr"
  unfolding ideintr_def ide_finish_def ide_next_def case_prod_beta
  by (intro aside_rules aside_idestart) (simp_all add: aside_upd aside_flags)

lemma aside_ThreadSleep: "keeps aside (ThreadSleep ideintr ch l)"
  unfolding ThreadSleep_def by (intro aside_rules aside_ideintr)

lemma aside_while:
  assumes "keeps aside body"
  shows "keeps aside (while_do c body)"
  unfolding keeps_def
proof (intro allI impI)
  fix s b t assume "while_do c body s = Inr (b, t)"
  then have w: "while_do c body s = Inr ((), t)" by simp
  have "aside t = aside s \<and> \<not> c t"
    by (rule while_do_rule [OF w, where I = "\<lambda>t. aside t = aside s"]) (use assms in \<open>auto simp: keeps_def\<close>)
  then show "aside t = aside s" by simp
qed

lemma aside_iderw: "keeps aside (iderw ideintr b)"
  unfolding iderw_def iderw_begin_def ide_submit_def
  by (intro aside_rules aside_idestart aside_while aside_ThreadSleep) (simp_all add: aside_upd)

section \<open>A read from start to end\<close>

definition locked_by :: "u32 \<Rightarrow> Sleeplock \<Rightarrow> Sleeplock" where
  "locked_by th l = l\<lparr>sl_is_locked := True, sl_owner_tid := th\<rparr>"

lemma bread_returns:
  fixes s :: "'a bio_scheme"
  assumes cpu: "cpu_holds {} th s" and inv: "disk_inv s" and idle: "queue_ok s []" and rd: "ready (ide s)" and refs: "refs_ok s"
    and heap: "no_return s = Some UINT64_MAX" "candidate (heap_tree s) sizeof_ide_request 0 j"
    and buf: "b0 < NBUF" "reusable (bufs s b0)" and unl: "\<And>b. b < NBUF \<Longrightarrow> b_refcnt (bufs s b) = 0 \<or> key (bufs s b) = (0, n) \<Longrightarrow> \<not> sl_is_locked (sleeplocks s (buf_lock b s)) \<and> buf_va b s \<noteq> 0"
    and n: "n < FSSIZE"
  shows "runs (bread ideintr 0 n) s (\<lambda>b t. cpu_holds {} th t \<and> thread_id (threads t th) = thread_id (threads s th) \<and> ready (ide t) \<and> queue_ok t []
     \<and> (heap_tree t = heap_tree s \<or> one_taken (heap_tree s) (heap_tree t)) \<and> (\<forall>c. c \<noteq> b \<longrightarrow> bufs t c = bufs s c)
     \<and> (b_refcnt (bufs s b) = 0 \<or> key (bufs s b) = (0, n)) \<and> b_refcnt (bufs t b) = b_refcnt (bufs s b) + 1 \<and> b_flags (bufs t b) AND B_VALID \<noteq> 0
     \<and> sleeplocks t = (sleeplocks s)(buf_lock b s := locked_by (thread_id (threads s th)) (sleeplocks s (buf_lock b s)))
     \<and> no_return t = no_return s \<and> bio.more t = bio.more s)"
proof -
  from bget_lookup_returns [OF cpu buf, of 0 n] obtain b s1 where l: "bget_lookup 0 n s = Inr (b, s1)" and h1: "cpu_holds {} th s1"
    and t1: "threads s1 = threads s" by (auto simp: runs_def)
  from bget_lookup_core [OF l] obtain B where b: "b < NBUF" and c1: "core s1 = core (s\<lparr>bufs := B\<rparr>)" by blast
  have i1: "disk_inv s1" "key (bufs s1 b) = (0, n)" "b_refcnt (bufs s1 b) \<noteq> 0" using bget_lookup_inv [OF l inv refs] by auto
  have b1: "b_refcnt (bufs s b) = 0 \<or> key (bufs s b) = (0, n)" "b_refcnt (bufs s1 b) = b_refcnt (bufs s b) + 1" "\<And>c. c \<noteq> b \<Longrightarrow> bufs s1 c = bufs s c"
    using l by (cases rule: bget_lookup_cases; simp add: upd_buf_def fresh_buf_def reusable_def)+
  have bl: "buf_lock b s1 = buf_lock b s" "buf_va b s1 = buf_va b s" using c1 by (simp_all add: core_def buf_lock_def buf_va_def)
  have "\<not> sl_is_locked (sleeplocks s1 (buf_lock b s1))" using unl [OF b b1(1)] c1 bl by (simp add: core_def)
  from acquire_Sleeplock_returns [OF h1 this, of ideintr] obtain s2 where a: "acquire_Sleeplock ideintr (buf_lock b s1) s1 = Inr ((), s2)"
    and h2: "cpu_holds {} th s2" "thread_id (threads s2 th) = thread_id (threads s1 th)"
    and c2: "core s2 = core (s1\<lparr>sleeplocks := (sleeplocks s1)(buf_lock b s1 := (sleeplocks s1 (buf_lock b s1))\<lparr>sl_is_locked := True, sl_owner_tid := thread_id (threads s1 th)\<rparr>)\<rparr>)"
    by (auto simp: runs_def)
  have i2: "disk_inv s2" "\<not> queued b s2" using acquire_Sleeplock_calm [OF calm_ideintr a i1(1) b] by simp_all
  have e2: "bufs s2 = bufs s1" "ide s2 = ide s" "heap_tree s2 = heap_tree s" "no_return s2 = no_return s" "bcache_va s2 = bcache_va s1" "bio.more s2 = bio.more s"
    "sleeplocks s2 = (sleeplocks s)(buf_lock b s := locked_by (thread_id (threads s th)) (sleeplocks s (buf_lock b s)))"
    using c1 c2 by (simp_all add: core_def locked_by_def t1 bl)
  have q2: "queue_ok s2 []" using idle c1 c2 by (simp add: queue_ok_def dll_queue_def) (simp add: core_def)
  have bl2: "buf_lock b s2 = buf_lock b s" "buf_va b s2 = buf_va b s" using bl e2 by (simp_all add: buf_lock_def buf_va_def)
  let ?Q = "\<lambda>t. cpu_holds {} th t \<and> thread_id (threads t th) = thread_id (threads s th) \<and> ready (ide t) \<and> queue_ok t []
     \<and> (heap_tree t = heap_tree s \<or> one_taken (heap_tree s) (heap_tree t)) \<and> (\<forall>c. c \<noteq> b \<longrightarrow> bufs t c = bufs s c)"
  let ?m = "if b_flags (bufs s2 b) AND B_VALID = 0 then iderw ideintr b else ret ()"
  have "runs ?m s2 (\<lambda>_ t. ?Q t)"
  proof (cases "b_flags (bufs s2 b) AND B_VALID = 0")
    case True
    then have "can_read b s2" using i2 q2 rd heap b i1 n by (auto simp: can_read_def e2 key_def)
    then have "runs (iderw ideintr b) s2 (\<lambda>_ t. ?Q t)"
      using unl [OF b b1(1)] b by (intro runs_mono [OF iderw_returns [OF h2(1)]]) (auto simp: bl2 e2 h2 t1 b1 locked_by_def)
    then show ?thesis using True by simp
  qed (use h2 t1 q2 rd b1 in \<open>simp add: runs_simps e2\<close>)
  then obtain t where w: "?m s2 = Inr ((), t)" and Q: "?Q t" by (auto simp: runs_def)
  have r: "bread ideintr 0 n s = Inr (b, t)" using l a w(1) by (auto simp: bread_def bget_def op_combinators)
  have "keeps aside ?m" by (intro aside_rules aside_iderw)
  from keepsD [OF this w] have as: "aside t = aside s2" .
  have rc: "b_refcnt (bufs t b) = b_refcnt (bufs s b) + 1" using as b1(2) e2(1) by (auto simp: aside_def dest: fun_cong [of _ _ b])
  have "b_flags (bufs t b) AND B_VALID \<noteq> 0" using w iderw_calm [OF calm_ideintr _ i2(1) b _ i2(2)] i1(3) e2 by (auto split: if_splits)
  then show ?thesis using r Q b1(1) rc as e2 by (auto simp: runs_def aside_def)
qed

text \<open>C8: a disk read completes. On a CPU that holds no lock, with an idle disk that answers, a free buffer and room in the
  heap for the request, \<open>bread\<close> returns: the request is queued and started, the thread sleeps, the interrupt of
  the disk finishes the transfer and wakes it. The buffer holds the bytes of the sector, every spinlock is free again
  and the disk is unchanged.\<close>

theorem bread_completes:
  fixes s :: "'a bio_scheme"
  assumes cpu: "cpu_holds {} th s" and inv: "disk_inv s" and idle: "queue_ok s []" and rd: "ready (ide s)" and refs: "refs_ok s"
    and heap: "no_return s = Some UINT64_MAX" "candidate (heap_tree s) sizeof_ide_request 0 j"
    and buf: "b0 < NBUF" "reusable (bufs s b0)" and unl: "\<forall>b < NBUF. \<not> sl_is_locked (sleeplocks s (buf_lock b s)) \<and> buf_va b s \<noteq> 0"
    and n: "n < FSSIZE"
  shows "\<exists>b t. bread ideintr 0 n s = Inr (b, t) \<and> b_data (bufs t b) = sectors (ide s) False (unat n)
     \<and> cpu_holds {} th t \<and> sectors (ide t) = sectors (ide s)"
proof -
  obtain b t where r: "bread ideintr 0 n s = Inr (b, t)" "cpu_holds {} th t"
    using bread_returns [OF cpu inv idle rd refs heap buf _ n] unl by (auto simp: runs_def)
  from bread_reads_disk [OF calm_ideintr r(1) inv refs] have "b_data (bufs t b) = sectors (ide s) False (unat n)" "holds_on s t" by auto
  with r show ?thesis by (auto simp: holds_on_def)
qed

lemma buf_va_nonzero:
  assumes "bcache_va s = 0xffffffff80140000" "b < NBUF"
  shows "buf_va b s \<noteq> 0"
proof -
  have "unat (584 * of_nat b :: u64) = 584 * b" using assms(2) by (subst unat_mult_nowrap) (simp_all add: NBUF_def unat_of_nat take_bit_nat_eq_self)
  then have "unat (0xffffffff80140018 + 584 * of_nat b :: u64) = 0xffffffff80140018 + 584 * b"
    using assms(2) by (subst unat_plus_nowrap) (simp_all add: NBUF_def)
  then have "unat (0xffffffff80140018 + 584 * of_nat b :: u64) \<noteq> 0" by simp
  then show ?thesis by (simp add: buf_va_def assms(1) unat_eq_0)
qed

theorem bread_completes_witness:
  "\<exists>b t. bread ideintr 0 2050 disk_desk = Inr (b, t) \<and> b_data (bufs t b) = replicate 512 (of_nat 2050)"
proof -
  have inv: "disk_inv disk_desk" by (rule disk.inv_init [OF disk_desk_start])
  have c: "candidate (heap_tree disk_desk) sizeof_ide_request 0 16384"
    unfolding disk_desk_simps by (rule fresh_candidate [OF boot_kheap_tree])
      (simp_all add: KERNEL_HEAP_LEN_def boot_kheap_tree fits_def fresh_section_def KERNEL_HEAP_MINBLOCK_def hsz.simps sizeof_ide_request_def)
  have va: "buf_va b disk_desk \<noteq> 0" if "b < NBUF" for b using that by (rule buf_va_nonzero [rotated]) simp
  have "\<exists>b t. bread ideintr 0 2050 disk_desk = Inr (b, t) \<and> b_data (bufs t b) = sectors (ide disk_desk) False (unat (2050 :: u32))
     \<and> cpu_holds {} 0 t \<and> sectors (ide t) = sectors (ide disk_desk)"
    by (rule bread_completes [OF disk_desk_cpu inv _ _ _ _ c, of 0])
       (use disk_desk_start va in \<open>auto simp: disk_start_def queue_ok_def ready_def idle_drive_def refs_ok_def unused_buf_def reusable_def NBUF_def FSSIZE_def\<close>)
  then show ?thesis by (auto simp: idle_drive_def)
qed

section \<open>One read after another\<close>

text \<open>
  The thread \<open>th\<close> runs alone on its CPU, holds exactly the buffers \<open>H\<close>, each valid and locked by it, no request is
  queued, and the heap has \<open>n\<close> free blocks for the requests to come.
\<close>

definition serving :: "nat \<Rightarrow> nat \<Rightarrow> nat set \<Rightarrow> 'a bio_scheme \<Rightarrow> bool" where
  "serving th n H s \<longleftrightarrow> cpu_holds {} th s \<and> disk_inv s \<and> queue_ok s [] \<and> ready (ide s) \<and> no_return s = Some UINT64_MAX \<and> room n (heap_tree s) \<and> unsplit (heap_tree s)
     \<and> H \<subseteq> {..<NBUF} \<and> (\<forall>b < NBUF. buf_va b s \<noteq> 0 \<and> b_refcnt (bufs s b) = (if b \<in> H then 1 else 0)
       \<and> (sl_is_locked (sleeplocks s (buf_lock b s)) \<longleftrightarrow> b \<in> H)
       \<and> (b \<in> H \<longrightarrow> sl_owner_tid (sleeplocks s (buf_lock b s)) = thread_id (threads s th) \<and> b_flags (bufs s b) AND B_VALID \<noteq> 0))"

text \<open>What a run keeps while it reads: the disk stays, and the heap only grows.\<close>

definition same_disk :: "'a bio_scheme \<Rightarrow> 'a bio_scheme \<Rightarrow> bool" where
  "same_disk s t \<longleftrightarrow> sectors (ide t) = sectors (ide s) \<and> bcache_va t = bcache_va s \<and> heap_used s \<subseteq> heap_used t
     \<and> (in_use (heap_tree s 0) \<longrightarrow> in_use (heap_tree t 0))"

lemma taken_grows:
  assumes "heap_tree t = heap_tree s \<or> one_taken (heap_tree s) (heap_tree t)"
  shows "heap_used s \<subseteq> heap_used t \<and> (in_use (heap_tree s 0) \<longrightarrow> in_use (heap_tree t 0))"
  using assms by (auto simp: one_taken_def heap_used_def in_use_mark occ_mark)

lemma same_disk_refl: "same_disk s s"
  by (simp add: same_disk_def)

lemma same_disk_trans: "same_disk s t \<Longrightarrow> same_disk t u \<Longrightarrow> same_disk s u"
  by (auto simp: same_disk_def)

lemma serving_more: "b < NBUF \<Longrightarrow> serving th n H s \<Longrightarrow> b \<in> H \<Longrightarrow> b_data (bufs s b) = disk_block (ide s) (bufs s b)"
  by (simp add: serving_def disk_inv_def cache_ok_def)

lemma serving_core:
  assumes "core t = core s" "cpu_holds {} th t" "thread_id (threads t th) = thread_id (threads s th)" "serving th n H s"
  shows "serving th n H t"
proof -
  have "disk_inv t" "queue_ok t []" using assms(1,4) disk_inv_core [of t s] queue_ok_core [of t s "[]"] by (simp_all add: serving_def)
  then show ?thesis using assms by (simp add: serving_def core_def buf_lock_def buf_va_def)
qed

lemma bread_serving:
  fixes s :: "'a bio_scheme"
  assumes sv: "serving th (Suc m) H s" and n: "n < FSSIZE" "\<And>b. b \<in> H \<Longrightarrow> key (bufs s b) \<noteq> (0, n)" and H: "card H < NBUF"
    and P: "\<And>b t. b \<notin> H \<Longrightarrow> serving th m (insert b H) t \<Longrightarrow> b_data (bufs t b) = sectors (ide s) False (unat n) \<Longrightarrow> key (bufs t b) = (0, n) \<Longrightarrow>
       (\<And>c. c \<in> H \<Longrightarrow> bufs t c = bufs s c) \<Longrightarrow> same_disk s t \<Longrightarrow> bio.more t = bio.more s \<Longrightarrow> P b t"
  shows "runs (bread ideintr 0 n) s P"
proof -
  from sv have cpu: "cpu_holds {} th s" and inv: "disk_inv s" and q: "queue_ok s []" and rd: "ready (ide s)" and nr: "no_return s = Some UINT64_MAX"
    and rm: "room (Suc m) (heap_tree s)" "unsplit (heap_tree s)" and hs: "H \<subseteq> {..<NBUF}" and B: "\<And>b. b < NBUF \<Longrightarrow> buf_va b s \<noteq> 0 \<and> b_refcnt (bufs s b) = (if b \<in> H then 1 else 0)
       \<and> (sl_is_locked (sleeplocks s (buf_lock b s)) \<longleftrightarrow> b \<in> H)
       \<and> (b \<in> H \<longrightarrow> sl_owner_tid (sleeplocks s (buf_lock b s)) = thread_id (threads s th) \<and> b_flags (bufs s b) AND B_VALID \<noteq> 0)"
    by (auto simp: serving_def)
  have refs: "refs_ok s" using B by (simp add: refs_ok_def)
  obtain j where j: "candidate (heap_tree s) sizeof_ide_request 0 j"
    using room_candidate [OF rm(1), of sizeof_ide_request] by (auto simp: sizeof_ide_request_def KERNEL_HEAP_MINBLOCK_def)
  have "\<not> {..<NBUF} \<subseteq> H" using card_mono [of H "{..<NBUF}"] H hs finite_subset [OF hs] by fastforce
  then obtain b0 where b0: "b0 < NBUF" "b0 \<notin> H" by auto
  then have re: "reusable (bufs s b0)" using B [OF b0(1)] inv by (simp add: reusable_def disk_inv_def cache_ok_def)
  have unl: "\<not> sl_is_locked (sleeplocks s (buf_lock b s)) \<and> buf_va b s \<noteq> 0" if "b < NBUF" "b_refcnt (bufs s b) = 0 \<or> key (bufs s b) = (0, n)" for b
    using B [OF that(1)] that(2) n(2) [of b] by (auto split: if_splits)
  obtain b t where r: "bread ideintr 0 n s = Inr (b, t)" and t: "cpu_holds {} th t" "thread_id (threads t th) = thread_id (threads s th)" "ready (ide t)" "queue_ok t []"
    "heap_tree t = heap_tree s \<or> one_taken (heap_tree s) (heap_tree t)" "\<And>c. c \<noteq> b \<Longrightarrow> bufs t c = bufs s c"
    "b_refcnt (bufs s b) = 0 \<or> key (bufs s b) = (0, n)" "b_refcnt (bufs t b) = b_refcnt (bufs s b) + 1" "b_flags (bufs t b) AND B_VALID \<noteq> 0"
    "sleeplocks t = (sleeplocks s)(buf_lock b s := locked_by (thread_id (threads s th)) (sleeplocks s (buf_lock b s)))"
    "no_return t = no_return s" "bio.more t = bio.more s"
    using bread_returns [OF cpu inv q rd refs nr j b0(1) re unl n(1)] by (auto simp: runs_def)
  from bread_reads_disk [OF calm_ideintr r inv refs] have d: "disk_inv t" "holds_on s t" "b < NBUF" "key (bufs t b) = (0, n)"
    "b_data (bufs t b) = sectors (ide s) False (unat n)" by auto
  have bH: "b \<notin> H" using B [OF d(3)] t(7) n(2) [of b] by (auto split: if_splits)
  have sd: "same_disk s t" using d(2) taken_grows [OF t(5)] by (simp add: same_disk_def holds_on_def)
  have "heap_shape (heap_tree s)" using inv by (simp add: disk_inv_def kheap_inv_def heap_wf_def)
  then have "room m (heap_tree t)" "unsplit (heap_tree t)" using t(5) rm room_taken [OF _ rm(1)] room_mono [OF rm(1), of m] unsplit_taken by auto
  moreover have va: "buf_lock c t = buf_lock c s" "buf_va c t = buf_va c s" for c using sd by (simp_all add: same_disk_def buf_lock_def buf_va_def)
  moreover have "buf_va c t \<noteq> 0 \<and> b_refcnt (bufs t c) = (if c \<in> insert b H then 1 else 0) \<and> (sl_is_locked (sleeplocks t (buf_lock c t)) \<longleftrightarrow> c \<in> insert b H)
       \<and> (c \<in> insert b H \<longrightarrow> sl_owner_tid (sleeplocks t (buf_lock c t)) = thread_id (threads t th) \<and> b_flags (bufs t c) AND B_VALID \<noteq> 0)" if "c < NBUF" for c
  proof (cases "c = b")
    case True
    then show ?thesis using B [OF d(3)] t(2,8,9,10) bH va by (simp add: locked_by_def)
  next
    case False
    then have "buf_lock c s \<noteq> buf_lock b s" using buf_lock_inj [OF that d(3)] by blast
    then show ?thesis using False B [OF that] t(2,10) t(6) [OF False] va by simp
  qed
  ultimately have "serving th m (insert b H) t"
    using t(1,3,4,11) d(1,3) hs nr unfolding serving_def by simp
  then have "P b t" by (rule P [OF bH _ d(5,4) _ sd t(12)]) (metis t(6) bH)
  then show ?thesis using r by (auto simp: runs_def)
qed

lemma release_Sleeplock_returns:
  fixes s :: "'a bio_scheme"
  assumes h: "cpu_holds {} th s"
  shows "runs (release_Sleeplock a) s (\<lambda>_ t. cpu_holds {} th t \<and> thread_id (threads t th) = thread_id (threads s th)
     \<and> core t = core (upd_sleeplock a (\<lambda>l. l\<lparr>sl_is_locked := False, sl_owner_tid := UINT32_MAX\<rparr>) s))"
  unfolding release_Sleeplock_def runs_simps
proof (rule acquire_runs [OF h])
  fix s1 :: "'a bio_scheme" assume s1: "cpu_holds (insert (sleeplock_lock a) {}) th s1" "undisturbed th s s1"
  let ?f = "upd_sleeplock a (\<lambda>l. l\<lparr>sl_is_locked := False, sl_owner_tid := UINT32_MAX\<rparr>)"
  have h1: "cpu_holds {sleeplock_lock a} th (?f s1)" using s1(1) by (simp add: cpu_holds_bio)
  have c: "core (?f s1) = core (?f s)" "thread_id (threads (?f s1) th) = thread_id (threads s th)"
    using s1(2) by (simp_all add: undisturbed_def core_def upd_sleeplock_def)
  show "runs (release_Spinlock (sleeplock_lock a)) (?f s1) (\<lambda>_ t. runs (Wakeup a) t (\<lambda>_ t. cpu_holds {} th t
     \<and> thread_id (threads t th) = thread_id (threads s th) \<and> core t = core (?f s)))"
    by (intro release_runs [OF h1] Wakeup_runs [where L = "{}"]) (use c in \<open>auto simp: undisturbed_def\<close>)
qed simp

lemma brelse_serving:
  fixes s :: "'a bio_scheme"
  assumes sv: "serving th n (insert b H) s" and b: "b \<notin> H"
    and P: "\<And>t. serving th n H t \<Longrightarrow> (\<And>c. c \<noteq> b \<Longrightarrow> bufs t c = bufs s c) \<Longrightarrow> same_disk s t \<Longrightarrow> bio.more t = bio.more s \<Longrightarrow> P () t"
  shows "runs (brelse b) s P"
proof -
  from sv have cpu: "cpu_holds {} th s" and inv: "disk_inv s" and bN: "b < NBUF" and q: "queue_ok s []"
    and lk: "sl_is_locked (sleeplocks s (buf_lock b s))" "sl_owner_tid (sleeplocks s (buf_lock b s)) = thread_id (threads s th)"
    and rc: "b_refcnt (bufs s b) = 1" by (auto simp: serving_def)
  let ?l = "(sleeplocks s)(buf_lock b s := (sleeplocks s (buf_lock b s))\<lparr>sl_is_locked := False, sl_owner_tid := UINT32_MAX\<rparr>)"
  let ?B = "(bufs s)(b := (bufs s b)\<lparr>b_refcnt := b_refcnt (bufs s b) - 1\<rparr>)"
  let ?Q = "\<lambda>t. cpu_holds {} th t \<and> thread_id (threads t th) = thread_id (threads s th) \<and> core t = core (s\<lparr>sleeplocks := ?l, bufs := ?B\<rparr>)"
  have "runs (brelse b) s (\<lambda>_ t. ?Q t)"
    unfolding brelse_def runs_simps
  proof (rule holdingsleep_runs [OF cpu])
    fix s1 :: "'a bio_scheme" assume s1: "cpu_holds {} th s1" "undisturbed th s s1"
    have e: "buf_lock b s1 = buf_lock b s" using s1(2) by (simp add: undisturbed_def core_def buf_lock_def buf_va_def)
    have "runs (release_Sleeplock (buf_lock b s1)) s1 (\<lambda>_ t. runs (acquire_Spinlock bcache_lock) t (\<lambda>_ t.
       runs (release_Spinlock bcache_lock) (upd_buf b (\<lambda>x. x\<lparr>b_refcnt := b_refcnt x - 1\<rparr>) t) (\<lambda>_ t. ?Q t)))"
    proof (rule runs_mono [OF release_Sleeplock_returns [OF s1(1)]], elim conjE)
      fix t assume t: "cpu_holds {} th t" "thread_id (threads t th) = thread_id (threads s1 th)"
        "core t = core (upd_sleeplock (buf_lock b s1) (\<lambda>l. l\<lparr>sl_is_locked := False, sl_owner_tid := UINT32_MAX\<rparr>) s1)"
      show "runs (acquire_Spinlock bcache_lock) t (\<lambda>_ t. runs (release_Spinlock bcache_lock) (upd_buf b (\<lambda>x. x\<lparr>b_refcnt := b_refcnt x - 1\<rparr>) t) (\<lambda>_ t. ?Q t))"
      proof (rule acquire_runs [OF t(1)])
        fix u :: "'a bio_scheme" assume u: "cpu_holds (insert bcache_lock {}) th u" "undisturbed th t u"
        show "runs (release_Spinlock bcache_lock) (upd_buf b (\<lambda>x. x\<lparr>b_refcnt := b_refcnt x - 1\<rparr>) u) (\<lambda>_ t. ?Q t)"
          by (rule release_runs [of "{bcache_lock}" th]) (use u t(2,3) s1(2) e in \<open>auto simp: cpu_holds_bio undisturbed_def core_def upd_buf_def upd_sleeplock_def\<close>)
      qed simp
    qed
    then show "runs (if \<not> (sl_is_locked (sleeplocks s (buf_lock b s)) \<and> sl_owner_tid (sleeplocks s (buf_lock b s)) = thread_id (threads s th))
        then raise (Panic ''brelse() --> not holding iobuf sleeplock.'')
        else seqn (bnd (gets (buf_lock b)) release_Sleeplock) (seqn (acquire_Spinlock bcache_lock)
         (seqn (upd (upd_buf b (\<lambda>x. x\<lparr>b_refcnt := b_refcnt x - 1\<rparr>))) (release_Spinlock bcache_lock)))) s1 (\<lambda>_ t. ?Q t)"
      using lk by (simp add: runs_simps)
  qed simp_all
  then obtain t where r: "brelse b s = Inr ((), t)" and t: "cpu_holds {} th t" "thread_id (threads t th) = thread_id (threads s th)"
    "core t = core (s\<lparr>sleeplocks := ?l, bufs := ?B\<rparr>)" by (auto simp: runs_def)
  have nq: "\<not> queued b s" using queued_iff [OF q] by simp
  have i: "disk_inv t" using brelse_inv [OF r inv bN nq] rc by simp
  have e: "bufs t = ?B" "sleeplocks t = ?l" "ide t = ide s" "bcache_va t = bcache_va s" "no_return t = no_return s" "heap_tree t = heap_tree s"
    "bio.more t = bio.more s" using t(3) by (simp_all add: core_def)
  have q': "queue_ok t []" using q t(3) by (simp add: queue_ok_def dll_queue_def) (simp add: core_def)
  have l: "buf_lock c t = buf_lock c s" "buf_va c t = buf_va c s" for c by (simp_all add: e buf_lock_def buf_va_def)
  have "c = b" if "c < NBUF" "buf_lock c s = buf_lock b s" for c using buf_lock_inj [OF that(1) bN that(2)] .
  then have "serving th n H t" using sv t(1,2) i q' b unfolding serving_def e l by auto
  then show ?thesis using r P e by (auto simp: runs_def same_disk_def heap_used_def)
qed

text \<open>The heap between two reads.\<close>

lemma kalloc_serving:
  fixes s :: "'a bio_scheme"
  assumes sv: "serving th (Suc n) H s" and k: "k \<le> KERNEL_HEAP_MINBLOCK" "k \<noteq> 0"
    and P: "\<And>a t. a \<noteq> 0 \<Longrightarrow> \<not> outside_heap a \<Longrightarrow> serving th n H t \<Longrightarrow> in_use (heap_tree t 0) \<Longrightarrow> byte_range KERNEL_HEAP_MINBLOCK a \<inter> heap_used s = {} \<Longrightarrow>
       byte_range KERNEL_HEAP_MINBLOCK a \<subseteq> heap_used t \<Longrightarrow> heap_used s \<subseteq> heap_used t \<Longrightarrow> bufs t = bufs s \<Longrightarrow> same_disk s t \<Longrightarrow> bio.more t = bio.more s \<Longrightarrow> P a t"
  shows "runs (kalloc k) s P"
proof -
  from sv have cpu: "cpu_holds {} th s" and inv: "disk_inv s" and q: "queue_ok s []" and nr: "no_return s = Some UINT64_MAX" and rm: "room (Suc n) (heap_tree s)" "unsplit (heap_tree s)"
    by (auto simp: serving_def)
  have kh: "kheap_inv s" using inv by (simp add: disk_inv_def)
  obtain j where j: "candidate (heap_tree s) k 0 j" using room_candidate [OF rm(1) k(1)] by blast
  show ?thesis
  proof (rule kalloc_runs [OF cpu _ _ kh nr j])
    fix a t assume r: "kalloc k s = Inr (a, t)" and a: "a \<noteq> 0" and t: "cpu_holds {} th t" "threads t = threads s" "in_use (heap_tree t 0)"
      "block_taken k a (heap_tree s) (heap_tree t)"
    note K = kalloc_disk [OF r kh k(2)]
    from K(1) obtain T c l where e: "t = s\<lparr>heap_tree := T, cpus := c, locks := l\<rparr>" by blast
    have wf: "heap_wf (heap_tree s)" "heap_shape (heap_tree s)" using kh by (simp_all add: kheap_inv_def heap_wf_def)
    note ot = block_taken_one [OF t(4) k(1)] and fr = block_taken_fresh [OF wf(1) rm(2) t(4) k(1)]
    have "room n (heap_tree t)" "unsplit (heap_tree t)" using room_taken [OF wf(2) rm(1) ot] unsplit_taken [OF rm(2) ot] .
    moreover have "disk_inv t" "queue_ok t []" using disk_inv_heap [OF inv e K(2,3)] q by blast+
    ultimately have "serving th n H t" using sv t(1,2) unfolding serving_def by (simp add: e buf_lock_def buf_va_def)
    moreover have "bufs t = bufs s" "same_disk s t" using K(3) t(3) by (simp_all add: e same_disk_def)
    ultimately show "P a t" using a K(3,6) fr t(3) keepsD [OF aside_kalloc r] by (intro P) (auto simp: aside_def)
  qed simp_all
qed

lemma kfree_serving:
  fixes s :: "'a bio_scheme"
  assumes sv: "serving th n H s" and u: "in_use (heap_tree s 0)" "\<not> outside_heap a"
    and P: "\<And>t. serving th n H t \<Longrightarrow> core t = core s \<Longrightarrow> P True t"
  shows "runs (kfree a) s P"
proof (rule kfree_runs)
  show "cpu_holds {} th s" "heap_shape (heap_tree s)" "in_use (heap_tree s 0)" using sv u by (auto simp: serving_def disk_inv_def kheap_inv_def heap_wf_def)
  have v: "heap_va_start s = KERNEL_HEAP_START" using sv by (simp add: serving_def disk_inv_def kheap_inv_def)
  show le: "heap_va_start s \<le> a" using u(2) by (simp add: v outside_heap_def word_le_nat_alt)
  show "unat (a - heap_va_start s) < 2 ^ 31" using u(2) le by (subst unat_minus_nowrap) (auto simp: v outside_heap_def)
  show "P True t" if "cpu_holds {} th t" "undisturbed th s t" for t
    using that serving_core [OF _ _ _ sv] by (intro P) (simp_all add: undisturbed_def)
qed simp_all

end
