(* ===== verification/Ext2.thy ===== *)
theory Ext2
  imports Disk_Read
begin

text \<open>
  The ext2 driver (src/src/kernel/fs/ext2.c, include/fs/ext2.h) and \<open>fill_statbuf\<close> of fs/vfs.c, on top of the buffer cache.

  \<open>kmem\<close> holds the bytes of kernel memory: the blocks that \<open>kalloc\<close> returns, and what the driver's pointers
  \<open>superblock\<close> and \<open>bgdt\<close> point to. Local structures and arrays are values; the target of \<open>read_disk_sector\<close> is an
  argument that says where the bytes go. A path is the C string the caller passes, without its final zero. As in
  \<open>Buffer_Cache\<close>, \<open>int3\<close> is what the machine does while a thread sleeps.
\<close>

section \<open>Data\<close>

definition DEVICE_START :: u32 where "DEVICE_START = 2048"
definition SUPERBLOCK_SECTOR :: u32 where "SUPERBLOCK_SECTOR = DEVICE_START + 2"
definition EXT2_SIGNATURE :: u16 where "EXT2_SIGNATURE = 0xEF53"
definition INODE_TYPE_DIRECTORY :: u16 where "INODE_TYPE_DIRECTORY = 0x4000"
definition INODE_TYPE_FILE :: u16 where "INODE_TYPE_FILE = 0x8000"

definition OFFSET_TO_SECTOR :: "u64 \<Rightarrow> u64" where
  "OFFSET_TO_SECTOR offset = ucast DEVICE_START + offset div ucast DISK_SECTOR_SIZE"

definition DIV_FLOOR :: "u64 \<Rightarrow> u64 \<Rightarrow> u64" where "DIV_FLOOR x y = x div y"

text \<open>\<open>DIV_CEIL\<close> is used with 32-bit and with 64-bit operands.\<close>

definition DIV_CEIL :: "'w::len word \<Rightarrow> 'w word \<Rightarrow> 'w word" where "DIV_CEIL x y = (x + y - 1) div y"

text \<open>Of the superblock and of the block group descriptors, the fields behind the last one used and the time stamps are left out.\<close>

record ext2_superblock =
  sb_total_inodes :: u32
  sb_total_blocks :: u32
  sb_su_blocks :: u32
  sb_free_blocks :: u32
  sb_free_inodes :: u32
  sb_superblock_idx :: u32
  sb_log2block_size :: u32
  sb_log2frag_size :: u32
  sb_blocks_per_group :: u32
  sb_frags_per_group :: u32
  sb_inodes_per_group :: u32
  sb_ext2_magic :: u16
  sb_major :: u32
  sb_first_inode :: u32
  sb_inode_size :: u16

definition superblock_at :: "mem \<Rightarrow> u64 \<Rightarrow> ext2_superblock" where
  "superblock_at m a = \<lparr>sb_total_inodes = ucast (le_bytes m a 4), sb_total_blocks = ucast (le_bytes m (a + 4) 4),
     sb_su_blocks = ucast (le_bytes m (a + 8) 4), sb_free_blocks = ucast (le_bytes m (a + 12) 4), sb_free_inodes = ucast (le_bytes m (a + 16) 4),
     sb_superblock_idx = ucast (le_bytes m (a + 20) 4), sb_log2block_size = ucast (le_bytes m (a + 24) 4),
     sb_log2frag_size = ucast (le_bytes m (a + 28) 4), sb_blocks_per_group = ucast (le_bytes m (a + 32) 4),
     sb_frags_per_group = ucast (le_bytes m (a + 36) 4), sb_inodes_per_group = ucast (le_bytes m (a + 40) 4),
     sb_ext2_magic = ucast (le_bytes m (a + 56) 2), sb_major = ucast (le_bytes m (a + 76) 4),
     sb_first_inode = ucast (le_bytes m (a + 84) 4), sb_inode_size = ucast (le_bytes m (a + 88) 2)\<rparr>"

record ext2_block_group_desc =
  bg_block_bitmap :: u32
  bg_inode_bitmap :: u32
  bg_inode_table :: u32
  bg_free_blocks :: u32
  bg_free_inodes :: u32
  bg_num_dirs :: u32

definition bgd_at :: "mem \<Rightarrow> u64 \<Rightarrow> ext2_block_group_desc" where
  "bgd_at m a = \<lparr>bg_block_bitmap = ucast (le_bytes m a 4), bg_inode_bitmap = ucast (le_bytes m (a + 4) 4),
     bg_inode_table = ucast (le_bytes m (a + 8) 4), bg_free_blocks = ucast (le_bytes m (a + 12) 4),
     bg_free_inodes = ucast (le_bytes m (a + 16) 4), bg_num_dirs = ucast (le_bytes m (a + 20) 4)\<rparr>"

definition sizeof_bgd :: nat where "sizeof_bgd = 32"

record ext2_inode_t =
  ino_mode :: u16
  ino_uid :: u16
  ino_size :: u32
  ino_accessTime :: u32
  ino_createTime :: u32
  ino_modTime :: u32
  ino_deleteTime :: u32
  ino_gid :: u16
  ino_linkCount :: u16
  ino_diskSectors :: u32
  ino_flags :: u32
  ino_osd1 :: u32
  ino_blocks :: "nat \<Rightarrow> u32"
  ino_generation :: u32
  ino_fileACL :: u32
  ino_sizeHigh :: u32
  ino_fragAddr :: u32

definition inode_at :: "mem \<Rightarrow> u64 \<Rightarrow> ext2_inode_t" where
  "inode_at m a = \<lparr>ino_mode = ucast (le_bytes m a 2), ino_uid = ucast (le_bytes m (a + 2) 2), ino_size = ucast (le_bytes m (a + 4) 4),
     ino_accessTime = ucast (le_bytes m (a + 8) 4), ino_createTime = ucast (le_bytes m (a + 12) 4), ino_modTime = ucast (le_bytes m (a + 16) 4),
     ino_deleteTime = ucast (le_bytes m (a + 20) 4), ino_gid = ucast (le_bytes m (a + 24) 2), ino_linkCount = ucast (le_bytes m (a + 26) 2),
     ino_diskSectors = ucast (le_bytes m (a + 28) 4), ino_flags = ucast (le_bytes m (a + 32) 4), ino_osd1 = ucast (le_bytes m (a + 36) 4),
     ino_blocks = (\<lambda>i. if i < 15 then ucast (le_bytes m (a + of_nat (40 + 4 * i)) 4) else 0), ino_generation = ucast (le_bytes m (a + 100) 4),
     ino_fileACL = ucast (le_bytes m (a + 104) 4), ino_sizeHigh = ucast (le_bytes m (a + 108) 4), ino_fragAddr = ucast (le_bytes m (a + 112) 4)\<rparr>"

definition sizeof_inode :: nat where "sizeof_inode = 128"

record ext2_dir_entry =
  de_inode :: u32
  de_size :: u16
  de_namelength :: u8
  de_reserved :: u8

definition dir_entry_at :: "mem \<Rightarrow> u64 \<Rightarrow> ext2_dir_entry" where
  "dir_entry_at m a = \<lparr>de_inode = ucast (le_bytes m a 4), de_size = ucast (le_bytes m (a + 4) 2), de_namelength = m (a + 6), de_reserved = m (a + 7)\<rparr>"

record EXT2_DRIVER =
  total_inodes :: u32
  total_blocks :: u32
  block_size :: u32
  blocks_per_group :: u32
  inodes_per_group :: u32
  extended_fields_available :: bool
  total_groups :: u32
  superblock :: u64
  bgdt :: u64
  bgdt_blockno :: u32
  inode_size :: u32
  root_inode :: ext2_inode_t

record ext2 = bio +
  kmem :: mem
  ext2_driver :: EXT2_DRIVER

text \<open>A buffer in memory and a buffer that is a local array.\<close>

definition bytes_of :: "u8 list \<Rightarrow> mem" where
  "bytes_of bs = put 0 bs (\<lambda>_. 0)"

definition to_kmem :: "u64 \<Rightarrow> u8 list \<Rightarrow> 'a ext2_scheme \<Rightarrow> fault + unit \<times> 'a ext2_scheme" where
  "to_kmem a bs = upd (\<lambda>s. s\<lparr>kmem := put a bs (kmem s)\<rparr>)"

definition load32 :: "u64 \<Rightarrow> 'a ext2_scheme \<Rightarrow> u32" where
  "load32 a s = ucast (le_bytes (kmem s) a 4)"

definition load64 :: "u64 \<Rightarrow> 'a ext2_scheme \<Rightarrow> u64" where
  "load64 a s = le_bytes (kmem s) a 8"

section \<open>Addresses on the disk\<close>

definition sb :: "'a ext2_scheme \<Rightarrow> ext2_superblock" where
  "sb s = superblock_at (kmem s) (superblock (ext2_driver s))"

definition ext2_extended_fields_available :: "ext2_superblock \<Rightarrow> bool" where
  "ext2_extended_fields_available b \<longleftrightarrow> sb_major b > 1"

text \<open>A shift by the width of its operand or more is undefined; so is a signed shift that overflows (\<open>1024 << n\<close>).\<close>

definition ext2_getblocksize :: "ext2_superblock \<Rightarrow> fault + u32" where
  "ext2_getblocksize b = (if sb_log2block_size b < 21 then Inr (push_bit (unat (sb_log2block_size b)) 1024) else Inl Undefined)"

definition ext2_block_to_disk_sector :: "u32 \<Rightarrow> 'a ext2_scheme \<Rightarrow> fault + u32 \<times> 'a ext2_scheme" where
  "ext2_block_to_disk_sector blockno =
     seqn (ensure (\<lambda>s. sb_log2block_size (sb s) < 32) Undefined)
          (gets (\<lambda>s. DEVICE_START + push_bit 10 (push_bit (unat (sb_log2block_size (sb s))) blockno) div DISK_SECTOR_SIZE))"

definition ext2_disk_sector_to_block :: "u32 \<Rightarrow> 'a ext2_scheme \<Rightarrow> fault + u32 \<times> 'a ext2_scheme" where
  "ext2_disk_sector_to_block disk_sector =
     seqn (ensure (\<lambda>s. sb_log2block_size (sb s) < 32) Undefined)
          (gets (\<lambda>s. drop_bit 10 (drop_bit (unat (sb_log2block_size (sb s))) disk_sector)))"

definition ext2_GetInodeBlockGroup :: "u32 \<Rightarrow> 'a ext2_scheme \<Rightarrow> fault + u32 \<times> 'a ext2_scheme" where
  "ext2_GetInodeBlockGroup inode =
     seqn (ensure (\<lambda>s. sb_inodes_per_group (sb s) \<noteq> 0) Undefined) (gets (\<lambda>s. (inode - 1) div sb_inodes_per_group (sb s)))"

definition ext2_GetInodeBlockGroupIndex :: "u32 \<Rightarrow> 'a ext2_scheme \<Rightarrow> fault + u32 \<times> 'a ext2_scheme" where
  "ext2_GetInodeBlockGroupIndex inode =
     seqn (ensure (\<lambda>s. sb_inodes_per_group (sb s) \<noteq> 0) Undefined) (gets (\<lambda>s. (inode - 1) mod sb_inodes_per_group (sb s)))"

definition ext2_GetInodeOffset :: "u32 \<Rightarrow> 'a ext2_scheme \<Rightarrow> fault + u64 \<times> 'a ext2_scheme" where
  "ext2_GetInodeOffset inode =
     bnd (ext2_GetInodeBlockGroup inode) (\<lambda>g.
     bnd (gets (\<lambda>s. bg_inode_table (bgd_at (kmem s) (bgdt (ext2_driver s) + of_nat sizeof_bgd * ucast g)))) (\<lambda>block.
     bnd (ext2_GetInodeBlockGroupIndex inode) (\<lambda>index.
     gets (\<lambda>s. ucast (block_size (ext2_driver s) * block + index * inode_size (ext2_driver s))))))"

section \<open>Reading sectors, blocks and inodes\<close>

text \<open>All callers ask for at most the 512 bytes of a sector.\<close>

definition read_disk_sector :: "('a ext2_scheme \<Rightarrow> fault + unit \<times> 'a ext2_scheme) \<Rightarrow> (u8 list \<Rightarrow> 'a ext2_scheme \<Rightarrow> fault + 'r \<times> 'a ext2_scheme)
    \<Rightarrow> u32 \<Rightarrow> u32 \<Rightarrow> 'a ext2_scheme \<Rightarrow> fault + 'r \<times> 'a ext2_scheme" where
  "read_disk_sector int3 out sector byte_count =
     bnd (bread int3 0 sector) (\<lambda>b.
     bnd (bnd (gets (\<lambda>s. take (unat byte_count) (b_data (bufs s b)))) out) (\<lambda>r.
     seqn (brelse b) (ret r)))"

definition ext2_get_file_size :: "ext2_inode_t \<Rightarrow> 'a ext2_scheme \<Rightarrow> fault + u64 \<times> 'a ext2_scheme" where
  "ext2_get_file_size inode =
     (if ino_mode inode AND 0xF000 \<noteq> INODE_TYPE_FILE then ret 0x1000
      else seqn (ensure (\<lambda>s. \<not> extended_fields_available (ext2_driver s)) Undefined) (ret (ucast (ino_size inode))))"

definition ext2_read_block :: "('a ext2_scheme \<Rightarrow> fault + unit \<times> 'a ext2_scheme) \<Rightarrow> u64 \<Rightarrow> u32 \<Rightarrow> 'a ext2_scheme \<Rightarrow> fault + unit \<times> 'a ext2_scheme" where
  "ext2_read_block int3 out block =
     bnd (ext2_block_to_disk_sector block) (\<lambda>sector.
     bnd (gets (\<lambda>s. block_size (ext2_driver s) div DISK_SECTOR_SIZE)) (\<lambda>n.
     foreach [0..<unat n] (\<lambda>j.
       read_disk_sector int3 (to_kmem (out + ucast (DISK_SECTOR_SIZE * of_nat j))) (sector + of_nat j) DISK_SECTOR_SIZE)))"

definition ext2_read_inode :: "('a ext2_scheme \<Rightarrow> fault + unit \<times> 'a ext2_scheme) \<Rightarrow> u32 \<Rightarrow> 'a ext2_scheme \<Rightarrow> fault + ext2_inode_t \<times> 'a ext2_scheme" where
  "ext2_read_inode int3 inode_num =
     seqn (ext2_GetInodeBlockGroup inode_num)
    (bnd (ext2_GetInodeBlockGroupIndex inode_num) (\<lambda>index.
     bnd (ext2_GetInodeOffset inode_num) (\<lambda>off.
     let raw_offset = off AND ucast (NOT 511 :: u32) in
     bnd (read_disk_sector int3 ret (ucast (OFFSET_TO_SECTOR raw_offset)) 512) (\<lambda>b2.
     bnd (gets (\<lambda>s. (index * inode_size (ext2_driver s)) AND (512 - 1))) (\<lambda>k.
     if unat k + sizeof_inode \<le> 512 then ret (inode_at (bytes_of b2) (ucast k)) else raise Undefined)))))"

section \<open>Directories\<close>

text \<open>
  One turn of the loop of \<open>ext2_read_from_directory\<close>: the inode number that is returned, or the next entry. The name is
  copied to a block of its own; \<open>kalloc\<close> is not checked there, so a null result is written to.
\<close>

definition ext2_dir_step :: "('a ext2_scheme \<Rightarrow> fault + unit \<times> 'a ext2_scheme) \<Rightarrow> u64 \<Rightarrow> u64 \<Rightarrow> 'a ext2_scheme \<Rightarrow> fault + (u32 + u64) \<times> 'a ext2_scheme" where
  "ext2_dir_step int3 filename dir =
     bnd (gets (\<lambda>s. dir_entry_at (kmem s) dir)) (\<lambda>e.
     bnd (kalloc (ucast (de_namelength e) + 1)) (\<lambda>nm.
     if nm = 0 then raise Undefined
     else seqn (upd (\<lambda>s. s\<lparr>kmem := (memcpy nm (dir + 8) (ucast (de_namelength e)) (kmem s))(nm + ucast (de_namelength e) := 0)\<rparr>))
    (bnd (if filename = 0 then ret 1 else bnd (gets (\<lambda>s. strcmp (kmem s) filename nm)) (\<lambda>c. case c of None \<Rightarrow> raise Diverge | Some x \<Rightarrow> ret x)) (\<lambda>c.
     if filename \<noteq> 0 \<and> c = 0
     then seqn (ext2_read_inode int3 (de_inode e)) (seqn (kfree nm) (gets (\<lambda>s. Inl (de_inode (dir_entry_at (kmem s) dir)))))
     else bnd (gets (\<lambda>s. dir + ucast (de_size (dir_entry_at (kmem s) dir)))) (\<lambda>d. seqn (kfree nm) (ret (Inr d)))))))"

partial_function (option) ext2_dir_loop :: "('a ext2_scheme \<Rightarrow> fault + unit \<times> 'a ext2_scheme) \<Rightarrow> u64 \<Rightarrow> u64
    \<Rightarrow> 'a ext2_scheme \<Rightarrow> (fault + u32 \<times> 'a ext2_scheme) option" where
  "ext2_dir_loop int3 filename dir s =
     (if de_inode (dir_entry_at (kmem s) dir) = 0 then Some (Inr (0, s))
      else case ext2_dir_step int3 filename dir s of
        Inl f \<Rightarrow> Some (Inl f)
      | Inr r \<Rightarrow> (case fst r of Inl n \<Rightarrow> Some (Inr (n, snd r)) | Inr d \<Rightarrow> ext2_dir_loop int3 filename d (snd r)))"

definition ext2_read_from_directory :: "('a ext2_scheme \<Rightarrow> fault + unit \<times> 'a ext2_scheme) \<Rightarrow> u64 \<Rightarrow> u64 \<Rightarrow> 'a ext2_scheme \<Rightarrow> fault + u32 \<times> 'a ext2_scheme" where
  "ext2_read_from_directory int3 filename dir = lift_loop (ext2_dir_loop int3 filename dir)"

fun scan_root_blocks :: "('a ext2_scheme \<Rightarrow> fault + unit \<times> 'a ext2_scheme) \<Rightarrow> u64 \<Rightarrow> u64 \<Rightarrow> nat list \<Rightarrow> 'a ext2_scheme \<Rightarrow> fault + u32 \<times> 'a ext2_scheme" where
  "scan_root_blocks int3 filename buf [] = ret 0"
| "scan_root_blocks int3 filename buf (i # is) =
     bnd (gets (\<lambda>s. ino_blocks (root_inode (ext2_driver s)) i)) (\<lambda>block.
     if block = 0 then ret 0
     else seqn (ext2_read_block int3 buf block)
         (bnd (ext2_read_from_directory int3 filename buf) (\<lambda>inode_num.
          if inode_num \<noteq> 0 then ret inode_num else scan_root_blocks int3 filename buf is)))"

definition ext2_read_from_root_directory :: "('a ext2_scheme \<Rightarrow> fault + unit \<times> 'a ext2_scheme) \<Rightarrow> u64 \<Rightarrow> 'a ext2_scheme \<Rightarrow> fault + u32 \<times> 'a ext2_scheme" where
  "ext2_read_from_root_directory int3 filename =
     seqn (ensure (\<lambda>s. ino_mode (root_inode (ext2_driver s)) AND 0xF000 = INODE_TYPE_DIRECTORY)
             (Panic ''ext2_read_from_root_directory() --> EXT2_DRIVER.root_inode was corrupted.''))
    (bnd (bnd (gets (\<lambda>s. ucast (block_size (ext2_driver s)))) kalloc) (\<lambda>buf.
     if buf = 0 then raise (Panic ''ext2_read_from_root_directory() --> kalloc() failure!.'')
     else scan_root_blocks int3 filename buf [0..<12]))"

section \<open>Paths\<close>

definition c_strlen :: "u64 \<Rightarrow> 'a ext2_scheme \<Rightarrow> fault + u64 \<times> 'a ext2_scheme" where
  "c_strlen a = bnd (gets (\<lambda>s. strlen (kmem s) a 0)) (\<lambda>r. case r of None \<Rightarrow> raise Diverge | Some n \<Rightarrow> ret n)"

definition c_strsplit :: "u64 \<Rightarrow> u8 \<Rightarrow> 'a ext2_scheme \<Rightarrow> fault + nat \<times> 'a ext2_scheme" where
  "c_strsplit a c = bnd (gets (\<lambda>s. strsplit a c 0 0 (kmem s))) (\<lambda>r. case r of
     None \<Rightarrow> raise Diverge | Some (n, m) \<Rightarrow> seqn (upd (\<lambda>s. s\<lparr>kmem := m\<rparr>)) (ret n))"

text \<open>
  The inner loop over the direct blocks of a directory: it ends at the first block, because a name that is not found
  there ends the search. The result is the new inode number, or nothing when the search has failed.
\<close>

definition nested_lookup :: "('a ext2_scheme \<Rightarrow> fault + unit \<times> 'a ext2_scheme) \<Rightarrow> u64 \<Rightarrow> u64 \<Rightarrow> u32 \<Rightarrow> u64
    \<Rightarrow> 'a ext2_scheme \<Rightarrow> fault + u32 option \<times> 'a ext2_scheme" where
  "nested_lookup int3 og buf inode_num filename =
     bnd (ext2_read_inode int3 inode_num) (\<lambda>inode.
     let block = ino_blocks inode 0 in
     if block = 0 then ret (Some inode_num)
     else seqn (ext2_read_block int3 buf block)
         (bnd (ext2_read_from_directory int3 filename buf) (\<lambda>tmp_inode_num.
          if tmp_inode_num \<noteq> 0 then ret (Some tmp_inode_num)
          else seqn (kfree og) (ret None))))"

fun nested_loop :: "('a ext2_scheme \<Rightarrow> fault + unit \<times> 'a ext2_scheme) \<Rightarrow> u64 \<Rightarrow> u64 \<Rightarrow> nat \<Rightarrow> u32 \<Rightarrow> u64
    \<Rightarrow> 'a ext2_scheme \<Rightarrow> fault + u32 option \<times> 'a ext2_scheme" where
  "nested_loop int3 og buf 0 inode_num filename = ret (Some inode_num)"
| "nested_loop int3 og buf (Suc dir_depth) inode_num filename =
     bnd (nested_lookup int3 og buf inode_num filename) (\<lambda>r. case r of
       None \<Rightarrow> ret None
     | Some n \<Rightarrow> bnd (c_strlen filename) (\<lambda>l. nested_loop int3 og buf dir_depth n (filename + l + 1)))"

text \<open>The search with the copy of the path at \<open>og\<close>, cut into \<open>parts\<close> strings.\<close>

definition find_from_root :: "('a ext2_scheme \<Rightarrow> fault + unit \<times> 'a ext2_scheme) \<Rightarrow> u64 \<Rightarrow> nat
    \<Rightarrow> 'a ext2_scheme \<Rightarrow> fault + (u32 \<times> ext2_inode_t option) \<times> 'a ext2_scheme" where
  "find_from_root int3 og parts =
     (let filename = og + 1; dir_depth = of_nat parts - 1 :: u32 in
      bnd (ext2_read_from_root_directory int3 filename) (\<lambda>inode_num.
      bnd (c_strlen filename) (\<lambda>l.
      let filename = filename + (l + 1) in
      if dir_depth \<le> 1
      then (if inode_num = 0 then ret (UINT32_MAX, None)
            else seqn (kfree og) (bnd (ext2_read_inode int3 inode_num) (\<lambda>inode. ret (0, Some inode))))
      else bnd (bnd (gets (\<lambda>s. ucast (block_size (ext2_driver s)))) kalloc) (\<lambda>buf.
        if buf = 0 then raise (Panic ''ext2_find_file_inode() --> kalloc() failure.'')
        else bnd (nested_loop int3 og buf (unat dir_depth) inode_num filename) (\<lambda>r. case r of
          None \<Rightarrow> ret (UINT32_MAX, None)
        | Some n \<Rightarrow> bnd (ext2_read_inode int3 n) (\<lambda>inode.
            seqn (kfree og) (seqn (kfree buf) (ret (0, Some inode)))))))))"

text \<open>The result is the value returned and \<open>*inode_out\<close>, if it was written.\<close>

definition ext2_find_file_inode :: "('a ext2_scheme \<Rightarrow> fault + unit \<times> 'a ext2_scheme) \<Rightarrow> string
    \<Rightarrow> 'a ext2_scheme \<Rightarrow> fault + (u32 \<times> ext2_inode_t option) \<times> 'a ext2_scheme" where
  "ext2_find_file_inode int3 path =
     (if path = ''/'' then gets (\<lambda>s. (2, Some (root_inode (ext2_driver s))))
      else let len = of_nat (length path) :: u32 in
        bnd (kalloc (ucast (len + 1))) (\<lambda>og.
        if og = 0 then raise (Panic ''ext2_find_file_inode() --> kalloc() failure!'')
        else seqn (to_kmem og (map of_char (take (unat len) path)))
       (seqn (to_kmem (og + ucast len) [0])
       (bnd (c_strsplit og (of_char CHR ''/'')) (find_from_root int3 og)))))"

text \<open>The inode that a caller reads after the call; undefined where it was not written.\<close>

definition found_inode :: "u32 \<times> ext2_inode_t option \<Rightarrow> 's \<Rightarrow> fault + ext2_inode_t \<times> 's" where
  "found_inode r = (case snd r of None \<Rightarrow> raise Undefined | Some inode \<Rightarrow> ret inode)"

definition ext2_file_exists :: "('a ext2_scheme \<Rightarrow> fault + unit \<times> 'a ext2_scheme) \<Rightarrow> string \<Rightarrow> 'a ext2_scheme \<Rightarrow> fault + bool \<times> 'a ext2_scheme" where
  "ext2_file_exists int3 filepath =
     bnd (ext2_find_file_inode int3 filepath) (\<lambda>r.
     if fst r = UINT32_MAX then ret False
     else bnd (found_inode r) (\<lambda>inode. ret (ino_mode inode AND 0xF000 = INODE_TYPE_FILE)))"

definition ext2_dir_exists :: "('a ext2_scheme \<Rightarrow> fault + unit \<times> 'a ext2_scheme) \<Rightarrow> string \<Rightarrow> 'a ext2_scheme \<Rightarrow> fault + bool \<times> 'a ext2_scheme" where
  "ext2_dir_exists int3 filepath =
     (if filepath = ''/'' then ret True
      else bnd (ext2_find_file_inode int3 filepath) (\<lambda>r.
       if fst r = UINT32_MAX then ret False
       else bnd (found_inode r) (\<lambda>inode. ret (ino_mode inode AND 0xF000 = INODE_TYPE_DIRECTORY))))"

definition PathToFileSize :: "('a ext2_scheme \<Rightarrow> fault + unit \<times> 'a ext2_scheme) \<Rightarrow> string \<Rightarrow> 'a ext2_scheme \<Rightarrow> fault + u64 \<times> 'a ext2_scheme" where
  "PathToFileSize int3 filepath =
     bnd (ext2_file_exists int3 filepath) (\<lambda>f.
     if f then bnd (bnd (ext2_find_file_inode int3 filepath) found_inode) ext2_get_file_size
     else bnd (ext2_dir_exists int3 filepath) (\<lambda>d. ret (if d then 0x1000 * 12 else UINT64_MAX)))"

section \<open>Files\<close>

text \<open>\<open>while(blocks[x]) ...\<close>: the number of entries in front of the first zero, wherever in memory that is.\<close>

partial_function (option) count_blocks :: "mem \<Rightarrow> u64 \<Rightarrow> u32 \<Rightarrow> u32 option" where
  "count_blocks m blocks x = (if (ucast (le_bytes m (blocks + 4 * ucast x) 4) :: u32) = 0 then Some x else count_blocks m blocks (x + 1))"

definition c_count_blocks :: "u64 \<Rightarrow> 'a ext2_scheme \<Rightarrow> fault + u32 \<times> 'a ext2_scheme" where
  "c_count_blocks blocks = bnd (gets (\<lambda>s. count_blocks (kmem s) blocks 0)) (\<lambda>r. case r of None \<Rightarrow> raise Diverge | Some n \<Rightarrow> ret n)"

definition ext2_read_single_indirect :: "('a ext2_scheme \<Rightarrow> fault + unit \<times> 'a ext2_scheme) \<Rightarrow> u32 \<Rightarrow> 'a ext2_scheme \<Rightarrow> fault + (u64 \<times> u32) \<times> 'a ext2_scheme" where
  "ext2_read_single_indirect int3 blockno =
     bnd (gets (\<lambda>s. block_size (ext2_driver s))) (\<lambda>bsz.
     let max_blocks = bsz div 4 in
     bnd (kalloc (ucast bsz)) (\<lambda>blocks.
     if blocks = 0 then raise (Panic ''ext2_read_single_indirect() --> kalloc() failure!'')
     else seqn (ext2_read_block int3 blocks blockno)
    (bnd (c_count_blocks blocks) (\<lambda>n.
     if n > max_blocks then raise (Panic ''ext2_read_single_indirect() --> total_blocks > max_blocks!'')
     else bnd (kalloc (ucast (n * bsz))) (\<lambda>ret_buf.
     if ret_buf = 0 then raise (Panic ''ext2_read_single_indirect() --> kalloc() 2. failure!'')
     else seqn (foreach [0..<unat max_blocks] (\<lambda>i.
            bnd (gets (load32 (blocks + of_nat (4 * i)))) (\<lambda>blk.
            if blk = 0 then raise (Panic ''ext2_read_single_indirect() --> blocks[i] was null. Misalignment. '')
            else ext2_read_block int3 (ret_buf + ucast (of_nat i * bsz)) blk)))
         (seqn (kfree blocks) (ret (ret_buf, n * bsz))))))))"

text \<open>\<open>ret_buf\<close> is an array of pointers, \<open>sizes\<close> one of 32-bit sizes; \<open>offset\<close> stays 0 in the loop that copies.\<close>

definition ext2_read_double_indirect :: "('a ext2_scheme \<Rightarrow> fault + unit \<times> 'a ext2_scheme) \<Rightarrow> u32 \<Rightarrow> 'a ext2_scheme \<Rightarrow> fault + (u64 \<times> u32) \<times> 'a ext2_scheme" where
  "ext2_read_double_indirect int3 blockno =
     bnd (gets (\<lambda>s. block_size (ext2_driver s))) (\<lambda>bsz.
     let max_blocks = bsz div 4 in
     bnd (kalloc (ucast bsz)) (\<lambda>blocks.
     if blocks = 0 then raise (Panic ''ext2_read_double_indirect() --> kalloc() failure!'')
     else seqn (ext2_read_block int3 blocks blockno)
    (bnd (c_count_blocks blocks) (\<lambda>n.
     if n > max_blocks then raise (Panic ''ext2_read_double_indirect() --> total_blocks > max_blocks!'')
     else bnd (kalloc (ucast n * 8)) (\<lambda>ret_buf.
     bnd (kalloc (ucast n * 4)) (\<lambda>sizes.
     if ret_buf = 0 \<or> sizes = 0 then raise (Panic ''ext2_read_double_indirect() --> kalloc() 2. failure!'')
     else seqn (foreach [0..<unat n] (\<lambda>i.
            bnd (gets (load32 (blocks + of_nat (4 * i)))) (\<lambda>blk.
            if blk = 0 then raise (Panic ''ext2_read_double_indirect() --> blocks[i] was null. Misalignment. '')
            else bnd (ext2_read_single_indirect int3 blk) (\<lambda>(p, sz).
              seqn (to_kmem (sizes + of_nat (4 * i)) (bytes_le 4 (ucast sz)))
                   (to_kmem (ret_buf + of_nat (8 * i)) (bytes_le 8 p))))))
         (bnd (gets (\<lambda>s. sum_list (map (\<lambda>i. ucast (load32 (sizes + of_nat (4 * i)) s)) [0..<unat n]))) (\<lambda>total_size :: u64.
          bnd (kalloc total_size) (\<lambda>out_buf.
          if out_buf = 0 then raise (Panic ''ext2_read_double_indirect() --> kalloc() 3. failure!'')
          else seqn (foreach [0..<unat n] (\<lambda>i.
                 upd (\<lambda>s. s\<lparr>kmem := memcpy out_buf (load64 (ret_buf + of_nat (8 * i)) s) (ucast (load32 (sizes + of_nat (4 * i)) s)) (kmem s)\<rparr>)))
              (seqn (kfree blocks) (seqn (kfree ret_buf) (ret (out_buf, ucast total_size)))))))))))))"

fun read_direct_blocks :: "('a ext2_scheme \<Rightarrow> fault + unit \<times> 'a ext2_scheme) \<Rightarrow> ext2_inode_t \<Rightarrow> u64 \<Rightarrow> u64 \<Rightarrow> nat list
    \<Rightarrow> 'a ext2_scheme \<Rightarrow> fault + (bool \<times> u64) \<times> 'a ext2_scheme" where
  "read_direct_blocks int3 inode buf off [] = ret (True, off)"
| "read_direct_blocks int3 inode buf off (i # is) =
     (if ino_blocks inode i = 0 then ret (False, off)
      else seqn (ext2_read_block int3 (buf + off) (ino_blocks inode i))
          (bnd (gets (\<lambda>s. off + ucast (block_size (ext2_driver s)))) (\<lambda>off'. read_direct_blocks int3 inode buf off' is)))"

text \<open>\<open>ext2_read_dir\<close> returns the address behind the blocks it has read, or null.\<close>

definition ext2_read_dir :: "('a ext2_scheme \<Rightarrow> fault + unit \<times> 'a ext2_scheme) \<Rightarrow> string \<Rightarrow> 'a ext2_scheme \<Rightarrow> fault + u64 \<times> 'a ext2_scheme" where
  "ext2_read_dir int3 dir =
     bnd (ext2_dir_exists int3 dir) (\<lambda>ex.
     if \<not> ex then ret 0
     else bnd (bnd (ext2_find_file_inode int3 dir) found_inode) (\<lambda>inode.
       let cnt = length (takeWhile (\<lambda>i. ino_blocks inode i \<noteq> 0) [0..<12]) in
       bnd (bnd (gets (\<lambda>s. ucast (of_nat cnt * block_size (ext2_driver s)))) kalloc) (\<lambda>block_buf.
       if block_buf = 0 then ret 0
       else bnd (read_direct_blocks int3 inode block_buf 0 [0..<12]) (\<lambda>(more, off). ret (block_buf + off)))))"

text \<open>A further level of blocks: its bytes are appended to what has been read.\<close>

definition append_indirect :: "('a ext2_scheme \<Rightarrow> fault + (u64 \<times> u32) \<times> 'a ext2_scheme) \<Rightarrow> u64 \<Rightarrow> u64 \<Rightarrow> 'a ext2_scheme \<Rightarrow> fault + u64 \<times> 'a ext2_scheme" where
  "append_indirect read buf off = bnd read (\<lambda>(tmp_buf, sz).
     seqn (upd (\<lambda>s. s\<lparr>kmem := memcpy (buf + off) tmp_buf (ucast sz) (kmem s)\<rparr>))
    (seqn (kfree tmp_buf) (ret (off + ucast sz))))"

text \<open>The direct blocks, then the single and the double indirect block.\<close>

definition read_file_blocks :: "('a ext2_scheme \<Rightarrow> fault + unit \<times> 'a ext2_scheme) \<Rightarrow> ext2_inode_t \<Rightarrow> u64 \<Rightarrow> 'a ext2_scheme \<Rightarrow> fault + u64 \<times> 'a ext2_scheme" where
  "read_file_blocks int3 inode ret_buf =
     bnd (read_direct_blocks int3 inode ret_buf 0 [0..<12]) (\<lambda>(more, off).
     if \<not> more then ret ret_buf
     else bnd (if ino_blocks inode 12 \<noteq> 0 then append_indirect (ext2_read_single_indirect int3 (ino_blocks inode 12)) ret_buf off else ret off) (\<lambda>off.
          seqn (if ino_blocks inode 13 \<noteq> 0 then append_indirect (ext2_read_double_indirect int3 (ino_blocks inode 13)) ret_buf off else ret off)
               (ret ret_buf)))"

definition ext2_read_file :: "('a ext2_scheme \<Rightarrow> fault + unit \<times> 'a ext2_scheme) \<Rightarrow> string \<Rightarrow> 'a ext2_scheme \<Rightarrow> fault + u64 \<times> 'a ext2_scheme" where
  "ext2_read_file int3 filepath =
     bnd (ext2_find_file_inode int3 filepath) (\<lambda>r.
     if fst r = UINT32_MAX then ret 0
     else bnd (found_inode r) (\<lambda>inode.
       if ino_mode inode AND 0xF000 \<noteq> INODE_TYPE_FILE \<and> ino_mode inode AND 0xF000 \<noteq> INODE_TYPE_DIRECTORY
       then ext2_read_dir int3 filepath
       else bnd (bnd (ext2_get_file_size inode) kalloc) (\<lambda>ret_buf.
         if ret_buf = 0 then raise (Panic ''ext2_read_file() --> kalloc() failure!'')
         else read_file_blocks int3 inode ret_buf)))"

section \<open>Mounting\<close>

fun probe_root_blocks :: "('a ext2_scheme \<Rightarrow> fault + unit \<times> 'a ext2_scheme) \<Rightarrow> u64 \<Rightarrow> u64 \<Rightarrow> nat list \<Rightarrow> 'a ext2_scheme \<Rightarrow> fault + unit \<times> 'a ext2_scheme" where
  "probe_root_blocks int3 nm root_buf [] = ret ()"
| "probe_root_blocks int3 nm root_buf (i # is) =
     bnd (gets (\<lambda>s. ino_blocks (root_inode (ext2_driver s)) i)) (\<lambda>block.
     if block = 0 then ret ()
     else seqn (ext2_read_block int3 root_buf block)
         (seqn (ext2_read_from_directory int3 nm root_buf) (probe_root_blocks int3 nm root_buf is)))"

definition upd_drv :: "(EXT2_DRIVER \<Rightarrow> EXT2_DRIVER) \<Rightarrow> 'a ext2_scheme \<Rightarrow> 'a ext2_scheme" where
  "upd_drv f s = s\<lparr>ext2_driver := f (ext2_driver s)\<rparr>"

text \<open>The first part of \<open>ext2_driver_init\<close>: the superblock is found and copied.\<close>

definition load_superblock :: "('a ext2_scheme \<Rightarrow> fault + unit \<times> 'a ext2_scheme) \<Rightarrow> 'a ext2_scheme \<Rightarrow> fault + unit \<times> 'a ext2_scheme" where
  "load_superblock int3 =
     bnd (bread int3 0 SUPERBLOCK_SECTOR) (\<lambda>buf. bnd (bread int3 0 (SUPERBLOCK_SECTOR + 1)) (\<lambda>buf2.
     seqn (ensure (\<lambda>s. sb_ext2_magic (superblock_at (bytes_of (b_data (bufs s buf))) 0) = EXT2_SIGNATURE)
            (Panic ''ext2_driver_init() --> could not find superblock!''))
    (bnd (kalloc 1024) (\<lambda>p.
     seqn (upd (upd_drv (\<lambda>d. d\<lparr>superblock := p\<rparr>)))
    (if p = 0 then raise (Panic ''ext2_driver_init() --> kalloc() failure for superblock!'')
     else seqn (bnd (gets (\<lambda>s. b_data (bufs s buf))) (to_kmem p))
         (seqn (bnd (gets (\<lambda>s. b_data (bufs s buf2))) (to_kmem (p + 512)))
         (seqn (brelse buf) (brelse buf2))))))))"

text \<open>The second part: the parameters of the file system and the descriptors of the block groups.\<close>

definition load_geometry :: "('a ext2_scheme \<Rightarrow> fault + unit \<times> 'a ext2_scheme) \<Rightarrow> 'a ext2_scheme \<Rightarrow> fault + unit \<times> 'a ext2_scheme" where
  "load_geometry int3 =
     bnd (gets sb) (\<lambda>b.
     seqn (upd (upd_drv (\<lambda>d. d\<lparr>inode_size := if sb_major b \<ge> 1 then ucast (sb_inode_size b) else of_nat sizeof_inode\<rparr>)))
    (bnd (\<lambda>s. case ext2_getblocksize b of Inl f \<Rightarrow> Inl f | Inr z \<Rightarrow> Inr (z, s)) (\<lambda>bsz.
     seqn (upd (upd_drv (\<lambda>d. d\<lparr>total_inodes := sb_total_inodes b, block_size := bsz, total_blocks := sb_total_blocks b,
        blocks_per_group := sb_blocks_per_group b, inodes_per_group := sb_inodes_per_group b,
        extended_fields_available := ext2_extended_fields_available b\<rparr>)))
    (seqn (ensure (\<lambda>_. sb_blocks_per_group b \<noteq> 0 \<and> sb_inodes_per_group b \<noteq> 0) Undefined)
    (seqn (upd (upd_drv (\<lambda>d. d\<lparr>total_groups := DIV_CEIL (sb_total_blocks b) (sb_blocks_per_group b)\<rparr>)))
    (seqn (ensure (\<lambda>s. total_groups (ext2_driver s) = DIV_CEIL (total_inodes (ext2_driver s)) (inodes_per_group (ext2_driver s)))
            (Panic ''ext2_driver_init() --> got different group numbers!''))
    (seqn (upd (upd_drv (\<lambda>d. d\<lparr>bgdt_blockno := ucast (DIV_CEIL (ucast (total_groups d) * of_nat sizeof_bgd) (ucast bsz :: u64))\<rparr>)))
    (bnd (bnd (gets (\<lambda>s. ucast (bgdt_blockno (ext2_driver s) * bsz))) kalloc) (\<lambda>p.
     seqn (upd (upd_drv (\<lambda>d. d\<lparr>bgdt := p\<rparr>)))
    (if p = 0 then raise (Panic ''ext2_driver_init() --> kalloc() failure for bgdt!'')
     else bnd (gets (\<lambda>s. bgdt_blockno (ext2_driver s))) (\<lambda>n. foreach [0..<unat n] (\<lambda>i.
       bnd (ext2_disk_sector_to_block 2048) (\<lambda>k. ext2_read_block int3 (p + of_nat i * ucast bsz) (k + 1 + of_nat i))))))))))))))"

text \<open>\<open>nm\<close> is the address of the string \<open>__hello.txt\<close>. The results of the look-ups are only printed.\<close>

definition ext2_driver_init :: "('a ext2_scheme \<Rightarrow> fault + unit \<times> 'a ext2_scheme) \<Rightarrow> u64 \<Rightarrow> 'a ext2_scheme \<Rightarrow> fault + unit \<times> 'a ext2_scheme" where
  "ext2_driver_init int3 nm =
     seqn (load_superblock int3)
    (seqn (load_geometry int3)
    (bnd (ext2_read_inode int3 2) (\<lambda>inode.
     seqn (upd (upd_drv (\<lambda>d. d\<lparr>root_inode := inode\<rparr>)))
    (if ino_mode inode AND 0xF000 \<noteq> INODE_TYPE_DIRECTORY then raise (Panic ''ext2_driver_init() --> Root inode is not a directory'')
     else bnd (bnd (gets (\<lambda>s. ucast (block_size (ext2_driver s)))) kalloc) (\<lambda>root_buf.
       if root_buf = 0 \<and> ino_blocks inode 0 \<noteq> 0 then raise Undefined
       else seqn (probe_root_blocks int3 nm root_buf [0..<12])
           (seqn (ext2_find_file_inode int3 ''/test'') (ret ())))))))"

definition ext2_get_bgd :: "('a ext2_scheme \<Rightarrow> fault + unit \<times> 'a ext2_scheme) \<Rightarrow> u32 \<Rightarrow> 'a ext2_scheme \<Rightarrow> fault + ext2_block_group_desc \<times> 'a ext2_scheme" where
  "ext2_get_bgd int3 descriptor_index =
     bnd (ext2_disk_sector_to_block SUPERBLOCK_SECTOR) (\<lambda>k.
     bnd (ext2_block_to_disk_sector (k + 1)) (\<lambda>sec.
     let pos = ucast descriptor_index * of_nat sizeof_bgd :: u64 in
     bnd (bread int3 0 (ucast (ucast sec + DIV_FLOOR pos (ucast DISK_SECTOR_SIZE)))) (\<lambda>b.
     bnd (gets (\<lambda>s. bgd_at (bytes_of (b_data (bufs s b))) (ucast (ucast (pos mod ucast DISK_SECTOR_SIZE) :: u32)))) (\<lambda>out.
     seqn (brelse b) (ret out)))))"

section \<open>vfs.c\<close>

record stat =
  st_dev :: u64
  st_ino :: u64
  st_mode :: u32
  st_nlink :: u64
  st_uid :: u32
  st_gid :: u32
  st_rdev :: u64
  st_size :: u64
  st_blksize :: u32
  st_blocks :: u64
  st_atime :: u64
  st_mtime :: u64
  st_ctime :: u64

text \<open>
  The value is \<open>-1\<close>, or none where the function ends without \<open>return\<close>; with it comes the filled structure. \<open>filesize\<close> has 32
  bits and never equals \<open>UINT64_MAX\<close>.
\<close>

definition fill_statbuf :: "('a ext2_scheme \<Rightarrow> fault + unit \<times> 'a ext2_scheme) \<Rightarrow> string \<Rightarrow> 'a ext2_scheme \<Rightarrow> fault + (int option \<times> stat option) \<times> 'a ext2_scheme" where
  "fill_statbuf int3 filepath =
     bnd (ext2_find_file_inode int3 filepath) (\<lambda>r.
     if fst r = UINT32_MAX then ret (Some (-1), None)
     else bnd (found_inode r) (\<lambda>inode.
       seqn (ext2_get_file_size inode)
      (gets (\<lambda>s. (None, Some \<lparr>st_dev = 0, st_ino = ucast (fst r), st_mode = ucast (ino_mode inode), st_nlink = 0, st_uid = 0, st_gid = 0,
         st_rdev = 0, st_size = ucast (block_size (ext2_driver s)), st_blksize = block_size (ext2_driver s),
         st_blocks = ucast (total_blocks (ext2_driver s) * (block_size (ext2_driver s) div 512)),
         st_atime = 0, st_mtime = 0, st_ctime = 0\<rparr>)))))"

end
