(* ===== verification/Ext2_Read.thy ===== *)
theory Ext2_Read
  imports Ext2
begin

text \<open>
  What the ext2 driver reads. Every lemma here is about complete runs: from a state in which the thread may read the
  disk (\<open>serving\<close>) and the file system is mounted (\<open>mounted\<close>), the operation returns, and its result is the part of
  the disk it should be. The heap needed is counted in free blocks.
\<close>

section \<open>Bytes of memory\<close>

lemma put_append:
  assumes "length xs + length ys \<le> 2 ^ 64" "length ys \<noteq> 0"
  shows "put (a + of_nat (length xs)) ys (put a xs m) = put a (xs @ ys) m"
proof
  fix x
  have l: "length xs < 2 ^ 64" using assms by linarith
  have d: "x - (a + of_nat (length xs)) = (x - a) - of_nat (length xs)" by (simp add: algebra_simps)
  show "put (a + of_nat (length xs)) ys (put a xs m) x = put a (xs @ ys) m x"
  proof (cases "unat (x - a) < length xs")
    case True
    then have "unat ((x - a) - of_nat (length xs)) = 2 ^ 64 + unat (x - a) - length xs"
      using l by (simp add: unat_sub_if_size unat_of_nat word_le_nat_alt word_size take_bit_nat_eq_self)
    then have "\<not> unat ((x - a) - of_nat (length xs)) < length ys" using assms(1) by linarith
    then show ?thesis using True by (simp add: put_def d nth_append)
  next
    case False
    then have "unat ((x - a) - of_nat (length xs)) = unat (x - a) - length xs"
      using l by (subst unat_sub) (simp_all add: word_le_nat_alt unat_of_nat take_bit_nat_eq_self)
    then show ?thesis using False by (simp add: put_def d nth_append less_diff_conv2)
  qed
qed

lemma le_bytes_cong: "(\<And>i. i < n \<Longrightarrow> m (a + of_nat i) = m' (a' + of_nat i)) \<Longrightarrow> le_bytes m a n = le_bytes m' a' n"
proof (induction n arbitrary: a a')
  case (Suc n)
  have "le_bytes m (a + 1) n = le_bytes m' (a' + 1) n" using Suc.prems [of "Suc _"] by (intro Suc.IH) (simp add: add.assoc)
  then show ?case using Suc.prems [of 0] by simp
qed simp

text \<open>A structure is determined by its bytes.\<close>

lemma le_bytes_field:
  assumes "\<And>i. i < N \<Longrightarrow> m (a + of_nat i) = m' (a' + of_nat i)" "c + n \<le> N"
  shows "le_bytes m (a + of_nat c) n = le_bytes m' (a' + of_nat c) n"
  using assms(1) [of "c + _"] assms(2) by (intro le_bytes_cong) (simp add: add.assoc)

lemma superblock_at_cong:
  assumes "\<And>i. i < 1024 \<Longrightarrow> m (a + of_nat i) = m' (a' + of_nat i)"
  shows "superblock_at m a = superblock_at m' a'"
proof -
  have f: "c + n \<le> 1024 \<Longrightarrow> le_bytes m (a + of_nat c) n = le_bytes m' (a' + of_nat c) n" for c n by (rule le_bytes_field [where m = m and m' = m', OF assms])
  show ?thesis
    unfolding superblock_at_def using f [of 0 4] f [of 4 4] f [of 8 4] f [of 12 4] f [of 16 4] f [of 20 4] f [of 24 4] f [of 28 4] f [of 32 4] f [of 36 4]
      f [of 40 4] f [of 56 2] f [of 76 4] f [of 84 4] f [of 88 2] by simp
qed

lemma inode_at_cong:
  assumes "\<And>i. i < sizeof_inode \<Longrightarrow> m (a + of_nat i) = m' (a' + of_nat i)"
  shows "inode_at m a = inode_at m' a'"
proof -
  have f: "c + n \<le> 128 \<Longrightarrow> le_bytes m (a + of_nat c) n = le_bytes m' (a' + of_nat c) n" for c n
    by (rule le_bytes_field [where m = m and m' = m', OF assms]) (simp_all add: sizeof_inode_def)
  have "le_bytes m (a + of_nat (40 + 4 * i)) 4 = le_bytes m' (a' + of_nat (40 + 4 * i)) 4" if "i < 15" for i using that by (intro f) simp
  then show ?thesis
    unfolding inode_at_def using f [of 0 2] f [of 2 2] f [of 4 4] f [of 8 4] f [of 12 4] f [of 16 4] f [of 20 4] f [of 24 2] f [of 26 2] f [of 28 4]
      f [of 32 4] f [of 36 4] f [of 100 4] f [of 104 4] f [of 108 4] f [of 112 4] by (simp add: fun_eq_iff)
qed

lemma bgd_at_cong:
  assumes "\<And>i. i < sizeof_bgd \<Longrightarrow> m (a + of_nat i) = m' (a' + of_nat i)"
  shows "bgd_at m a = bgd_at m' a'"
proof -
  have f: "c + n \<le> 32 \<Longrightarrow> le_bytes m (a + of_nat c) n = le_bytes m' (a' + of_nat c) n" for c n
    by (rule le_bytes_field [where m = m and m' = m', OF assms]) (simp_all add: sizeof_bgd_def)
  show ?thesis unfolding bgd_at_def using f [of 0 4] f [of 4 4] f [of 8 4] f [of 12 4] f [of 16 4] f [of 20 4] by simp
qed

lemma dir_entry_at_cong:
  assumes "\<And>i. i < 8 \<Longrightarrow> m (a + of_nat i) = m' (a' + of_nat i)"
  shows "dir_entry_at m a = dir_entry_at m' a'"
proof -
  have f: "c + n \<le> 8 \<Longrightarrow> le_bytes m (a + of_nat c) n = le_bytes m' (a' + of_nat c) n" for c n by (rule le_bytes_field [where m = m and m' = m', OF assms])
  show ?thesis unfolding dir_entry_at_def using f [of 0 4] f [of 4 2] assms [of 6] assms [of 7] by simp
qed

lemma bytes_at_nth [simp]: "i < n \<Longrightarrow> bytes_at m a n ! i = m (a + of_nat i)"
  by (simp add: bytes_at_def)

section \<open>One sector\<close>

lemma serving_kmem [simp]: "serving th n H (s\<lparr>kmem := m\<rparr>) = serving th n H s" "same_disk s (t\<lparr>kmem := m\<rparr>) = same_disk s t"
  "same_disk (s\<lparr>kmem := m\<rparr>) t = same_disk s t"
  by (simp_all add: serving_def same_disk_def cpu_holds_def registered_def disk_inv_def kheap_inv_def queue_ok_def dll_queue_def request_ok_def
      heap_used_def buf_va_def buf_lock_def)

lemma bio_more_ext2:
  fixes s t :: "'a ext2_scheme"
  assumes "bio.more t = bio.more s"
  shows "kmem t = kmem s" "ext2_driver t = ext2_driver s"
  using assms by (cases s; cases t; simp)+

text \<open>The sectors of the disk have 512 bytes.\<close>

definition sectors_ok :: "'a bio_scheme \<Rightarrow> bool" where
  "sectors_ok s \<longleftrightarrow> (\<forall>k. length (sectors (ide s) False k) = 512)"

lemma read_disk_sector_runs:
  fixes s :: "'a ext2_scheme"
  assumes sv: "serving th (Suc n) {} s" and k: "k < FSSIZE" and ok: "sectors_ok s"
    and out: "\<And>u H. serving th n H u \<Longrightarrow> kmem u = kmem s \<Longrightarrow> ext2_driver u = ext2_driver s \<Longrightarrow>
       runs (out (sectors (ide s) False (unat k))) u (\<lambda>r t. \<exists>m. t = u\<lparr>kmem := m\<rparr> \<and> Q r m)"
    and P: "\<And>r t m. serving th n {} t \<Longrightarrow> kmem t = m \<Longrightarrow> Q r m \<Longrightarrow> ext2_driver t = ext2_driver s \<Longrightarrow> same_disk s t \<Longrightarrow> P r t"
  shows "runs (read_disk_sector ideintr out k DISK_SECTOR_SIZE) s P"
  unfolding read_disk_sector_def runs_simps
proof (rule bread_serving [OF sv k])
  fix b u assume u: "serving th n (insert b {}) u" "b_data (bufs u b) = sectors (ide s) False (unat k)" "same_disk s u" "bio.more u = bio.more s"
  have d: "take (unat DISK_SECTOR_SIZE) (b_data (bufs u b)) = sectors (ide s) False (unat k)"
    using ok by (simp add: u(2) sectors_ok_def DISK_SECTOR_SIZE_def)
  show "runs (out (take (unat DISK_SECTOR_SIZE) (b_data (bufs u b)))) u (\<lambda>r t. runs (brelse b) t (\<lambda>_ t. P r t))"
    unfolding d
  proof (rule runs_mono [OF out [OF u(1) bio_more_ext2 [OF u(4)]]], elim exE conjE)
    fix r t m assume t: "t = u\<lparr>kmem := m\<rparr>" "Q r m"
    show "runs (brelse b) t (\<lambda>_ t. P r t)"
    proof (rule brelse_serving)
      show "serving th n (insert b {}) t" using u(1) by (simp add: t)
      fix v assume v: "serving th n {} v" "same_disk t v" "bio.more v = bio.more t"
      have "same_disk s v" using same_disk_trans [OF u(3)] v(2) by (simp add: t)
      with v(1) show "P r v" by (intro P [where m = m]) (use t u(4) in \<open>auto simp: bio_more_ext2 [OF v(3)] bio_more_ext2 [OF u(4)]\<close>)
    qed simp
  qed
qed (simp_all add: NBUF_def)

lemma read_sector_kmem:
  fixes s :: "'a ext2_scheme"
  assumes sv: "serving th (Suc n) {} s" and k: "k < FSSIZE" and ok: "sectors_ok s"
    and P: "\<And>t. serving th n {} t \<Longrightarrow> kmem t = put a (sectors (ide s) False (unat k)) (kmem s) \<Longrightarrow> ext2_driver t = ext2_driver s \<Longrightarrow> same_disk s t \<Longrightarrow> P () t"
  shows "runs (read_disk_sector ideintr (to_kmem a) k DISK_SECTOR_SIZE) s P"
  by (rule read_disk_sector_runs [OF sv k ok, where Q = "\<lambda>_ m. m = put a (sectors (ide s) False (unat k)) (kmem s)"])
     (auto simp: to_kmem_def runs_simps intro: P)

lemma read_sector_local:
  fixes s :: "'a ext2_scheme"
  assumes sv: "serving th (Suc n) {} s" and k: "k < FSSIZE" and ok: "sectors_ok s"
    and P: "\<And>t. serving th n {} t \<Longrightarrow> kmem t = kmem s \<Longrightarrow> ext2_driver t = ext2_driver s \<Longrightarrow> same_disk s t \<Longrightarrow> P (sectors (ide s) False (unat k)) t"
  shows "runs (read_disk_sector ideintr ret k DISK_SECTOR_SIZE) s P"
proof (rule read_disk_sector_runs [OF sv k ok, where Q = "\<lambda>r m. r = sectors (ide s) False (unat k) \<and> m = kmem s"])
  fix u :: "'a ext2_scheme" and H assume "serving th n H u" "kmem u = kmem s" "ext2_driver u = ext2_driver s"
  then have "u = u\<lparr>kmem := kmem s\<rparr>" by simp
  then show "runs (ret (sectors (ide s) False (unat k))) u (\<lambda>r t. \<exists>m. t = u\<lparr>kmem := m\<rparr> \<and> r = sectors (ide s) False (unat k) \<and> m = kmem s)"
    by (auto simp: runs_simps)
qed (auto intro: P)

section \<open>One block\<close>

text \<open>Sectors per block, the bytes of a block of the file system, and the blocks that lie on the disk.\<close>

definition spb :: "'a ext2_scheme \<Rightarrow> nat" where
  "spb s = unat (block_size (ext2_driver s) div DISK_SECTOR_SIZE)"

definition fs_block :: "'a ext2_scheme \<Rightarrow> u32 \<Rightarrow> u8 list" where
  "fs_block s b = concat (map (\<lambda>j. sectors (ide s) False (2048 + unat b * spb s + j)) [0..<spb s])"

definition block_ok :: "'a ext2_scheme \<Rightarrow> u32 \<Rightarrow> bool" where
  "block_ok s b \<longleftrightarrow> 2048 + (unat b + 1) * spb s \<le> unat FSSIZE"

text \<open>The driver agrees with the superblock it has copied to memory.\<close>

definition geometry_ok :: "'a ext2_scheme \<Rightarrow> bool" where
  "geometry_ok s \<longleftrightarrow> sb_log2block_size (sb s) \<le> 6 \<and> block_size (ext2_driver s) = push_bit (unat (sb_log2block_size (sb s))) 1024
     \<and> sb_inodes_per_group (sb s) \<noteq> 0 \<and> inode_size (ext2_driver s) \<in> {128, 256, 512}"

lemma geometry_spb:
  assumes "geometry_ok s"
  shows "spb s = 2 ^ Suc (unat (sb_log2block_size (sb s)))" "unat (block_size (ext2_driver s)) = 512 * spb s" "spb s \<le> 128"
proof -
  let ?l = "unat (sb_log2block_size (sb s))"
  have l: "?l \<le> 6" using assms by (simp add: geometry_ok_def word_le_nat_alt)
  then have p: "(2 :: nat) ^ ?l \<le> 2 ^ 6" by (intro power_increasing) simp_all
  have u: "unat (block_size (ext2_driver s)) = 1024 * 2 ^ ?l"
  proof -
    have "block_size (ext2_driver s) = of_nat (1024 * 2 ^ ?l)" using assms by (simp add: geometry_ok_def push_bit_eq_mult)
    then show ?thesis using p by (simp only:) (subst unat_of_nat, simp add: take_bit_nat_eq_self)
  qed
  show s: "spb s = 2 ^ Suc ?l" by (simp add: spb_def unat_div u DISK_SECTOR_SIZE_def)
  then show "unat (block_size (ext2_driver s)) = 512 * spb s" "spb s \<le> 128" using u p by simp_all
qed

lemma block_sector:
  assumes g: "geometry_ok s" and b: "block_ok s b" and j: "j < spb s"
  shows "unat (DEVICE_START + push_bit 10 (push_bit (unat (sb_log2block_size (sb s))) b) div DISK_SECTOR_SIZE + of_nat j) = 2048 + unat b * spb s + j"
    "2048 + unat b * spb s + j < unat FSSIZE"
proof -
  let ?l = "unat (sb_log2block_size (sb s))"
  show lt: "2048 + unat b * spb s + j < unat FSSIZE" using b j by (simp add: block_ok_def algebra_simps)
  then have m: "unat b * 2 ^ Suc ?l < 129024" using geometry_spb(1) [OF g] by (simp add: FSSIZE_def)
  have "push_bit 10 (push_bit ?l b) = of_nat (unat b * 2 ^ (?l + 10))"
    by (simp add: push_bit_eq_mult power_add)
  moreover have "unat b * 2 ^ (?l + 10) < 2 ^ 32"
  proof -
    have "unat b * 2 ^ (?l + 10) = unat b * 2 ^ Suc ?l * 512" by (simp add: power_add)
    then show ?thesis using m by (simp only:) simp
  qed
  ultimately have "unat (push_bit 10 (push_bit ?l b)) = unat b * 2 ^ Suc ?l * 512"
    by (simp add: unat_of_nat take_bit_nat_eq_self power_add del: of_nat_mult of_nat_power)
  then have d: "unat (push_bit 10 (push_bit ?l b) div DISK_SECTOR_SIZE) = unat b * spb s"
    by (simp add: unat_div DISK_SECTOR_SIZE_def geometry_spb(1) [OF g])
  have jj: "unat (of_nat j :: u32) = j" using j geometry_spb(3) [OF g] by (simp add: unat_of_nat take_bit_nat_eq_self)
  show "unat (DEVICE_START + push_bit 10 (push_bit ?l b) div DISK_SECTOR_SIZE + of_nat j) = 2048 + unat b * spb s + j"
  proof -
    have "unat (DEVICE_START + k + of_nat j) = 2048 + unat k + j" if "unat k = unat b * spb s" for k :: u32
      using lt that by (subst unat_plus_nowrap; (subst unat_plus_nowrap)?; simp add: jj DEVICE_START_def FSSIZE_def)
    from this [OF d] show ?thesis unfolding d .
  qed
qed

lemma length_concat_const: "(\<And>x. x \<in> set xs \<Longrightarrow> length (f x) = c) \<Longrightarrow> length (concat (map f xs)) = c * length xs"
  by (induction xs) auto

lemma length_fs_block: "sectors_ok s \<Longrightarrow> length (fs_block s b) = 512 * spb s"
  unfolding fs_block_def by (subst length_concat_const [where c = 512]) (simp_all add: sectors_ok_def)

lemma ext2_read_block_runs:
  fixes s :: "'a ext2_scheme"
  assumes sv: "serving th (n + spb s) {} s" and ok: "sectors_ok s" and g: "geometry_ok s" and b: "block_ok s b"
    and P: "\<And>t. serving th n {} t \<Longrightarrow> kmem t = put a (fs_block s b) (kmem s) \<Longrightarrow> ext2_driver t = ext2_driver s \<Longrightarrow> same_disk s t \<Longrightarrow> P () t"
  shows "runs (ext2_read_block ideintr a b) s P"
proof -
  let ?sec = "DEVICE_START + push_bit 10 (push_bit (unat (sb_log2block_size (sb s))) b) div DISK_SECTOR_SIZE"
  let ?f = "\<lambda>j. sectors (ide s) False (2048 + unat b * spb s + j)"
  let ?body = "\<lambda>j. read_disk_sector ideintr (to_kmem (a + ucast (DISK_SECTOR_SIZE * of_nat j))) (?sec + of_nat j) DISK_SECTOR_SIZE"
  let ?I = "\<lambda>j t. serving th (n + (spb s - j)) {} t \<and> kmem t = put a (concat (map ?f [0..<j])) (kmem s) \<and> ext2_driver t = ext2_driver s \<and> same_disk s t"
  have len: "length (concat (map ?f [0..<j])) = 512 * j" for j
    using length_concat_const [of "[0..<j]" ?f 512] ok by (simp add: sectors_ok_def)
  have "\<exists>t. foreach [0..<spb s] ?body s = Inr ((), t) \<and> ?I (spb s) t"
  proof (rule foreach_upt_inv [where I = ?I])
    fix j t assume j: "j < spb s" and I: "?I j t"
    have o: "ucast (DISK_SECTOR_SIZE * of_nat j) = (of_nat (length (concat (map ?f [0..<j]))) :: u64)"
    proof -
      have "512 * j < 2 ^ 32" using j geometry_spb(3) [OF g] by simp
      then have "unat (DISK_SECTOR_SIZE * of_nat j) = 512 * j" by (simp add: DISK_SECTOR_SIZE_def unat_word_ariths unat_of_nat take_bit_nat_eq_self)
      then show ?thesis unfolding len by (metis of_nat_unat)
    qed
    have sj: "serving th (Suc (n + (spb s - Suc j))) {} t" using I j by (simp add: Suc_diff_Suc)
    have se: "sectors (ide t) = sectors (ide s)" "sectors_ok t" using I ok by (auto simp: same_disk_def sectors_ok_def)
    have lt: "?sec + of_nat j < FSSIZE" using block_sector [OF g b j] by (simp add: word_less_nat_alt)
    have "runs (?body j) t (\<lambda>_ u. ?I (Suc j) u)"
    proof (rule read_sector_kmem [OF sj lt se(2)])
      fix u assume u: "serving th (n + (spb s - Suc j)) {} u" "ext2_driver u = ext2_driver t" "same_disk t u"
        "kmem u = put (a + ucast (DISK_SECTOR_SIZE * of_nat j)) (sectors (ide t) False (unat (?sec + of_nat j))) (kmem t)"
      have "kmem u = put a (concat (map ?f [0..<j]) @ ?f j) (kmem s)"
      proof -
        have l: "length (concat (map ?f [0..<j])) + length (?f j) \<le> 2 ^ 64" "length (?f j) \<noteq> 0"
          using ok j geometry_spb(3) [OF g] unfolding len by (simp_all add: sectors_ok_def)
        show ?thesis using I put_append [OF l, of a "kmem s"] unfolding u(4) o se(1) block_sector(1) [OF g b j] by simp
      qed
      then show "?I (Suc j) u" using u(1-3) I same_disk_trans by auto
    qed
    then show "\<exists>u. ?body j t = Inr ((), u) \<and> ?I (Suc j) u" by (simp add: runs_def)
  qed (use sv same_disk_refl in simp_all)
  then obtain t where t: "foreach [0..<spb s] ?body s = Inr ((), t)" "?I (spb s) t" by blast
  then have "P () t" by (intro P) (simp_all add: fs_block_def)
  moreover have "sb_log2block_size (sb s) < 32" using g by (simp add: geometry_ok_def word_le_nat_alt word_less_nat_alt)
  ultimately show ?thesis using t(1) unfolding ext2_read_block_def ext2_block_to_disk_sector_def runs_simps spb_def by (simp add: runs_def)
qed

section \<open>A mounted file system\<close>

definition mounted :: "'a ext2_scheme \<Rightarrow> bool" where
  "mounted s \<longleftrightarrow> geometry_ok s \<and> sectors_ok s \<and> in_use (heap_tree s 0) \<and> byte_range 1024 (superblock (ext2_driver s)) \<subseteq> heap_used s
     \<and> byte_range (ucast (bgdt_blockno (ext2_driver s) * block_size (ext2_driver s))) (bgdt (ext2_driver s)) \<subseteq> heap_used s"

text \<open>What an operation of the driver keeps: its own data, the disk, and all memory but the blocks it allocates.\<close>

definition follows :: "'a ext2_scheme \<Rightarrow> 'a ext2_scheme \<Rightarrow> bool" where
  "follows s t \<longleftrightarrow> ext2_driver t = ext2_driver s \<and> same_disk s t \<and> (\<forall>x. kmem t x \<noteq> kmem s x \<longrightarrow> unat x \<in> heap_used t \<and> unat x \<notin> heap_used s)"

lemma follows_refl: "follows s s"
  by (simp add: follows_def same_disk_refl)

lemma follows_trans: "follows s t \<Longrightarrow> follows t u \<Longrightarrow> follows s u"
  unfolding follows_def using same_disk_trans [of s t u] by (auto simp: same_disk_def) (metis subsetD)+

lemma heap_used_bound: "x \<in> heap_used s \<Longrightarrow> x < 2 ^ 64"
proof -
  assume "x \<in> heap_used s"
  then obtain j y where "y \<in> blk j" "x = unat KERNEL_HEAP_START + y" by (auto simp: heap_used_def)
  then show ?thesis using hoff_hsz_le [of j] by (auto simp: blk_def KERNEL_HEAP_START_def)
qed

lemma byte_range_unat:
  assumes "byte_range n a \<subseteq> heap_used s" "i < unat n"
  shows "unat (a + of_nat i) = unat a + i" "unat (a + of_nat i) \<in> heap_used s"
proof -
  have "unat a + i \<in> heap_used s" using assms by (auto simp: byte_range_def)
  then show "unat (a + of_nat i) = unat a + i" "unat (a + of_nat i) \<in> heap_used s"
    using heap_used_bound [of "unat a + i" s] by (simp_all add: unat_word_ariths unat_of_nat take_bit_nat_eq_self)
qed

lemma follows_bytes:
  assumes "follows s t" "byte_range n a \<subseteq> heap_used s" "i < unat n"
  shows "kmem t (a + of_nat i) = kmem s (a + of_nat i)"
  using assms(1) byte_range_unat(2) [OF assms(2,3)] by (auto simp: follows_def)

lemma follows_sb: "mounted s \<Longrightarrow> follows s t \<Longrightarrow> sb t = sb s"
  unfolding sb_def by (rule subst [of "ext2_driver s" "ext2_driver t"], simp add: follows_def)
    (rule superblock_at_cong, rule follows_bytes [where n = 1024], simp_all add: mounted_def)

lemma mounted_follows:
  assumes "mounted s" "follows s t"
  shows "mounted t"
  using assms follows_sb [OF assms] unfolding mounted_def geometry_ok_def sectors_ok_def
  by (auto simp: follows_def same_disk_def)

lemma follows_disk: "follows s t \<Longrightarrow> spb t = spb s" "follows s t \<Longrightarrow> fs_block t b = fs_block s b" "follows s t \<Longrightarrow> block_ok t b = block_ok s b"
  by (simp_all add: follows_def same_disk_def spb_def fs_block_def block_ok_def)

section \<open>Inodes\<close>

text \<open>The bytes of the partition, and where on it an inode is: in the table of its group.\<close>

definition disk_image :: "'a bio_scheme \<Rightarrow> mem" where
  "disk_image s a = sectors (ide s) False (2048 + unat a div 512) ! (unat a mod 512)"

definition inode_group :: "'a ext2_scheme \<Rightarrow> u32 \<Rightarrow> u32" where
  "inode_group s i = (i - 1) div sb_inodes_per_group (sb s)"

definition inode_index :: "'a ext2_scheme \<Rightarrow> u32 \<Rightarrow> u32" where
  "inode_index s i = (i - 1) mod sb_inodes_per_group (sb s)"

definition inode_table :: "'a ext2_scheme \<Rightarrow> u32 \<Rightarrow> u32" where
  "inode_table s i = bg_inode_table (bgd_at (kmem s) (bgdt (ext2_driver s) + of_nat sizeof_bgd * ucast (inode_group s i)))"

definition inode_pos :: "'a ext2_scheme \<Rightarrow> u32 \<Rightarrow> nat" where
  "inode_pos s i = unat (inode_table s i) * (512 * spb s) + unat (inode_index s i) * unat (inode_size (ext2_driver s))"

definition disk_inode :: "'a ext2_scheme \<Rightarrow> u32 \<Rightarrow> ext2_inode_t" where
  "disk_inode s i = inode_at (disk_image s) (of_nat (inode_pos s i))"

definition inode_ok :: "'a ext2_scheme \<Rightarrow> u32 \<Rightarrow> bool" where
  "inode_ok s i \<longleftrightarrow> inode_pos s i < 512 * (unat FSSIZE - 2048)
     \<and> sizeof_bgd * (unat (inode_group s i) + 1) \<le> unat (bgdt_blockno (ext2_driver s) * block_size (ext2_driver s))"

lemma and_511: "x AND 511 = take_bit 9 x" for x :: u32
  by (simp add: take_bit_eq_mask mask_eq_exp_minus_1)

lemma sector_of_offset: "drop_bit 9 (x AND 0xFFFFFE00) = drop_bit 9 x" if "unat x < 2 ^ 32" for x :: u64
proof (rule bit_word_eqI)
  fix n assume "n < LENGTH(64)"
  have m: "(0xFFFFFE00 :: u64) = push_bit 9 (mask 23)" by (simp add: mask_eq_exp_minus_1)
  have "x = take_bit 32 x" using that by (simp add: word_unat_eq_iff unsigned_take_bit_eq take_bit_nat_eq_self)
  then have "bit x (9 + n) \<Longrightarrow> 9 + n < 32" by (metis bit_take_bit_iff)
  then show "bit (drop_bit 9 (x AND 0xFFFFFE00)) n = bit (drop_bit 9 x) n" by (auto simp: m bit_simps)
qed

lemma sector_split: "p mod 512 + k < 512 \<Longrightarrow> (p + k) div 512 = p div 512 \<and> (p + k) mod 512 = p mod 512 + k" for p k :: nat
  using div_add1_eq [of p k 512] mod_add_eq [of p 512 k] by simp

lemma inode_arith:
  assumes g: "geometry_ok s" and ok: "inode_ok s i"
  shows "unat (ucast (OFFSET_TO_SECTOR (ucast (block_size (ext2_driver s) * inode_table s i + inode_index s i * inode_size (ext2_driver s))
           AND ucast (NOT 511 :: u32))) :: u32) = 2048 + inode_pos s i div 512"
    and "unat ((inode_index s i * inode_size (ext2_driver s)) AND (512 - 1)) = inode_pos s i mod 512"
    and "inode_pos s i mod 512 + 128 \<le> 512"
proof -
  let ?a = "block_size (ext2_driver s) * inode_table s i" and ?b = "inode_index s i * inode_size (ext2_driver s)"
  have lt: "inode_pos s i < 512 * 126976" using ok by (simp add: inode_ok_def FSSIZE_def)
  have a: "unat ?a = unat (inode_table s i) * (512 * spb s)"
  proof -
    have "unat (inode_table s i) * (512 * spb s) < 2 ^ 32" by (rule less_le_trans [OF add_lessD1 [OF lt [unfolded inode_pos_def]]]) simp
    then show ?thesis by (subst unat_mult_nowrap) (simp_all add: geometry_spb(2) [OF g] mult.commute)
  qed
  have b: "unat ?b = unat (inode_index s i) * unat (inode_size (ext2_driver s))" using lt by (subst unat_mult_nowrap) (simp_all add: inode_pos_def)
  have ab: "unat (?a + ?b) = inode_pos s i" using lt by (subst unat_plus_nowrap) (simp_all add: a b inode_pos_def)
  let ?x = "ucast (?a + ?b) :: u64"
  have x: "unat ?x = inode_pos s i" using lt by (simp add: ab unsigned_ucast_eq take_bit_nat_eq_self)
  have n: "ucast (NOT 511 :: u32) = (0xFFFFFE00 :: u64)" by simp
  have "OFFSET_TO_SECTOR (?x AND ucast (NOT 511 :: u32)) = 2048 + drop_bit 9 (?x AND 0xFFFFFE00)"
    unfolding n by (simp add: OFFSET_TO_SECTOR_def DEVICE_START_def DISK_SECTOR_SIZE_def drop_bit_eq_div)
  also have "drop_bit 9 (?x AND 0xFFFFFE00) = drop_bit 9 ?x" by (rule sector_of_offset) (use lt x in simp)
  finally have "unat (OFFSET_TO_SECTOR (?x AND ucast (NOT 511 :: u32))) = 2048 + inode_pos s i div 512"
    using lt x by (simp add: unat_word_ariths unat_drop_bit_eq drop_bit_eq_div)
  then show "unat (ucast (OFFSET_TO_SECTOR (?x AND ucast (NOT 511 :: u32))) :: u32) = 2048 + inode_pos s i div 512"
    using lt by (simp add: unsigned_ucast_eq take_bit_nat_eq_self)
  have m: "inode_pos s i mod 512 = unat ?b mod 512"
  proof -
    have "inode_pos s i = 512 * (unat (inode_table s i) * spb s) + unat ?b" by (simp add: inode_pos_def b)
    then show ?thesis by (simp only: mod_mult_self4)
  qed
  then show "unat (?b AND (512 - 1)) = inode_pos s i mod 512" by (simp add: and_511 unsigned_take_bit_eq) (simp add: take_bit_eq_mod)
  have "unat ?b mod 512 mod 128 = 0" "inode_size (ext2_driver s) \<in> {128, 256, 512}"
    using g by (auto simp: geometry_ok_def b mod_mod_cancel)
  then have "128 dvd unat ?b mod 512" by (simp add: dvd_eq_mod_eq_0)
  moreover have "unat ?b mod 512 < 512" by simp
  ultimately show "inode_pos s i mod 512 + 128 \<le> 512" unfolding m by (auto elim!: dvdE)
qed

lemma inode_in_sector:
  fixes sec k :: u32
  assumes so: "sectors_ok s" and sec: "unat sec = 2048 + p div 512" and k: "unat k = p mod 512" "p mod 512 + 128 \<le> 512" and p: "p < 2 ^ 60"
  shows "inode_at (bytes_of (sectors (ide s) False (unat sec))) (ucast k) = inode_at (disk_image s) (of_nat p)"
proof (rule inode_at_cong)
  fix j assume j: "j < sizeof_inode"
  have u: "unat (ucast k + of_nat j :: u64) = p mod 512 + j"
    using k j by (simp add: unat_word_ariths unsigned_ucast_eq take_bit_nat_eq_self sizeof_inode_def unat_of_nat)
  have v: "unat (of_nat p + of_nat j :: u64) = p + j"
    using p j by (simp add: unat_word_ariths unat_of_nat take_bit_nat_eq_self sizeof_inode_def)
  have m: "p mod 512 + j < 512" using k(2) j by (simp add: sizeof_inode_def)
  then show "bytes_of (sectors (ide s) False (unat sec)) (ucast k + of_nat j) = disk_image s (of_nat p + of_nat j)"
    using so sector_split [OF m] by (simp add: bytes_of_def put_def disk_image_def u v sec sectors_ok_def)
qed

lemma ext2_read_inode_runs:
  fixes s :: "'a ext2_scheme"
  assumes sv: "serving th (Suc n) {} s" and mt: "mounted s" and ok: "inode_ok s i"
    and P: "\<And>t. serving th n {} t \<Longrightarrow> kmem t = kmem s \<Longrightarrow> follows s t \<Longrightarrow> P (disk_inode s i) t"
  shows "runs (ext2_read_inode ideintr i) s P"
proof -
  have g: "geometry_ok s" and so: "sectors_ok s" using mt by (simp_all add: mounted_def)
  let ?off = "ucast (block_size (ext2_driver s) * inode_table s i + inode_index s i * inode_size (ext2_driver s)) :: u64"
  let ?sec = "ucast (OFFSET_TO_SECTOR (?off AND ucast (NOT 511 :: u32))) :: u32" and ?k = "(inode_index s i * inode_size (ext2_driver s)) AND (512 - 1)"
  note A = inode_arith [OF g ok]
  have "inode_pos s i div 512 < 126976" using ok by (auto simp: inode_ok_def FSSIZE_def)
  then have sec: "?sec < FSSIZE" using A(1) by (simp add: word_less_nat_alt FSSIZE_def)
  have same: "inode_at (bytes_of (sectors (ide s) False (unat ?sec))) (ucast ?k) = disk_inode s i"
    unfolding disk_inode_def by (rule inode_in_sector [OF so A]) (use ok in \<open>simp add: inode_ok_def FSSIZE_def\<close>)
  let ?kt = "\<lambda>t. (inode_index s i * inode_size (ext2_driver t)) AND (512 - 1)"
  have "runs (read_disk_sector ideintr ret ?sec 512) s (\<lambda>b2 t. runs
     (if unat (?kt t) + sizeof_inode \<le> 512 then ret (inode_at (bytes_of b2) (ucast (?kt t))) else raise Undefined) t P)"
  proof (rule read_sector_local [OF sv sec so, unfolded DISK_SECTOR_SIZE_def])
    fix t assume t: "serving th n {} t" "kmem t = kmem s" "ext2_driver t = ext2_driver s" "same_disk s t"
    then have "P (inode_at (bytes_of (sectors (ide s) False (unat ?sec))) (ucast ?k)) t" unfolding same by (intro P) (simp_all add: follows_def)
    moreover have "unat ?k + sizeof_inode \<le> 512" using A(2,3) by (simp add: sizeof_inode_def)
    ultimately show "runs (if unat (?kt t) + sizeof_inode \<le> 512 then ret (inode_at (bytes_of (sectors (ide s) False (unat ?sec))) (ucast (?kt t))) else raise Undefined) t P"
      by (simp only: t(3) if_True runs_simps)
  qed
  moreover have "sb_inodes_per_group (sb s) \<noteq> 0" using g by (simp add: geometry_ok_def)
  ultimately show ?thesis
    unfolding ext2_read_inode_def ext2_GetInodeBlockGroup_def ext2_GetInodeBlockGroupIndex_def ext2_GetInodeOffset_def Let_def runs_simps
    by (simp only: inode_group_def [symmetric] inode_index_def [symmetric] inode_table_def [symmetric] simp_thms)
qed

end
