(* ===== verification/C_Strings.thy ===== *)
theory C_Strings
  imports Libc
begin

text \<open>
  Strings of C in memory, and what the routines of src/src/libc (strlen.c, strcmp.c, strsplit.c, memcpy.c) do on them. The file
  system and the shell use these facts.
\<close>

section \<open>Strings in memory\<close>

fun cstr :: "mem \<Rightarrow> u64 \<Rightarrow> u8 list \<Rightarrow> bool" where
  "cstr m a [] \<longleftrightarrow> m a = 0"
| "cstr m a (x # xs) \<longleftrightarrow> m a = x \<and> x \<noteq> 0 \<and> cstr m (a + 1) xs"

lemma cstr_iff: "cstr m a xs \<longleftrightarrow> bytes_at m a (length xs) = xs \<and> 0 \<notin> set xs \<and> m (a + of_nat (length xs)) = 0"
proof (induction xs arbitrary: a)
  case (Cons x xs)
  have "bytes_at m a (Suc (length xs)) = m a # bytes_at m (a + 1) (length xs)"
    by (rule nth_equalityI) (auto simp: nth_Cons algebra_simps split: nat.splits)
  then show ?case using Cons by (auto simp: add.assoc)
qed (simp add: bytes_at_def)

lemma cstr_move: "cstr m a xs \<Longrightarrow> (\<And>i. i \<le> length xs \<Longrightarrow> m' (b + of_nat i) = m (a + of_nat i)) \<Longrightarrow> cstr m' b xs"
proof -
  assume c: "cstr m a xs" and e: "\<And>i. i \<le> length xs \<Longrightarrow> m' (b + of_nat i) = m (a + of_nat i)"
  have "bytes_at m' b (length xs) = bytes_at m a (length xs)" by (rule nth_equalityI) (simp_all add: e)
  then show ?thesis using c e [of "length xs"] by (simp add: cstr_iff)
qed

lemma cstr_cong: "cstr m a xs \<Longrightarrow> (\<And>i. i \<le> length xs \<Longrightarrow> m' (a + of_nat i) = m (a + of_nat i)) \<Longrightarrow> cstr m' a xs"
  by (rule cstr_move)

lemma unat_u32: "unat (ucast x :: u64) = unat x" for x :: u32
  using unsigned_less [of x, where ?'a = nat] by (simp add: unsigned_ucast_eq take_bit_nat_eq_self)

lemma ucast_u8_eq: "(ucast x = (ucast y :: u64)) \<longleftrightarrow> x = y" for x y :: u8
proof
  assume "ucast x = (ucast y :: u64)"
  then have "ucast (ucast x :: u64) = (ucast (ucast y :: u64) :: u8)" by simp
  then show "x = y" by (simp add: ucast_up_ucast_id is_up)
qed simp

lemma strcmp_cstr: "cstr m a xs \<Longrightarrow> cstr m b ys \<Longrightarrow> \<exists>r. strcmp m a b = Some r \<and> (r = 0 \<longleftrightarrow> xs = ys)"
proof (induction ys arbitrary: a b xs)
  case Nil
  have "m a = 0 \<longleftrightarrow> xs = []" using Nil.prems(1) by (cases xs) auto
  moreover have "ucast (m a) = (0 :: u64) \<longleftrightarrow> m a = 0" using ucast_u8_eq [of "m a" 0] by simp
  ultimately show ?case using Nil.prems by (subst strcmp.simps) (simp add: Let_def)
next
  case (Cons y ys)
  show ?case
  proof (cases "m a = y")
    case True
    then obtain xs' where xs: "xs = y # xs'" "cstr m (a + 1) xs'" using Cons.prems by (cases xs) auto
    from Cons.IH [OF xs(2), of "b + 1"] Cons.prems(2) True show ?thesis by (subst strcmp.simps) (simp add: Let_def xs(1))
  next
    case False
    then have "ucast (m a) - ucast y \<noteq> (0 :: u64)" by (simp add: ucast_u8_eq)
    moreover have "xs \<noteq> y # ys" using Cons.prems(1) False by auto
    ultimately show ?thesis using Cons.prems(2) by (subst strcmp.simps) (simp add: Let_def)
  qed
qed

lemma strlen_cstr: "cstr m (a + l) xs \<Longrightarrow> strlen m a l = Some (l + of_nat (length xs))"
proof (induction xs arbitrary: l)
  case Nil
  then show ?case by (subst strlen.simps) simp
next
  case (Cons x xs)
  then show ?case using Cons.IH [of "l + 1"] by (subst strlen.simps) (simp add: add.assoc)
qed

lemma strsplit_plain: "cstr m (a + of_nat i) xs \<Longrightarrow> c \<notin> set xs \<Longrightarrow> strsplit a c i n m = Some (n + 1, m)"
proof (induction xs arbitrary: i)
  case Nil
  then show ?case by (subst strsplit.simps) simp
next
  case (Cons x xs)
  then have "cstr m (a + of_nat (i + 1)) xs" by (simp add: algebra_simps)
  then show ?case using Cons.IH [of "i + 1"] Cons.prems by (subst strsplit.simps) auto
qed

lemma memcpy_put:
  assumes "no_wrap dst (unat n)" "no_wrap src (unat n)" "unat dst + unat n \<le> unat src \<or> unat src + unat n \<le> unat dst"
  shows "memcpy dst src n m = put dst (bytes_at m src (unat n)) m"
proof (cases "unat n = 0")
  case False
  have cb: "(\<lambda>i m. m(dst + of_nat i := m (src + of_nat i))) = copy_byte dst src" by (simp add: copy_byte_def fun_eq_iff)
  have "dst < src \<or> unat src + unat n \<le> unat dst" using assms(3) False by (auto simp: word_less_nat_alt)
  from copy_up [OF assms(1,2) this] show ?thesis by (simp add: memcpy_def cb)
qed (simp add: memcpy_def bytes_at_def)

section \<open>Cutting a string into parts\<close>

lemma strsplit_skip:
  assumes "bytes_at m (a + of_nat i) (length xs) = xs" "0 \<notin> set xs" "c \<notin> set xs"
  shows "strsplit a c i n m = strsplit a c (i + length xs) n m"
  using assms
proof (induction xs arbitrary: i)
  case (Cons x xs)
  have "bytes_at m (a + of_nat i) (Suc (length xs)) = m (a + of_nat i) # bytes_at m (a + of_nat (i + 1)) (length xs)"
    by (rule nth_equalityI) (auto simp: nth_Cons algebra_simps split: nat.splits)
  then have x: "m (a + of_nat i) = x" "bytes_at m (a + of_nat (i + 1)) (length xs) = xs" using Cons.prems(1) by simp_all
  have "strsplit a c i n m = strsplit a c (i + 1) n m" by (subst strsplit.simps) (use x Cons.prems(2,3) in auto)
  also have "\<dots> = strsplit a c (i + 1 + length xs) n m" by (rule Cons.IH) (use x Cons.prems in auto)
  finally show ?case by simp
qed simp

lemma bytes_at_inside:
  assumes "length xs + length ys + length zs < 2 ^ 63"
  shows "bytes_at (put a (xs @ ys @ zs) m) (a + of_nat (length xs)) (length ys) = ys"
proof (rule nth_equalityI)
  fix i assume "i < length (bytes_at (put a (xs @ ys @ zs) m) (a + of_nat (length xs)) (length ys))"
  then have i: "i < length ys" by simp
  have "unat (of_nat (length xs + i) :: u64) = length xs + i" using i assms by (simp only: unat_of_nat) (simp add: take_bit_nat_eq_self)
  then have "unat (of_nat (length xs) + of_nat i :: u64) = length xs + i" by simp
  then show "bytes_at (put a (xs @ ys @ zs) m) (a + of_nat (length xs)) (length ys) ! i = ys ! i" using i by (simp add: put_def nth_append add.assoc)
qed simp

text \<open>A separator is overwritten with the end of a string.\<close>

lemma put_write:
  assumes "length xs + length ys < 2 ^ 63"
  shows "(put a (xs @ x # ys) m)(a + of_nat (length xs) := y) = put a (xs @ y # ys) m"
proof
  fix z
  have l: "unat (of_nat (length xs) :: u64) = length xs" using assms by (simp add: unat_of_nat take_bit_nat_eq_self)
  show "((put a (xs @ x # ys) m)(a + of_nat (length xs) := y)) z = put a (xs @ y # ys) m z"
  proof (cases "z = a + of_nat (length xs)")
    case False
    then have "unat (z - a) \<noteq> length xs" by (metis add_diff_cancel_left' diff_add_cancel add.commute of_nat_unat ucast_id)
    then show ?thesis using False by (auto simp: put_def nth_append nth_Cons split: nat.splits)
  qed (simp add: put_def l)
qed

end
