(* ===== verification/Ext2_Dir.thy ===== *)
theory Ext2_Dir
  imports Ext2_Read C_Strings
begin

text \<open>
  Looking up names (fs/ext2.c: \<open>ext2_read_from_directory\<close>, \<open>ext2_read_from_root_directory\<close>, \<open>ext2_find_file_inode\<close>)
  and reading whole files (\<open>ext2_read_file\<close>). A directory is the list of the names and inode numbers that its bytes
  stand for, and the look-up is \<open>map_of\<close>.
\<close>

section \<open>Directories in memory\<close>

text \<open>
  The directory whose entries start \<open>k\<close> bytes into the 64 KB block at \<open>b\<close>. Its end is an entry with inode number 0,
  which is what the code looks for; nothing else stops it at the end of the disk block.
\<close>

fun dir_at :: "mem \<Rightarrow> u64 \<Rightarrow> nat \<Rightarrow> (u8 list \<times> u32) list \<Rightarrow> bool" where
  "dir_at m b k [] \<longleftrightarrow> k + 8 \<le> 65536 \<and> de_inode (dir_entry_at m (b + of_nat k)) = 0"
| "dir_at m b k (x # es) \<longleftrightarrow> (let e = dir_entry_at m (b + of_nat k) in
     de_inode e = snd x \<and> snd x \<noteq> 0 \<and> fst x = bytes_at m (b + of_nat (k + 8)) (unat (de_namelength e)) \<and> 0 \<notin> set (fst x)
     \<and> k + 8 + length (fst x) \<le> 65536 \<and> dir_at m b (k + unat (de_size e)) es)"

definition lookup_name :: "(u8 list \<times> u32) list \<Rightarrow> u8 list \<Rightarrow> u32" where
  "lookup_name es nm = (case map_of es nm of None \<Rightarrow> 0 | Some i \<Rightarrow> i)"

lemma dir_at_cong: "(\<And>i. i < 65536 \<Longrightarrow> m (b + of_nat i) = m' (b' + of_nat i)) \<Longrightarrow> dir_at m b k es = dir_at m' b' k es"
proof (induction es arbitrary: k)
  case Nil
  have "dir_entry_at m (b + of_nat k) = dir_entry_at m' (b' + of_nat k)" if "k + 8 \<le> 65536"
    using Nil [of "k + _"] that by (intro dir_entry_at_cong) (simp add: add.assoc)
  then show ?case by auto
next
  case (Cons x es)
  show ?case
  proof (cases "k + 8 + length (fst x) \<le> 65536")
    case True
    have e: "dir_entry_at m (b + of_nat k) = dir_entry_at m' (b' + of_nat k)"
      using Cons.prems [of "k + _"] True by (intro dir_entry_at_cong) (simp add: add.assoc)
    have n: "bytes_at m (b + of_nat (k + 8)) (length (fst x)) = bytes_at m' (b' + of_nat (k + 8)) (length (fst x))"
      unfolding bytes_at_def using Cons.prems [of "k + 8 + _"] True by (intro map_cong) (auto simp: add.assoc)
    have IH: "dir_at m b l es = dir_at m' b' l es" for l by (rule Cons.IH) (rule Cons.prems)
    have l: "fst x = bytes_at m0 a (unat (de_namelength d)) \<longleftrightarrow> length (fst x) = unat (de_namelength d) \<and> fst x = bytes_at m0 a (length (fst x))" for m0 a d
      by (metis length_bytes_at)
    show ?thesis unfolding dir_at.simps Let_def e IH l [of m] l [of m'] n ..
  qed (simp add: Let_def)
qed

section \<open>Memory the driver writes\<close>

lemma range_unat:
  assumes "byte_range KERNEL_HEAP_MINBLOCK a \<subseteq> heap_used s" "unat (x - a) < 65536"
  shows "unat x \<in> byte_range KERNEL_HEAP_MINBLOCK a"
proof -
  have "x = a + of_nat (unat (x - a))" by simp
  then show ?thesis using byte_range_unat(1) [OF assms(1), of "unat (x - a)"] assms(2) by (simp add: KERNEL_HEAP_MINBLOCK_def byte_range_def)
qed

lemma follows_put:
  assumes f: "follows s u" and a: "byte_range KERNEL_HEAP_MINBLOCK a \<subseteq> heap_used u" "byte_range KERNEL_HEAP_MINBLOCK a \<inter> heap_used s = {}"
    and l: "length bs \<le> 65536" and t: "kmem t = put a bs (kmem u)" "ext2_driver t = ext2_driver u" "same_disk u t"
  shows "follows s t"
proof -
  have "unat x \<in> heap_used t \<and> unat x \<notin> heap_used s" if x: "kmem t x \<noteq> kmem s x" for x
  proof (cases "unat (x - a) < length bs")
    case True
    then have "unat x \<in> byte_range KERNEL_HEAP_MINBLOCK a" using l by (intro range_unat [OF a(1)]) simp
    then show ?thesis using a t(3) by (auto simp: same_disk_def)
  next
    case False
    then have "kmem u x \<noteq> kmem s x" using x t(1) by (simp add: put_def)
    then show ?thesis using f t(3) by (auto simp: follows_def same_disk_def)
  qed
  then show ?thesis using f t(2,3) same_disk_trans by (auto simp: follows_def)
qed

lemma core_ext2:
  fixes s t :: "'a ext2_scheme"
  assumes "core t = core s"
  shows "kmem t = kmem s" "ext2_driver t = ext2_driver s" "same_disk s t"
proof -
  have "bio.more t = bio.more s" using assms by (simp add: core_def)
  from bio_more_ext2 [OF this] show "kmem t = kmem s" "ext2_driver t = ext2_driver s" .
  show "same_disk s t" using assms heap_core(2) [OF assms] by (simp add: same_disk_def core_def)
qed

lemma kfree_follows:
  fixes s :: "'a ext2_scheme"
  assumes sv: "serving th n H s" and u: "in_use (heap_tree s 0)" "\<not> outside_heap a"
    and P: "\<And>t. serving th n H t \<Longrightarrow> kmem t = kmem s \<Longrightarrow> follows s t \<Longrightarrow> P True t"
  shows "runs (kfree a) s P"
proof (rule kfree_serving [OF sv u])
  fix t :: "'a ext2_scheme" assume t: "serving th n H t" "core t = core s"
  from core_ext2 [OF t(2)] t(1) show "P True t" by (intro P) (auto simp: follows_def)
qed

lemma kalloc_follows:
  fixes s :: "'a ext2_scheme"
  assumes sv: "serving th (Suc n) H s" and k: "k \<le> KERNEL_HEAP_MINBLOCK" "k \<noteq> 0"
    and P: "\<And>a t. a \<noteq> 0 \<Longrightarrow> \<not> outside_heap a \<Longrightarrow> serving th n H t \<Longrightarrow> byte_range KERNEL_HEAP_MINBLOCK a \<inter> heap_used s = {} \<Longrightarrow>
       byte_range KERNEL_HEAP_MINBLOCK a \<subseteq> heap_used t \<Longrightarrow> kmem t = kmem s \<Longrightarrow> follows s t \<Longrightarrow> P a t"
  shows "runs (kalloc k) s P"
proof (rule kalloc_serving [OF sv k])
  fix a and t :: "'a ext2_scheme"
  assume t: "a \<noteq> 0" "\<not> outside_heap a" "serving th n H t" "byte_range KERNEL_HEAP_MINBLOCK a \<inter> heap_used s = {}"
    "byte_range KERNEL_HEAP_MINBLOCK a \<subseteq> heap_used t" "same_disk s t" and m: "bio.more t = bio.more s"
  from bio_more_ext2 [OF m] t show "P a t" by (intro P) (auto simp: follows_def)
qed

text \<open>Two states with the same file system: the inodes are the same, wherever the driver keeps its tables.\<close>

definition same_fs :: "'a ext2_scheme \<Rightarrow> 'a ext2_scheme \<Rightarrow> bool" where
  "same_fs s t \<longleftrightarrow> sb t = sb s \<and> sectors (ide t) = sectors (ide s) \<and> block_size (ext2_driver t) = block_size (ext2_driver s)
     \<and> bgdt_blockno (ext2_driver t) = bgdt_blockno (ext2_driver s) \<and> inode_size (ext2_driver t) = inode_size (ext2_driver s)
     \<and> (\<forall>k < unat (bgdt_blockno (ext2_driver s) * block_size (ext2_driver s)). kmem t (bgdt (ext2_driver t) + of_nat k) = kmem s (bgdt (ext2_driver s) + of_nat k))"

lemma same_fs_disk:
  assumes "same_fs s t"
  shows "spb t = spb s" "fs_block t b = fs_block s b" "block_ok t b = block_ok s b" "geometry_ok t = geometry_ok s"
  using assms by (simp_all add: same_fs_def spb_def fs_block_def block_ok_def geometry_ok_def)

lemma same_fs_inode:
  assumes f: "same_fs s t" and i: "inode_ok s i"
  shows "inode_ok t i" "disk_inode t i = disk_inode s i"
proof -
  have g: "inode_group t i = inode_group s i" "inode_index t i = inode_index s i" using f by (simp_all add: same_fs_def inode_group_def inode_index_def)
  let ?a = "of_nat sizeof_bgd * ucast (inode_group s i) :: u64"
  have "bgd_at (kmem t) (bgdt (ext2_driver t) + ?a) = bgd_at (kmem s) (bgdt (ext2_driver s) + ?a)"
  proof (rule bgd_at_cong)
    fix k assume k: "k < sizeof_bgd"
    have a: "?a + of_nat k = of_nat (sizeof_bgd * unat (inode_group s i) + k)" by simp
    have "sizeof_bgd * unat (inode_group s i) + k < unat (bgdt_blockno (ext2_driver s) * block_size (ext2_driver s))" using i k by (auto simp: inode_ok_def)
    then show "kmem t (bgdt (ext2_driver t) + ?a + of_nat k) = kmem s (bgdt (ext2_driver s) + ?a + of_nat k)"
      using f unfolding same_fs_def add.assoc a by blast
  qed
  then have tb: "inode_table t i = inode_table s i" by (simp add: inode_table_def g)
  have p: "inode_pos t i = inode_pos s i" using f same_fs_disk(1) [OF f] by (simp add: inode_pos_def g tb same_fs_def)
  show "inode_ok t i" using i f by (simp add: inode_ok_def p g same_fs_def)
  have "disk_image t = disk_image s" using f by (simp add: fun_eq_iff disk_image_def same_fs_def)
  then show "disk_inode t i = disk_inode s i" by (simp add: disk_inode_def p)
qed

lemma follows_same_fs:
  assumes "mounted s" "follows s t"
  shows "same_fs s t"
proof -
  have "byte_range (ucast (bgdt_blockno (ext2_driver s) * block_size (ext2_driver s))) (bgdt (ext2_driver s)) \<subseteq> heap_used s" using assms(1) by (simp add: mounted_def)
  from follows_bytes [OF assms(2) this] show ?thesis
    using assms(2) follows_sb [OF assms] by (simp add: same_fs_def unat_u32) (simp add: follows_def same_disk_def)
qed

lemmas inode_follows = same_fs_inode [OF follows_same_fs]

section \<open>One directory entry\<close>

text \<open>A string in an allocated block or outside the heap, where the driver does not write.\<close>

definition name_at :: "'a ext2_scheme \<Rightarrow> u64 \<Rightarrow> u8 list \<Rightarrow> bool" where
  "name_at s f nm \<longleftrightarrow> f \<noteq> 0 \<and> cstr (kmem s) f nm \<and> (\<forall>i \<le> length nm. unat (f + of_nat i) \<in> heap_used s \<or> outside_heap (f + of_nat i))"

lemma heap_used_inside: "unat x \<in> heap_used s \<Longrightarrow> \<not> outside_heap x"
proof -
  assume "unat x \<in> heap_used s"
  then obtain j y where "y \<in> blk j" "unat x = unat KERNEL_HEAP_START + y" by (auto simp: heap_used_def)
  then show ?thesis using hoff_hsz_le [of j] by (auto simp: blk_def outside_heap_def)
qed

lemma name_follows:
  assumes n: "name_at s f nm" and f: "follows s t"
  shows "name_at t f nm"
proof -
  have "kmem t (f + of_nat i) = kmem s (f + of_nat i)" if "i \<le> length nm" for i
  proof (rule ccontr)
    assume "kmem t (f + of_nat i) \<noteq> kmem s (f + of_nat i)"
    then have "unat (f + of_nat i) \<in> heap_used t" "unat (f + of_nat i) \<notin> heap_used s" using f by (auto simp: follows_def)
    then show False using n that heap_used_inside by (auto simp: name_at_def)
  qed
  then show ?thesis using n f by (auto simp: name_at_def follows_def same_disk_def intro: cstr_cong)
qed

text \<open>The copy of a name into a block of its own.\<close>

lemma copied_name:
  assumes src: "byte_range KERNEL_HEAP_MINBLOCK b \<subseteq> heap_used s" "k + length nm \<le> 65536" and nm: "nm = bytes_at m (b + of_nat k) (length nm)" "length nm = unat (l :: u8)"
    and a: "byte_range KERNEL_HEAP_MINBLOCK a \<inter> heap_used s = {}" "byte_range KERNEL_HEAP_MINBLOCK a \<subseteq> heap_used t"
  shows "(memcpy a (b + of_nat k) (ucast l) m)(a + ucast l := 0) = put a (nm @ [0]) m"
proof -
  have len: "length nm < 256" using nm(2) unsigned_less [of l, where ?'a = nat] by simp
  have ul: "unat (ucast l :: u64) = length nm" using nm(2) len by (simp add: unsigned_ucast_eq take_bit_nat_eq_self)
  have "memcpy a (b + of_nat k) (ucast l) m = put a nm m"
  proof (cases "length nm = 0")
    case True
    then show ?thesis using ul by (simp add: memcpy_def)
  next
    case False
    have M: "unat KERNEL_HEAP_MINBLOCK = 65536" by (simp add: KERNEL_HEAP_MINBLOCK_def)
    have bk: "unat (b + of_nat k) = unat b + k" using src(2) False unfolding M [symmetric] by (intro byte_range_unat(1) [OF src(1)]) linarith
    have in_s: "x \<in> heap_used s" if "unat b + k \<le> x" "x < unat b + k + length nm" for x
      using src that by (auto simp: byte_range_def M)
    have in_t: "x \<in> heap_used t" "x \<notin> heap_used s" if "unat a \<le> x" "x < unat a + 65536" for x using a that by (auto simp: byte_range_def M)
    have "unat b + k + (length nm - 1) < 2 ^ 64" by (rule heap_used_bound [OF in_s]) (use False in linarith)+
    moreover have "unat a + (length nm - 1) < 2 ^ 64" by (rule heap_used_bound [OF in_t(1)]) (use False len in linarith)+
    ultimately have ow: "no_wrap (b + of_nat k) (length nm)" "no_wrap a (length nm)" using False by (simp_all add: no_wrap_def bk)
    have "unat a + length nm \<le> unat b + k \<or> unat b + k + length nm \<le> unat a"
    proof (rule ccontr)
      assume "\<not> ?thesis"
      then have "max (unat a) (unat b + k) \<in> heap_used s" "max (unat a) (unat b + k) \<notin> heap_used s"
        using False len by (intro in_s in_t; auto)+
      then show False by blast
    qed
    then show ?thesis using memcpy_put [of a "ucast l" "b + of_nat k" m] ow by (simp add: ul bk nm(1) [symmetric])
  qed
  moreover have "a + ucast l = a + of_nat (length nm)" using ul by (metis of_nat_unat ucast_id)
  ultimately show ?thesis using len by (simp add: put_snoc)
qed

lemma serving_mono: "serving th n H s \<Longrightarrow> m \<le> n \<Longrightarrow> serving th m H s"
  unfolding serving_def using room_mono by blast

lemma dir_follows:
  assumes "dir_at (kmem s) b k es" "follows s t" "byte_range KERNEL_HEAP_MINBLOCK b \<subseteq> heap_used s"
  shows "dir_at (kmem t) b k es"
proof -
  have "kmem t (b + of_nat i) = kmem s (b + of_nat i)" if "i < 65536" for i
    using follows_bytes [OF assms(2,3), of i] that by (simp add: KERNEL_HEAP_MINBLOCK_def)
  from dir_at_cong [of "kmem t" b "kmem s" b, OF this] assms(1) show ?thesis by simp
qed

lemma cstr_put:
  assumes "0 \<notin> set nm" "length nm < 2 ^ 63"
  shows "cstr (put a (nm @ [0]) m) a nm"
  unfolding cstr_iff
proof (intro conjI)
  have "put a (nm @ [0]) m (a + of_nat i) = (nm @ [0]) ! i" if "i \<le> length nm" for i
    using that assms(2) by (simp add: put_def unat_of_nat take_bit_nat_eq_self)
  then show "bytes_at (put a (nm @ [0]) m) a (length nm) = nm" "put a (nm @ [0]) m (a + of_nat (length nm)) = 0"
    by (auto intro!: nth_equalityI simp: nth_append)
qed (rule assms(1))

lemma ext2_dir_step_runs:
  fixes s :: "'a ext2_scheme"
  assumes sv: "serving th (Suc (Suc n)) {} s" and mt: "mounted s" and b: "byte_range KERNEL_HEAP_MINBLOCK b \<subseteq> heap_used s"
    and d: "dir_at (kmem s) b k (x # es)" and f: "name_at s f nm" and ok: "fst x = nm \<Longrightarrow> inode_ok s (snd x)"
  shows "runs (ext2_dir_step ideintr f (b + of_nat k)) s (\<lambda>r t. follows s t \<and>
     (if fst x = nm then r = Inl (snd x) \<and> serving th n {} t
      else r = Inr (b + of_nat (k + unat (de_size (dir_entry_at (kmem s) (b + of_nat k))))) \<and> serving th (Suc n) {} t))"
proof -
  let ?e = "dir_entry_at (kmem s) (b + of_nat k)" and ?d = "b + of_nat k"
  from d have e: "de_inode ?e = snd x" "fst x = bytes_at (kmem s) (b + of_nat (k + 8)) (unat (de_namelength ?e))" "0 \<notin> set (fst x)" "k + 8 + length (fst x) \<le> 65536"
    by (auto simp: Let_def)
  have len: "length (fst x) = unat (de_namelength ?e)" unfolding e(2) by simp
  have l256: "length (fst x) < 256" using unsigned_less [of "de_namelength ?e", where ?'a = nat] by (simp add: len)
  let ?Q = "\<lambda>r t. follows s t \<and> (if fst x = nm then r = Inl (snd x) \<and> serving th n {} t else r = Inr (b + of_nat (k + unat (de_size ?e))) \<and> serving th (Suc n) {} t)"
  have sz: "ucast (de_namelength ?e) + 1 \<le> KERNEL_HEAP_MINBLOCK" "ucast (de_namelength ?e) + 1 \<noteq> (0 :: u64)"
  proof -
    have "unat (ucast (de_namelength ?e) + 1 :: u64) = length (fst x) + 1"
      using l256 len by (simp add: unat_word_ariths unsigned_ucast_eq take_bit_nat_eq_self)
    then show "ucast (de_namelength ?e) + 1 \<le> KERNEL_HEAP_MINBLOCK" "ucast (de_namelength ?e) + 1 \<noteq> (0 :: u64)"
      using l256 by (auto simp: word_le_nat_alt KERNEL_HEAP_MINBLOCK_def)
  qed
  show ?thesis
    unfolding ext2_dir_step_def runs_simps
  proof (rule kalloc_follows [OF sv sz])
    fix a and u :: "'a ext2_scheme"
    assume a: "a \<noteq> 0" "\<not> outside_heap a" "serving th (Suc n) {} u" "byte_range KERNEL_HEAP_MINBLOCK a \<inter> heap_used s = {}"
      "byte_range KERNEL_HEAP_MINBLOCK a \<subseteq> heap_used u" "kmem u = kmem s" "follows s u"
    let ?m = "(memcpy a (?d + 8) (ucast (de_namelength ?e)) (kmem u))(a + ucast (de_namelength ?e) := 0)"
    let ?v = "u\<lparr>kmem := ?m\<rparr>"
    have m: "?m = put a (fst x @ [0]) (kmem s)"
      using copied_name [OF b _ _ len a(4,5), of "k + 8" "kmem s"] e(2,4) by (simp add: a(6) len algebra_simps)
    have fv: "follows s ?v"
      by (rule follows_put [OF a(7,5,4), where bs = "fst x @ [0]"]) (use m l256 same_disk_refl a(6) in simp_all)
    have sv': "serving th (Suc n) {} ?v" using a(3) by simp
    have mt': "mounted ?v" by (rule mounted_follows [OF mt fv])
    have "name_at ?v f nm" by (rule name_follows [OF f fv])
    then have "cstr (kmem ?v) f nm" "f \<noteq> 0" by (simp_all add: name_at_def)
    moreover have "cstr (kmem ?v) a (fst x)" using cstr_put [OF e(3)] l256 by (simp add: m)
    ultimately obtain r where r: "strcmp (kmem ?v) f a = Some r" "r = 0 \<longleftrightarrow> nm = fst x" using strcmp_cstr by blast
    have ev: "dir_entry_at (kmem w) ?d = ?e" if "follows s w" for w
    proof (rule dir_entry_at_cong)
      fix i :: nat assume "i < 8"
      then show "kmem w (?d + of_nat i) = kmem s (?d + of_nat i)"
        using follows_bytes [OF that b, of "k + i"] e(4) by (simp add: KERNEL_HEAP_MINBLOCK_def add.assoc)
    qed
    have iu: "in_use (heap_tree w 0)" if "follows s w" for w using mounted_follows [OF mt that] by (simp add: mounted_def)
    have hit: "runs (ext2_read_inode ideintr (de_inode ?e)) ?v (\<lambda>_ t. runs (kfree a) t (\<lambda>_ t. ?Q (Inl (de_inode (dir_entry_at (kmem t) ?d))) t))" if h: "fst x = nm"
    proof (rule ext2_read_inode_runs [OF sv' mt'])
      show "inode_ok ?v (de_inode ?e)" using inode_follows(1) [OF mt fv ok [OF h]] by (simp add: e(1))
      fix w assume w: "serving th n {} w" "follows ?v w"
      have fw: "follows s w" by (rule follows_trans [OF fv w(2)])
      show "runs (kfree a) w (\<lambda>_ t. ?Q (Inl (de_inode (dir_entry_at (kmem t) ?d))) t)"
        by (rule kfree_follows [OF w(1) iu [OF fw] a(2)]) (use fw ev follows_trans h e(1) in \<open>auto intro: follows_trans\<close>)
    qed
    have miss: "runs (kfree a) ?v (\<lambda>_ t. ?Q (Inr (?d + ucast (de_size (dir_entry_at (kmem ?v) ?d)))) t)" if h: "fst x \<noteq> nm"
    proof (rule kfree_follows [OF sv' iu [OF fv] a(2)])
      fix t assume t: "serving th (Suc n) {} t" "follows ?v t"
      have "?d + ucast (de_size ?e) = b + of_nat (k + unat (de_size ?e))" by simp
      then show "?Q (Inr (?d + ucast (de_size (dir_entry_at (kmem ?v) ?d)))) t" using t h ev [OF fv] follows_trans [OF fv t(2)] by simp
    qed
    show "runs (if a = 0 then raise Undefined
        else seqn (upd (\<lambda>s. s\<lparr>kmem := (memcpy a (?d + 8) (ucast (de_namelength ?e)) (kmem s))(a + ucast (de_namelength ?e) := 0)\<rparr>))
          (bnd (if f = 0 then ret 1 else bnd (gets (\<lambda>s. strcmp (kmem s) f a)) (\<lambda>c. case c of None \<Rightarrow> raise Diverge | Some x \<Rightarrow> ret x)) (\<lambda>c.
           if f \<noteq> 0 \<and> c = 0
           then seqn (ext2_read_inode ideintr (de_inode ?e)) (seqn (kfree a) (gets (\<lambda>s. Inl (de_inode (dir_entry_at (kmem s) ?d)))))
           else bnd (gets (\<lambda>s. ?d + ucast (de_size (dir_entry_at (kmem s) ?d)))) (\<lambda>d. seqn (kfree a) (ret (Inr d)))))) u ?Q"
      using a(1) r hit miss f by (cases "fst x = nm") (simp_all add: runs_simps name_at_def)
  qed
qed

lemma ext2_dir_loop_runs:
  fixes s :: "'a ext2_scheme"
  assumes "serving th (Suc (length es) + n) {} s" "mounted s" "byte_range KERNEL_HEAP_MINBLOCK b \<subseteq> heap_used s"
    "dir_at (kmem s) b k es" "name_at s f nm" "\<And>i. map_of es nm = Some i \<Longrightarrow> inode_ok s i"
  shows "\<exists>t. ext2_dir_loop ideintr f (b + of_nat k) s = Some (Inr (lookup_name es nm, t)) \<and> serving th n {} t \<and> follows s t"
  using assms
proof (induction es arbitrary: k s)
  case Nil
  then show ?case by (subst ext2_dir_loop.simps) (auto simp: lookup_name_def follows_refl intro: serving_mono)
next
  case (Cons x es)
  have nz: "de_inode (dir_entry_at (kmem s) (b + of_nat k)) \<noteq> 0" using Cons.prems(4) by (simp add: Let_def)
  have sv: "serving th (Suc (Suc (length es + n))) {} s" using Cons.prems(1) by simp
  have ok: "fst x = nm \<Longrightarrow> inode_ok s (snd x)" using Cons.prems(6) by (cases x) auto
  let ?k = "k + unat (de_size (dir_entry_at (kmem s) (b + of_nat k)))"
  from ext2_dir_step_runs [OF sv Cons.prems(2-5) ok] obtain r t where r: "ext2_dir_step ideintr f (b + of_nat k) s = Inr (r, t)" and ft: "follows s t"
    and Q: "if fst x = nm then r = Inl (snd x) \<and> serving th (length es + n) {} t else r = Inr (b + of_nat ?k) \<and> serving th (Suc (length es + n)) {} t"
    by (auto simp: runs_def)
  show ?case
  proof (cases "fst x = nm")
    case True
    then have "lookup_name (x # es) nm = snd x" by (cases x) (simp add: lookup_name_def)
    then show ?thesis using nz r Q True ft by (subst ext2_dir_loop.simps) (auto intro: serving_mono)
  next
    case False
    then have l: "lookup_name (x # es) nm = lookup_name es nm" "map_of (x # es) nm = map_of es nm" by (cases x; simp add: lookup_name_def)+
    have dt: "dir_at (kmem t) b ?k es" by (rule dir_follows [OF _ ft Cons.prems(3)]) (use Cons.prems(4) in \<open>simp add: Let_def\<close>)
    have hb: "byte_range KERNEL_HEAP_MINBLOCK b \<subseteq> heap_used t" using Cons.prems(3) ft by (auto simp: follows_def same_disk_def)
    have okt: "inode_ok t i" if "map_of es nm = Some i" for i by (rule inode_follows(1) [OF Cons.prems(2) ft]) (use Cons.prems(6) l(2) that in simp)
    have st: "serving th (Suc (length es) + n) {} t" using Q False by simp
    from Cons.IH [OF st mounted_follows [OF Cons.prems(2) ft] hb dt name_follows [OF Cons.prems(5) ft] okt] obtain u where
      u: "ext2_dir_loop ideintr f (b + of_nat ?k) t = Some (Inr (lookup_name es nm, u))" "serving th n {} u" "follows t u" by blast
    show ?thesis using nz r Q False u follows_trans [OF ft u(3)] by (subst ext2_dir_loop.simps) (simp add: l)
  qed
qed

end
