(* ===== verification/Ext2_Files.thy ===== *)
theory Ext2_Files
  imports Ext2_Dir
begin

text \<open>
  From a path to the bytes of a file: the root directory, \<open>ext2_find_file_inode\<close> and \<open>ext2_read_file\<close> (fs/ext2.c), as
  complete runs on a cold or warm buffer cache, and what goes wrong with larger files and with \<open>fstat\<close>.
\<close>

section \<open>The root directory\<close>

text \<open>The heap that has never been allocated is zero. The driver depends on it: see \<open>dir_at\<close>.\<close>

definition zeroed :: "'a ext2_scheme \<Rightarrow> bool" where
  "zeroed s \<longleftrightarrow> (\<forall>x. \<not> outside_heap x \<longrightarrow> unat x \<notin> heap_used s \<longrightarrow> kmem s x = 0)"

lemma zeroed_follows: "zeroed s \<Longrightarrow> follows s t \<Longrightarrow> zeroed t"
  unfolding zeroed_def follows_def same_disk_def by (metis subsetD)

text \<open>A block of a directory on the disk, and the blocks of the root directory from the \<open>j\<close>th on.\<close>

definition dir_block :: "'a ext2_scheme \<Rightarrow> u32 \<Rightarrow> (u8 list \<times> u32) list \<Rightarrow> bool" where
  "dir_block s b es \<longleftrightarrow> block_ok s b \<and> dir_at (bytes_of (fs_block s b)) 0 0 es"

fun root_from :: "'a ext2_scheme \<Rightarrow> nat \<Rightarrow> (u32 \<times> (u8 list \<times> u32) list) list \<Rightarrow> bool" where
  "root_from s j [] \<longleftrightarrow> j < 12 \<longrightarrow> ino_blocks (root_inode (ext2_driver s)) j = 0"
| "root_from s j (d # ds) \<longleftrightarrow> j < 12 \<and> ino_blocks (root_inode (ext2_driver s)) j = fst d \<and> fst d \<noteq> 0
     \<and> dir_block s (fst d) (snd d) \<and> root_from s (Suc j) ds"

definition entries :: "(u32 \<times> (u8 list \<times> u32) list) list \<Rightarrow> (u8 list \<times> u32) list" where
  "entries ds = concat (map snd ds)"

fun scan_cost :: "nat \<Rightarrow> (u32 \<times> (u8 list \<times> u32) list) list \<Rightarrow> nat" where
  "scan_cost k [] = 0"
| "scan_cost k (d # ds) = k + Suc (length (snd d)) + scan_cost k ds"

text \<open>A buffer for blocks: allocated since \<open>s\<close>, with zeros behind the bytes of a block.\<close>

definition buf_ready :: "'a ext2_scheme \<Rightarrow> u64 \<Rightarrow> 'a ext2_scheme \<Rightarrow> bool" where
  "buf_ready s buf t \<longleftrightarrow> follows s t \<and> byte_range KERNEL_HEAP_MINBLOCK buf \<subseteq> heap_used t \<and> byte_range KERNEL_HEAP_MINBLOCK buf \<inter> heap_used s = {}
     \<and> (\<forall>i. 512 * spb s \<le> i \<longrightarrow> i < 65536 \<longrightarrow> kmem t (buf + of_nat i) = 0)"

lemma read_block_buf:
  fixes s t :: "'a ext2_scheme"
  assumes mt: "mounted s" and b: "block_ok s k" and r: "buf_ready s buf t" and sv: "serving th (spb s + n) {} t"
    and P: "\<And>u. serving th n {} u \<Longrightarrow> buf_ready s buf u \<Longrightarrow> kmem u = put buf (fs_block s k) (kmem t) \<Longrightarrow> heap_used t \<subseteq> heap_used u \<Longrightarrow> P () u"
  shows "runs (ext2_read_block ideintr buf k) t P"
proof -
  have f: "follows s t" using r by (simp add: buf_ready_def)
  note E = follows_disk [OF f]
  have m: "geometry_ok t" "sectors_ok t" "block_ok t k" using mounted_follows [OF mt f] b by (simp_all add: mounted_def E)
  have l: "length (fs_block s k) = 512 * spb s" "spb s \<le> 128" using mt length_fs_block geometry_spb(3) by (auto simp: mounted_def)
  show ?thesis
  proof (rule ext2_read_block_runs [OF _ m(2,1,3)])
    show "serving th (n + spb t) {} t" using sv by (simp add: E add.commute)
    fix u assume u: "serving th n {} u" "kmem u = put buf (fs_block t k) (kmem t)" "ext2_driver u = ext2_driver t" "same_disk t u"
    have fu: "follows s u" by (rule follows_put [OF f _ _ _ u(2-4)]) (use r l in \<open>auto simp: buf_ready_def E\<close>)
    have "kmem u (buf + of_nat i) = 0" if "512 * spb s \<le> i" "i < 65536" for i
      using that r l by (simp add: u(2) put_def E unat_of_nat take_bit_nat_eq_self buf_ready_def)
    then have "buf_ready s buf u" using r fu u(4) by (auto simp: buf_ready_def same_disk_def)
    then show "P () u" using u by (intro P) (auto simp: E same_disk_def)
  qed
qed

lemma dir_in_buf:
  assumes mt: "mounted s" and r: "buf_ready s buf u" and k: "kmem u = put buf (fs_block s b) m" and d: "dir_at (bytes_of (fs_block s b)) 0 0 es"
  shows "dir_at (kmem u) buf 0 es"
proof -
  have l: "length (fs_block s b) = 512 * spb s" using mt length_fs_block by (auto simp: mounted_def)
  have "kmem u (buf + of_nat i) = bytes_of (fs_block s b) (0 + of_nat i)" if "i < 65536" for i
  proof (cases "i < 512 * spb s")
    case True
    then show ?thesis using that l by (simp add: k put_def bytes_of_def unat_of_nat take_bit_nat_eq_self)
  next
    case False
    then have "kmem u (buf + of_nat i) = 0" using r that by (simp add: buf_ready_def)
    then show ?thesis using False that l by (simp add: put_def bytes_of_def unat_of_nat take_bit_nat_eq_self)
  qed
  from dir_at_cong [of "kmem u" buf "bytes_of (fs_block s b)" 0, OF this] d show ?thesis by simp
qed

lemma dir_at_nonzero: "dir_at m b k es \<Longrightarrow> (nm, i) \<in> set es \<Longrightarrow> i \<noteq> 0"
  by (induction es arbitrary: k) (auto simp: Let_def)

lemma lookup_append:
  assumes "dir_at m b k es"
  shows "lookup_name (es @ fs) nm = (if lookup_name es nm \<noteq> 0 then lookup_name es nm else lookup_name fs nm)"
  using dir_at_nonzero [OF assms] by (auto simp: lookup_name_def map_add_def split: option.splits dest!: map_of_SomeD)

text \<open>One block of the directory: it is read, then searched.\<close>

lemma search_block_runs:
  fixes s t :: "'a ext2_scheme"
  assumes mt: "mounted s" and nm: "name_at s f nm" and d: "dir_block s b es" and r: "buf_ready s buf t"
    and sv: "serving th (spb s + (Suc (length es) + n)) {} t" and ok: "\<And>i. map_of es nm = Some i \<Longrightarrow> inode_ok s i"
    and P: "\<And>v. serving th n {} v \<Longrightarrow> buf_ready s buf v \<Longrightarrow> P (lookup_name es nm) v"
  shows "runs (ext2_read_block ideintr buf b) t (\<lambda>_ u. runs (ext2_read_from_directory ideintr f buf) u P)"
proof (rule read_block_buf [OF mt _ r sv])
  show "block_ok s b" using d by (simp add: dir_block_def)
  fix u assume u: "serving th (Suc (length es) + n) {} u" "buf_ready s buf u" "kmem u = put buf (fs_block s b) (kmem t)"
  have fu: "follows s u" and hb: "byte_range KERNEL_HEAP_MINBLOCK buf \<subseteq> heap_used u" using u(2) by (simp_all add: buf_ready_def)
  have du: "dir_at (kmem u) buf 0 es" by (rule dir_in_buf [OF mt u(2,3)]) (use d in \<open>simp add: dir_block_def\<close>)
  have oku: "inode_ok u i" if "map_of es nm = Some i" for i by (rule inode_follows(1) [OF mt fu ok [OF that]])
  from ext2_dir_loop_runs [OF u(1) mounted_follows [OF mt fu] hb du name_follows [OF nm fu] oku] obtain v where
    v: "ext2_dir_loop ideintr f (buf + of_nat 0) u = Some (Inr (lookup_name es nm, v))" "serving th n {} v" "follows u v" by blast
  have "kmem v (buf + of_nat i) = kmem u (buf + of_nat i)" if "i < 65536" for i
    using follows_bytes [OF v(3) hb, of i] that by (simp add: KERNEL_HEAP_MINBLOCK_def)
  then have "buf_ready s buf v" using u(2) follows_trans [OF fu v(3)] v(3) by (auto simp: buf_ready_def follows_def same_disk_def)
  moreover have "ext2_read_from_directory ideintr f buf u = Inr (lookup_name es nm, v)"
    using v(1) by (simp add: ext2_read_from_directory_def lift_loop_def)
  ultimately show "runs (ext2_read_from_directory ideintr f buf) u P" using P [OF v(2)] by (simp add: runs_def)
qed

lemma scan_root_runs:
  fixes s t :: "'a ext2_scheme"
  assumes mt: "mounted s" and nm: "name_at s f nm"
    and "root_from s j ds" "buf_ready s buf t" "serving th (scan_cost (spb s) ds + n) {} t"
    "\<And>i. map_of (entries ds) nm = Some i \<Longrightarrow> inode_ok s i"
  shows "runs (scan_root_blocks ideintr f buf [j..<12]) t (\<lambda>r u. r = lookup_name (entries ds) nm \<and> serving th n {} u \<and> follows s u)"
  using assms(3-6)
proof (induction ds arbitrary: j t)
  case Nil
  have f: "follows s t" using Nil.prems(2) by (simp add: buf_ready_def)
  then have "ext2_driver t = ext2_driver s" by (simp add: follows_def)
  then show ?case using Nil.prems f by (cases "j < 12") (simp_all add: runs_simps lookup_name_def entries_def upt_conv_Cons)
next
  case (Cons d ds)
  let ?es = "snd d"
  have "ext2_driver t = ext2_driver s" using Cons.prems(2) by (simp add: buf_ready_def follows_def)
  with Cons.prems(1) have d: "j < 12" "ino_blocks (root_inode (ext2_driver t)) j = fst d" "fst d \<noteq> 0" "dir_block s (fst d) ?es" "root_from s (Suc j) ds" by simp_all
  have sv: "serving th (spb s + (Suc (length ?es) + (scan_cost (spb s) ds + n))) {} t" using Cons.prems(3) by (simp add: add.assoc)
  have de: "dir_at (bytes_of (fs_block s (fst d))) 0 0 ?es" using d(4) by (simp add: dir_block_def)
  let ?Q = "\<lambda>r u. r = lookup_name (entries (d # ds)) nm \<and> serving th n {} u \<and> follows s u"
  have "runs (ext2_read_block ideintr buf (fst d)) t (\<lambda>_ u. runs (ext2_read_from_directory ideintr f buf) u
     (\<lambda>r v. runs (if r \<noteq> 0 then ret r else scan_root_blocks ideintr f buf [Suc j..<12]) v ?Q))"
  proof (rule search_block_runs [OF mt nm d(4) Cons.prems(2) sv])
    show "inode_ok s i" if "map_of ?es nm = Some i" for i by (rule Cons.prems(4)) (use that in \<open>simp add: entries_def map_add_def\<close>)
    fix v assume v: "serving th (scan_cost (spb s) ds + n) {} v" "buf_ready s buf v"
    have lk: "lookup_name (entries (d # ds)) nm = (if lookup_name ?es nm \<noteq> 0 then lookup_name ?es nm else lookup_name (entries ds) nm)"
      using lookup_append [OF de] by (simp add: entries_def)
    show "runs (if lookup_name ?es nm \<noteq> 0 then ret (lookup_name ?es nm) else scan_root_blocks ideintr f buf [Suc j..<12]) v ?Q"
    proof (cases "lookup_name ?es nm = 0")
      case True
      then have none: "map_of ?es nm = None" using dir_at_nonzero [OF de] by (auto simp: lookup_name_def dest: map_of_SomeD split: option.splits)
      have ok: "inode_ok s i" if "map_of (entries ds) nm = Some i" for i
        by (rule Cons.prems(4)) (use that none in \<open>simp add: entries_def map_add_def\<close>)
      show ?thesis using Cons.IH [OF d(5) v(2,1) ok] True by (simp add: lk)
    qed (use v in \<open>auto simp: runs_simps lk buf_ready_def intro: serving_mono\<close>)
  qed
  then show ?case using d(1-3) by (simp add: upt_conv_Cons runs_simps)
qed

text \<open>A fresh block of the heap is a buffer.\<close>

lemma fresh_zero:
  assumes z: "zeroed s" and t: "byte_range KERNEL_HEAP_MINBLOCK a \<inter> heap_used s = {}" "byte_range KERNEL_HEAP_MINBLOCK a \<subseteq> heap_used t" and n: "n < 65536"
  shows "kmem s (a + of_nat n) = 0"
proof -
  have i: "n < unat KERNEL_HEAP_MINBLOCK" using n by (simp add: KERNEL_HEAP_MINBLOCK_def)
  note u = byte_range_unat [OF t(2) i]
  have "unat (a + of_nat n) \<in> byte_range KERNEL_HEAP_MINBLOCK a" using i by (simp add: u(1) byte_range_def)
  then show ?thesis using z t(1) heap_used_inside [OF u(2)] by (auto simp: zeroed_def)
qed

lemma fresh_buffer:
  assumes z: "zeroed s" and t: "byte_range KERNEL_HEAP_MINBLOCK a \<inter> heap_used s = {}" "byte_range KERNEL_HEAP_MINBLOCK a \<subseteq> heap_used t" "kmem t = kmem s" "follows s t"
  shows "buf_ready s a t"
  using fresh_zero [OF z t(1,2)] t by (simp add: buf_ready_def)

definition root_dir :: "'a ext2_scheme \<Rightarrow> (u32 \<times> (u8 list \<times> u32) list) list \<Rightarrow> bool" where
  "root_dir s ds \<longleftrightarrow> ino_mode (root_inode (ext2_driver s)) AND 0xF000 = INODE_TYPE_DIRECTORY \<and> root_from s 0 ds
     \<and> (\<forall>e \<in> set (entries ds). inode_ok s (snd e))"

lemma root_from_follows: "follows s t \<Longrightarrow> root_from s j ds \<Longrightarrow> root_from t j ds"
  by (induction ds arbitrary: j) (simp_all add: dir_block_def follows_disk, simp_all add: follows_def)

lemma root_dir_follows: "mounted s \<Longrightarrow> follows s t \<Longrightarrow> root_dir s ds \<Longrightarrow> root_dir t ds"
  using root_from_follows [of s t 0 ds] inode_follows(1) [of s t] by (auto simp: root_dir_def follows_def)

lemma block_size_u64:
  assumes "geometry_ok s"
  shows "ucast (block_size (ext2_driver s)) \<le> KERNEL_HEAP_MINBLOCK" "ucast (block_size (ext2_driver s)) \<noteq> (0 :: u64)"
proof -
  have "unat (ucast (block_size (ext2_driver s)) :: u64) = 512 * spb s" by (simp add: unat_u32 geometry_spb(2) [OF assms])
  moreover have "spb s \<noteq> 0" by (simp add: geometry_spb(1) [OF assms])
  ultimately show "ucast (block_size (ext2_driver s)) \<le> KERNEL_HEAP_MINBLOCK" "ucast (block_size (ext2_driver s)) \<noteq> (0 :: u64)"
    using geometry_spb(3) [OF assms] by (auto simp: word_le_nat_alt KERNEL_HEAP_MINBLOCK_def simp flip: unat_eq_zero)
qed

lemma root_directory_runs:
  fixes s :: "'a ext2_scheme"
  assumes mt: "mounted s" and nm: "name_at s f nm" and z: "zeroed s" and rd: "root_dir s ds" and sv: "serving th (Suc (scan_cost (spb s) ds + n)) {} s"
  shows "runs (ext2_read_from_root_directory ideintr f) s (\<lambda>r u. r = lookup_name (entries ds) nm \<and> serving th n {} u \<and> follows s u)"
proof -
  let ?Q = "\<lambda>r u. r = lookup_name (entries ds) nm \<and> serving th n {} u \<and> follows s u"
  have g: "geometry_ok s" using mt by (simp add: mounted_def)
  have "runs (kalloc (ucast (block_size (ext2_driver s)))) s (\<lambda>buf t. runs (if buf = 0 then raise (Panic ''ext2_read_from_root_directory() --> kalloc() failure!.'')
     else scan_root_blocks ideintr f buf [0..<12]) t ?Q)"
  proof (rule kalloc_follows [OF sv block_size_u64 [OF g]])
    fix a t assume t: "a \<noteq> 0" "serving th (scan_cost (spb s) ds + n) {} t" "byte_range KERNEL_HEAP_MINBLOCK a \<inter> heap_used s = {}"
      "byte_range KERNEL_HEAP_MINBLOCK a \<subseteq> heap_used t" "kmem t = kmem s" "follows s t"
    have ok: "inode_ok s i" if "map_of (entries ds) nm = Some i" for i using rd map_of_SomeD [OF that] by (auto simp: root_dir_def)
    have "runs (scan_root_blocks ideintr f a [0..<12]) t ?Q"
      by (rule scan_root_runs [OF mt nm _ fresh_buffer [OF z t(3-6)] t(2) ok]) (use rd in \<open>simp add: root_dir_def\<close>)
    then show "runs (if a = 0 then raise (Panic ''ext2_read_from_root_directory() --> kalloc() failure!.'') else scan_root_blocks ideintr f a [0..<12]) t ?Q"
      using t(1) by simp
  qed
  then show ?thesis using rd unfolding ext2_read_from_root_directory_def runs_simps by (simp add: root_dir_def)
qed

section \<open>A path to an inode\<close>

text \<open>The file name behind the slash, as bytes.\<close>

definition file_name :: "string \<Rightarrow> bool" where
  "file_name p \<longleftrightarrow> p \<noteq> [] \<and> CHR ''/'' \<notin> set p \<and> CHR 0x00 \<notin> set p \<and> length p < 65000"

lemma of_char_u8_eq: "(of_char c :: u8) = of_char d \<longleftrightarrow> c = d"
proof
  assume "(of_char c :: u8) = of_char d"
  then have "unat (of_nat (of_char c) :: u8) = unat (of_nat (of_char d) :: u8)" by (simp only: of_nat_of_char)
  then have "(of_char c :: nat) = of_char d" by (simp add: unat_of_nat take_bit_eq_mod del: of_nat_of_char)
  then show "c = d" by simp
qed simp

lemma file_name_bytes:
  assumes "file_name p"
  shows "0 \<notin> set (map of_char p :: u8 list)" "of_char CHR ''/'' \<notin> set (map of_char p :: u8 list)"
proof -
  have i: "of_char c \<notin> set (map of_char p :: u8 list)" if "c \<notin> set p" for c
    using that by (auto simp only: set_map of_char_u8_eq image_iff)
  have z: "(of_char CHR 0x00 :: u8) = 0" by simp
  from i [of "CHR 0x00"] assms show "0 \<notin> set (map of_char p :: u8 list)" by (simp only: file_name_def z simp_thms)
  from i [of "CHR ''/''"] assms show "of_char CHR ''/'' \<notin> set (map of_char p :: u8 list)" by (simp only: file_name_def simp_thms)
qed

text \<open>The copy of the path, cut at its slash: an empty string and the name.\<close>

lemma path_split:
  assumes p: "0 \<notin> set nm" "of_char CHR ''/'' \<notin> set nm" "length nm < 65000"
  shows "strsplit a (of_char CHR ''/'') 0 0 (put a (of_char CHR ''/'' # nm @ [0]) m) = Some (2, put a (0 # nm @ [0]) m)"
    "cstr (put a (0 # nm @ [0]) m) (a + 1) nm"
proof -
  let ?m = "put a (of_char CHR ''/'' # nm @ [0]) m"
  have c: "?m a = of_char CHR ''/''" "(of_char CHR ''/'' :: u8) \<noteq> 0" by (simp_all add: put_def)
  have u: "?m(a := 0) = put a (0 # nm @ [0]) m"
  proof
    fix x
    have "x \<noteq> a \<Longrightarrow> unat (x - a) \<noteq> 0" by (metis right_minus_eq unat_eq_zero)
    then show "(?m(a := 0)) x = put a (0 # nm @ [0]) m x"
      by (cases "x = a") (auto simp: put_def nth_Cons simp del: of_char_Char split: nat.splits)
  qed
  have "put a (0 # nm @ [0]) m = put (a + 1) (nm @ [0]) (put a [0] m)" using put_append [of "[0]" "nm @ [0]" a m] p(3) by simp
  then show s: "cstr (put a (0 # nm @ [0]) m) (a + 1) nm" using cstr_put [OF p(1)] p(3) by simp
  have "strsplit a (of_char CHR ''/'') 0 0 ?m = strsplit a (of_char CHR ''/'') 1 1 (?m(a := 0))"
    by (subst strsplit.simps) (use c in \<open>simp add: Let_def\<close>)
  also have "\<dots> = Some (2, put a (0 # nm @ [0]) m)" unfolding u using strsplit_plain [of _ a 1 nm, OF _ p(2)] s by simp
  finally show "strsplit a (of_char CHR ''/'') 0 0 ?m = Some (2, put a (0 # nm @ [0]) m)" .
qed

definition found :: "'a ext2_scheme \<Rightarrow> (u8 list \<times> u32) list \<Rightarrow> u8 list \<Rightarrow> u32 \<times> ext2_inode_t option" where
  "found s es nm = (case map_of es nm of None \<Rightarrow> (UINT32_MAX, None) | Some i \<Rightarrow> (0, Some (disk_inode s i)))"

lemma entries_nonzero: "root_from s j ds \<Longrightarrow> (x, i) \<in> set (entries ds) \<Longrightarrow> i \<noteq> 0"
  by (induction ds arbitrary: j) (auto simp: entries_def dir_block_def dest: dir_at_nonzero)

text \<open>The last part of \<open>ext2_find_file_inode\<close>, for a name without directories.\<close>

lemma find_tail_runs:
  fixes s t :: "'a ext2_scheme"
  assumes mt: "mounted s" and rd: "root_dir s ds" and f: "follows s t" and sv: "serving th (Suc n) {} t" and og: "\<not> outside_heap og"
  shows "runs (if lookup_name (entries ds) nm = 0 then ret (UINT32_MAX, None)
       else seqn (kfree og) (bnd (ext2_read_inode ideintr (lookup_name (entries ds) nm)) (\<lambda>inode. ret (0, Some inode)))) t
     (\<lambda>r u. r = found s (entries ds) nm \<and> serving th n {} u \<and> follows s u)"
proof (cases "map_of (entries ds) nm")
  case None
  then show ?thesis using f sv by (auto simp: lookup_name_def found_def runs_simps intro: serving_mono)
next
  case (Some i)
  have "(nm, i) \<in> set (entries ds)" using map_of_SomeD [OF Some] .
  then have i: "i \<noteq> 0" "inode_ok s i" using rd entries_nonzero [of s 0 ds nm i] by (auto simp: root_dir_def)
  have "runs (kfree og) t (\<lambda>_ u. runs (ext2_read_inode ideintr i) u (\<lambda>inode v. (0, Some inode) = (0, Some (disk_inode s i)) \<and> serving th n {} v \<and> follows s v))"
  proof (rule kfree_follows [OF sv _ og])
    show "in_use (heap_tree t 0)" using mounted_follows [OF mt f] by (simp add: mounted_def)
    fix u assume u: "serving th (Suc n) {} u" "follows t u"
    have fu: "follows s u" by (rule follows_trans [OF f u(2)])
    show "runs (ext2_read_inode ideintr i) u (\<lambda>inode v. (0, Some inode) = (0, Some (disk_inode s i)) \<and> serving th n {} v \<and> follows s v)"
      by (rule ext2_read_inode_runs [OF u(1) mounted_follows [OF mt fu] inode_follows(1) [OF mt fu i(2)]])
         (use inode_follows(2) [OF mt fu i(2)] follows_trans [OF fu] in auto)
  qed
  then show ?thesis using i(1) by (simp add: Some lookup_name_def found_def runs_simps)
qed

text \<open>The copy of the path is a name in memory.\<close>

lemma path_name:
  assumes u: "byte_range KERNEL_HEAP_MINBLOCK a \<subseteq> heap_used u" "a \<noteq> 0" and nm: "0 \<notin> set nm" "of_char CHR ''/'' \<notin> set nm" "length nm < 65000"
  shows "name_at (u\<lparr>kmem := put a (0 # nm @ [0]) m\<rparr>) (a + 1) nm"
proof -
  have M: "unat KERNEL_HEAP_MINBLOCK = 65536" by (simp add: KERNEL_HEAP_MINBLOCK_def)
  have "unat (a + of_nat (i + 1)) \<in> heap_used u" if "i \<le> length nm" for i by (rule byte_range_unat(2) [OF u(1)]) (use that nm(3) M in linarith)
  then have h: "unat (a + 1 + of_nat i) \<in> heap_used u" if "i \<le> length nm" for i using that by (simp add: algebra_simps)
  have "unat (a + 1) = unat a + 1" using byte_range_unat(1) [OF u(1), of 1] by (simp add: M)
  then have "a + 1 \<noteq> 0" by auto
  then show ?thesis using path_split(2) [OF nm] h by (simp add: name_at_def heap_used_def)
qed

lemma path_length:
  assumes "k < 65500"
  shows "unat (of_nat k :: u32) = k" "ucast (of_nat k :: u32) = (of_nat k :: u64)"
    "ucast (of_nat k + 1 :: u32) \<le> KERNEL_HEAP_MINBLOCK" "ucast (of_nat k + 1 :: u32) \<noteq> (0 :: u64)"
proof -
  show u: "unat (of_nat k :: u32) = k" using assms by (simp add: unat_of_nat take_bit_nat_eq_self)
  then show "ucast (of_nat k :: u32) = (of_nat k :: u64)" by (metis of_nat_unat)
  have "unat (ucast (of_nat k + 1 :: u32) :: u64) = k + 1" using assms u by (simp add: unat_u32 unat_word_ariths)
  then show "ucast (of_nat k + 1 :: u32) \<le> KERNEL_HEAP_MINBLOCK" "ucast (of_nat k + 1 :: u32) \<noteq> (0 :: u64)"
    using assms by (auto simp: word_le_nat_alt KERNEL_HEAP_MINBLOCK_def)
qed

lemma find_from_root_runs:
  fixes s v :: "'a ext2_scheme"
  assumes mt: "mounted s" and z: "zeroed s" and rd: "root_dir s ds" and fv: "follows s v" and nv: "name_at v (og + 1) nm" and og: "\<not> outside_heap og"
    and sv: "serving th (Suc (scan_cost (spb s) ds + Suc n)) {} v"
  shows "runs (find_from_root ideintr og 2) v (\<lambda>r t. r = found s (entries ds) nm \<and> serving th n {} t \<and> follows s t)"
proof -
  let ?Q = "\<lambda>r t. r = found s (entries ds) nm \<and> serving th n {} t \<and> follows s t"
  let ?tail = "\<lambda>r. if r = 0 then ret (UINT32_MAX, None) else seqn (kfree og) (bnd (ext2_read_inode ideintr r) (\<lambda>inode. ret (0, Some inode)))"
  have "runs (ext2_read_from_root_directory ideintr (og + 1)) v (\<lambda>r w. r = lookup_name (entries ds) nm \<and> serving th (Suc n) {} w \<and> follows v w)"
    by (rule root_directory_runs [OF mounted_follows [OF mt fv] nv zeroed_follows [OF z fv] root_dir_follows [OF mt fv rd]])
       (use sv follows_disk(1) [OF fv] in simp)
  then have "runs (ext2_read_from_root_directory ideintr (og + 1)) v (\<lambda>r w. runs (c_strlen (og + 1)) w (\<lambda>l w. runs (?tail r) w ?Q))"
  proof (rule runs_mono)
    fix r w assume w: "r = lookup_name (entries ds) nm \<and> serving th (Suc n) {} w \<and> follows v w"
    have fw: "follows s w" using follows_trans [OF fv] w by blast
    have "cstr (kmem w) (og + 1) nm" using name_follows [OF nv] w by (auto simp: name_at_def)
    then have "strlen (kmem w) (og + 1) 0 = Some (of_nat (length nm))" using strlen_cstr [of "kmem w" "og + 1" 0 nm] by simp
    moreover have r: "r = lookup_name (entries ds) nm" using w by blast
    have "runs (?tail r) w ?Q" unfolding r by (rule find_tail_runs [OF mt rd fw _ og]) (use w in simp)
    ultimately show "runs (c_strlen (og + 1)) w (\<lambda>l w. runs (?tail r) w ?Q)"
      unfolding c_strlen_def runs_simps(1,4) by (simp only: option.case runs_simps(3))
  qed
  moreover have "of_nat 2 - 1 \<le> (1 :: u32)" by simp
  ultimately show ?thesis unfolding find_from_root_def Let_def runs_simps(1) by (simp only: if_True)
qed

lemma find_root_file_runs:
  fixes s :: "'a ext2_scheme"
  assumes mt: "mounted s" and z: "zeroed s" and rd: "root_dir s ds" and p: "file_name p"
    and sv: "serving th (Suc (Suc (scan_cost (spb s) ds + Suc n))) {} s"
  shows "runs (ext2_find_file_inode ideintr (CHR ''/'' # p)) s (\<lambda>r t. r = found s (entries ds) (map of_char p) \<and> serving th n {} t \<and> follows s t)"
proof -
  let ?nm = "map of_char p :: u8 list" and ?path = "CHR ''/'' # p"
  let ?len = "of_nat (length ?path) :: u32"
  let ?Q = "\<lambda>r t. r = found s (entries ds) ?nm \<and> serving th n {} t \<and> follows s t"
  let ?copy = "\<lambda>og. if og = 0 then raise (Panic ''ext2_find_file_inode() --> kalloc() failure!'')
     else seqn (to_kmem og (map of_char (take (unat ?len) ?path))) (seqn (to_kmem (og + ucast ?len) [0]) (bnd (c_strsplit og (of_char CHR ''/'')) (find_from_root ideintr og)))"
  have l: "length p < 65000" "p \<noteq> []" using p by (simp_all add: file_name_def)
  then have "length ?path < 65500" by simp
  note L = path_length [OF this] and B = file_name_bytes [OF p]
  have "runs (kalloc (ucast (?len + 1))) s (\<lambda>og t. runs (?copy og) t ?Q)"
  proof (rule kalloc_follows [OF sv L(3,4)])
    fix og u assume u: "og \<noteq> 0" "\<not> outside_heap og" "serving th (Suc (scan_cost (spb s) ds + Suc n)) {} u"
      "byte_range KERNEL_HEAP_MINBLOCK og \<inter> heap_used s = {}" "byte_range KERNEL_HEAP_MINBLOCK og \<subseteq> heap_used u" "kmem u = kmem s" "follows s u"
    let ?v = "u\<lparr>kmem := put og (0 # ?nm @ [0]) (kmem s)\<rparr>"
    have m: "put (og + ucast ?len) [0] (put og (map of_char (take (unat ?len) ?path)) (kmem s)) = put og (of_char CHR ''/'' # ?nm @ [0]) (kmem s)"
      using put_append [of "map of_char ?path" "[0]" og "kmem s"] l(1) unfolding L(1,2) by (simp del: of_char_Char)
    have nv: "name_at ?v (og + 1) ?nm" using path_name [OF u(5,1) B] l(1) by simp
    have fv: "follows s ?v"
      by (rule follows_put [OF u(7,5,4), where bs = "0 # ?nm @ [0]"]) (use l(1) same_disk_refl u(6) in simp_all)
    have "runs (find_from_root ideintr og 2) ?v ?Q" by (rule find_from_root_runs [OF mt z rd fv nv u(2)]) (use u(3) in simp)
    then show "runs (?copy og) u ?Q"
      using u(1) path_split(1) [OF B, of og "kmem s"] l(1)
      by (simp add: to_kmem_def c_strsplit_def runs_simps u(6) m del: of_char_Char take_Suc_Cons of_nat_Suc list.map list.size(4))
  qed
  then show ?thesis unfolding ext2_find_file_inode_def using l(2) by (simp only: runs_simps Let_def list.simps simp_thms if_False)
qed

section \<open>The bytes of a file\<close>

fun direct_from :: "'a ext2_scheme \<Rightarrow> ext2_inode_t \<Rightarrow> nat \<Rightarrow> u32 list \<Rightarrow> bool" where
  "direct_from s inode j [] \<longleftrightarrow> (j < 12 \<longrightarrow> ino_blocks inode j = 0)"
| "direct_from s inode j (b # bs) \<longleftrightarrow> j < 12 \<and> ino_blocks inode j = b \<and> b \<noteq> 0 \<and> block_ok s b \<and> direct_from s inode (Suc j) bs"

definition contents :: "'a ext2_scheme \<Rightarrow> u32 list \<Rightarrow> u8 list" where
  "contents s bs = concat (map (fs_block s) bs)"

lemma length_contents: "mounted s \<Longrightarrow> length (contents s bs) = 512 * spb s * length bs"
  unfolding contents_def by (rule length_concat_const) (simp add: mounted_def length_fs_block)

lemma read_direct_runs:
  fixes s t u :: "'a ext2_scheme"
  assumes mt: "mounted s" and u: "follows s u" "byte_range KERNEL_HEAP_MINBLOCK buf \<subseteq> heap_used u" "byte_range KERNEL_HEAP_MINBLOCK buf \<inter> heap_used s = {}"
    and bs: "direct_from s inode j bs" "j \<le> 12" and len: "length pre + 512 * spb s * length bs \<le> 65536"
    and t: "kmem t = put buf pre (kmem u)" "ext2_driver t = ext2_driver u" "same_disk u t" and sv: "serving th (n + spb s * length bs) {} t"
    and P: "\<And>off v. serving th n {} v \<Longrightarrow> kmem v = put buf (pre @ contents s bs) (kmem u) \<Longrightarrow> ext2_driver v = ext2_driver u \<Longrightarrow> same_disk u v
       \<Longrightarrow> P (j + length bs = 12, off) v"
  shows "runs (read_direct_blocks ideintr inode buf (of_nat (length pre)) [j..<12]) t P"
  using bs len t sv P
proof (induction bs arbitrary: j pre t)
  case Nil
  show ?case
  proof (cases "j < 12")
    case True
    then show ?thesis using Nil.prems by (simp add: upt_conv_Cons runs_simps contents_def)
  next
    case False
    then show ?thesis using Nil.prems by (simp add: runs_simps contents_def)
  qed
next
  case (Cons b bs)
  have E: "spb t = spb s" "fs_block t b = fs_block s b" "block_ok t b"
    using Cons.prems(1,5,6) follows_disk [OF u(1)] by (simp_all add: spb_def fs_block_def block_ok_def same_disk_def)
  have "follows s t" by (rule follows_put [OF u _ Cons.prems(4-6)]) (use Cons.prems(3) in linarith)
  then have g: "geometry_ok t" "sectors_ok t" using mounted_follows [OF mt] by (simp_all add: mounted_def)
  let ?rest = "\<lambda>off. read_direct_blocks ideintr inode buf off [Suc j..<12]"
  have "runs (ext2_read_block ideintr (buf + of_nat (length pre)) b) t (\<lambda>_ v. runs (?rest (of_nat (length pre) + ucast (block_size (ext2_driver v)))) v P)"
  proof (rule ext2_read_block_runs [OF _ g(2,1) E(3)])
    show "serving th (n + spb s * length bs + spb t) {} t" using Cons.prems(7) by (simp add: E(1) algebra_simps)
    fix v assume v: "serving th (n + spb s * length bs) {} v" "kmem v = put (buf + of_nat (length pre)) (fs_block t b) (kmem t)"
      "ext2_driver v = ext2_driver t" "same_disk t v"
    let ?pre = "pre @ fs_block s b"
    have lb: "length (fs_block s b) = 512 * spb s" using mt length_fs_block by (auto simp: mounted_def)
    have "spb s \<noteq> 0" using mt geometry_spb(1) [of s] by (simp add: mounted_def)
    note lb = lb this
    have pl: "length ?pre + 512 * spb s * length bs \<le> 65536" using Cons.prems(3) lb(1) by (simp add: algebra_simps)
    have kv: "kmem v = put buf ?pre (kmem u)"
      using put_append [of pre "fs_block s b" buf "kmem u"] Cons.prems(3,4) lb by (simp add: v(2) E(2))
    have "of_nat (length pre) + ucast (block_size (ext2_driver v)) = (of_nat (length ?pre) :: u64)"
    proof -
      have "ucast (block_size (ext2_driver v)) = (of_nat (512 * spb s) :: u64)"
        using geometry_spb(2) [OF g(1)] by (simp add: v(3) E(1)) (metis of_nat_unat of_nat_mult of_nat_numeral)
      then show ?thesis by (simp add: lb(1))
    qed
    moreover have "runs (?rest (of_nat (length ?pre))) v P"
      by (rule Cons.IH [OF _ _ pl kv]) (use Cons.prems v same_disk_trans in \<open>auto simp: contents_def\<close>)
    ultimately show "runs (?rest (of_nat (length pre) + ucast (block_size (ext2_driver v)))) v P" by simp
  qed
  then show ?case using Cons.prems(1) by (simp add: upt_conv_Cons runs_simps)
qed

definition small_file :: "'a ext2_scheme \<Rightarrow> ext2_inode_t \<Rightarrow> u32 list \<Rightarrow> bool" where
  "small_file s inode bs \<longleftrightarrow> ino_mode inode AND 0xF000 = INODE_TYPE_FILE \<and> direct_from s inode 0 bs \<and> ino_blocks inode 12 = 0 \<and> ino_blocks inode 13 = 0
     \<and> ino_size inode \<noteq> 0 \<and> unat (ino_size inode) \<le> 512 * spb s * length bs \<and> 512 * spb s * length bs \<le> 65536"

definition holds_file :: "'a ext2_scheme \<Rightarrow> u8 list \<Rightarrow> u64 \<Rightarrow> 'a ext2_scheme \<Rightarrow> bool" where
  "holds_file s cs a t \<longleftrightarrow> a \<noteq> 0 \<and> byte_range KERNEL_HEAP_MINBLOCK a \<inter> heap_used s = {} \<and> byte_range KERNEL_HEAP_MINBLOCK a \<subseteq> heap_used t
     \<and> bytes_at (kmem t) a (length cs) = cs"

lemma bytes_put: "length cs \<le> 2 ^ 63 \<Longrightarrow> bytes_at (put a cs m) a (length cs) = cs"
  by (rule nth_equalityI) (simp_all add: put_def unat_of_nat take_bit_nat_eq_self)

lemma read_small_file_runs:
  fixes s u :: "'a ext2_scheme"
  assumes mt: "mounted s" and f: "follows s u" and sf: "small_file s inode bs" and sv: "serving th (Suc (n + spb s * length bs)) {} u"
  shows "runs (bnd (kalloc (ucast (ino_size inode))) (\<lambda>ret_buf.
     if ret_buf = 0 then raise (Panic ''ext2_read_file() --> kalloc() failure!'')
     else read_file_blocks ideintr inode ret_buf)) u (\<lambda>a t. holds_file s (contents s bs) a t \<and> serving th n {} t \<and> follows s t)"
  unfolding runs_simps(1)
proof (rule kalloc_follows [OF sv])
  have sz: "unat (ucast (ino_size inode) :: u64) \<le> 65536" using sf by (simp add: small_file_def unat_u32)
  then show "ucast (ino_size inode) \<le> KERNEL_HEAP_MINBLOCK" by (simp add: word_le_nat_alt KERNEL_HEAP_MINBLOCK_def)
  have "unat (ucast (ino_size inode) :: u64) \<noteq> 0" using sf by (simp only: small_file_def unat_u32 unat_eq_zero simp_thms)
  then show "ucast (ino_size inode) \<noteq> (0 :: u64)" by (metis unsigned_0)
  fix a t assume t: "a \<noteq> 0" "serving th (n + spb s * length bs) {} t" "byte_range KERNEL_HEAP_MINBLOCK a \<inter> heap_used u = {}"
    "byte_range KERNEL_HEAP_MINBLOCK a \<subseteq> heap_used t" "follows u t"
  have ft: "follows s t" by (rule follows_trans [OF f t(5)])
  have fresh: "byte_range KERNEL_HEAP_MINBLOCK a \<inter> heap_used s = {}" using t(3) f by (auto simp: follows_def same_disk_def)
  let ?cs = "contents s bs"
  have l: "length ?cs \<le> 65536" using sf length_contents [OF mt, of bs] by (simp add: small_file_def)
  let ?Q = "\<lambda>a t. holds_file s ?cs a t \<and> serving th n {} t \<and> follows s t"
  have Q: "?Q a v" if v: "serving th n {} v" "kmem v = put a ([] @ ?cs) (kmem t)" "ext2_driver v = ext2_driver t" "same_disk t v" for v
  proof -
    have "bytes_at (kmem v) a (length ?cs) = ?cs" using bytes_put [of ?cs a "kmem t"] l v(2) by simp
    moreover have "follows s v" by (rule follows_put [OF ft t(4) fresh l _ v(3,4)]) (use v(2) in simp)
    ultimately show ?thesis using v t(1,4) fresh by (auto simp: holds_file_def same_disk_def)
  qed
  have "runs (read_direct_blocks ideintr inode a (of_nat (length ([] :: u8 list))) [0..<12]) t (\<lambda>r v. ?Q a v)"
    by (rule read_direct_runs [OF mt ft t(4) fresh, where bs = bs and n = n and th = th]) (use sf t(2) same_disk_refl Q in \<open>auto simp: small_file_def\<close>)
  then have "runs (read_direct_blocks ideintr inode a 0 [0..<12]) t (\<lambda>r v. ?Q a v)" by simp
  then show "runs (if a = 0 then raise (Panic ''ext2_read_file() --> kalloc() failure!'')
     else read_file_blocks ideintr inode a) t ?Q"
    using sf t(1) by (simp add: read_file_blocks_def runs_simps small_file_def) (erule runs_mono, auto simp: runs_simps)
qed

lemma ext2_read_file_runs:
  fixes s :: "'a ext2_scheme"
  assumes mt: "mounted s" and z: "zeroed s" and rd: "root_dir s ds" and p: "file_name p" and i: "map_of (entries ds) (map of_char p) = Some i"
    and sf: "small_file s (disk_inode s i) bs" and ex: "\<not> extended_fields_available (ext2_driver s)"
    and sv: "serving th (Suc (Suc (scan_cost (spb s) ds + Suc (Suc (n + spb s * length bs))))) {} s"
  shows "runs (ext2_read_file ideintr (CHR ''/'' # p)) s (\<lambda>a t. holds_file s (contents s bs) a t \<and> serving th n {} t \<and> follows s t)"
  unfolding ext2_read_file_def runs_simps(1)
proof (rule runs_mono [OF find_root_file_runs [OF mt z rd p sv]], elim conjE)
  fix r u assume r: "r = found s (entries ds) (map of_char p)" and u: "serving th (Suc (n + spb s * length bs)) {} u" "follows s u"
  let ?i = "disk_inode s i"
  have rr: "r = (0, Some ?i)" using i by (simp add: r found_def)
  have nz: "(0 :: u32) \<noteq> UINT32_MAX" by simp
  have "\<not> extended_fields_available (ext2_driver u)" using ex u(2) by (simp add: follows_def)
  moreover have "ino_mode ?i AND 0xF000 = INODE_TYPE_FILE" using sf by (simp add: small_file_def)
  ultimately show "runs (if fst r = UINT32_MAX then ret 0 else bnd (found_inode r) (\<lambda>inode.
       if ino_mode inode AND 0xF000 \<noteq> INODE_TYPE_FILE \<and> ino_mode inode AND 0xF000 \<noteq> INODE_TYPE_DIRECTORY
       then ext2_read_dir ideintr (CHR ''/'' # p)
       else bnd (bnd (ext2_get_file_size inode) kalloc) (\<lambda>ret_buf.
         if ret_buf = 0 then raise (Panic ''ext2_read_file() --> kalloc() failure!'')
         else read_file_blocks ideintr inode ret_buf))) u (\<lambda>a t. holds_file s (contents s bs) a t \<and> serving th n {} t \<and> follows s t)"
    using read_small_file_runs [OF mt u(2) sf u(1)] nz unfolding rr found_inode_def ext2_get_file_size_def
    by (simp only: fst_conv snd_conv option.case runs_simps if_True if_False simp_thms)
qed

end
