(* ===== verification/Ext2_Mount.thy ===== *)
theory Ext2_Mount
  imports Ext2_Files
begin

text \<open>
  Mounting (fs/ext2.c, \<open>ext2_driver_init\<close>): from a disk that holds an ext2 file system to a driver whose data agree with
  it. \<open>fs_view s\<close> is the file system as the disk has it, with the image of the disk as memory; the driver of a
  mounted file system has the same parameters, inodes and directories.
\<close>

section \<open>The root directory is read once\<close>

lemma probe_root_runs:
  fixes s t :: "'a ext2_scheme"
  assumes mt: "mounted s" and nm: "name_at s f nm" and "root_from s j ds" "buf_ready s buf t" "serving th (scan_cost (spb s) ds + n) {} t"
    "\<And>e. e \<in> set (entries ds) \<Longrightarrow> inode_ok s (snd e)"
  shows "runs (probe_root_blocks ideintr f buf [j..<12]) t (\<lambda>_ u. serving th n {} u \<and> follows s u)"
  using assms(3-6)
proof (induction ds arbitrary: j t)
  case Nil
  have f: "follows s t" using Nil.prems(2) by (simp add: buf_ready_def)
  then have "ext2_driver t = ext2_driver s" by (simp add: follows_def)
  then show ?case using Nil.prems f by (cases "j < 12") (simp_all add: runs_simps entries_def upt_conv_Cons)
next
  case (Cons d ds)
  have "ext2_driver t = ext2_driver s" using Cons.prems(2) by (simp add: buf_ready_def follows_def)
  with Cons.prems(1) have d: "j < 12" "ino_blocks (root_inode (ext2_driver t)) j = fst d" "fst d \<noteq> 0" "dir_block s (fst d) (snd d)" "root_from s (Suc j) ds" by simp_all
  have sv: "serving th (spb s + (Suc (length (snd d)) + (scan_cost (spb s) ds + n))) {} t" using Cons.prems(3) by (simp add: add.assoc)
  have "runs (ext2_read_block ideintr buf (fst d)) t (\<lambda>_ u. runs (ext2_read_from_directory ideintr f buf) u
     (\<lambda>_ v. runs (probe_root_blocks ideintr f buf [Suc j..<12]) v (\<lambda>_ u. serving th n {} u \<and> follows s u)))"
  proof (rule search_block_runs [OF mt nm d(4) Cons.prems(2) sv])
    show "inode_ok s i" if "map_of (snd d) nm = Some i" for i
      using Cons.prems(4) [of "(nm, i)"] map_of_SomeD [OF that] by (auto simp: entries_def)
    fix v assume v: "serving th (scan_cost (spb s) ds + n) {} v" "buf_ready s buf v"
    show "runs (probe_root_blocks ideintr f buf [Suc j..<12]) v (\<lambda>_ u. serving th n {} u \<and> follows s u)"
      by (rule Cons.IH [OF d(5) v(2,1)]) (rule Cons.prems(4), simp add: entries_def)
  qed
  then show ?case using d(1-3) by (simp add: upt_conv_Cons runs_simps)
qed

section \<open>The superblock\<close>

text \<open>Memory changes only in blocks that are allocated on the way; the data of the driver may change.\<close>

definition grows :: "'a ext2_scheme \<Rightarrow> 'a ext2_scheme \<Rightarrow> bool" where
  "grows s t \<longleftrightarrow> same_disk s t \<and> (\<forall>x. kmem t x \<noteq> kmem s x \<longrightarrow> unat x \<in> heap_used t \<and> unat x \<notin> heap_used s)"

lemma follows_grows: "follows s t \<longleftrightarrow> ext2_driver t = ext2_driver s \<and> grows s t"
  by (auto simp: follows_def grows_def)

lemma grows_trans: "grows s t \<Longrightarrow> grows t u \<Longrightarrow> grows s u"
  unfolding grows_def using same_disk_trans [of s t u] by (auto simp: same_disk_def) (metis subsetD)+

lemma zeroed_grows: "zeroed s \<Longrightarrow> grows s t \<Longrightarrow> zeroed t"
  unfolding zeroed_def grows_def same_disk_def by (metis subsetD)


lemma serving_drv [simp]: "serving th n H (upd_drv g s) = serving th n H s" "same_disk s (upd_drv g t) = same_disk s t" "same_disk (upd_drv g s) t = same_disk s t"
  "kmem (upd_drv g s) = kmem s" "ext2_driver (upd_drv g s) = g (ext2_driver s)" "heap_used (upd_drv g s) = heap_used s" "heap_tree (upd_drv g s) = heap_tree s"
  "bufs (upd_drv g s) = bufs s" "ide (upd_drv g s) = ide s" "bcache_va (upd_drv g s) = bcache_va s"
  by (simp_all add: upd_drv_def serving_def same_disk_def cpu_holds_def registered_def disk_inv_def kheap_inv_def queue_ok_def dll_queue_def request_ok_def
      heap_used_def buf_va_def buf_lock_def)

lemma name_grows:
  fixes s t :: "'a ext2_scheme"
  assumes "name_at s f nm" "grows s t"
  shows "name_at t f nm"
proof -
  have "follows s (upd_drv (\<lambda>_. ext2_driver s) t)" using assms(2) by (auto simp: follows_grows grows_def)
  from name_follows [OF assms(1) this] show ?thesis by (simp add: name_at_def)
qed

definition sb_bytes :: "'a bio_scheme \<Rightarrow> u8 list" where
  "sb_bytes s = sectors (ide s) False 2050 @ sectors (ide s) False 2051"

lemma length_sb_bytes: "sectors_ok s \<Longrightarrow> length (sb_bytes s) = 1024"
  by (simp add: sb_bytes_def sectors_ok_def)

lemma magic_first_sector:
  assumes "sectors_ok s"
  shows "sb_ext2_magic (superblock_at (bytes_of (sectors (ide s) False 2050)) 0) = sb_ext2_magic (superblock_at (bytes_of (sb_bytes s)) 0)"
proof -
  have "bytes_of (sectors (ide s) False 2050) (56 + of_nat i) = bytes_of (sb_bytes s) (56 + of_nat i)" if "i < 2" for i
    using assms that by (auto simp: less_2_cases_iff bytes_of_def put_def sb_bytes_def sectors_ok_def nth_append)
  from le_bytes_cong [where m = "bytes_of (sectors (ide s) False 2050)" and m' = "bytes_of (sb_bytes s)", OF this] show ?thesis
    by (simp add: superblock_at_def)
qed

text \<open>Both halves are copied, then both buffers are given back.\<close>

lemma copy_superblock_runs:
  fixes s v :: "'a ext2_scheme"
  assumes so: "sectors_ok s" and v: "serving th n {b2, b} v" "b_data (bufs v b) = sectors (ide s) False 2050" "b_data (bufs v b2) = sectors (ide s) False 2051" "b2 \<noteq> b"
    and P: "\<And>t. serving th n {} t \<Longrightarrow> kmem t = put p (sb_bytes s) (kmem v) \<Longrightarrow> ext2_driver t = ext2_driver v \<Longrightarrow> same_disk v t \<Longrightarrow> P () t"
  shows "runs (seqn (bnd (gets (\<lambda>s. b_data (bufs s b))) (to_kmem p)) (seqn (bnd (gets (\<lambda>s. b_data (bufs s b2))) (to_kmem (p + 512))) (seqn (brelse b) (brelse b2)))) v P"
proof -
  let ?w = "v\<lparr>kmem := put p (sb_bytes s) (kmem v)\<rparr>"
  have m: "put (p + 512) (sectors (ide s) False 2051) (put p (sectors (ide s) False 2050) (kmem v)) = put p (sb_bytes s) (kmem v)"
  proof -
    have l: "length (sectors (ide s) False k) = 512" for k using so by (simp add: sectors_ok_def)
    show ?thesis using put_append [of "sectors (ide s) False 2050" "sectors (ide s) False 2051" p "kmem v"] l [of 2051] by (simp add: l sb_bytes_def del: length_0_conv)
  qed
  have "runs (brelse b) ?w (\<lambda>_ t. runs (brelse b2) t P)"
  proof (rule brelse_serving)
    show "serving th n (insert b {b2}) ?w" using v(1) by (simp add: insert_commute)
    fix t assume t: "serving th n {b2} t" "same_disk ?w t" "bio.more t = bio.more ?w"
    show "runs (brelse b2) t P"
    proof (rule brelse_serving [OF t(1)])
      fix u assume u: "serving th n {} u" "same_disk t u" "bio.more u = bio.more t"
      have "same_disk v u" using same_disk_trans [OF t(2) u(2)] by simp
      then show "P () u" by (intro P [OF u(1)]) (use bio_more_ext2 [OF t(3)] bio_more_ext2 [OF u(3)] in simp_all)
    qed simp
  qed (use v(4) in simp)
  then show ?thesis by (simp add: runs_simps to_kmem_def v(2,3) m)
qed

lemma load_superblock_runs:
  fixes s :: "'a ext2_scheme"
  assumes sv: "serving th (Suc (Suc (Suc n))) {} s" and so: "sectors_ok s" and mg: "sb_ext2_magic (superblock_at (bytes_of (sb_bytes s)) 0) = EXT2_SIGNATURE"
    and P: "\<And>p t. serving th n {} t \<Longrightarrow> byte_range KERNEL_HEAP_MINBLOCK p \<inter> heap_used s = {} \<Longrightarrow> byte_range KERNEL_HEAP_MINBLOCK p \<subseteq> heap_used t
       \<Longrightarrow> in_use (heap_tree t 0) \<Longrightarrow> kmem t = put p (sb_bytes s) (kmem s) \<Longrightarrow> ext2_driver t = (ext2_driver s)\<lparr>superblock := p\<rparr> \<Longrightarrow> same_disk s t \<Longrightarrow> P () t"
  shows "runs (load_superblock ideintr) s P"
  unfolding load_superblock_def runs_simps
proof (rule bread_serving [OF sv])
  let ?copy = "\<lambda>b b2 p. seqn (bnd (gets (\<lambda>s. b_data (bufs s b))) (to_kmem p)) (seqn (bnd (gets (\<lambda>s. b_data (bufs s b2))) (to_kmem (p + 512))) (seqn (brelse b) (brelse b2)))"
  let ?load = "\<lambda>b b2 p. if p = 0 then raise (Panic ''ext2_driver_init() --> kalloc() failure for superblock!'') else ?copy b b2 p"
  show "SUPERBLOCK_SECTOR < FSSIZE" by (simp add: SUPERBLOCK_SECTOR_def DEVICE_START_def FSSIZE_def)
  show "card ({} :: nat set) < NBUF" by (simp add: NBUF_def)
  fix b t assume t: "serving th (Suc (Suc n)) {b} t" "b_data (bufs t b) = sectors (ide s) False (unat SUPERBLOCK_SECTOR)" "key (bufs t b) = (0, SUPERBLOCK_SECTOR)"
    "same_disk s t" "bio.more t = bio.more s"
  show "runs (bread ideintr 0 (SUPERBLOCK_SECTOR + 1)) t (\<lambda>buf2 u. sb_ext2_magic (superblock_at (bytes_of (b_data (bufs u b))) 0) = EXT2_SIGNATURE
     \<and> runs (kalloc 1024) u (\<lambda>p v. runs (?load b buf2 p)
       (upd_drv (\<lambda>d. d\<lparr>superblock := p\<rparr>) v) P))"
  proof (rule bread_serving [OF t(1)])
    show "SUPERBLOCK_SECTOR + 1 < FSSIZE" by (simp add: SUPERBLOCK_SECTOR_def DEVICE_START_def FSSIZE_def)
    show "key (bufs t c) \<noteq> (0, SUPERBLOCK_SECTOR + 1)" if "c \<in> {b}" for c using that t(3) by (simp add: SUPERBLOCK_SECTOR_def)
    show "card {b} < NBUF" by (simp add: NBUF_def)
    fix b2 u assume u: "b2 \<notin> {b}" "serving th (Suc n) (insert b2 {b}) u" "b_data (bufs u b2) = sectors (ide t) False (unat (SUPERBLOCK_SECTOR + 1))"
      "\<And>c. c \<in> {b} \<Longrightarrow> bufs u c = bufs t c" "same_disk t u" "bio.more u = bio.more t"
    have sec: "unat SUPERBLOCK_SECTOR = 2050" "unat (SUPERBLOCK_SECTOR + 1) = 2051" by (simp_all add: SUPERBLOCK_SECTOR_def DEVICE_START_def)
    have d: "b_data (bufs u b) = sectors (ide s) False 2050" "b_data (bufs u b2) = sectors (ide s) False 2051"
      using t(2,4) u(3) u(4) [of b] by (simp_all add: sec same_disk_def)
    have e: "kmem u = kmem s" "ext2_driver u = ext2_driver s" using bio_more_ext2 [OF t(5)] bio_more_ext2 [OF u(6)] by simp_all
    have su: "same_disk s u" by (rule same_disk_trans [OF t(4) u(5)])
    have "runs (kalloc 1024) u (\<lambda>p v. runs (?load b b2 p)
       (upd_drv (\<lambda>d. d\<lparr>superblock := p\<rparr>) v) P)"
    proof (rule kalloc_serving [OF u(2)])
      show "1024 \<le> KERNEL_HEAP_MINBLOCK" "(1024 :: u64) \<noteq> 0" by (simp_all add: KERNEL_HEAP_MINBLOCK_def)
      fix p v assume v: "p \<noteq> 0" "serving th n (insert b2 {b}) v" "in_use (heap_tree v 0)" "byte_range KERNEL_HEAP_MINBLOCK p \<inter> heap_used u = {}"
        "byte_range KERNEL_HEAP_MINBLOCK p \<subseteq> heap_used v" "bufs v = bufs u" "same_disk u v" "bio.more v = bio.more u"
      let ?v = "upd_drv (\<lambda>d. d\<lparr>superblock := p\<rparr>) v"
      note ev = bio_more_ext2 [OF v(8)] and sv = same_disk_trans [OF su v(7)]
      have "runs (?copy b b2 p) ?v P"
      proof (rule copy_superblock_runs [OF so])
        fix w assume w: "serving th n {} w" "kmem w = put p (sb_bytes s) (kmem ?v)" "ext2_driver w = ext2_driver ?v" "same_disk ?v w"
        show "P () w" by (rule P [OF w(1), of p]) (use w v su sv e ev in \<open>auto simp: same_disk_def\<close>)
      qed (use v d u(1) in simp_all)
      then show "runs (?load b b2 p) ?v P"
        using v(1) by simp
    qed
    then show "sb_ext2_magic (superblock_at (bytes_of (b_data (bufs u b))) 0) = EXT2_SIGNATURE \<and>
       runs (kalloc 1024) u (\<lambda>p v. runs (?load b b2 p)
       (upd_drv (\<lambda>d. d\<lparr>superblock := p\<rparr>) v) P)"
      using mg d(1) magic_first_sector [OF so] by simp
  qed
qed simp_all

section \<open>The parameters and the group descriptors\<close>

text \<open>What the driver takes from a superblock.\<close>

definition geometry :: "ext2_superblock \<Rightarrow> EXT2_DRIVER \<Rightarrow> EXT2_DRIVER" where
  "geometry b d = (let bsz = push_bit (unat (sb_log2block_size b)) 1024; groups = DIV_CEIL (sb_total_blocks b) (sb_blocks_per_group b) in
     d\<lparr>inode_size := if sb_major b \<ge> 1 then ucast (sb_inode_size b) else of_nat sizeof_inode, total_inodes := sb_total_inodes b, block_size := bsz,
       total_blocks := sb_total_blocks b, blocks_per_group := sb_blocks_per_group b, inodes_per_group := sb_inodes_per_group b,
       extended_fields_available := ext2_extended_fields_available b, total_groups := groups,
       bgdt_blockno := ucast (DIV_CEIL (ucast groups * of_nat sizeof_bgd) (ucast bsz :: u64))\<rparr>)"

text \<open>The superblocks the theorems are about: blocks of 4 KB to 64 KB, so that a block is one unit of the kernel heap at most
  and the superblock lies in the first block; the two counts of groups agree; the inode size divides a block.\<close>

definition sane_sb :: "ext2_superblock \<Rightarrow> bool" where
  "sane_sb b \<longleftrightarrow> 2 \<le> sb_log2block_size b \<and> sb_log2block_size b \<le> 6 \<and> sb_blocks_per_group b \<noteq> 0 \<and> sb_inodes_per_group b \<noteq> 0
     \<and> DIV_CEIL (sb_total_blocks b) (sb_blocks_per_group b) = DIV_CEIL (sb_total_inodes b) (sb_inodes_per_group b)
     \<and> (sb_major b \<ge> 1 \<longrightarrow> sb_inode_size b \<in> {128, 256, 512})"

lemma log2_cases: "2 \<le> (l :: u32) \<Longrightarrow> l \<le> 6 \<Longrightarrow> l \<in> {2, 3, 4, 5, 6}"
proof -
  assume "2 \<le> l" "l \<le> 6"
  then have "unat l \<in> {2, 3, 4, 5, 6}" by (auto simp: word_le_nat_alt)
  then show ?thesis by (auto simp: word_unat_eq_iff)
qed

lemma sane_geometry:
  assumes "sane_sb (sb s)" "ext2_driver s = geometry (sb s) d"
  shows "geometry_ok s"
  using assms by (auto simp: sane_sb_def geometry_ok_def geometry_def Let_def sizeof_inode_def)

lemma first_descriptor_block:
  assumes "sane_sb b"
  shows "drop_bit 10 (drop_bit (unat (sb_log2block_size b)) 2048) = (0 :: u32)"
  using log2_cases [of "sb_log2block_size b"] assms by (auto simp: sane_sb_def)

lemma superblock_kept:
  assumes "byte_range 1024 (superblock (ext2_driver s)) \<subseteq> heap_used s" "follows s t"
  shows "sb t = sb s"
proof -
  have "ext2_driver t = ext2_driver s" using assms(2) by (simp add: follows_def)
  then show ?thesis using superblock_at_cong [where m = "kmem t" and m' = "kmem s", OF follows_bytes [OF assms(2,1)]] by (simp add: sb_def)
qed

lemma read_descriptors_runs:
  fixes s u :: "'a ext2_scheme"
  assumes f: "follows s u" "byte_range KERNEL_HEAP_MINBLOCK p \<subseteq> heap_used u" "byte_range KERNEL_HEAP_MINBLOCK p \<inter> heap_used s = {}"
    and sup: "byte_range 1024 (superblock (ext2_driver s)) \<subseteq> heap_used s" and g: "geometry_ok s" "sane_sb (sb s)" "sectors_ok s"
    and cnt: "512 * spb s * cnt \<le> 65536" "\<And>i. i < cnt \<Longrightarrow> block_ok s (1 + of_nat i)" and sv: "serving th (n + spb s * cnt) {} u"
    and P: "\<And>t. serving th n {} t \<Longrightarrow> kmem t = put p (contents s (map (\<lambda>i. 1 + of_nat i) [0..<cnt])) (kmem u) \<Longrightarrow> follows s t \<Longrightarrow> same_disk u t \<Longrightarrow> P () t"
  shows "runs (foreach [0..<cnt] (\<lambda>i. bnd (ext2_disk_sector_to_block 2048) (\<lambda>k.
     ext2_read_block ideintr (p + of_nat i * ucast (block_size (ext2_driver s))) (k + 1 + of_nat i)))) u P"
proof -
  let ?c = "\<lambda>i. contents s (map (\<lambda>i. 1 + of_nat i) [0..<i])"
  let ?body = "\<lambda>i. bnd (ext2_disk_sector_to_block 2048) (\<lambda>k. ext2_read_block ideintr (p + of_nat i * ucast (block_size (ext2_driver s))) (k + 1 + of_nat i))"
  let ?I = "\<lambda>i t. serving th (n + spb s * (cnt - i)) {} t \<and> kmem t = put p (?c i) (kmem u) \<and> ext2_driver t = ext2_driver u \<and> same_disk u t"
  have len: "length (?c i) = 512 * spb s * i" for i unfolding contents_def
    using length_concat_const [of "map (\<lambda>i. 1 + of_nat i) [0..<i]" "fs_block s" "512 * spb s"] length_fs_block [OF g(3)] by simp
  have fo: "follows s t" if "?I i t" "i \<le> cnt" for i t
  proof (rule follows_put [OF f])
    show "length (?c i) \<le> 65536" using cnt(1) that(2) le_trans [OF mult_le_mono2 [of i cnt "512 * spb s"]] by (simp add: len)
  qed (use that(1) in auto)
  have "\<exists>t. foreach [0..<cnt] ?body u = Inr ((), t) \<and> ?I cnt t"
  proof (rule foreach_upt_inv [where I = ?I])
    fix i t assume i: "i < cnt" and I: "?I i t"
    have ft: "follows s t" by (rule fo [OF I]) (use i in simp)
    note sbt = superblock_kept [OF sup ft] and E = follows_disk [OF ft]
    have gt: "geometry_ok t" "sectors_ok t" using g ft sbt by (auto simp: geometry_ok_def sectors_ok_def follows_def same_disk_def)
    have b: "block_ok t (1 + of_nat i)" using cnt(2) [OF i] by (simp add: E)
    have sv: "serving th (n + spb s * (cnt - Suc i) + spb t) {} t"
      using I i E(1) by (simp add: Suc_diff_Suc [OF i, symmetric] algebra_simps)
    have a: "p + of_nat i * ucast (block_size (ext2_driver s)) = p + of_nat (length (?c i))"
      using geometry_spb(2) [OF g(1)] unfolding len by (metis (no_types, opaque_lifting) mult.commute of_nat_mult of_nat_unat)
    have "runs (ext2_read_block ideintr (p + of_nat (length (?c i))) (1 + of_nat i)) t (\<lambda>_ v. ?I (Suc i) v)"
    proof (rule ext2_read_block_runs [OF sv gt(2,1) b])
      fix v assume v: "serving th (n + spb s * (cnt - Suc i)) {} v" "kmem v = put (p + of_nat (length (?c i))) (fs_block t (1 + of_nat i)) (kmem t)"
        "ext2_driver v = ext2_driver t" "same_disk t v"
      have ne: "length (fs_block s (1 + of_nat i)) = 512 * spb s" "spb s \<noteq> 0" using length_fs_block [OF g(3)] geometry_spb(1) [OF g(1)] by simp_all
      have "512 * spb s * Suc i \<le> 65536" using i cnt(1) le_trans [OF mult_le_mono2 [of "Suc i" cnt "512 * spb s"]] by simp
      then have "length (?c i) + length (fs_block s (1 + of_nat i)) \<le> 2 ^ 64" unfolding len ne(1) by simp
      from put_append [OF this, of p "kmem u"] ne I v E(2) have "kmem v = put p (?c i @ fs_block s (1 + of_nat i)) (kmem u)" by simp
      then show "?I (Suc i) v" using v I same_disk_trans by (auto simp: contents_def)
    qed
    moreover have "sb_log2block_size (sb t) < 32" using g(1) by (simp add: sbt geometry_ok_def word_le_nat_alt word_less_nat_alt)
    ultimately have "runs (?body i) t (\<lambda>_ v. ?I (Suc i) v)"
      unfolding ext2_disk_sector_to_block_def runs_simps sbt first_descriptor_block [OF g(2)] a by simp
    then show "\<exists>v. ?body i t = Inr ((), v) \<and> ?I (Suc i) v" by (simp add: runs_def)
  qed (use sv same_disk_refl in \<open>simp_all add: contents_def\<close>)
  then obtain t where t: "foreach [0..<cnt] ?body u = Inr ((), t)" "?I cnt t" by blast
  from t(2) have "P () t" by (intro P) (use fo [OF t(2)] in simp_all)
  then show ?thesis using t(1) by (simp add: runs_def)
qed

lemma upd_drv_const: "upd_drv f s = upd_drv (\<lambda>_. f (ext2_driver s)) s" "upd_drv f (upd_drv g s) = upd_drv (\<lambda>d. f (g d)) s"
  by (simp_all add: upd_drv_def)

definition mounting :: "'a ext2_scheme \<Rightarrow> u64 \<Rightarrow> 'a ext2_scheme" where
  "mounting s p = upd_drv (\<lambda>d. (geometry (sb s) d)\<lparr>bgdt := p\<rparr>) s"

definition bgdt_fits :: "'a ext2_scheme \<Rightarrow> bool" where
  "bgdt_fits s \<longleftrightarrow> bgdt_blockno (ext2_driver s) \<noteq> 0 \<and> 512 * spb s * unat (bgdt_blockno (ext2_driver s)) \<le> 65536
     \<and> (\<forall>i < unat (bgdt_blockno (ext2_driver s)). block_ok s (1 + of_nat i))"

definition bgdt_bytes :: "'a ext2_scheme \<Rightarrow> u8 list" where
  "bgdt_bytes s = contents s (map (\<lambda>i. 1 + of_nat i) [0..<unat (bgdt_blockno (ext2_driver s))])"

lemma mounting_simps [simp]:
  "kmem (mounting s p) = kmem s" "heap_used (mounting s p) = heap_used s" "ext2_driver (mounting s p) = (geometry (sb s) (ext2_driver s))\<lparr>bgdt := p\<rparr>"
  "same_disk (mounting s p) t = same_disk s t" "ide (mounting s p) = ide s" "sb (mounting s p) = sb s"
  by (simp_all add: mounting_def sb_def geometry_def Let_def)

lemma mounting_const:
  "spb (mounting s p) = spb (mounting s q)" "fs_block (mounting s p) b = fs_block (mounting s q) b" "block_ok (mounting s p) b = block_ok (mounting s q) b"
  "bgdt_fits (mounting s p) = bgdt_fits (mounting s q)" "bgdt_bytes (mounting s p) = bgdt_bytes (mounting s q)"
  by (simp_all add: spb_def fs_block_def block_ok_def bgdt_fits_def bgdt_bytes_def contents_def comp_def)

lemma bgdt_size:
  assumes g: "geometry_ok s" and f: "bgdt_fits s"
  shows "unat (ucast (bgdt_blockno (ext2_driver s) * block_size (ext2_driver s)) :: u64) = 512 * spb s * unat (bgdt_blockno (ext2_driver s))"
    "ucast (bgdt_blockno (ext2_driver s) * block_size (ext2_driver s)) \<le> KERNEL_HEAP_MINBLOCK"
    "ucast (bgdt_blockno (ext2_driver s) * block_size (ext2_driver s)) \<noteq> (0 :: u64)"
proof -
  let ?n = "unat (bgdt_blockno (ext2_driver s))"
  have b: "unat (block_size (ext2_driver s)) = 512 * spb s" "spb s \<noteq> 0" using geometry_spb [OF g] by simp_all
  have n: "512 * spb s * ?n \<le> 65536" "?n \<noteq> 0" using f by (simp_all add: bgdt_fits_def unat_eq_zero)
  have "unat (bgdt_blockno (ext2_driver s) * block_size (ext2_driver s)) = 512 * spb s * ?n"
    using n(1) by (subst unat_mult_nowrap) (simp_all add: b(1) mult.commute)
  then show u: "unat (ucast (bgdt_blockno (ext2_driver s) * block_size (ext2_driver s)) :: u64) = 512 * spb s * ?n" by (simp only: unat_u32)
  show "ucast (bgdt_blockno (ext2_driver s) * block_size (ext2_driver s)) \<le> KERNEL_HEAP_MINBLOCK"
    using n(1) unfolding word_le_nat_alt u by (simp add: KERNEL_HEAP_MINBLOCK_def)
  have "unat (ucast (bgdt_blockno (ext2_driver s) * block_size (ext2_driver s)) :: u64) \<noteq> 0" unfolding u using n(2) b(2) by simp
  then show "ucast (bgdt_blockno (ext2_driver s) * block_size (ext2_driver s)) \<noteq> (0 :: u64)" by (metis unsigned_0)
qed

lemma sane_mounting: "sane_sb (sb s) \<Longrightarrow> geometry_ok (mounting s p)"
  by (auto simp: sane_sb_def geometry_ok_def geometry_def Let_def sizeof_inode_def)

lemma load_geometry_runs:
  fixes s :: "'a ext2_scheme"
  assumes sv: "serving th (Suc (n + spb (mounting s 0) * unat (bgdt_blockno (ext2_driver (mounting s 0))))) {} s"
    and sup: "byte_range 1024 (superblock (ext2_driver s)) \<subseteq> heap_used s" and b: "sane_sb (sb s)" "sectors_ok s" "bgdt_fits (mounting s 0)"
    and P: "\<And>p t. serving th n {} t \<Longrightarrow> byte_range KERNEL_HEAP_MINBLOCK p \<inter> heap_used s = {} \<Longrightarrow> byte_range KERNEL_HEAP_MINBLOCK p \<subseteq> heap_used t
       \<Longrightarrow> in_use (heap_tree t 0) \<Longrightarrow> kmem t = put p (bgdt_bytes (mounting s p)) (kmem s) \<Longrightarrow> follows (mounting s p) t \<Longrightarrow> P () t"
  shows "runs (load_geometry ideintr) s P"
proof -
  let ?b = "sb s" and ?bs = "block_size (ext2_driver (mounting s 0))" and ?n = "bgdt_blockno (ext2_driver (mounting s 0))"
  let ?D = "geometry ?b (ext2_driver s)"
  have bs: "ext2_getblocksize ?b = Inr ?bs" using b(1) by (auto simp: ext2_getblocksize_def sane_sb_def geometry_def Let_def word_le_nat_alt word_less_nat_alt)
  have gb: "(\<lambda>s. case ext2_getblocksize ?b of Inl f \<Rightarrow> Inl f | Inr z \<Rightarrow> Inr (z, s)) = ret ?bs" by (simp add: bs ret_def fun_eq_iff)
  have g: "geometry_ok (mounting s p)" for p by (rule sane_mounting [OF b(1)])
  let ?s1 = "upd_drv (\<lambda>_. ?D) s"
  let ?read = "\<lambda>p n. foreach [0..<unat n] (\<lambda>i. bnd (ext2_disk_sector_to_block 2048) (\<lambda>k. ext2_read_block ideintr (p + of_nat i * ucast ?bs) (k + 1 + of_nat i)))"
  let ?load = "\<lambda>p. if p = 0 then raise (Panic ''ext2_driver_init() --> kalloc() failure for bgdt!'') else bnd (gets (\<lambda>s. bgdt_blockno (ext2_driver s))) (?read p)"
  have "runs (kalloc (ucast (?n * ?bs))) ?s1 (\<lambda>p v. runs (?load p) (upd_drv (\<lambda>d. d\<lparr>bgdt := p\<rparr>) v) P)"
  proof (rule kalloc_serving)
    show "serving th (Suc (n + spb (mounting s 0) * unat ?n)) {} ?s1" using sv by simp
    show "ucast (?n * ?bs) \<le> KERNEL_HEAP_MINBLOCK" "ucast (?n * ?bs) \<noteq> (0 :: u64)" using bgdt_size(2,3) [OF g b(3)] by simp_all
    fix p v assume v: "p \<noteq> 0" "serving th (n + spb (mounting s 0) * unat ?n) {} v" "in_use (heap_tree v 0)" "byte_range KERNEL_HEAP_MINBLOCK p \<inter> heap_used ?s1 = {}"
        "byte_range KERNEL_HEAP_MINBLOCK p \<subseteq> heap_used v" "same_disk ?s1 v" "bio.more v = bio.more ?s1"
    let ?v = "upd_drv (\<lambda>d. d\<lparr>bgdt := p\<rparr>) v"
    have fv: "follows (mounting s p) ?v" using v(6) bio_more_ext2 [OF v(7)] by (simp add: follows_def)
    have c: "spb (mounting s p) = spb (mounting s 0)" "bgdt_fits (mounting s p)" using mounting_const(1,4) [of s p 0] b(3) by simp_all
    have "runs (foreach [0..<unat ?n] (\<lambda>i. bnd (ext2_disk_sector_to_block 2048) (\<lambda>k.
       ext2_read_block ideintr (p + of_nat i * ucast (block_size (ext2_driver (mounting s p)))) (k + 1 + of_nat i)))) ?v P"
    proof (rule read_descriptors_runs [OF fv])
      fix t assume t: "serving th n {} t" "kmem t = put p (contents (mounting s p) (map (\<lambda>i. 1 + of_nat i) [0..<unat ?n])) (kmem ?v)"
        "follows (mounting s p) t" "same_disk ?v t"
      show "P () t" by (rule P [OF t(1), of p]) (use t v bio_more_ext2 [OF v(7)] in \<open>auto simp: same_disk_def bgdt_bytes_def\<close>)
    qed (use v sup g b c in \<open>auto simp: bgdt_fits_def sectors_ok_def geometry_def Let_def\<close>)
    then have "runs (?read p ?n) ?v P" by simp
    then show "runs (?load p) ?v P" using v(1) bio_more_ext2 [OF v(7)] by (simp add: runs_simps)
  qed
  then show ?thesis
    using b(1) unfolding load_geometry_def gb runs_simps
    by (simp add: upd_drv_def geometry_def Let_def sane_sb_def split del: if_split cong: if_cong)
qed

section \<open>The file system on the disk\<close>

text \<open>The image of the disk as memory, with the superblock where it is on the disk and the descriptors in block 1.\<close>

definition fs_image :: "'a ext2_scheme \<Rightarrow> 'a ext2_scheme" where
  "fs_image s = upd_drv (\<lambda>d. d\<lparr>superblock := 1024\<rparr>) (s\<lparr>kmem := disk_image s\<rparr>)"

definition fs_view0 :: "'a ext2_scheme \<Rightarrow> 'a ext2_scheme" where
  "fs_view0 s = mounting (fs_image s) (ucast (push_bit (unat (sb_log2block_size (sb (fs_image s)))) 1024 :: u32))"

definition fs_view :: "'a ext2_scheme \<Rightarrow> 'a ext2_scheme" where
  "fs_view s = upd_drv (\<lambda>d. d\<lparr>root_inode := disk_inode (fs_view0 s) 2\<rparr>) (fs_view0 s)"

lemma nth_concat_const:
  assumes "\<And>x. x < n \<Longrightarrow> length (f x) = c" "k < c * n"
  shows "concat (map f [0..<n]) ! k = f (k div c) ! (k mod c)"
  using assms
proof (induction n)
  case (Suc n)
  have len: "length (concat (map f [0..<n])) = c * n" by (subst length_concat_const [where c = c]) (use Suc.prems(1) in simp_all)
  show ?case
  proof (cases "k < c * n")
    case True
    then show ?thesis using Suc by (simp add: nth_append len)
  next
    case False
    then have d: "k div c = n" using Suc.prems(2) by (intro div_nat_eqI) (simp_all add: mult.commute)
    have "k mod c = k - c * n" by (simp add: d modulo_nat_def mult.commute)
    note d = d this
    show ?thesis using False d by (simp add: nth_append len)
  qed
qed simp

lemma sb_on_disk:
  assumes "sectors_ok s"
  shows "sb (fs_image s) = superblock_at (bytes_of (sb_bytes s)) 0"
proof -
  have l: "length (sectors (ide s) False k) = 512" for k using assms by (simp add: sectors_ok_def)
  have "disk_image s (1024 + of_nat i) = bytes_of (sb_bytes s) (0 + of_nat i)" if i: "i < 1024" for i
  proof -
    have u: "unat (1024 + of_nat i :: u64) = 1024 + i" using i by (simp add: unat_word_ariths unat_of_nat take_bit_nat_eq_self)
    have "(1024 + i) div 512 = (if i < 512 then 2 else 3)" "(1024 + i) mod 512 = (if i < 512 then i else i - 512)" using i by (auto simp: div_nat_eqI le_mod_geq)
    then show ?thesis using i by (simp add: disk_image_def u bytes_of_def put_def sb_bytes_def nth_append l unat_of_nat take_bit_nat_eq_self)
  qed
  from superblock_at_cong [where m = "disk_image s" and m' = "bytes_of (sb_bytes s)", OF this] show ?thesis by (simp add: sb_def fs_image_def)
qed

lemma block_on_disk:
  assumes so: "sectors_ok s" and k: "k < 512 * spb s" and lt: "unat b * (512 * spb s) + k < 2 ^ 64"
  shows "fs_block s b ! k = disk_image s (of_nat (unat b * (512 * spb s) + k))"
proof -
  let ?f = "\<lambda>j. sectors (ide s) False (2048 + unat b * spb s + j)"
  have "fs_block s b ! k = ?f (k div 512) ! (k mod 512)"
    unfolding fs_block_def by (rule nth_concat_const) (use so k in \<open>auto simp: sectors_ok_def\<close>)
  moreover have "unat (of_nat (unat b * (512 * spb s) + k) :: u64) = 512 * (unat b * spb s) + k" using lt by (simp only: unat_of_nat) (simp add: take_bit_nat_eq_self)
  ultimately show ?thesis by (simp add: disk_image_def div_mult_self4 mod_mult_self4 add.assoc)
qed

lemma descriptors_on_disk:
  assumes so: "sectors_ok s" and f: "bgdt_fits s" and k: "k < 512 * spb s * unat (bgdt_blockno (ext2_driver s))"
  shows "bgdt_bytes s ! k = disk_image s (of_nat (512 * spb s + k))"
proof -
  let ?n = "unat (bgdt_blockno (ext2_driver s))" and ?c = "512 * spb s"
  have n: "?c * ?n \<le> 65536" using f by (simp add: bgdt_fits_def)
  have c: "?c \<noteq> 0" using k by (cases "spb s") simp_all
  then have q: "k div ?c < ?n" using k by (simp add: div_less_iff_less_mult mult.commute)
  have "?n \<le> ?c * ?n" using c by simp
  then have "k div ?c < 65536" by (intro less_le_trans [OF q] le_trans [OF _ n])
  then have "Suc (k div ?c) \<le> 65536" by (rule Suc_leI)
  then have "Suc (k div ?c) < 2 ^ 32" by (rule le_less_trans) simp
  then have u: "unat (1 + of_nat (k div ?c) :: u32) = Suc (k div ?c)" by (simp add: unat_word_ariths unat_of_nat take_bit_nat_eq_self)
  have e: "Suc (k div ?c) * ?c + k mod ?c = ?c + k" using div_mult_mod_eq [of k ?c] by simp
  have "bgdt_bytes s ! k = fs_block s (1 + of_nat (k div ?c)) ! (k mod ?c)"
    unfolding bgdt_bytes_def contents_def map_map comp_def by (rule nth_concat_const) (use length_fs_block [OF so] k in auto)
  also have "\<dots> = disk_image s (of_nat (Suc (k div ?c) * ?c + k mod ?c))"
  proof (rule block_on_disk [OF so, of "k mod ?c" "1 + of_nat (k div ?c)", unfolded u])
    show "k mod ?c < ?c" using c by simp
    have "?c \<le> 65536" using n q c by (metis (no_types) gr_implies_not0 le_trans mult_le_mono2 mult.right_neutral not_less_eq_eq not_le One_nat_def Suc_leI)
    then show "Suc (k div ?c) * ?c + k mod ?c < 2 ^ 64" unfolding e using k n by simp
  qed
  finally show ?thesis unfolding e .
qed

lemma fs_view_simps [simp]:
  "sb (fs_view s) = sb (fs_image s)" "ide (fs_view s) = ide s" "kmem (fs_view s) = disk_image s" "spb (fs_view s) = spb (fs_view0 s)"
  "ext2_driver (fs_view s) = (ext2_driver (fs_view0 s))\<lparr>root_inode := disk_inode (fs_view0 s) 2\<rparr>" "ide (fs_view0 s) = ide s" "kmem (fs_view0 s) = disk_image s"
  "sb (fs_view0 s) = sb (fs_image s)"
  by (simp_all add: fs_view_def fs_view0_def fs_image_def sb_def spb_def geometry_def Let_def)

lemma loaded_params:
  assumes "sb t = sb (fs_image s)" "sectors (ide t) = sectors (ide s)"
  shows "block_size (ext2_driver (mounting t p)) = block_size (ext2_driver (fs_view s))" "bgdt_blockno (ext2_driver (mounting t p)) = bgdt_blockno (ext2_driver (fs_view s))"
    "inode_size (ext2_driver (mounting t p)) = inode_size (ext2_driver (fs_view s))" "spb (mounting t p) = spb (fs_view s)" "bgdt_fits (mounting t p) = bgdt_fits (fs_view s)"
    "extended_fields_available (ext2_driver (mounting t p)) = extended_fields_available (ext2_driver (fs_view s))"
    "disk_image (mounting t p) = disk_image s"
  using assms by (simp_all add: fs_view0_def geometry_def Let_def spb_def bgdt_fits_def block_ok_def disk_image_def fun_eq_iff)

text \<open>The superblock and the descriptors are in memory: the state has the file system of the disk.\<close>

lemma same_fs_loaded:
  fixes s t u :: "'a ext2_scheme"
  assumes so: "sectors_ok s" and b: "sb t = sb (fs_image s)" "sectors (ide t) = sectors (ide s)" and f: "bgdt_fits (fs_view s)" and sane: "sane_sb (sb (fs_image s))"
    and u: "sb u = sb t" "ext2_driver u = ext2_driver (mounting t p)" "sectors (ide u) = sectors (ide t)" "kmem u = put p (bgdt_bytes (mounting t p)) (kmem t)"
  shows "same_fs (fs_view s) u"
proof -
  let ?m = "mounting t p"
  let ?n = "unat (bgdt_blockno (ext2_driver ?m))"
  note e = loaded_params [OF b, of p]
  have fm: "bgdt_fits ?m" using f e(5) by simp
  have som: "sectors_ok ?m" using so b(2) by (simp add: sectors_ok_def)
  have g: "geometry_ok ?m" using sane by (intro sane_mounting) (simp add: b(1))

  have len: "length (bgdt_bytes ?m) = 512 * spb ?m * ?n" unfolding bgdt_bytes_def contents_def
    by (subst length_concat_const [where c = "512 * spb ?m"]) (use length_fs_block [OF som] in simp_all)
  have bd: "bgdt (ext2_driver (fs_view s)) = of_nat (512 * spb ?m)"
  proof -
    have "bgdt (ext2_driver (fs_view s)) = ucast (block_size (ext2_driver ?m))" using b(1) by (simp add: fs_view0_def geometry_def Let_def)
    then show ?thesis using geometry_spb(2) [OF g] by (metis of_nat_unat)
  qed
  have "kmem u (bgdt (ext2_driver u) + of_nat k) = kmem (fs_view s) (bgdt (ext2_driver (fs_view s)) + of_nat k)"
    if k: "k < unat (bgdt_blockno (ext2_driver ?m) * block_size (ext2_driver ?m))" for k
  proof -
    have k': "k < 512 * spb ?m * ?n" "k < 65536" using k bgdt_size(1) [OF g fm] fm by (simp_all only: unat_u32) (simp add: bgdt_fits_def)
    have "kmem u (bgdt (ext2_driver u) + of_nat k) = bgdt_bytes ?m ! k"
      using k' len by (simp add: u(2,4) put_def unat_of_nat take_bit_nat_eq_self)
    also have "\<dots> = disk_image s (of_nat (512 * spb ?m + k))" using descriptors_on_disk [OF som fm k'(1)] by (simp only: e(7))
    finally show ?thesis unfolding bd by simp
  qed
  then show ?thesis using u b e by (simp add: same_fs_def)
qed

lemma same_fs_root:
  assumes f: "same_fs s t" and r: "root_inode (ext2_driver t) = root_inode (ext2_driver s)" and d: "root_dir s ds"
  shows "root_dir t ds"
proof -
  have "root_from t j es" if "root_from s j es" for j es
    using that by (induction es arbitrary: j) (simp_all add: r dir_block_def same_fs_disk [OF f])
  then show ?thesis using d same_fs_inode(1) [OF f] r by (auto simp: root_dir_def)
qed

section \<open>Mounting\<close>

text \<open>A disk with an ext2 file system whose root directory has the blocks \<open>ds\<close>.\<close>

definition ext2_image :: "'a ext2_scheme \<Rightarrow> (u32 \<times> (u8 list \<times> u32) list) list \<Rightarrow> bool" where
  "ext2_image s ds \<longleftrightarrow> sectors_ok s \<and> sb_ext2_magic (sb (fs_view s)) = EXT2_SIGNATURE \<and> sane_sb (sb (fs_view s)) \<and> bgdt_fits (fs_view s)
     \<and> inode_ok (fs_view s) 2 \<and> root_dir (fs_view s) ds"

definition mounted_as :: "'a ext2_scheme \<Rightarrow> 'a ext2_scheme \<Rightarrow> bool" where
  "mounted_as s t \<longleftrightarrow> mounted t \<and> same_fs (fs_view s) t \<and> root_inode (ext2_driver t) = root_inode (ext2_driver (fs_view s))
     \<and> extended_fields_available (ext2_driver t) = extended_fields_available (ext2_driver (fs_view s))"

definition mount_cost :: "'a ext2_scheme \<Rightarrow> (u32 \<times> (u8 list \<times> u32) list) list \<Rightarrow> nat" where
  "mount_cost s ds = 9 + spb (fs_view s) * unat (bgdt_blockno (ext2_driver (fs_view s))) + 2 * scan_cost (spb (fs_view s)) ds"

lemma grows_put:
  assumes "same_disk s t" "byte_range KERNEL_HEAP_MINBLOCK a \<subseteq> heap_used t" "byte_range KERNEL_HEAP_MINBLOCK a \<inter> heap_used s = {}"
    "kmem t = put a bs (kmem s)" "length bs \<le> 65536"
  shows "grows s t"
  unfolding grows_def
proof (intro conjI allI impI)
  fix x assume "kmem t x \<noteq> kmem s x"
  then have "unat (x - a) < length bs" using assms(4) by (simp add: put_def split: if_splits)
  then have "unat x \<in> byte_range KERNEL_HEAP_MINBLOCK a" using assms(5) by (intro range_unat [OF assms(2)]) simp
  then show "unat x \<in> heap_used t" "unat x \<notin> heap_used s" using assms(2,3) by auto
qed (rule assms(1))

lemma superblock_copied:
  assumes "sectors_ok s" "kmem t = put p (sb_bytes s) m"
  shows "superblock_at (kmem t) p = sb (fs_image s)"
proof -
  have "kmem t (p + of_nat i) = bytes_of (sb_bytes s) (0 + of_nat i)" if "i < 1024" for i
    using that length_sb_bytes [OF assms(1)] by (simp add: assms(2) put_def bytes_of_def unat_of_nat take_bit_nat_eq_self)
  from superblock_at_cong [where m = "kmem t" and m' = "bytes_of (sb_bytes s)", OF this] show ?thesis by (simp add: sb_on_disk [OF assms(1)])
qed

lemma load_runs:
  fixes s :: "'a ext2_scheme"
  assumes sv: "serving th (4 + spb (fs_view s) * unat (bgdt_blockno (ext2_driver (fs_view s))) + n) {} s" and im: "ext2_image s ds"
    and P: "\<And>u. serving th n {} u \<Longrightarrow> grows s u \<Longrightarrow> mounted u \<Longrightarrow> same_fs (fs_view s) u
      \<Longrightarrow> extended_fields_available (ext2_driver u) = extended_fields_available (ext2_driver (fs_view s)) \<Longrightarrow> P u"
  shows "runs (load_superblock ideintr) s (\<lambda>_ t. runs (load_geometry ideintr) t (\<lambda>_ u. P u))"
proof -
  let ?k = "spb (fs_view s) * unat (bgdt_blockno (ext2_driver (fs_view s)))"
  have so: "sectors_ok s" and mg: "sb_ext2_magic (superblock_at (bytes_of (sb_bytes s)) 0) = EXT2_SIGNATURE" and sane: "sane_sb (sb (fs_image s))" and bf: "bgdt_fits (fs_view s)"
    using im sb_on_disk [of s] by (auto simp: ext2_image_def)
  have sv3: "serving th (Suc (Suc (Suc (Suc (n + ?k))))) {} s" using sv by (simp add: algebra_simps numeral_eq_Suc)
  show ?thesis
  proof (rule load_superblock_runs [OF sv3 so mg])
    fix p t assume t: "serving th (Suc (n + ?k)) {} t" "byte_range KERNEL_HEAP_MINBLOCK p \<inter> heap_used s = {}" "byte_range KERNEL_HEAP_MINBLOCK p \<subseteq> heap_used t"
      "in_use (heap_tree t 0)" "kmem t = put p (sb_bytes s) (kmem s)" "ext2_driver t = (ext2_driver s)\<lparr>superblock := p\<rparr>" "same_disk s t"
    have sbt: "sb t = sb (fs_image s)" using superblock_copied [OF so t(5)] t(6) by (simp add: sb_def)
    have gr: "grows s t" by (rule grows_put [OF t(7,3,2,5)]) (simp add: length_sb_bytes [OF so])
    have sec: "sectors (ide t) = sectors (ide s)" using t(7) by (simp add: same_disk_def)
    note e = loaded_params [OF sbt sec]
    have "byte_range 1024 p \<subseteq> byte_range KERNEL_HEAP_MINBLOCK p" by (auto simp: byte_range_def KERNEL_HEAP_MINBLOCK_def)
    then have sup: "byte_range 1024 (superblock (ext2_driver t)) \<subseteq> heap_used t" using t(3,6) by auto
    show "runs (load_geometry ideintr) t (\<lambda>_ u. P u)"
    proof (rule load_geometry_runs)
      show "serving th (Suc (n + spb (mounting t 0) * unat (bgdt_blockno (ext2_driver (mounting t 0))))) {} t" unfolding e by (rule t(1))
      show "byte_range 1024 (superblock (ext2_driver t)) \<subseteq> heap_used t" by (rule sup)
      show "sane_sb (sb t)" "sectors_ok t" "bgdt_fits (mounting t 0)" using sane bf so sec by (simp_all only: sbt e sectors_ok_def simp_thms)
      fix q u assume u: "serving th n {} u" "byte_range KERNEL_HEAP_MINBLOCK q \<inter> heap_used t = {}" "byte_range KERNEL_HEAP_MINBLOCK q \<subseteq> heap_used u"
        "in_use (heap_tree u 0)" "kmem u = put q (bgdt_bytes (mounting t q)) (kmem t)" "follows (mounting t q) u"
      have sbu: "sb u = sb (mounting t q)" by (rule superblock_kept [OF _ u(6)]) (use sup in \<open>simp add: geometry_def Let_def\<close>)
      have d: "ext2_driver u = ext2_driver (mounting t q)" "same_disk t u" using u(6) by (simp_all add: follows_def)
      have g: "geometry_ok (mounting t q)" "bgdt_fits (mounting t q)" using sane bf by (auto intro!: sane_mounting simp only: sbt e)
      have "byte_range (ucast (bgdt_blockno (ext2_driver (mounting t q)) * block_size (ext2_driver (mounting t q)))) q \<subseteq> byte_range KERNEL_HEAP_MINBLOCK q"
        using bgdt_size(2) [OF g] unfolding byte_range_def word_le_nat_alt by (auto simp del: mounting_simps)
      then have bd: "byte_range (ucast (bgdt_blockno (ext2_driver u) * block_size (ext2_driver u))) (bgdt (ext2_driver u)) \<subseteq> heap_used u" using u(3) unfolding d(1) by auto
      have "byte_range 1024 (superblock (ext2_driver u)) \<subseteq> heap_used u" using sup d by (auto simp: geometry_def Let_def same_disk_def)
      then have "mounted u" using g(1) bd u(4) so sec d sbu by (auto simp: mounted_def geometry_ok_def sectors_ok_def same_disk_def)
      moreover have "same_fs (fs_view s) u"
        by (rule same_fs_loaded [OF so sbt sec bf sane _ d(1) _ u(5)]) (use sbu d(2) in \<open>simp_all add: same_disk_def\<close>)
      moreover have "grows s u" using grows_trans [OF gr, of u] u(6) by (simp add: follows_grows grows_def)
      ultimately show "P u" using u(1) e(6) [of q] d(1) by (intro P) simp_all
    qed
  qed
qed

lemma fs_view_inode: "disk_inode (fs_view s) i = disk_inode (fs_view0 s) i"
proof -
  have "disk_image (fs_view s) = disk_image (fs_view0 s)" by (simp add: disk_image_def fun_eq_iff)
  then show ?thesis by (simp add: disk_inode_def inode_pos_def inode_table_def inode_group_def inode_index_def)
qed

definition hello_name :: "u8 list" where "hello_name = map of_char ''__hello.txt''"

lemma same_fs_drv: "same_fs s (upd_drv (\<lambda>d. d\<lparr>root_inode := r\<rparr>) t) = same_fs s t" "mounted (upd_drv (\<lambda>d. d\<lparr>root_inode := r\<rparr>) t) = mounted t"
  by (simp_all add: same_fs_def mounted_def sb_def geometry_ok_def sectors_ok_def)

lemma mounted_as_follows: "mounted_as s t \<Longrightarrow> follows t u \<Longrightarrow> mounted_as s u"
  unfolding mounted_as_def using mounted_follows follows_same_fs [of t u] by (auto simp: same_fs_def follows_def)

text \<open>The look-ups at the end of \<open>ext2_driver_init\<close> change nothing.\<close>

lemma init_tail_runs:
  fixes w :: "'a ext2_scheme"
  assumes mt: "mounted w" and z: "zeroed w" and nm: "name_at w f nm" and rd: "root_dir w ds"
    and sv: "serving th (Suc (scan_cost (spb w) ds + Suc (Suc (scan_cost (spb w) ds + Suc n)))) {} w"
  shows "runs (bnd (kalloc (ucast (block_size (ext2_driver w)))) (\<lambda>root_buf.
     if root_buf = 0 \<and> c then raise Undefined
     else seqn (probe_root_blocks ideintr f root_buf [0..<12]) (seqn (ext2_find_file_inode ideintr ''/test'') (ret ())))) w (\<lambda>_ t. serving th n {} t \<and> follows w t)"
  unfolding runs_simps(1)
proof -
  have g: "geometry_ok w" using mt by (simp add: mounted_def)
  show "runs (kalloc (ucast (block_size (ext2_driver w)))) w (\<lambda>root_buf t. runs (if root_buf = 0 \<and> c then raise Undefined
     else seqn (probe_root_blocks ideintr f root_buf [0..<12]) (seqn (ext2_find_file_inode ideintr ''/test'') (ret ()))) t (\<lambda>_ t. serving th n {} t \<and> follows w t))"
  proof (rule kalloc_follows [OF sv block_size_u64 [OF g]])
    fix a t assume t: "a \<noteq> 0" "serving th (scan_cost (spb w) ds + Suc (Suc (scan_cost (spb w) ds + Suc n))) {} t" "byte_range KERNEL_HEAP_MINBLOCK a \<inter> heap_used w = {}"
      "byte_range KERNEL_HEAP_MINBLOCK a \<subseteq> heap_used t" "kmem t = kmem w" "follows w t"
    have "runs (probe_root_blocks ideintr f a [0..<12]) t (\<lambda>_ u. serving th (Suc (Suc (scan_cost (spb w) ds + Suc n))) {} u \<and> follows w u)"
      by (rule probe_root_runs [OF mt nm _ fresh_buffer [OF z t(3-6)] t(2)]) (use rd in \<open>auto simp: root_dir_def\<close>)
    then have "runs (probe_root_blocks ideintr f a [0..<12]) t (\<lambda>_ u. runs (ext2_find_file_inode ideintr ''/test'') u (\<lambda>_ t. serving th n {} t \<and> follows w t))"
    proof (rule runs_mono, elim conjE)
      fix u assume u: "serving th (Suc (Suc (scan_cost (spb w) ds + Suc n))) {} u" "follows w u"
      have "runs (ext2_find_file_inode ideintr (CHR ''/'' # ''test'')) u (\<lambda>r t. r = found u (entries ds) (map of_char ''test'') \<and> serving th n {} t \<and> follows u t)"
        by (rule find_root_file_runs [OF mounted_follows [OF mt u(2)] zeroed_follows [OF z u(2)] root_dir_follows [OF mt u(2) rd]])
           (use u(1) follows_disk(1) [OF u(2)] in \<open>simp_all add: file_name_def\<close>)
      then show "runs (ext2_find_file_inode ideintr ''/test'') u (\<lambda>_ t. serving th n {} t \<and> follows w t)"
        by (rule runs_mono) (use follows_trans [OF u(2)] in blast)
    qed
    then show "runs (if a = 0 \<and> c then raise Undefined else seqn (probe_root_blocks ideintr f a [0..<12]) (seqn (ext2_find_file_inode ideintr ''/test'') (ret ()))) t
       (\<lambda>_ t. serving th n {} t \<and> follows w t)" using t(1) by (simp add: runs_simps)
  qed
qed

lemma ext2_driver_init_runs:
  fixes s :: "'a ext2_scheme"
  assumes sv: "serving th (mount_cost s ds + n) {} s" and im: "ext2_image s ds" and z: "zeroed s" and nm: "name_at s f hello_name"
  shows "runs (ext2_driver_init ideintr f) s (\<lambda>_ t. serving th n {} t \<and> grows s t \<and> mounted_as s t)"
proof -
  let ?v = "fs_view s" and ?sc = "scan_cost (spb (fs_view s)) ds"
  let ?Q = "\<lambda>t. serving th n {} t \<and> grows s t \<and> mounted_as s t"
  have i2: "inode_ok ?v 2" and rd: "root_dir ?v ds" using im by (auto simp: ext2_image_def)
  have sv1: "serving th (4 + spb ?v * unat (bgdt_blockno (ext2_driver ?v)) + Suc (Suc (?sc + Suc (Suc (?sc + Suc n))))) {} s"
    using sv by (simp add: mount_cost_def numeral_eq_Suc algebra_simps)
  let ?tail = "\<lambda>inode. if ino_mode inode AND 0xF000 \<noteq> INODE_TYPE_DIRECTORY then raise (Panic ''ext2_driver_init() --> Root inode is not a directory'')
     else bnd (bnd (gets (\<lambda>s. ucast (block_size (ext2_driver s)))) kalloc) (\<lambda>root_buf.
       if root_buf = 0 \<and> ino_blocks inode 0 \<noteq> 0 then raise Undefined
       else seqn (probe_root_blocks ideintr f root_buf [0..<12]) (seqn (ext2_find_file_inode ideintr ''/test'') (ret ())))"
  have "runs (load_superblock ideintr) s (\<lambda>_ t. runs (load_geometry ideintr) t (\<lambda>_ u. runs (ext2_read_inode ideintr 2) u
     (\<lambda>inode u. runs (?tail inode) (upd_drv (\<lambda>d. d\<lparr>root_inode := inode\<rparr>) u) (\<lambda>_ t. ?Q t))))"
  proof (rule load_runs [OF sv1 im])
    fix u assume u: "serving th (Suc (Suc (?sc + Suc (Suc (?sc + Suc n))))) {} u" "grows s u" "mounted u" "same_fs ?v u"
      "extended_fields_available (ext2_driver u) = extended_fields_available (ext2_driver ?v)"
    note iu = same_fs_inode [OF u(4) i2]
    show "runs (ext2_read_inode ideintr 2) u (\<lambda>inode u. runs (?tail inode) (upd_drv (\<lambda>d. d\<lparr>root_inode := inode\<rparr>) u) (\<lambda>_ t. ?Q t))"
    proof (rule ext2_read_inode_runs [OF u(1,3) iu(1)])
      fix w0 assume w0: "serving th (Suc (?sc + Suc (Suc (?sc + Suc n)))) {} w0" "kmem w0 = kmem u" "follows u w0"
      let ?w = "upd_drv (\<lambda>d. d\<lparr>root_inode := disk_inode u 2\<rparr>) w0"
      have r: "disk_inode u 2 = root_inode (ext2_driver ?v)" using iu(2) by (simp add: fs_view_inode)
      have fs: "same_fs ?v w0" using follows_same_fs [OF u(3) w0(3)] u(4) by (auto simp: same_fs_def)
      then have m: "mounted_as s ?w" using mounted_follows [OF u(3) w0(3)] u(5) w0(3) r by (simp add: mounted_as_def same_fs_drv follows_def)
      have gw: "grows s ?w" using grows_trans [OF u(2), of w0] w0(3) by (simp add: follows_grows grows_def)
      have mw: "mounted ?w" "root_dir ?w ds" "spb ?w = spb ?v"
        using m same_fs_root [OF _ _ rd, of ?w] same_fs_disk(1) [of ?v ?w] unfolding mounted_as_def by blast+
      have "runs (bnd (kalloc (ucast (block_size (ext2_driver ?w)))) (\<lambda>root_buf. if root_buf = 0 \<and> ino_blocks (disk_inode u 2) 0 \<noteq> 0 then raise Undefined
         else seqn (probe_root_blocks ideintr f root_buf [0..<12]) (seqn (ext2_find_file_inode ideintr ''/test'') (ret ())))) ?w (\<lambda>_ t. serving th n {} t \<and> follows ?w t)"
        by (rule init_tail_runs [OF mw(1) zeroed_grows [OF z gw] name_grows [OF nm gw] mw(2)]) (use w0(1) mw(3) in simp)
      then have "runs (bnd (kalloc (ucast (block_size (ext2_driver ?w)))) (\<lambda>root_buf. if root_buf = 0 \<and> ino_blocks (disk_inode u 2) 0 \<noteq> 0 then raise Undefined
         else seqn (probe_root_blocks ideintr f root_buf [0..<12]) (seqn (ext2_find_file_inode ideintr ''/test'') (ret ())))) ?w (\<lambda>_ t. ?Q t)"
        by (rule runs_mono) (use mounted_as_follows [OF m] grows_trans [OF gw] in \<open>auto simp: follows_grows\<close>)
      moreover have "ino_mode (disk_inode u 2) AND 0xF000 = INODE_TYPE_DIRECTORY" using rd by (simp only: r root_dir_def)
      ultimately show "runs (?tail (disk_inode u 2)) ?w (\<lambda>_ t. ?Q t)" by (simp add: runs_simps)
    qed
  qed
  then show ?thesis unfolding ext2_driver_init_def runs_simps by simp
qed

end
