(* ===== verification/Ext2_Boot.thy ===== *)
theory Ext2_Boot
  imports Ext2_Mount
begin

text \<open>
  The theorems about the file system, from the boot on: mounting, looking up names, reading files. The example is a disk
  with a file \<open>a\<close> and a directory \<open>d\<close> in its root directory, on the machine of \<open>Disk_Protocol\<close>.
\<close>

section \<open>A small disk\<close>

definition sector_of :: "(nat \<Rightarrow> u8) \<Rightarrow> u8 list" where
  "sector_of f = map f [0..<512]"

text \<open>Blocks of 4 KB: superblock, descriptors (2056), inodes (2064), root directory (2072), the file \<open>a\<close> (2080), the
  directory \<open>d\<close> with the file \<open>f\<close> (2088); the block of \<open>f\<close> is full of zeros.\<close>

definition example_disk :: "bool \<Rightarrow> nat \<Rightarrow> u8 list" where
  "example_disk d n = sector_of (
     if n = 2050 then (\<lambda>_. 0)(0 := 16, 4 := 16, 24 := 2, 32 := 16, 40 := 16, 56 := 0x53, 57 := 0xEF)
     else if n = 2056 then (\<lambda>_. 0)(8 := 2)
     else if n = 2064 then (\<lambda>_. 0)(128 := 0xED, 129 := 0x41, 168 := 3, 256 := 0xA4, 257 := 0x81, 260 := 2, 296 := 4, 384 := 0xED, 385 := 0x41, 424 := 5)
     else if n = 2072 then (\<lambda>_. 0)(0 := 3, 4 := 12, 6 := 1, 8 := of_char CHR ''a'', 12 := 4, 16 := 0xF4, 17 := 0x0F, 18 := 1, 20 := of_char CHR ''d'')
     else if n = 2080 then (\<lambda>_. 0)(0 := of_char CHR ''h'', 1 := of_char CHR ''i'')
     else if n = 2088 then (\<lambda>_. 0)(0 := 5, 5 := 0x10, 6 := 1, 8 := of_char CHR ''f'')
     else if n = 2065 then (\<lambda>_. 0)(0 := 0xA4, 1 := 0x81, 4 := 2, 40 := 6)
     else (\<lambda>_. 0))"

definition no_inode :: ext2_inode_t where "no_inode = inode_at (\<lambda>_. 0) 0"

definition hello_va :: u64 where "hello_va = 0xffffffff80160000"

definition ext2_desk :: "(bool \<Rightarrow> nat \<Rightarrow> u8 list) \<Rightarrow> ext2" where
  "ext2_desk img = bio.extend (disk_desk\<lparr>ide := idle_drive\<lparr>sectors := img\<rparr>\<rparr>) \<lparr>kmem = put hello_va (hello_name @ [0]) (\<lambda>_. 0),
     ext2_driver = \<lparr>total_inodes = 0, total_blocks = 0, block_size = 0, blocks_per_group = 0, inodes_per_group = 0, extended_fields_available = False,
       total_groups = 0, superblock = 0, bgdt = 0, bgdt_blockno = 0, inode_size = 0, root_inode = no_inode\<rparr>\<rparr>"

lemma hsz_level: "2 ^ m \<le> j \<Longrightarrow> j < 2 ^ Suc m \<Longrightarrow> m \<le> 30 \<Longrightarrow> hsz j = 2 ^ (30 - m)"
proof (induction m arbitrary: j)
  case 0
  then have "j = 1" by simp
  then show ?case by (simp add: hsz.simps)
next
  case (Suc m)
  have "hsz (j div 2) = 2 ^ (30 - m)" using Suc.prems by (intro Suc.IH) (auto simp: less_mult_imp_div_less mult.commute)
  moreover have "30 - m = Suc (30 - Suc m)" using Suc.prems(3) by simp
  moreover have "j \<noteq> 0" using Suc.prems(1) by (intro notI) simp
  ultimately show ?case by (simp add: hsz.simps [of j])
qed

lemma boot_room:
  assumes "n \<le> 16384"
  shows "room n (heap_tree boot_kheap)" "unsplit (heap_tree boot_kheap)"
proof -
  have h: "hsz j = 65536" "j < KERNEL_HEAP_LEN" if "j \<in> {16384..<16384 + n}" for j using that assms hsz_level [of 14 j] by (auto simp: KERNEL_HEAP_LEN_def)
  have "candidate (heap_tree boot_kheap) KERNEL_HEAP_MINBLOCK 0 j \<and> sec_size (heap_tree boot_kheap j) = KERNEL_HEAP_MINBLOCK" if "j \<in> {16384..<16384 + n}" for j
    using h [OF that] by (auto intro!: fresh_candidate [OF boot_kheap_tree] simp: boot_kheap_tree fresh_section_def fits_def KERNEL_HEAP_MINBLOCK_def)
  then show "room n (heap_tree boot_kheap)" unfolding room_def by (intro exI [of _ "{16384..<16384 + n}"]) simp
  show "unsplit (heap_tree boot_kheap)" by (simp add: unsplit_def boot_kheap_tree fresh_section_def)
qed

lemma ext2_desk_simps [simp]:
  "bufs (ext2_desk img) = (\<lambda>_. unused_buf)" "bcache_va (ext2_desk img) = 0xffffffff80140000" "ide_queue_va (ext2_desk img) = 0xffffffff80150000"
  "ide (ext2_desk img) = idle_drive\<lparr>sectors := img\<rparr>" "heap_tree (ext2_desk img) = heap_tree boot_kheap" "heap_va_start (ext2_desk img) = KERNEL_HEAP_START"
  "no_return (ext2_desk img) = Some UINT64_MAX" "dll_next (ext2_desk img) = (\<lambda>_. 0)" "dll_prev (ext2_desk img) = (\<lambda>_. 0)" "entry_count (ext2_desk img) = (\<lambda>_. 0)"
  "sleeplocks (ext2_desk img) = (\<lambda>_. \<lparr>sl_is_locked = False, sl_owner_tid = 0\<rparr>)" "lapic_id (ext2_desk img) = 0"
  "cpus (ext2_desk img) = [(boot_cpu 0)\<lparr>current_thread := Some 0\<rparr>]" "locks (ext2_desk img) = locks boot_smp"
  "kmem (ext2_desk img) = put hello_va (hello_name @ [0]) (\<lambda>_. 0)"
  by (simp_all add: ext2_desk_def bio.defs)

lemma ext2_desk_serving:
  assumes "n \<le> 16384"
  shows "serving 0 n {} (ext2_desk img)"
proof -
  have "kheap_inv (ext2_desk img)" using kheap_inv_boot by (simp add: kheap_inv_def boot_kheap_env)
  moreover have "healthy (idle_drive\<lparr>sectors := img\<rparr>)" by (simp add: healthy_def idle_drive_def ide_consts)
  moreover have "outside_heap 0xffffffff80150000" by (simp add: outside_heap_def KERNEL_HEAP_START_def)
  moreover have q: "queue_ok (ext2_desk img) []" by (simp add: queue_ok_def dll_queue_def dll_ok_def)
  moreover have "cache_ok (\<lambda>_. unused_buf) (idle_drive\<lparr>sectors := img\<rparr>)" by (simp add: cache_ok_def live_def unused_buf_def)
  ultimately have inv: "disk_inv (ext2_desk img)" by (auto simp: disk_inv_def)
  have cpu: "cpu_holds {} 0 (ext2_desk img)"
    unfolding cpu_holds_def by (auto simp: registered_def boot_cpu_def boot_smp_def intro!: exI [of _ 0])
  have "ready (idle_drive\<lparr>sectors := img\<rparr>)" by (simp add: ready_def idle_drive_def)
  then show ?thesis using cpu inv q boot_room [OF assms] buf_va_nonzero [of "ext2_desk img"] unfolding serving_def by (simp add: unused_buf_def)
qed

definition example :: ext2 where "example = ext2_desk example_disk"

lemma example_sectors: "sectors_ok example"
  by (simp add: sectors_ok_def example_def example_disk_def sector_of_def)

lemma example_image: "disk_image example a = (let n = 2048 + unat a div 512; k = unat a mod 512 in
     if n = 2050 then ((\<lambda>_. 0)(0 := 16, 4 := 16, 24 := 2, 32 := 16, 40 := 16, 56 := 0x53, 57 := 0xEF)) k
     else if n = 2056 then ((\<lambda>_. 0)(8 := 2)) k
     else if n = 2064 then ((\<lambda>_. 0)(128 := 0xED, 129 := 0x41, 168 := 3, 256 := 0xA4, 257 := 0x81, 260 := 2, 296 := 4, 384 := 0xED, 385 := 0x41, 424 := 5)) k
     else if n = 2072 then ((\<lambda>_. 0)(0 := 3, 4 := 12, 6 := 1, 8 := of_char CHR ''a'', 12 := 4, 16 := 0xF4, 17 := 0x0F, 18 := 1, 20 := of_char CHR ''d'')) k
     else if n = 2080 then ((\<lambda>_. 0)(0 := of_char CHR ''h'', 1 := of_char CHR ''i'')) k
     else if n = 2088 then ((\<lambda>_. 0)(0 := 5, 5 := 0x10, 6 := 1, 8 := of_char CHR ''f'')) k
     else if n = 2065 then ((\<lambda>_. 0)(0 := 0xA4, 1 := 0x81, 4 := 2, 40 := 6)) k
     else 0)"
  by (simp add: disk_image_def example_def example_disk_def sector_of_def Let_def)

lemma le_bytes_small:
  "le_bytes m a 2 = ucast (m a) OR push_bit 8 (ucast (m (a + 1)))"
  "le_bytes m a 4 = ucast (m a) OR push_bit 8 (ucast (m (a + 1)) OR push_bit 8 (ucast (m (a + 2)) OR push_bit 8 (ucast (m (a + 3)))))"
  by (simp_all add: numeral_eq_Suc add.assoc)

lemma example_sb: "sb (fs_image example) = \<lparr>sb_total_inodes = 16, sb_total_blocks = 16, sb_su_blocks = 0, sb_free_blocks = 0, sb_free_inodes = 0,
     sb_superblock_idx = 0, sb_log2block_size = 2, sb_log2frag_size = 0, sb_blocks_per_group = 16, sb_frags_per_group = 0, sb_inodes_per_group = 16,
     sb_ext2_magic = EXT2_SIGNATURE, sb_major = 0, sb_first_inode = 0, sb_inode_size = 0\<rparr>"
  by (simp add: sb_def fs_image_def superblock_at_def le_bytes_small example_image EXT2_SIGNATURE_def)

lemma example_driver: "ext2_driver (fs_view0 example) = \<lparr>total_inodes = 16, total_blocks = 16, block_size = 4096, blocks_per_group = 16, inodes_per_group = 16,
     extended_fields_available = False, total_groups = 1, superblock = 1024, bgdt = 4096, bgdt_blockno = 1, inode_size = 128, root_inode = no_inode\<rparr>"
proof -
  have "ext2_driver (fs_image example) = \<lparr>total_inodes = 0, total_blocks = 0, block_size = 0, blocks_per_group = 0, inodes_per_group = 0,
     extended_fields_available = False, total_groups = 0, superblock = 1024, bgdt = 0, bgdt_blockno = 0, inode_size = 0, root_inode = no_inode\<rparr>"
    by (simp add: fs_image_def example_def ext2_desk_def bio.defs)
  then show ?thesis
    by (simp add: fs_view0_def geometry_def example_sb Let_def DIV_CEIL_def sizeof_bgd_def sizeof_inode_def ext2_extended_fields_available_def)
qed

lemma example_spb: "spb (fs_view0 example) = 8"
  by (simp add: spb_def example_driver DISK_SECTOR_SIZE_def)

lemma example_pos: "inode_pos (fs_view example) 2 = 8320" "inode_pos (fs_view example) 3 = 8448" "inode_pos (fs_view example) 4 = 8576" "inode_pos (fs_view example) 5 = 8704"
  by (simp_all add: inode_pos_def inode_table_def inode_group_def inode_index_def bgd_at_def le_bytes_small example_sb example_driver example_image example_spb)

lemma example_disk_image: "disk_image (fs_view example) = disk_image example"
  by (simp add: disk_image_def fun_eq_iff)

lemma example_inode:
  "ino_mode (disk_inode (fs_view example) 2) = 0x41ED" "ino_blocks (disk_inode (fs_view example) 2) 0 = 3" "ino_blocks (disk_inode (fs_view example) 2) (Suc 0) = 0"
  "ino_mode (disk_inode (fs_view example) 3) = 0x81A4" "ino_size (disk_inode (fs_view example) 3) = 2" "ino_blocks (disk_inode (fs_view example) 3) 0 = 4"
  "ino_blocks (disk_inode (fs_view example) 3) (Suc 0) = 0" "ino_blocks (disk_inode (fs_view example) 3) 12 = 0" "ino_blocks (disk_inode (fs_view example) 3) 13 = 0"
  "ino_blocks (disk_inode (fs_view example) 4) 0 = 5" "ino_blocks (disk_inode (fs_view example) 5) 0 = 6"
  by (simp_all add: disk_inode_def example_pos example_disk_image inode_at_def le_bytes_small example_image)

lemma example_block:
  assumes "unat b < 16"
  shows "bytes_of (fs_block (fs_view example) b) x = (if unat x < 4096 then disk_image example (ucast b * 4096 + x) else 0)"
proof -
  have so: "sectors_ok (fs_view example)" using example_sectors by (simp add: sectors_ok_def)
  have l: "length (fs_block (fs_view example) b) = 4096" using length_fs_block [OF so, of b] by (simp add: example_spb)
  have "fs_block (fs_view example) b ! unat x = disk_image example (ucast b * 4096 + x)" if "unat x < 4096"
  proof -
    have "fs_block (fs_view example) b ! unat x = disk_image example (of_nat (unat b * 4096 + unat x))"
      using block_on_disk [OF so, of "unat x" b] that assms by (simp add: example_spb example_disk_image)
    moreover have "of_nat (unat b * 4096 + unat x) = ucast b * 4096 + x" by simp
    ultimately show ?thesis by (simp only:)
  qed
  then show ?thesis by (simp add: bytes_of_def put_def l)
qed

abbreviation example_dir :: "(u32 \<times> (u8 list \<times> u32) list) list" where
  "example_dir \<equiv> [(3, [(map of_char ''a'', 3), (map of_char ''d'', 4)])]"

lemma example_ext2: "ext2_image example example_dir"
proof -
  have f: "inode_ok (fs_view example) 2" "inode_ok (fs_view example) 3" "inode_ok (fs_view example) 4" "bgdt_fits (fs_view example)"
    by (simp_all add: inode_ok_def example_pos FSSIZE_def inode_group_def example_sb example_driver sizeof_bgd_def bgdt_fits_def block_ok_def example_spb)
  let ?m = "bytes_of (fs_block (fs_view example) 3)"
  have "dir_entry_at ?m 0 = \<lparr>de_inode = 3, de_size = 12, de_namelength = 1, de_reserved = 0\<rparr>"
    "dir_entry_at ?m 12 = \<lparr>de_inode = 4, de_size = 4084, de_namelength = 1, de_reserved = 0\<rparr>"
    "dir_entry_at ?m 4096 = \<lparr>de_inode = 0, de_size = 0, de_namelength = 0, de_reserved = 0\<rparr>"
    by (simp_all add: dir_entry_at_def le_bytes_small example_block example_image)
  moreover have "bytes_at ?m 8 1 = map of_char ''a''" "bytes_at ?m 20 1 = map of_char ''d''"
    by (simp_all add: bytes_at_def example_block example_image)
  ultimately have "dir_at ?m 0 0 [(map of_char ''a'', 3), (map of_char ''d'', 4)]"
    by (simp add: Let_def del: bytes_at_nth)
  then have "dir_block (fs_view example) 3 [(map of_char ''a'', 3), (map of_char ''d'', 4)]" by (simp add: dir_block_def block_ok_def example_spb FSSIZE_def)
  then have "root_dir (fs_view example) example_dir"
    using f(2,3) example_inode by (simp add: root_dir_def fs_view_inode [symmetric] INODE_TYPE_DIRECTORY_def entries_def)
  then show ?thesis using f example_sectors by (simp add: ext2_image_def example_sb sane_sb_def DIV_CEIL_def)
qed

lemma example_memory: "zeroed example" "name_at example hello_va hello_name"
proof -
  have h: "length hello_name = 11" "0 \<notin> set hello_name" by (simp_all add: hello_name_def)
  have o: "outside_heap (hello_va + of_nat i)" if "i < 12" for i
  proof -
    have "unat (hello_va + of_nat i) = 0xffffffff80160000 + i" using that by (simp add: hello_va_def unat_word_ariths unat_of_nat take_bit_nat_eq_self)
    then show ?thesis by (simp add: outside_heap_def KERNEL_HEAP_START_def)
  qed
  then show "name_at example hello_va hello_name" using cstr_put [OF h(2)] h(1) by (auto simp: name_at_def example_def hello_va_def)
  have "kmem example x = 0" if "\<not> outside_heap x" for x
  proof -
    have "x = hello_va + of_nat (unat (x - hello_va))" by simp
    then have "\<not> unat (x - hello_va) < 12" using o that by metis
    then show ?thesis by (simp add: example_def put_def h(1))
  qed
  then show "zeroed example" by (simp add: zeroed_def)
qed

section \<open>Mounting\<close>

text \<open>C2: mounting completes and is right. On a disk that holds an ext2 file system with blocks of 4 KB or more,
  \<open>ext2_driver_init\<close> returns; afterwards the driver's parameters, its root inode, its group descriptors and so every
  inode are those on the disk, and reading can go on.\<close>

theorem ext2_driver_init_mounts:
  fixes s :: "'a ext2_scheme"
  assumes sv: "serving th (mount_cost s ds + n) {} s" and im: "ext2_image s ds" and z: "zeroed s" and nm: "name_at s f hello_name"
  shows "\<exists>t. ext2_driver_init ideintr f s = Inr ((), t) \<and> mounted_as s t \<and> serving th n {} t
     \<and> (\<forall>i. inode_ok (fs_view s) i \<longrightarrow> disk_inode t i = disk_inode (fs_view s) i)"
proof -
  from ext2_driver_init_runs [OF assms] obtain t where t: "ext2_driver_init ideintr f s = Inr ((), t)" "serving th n {} t" "mounted_as s t" by (auto simp: runs_def)
  have "same_fs (fs_view s) t" using t(3) by (simp add: mounted_as_def)
  then show ?thesis using t same_fs_inode(2) by blast
qed

theorem ext2_driver_init_mounts_witness:
  "\<exists>t. ext2_driver_init ideintr hello_va example = Inr ((), t) \<and> ino_mode (disk_inode t 3) = 0x81A4"
proof -
  have sv: "serving 0 (mount_cost example example_dir + 0) {} example" unfolding example_def [symmetric]
    using ext2_desk_serving [of 39 example_disk] by (simp add: mount_cost_def example_spb example_driver example_def [symmetric])
  have "inode_ok (fs_view example) 3" using example_ext2 by (simp add: ext2_image_def root_dir_def entries_def)
  then show ?thesis using ext2_driver_init_mounts [OF sv example_ext2 example_memory] example_inode(4) by auto
qed

section \<open>Finding and reading a file\<close>

text \<open>C3: a name in the root directory is looked up as in a finite map. On a mounted file system \<open>ext2_find_file_inode\<close>
  returns: \<open>UINT32_MAX\<close> for a name that no entry has, and otherwise 0 and the inode of the first entry with that name.
  The disk, the driver and all memory that was allocated before stay as they were.\<close>

theorem ext2_find_file_inode_is_map_of:
  fixes s :: "'a ext2_scheme"
  assumes mt: "mounted s" and z: "zeroed s" and rd: "root_dir s ds" and p: "file_name p"
    and sv: "serving th (Suc (Suc (scan_cost (spb s) ds + Suc n))) {} s"
  shows "\<exists>t. ext2_find_file_inode ideintr (CHR ''/'' # p) s =
      Inr (case map_of (entries ds) (map of_char p) of None \<Rightarrow> (UINT32_MAX, None) | Some i \<Rightarrow> (0, Some (disk_inode s i)), t)
     \<and> follows s t \<and> serving th n {} t"
  using find_root_file_runs [OF assms] by (auto simp: runs_def found_def)

text \<open>The state after mounting the example.\<close>

lemma example_mounted:
  obtains t where "mounted t" "zeroed t" "root_dir t example_dir" "serving 0 100 {} t" "same_fs (fs_view example) t" "\<not> extended_fields_available (ext2_driver t)"
proof -
  have sv: "serving 0 (mount_cost example example_dir + 100) {} example"
    using ext2_desk_serving [of 139 example_disk] by (simp add: mount_cost_def example_spb example_driver example_def [symmetric])
  from ext2_driver_init_runs [OF sv example_ext2 example_memory] obtain t where t: "serving 0 100 {} t" "grows example t" "mounted_as example t" by (auto simp: runs_def)
  have rd: "root_dir (fs_view example) example_dir" using example_ext2 by (simp add: ext2_image_def)
  show thesis
    by (rule that [of t]) (use t zeroed_grows [OF example_memory(1)] same_fs_root [OF _ _ rd, of t] example_driver in \<open>auto simp: mounted_as_def\<close>)
qed

theorem ext2_find_file_inode_is_map_of_witness:
  "\<exists>(s :: ext2) t. ext2_find_file_inode ideintr ''/a'' s = Inr ((0, Some (disk_inode (fs_view example) 3)), t)
     \<and> (\<exists>t. ext2_find_file_inode ideintr ''/b'' s = Inr ((UINT32_MAX, None), t))"
proof -
  obtain s where s: "mounted s" "zeroed s" "root_dir s example_dir" "serving 0 100 {} s" "same_fs (fs_view example) s" by (rule example_mounted)
  have sp: "spb s = 8" using same_fs_disk(1) [OF s(5)] by (simp add: example_spb)
  have sv: "serving 0 (Suc (Suc (scan_cost (spb s) example_dir + Suc 0))) {} s" using s(4) by (rule serving_mono) (simp add: sp)
  have n: "file_name ''a''" "file_name ''b''" by (simp_all add: file_name_def)
  have "inode_ok (fs_view example) 3" using example_ext2 by (simp add: ext2_image_def root_dir_def entries_def)
  then have d: "disk_inode s 3 = disk_inode (fs_view example) 3" by (rule same_fs_inode(2) [OF s(5)])
  have e: "map_of (entries example_dir) (map of_char ''a'') = Some 3" "map_of (entries example_dir) (map of_char ''b'') = None" by (simp_all add: entries_def)
  from ext2_find_file_inode_is_map_of [OF s(1-3) n(1) sv] ext2_find_file_inode_is_map_of [OF s(1-3) n(2) sv] show ?thesis
    unfolding e option.case d by blast
qed

text \<open>C1: from the boot to the bytes of a file. After \<open>ext2_driver_init\<close>, \<open>ext2_read_file\<close> of a regular file in the root
  directory with direct blocks and at most 64 KB returns a buffer that holds the bytes the disk has for it.\<close>

theorem read_file_after_mount:
  fixes s :: "'a ext2_scheme"
  assumes sv: "serving th (mount_cost s ds + (4 + scan_cost (spb (fs_view s)) ds + spb (fs_view s) * length bs + n)) {} s"
    and im: "ext2_image s ds" and z: "zeroed s" and nm: "name_at s f hello_name"
    and p: "file_name p" "map_of (entries ds) (map of_char p) = Some i" and sf: "small_file (fs_view s) (disk_inode (fs_view s) i) bs"
    and ex: "\<not> extended_fields_available (ext2_driver (fs_view s))"
  shows "\<exists>a t. seqn (ext2_driver_init ideintr f) (ext2_read_file ideintr (CHR ''/'' # p)) s = Inr (a, t) \<and> a \<noteq> 0
     \<and> bytes_at (kmem t) a (unat (ino_size (disk_inode (fs_view s) i))) = take (unat (ino_size (disk_inode (fs_view s) i))) (contents (fs_view s) bs)"
proof -
  let ?v = "fs_view s" and ?n = "unat (ino_size (disk_inode (fs_view s) i))"
  from ext2_driver_init_runs [OF sv im z nm] obtain t where t: "ext2_driver_init ideintr f s = Inr ((), t)"
    "serving th (4 + scan_cost (spb ?v) ds + spb ?v * length bs + n) {} t" "grows s t" "mounted_as s t" by (auto simp: runs_def)
  have fs: "same_fs ?v t" and mt: "mounted t" and e: "\<not> extended_fields_available (ext2_driver t)" using t(4) ex by (auto simp: mounted_as_def)
  note S = same_fs_disk [OF fs]
  have rdv: "root_dir ?v ds" and sm: "sectors_ok ?v" using im by (auto simp: ext2_image_def sectors_ok_def)
  have rd: "root_dir t ds" using same_fs_root [OF fs _ rdv] t(4) by (simp add: mounted_as_def)
  have "inode_ok ?v i" using rdv map_of_SomeD [OF p(2)] by (auto simp: root_dir_def)
  then have di: "disk_inode t i = disk_inode ?v i" by (rule same_fs_inode(2) [OF fs])
  have "direct_from t x j cs" if "direct_from ?v x j cs" for x j cs using that by (induction cs arbitrary: j) (simp_all add: S)
  then have sft: "small_file t (disk_inode t i) bs" using sf by (simp add: small_file_def di S del: fs_view_simps)
  have c: "contents t bs = contents ?v bs" "length (contents ?v bs) = 512 * spb ?v * length bs"
    using length_concat_const [of bs "fs_block ?v" "512 * spb ?v"] length_fs_block [OF sm] by (simp_all add: contents_def S fun_eq_iff cong: map_cong)
  have svt: "serving th (Suc (Suc (scan_cost (spb t) ds + Suc (Suc (n + spb t * length bs))))) {} t" using t(2) by (simp add: S numeral_eq_Suc algebra_simps del: fs_view_simps)
  from ext2_read_file_runs [OF mt zeroed_grows [OF z t(3)] rd p sft e svt] obtain a u where
    u: "ext2_read_file ideintr (CHR ''/'' # p) t = Inr (a, u)" "holds_file t (contents ?v bs) a u" by (auto simp: runs_def c)
  have "?n \<le> length (contents ?v bs)" using sf by (simp add: small_file_def c)
  then have "bytes_at (kmem u) a ?n = take ?n (bytes_at (kmem u) a (length (contents ?v bs)))" by (simp add: bytes_at_def take_map)
  then show ?thesis using t(1) u by (auto simp: seqn_def bnd_def holds_file_def)
qed

theorem read_file_after_mount_witness:
  "\<exists>a t. seqn (ext2_driver_init ideintr hello_va) (ext2_read_file ideintr ''/a'') example = Inr (a, t) \<and> a \<noteq> 0 \<and> bytes_at (kmem t) a 2 = map of_char ''hi''"
proof -
  have sv: "serving 0 (mount_cost example example_dir + (4 + scan_cost (spb (fs_view example)) example_dir + spb (fs_view example) * length [4 :: u32] + 0)) {} example"
    using ext2_desk_serving [of 62 example_disk] by (simp add: mount_cost_def example_spb example_driver example_def [symmetric])
  have m: "map_of (entries example_dir) (map of_char ''a'') = Some 3" by (simp add: entries_def)
  have sf: "small_file (fs_view example) (disk_inode (fs_view example) 3) [4]"
    by (simp add: small_file_def example_inode INODE_TYPE_FILE_def block_ok_def example_spb FSSIZE_def)
  have "bytes_of (fs_block (fs_view example) 4) 0 = of_char CHR ''h''" "bytes_of (fs_block (fs_view example) 4) 1 = of_char CHR ''i''"
    by (simp_all add: example_block example_image Let_def)
  moreover have l: "length (fs_block (fs_view example) 4) = 4096"
    using length_fs_block [of "fs_view example" 4] example_sectors by (simp add: example_spb sectors_ok_def)
  ultimately have c: "take 2 (contents (fs_view example) [4]) = map of_char ''hi''"
    by (intro nth_equalityI) (auto simp: contents_def bytes_of_def put_def less_2_cases_iff)
  have ex: "\<not> extended_fields_available (ext2_driver (fs_view example))" by (simp add: example_driver)
  have "file_name ''a''" by (simp add: file_name_def)
  from read_file_after_mount [OF sv example_ext2 example_memory this m sf ex] show ?thesis by (simp add: example_inode(5) c)
qed

end
