(* ===== verification/Ext2_Limits.thy ===== *)
theory Ext2_Limits
  imports Ext2_Boot
begin

text \<open>
  Where \<open>ext2_find_file_inode\<close> (fs/ext2.c) fails: files below a directory. The statement is about complete runs on a mounted
  file system.
\<close>

section \<open>Paths with a directory\<close>

lemma path_split2:
  fixes xs ys :: "u8 list"
  assumes x: "0 \<notin> set xs" "c \<notin> set xs" and y: "0 \<notin> set ys" "c \<notin> set ys" and c: "c \<noteq> 0" and l: "length xs + length ys < 65000"
  shows "strsplit a c 0 0 (put a (c # xs @ c # ys @ [0]) m) = Some (3, put a (0 # xs @ 0 # ys @ [0]) m)"
proof -
  let ?m0 = "put a ([] @ c # xs @ c # ys @ [0]) m"
  let ?m1 = "put a ([] @ 0 # xs @ c # ys @ [0]) m" and ?m2 = "put a ((0 # xs) @ 0 # ys @ [0]) m" and ?k = "length (0 # xs)"
  have s0: "strsplit a c 0 0 ?m0 = strsplit a c 1 1 ?m1"
  proof -
    have "?m0 (a + of_nat 0) = c" by (simp add: put_def)
    moreover have "?m0(a + of_nat (length ([] :: u8 list)) := 0) = ?m1" by (rule put_write) (use l in simp)
    ultimately show ?thesis using c by (subst strsplit.simps) (simp add: Let_def)
  qed
  have "strsplit a c 1 1 ?m1 = strsplit a c (1 + length xs) 1 ?m1"
    using bytes_at_inside [of "[0]" xs "c # ys @ [0]" a m] x l by (intro strsplit_skip) simp_all
  also have "\<dots> = strsplit a c (2 + length xs) (Suc (Suc 0)) ?m2"
  proof -
    have "bytes_at ?m1 (a + of_nat ?k) (length [c]) = [c]" using bytes_at_inside [of "0 # xs" "[c]" "ys @ [0]" a m] l by simp
    then have b: "?m1 (a + of_nat ?k) = c" by (simp add: bytes_at_def)
    have w: "?m1(a + of_nat ?k := 0) = ?m2" using put_write [of "0 # xs" "ys @ [0]" a c m 0] l by simp
    show ?thesis using b w c by (subst strsplit.simps) (simp add: Let_def)
  qed
  also have "\<dots> = Some (3, ?m2)"
  proof -
    have "bytes_at ?m2 (a + of_nat (length (0 # xs @ [0]))) (length ys) = ys" "bytes_at ?m2 (a + of_nat (length (0 # xs @ 0 # ys))) (length [0 :: u8]) = [0]"
      using bytes_at_inside [of "0 # xs @ [0]" ys "[0]" a m] bytes_at_inside [of "0 # xs @ 0 # ys" "[0]" "[]" a m] l by simp_all
    then have "cstr ?m2 (a + of_nat (2 + length xs)) ys" using y by (simp add: cstr_iff bytes_at_def add.assoc algebra_simps)
    from strsplit_plain [OF this y(2)] show ?thesis by simp
  qed
  finally show ?thesis using s0 by simp
qed

lemma buf_ready_follows:
  assumes r: "buf_ready s buf t" and f: "follows t u"
  shows "buf_ready s buf u"
proof -
  have h: "byte_range KERNEL_HEAP_MINBLOCK buf \<subseteq> heap_used t" using r by (simp add: buf_ready_def)
  have "kmem u (buf + of_nat i) = kmem t (buf + of_nat i)" if "i < 65536" for i using follows_bytes [OF f h, of i] that by (simp add: KERNEL_HEAP_MINBLOCK_def)
  then show ?thesis using r f follows_trans [of s t u] by (auto simp: buf_ready_def) (auto simp: follows_def same_disk_def)
qed

text \<open>The first block of an inode is searched, whatever the inode is.\<close>

lemma nested_lookup_runs:
  fixes s t :: "'a ext2_scheme"
  assumes mt: "mounted s" and nm: "name_at s f nm" and i: "inode_ok s i" "ino_blocks (disk_inode s i) 0 = b" "b \<noteq> 0" and d: "dir_block s b es"
    and r: "buf_ready s buf t" and sv: "serving th (Suc (spb s + (Suc (length es) + n))) {} t" and og: "\<not> outside_heap og"
    and ok: "\<And>i. map_of es nm = Some i \<Longrightarrow> inode_ok s i"
    and P: "\<And>v. serving th n {} v \<Longrightarrow> buf_ready s buf v \<Longrightarrow> P (if lookup_name es nm \<noteq> 0 then Some (lookup_name es nm) else None) v"
  shows "runs (nested_lookup ideintr og buf i f) t P"
proof -
  have ft: "follows s t" using r by (simp add: buf_ready_def)
  let ?tail = "\<lambda>k. if k \<noteq> 0 then ret (Some k) else seqn (kfree og) (ret None)"
  have "runs (ext2_read_inode ideintr i) t (\<lambda>inode u. runs (if ino_blocks inode 0 = 0 then ret (Some i)
     else seqn (ext2_read_block ideintr buf (ino_blocks inode 0)) (bnd (ext2_read_from_directory ideintr f buf) ?tail)) u P)"
  proof (rule ext2_read_inode_runs [OF sv mounted_follows [OF mt ft] inode_follows(1) [OF mt ft i(1)]])
    fix u assume u: "serving th (spb s + (Suc (length es) + n)) {} u" "follows t u"
    have "runs (ext2_read_block ideintr buf b) u (\<lambda>_ u. runs (ext2_read_from_directory ideintr f buf) u (\<lambda>k v. runs (?tail k) v P))"
    proof (rule search_block_runs [OF mt nm d buf_ready_follows [OF r u(2)] u(1) ok])
      fix v assume v: "serving th n {} v" "buf_ready s buf v"
      have "in_use (heap_tree v 0)" using mounted_follows [OF mt] v(2) by (auto simp: mounted_def buf_ready_def)
      then have "runs (kfree og) v (\<lambda>_ w. P None w)" if "lookup_name es nm = 0"
        by (rule kfree_follows [OF v(1) _ og]) (use that P buf_ready_follows [OF v(2)] in auto)
      then show "runs (?tail (lookup_name es nm)) v P" using P [OF v] by (auto simp: runs_simps split: if_splits)
    qed
    then show "runs (if ino_blocks (disk_inode t i) 0 = 0 then ret (Some i)
       else seqn (ext2_read_block ideintr buf (ino_blocks (disk_inode t i) 0)) (bnd (ext2_read_from_directory ideintr f buf) ?tail)) u P"
      using i(2,3) inode_follows(2) [OF mt ft i(1)] by (simp add: runs_simps)
  qed
  then show ?thesis unfolding nested_lookup_def Let_def runs_simps .
qed

lemma strlen_runs:
  assumes "cstr (kmem s) a xs" "P (of_nat (length xs)) s"
  shows "runs (c_strlen a) s P"
  using strlen_cstr [of "kmem s" a 0 xs] assms by (simp add: c_strlen_def runs_simps)

text \<open>
  The two names of a path and the empty string behind them; the directory \<open>p\<close> has the block \<open>b\<close>, and the first block of
  what it calls \<open>q\<close> is \<open>c\<close>.
\<close>

definition below :: "'a ext2_scheme \<Rightarrow> (u8 list \<times> u32) list \<Rightarrow> u8 list \<Rightarrow> u8 list \<Rightarrow> u32 \<Rightarrow> (u8 list \<times> u32) list \<Rightarrow> u32 \<Rightarrow> (u8 list \<times> u32) list \<Rightarrow> bool" where
  "below s rt p q b es c fs \<longleftrightarrow> (\<exists>i j. map_of rt p = Some i \<and> ino_blocks (disk_inode s i) 0 = b \<and> b \<noteq> 0 \<and> dir_block s b es \<and> map_of es q = Some j
     \<and> inode_ok s j \<and> ino_blocks (disk_inode s j) 0 = c \<and> c \<noteq> 0 \<and> dir_block s c fs \<and> map_of fs [] = None)"

lemma nested_search_runs:
  fixes s t :: "'a ext2_scheme"
  assumes mt: "mounted s" and nm: "name_at s f q" "name_at s (f + of_nat (length q) + 1) []"
    and i: "inode_ok s i" "ino_blocks (disk_inode s i) 0 = b" "b \<noteq> 0" "dir_block s b es" "map_of es q = Some j"
    and j: "inode_ok s j" "ino_blocks (disk_inode s j) 0 = c" "c \<noteq> 0" "dir_block s c fs" "map_of fs [] = None"
    and r: "buf_ready s buf t" and og: "\<not> outside_heap og"
    and sv: "serving th (Suc (spb s + (Suc (length es) + Suc (spb s + (Suc (length fs) + n))))) {} t"
  shows "runs (nested_loop ideintr og buf 2 i f) t (\<lambda>r u. r = None \<and> serving th n {} u \<and> follows s u)"
proof -
  have jn: "lookup_name es q = j" "j \<noteq> 0" using i(5) dir_at_nonzero [of _ _ _ es q j] i(4) map_of_SomeD [OF i(5)] by (auto simp: lookup_name_def dir_block_def)
  have fn: "lookup_name fs [] = 0" using j(5) by (simp add: lookup_name_def)
  let ?f2 = "f + of_nat (length q) + 1" and ?Q = "\<lambda>r u. r = None \<and> serving th n {} u \<and> follows s u"
  have "runs (nested_lookup ideintr og buf i f) t (\<lambda>r u. runs (case r of None \<Rightarrow> ret None
     | Some k \<Rightarrow> bnd (c_strlen f) (\<lambda>l. nested_loop ideintr og buf (Suc 0) k (f + l + 1))) u ?Q)"
  proof (rule nested_lookup_runs [OF mt nm(1) i(1-4) r sv og])
    show "inode_ok s k" if "map_of es q = Some k" for k using that i(5) j(1) by simp
    fix u assume u: "serving th (Suc (spb s + (Suc (length fs) + n))) {} u" "buf_ready s buf u"
    have fu: "follows s u" using u(2) by (simp add: buf_ready_def)
    have "runs (nested_lookup ideintr og buf j ?f2) u (\<lambda>r u. runs (case r of None \<Rightarrow> ret None
       | Some k \<Rightarrow> bnd (c_strlen ?f2) (\<lambda>l. ret (Some k))) u ?Q)"
      by (rule nested_lookup_runs [OF mt nm(2) j(1-4) u(2,1) og]) (use j(5) in \<open>auto simp: fn runs_simps buf_ready_def\<close>)
    then have "runs (nested_loop ideintr og buf (Suc 0) j ?f2) u ?Q" by (simp add: runs_simps)
    moreover have "cstr (kmem u) f q" using name_follows [OF nm(1) fu] by (simp add: name_at_def)
    ultimately have "runs (c_strlen f) u (\<lambda>l u. runs (nested_loop ideintr og buf (Suc 0) j (f + l + 1)) u ?Q)" by (intro strlen_runs)
    then show "runs (case if lookup_name es q \<noteq> 0 then Some (lookup_name es q) else None of None \<Rightarrow> ret None
       | Some k \<Rightarrow> bnd (c_strlen f) (\<lambda>l. nested_loop ideintr og buf (Suc 0) k (f + l + 1))) u ?Q" using jn by (simp add: runs_simps)
  qed
  then show ?thesis by (simp only: numeral_2_eq_2 nested_loop.simps(2) [where dir_depth = "Suc 0"] runs_simps(1))
qed

text \<open>The copy of the path in fresh memory holds both names and, behind them, the empty string.\<close>

lemma path_names:
  assumes u: "byte_range KERNEL_HEAP_MINBLOCK a \<subseteq> heap_used u" and z: "\<And>i. i < 65536 \<Longrightarrow> m (a + of_nat i) = 0"
    and nm: "0 \<notin> set xs" "0 \<notin> set ys" "length xs + length ys < 65000"
  shows "name_at (u\<lparr>kmem := put a (0 # xs @ 0 # ys @ [0]) m\<rparr>) (a + 1) xs"
    "name_at (u\<lparr>kmem := put a (0 # xs @ 0 # ys @ [0]) m\<rparr>) (a + of_nat (length xs) + 2) ys"
    "name_at (u\<lparr>kmem := put a (0 # xs @ 0 # ys @ [0]) m\<rparr>) (a + of_nat (length xs) + 2 + of_nat (length ys) + 1) []"
proof -
  let ?m = "put a (0 # xs @ 0 # ys @ [0]) m" and ?k = "length xs" and ?n = "length xs + length ys + 3"
  have M: "unat KERNEL_HEAP_MINBLOCK = 65536" by (simp add: KERNEL_HEAP_MINBLOCK_def)
  have nz: "a + of_nat i \<noteq> 0 \<and> unat (a + of_nat i) \<in> heap_used (u\<lparr>kmem := ?m\<rparr>)" if "i < 65536" "0 < i" for i
    using byte_range_unat [OF u, of i] that by (auto simp: M heap_used_def)
  have at: "name_at (u\<lparr>kmem := ?m\<rparr>) (a + of_nat i) s" if "cstr ?m (a + of_nat i) s" "0 < i" "i + length s < 65536" for i s
    using that nz [of i] nz [of "i + _"] by (auto simp: name_at_def add.assoc)
  have "cstr ?m (a + of_nat 1) xs"
    using bytes_at_inside [of "[0]" xs "0 # ys @ [0]" a m] bytes_at_inside [of "0 # xs" "[0]" "ys @ [0]" a m] nm by (simp add: cstr_iff bytes_at_def add.assoc)
  from at [OF this] show "name_at (u\<lparr>kmem := ?m\<rparr>) (a + 1) xs" using nm(3) by simp
  have "cstr ?m (a + of_nat (?k + 2)) ys"
    using bytes_at_inside [of "0 # xs @ [0]" ys "[0]" a m] bytes_at_inside [of "0 # xs @ 0 # ys" "[0]" "[]" a m] nm by (simp add: cstr_iff bytes_at_def add.assoc algebra_simps)
  from at [OF this] show "name_at (u\<lparr>kmem := ?m\<rparr>) (a + of_nat ?k + 2) ys" using nm(3) by (simp add: algebra_simps)
  have "unat (of_nat ?n :: u64) = ?n" using nm(3) by (simp only: unat_of_nat) (simp add: take_bit_nat_eq_self)
  then have "cstr ?m (a + of_nat ?n) []" using z [of ?n] nm(3) by (simp add: put_def del: of_nat_add)
  from at [OF this] show "name_at (u\<lparr>kmem := ?m\<rparr>) (a + of_nat ?k + 2 + of_nat (length ys) + 1) []" using nm(3) by (simp add: algebra_simps)
qed

lemma find_below_runs:
  fixes s v :: "'a ext2_scheme"
  assumes mt: "mounted v" and z: "zeroed v" and rd: "root_dir v ds" and og: "\<not> outside_heap og"
    and nm: "name_at v (og + 1) p" "name_at v (og + of_nat (length p) + 2) q" "name_at v (og + of_nat (length p) + 2 + of_nat (length q) + 1) []"
    and b: "below v (entries ds) p q b es c fs"
    and sv: "serving th (Suc (scan_cost (spb v) ds + Suc (Suc (spb v + (Suc (length es) + Suc (spb v + (Suc (length fs) + n))))))) {} v"
  shows "runs (find_from_root ideintr og 3) v (\<lambda>r t. r = (UINT32_MAX, None) \<and> serving th n {} t \<and> follows v t)"
proof -
  from b obtain i j where i: "map_of (entries ds) p = Some i" "ino_blocks (disk_inode v i) 0 = b" "b \<noteq> 0" "dir_block v b es" "map_of es q = Some j"
    and j: "inode_ok v j" "ino_blocks (disk_inode v j) 0 = c" "c \<noteq> 0" "dir_block v c fs" "map_of fs [] = None" by (auto simp: below_def)
  have io: "inode_ok v i" "lookup_name (entries ds) p = i" using rd map_of_SomeD [OF i(1)] i(1) by (auto simp: root_dir_def lookup_name_def)
  let ?k = "Suc (spb v + (Suc (length es) + Suc (spb v + (Suc (length fs) + n))))" and ?Q = "\<lambda>r t. r = (UINT32_MAX, None) \<and> serving th n {} t \<and> follows v t"
  let ?f2 = "og + of_nat (length p) + 2"
  let ?rest = "\<lambda>l. bnd (bnd (gets (\<lambda>s. ucast (block_size (ext2_driver s)))) kalloc) (\<lambda>buf.
        if buf = 0 then raise (Panic ''ext2_find_file_inode() --> kalloc() failure.'')
        else bnd (nested_loop ideintr og buf (unat (of_nat 3 - 1 :: u32)) i (og + 1 + (l + 1))) (\<lambda>r. case r of
          None \<Rightarrow> ret (UINT32_MAX, None)
        | Some n \<Rightarrow> bnd (ext2_read_inode ideintr n) (\<lambda>inode. seqn (kfree og) (seqn (kfree buf) (ret (0, Some inode))))))"
  have "runs (ext2_read_from_root_directory ideintr (og + 1)) v (\<lambda>r w. r = i \<and> serving th (Suc ?k) {} w \<and> follows v w)"
    using root_directory_runs [OF mt nm(1) z rd sv] by (simp add: io(2))
  then have "runs (ext2_read_from_root_directory ideintr (og + 1)) v (\<lambda>r w. r = i \<and> runs (c_strlen (og + 1)) w (\<lambda>l w. runs (?rest l) w ?Q))"
  proof (rule runs_mono, elim conjE, intro conjI)
    fix r w assume w: "serving th (Suc ?k) {} w" "follows v w"
    have g: "geometry_ok w" using mounted_follows [OF mt w(2)] by (simp add: mounted_def)
    have "cstr (kmem w) (og + 1) p" using name_follows [OF nm(1) w(2)] by (simp add: name_at_def)
    then show "runs (c_strlen (og + 1)) w (\<lambda>l w. runs (?rest l) w ?Q)"
    proof (rule strlen_runs)
      have k: "runs (kalloc (ucast (block_size (ext2_driver w)))) w (\<lambda>buf x. runs (nested_loop ideintr og buf 2 i ?f2) x (\<lambda>r t. r = None \<and> serving th n {} t \<and> follows v t) \<and> buf \<noteq> 0)"
      proof (rule kalloc_follows [OF w(1) block_size_u64 [OF g]], intro conjI)
        fix buf x assume x: "buf \<noteq> 0" "serving th ?k {} x" "byte_range KERNEL_HEAP_MINBLOCK buf \<inter> heap_used w = {}" "byte_range KERNEL_HEAP_MINBLOCK buf \<subseteq> heap_used x"
          "kmem x = kmem w" "follows w x"
        have "buf_ready w buf x" by (rule fresh_buffer [OF zeroed_follows [OF z w(2)] x(3-6)])
        then have "buf_ready v buf x" using w(2) follows_trans [OF w(2) x(6)] follows_disk(1) [OF w(2)] by (auto simp: buf_ready_def follows_def same_disk_def)
        then show "runs (nested_loop ideintr og buf 2 i ?f2) x (\<lambda>r t. r = None \<and> serving th n {} t \<and> follows v t)"
          by (rule nested_search_runs [OF mt nm(2,3) io(1) i(2-5) j _ og x(2)])
      qed simp
      have e: "og + 1 + (of_nat (length p) + 1) = ?f2" "unat (of_nat 3 - 1 :: u32) = 2" by simp_all
      show "runs (?rest (of_nat (length p))) w ?Q"
        unfolding runs_simps(1,4) e
      proof (rule runs_mono [OF k], elim conjE)
        fix buf x assume x: "runs (nested_loop ideintr og buf 2 i ?f2) x (\<lambda>r t. r = None \<and> serving th n {} t \<and> follows v t)" "buf \<noteq> 0"
        have "runs (bnd (nested_loop ideintr og buf 2 i ?f2) (\<lambda>r. case r of None \<Rightarrow> ret (UINT32_MAX, None)
          | Some n \<Rightarrow> bnd (ext2_read_inode ideintr n) (\<lambda>inode. seqn (kfree og) (seqn (kfree buf) (ret (0, Some inode)))))) x ?Q"
          unfolding runs_simps(1) by (rule runs_mono [OF x(1)]) (auto simp: runs_simps)
        then show "runs (if buf = 0 then raise (Panic ''ext2_find_file_inode() --> kalloc() failure.'')
          else bnd (nested_loop ideintr og buf 2 i ?f2) (\<lambda>r. case r of None \<Rightarrow> ret (UINT32_MAX, None)
          | Some n \<Rightarrow> bnd (ext2_read_inode ideintr n) (\<lambda>inode. seqn (kfree og) (seqn (kfree buf) (ret (0, Some inode)))))) x ?Q"
          using x(2) by simp
      qed
    qed
  qed simp
  moreover have d: "(of_nat 3 - 1 \<le> (1 :: u32)) = False" by (simp add: word_le_nat_alt)
  ultimately show ?thesis unfolding find_from_root_def Let_def runs_simps(1) d if_False by (elim runs_mono) (simp only:)
qed

lemma below_same_fs:
  assumes f: "same_fs s t" and rd: "root_dir s ds" and b: "below s (entries ds) p q b es c fs"
  shows "below t (entries ds) p q b es c fs"
proof -
  from b obtain i j where i: "map_of (entries ds) p = Some i" "ino_blocks (disk_inode s i) 0 = b" "b \<noteq> 0" "dir_block s b es" "map_of es q = Some j"
    "inode_ok s j" "ino_blocks (disk_inode s j) 0 = c" "c \<noteq> 0" "dir_block s c fs" "map_of fs [] = None" by (auto simp: below_def)
  have "inode_ok s i" using rd map_of_SomeD [OF i(1)] by (auto simp: root_dir_def)
  then show ?thesis unfolding below_def using i same_fs_inode [OF f] by (auto simp: dir_block_def same_fs_disk [OF f])
qed



end
