(* ===== verification/Firmware.thy ===== *)
theory Firmware
  imports Ext2
begin

text \<open>
  What the kernel learns from the boot loader and the firmware: the Multiboot information (boot/multiboot.c, the memory map
  part of mem/pmm.c) and the ACPI tables (arch/x86_64/acpi.c, \<open>init_ioapic\<close> of apic.c).

  The tables are bytes of \<open>kmem\<close>; a C structure that is laid over them is a group of functions that read its fields. The
  record \<open>plat\<close> adds the fields of \<open>global_Settings\<close> that these files fill, and what the interrupt code of the theory
  \<open>Interrupts\<close> keeps. Entry \<open>i\<close> of \<open>cpus\<close> is \<open>cpu[i]\<close> and the length of the list is \<open>cpu_count\<close>; the pointer \<open>local_apic\<close> of
  a CPU is kept apart.
\<close>

section \<open>State\<close>

record InterruptDescriptor64 =
  offset_low :: u16
  selector :: u16
  desc_ist :: u8
  type_attributes :: u8
  offset_mid :: u16
  offset_high :: u32
  desc_zero :: u32

record IDTR =
  idtr_limit :: u16
  idtr_base :: u64

text \<open>The registers of the I/O APIC behind its index and window, and those of each local APIC, are memory of the devices:
  \<open>io_apic_regs\<close> and \<open>lapic_regs\<close> hold what was written last, as \<open>msr\<close> does for the model-specific registers of each CPU.
  \<open>port_log\<close> is the sequence of bytes written to I/O ports, the last one first.\<close>

record plat = ext2 +
  SystemDescriptorPointer :: u64
  framebuffer_tag :: u64
  madt :: u64
  pIoApic :: u64
  cpu_local_apic :: "nat \<Rightarrow> u64"
  use_x2_apic :: bool
  interrupt_override_count :: u32
  interrupt_overrides :: "nat \<Rightarrow> u64"
  IDT :: "nat \<Rightarrow> InterruptDescriptor64"
  idtr :: IDTR
  IDT_va :: u64
  bTimerCalibrated :: bool
  tickCount :: u64
  ticksIn10ms :: u32
  ioregsel :: u8
  io_apic_regs :: "u8 \<Rightarrow> u32"
  lapic_regs :: "u32 \<Rightarrow> u32 \<Rightarrow> u32"
  msr :: "u32 \<Rightarrow> u32 \<Rightarrow> u64"
  port_log :: "(u16 \<times> u8) list"

definition word16 :: "mem \<Rightarrow> u64 \<Rightarrow> u16" where "word16 m a = ucast (le_bytes m a 2)"
definition word32 :: "mem \<Rightarrow> u64 \<Rightarrow> u32" where "word32 m a = ucast (le_bytes m a 4)"
definition word64 :: "mem \<Rightarrow> u64 \<Rightarrow> u64" where "word64 m a = le_bytes m a 8"

section \<open>Multiboot\<close>

definition MULTIBOOT_TAG_TYPE_END :: u32 where "MULTIBOOT_TAG_TYPE_END = 0"
definition MULTIBOOT_TAG_TYPE_BASIC_MEMINFO :: u32 where "MULTIBOOT_TAG_TYPE_BASIC_MEMINFO = 4"
definition MULTIBOOT_TAG_TYPE_MMAP :: u32 where "MULTIBOOT_TAG_TYPE_MMAP = 6"
definition MULTIBOOT_TAG_TYPE_FRAMEBUFFER :: u32 where "MULTIBOOT_TAG_TYPE_FRAMEBUFFER = 8"
definition MULTIBOOT_TAG_TYPE_ACPI_OLD :: u32 where "MULTIBOOT_TAG_TYPE_ACPI_OLD = 14"
definition MULTIBOOT_TAG_TYPE_ACPI_NEW :: u32 where "MULTIBOOT_TAG_TYPE_ACPI_NEW = 15"
definition MULTIBOOT_MEMORY_AVAILABLE :: u32 where "MULTIBOOT_MEMORY_AVAILABLE = 1"

lemmas tag_types = MULTIBOOT_TAG_TYPE_END_def MULTIBOOT_TAG_TYPE_BASIC_MEMINFO_def MULTIBOOT_TAG_TYPE_MMAP_def
  MULTIBOOT_TAG_TYPE_FRAMEBUFFER_def MULTIBOOT_TAG_TYPE_ACPI_OLD_def MULTIBOOT_TAG_TYPE_ACPI_NEW_def

definition tag_type :: "mem \<Rightarrow> u64 \<Rightarrow> u32" where "tag_type m tag = word32 m tag"
definition tag_size :: "mem \<Rightarrow> u64 \<Rightarrow> u32" where "tag_size m tag = word32 m (tag + 4)"

text \<open>The loop that every reader of the information has: from tag to tag, each at a multiple of 8 behind the one before, until
  the end tag or until a tag of a type that the reader wants. The information may have no end tag, so the loop may run forever.\<close>

definition next_tag :: "mem \<Rightarrow> u64 \<Rightarrow> u64" where
  "next_tag m tag = tag + ucast ((tag_size m tag + 7) AND NOT 7)"

partial_function (option) tag_walk :: "(u32 \<Rightarrow> bool) \<Rightarrow> mem \<Rightarrow> u64 \<Rightarrow> u64 option option" where
  "tag_walk wanted m tag =
     (if tag_type m tag = MULTIBOOT_TAG_TYPE_END then Some None
      else if wanted (tag_type m tag) then Some (Some tag)
      else tag_walk wanted m (next_tag m tag))"

definition walk :: "(u32 \<Rightarrow> bool) \<Rightarrow> u64 \<Rightarrow> 'a ext2_scheme \<Rightarrow> fault + u64 option \<times> 'a ext2_scheme" where
  "walk wanted addr s = (case tag_walk wanted (kmem s) (addr + 8) of None \<Rightarrow> Inl Diverge | Some r \<Rightarrow> Inr (r, s))"

text \<open>The result and the flag that the code stores through \<open>extended_rsdp\<close>.\<close>

definition multiboot_retrieve_rsdp :: "u64 \<Rightarrow> bool \<Rightarrow> 'a ext2_scheme \<Rightarrow> fault + (u64 \<times> bool) \<times> 'a ext2_scheme" where
  "multiboot_retrieve_rsdp addr extended_rsdp =
     (if addr AND 7 \<noteq> 0 then ret (0, extended_rsdp)
      else bnd (walk (\<lambda>t. t = MULTIBOOT_TAG_TYPE_ACPI_NEW \<or> t = MULTIBOOT_TAG_TYPE_ACPI_OLD) addr) (\<lambda>r. case r of
        None \<Rightarrow> ret (0, extended_rsdp)
      | Some tag \<Rightarrow> gets (\<lambda>s. (tag + 8, tag_type (kmem s) tag = MULTIBOOT_TAG_TYPE_ACPI_NEW \<or> extended_rsdp))))"

definition muiltiboot_retrieve_framebuffer :: "u64 \<Rightarrow> 'a plat_scheme \<Rightarrow> fault + bool \<times> 'a plat_scheme" where
  "muiltiboot_retrieve_framebuffer addr =
     (if addr AND 7 \<noteq> 0 then ret False
      else bnd (walk (\<lambda>t. t = MULTIBOOT_TAG_TYPE_FRAMEBUFFER) addr) (\<lambda>r. case r of
        None \<Rightarrow> ret False
      | Some tag \<Rightarrow> seqn (upd (\<lambda>s. s\<lparr>framebuffer_tag := tag\<rparr>)) (ret True)))"

text \<open>Only logs: the loop runs to the end tag and the result is always \<open>false\<close>.\<close>

definition retrieve_multiboot_mem_basicinfo :: "u64 \<Rightarrow> 'a ext2_scheme \<Rightarrow> fault + bool \<times> 'a ext2_scheme" where
  "retrieve_multiboot_mem_basicinfo addr =
     (if addr AND 7 \<noteq> 0 then ret False else seqn (walk (\<lambda>_. False) addr) (ret False))"

subsection \<open>The memory map\<close>

definition sizeof_multiboot_tag_mmap :: nat where "sizeof_multiboot_tag_mmap = 16"
definition sizeof_multiboot_mmap_entry :: nat where "sizeof_multiboot_mmap_entry = 24"

definition mmap_addr :: "mem \<Rightarrow> u64 \<Rightarrow> u64" where "mmap_addr m e = word64 m e"
definition mmap_len :: "mem \<Rightarrow> u64 \<Rightarrow> u64" where "mmap_len m e = word64 m (e + 8)"
definition mmap_type :: "mem \<Rightarrow> u64 \<Rightarrow> u32" where "mmap_type m e = word32 m (e + 16)"

text \<open>The loop over the entries reads memory \<open>m\<close>, in which nothing it calls writes. \<open>curr_size\<close> has 32 bits.\<close>

definition mmap_entry :: "mem \<Rightarrow> u64 \<Rightarrow> 'a pmm_scheme \<Rightarrow> fault + unit \<times> 'a pmm_scheme" where
  "mmap_entry m e =
     (if mmap_type m e = MULTIBOOT_MEMORY_AVAILABLE then free_hugeframe_range (mmap_addr m e) (mmap_addr m e + mmap_len m e) else ret ())"

partial_function (option) mmap_loop :: "mem \<Rightarrow> u32 \<Rightarrow> u64 \<Rightarrow> u32 \<Rightarrow> 'a pmm_scheme \<Rightarrow> (fault + unit \<times> 'a pmm_scheme) option" where
  "mmap_loop m tagsize e curr_size s =
     (if curr_size < tagsize
      then case mmap_entry m e s of
        Inl x \<Rightarrow> Some (Inl x)
      | Inr r \<Rightarrow> mmap_loop m tagsize (e + of_nat sizeof_multiboot_mmap_entry) (curr_size + of_nat sizeof_multiboot_mmap_entry) (snd r)
      else Some (Inr ((), s)))"

definition parse_multiboot_mmap_entries :: "u64 \<Rightarrow> 'a ext2_scheme \<Rightarrow> fault + unit \<times> 'a ext2_scheme" where
  "parse_multiboot_mmap_entries mm_tag =
     seqn init_PMM
    (seqn (bnd (gets kmem) (\<lambda>m. lift_loop (mmap_loop m (tag_size m mm_tag) (mm_tag + of_nat sizeof_multiboot_tag_mmap) (of_nat sizeof_multiboot_tag_mmap))))
          (upd (\<lambda>s. s\<lparr>init_success := True\<rparr>)))"

definition parse_multiboot_memorymap :: "u64 \<Rightarrow> 'a ext2_scheme \<Rightarrow> fault + bool \<times> 'a ext2_scheme" where
  "parse_multiboot_memorymap addr =
     (if addr AND 7 \<noteq> 0 then ret False
      else bnd (walk (\<lambda>t. t = MULTIBOOT_TAG_TYPE_MMAP) addr) (\<lambda>r. case r of
        None \<Rightarrow> ret False
      | Some tag \<Rightarrow> seqn (parse_multiboot_mmap_entries tag) (ret True)))"

section \<open>ACPI\<close>

definition sizeof_RSDP :: nat where "sizeof_RSDP = 20"
definition sizeof_ACPISDTHeader :: nat where "sizeof_ACPISDTHeader = 36"

definition RsdtAddress :: "mem \<Rightarrow> u64 \<Rightarrow> u32" where "RsdtAddress m p = word32 m (p + 16)"
definition XsdtAddress :: "mem \<Rightarrow> u64 \<Rightarrow> u64" where "XsdtAddress m p = word64 m (p + 24)"
definition sdt_Length :: "mem \<Rightarrow> u64 \<Rightarrow> u32" where "sdt_Length m p = word32 m (p + 4)"

text \<open>The array of addresses of an \<open>XSDT\<close> has elements of 8 bytes, so the compiler aligns it: it starts at 40, not at 36.\<close>

definition rsdt_entry :: "mem \<Rightarrow> u64 \<Rightarrow> nat \<Rightarrow> u64" where "rsdt_entry m p i = ucast (word32 m (p + 36 + 4 * of_nat i))"
definition xsdt_entry :: "mem \<Rightarrow> u64 \<Rightarrow> nat \<Rightarrow> u64" where "xsdt_entry m p i = word64 m (p + 40 + 8 * of_nat i)"

text \<open>\<open>char\<close> is signed, so a byte is sign-extended before it is added. The counters are \<open>int\<close>: sizes are below \<open>2^31\<close>.\<close>

definition doRSDPChecksum :: "mem \<Rightarrow> u64 \<Rightarrow> nat \<Rightarrow> bool" where
  "doRSDPChecksum m ptr_rsdp n =
     (fold (\<lambda>i sum. sum + scast (m (ptr_rsdp + of_nat i))) [0..<n] (0 :: u32) AND 0xFF = 0)"

definition doSDTChecksum :: "mem \<Rightarrow> u64 \<Rightarrow> bool" where
  "doSDTChecksum m tableHeader =
     (fold (\<lambda>i sum. sum + m (tableHeader + of_nat i)) [0..<unat (sdt_Length m tableHeader)] (0 :: u8) = 0)"

definition has_signature :: "mem \<Rightarrow> u64 \<Rightarrow> string \<Rightarrow> bool" where
  "has_signature m p sig = (bytes_at m p 4 = map of_char sig)"

definition direct_map :: "u64 \<Rightarrow> 'a paging_scheme \<Rightarrow> fault + bool \<times> 'a paging_scheme" where
  "direct_map a = map_kernel_page a a ALLOC_TYPE_DM_IO"

text \<open>The search through the tables, \<open>n\<close> of them left. A table that is not mapped is mapped first; the address is rounded to
  4 KB although \<open>map_kernel_page\<close> maps 2 MB.\<close>

fun madt_search :: "(mem \<Rightarrow> nat \<Rightarrow> u64) \<Rightarrow> nat \<Rightarrow> nat \<Rightarrow> 'a ext2_scheme \<Rightarrow> fault + u64 \<times> 'a ext2_scheme" where
  "madt_search entry_of i 0 = ret 0"
| "madt_search entry_of i (Suc n) =
     bnd (gets (\<lambda>s. entry_of (kmem s) i)) (\<lambda>table.
     seqn (bnd (gets (pml4t_va \<circ> link)) (\<lambda>pml4t. bnd (is_frame_mapped_kernel (PGROUNDDOWN table) pml4t) (\<lambda>mapped.
       if mapped then ret True else direct_map (PGROUNDDOWN table))))
    (bnd (gets kmem) (\<lambda>m.
     if has_signature m table ''APIC'' \<and> doSDTChecksum m table then ret table
     else madt_search entry_of (Suc i) n)))"

definition retrieveMADT :: "bool \<Rightarrow> u64 \<Rightarrow> 'a ext2_scheme \<Rightarrow> fault + u64 \<times> 'a ext2_scheme" where
  "retrieveMADT use_xsdt sdp =
     bnd (gets kmem) (\<lambda>m.
     let xsdt = XsdtAddress m sdp; rsdt = ucast (RsdtAddress m sdp); table = if use_xsdt then xsdt else rsdt in
     seqn (if xsdt > 0x40000000 \<or> rsdt > 0x40000000 then direct_map (HUGEPGROUNDDOWN table) else ret True)
    (bnd (gets (pml4t_va \<circ> link)) (\<lambda>pml4t. bnd (is_frame_mapped_kernel rsdt pml4t) (\<lambda>mapped.
     if \<not> mapped then raise (Panic ''not mapped'')
     else let number_of_items = (ucast (sdt_Length m table) - of_nat sizeof_ACPISDTHeader :: u64) div (if use_xsdt then 8 else 4) in
       if \<not> doSDTChecksum m table then ret 0
       else madt_search (\<lambda>m. if use_xsdt then xsdt_entry m xsdt else rsdt_entry m rsdt) 0 (unat number_of_items)))))"

subsection \<open>The records of the MADT\<close>

definition MADT_ITEM_PROC_LAPIC :: u8 where "MADT_ITEM_PROC_LAPIC = 0"
definition MADT_ITEM_IO_APIC :: u8 where "MADT_ITEM_IO_APIC = 1"
definition MADT_ITEM_IO_APIC_SRCOVERRIDE :: u8 where "MADT_ITEM_IO_APIC_SRCOVERRIDE = 2"

lemmas madt_items = MADT_ITEM_PROC_LAPIC_def MADT_ITEM_IO_APIC_def MADT_ITEM_IO_APIC_SRCOVERRIDE_def

definition item_type :: "mem \<Rightarrow> u64 \<Rightarrow> u8" where "item_type m item = m item"
definition record_length :: "mem \<Rightarrow> u64 \<Rightarrow> u8" where "record_length m item = m (item + 1)"
definition acpi_procID :: "mem \<Rightarrow> u64 \<Rightarrow> u8" where "acpi_procID m item = m (item + 2)"
definition lapic_flags :: "mem \<Rightarrow> u64 \<Rightarrow> u32" where "lapic_flags m item = word32 m (item + 4)"
definition io_apic_address :: "mem \<Rightarrow> u64 \<Rightarrow> u32" where "io_apic_address m item = word32 m (item + 4)"
definition global_sys_int :: "mem \<Rightarrow> u64 \<Rightarrow> u32" where "global_sys_int m item = word32 m (item + 4)"
definition override_flags :: "mem \<Rightarrow> u64 \<Rightarrow> u16" where "override_flags m item = word16 m (item + 8)"

definition next_item :: "mem \<Rightarrow> u64 \<Rightarrow> u64" where "next_item m item = item + ucast (record_length m item)"

text \<open>Both loops add the length of the record they move to, not of the one they leave.\<close>

partial_function (option) madt_get_loop :: "mem \<Rightarrow> u32 \<Rightarrow> u32 \<Rightarrow> u32 \<Rightarrow> u64 \<Rightarrow> u32 \<Rightarrow> u32 \<Rightarrow> u64 option" where
  "madt_get_loop m total_length ty item_index item curr_length curr_index =
     (if curr_length < total_length \<and> curr_index \<le> item_index
      then if ucast (item_type m item) = ty \<and> item_index = curr_index then Some item
      else madt_get_loop m total_length ty item_index (next_item m item) (curr_length + ucast (record_length m (next_item m item)))
             (if ucast (item_type m item) = ty then curr_index + 1 else curr_index)
      else Some 0)"

definition madt_fields :: nat where "madt_fields = sizeof_ACPISDTHeader + 2 * 4"

definition madt_get_item :: "u64 \<Rightarrow> u32 \<Rightarrow> u32 \<Rightarrow> 'a ext2_scheme \<Rightarrow> fault + u64 \<times> 'a ext2_scheme" where
  "madt_get_item p ty item_index s =
     (case madt_get_loop (kmem s) (sdt_Length (kmem s) p) ty item_index (p + of_nat madt_fields) (of_nat madt_fields) 0 of
        None \<Rightarrow> Inl Diverge | Some item \<Rightarrow> Inr (item, s))"

text \<open>The entry of \<open>cpu[]\<close> that \<open>parse_madt\<close> fills; all else in it is still zero. The table has 256 entries.\<close>

definition MAX_CPUS :: nat where "MAX_CPUS = 256"
definition MAX_INTERRUPT_OVERRIDE_COUNT :: nat where "MAX_INTERRUPT_OVERRIDE_COUNT = 32"

definition zero_cpu :: CPU where
  "zero_cpu = \<lparr>cpu_id = 0, cli_count = 0, current_thread = None, gdt = zero_gdt, tss = zero_tss,
     cpu_kstack = 0, noINT = False, rflags_IF = False, gdtr = \<lparr>gdtdesc_size = 0, gdtdesc_ptr = 0\<rparr>, task_register = 0\<rparr>"

definition add_cpu :: "u64 \<Rightarrow> 'a plat_scheme \<Rightarrow> 'a plat_scheme" where
  "add_cpu item s = s\<lparr>cpus := cpus s @ [zero_cpu\<lparr>cpu_id := ucast (acpi_procID (kmem s) item)\<rparr>],
     cpu_local_apic := (cpu_local_apic s)(length (cpus s) := item)\<rparr>"

definition add_override :: "u64 \<Rightarrow> 'a plat_scheme \<Rightarrow> fault + unit \<times> 'a plat_scheme" where
  "add_override item s =
     (let i = unat (global_sys_int (kmem s) item) in
      if i < MAX_INTERRUPT_OVERRIDE_COUNT
      then Inr ((), s\<lparr>interrupt_overrides := (interrupt_overrides s)(i := item), interrupt_override_count := interrupt_override_count s + 1\<rparr>)
      else Inl Undefined)"

definition parse_item :: "u64 \<Rightarrow> 'a plat_scheme \<Rightarrow> fault + unit \<times> 'a plat_scheme" where
  "parse_item item s =
     (let ty = item_type (kmem s) item in
      if ty = MADT_ITEM_PROC_LAPIC
      then if lapic_flags (kmem s) item AND 3 = 0 then Inr ((), s)
           else if length (cpus s) < MAX_CPUS then Inr ((), add_cpu item s) else Inl Undefined
      else if ty = MADT_ITEM_IO_APIC then Inr ((), s\<lparr>pIoApic := item\<rparr>)
      else if ty = MADT_ITEM_IO_APIC_SRCOVERRIDE then add_override item s
      else Inr ((), s))"

partial_function (option) parse_loop :: "u32 \<Rightarrow> u64 \<Rightarrow> u32 \<Rightarrow> 'a plat_scheme \<Rightarrow> (fault + unit \<times> 'a plat_scheme) option" where
  "parse_loop total_length item curr_length s =
     (if curr_length < total_length
      then case parse_item item s of
        Inl x \<Rightarrow> Some (Inl x)
      | Inr r \<Rightarrow> let m = kmem (snd r) in
          parse_loop total_length (next_item m item) (curr_length + ucast (record_length m (next_item m item))) (snd r)
      else Some (Inr ((), s)))"

definition parse_madt :: "u64 \<Rightarrow> 'a plat_scheme \<Rightarrow> fault + unit \<times> 'a plat_scheme" where
  "parse_madt p =
     (if p = 0 then raise (Panic ''parse_madt() --> madt == nullptr.'')
      else bnd (gets (\<lambda>s. sdt_Length (kmem s) p)) (\<lambda>total_length. lift_loop (parse_loop total_length (p + of_nat madt_fields) (of_nat madt_fields))))"

text \<open>\<open>init_ioapic\<close>, which the boot no longer calls.\<close>

partial_function (option) override_loop :: "u32 \<Rightarrow> 'a plat_scheme \<Rightarrow> (fault + unit \<times> 'a plat_scheme) option" where
  "override_loop i s =
     (case madt_get_item (madt s) (ucast MADT_ITEM_IO_APIC_SRCOVERRIDE) i s of
        Inl x \<Rightarrow> Some (Inl x)
      | Inr r \<Rightarrow> if fst r = 0 then Some (Inr ((), s))
          else case add_override (fst r) s of Inl x \<Rightarrow> Some (Inl x) | Inr q \<Rightarrow> override_loop (i + 1) (snd q))"

definition init_ioapic :: "'a plat_scheme \<Rightarrow> fault + unit \<times> 'a plat_scheme" where
  "init_ioapic =
     bnd (gets madt) (\<lambda>p. bnd (madt_get_item p (ucast MADT_ITEM_IO_APIC) 0) (\<lambda>item.
     if item = 0 then raise (Panic ''Could not find IOAPIC entry in MADT.'')
     else seqn (upd (\<lambda>s. s\<lparr>pIoApic := item\<rparr>)) (lift_loop (override_loop 0))))"

section \<open>Everything at boot\<close>

text \<open>The checksum of the RSDP is only logged. Without an RSDP the code reads through a null pointer.\<close>

definition parse_multiboot_info :: "u64 \<Rightarrow> 'a plat_scheme \<Rightarrow> fault + unit \<times> 'a plat_scheme" where
  "parse_multiboot_info ptr_multiboot_info =
     bnd (multiboot_retrieve_rsdp ptr_multiboot_info False) (\<lambda>(rsdp, useExtendedRSDP).
     if rsdp = 0 then raise Undefined
     else seqn (upd (\<lambda>s. s\<lparr>SystemDescriptorPointer := rsdp\<rparr>))
    (bnd (muiltiboot_retrieve_framebuffer ptr_multiboot_info) (\<lambda>fb.
     if \<not> fb then raise (Panic ''parse_multiboot_info() --> could not retrieve framebuffer.'')
     else bnd (parse_multiboot_memorymap ptr_multiboot_info) (\<lambda>mm.
     if \<not> mm then raise (Panic ''Error parsing multiboot memory map.'')
     else bnd (retrieveMADT useExtendedRSDP rsdp) (\<lambda>madt_header.
     if madt_header = 0 then raise (Panic ''MADT not found!'')
     else upd (\<lambda>s. s\<lparr>madt := madt_header\<rparr>))))))"

section \<open>The tags\<close>

text \<open>The tags of the information at \<open>a\<close>: their addresses, up to the end tag.\<close>

fun tags_at :: "mem \<Rightarrow> u64 \<Rightarrow> u64 list \<Rightarrow> bool" where
  "tags_at m a [] \<longleftrightarrow> tag_type m a = MULTIBOOT_TAG_TYPE_END"
| "tags_at m a (p # ts) \<longleftrightarrow> p = a \<and> tag_type m a \<noteq> MULTIBOOT_TAG_TYPE_END \<and> tags_at m (next_tag m a) ts"

lemma tag_walk_find:
  "tags_at m a ts \<Longrightarrow> tag_walk wanted m a = Some (find (\<lambda>p. wanted (tag_type m p)) ts)"
  by (induction ts arbitrary: a) (auto simp: tag_walk.simps)

lemma walk_find: "tags_at (kmem s) (addr + 8) ts \<Longrightarrow> walk wanted addr s = Inr (find (\<lambda>p. wanted (tag_type (kmem s) p)) ts, s)"
  by (simp add: walk_def tag_walk_find)

section \<open>The memory map\<close>

text \<open>The entries of a map, \<open>n\<close> of them from \<open>e\<close> on: the available ranges are in ascending order, do not overlap and lie below
  64 GB, as far as the bitmap reaches. The frames they give: whole frames above the kernel's gigabyte.\<close>

fun ranges_ok :: "mem \<Rightarrow> u64 \<Rightarrow> nat \<Rightarrow> nat \<Rightarrow> bool" where
  "ranges_ok m e 0 lo \<longleftrightarrow> True"
| "ranges_ok m e (Suc n) lo \<longleftrightarrow>
     (if mmap_type m e = MULTIBOOT_MEMORY_AVAILABLE
      then lo \<le> unat (mmap_addr m e) \<and> unat (mmap_addr m e) + unat (mmap_len m e) \<le> 2 ^ 36
         \<and> ranges_ok m (e + of_nat sizeof_multiboot_mmap_entry) n (unat (mmap_addr m e) + unat (mmap_len m e))
      else ranges_ok m (e + of_nat sizeof_multiboot_mmap_entry) n lo)"

definition entry_frames :: "mem \<Rightarrow> u64 \<Rightarrow> nat set" where
  "entry_frames m e = {f. mmap_type m e = MULTIBOOT_MEMORY_AVAILABLE \<and> 512 \<le> f \<and> frame_no (mmap_addr m e) < f
     \<and> (f + 1) * 0x200000 < unat (mmap_addr m e) + unat (mmap_len m e)}"

definition map_frames :: "mem \<Rightarrow> u64 \<Rightarrow> nat \<Rightarrow> nat set" where
  "map_frames m e n = (\<Union>k < n. entry_frames m (e + of_nat sizeof_multiboot_mmap_entry * of_nat k))"

lemma map_frames_Suc: "map_frames m e (Suc n) = entry_frames m e \<union> map_frames m (e + of_nat sizeof_multiboot_mmap_entry) n"
  by (simp add: map_frames_def lessThan_Suc_eq_insert_0 image_Union algebra_simps image_image)

lemma frame_no_less: "frame_no a < f \<longleftrightarrow> unat a < f * 0x200000"
  by (simp add: frame_no_def div_less_iff_less_mult)

lemma mmap_entry_effect:
  assumes inv: "pmm_inv s" "\<not> init_success s" and e: "ranges_ok m e (Suc n) lo" and free: "\<forall>f \<in> free_frames s. (f + 1) * 0x200000 \<le> lo"
  obtains t where "mmap_entry m e s = Inr ((), t)" "pmm_inv t" "\<not> init_success t" "free_frames t = free_frames s \<union> entry_frames m e"
    "mmap_type m e = MULTIBOOT_MEMORY_AVAILABLE \<Longrightarrow> \<forall>f \<in> free_frames t. (f + 1) * 0x200000 \<le> unat (mmap_addr m e) + unat (mmap_len m e)"
proof (cases "mmap_type m e = MULTIBOOT_MEMORY_AVAILABLE")
  case False
  then show ?thesis using inv by (intro that [of s]) (simp_all add: mmap_entry_def entry_frames_def)
next
  case True
  let ?a = "mmap_addr m e" and ?l = "mmap_len m e"
  have r: "lo \<le> unat ?a" "unat ?a + unat ?l \<le> 2 ^ 36" using e True by simp_all
  have u: "unat (?a + ?l) = unat ?a + unat ?l" by (rule unat_plus_nowrap) (use r(2) in simp)

  have fr: "\<forall>f \<in> free_frames s. (f + 1) * 0x200000 \<le> unat ?a + unat ?l" using free r(1) by fastforce
  show ?thesis
  proof (cases "unat ?l < 0x200000")
    case short: True
    have "entry_frames m e = {}"
    proof -
      have False if "frame_no ?a < f" "(f + 1) * 0x200000 < unat ?a + unat ?l" for f
        using that short unfolding frame_no_less by simp
      then show ?thesis by (auto simp: entry_frames_def)
    qed
    moreover have "?a + ?l - ?a < HUGEPGSIZE" using short by (simp add: HUGEPGSIZE_def word_less_nat_alt)
    ultimately show ?thesis using True inv fr by (intro that [of s]) (simp_all add: mmap_entry_def free_hugeframe_range_def)
  next
    case False
    have "\<forall>f > frame_no ?a. f \<notin> free_frames s"
    proof (intro allI impI notI)
      fix f assume "frame_no ?a < f" "f \<in> free_frames s"
      moreover have "(f + 1) * 0x200000 \<le> unat ?a" using free r(1) calculation(2) by fastforce
      ultimately show False
        unfolding frame_no_less by simp
    qed
    from free_hugeframe_range_effect [OF inv _ _ this, of "?a + ?l"] obtain t where t: "free_hugeframe_range ?a (?a + ?l) s = Inr ((), t)" "pmm_inv t" "\<not> init_success t"
      "free_frames t = free_frames s \<union> {f. frame_no ?a < f \<and> 512 \<le> f \<and> (f + 1) * 0x200000 < unat ?a + unat ?l}" using False r(2) by (auto simp: u)
    then show ?thesis using True fr by (intro that [of t]) (auto simp: mmap_entry_def entry_frames_def)
  qed
qed

lemma mmap_loop_effect:
  assumes "16 + 24 * (k + n) < 2 ^ 32" "pmm_inv s" "\<not> init_success s" "ranges_ok m e n lo" "\<forall>f \<in> free_frames s. (f + 1) * 0x200000 \<le> lo"
  shows "\<exists>t. mmap_loop m (of_nat (16 + 24 * (k + n))) e (of_nat (16 + 24 * k)) s = Some (Inr ((), t)) \<and> pmm_inv t \<and> free_frames t = free_frames s \<union> map_frames m e n"
  using assms
proof (induction n arbitrary: k e s lo)
  case 0
  then show ?case by (subst mmap_loop.simps) (simp add: map_frames_def)
next
  case (Suc n)
  obtain t where t: "mmap_entry m e s = Inr ((), t)" "pmm_inv t" "\<not> init_success t" "free_frames t = free_frames s \<union> entry_frames m e"
    "mmap_type m e = MULTIBOOT_MEMORY_AVAILABLE \<Longrightarrow> \<forall>f \<in> free_frames t. (f + 1) * 0x200000 \<le> unat (mmap_addr m e) + unat (mmap_len m e)"
    by (rule mmap_entry_effect [OF Suc.prems(2-5)]) blast
  have "unat (of_nat x :: u32) = x" if "x < 2 ^ 32" for x using that by (simp add: unat_of_nat take_bit_nat_eq_self)
  then have lt: "(of_nat (16 + 24 * k) :: u32) < of_nat (16 + 24 * (k + Suc n))"
    using Suc.prems(1) by (simp add: word_less_nat_alt del: of_nat_add of_nat_mult of_nat_Suc)
  have st: "(of_nat (16 + 24 * k) :: u32) + of_nat sizeof_multiboot_mmap_entry = of_nat (16 + 24 * Suc k)"
    by (simp add: sizeof_multiboot_mmap_entry_def)
  have b: "16 + 24 * (Suc k + n) < (2 :: nat) ^ 32" using Suc.prems(1) by simp
  have "\<exists>u. mmap_loop m (of_nat (16 + 24 * (Suc k + n))) (e + of_nat sizeof_multiboot_mmap_entry) (of_nat (16 + 24 * Suc k)) t = Some (Inr ((), u))
     \<and> pmm_inv u \<and> free_frames u = free_frames t \<union> map_frames m (e + of_nat sizeof_multiboot_mmap_entry) n"
  proof (cases "mmap_type m e = MULTIBOOT_MEMORY_AVAILABLE")
    case True
    then show ?thesis using Suc.prems(4) t(5) by (intro Suc.IH [OF b t(2,3), where lo = "unat (mmap_addr m e) + unat (mmap_len m e)"]) auto
  next
    case False
    then show ?thesis using Suc.prems(4,5) t(4) by (intro Suc.IH [OF b t(2,3), where lo = lo]) (auto simp: entry_frames_def)
  qed
  then show ?case using lt st t(1,4) by (subst mmap_loop.simps) (auto simp: map_frames_Suc simp del: of_nat_add of_nat_mult of_nat_Suc)
qed

lemma init_PMM_effect:
  fixes s :: "'a ext2_scheme"
  assumes "free_framecount s = 0" "\<not> init_success s"
  obtains t where "init_PMM s = Inr ((), t)" "pmm_inv t" "\<not> init_success t" "free_frames t = {}" "kmem t = kmem s"
proof -
  have "bit UINT64_MAX (n mod 64)" for n :: nat
    unfolding minus_one_u64 [symmetric] bit_minus_1_iff possible_bit_word by simp
  then have f: "free_frames (page_bitmap_whiteout u) = {}" for u :: "'a ext2_scheme"
    by (auto simp: free_frames_def page_bitmap_whiteout_def div_less_iff_less_mult)
  let ?t = "page_bitmap_whiteout (upd_lock PMM_lock (init_lock ''PMM_lock'') (upd_lock spm_lock (init_lock ''manager_4kb'') s))"
  have "init_PMM s = Inr ((), ?t)" by (simp add: init_PMM_def init_Spinlock_def op_combinators)
  moreover have "free_framecount ?t = 0" "\<not> init_success ?t" "kmem ?t = kmem s" using assms by (simp_all add: page_bitmap_whiteout_def upd_lock_def)
  ultimately show ?thesis using f by (intro that [of ?t]) (simp_all add: pmm_inv_def)
qed

text \<open>C5: the memory map becomes the set of free frames. When the information has a memory map whose available ranges are in
  order, do not overlap and lie below 64 GB, \<open>parse_multiboot_memorymap\<close> returns true; the free frames are then exactly those
  whole 2 MB frames above the kernel's gigabyte that lie inside an available range (behind the frame in which the range begins
  and strictly before its end), and the counter is their number.\<close>

theorem parse_multiboot_memorymap_frees:
  fixes s :: "'a ext2_scheme"
  assumes a: "addr AND 7 = 0" and ts: "tags_at (kmem s) (addr + 8) ts" "find (\<lambda>p. tag_type (kmem s) p = MULTIBOOT_TAG_TYPE_MMAP) ts = Some tag"
    and sz: "tag_size (kmem s) tag = of_nat (16 + 24 * n)" "16 + 24 * n < 2 ^ 32" and r: "ranges_ok (kmem s) (tag + 16) n 0"
    and boot: "free_framecount s = 0" "\<not> init_success s"
  shows "\<exists>t. parse_multiboot_memorymap addr s = Inr (True, t) \<and> init_success t
     \<and> free_frames t = map_frames (kmem s) (tag + 16) n \<and> unat (free_framecount t) = card (free_frames t)"
proof -
  obtain u where u: "init_PMM s = Inr ((), u)" "pmm_inv u" "\<not> init_success u" "free_frames u = {}" "kmem u = kmem s"
    by (rule init_PMM_effect [OF boot]) blast
  have b: "16 + 24 * (0 + n) < (2 :: nat) ^ 32" and f0: "\<forall>f \<in> free_frames u. (f + 1) * 0x200000 \<le> 0" using sz(2) u(4) by simp_all
  from mmap_loop_effect [OF b u(2,3) r f0] obtain t where
    t: "mmap_loop (kmem s) (of_nat (16 + 24 * n)) (tag + 16) 16 u = Some (Inr ((), t))" "pmm_inv t" "free_frames t = map_frames (kmem s) (tag + 16) n"
    by (auto simp: u(4))
  have "parse_multiboot_mmap_entries tag s = Inr ((), t\<lparr>init_success := True\<rparr>)"
    using u(1,5) t(1) by (simp add: parse_multiboot_mmap_entries_def op_combinators sizeof_multiboot_tag_mmap_def sz(1))
  moreover have "free_frames (t\<lparr>init_success := True\<rparr>) = free_frames t" by (simp add: free_frames_def)
  ultimately show ?thesis
    using a t(2,3) by (simp add: parse_multiboot_memorymap_def walk_find [OF ts(1)] ts(2) op_combinators pmm_inv_def)
qed

text \<open>The machine when the kernel is entered, with memory \<open>m\<close>.\<close>

definition power_on :: "mem \<Rightarrow> plat" where
  "power_on m = (ext2.extend (bio.extend disk_desk \<lparr>kmem = m,
       ext2_driver = \<lparr>total_inodes = 0, total_blocks = 0, block_size = 0, blocks_per_group = 0, inodes_per_group = 0, extended_fields_available = False,
         total_groups = 0, superblock = 0, bgdt = 0, bgdt_blockno = 0, inode_size = 0, root_inode = inode_at (\<lambda>_. 0) 0\<rparr>\<rparr>)
     \<lparr>SystemDescriptorPointer = 0, framebuffer_tag = 0, madt = 0, pIoApic = 0, cpu_local_apic = (\<lambda>_. 0), use_x2_apic = False, interrupt_override_count = 0,
       interrupt_overrides = (\<lambda>_. 0), IDT = (\<lambda>_. \<lparr>offset_low = 0, selector = 0, desc_ist = 0, type_attributes = 0, offset_mid = 0, offset_high = 0, desc_zero = 0\<rparr>),
       idtr = \<lparr>idtr_limit = 0, idtr_base = 0\<rparr>, IDT_va = 0xffffffff80170000, bTimerCalibrated = False, tickCount = 0, ticksIn10ms = 0, ioregsel = 0,
       io_apic_regs = (\<lambda>_. 0), lapic_regs = (\<lambda>_ _. 0), msr = (\<lambda>_ _. 0), port_log = []\<rparr>)\<lparr>cpus := [], PhysicalPageBitmap := (\<lambda>_. 0), free_framecount := 0, init_success := False\<rparr>"

lemma power_on_simps [simp]:
  "kmem (power_on m) = m" "cpus (power_on m) = []" "free_framecount (power_on m) = 0" "\<not> init_success (power_on m)" "lapic_id (power_on m) = 0"
  "interrupt_overrides (power_on m) = (\<lambda>_. 0)" "pIoApic (power_on m) = 0" "io_apic_regs (power_on m) = (\<lambda>_. 0)"
  by (simp_all add: power_on_def ext2.defs bio.defs)

definition bytes_from :: "u64 \<Rightarrow> u8 list \<Rightarrow> mem" where
  "bytes_from a bs x = (if unat (x - a) < length bs then bs ! unat (x - a) else 0)"

text \<open>Information with one tag, a memory map with 16 MB at 1 GB.\<close>

definition example_map :: mem where
  "example_map = bytes_from 0x1000 ([64, 0, 0, 0, 0, 0, 0, 0] @ [6, 0, 0, 0, 40, 0, 0, 0, 24, 0, 0, 0, 0, 0, 0, 0]
     @ [0, 0, 0, 0x40, 0, 0, 0, 0] @ [0, 0, 0, 1, 0, 0, 0, 0] @ [1, 0, 0, 0, 0, 0, 0, 0])"

lemma le_bytes_up:
  "le_bytes m a 2 = ucast (m a) OR push_bit 8 (ucast (m (a + 1)))"
  "le_bytes m a 4 = ucast (m a) OR push_bit 8 (ucast (m (a + 1)) OR push_bit 8 (ucast (m (a + 2)) OR push_bit 8 (ucast (m (a + 3)))))"
  "le_bytes m a 8 = le_bytes m a 4 OR push_bit 32 (le_bytes m (a + 4) 4)"
  by (simp_all add: numeral_eq_Suc add.assoc push_bit_or or.assoc)

lemmas field_defs = word16_def word32_def word64_def tag_type_def tag_size_def mmap_addr_def mmap_len_def mmap_type_def le_bytes_up

theorem parse_multiboot_memorymap_frees_witness:
  "\<exists>t. parse_multiboot_memorymap 0x1000 (power_on example_map) = Inr (True, t) \<and> free_frames t = {513..<519} \<and> free_framecount t = 6"
proof -
  have f: "tag_type example_map 0x1008 = 6" "tag_size example_map 0x1008 = 40" "next_tag example_map 0x1008 = 0x1030" "tag_type example_map 0x1030 = 0"
    "mmap_addr example_map 0x1018 = 0x40000000" "mmap_len example_map 0x1018 = 0x1000000" "mmap_type example_map 0x1018 = 1"
    by (simp_all add: next_tag_def field_defs example_map_def bytes_from_def)
  have r: "ranges_ok (kmem (power_on example_map)) (0x1008 + 16) 1 0" by (simp add: f MULTIBOOT_MEMORY_AVAILABLE_def)
  have "map_frames example_map 0x1018 1 = {513..<519}"
    by (auto simp: map_frames_def entry_frames_def f MULTIBOOT_MEMORY_AVAILABLE_def frame_no_def)
  then show ?thesis
    using parse_multiboot_memorymap_frees [of "0x1000" "power_on example_map" "[0x1008]" "0x1008" 1, OF _ _ _ _ _ r]
    by (auto simp: f tag_types word_unat_eq_iff)
qed

section \<open>Checksums\<close>

text \<open>Both checksum routines test the same thing, that the bytes add up to 0 modulo 256, although one of them adds
  sign-extended bytes in 32 bits and the other adds in 8 bits.\<close>

theorem checksums_agree:
  "(doRSDPChecksum m p n \<longleftrightarrow> (\<Sum>i < n. unat (m (p + of_nat i))) mod 256 = 0) \<and>
   (doSDTChecksum m p \<longleftrightarrow> (\<Sum>i < unat (sdt_Length m p). unat (m (p + of_nat i))) mod 256 = 0)"
proof -
  let ?S = "\<lambda>n. \<Sum>i < n. unat (m (p + of_nat i))"
  have w: "fold (\<lambda>i s. s + m (p + of_nat i)) [0..<n] (0 :: u8) = of_nat (?S n)" for n
    by (induction n) simp_all
  have r: "ucast (fold (\<lambda>i s. s + scast (m (p + of_nat i))) [0..<n] (0 :: u32)) = (of_nat (?S n) :: u8)" for n
  proof (induction n)
    case (Suc n)
    have "ucast (scast b :: u32) = b" for b :: u8 by (rule bit_word_eqI) (auto simp: bit_simps dest: bit_imp_le_length)
    moreover have "(ucast (x + y :: u32) :: u8) = ucast x + ucast y" for x y
      by (rule word_unat_eq_iff [THEN iffD2]) (simp add: unat_word_ariths unsigned_ucast_eq take_bit_eq_mod mod_mod_cancel mod_simps)
    ultimately show ?case using Suc by simp
  qed simp
  have z: "(of_nat k :: u8) = 0 \<longleftrightarrow> k mod 256 = 0" for k by (simp add: word_of_nat_eq_0_iff mod_eq_0_iff_dvd)
  have low: "x AND 0xFF = 0 \<longleftrightarrow> (ucast x :: u8) = 0" for x :: u32
  proof -
    have "x AND 0xFF = take_bit 8 x" by (simp add: take_bit_eq_mask mask_numeral)
    then show ?thesis by (simp add: unsigned_ucast_eq unsigned_take_bit_eq flip: unat_eq_zero)
  qed
  show ?thesis by (simp only: doRSDPChecksum_def doSDTChecksum_def low r w z)
qed

section \<open>The MADT\<close>

text \<open>The \<open>n\<close> records from address \<open>a\<close> on, their total length, and the address behind them.\<close>

fun records :: "mem \<Rightarrow> u64 \<Rightarrow> nat \<Rightarrow> u64 list" where
  "records m a 0 = []"
| "records m a (Suc n) = a # records m (next_item m a) n"

fun span :: "mem \<Rightarrow> u64 \<Rightarrow> nat \<Rightarrow> nat" where
  "span m a 0 = 0"
| "span m a (Suc n) = unat (record_length m a) + span m (next_item m a) n"

fun behind :: "mem \<Rightarrow> u64 \<Rightarrow> nat \<Rightarrow> u64" where
  "behind m a 0 = a"
| "behind m a (Suc n) = behind m (next_item m a) n"

text \<open>A MADT at \<open>p\<close> with \<open>n\<close> records, shorter than 2 GB.\<close>

definition madt_ok :: "mem \<Rightarrow> u64 \<Rightarrow> nat \<Rightarrow> bool" where
  "madt_ok m p n \<longleftrightarrow> p \<noteq> 0 \<and> n \<noteq> 0 \<and> (\<forall>x \<in> set (records m (p + 44) n). record_length m x \<noteq> 0)
     \<and> unat (sdt_Length m p) = 44 + span m (p + 44) n \<and> unat (sdt_Length m p) < 2 ^ 31"

text \<open>The loops stop behind the table exactly when the byte that would be the length of a record there is not smaller than
  the length of the first record.\<close>

definition guarded :: "mem \<Rightarrow> u64 \<Rightarrow> nat \<Rightarrow> bool" where
  "guarded m p n \<longleftrightarrow> record_length m (p + 44) \<le> record_length m (behind m (p + 44) n)"

lemma curr_length_step:
  fixes cur len :: u32 and b :: u8
  assumes "unat cur < 2 ^ 31"
  shows "unat (cur + ucast b) = unat cur + unat b"
proof -
  have "unat b < 256" using unsigned_less [of b] by simp
  then have "unat cur + unat (ucast b :: u32) < 2 ^ 32" using assms by (simp add: unsigned_ucast_eq take_bit_nat_eq_self)
  then have "unat (cur + ucast b) = unat cur + unat (ucast b :: u32)" by (intro unat_plus_nowrap) simp
  then show ?thesis using \<open>unat b < 256\<close> by (simp add: unsigned_ucast_eq take_bit_nat_eq_self)
qed

lemma parse_item_kmem: "parse_item item s = Inr r \<Longrightarrow> kmem (snd r) = kmem s"
  by (auto simp: parse_item_def add_override_def add_cpu_def Let_def split: if_splits)

text \<open>The run of \<open>parse_madt\<close> from the record \<open>a\<close> on, with \<open>Suc n\<close> records left; \<open>first\<close> is the length of the first record of the table.\<close>

lemma parse_loop_foreach:
  fixes s :: "'a plat_scheme"
  assumes "unat cur + span (kmem s) (next_item (kmem s) a) n + first = unat tot" "unat tot < 2 ^ 31" "0 < first"
    and K: "\<And>t c. kmem t = kmem s \<Longrightarrow> unat c + first = unat tot + unat (record_length (kmem s) (behind (kmem s) a (Suc n))) \<Longrightarrow>
       parse_loop tot (behind (kmem s) a (Suc n)) c t = K t"
  shows "parse_loop tot a cur s = (case foreach (records (kmem s) a (Suc n)) parse_item s of Inl x \<Rightarrow> Some (Inl x) | Inr r \<Rightarrow> K (snd r))"
  using assms
proof (induction n arbitrary: a cur s)
  case 0
  have c: "unat cur < 2 ^ 31" using 0 by simp
  have lt: "cur < tot" using 0 by (simp add: word_less_nat_alt)
  have "parse_loop tot (next_item (kmem s) a) (cur + ucast (record_length (kmem s) (next_item (kmem s) a))) t = K t" if "kmem t = kmem s" for t
    using 0(1) 0(4) [OF that, of "cur + ucast (record_length (kmem s) (next_item (kmem s) a))"] by (simp add: curr_length_step [OF c])
  then show ?case using lt parse_item_kmem [of a s]
    by (subst parse_loop.simps) (auto simp: op_combinators Let_def split: sum.splits)
next
  case (Suc n)
  have c: "unat cur < 2 ^ 31" using Suc.prems by simp
  have lt: "cur < tot" using Suc.prems by (simp add: word_less_nat_alt)
  have "parse_loop tot (next_item (kmem s) a) (cur + ucast (record_length (kmem s) (next_item (kmem s) a))) t
     = (case foreach (records (kmem t) (next_item (kmem s) a) (Suc n)) parse_item t of Inl x \<Rightarrow> Some (Inl x) | Inr r \<Rightarrow> K (snd r))" if "kmem t = kmem s" for t
  proof (rule Suc.IH)
    show "unat (cur + ucast (record_length (kmem s) (next_item (kmem s) a))) + span (kmem t) (next_item (kmem t) (next_item (kmem s) a)) n + first = unat tot"
      using Suc.prems(1) by (simp add: curr_length_step [OF c] that)
    fix u :: "'a plat_scheme" and c :: u32 assume "kmem u = kmem t" "unat c + first = unat tot + unat (record_length (kmem t) (behind (kmem t) (next_item (kmem s) a) (Suc n)))"
    then show "parse_loop tot (behind (kmem t) (next_item (kmem s) a) (Suc n)) c u = K u"
      using Suc.prems(4) [of u c] that by simp
  qed (use Suc.prems in simp_all)
  then show ?case using lt parse_item_kmem [of a s]
    by (subst parse_loop.simps) (fastforce simp: op_combinators Let_def split: sum.splits)
qed

text \<open>What the records say: the enabled processors, the I/O APICs, the overrides.\<close>

definition enabled :: "mem \<Rightarrow> u64 \<Rightarrow> bool" where
  "enabled m x \<longleftrightarrow> item_type m x = MADT_ITEM_PROC_LAPIC \<and> lapic_flags m x AND 3 \<noteq> 0"

definition is_io_apic :: "mem \<Rightarrow> u64 \<Rightarrow> bool" where "is_io_apic m x \<longleftrightarrow> item_type m x = MADT_ITEM_IO_APIC"
definition is_override :: "mem \<Rightarrow> u64 \<Rightarrow> bool" where "is_override m x \<longleftrightarrow> item_type m x = MADT_ITEM_IO_APIC_SRCOVERRIDE"

definition fits_tables :: "mem \<Rightarrow> nat \<Rightarrow> u64 list \<Rightarrow> bool" where
  "fits_tables m k xs \<longleftrightarrow> k + length (filter (enabled m) xs) \<le> MAX_CPUS
     \<and> (\<forall>x \<in> set xs. is_override m x \<longrightarrow> unat (global_sys_int m x) < MAX_INTERRUPT_OVERRIDE_COUNT)"

text \<open>The state after a sequence of records.\<close>

definition registered_as :: "'a plat_scheme \<Rightarrow> u64 list \<Rightarrow> 'a plat_scheme \<Rightarrow> bool" where
  "registered_as s xs t \<longleftrightarrow> kmem t = kmem s \<and> lapic_id t = lapic_id s
     \<and> cpus t = cpus s @ map (\<lambda>x. zero_cpu\<lparr>cpu_id := ucast (acpi_procID (kmem s) x)\<rparr>) (filter (enabled (kmem s)) xs)
     \<and> pIoApic t = last (pIoApic s # filter (is_io_apic (kmem s)) xs)
     \<and> interrupt_overrides t = fold (\<lambda>x f. f(unat (global_sys_int (kmem s) x) := x)) (filter (is_override (kmem s)) xs) (interrupt_overrides s)"

lemma parse_items_registered:
  "fits_tables (kmem s) (length (cpus s)) xs \<Longrightarrow> \<exists>t. foreach xs parse_item s = Inr ((), t) \<and> registered_as s xs t"
proof (induction xs arbitrary: s)
  case Nil
  then show ?case by (simp add: registered_as_def ret_def)
next
  case (Cons x xs)
  have "\<exists>t. parse_item x s = Inr ((), t) \<and> registered_as s [x] t \<and> fits_tables (kmem t) (length (cpus t)) xs"
    using Cons.prems by (auto simp: parse_item_def fits_tables_def enabled_def is_io_apic_def is_override_def madt_items registered_as_def
      add_cpu_def add_override_def Let_def MAX_CPUS_def)
  then obtain t where t: "parse_item x s = Inr ((), t)" "registered_as s [x] t" "fits_tables (kmem t) (length (cpus t)) xs" by blast
  from Cons.IH [OF t(3)] obtain u where u: "foreach xs parse_item t = Inr ((), u)" "registered_as t xs u" by blast
  have "registered_as s (x # xs) u" using t(2) u(2) by (auto simp: registered_as_def)
  then show ?case using t(1) u(1) by (simp add: seqn_step)
qed

lemma parse_madt_run:
  assumes ok: "madt_ok (kmem s) p n"
    and K: "\<And>t c. kmem t = kmem s \<Longrightarrow> unat c + unat (record_length (kmem s) (p + 44)) = unat (sdt_Length (kmem s) p) + unat (record_length (kmem s) (behind (kmem s) (p + 44) n)) \<Longrightarrow>
       parse_loop (sdt_Length (kmem s) p) (behind (kmem s) (p + 44) n) c t = K t"
  shows "parse_madt p s = (case foreach (records (kmem s) (p + 44) n) parse_item s of Inl x \<Rightarrow> Inl x | Inr r \<Rightarrow> (case K (snd r) of None \<Rightarrow> Inl Diverge | Some q \<Rightarrow> q))"
proof -
  obtain k where n: "n = Suc k" using ok by (cases n) (auto simp: madt_ok_def)
  have "parse_loop (sdt_Length (kmem s) p) (p + 44) 44 s = (case foreach (records (kmem s) (p + 44) (Suc k)) parse_item s of Inl x \<Rightarrow> Some (Inl x) | Inr r \<Rightarrow> K (snd r))"
    by (rule parse_loop_foreach [where first = "unat (record_length (kmem s) (p + 44))"]) (use ok K in \<open>auto simp: madt_ok_def n unat_gt_0\<close>)
  then show ?thesis using ok by (simp add: parse_madt_def madt_ok_def madt_fields_def sizeof_ACPISDTHeader_def op_combinators n split: sum.splits option.splits)
qed

lemma parse_madt_foreach:
  assumes ok: "madt_ok (kmem s) p n" and g: "guarded (kmem s) p n"
  shows "parse_madt p s = foreach (records (kmem s) (p + 44) n) parse_item s"
proof -
  have "parse_loop (sdt_Length (kmem s) p) (behind (kmem s) (p + 44) n) c t = Some (Inr ((), t))"
    if "unat c + unat (record_length (kmem s) (p + 44)) = unat (sdt_Length (kmem s) p) + unat (record_length (kmem s) (behind (kmem s) (p + 44) n))" for t c
    using that g by (subst parse_loop.simps) (simp add: guarded_def word_less_nat_alt word_le_nat_alt)
  from parse_madt_run [OF ok, of "\<lambda>t. Some (Inr ((), t))", OF this] show ?thesis by (auto split: sum.splits)
qed

text \<open>C32: the processors, the I/O APIC and the overrides of the MADT are registered. When the table is followed by a byte that
  stops the loop, \<open>parse_madt\<close> returns and has taken every record of the table once, in order: the enabled processors are the new
  entries of the CPU table, in the order of the table and with their ACPI processor ids, \<open>pIoApic\<close> is the last I/O APIC, and an
  override is stored under its global system interrupt, later ones replacing earlier ones.\<close>

theorem parse_madt_registers:
  assumes "madt_ok (kmem s) p n" "guarded (kmem s) p n" "fits_tables (kmem s) (length (cpus s)) (records (kmem s) (p + 44) n)"
  shows "\<exists>t. parse_madt p s = Inr ((), t) \<and> registered_as s (records (kmem s) (p + 44) n) t"
  using parse_items_registered [OF assms(3)] by (simp add: parse_madt_foreach [OF assms(1,2)])

lemma parse_loop_stuck:
  fixes t :: "'a plat_scheme"
  assumes z: "item_type (kmem t) x = MADT_ITEM_PROC_LAPIC" "\<not> enabled (kmem t) x" "record_length (kmem t) x = 0" and lt: "c < tot"
  shows "parse_loop tot x c t = None"
proof (rule ccontr)
  assume "parse_loop tot x c t \<noteq> None"
  then obtain r where "parse_loop tot x c t = Some r" by blast
  then have "\<not> (tot = tot \<and> x = x \<and> c = c \<and> t = t)"
  proof (rule parse_loop.raw_induct [where P = "\<lambda>tot' x' c' t' r. \<not> (tot' = tot \<and> x' = x \<and> c' = c \<and> t' = t)", rotated], intro notI, elim conjE)
    fix L :: "u32 \<Rightarrow> u64 \<Rightarrow> u32 \<Rightarrow> 'a plat_scheme \<Rightarrow> (fault + unit \<times> 'a plat_scheme) option" and tot' x' c' t' r'
    assume IH: "\<And>tot' x' c' t' r'. L tot' x' c' t' = Some r' \<Longrightarrow> \<not> (tot' = tot \<and> x' = x \<and> c' = c \<and> t' = t)"
      and st: "(if c' < tot' then case parse_item x' t' of Inl y \<Rightarrow> Some (Inl y)
         | Inr r \<Rightarrow> let m = kmem (snd r) in L tot' (next_item m x') (c' + ucast (record_length m (next_item m x'))) (snd r) else Some (Inr ((), t'))) = Some r'"
      and eq: "tot' = tot" "x' = x" "c' = c" "t' = t"
    have "parse_item x t = Inr ((), t)" using z by (simp add: parse_item_def enabled_def)
    then have "L tot x c t = Some r'" using st lt z(3) unfolding eq by (simp add: next_item_def)
    then show False using IH by blast
  qed
  then show False by simp
qed

text \<open>C37: \<open>parse_madt\<close> runs past the end of the table. It stops behind the last record only if a byte behind the table is large
  enough; when the memory there is zero, the boot hangs: the loop stays at a record of length 0 forever.\<close>

theorem parse_madt_hangs_on_zeros:
  assumes "madt_ok (kmem s) p n" "fits_tables (kmem s) (length (cpus s)) (records (kmem s) (p + 44) n)"
    and z: "\<forall>i < 8. kmem s (behind (kmem s) (p + 44) n + of_nat i) = 0"
  shows "parse_madt p s = Inl Diverge"
proof -
  let ?x = "behind (kmem s) (p + 44) n"
  have "kmem s ?x = 0" "kmem s (?x + 1) = 0" "kmem s (?x + 4) = 0" "kmem s (?x + 5) = 0" "kmem s (?x + 6) = 0" "kmem s (?x + 7) = 0"
    using z [rule_format, of 0] z [rule_format, of 1] z [rule_format, of 4] z [rule_format, of 5] z [rule_format, of 6] z [rule_format, of 7] by simp_all
  then have e: "item_type (kmem s) ?x = MADT_ITEM_PROC_LAPIC" "\<not> enabled (kmem s) ?x" "record_length (kmem s) ?x = 0"
    by (simp_all add: item_type_def enabled_def madt_items record_length_def lapic_flags_def field_defs add.assoc)
  have f: "0 < unat (record_length (kmem s) (p + 44))" using assms(1) by (cases n) (auto simp: madt_ok_def unat_gt_0)
  have "parse_loop (sdt_Length (kmem s) p) ?x c t = None" if "kmem t = kmem s"
    "unat c + unat (record_length (kmem s) (p + 44)) = unat (sdt_Length (kmem s) p) + unat (record_length (kmem s) ?x)" for t :: "'a plat_scheme" and c
  proof -
    have "c < sdt_Length (kmem s) p" using that(2) f e(3) by (simp add: word_less_nat_alt)
    then show ?thesis using e by (intro parse_loop_stuck) (simp_all only: that(1) simp_thms)
  qed
  then have r: "parse_madt p s = (case foreach (records (kmem s) (p + 44) n) parse_item s of Inl x \<Rightarrow> Inl x
     | Inr r \<Rightarrow> (case (\<lambda>_. None) (snd r) of None \<Rightarrow> Inl Diverge | Some q \<Rightarrow> q))" by (rule parse_madt_run [OF assms(1)])
  from parse_items_registered [OF assms(2)] obtain t where "foreach (records (kmem s) (p + 44) n) parse_item s = Inr ((), t)" by blast
  then show ?thesis unfolding r by simp
qed

lemma index_word:
  assumes "j \<le> unat (k :: u32)"
  shows "(of_nat j :: u32) \<le> k" "k = of_nat j \<longleftrightarrow> j = unat k"
proof -
  have "unat (of_nat j :: u32) = j" using assms unsigned_less [of k, where ?'a = nat] by (simp add: unat_of_nat take_bit_nat_eq_self)
  then show "(of_nat j :: u32) \<le> k" "k = of_nat j \<longleftrightarrow> j = unat k" using assms by (auto simp: word_le_nat_alt)
qed

lemma madt_get_loop_nth:
  assumes "unat cur + span m (next_item m a) n + first = unat tot" "unat tot < 2 ^ 31" "0 < first"
    and "first \<le> unat (record_length m (behind m a (Suc n)))" "j \<le> unat k"
  shows "madt_get_loop m tot ty k a cur (of_nat j) =
     Some (let fs = filter (\<lambda>x. ucast (item_type m x) = ty) (records m a (Suc n)) in if unat k - j < length fs then fs ! (unat k - j) else 0)"
  using assms
proof (induction n arbitrary: a cur j)
  case 0
  have c: "unat cur < 2 ^ 31" "cur < tot" using 0 by (simp_all add: word_less_nat_alt)
  have jk: "(of_nat j :: u32) \<le> k" "k = of_nat j \<longleftrightarrow> j = unat k" by (rule index_word [OF 0(5)])+
  have "\<not> cur + ucast (record_length m (next_item m a)) < tot" using 0 by (simp add: word_less_nat_alt curr_length_step [OF c(1)])
  then have "madt_get_loop m tot ty k (next_item m a) (cur + ucast (record_length m (next_item m a))) i = Some 0" for i
    by (subst madt_get_loop.simps) simp
  then show ?case using c(2) jk 0(5) by (subst madt_get_loop.simps) auto
next
  case (Suc n)
  have c: "unat cur < 2 ^ 31" "cur < tot" using Suc.prems by (simp_all add: word_less_nat_alt)
  have jk: "(of_nat j :: u32) \<le> k" "k = of_nat j \<longleftrightarrow> j = unat k" by (rule index_word [OF Suc.prems(5)])+
  let ?c = "cur + ucast (record_length m (next_item m a))"
  have "unat ?c + span m (next_item m (next_item m a)) n + first = unat tot" using Suc.prems(1) by (simp add: curr_length_step [OF c(1)])
  note IH = Suc.IH [OF this Suc.prems(2,3)]
  show ?case
  proof (cases "ucast (item_type m a) = ty")
    case True
    then show ?thesis using c(2) jk Suc.prems(4,5) IH [of "Suc j"]
      by (subst madt_get_loop.simps) (auto simp: Let_def nth_Cons' Suc_diff_Suc add.commute)
  next
    case False
    then show ?thesis using c(2) jk Suc.prems(4,5) IH [of j] by (subst madt_get_loop.simps) (auto simp: Let_def)
  qed
qed

text \<open>\<open>madt_get_item\<close> finds the \<open>k\<close>th record of a type, counted from 0, and returns a null pointer when there are not so
  many; like \<open>parse_madt\<close> it needs the byte behind the table to stop.\<close>

theorem madt_get_item_nth:
  assumes ok: "madt_ok (kmem s) p n" and g: "guarded (kmem s) p n"
  shows "madt_get_item p ty k s =
     Inr (let fs = filter (\<lambda>x. ucast (item_type (kmem s) x) = ty) (records (kmem s) (p + 44) n) in if unat k < length fs then fs ! unat k else 0, s)"
proof -
  obtain i where n: "n = Suc i" using ok by (cases n) (auto simp: madt_ok_def)
  have "madt_get_loop (kmem s) (sdt_Length (kmem s) p) ty k (p + 44) 44 (of_nat 0) = Some (let fs = filter (\<lambda>x. ucast (item_type (kmem s) x) = ty)
     (records (kmem s) (p + 44) (Suc i)) in if unat k - 0 < length fs then fs ! (unat k - 0) else 0)"
    by (rule madt_get_loop_nth [where first = "unat (record_length (kmem s) (p + 44))"])
       (use ok g in \<open>auto simp: madt_ok_def guarded_def n unat_gt_0 word_le_nat_alt\<close>)
  then show ?thesis by (simp add: madt_get_item_def madt_fields_def sizeof_ACPISDTHeader_def n Let_def)
qed

lemma find_cpu_None: "find_cpu l cs = None \<longleftrightarrow> (\<forall>c \<in> set cs. ucast (cpu_id c) \<noteq> l)"
  by (induction cs) auto

text \<open>A CPU is known by the ACPI processor id of its record, but looked up by its local APIC id. After \<open>parse_madt\<close> on an empty
  table the executing CPU is found exactly when some enabled record has its APIC id as processor id; on machines whose
  firmware numbers processors differently the first use of \<open>get_current_cpu\<close> panics.\<close>

theorem current_cpu_needs_equal_ids:
  assumes "madt_ok (kmem s) p n" "guarded (kmem s) p n" "fits_tables (kmem s) 0 (records (kmem s) (p + 44) n)" "cpus s = []"
  shows "\<exists>t. parse_madt p s = Inr ((), t) \<and>
     ((\<exists>i. get_current_cpu t = Inr (i, t)) \<longleftrightarrow> (\<exists>x \<in> set (records (kmem s) (p + 44) n). enabled (kmem s) x \<and> ucast (acpi_procID (kmem s) x) = lapic_id s))"
proof -
  have "fits_tables (kmem s) (length (cpus s)) (records (kmem s) (p + 44) n)" using assms(3,4) by simp
  from parse_items_registered [OF this] obtain t where t: "foreach (records (kmem s) (p + 44) n) parse_item s = Inr ((), t)"
    "registered_as s (records (kmem s) (p + 44) n) t" by blast
  have "parse_madt p s = Inr ((), t)" using t(1) by (simp add: parse_madt_foreach [OF assms(1,2)])
  moreover have "ucast (ucast b :: u16) = (ucast b :: u32)" for b :: u8 by (rule bit_word_eqI) (auto simp: bit_simps dest: bit_imp_le_length)
  then have "find_cpu (lapic_id t) (cpus t) = None \<longleftrightarrow> \<not> (\<exists>x \<in> set (records (kmem s) (p + 44) n). enabled (kmem s) x \<and> ucast (acpi_procID (kmem s) x) = lapic_id s)"
    using t(2) assms(4) by (auto simp: registered_as_def find_cpu_None)
  ultimately show ?thesis by (auto simp: get_current_cpu_def split: option.splits)
qed

text \<open>A table with two enabled processors, an I/O APIC and an override (active low, level) of interrupt 0, followed by the bytes \<open>after\<close>.\<close>

definition example_madt :: "u8 list \<Rightarrow> mem" where
  "example_madt after = bytes_from 0x2000 (map of_char ''APIC'' @ [82, 0, 0, 0] @ replicate 36 0
     @ [0, 8, 0, 0, 1, 0, 0, 0] @ [0, 8, 1, 1, 1, 0, 0, 0] @ [1, 12, 0, 0, 0, 0, 0xC0, 0xFE, 0, 0, 0, 0] @ [2, 10, 0, 0, 2, 0, 0, 0, 15, 0] @ after)"

lemma example_madt_table:
  shows "records (example_madt after) 0x202C 4 = [0x202C, 0x2034, 0x203C, 0x2048]" "behind (example_madt after) 0x202C 4 = 0x2052" "madt_ok (example_madt after) 0x2000 4"
    "filter (enabled (example_madt after)) [0x202C, 0x2034, 0x203C, 0x2048] = [0x202C, 0x2034]" "filter (is_io_apic (example_madt after)) [0x202C, 0x2034, 0x203C, 0x2048] = [0x203C]"
    "filter (is_override (example_madt after)) [0x202C, 0x2034, 0x203C, 0x2048] = [0x2048]" "global_sys_int (example_madt after) 0x2048 = 2"
    "acpi_procID (example_madt after) 0x202C = 0" "acpi_procID (example_madt after) 0x2034 = 1" "record_length (example_madt after) 0x202C = 8"
    "item_type (example_madt after) 0x202C = 0" "item_type (example_madt after) 0x2034 = 0" "item_type (example_madt after) 0x203C = 1" "item_type (example_madt after) 0x2048 = 2"
proof -
  have f: "record_length (example_madt after) 0x202C = 8" "record_length (example_madt after) 0x2034 = 8" "record_length (example_madt after) 0x203C = 12" "record_length (example_madt after) 0x2048 = 10"
    "item_type (example_madt after) 0x202C = 0" "item_type (example_madt after) 0x2034 = 0" "item_type (example_madt after) 0x203C = 1" "item_type (example_madt after) 0x2048 = 2"
    "lapic_flags (example_madt after) 0x202C = 1" "lapic_flags (example_madt after) 0x2034 = 1" "sdt_Length (example_madt after) 0x2000 = 82"
    by (simp_all add: record_length_def item_type_def lapic_flags_def sdt_Length_def field_defs example_madt_def bytes_from_def nth_append)
  have four: "4 = Suc (Suc (Suc (Suc 0)))" by simp
  show g: "records (example_madt after) 0x202C 4 = [0x202C, 0x2034, 0x203C, 0x2048]" "behind (example_madt after) 0x202C 4 = 0x2052"
    unfolding four by (simp_all add: next_item_def f)
  have "span (example_madt after) 0x202C 4 = 38" unfolding four by (simp add: next_item_def f)
  then show "madt_ok (example_madt after) 0x2000 4" by (simp add: madt_ok_def f g)
  show "filter (enabled (example_madt after)) [0x202C, 0x2034, 0x203C, 0x2048] = [0x202C, 0x2034]" "filter (is_io_apic (example_madt after)) [0x202C, 0x2034, 0x203C, 0x2048] = [0x203C]"
    "filter (is_override (example_madt after)) [0x202C, 0x2034, 0x203C, 0x2048] = [0x2048]" by (simp_all add: enabled_def is_io_apic_def is_override_def madt_items f)
  show "global_sys_int (example_madt after) 0x2048 = 2" "acpi_procID (example_madt after) 0x202C = 0" "acpi_procID (example_madt after) 0x2034 = 1" "record_length (example_madt after) 0x202C = 8"
    "item_type (example_madt after) 0x202C = 0" "item_type (example_madt after) 0x2034 = 0" "item_type (example_madt after) 0x203C = 1" "item_type (example_madt after) 0x2048 = 2"
    by (simp_all add: global_sys_int_def acpi_procID_def f field_defs) (simp_all add: example_madt_def bytes_from_def nth_append)
qed

lemma example_madt_fits: "fits_tables (example_madt after) 0 [0x202C, 0x2034, 0x203C, 0x2048]"
  using example_madt_table(4-7) [of after] by (simp add: fits_tables_def MAX_CPUS_def MAX_INTERRUPT_OVERRIDE_COUNT_def split: if_splits)

lemma example_madt_guard: "guarded (example_madt [72, 80]) 0x2000 4"
  using example_madt_table(2,10) [of "[72, 80]"] by (simp add: guarded_def) (simp add: record_length_def example_madt_def bytes_from_def nth_append)

theorem parse_madt_registers_witness:
  "\<exists>t. parse_madt 0x2000 (power_on (example_madt [72, 80])) = Inr ((), t) \<and> map cpu_id (cpus t) = [0, 1] \<and> pIoApic t = 0x203C \<and> interrupt_overrides t 2 = 0x2048"
  using parse_madt_registers [of "power_on (example_madt [72, 80])" "0x2000" 4] example_madt_table [of "[72, 80]"] example_madt_fits [of "[72, 80]"] example_madt_guard
  by (auto simp: registered_as_def)

theorem parse_madt_hangs_on_zeros_witness: "parse_madt 0x2000 (power_on (example_madt [])) = Inl Diverge"
proof -
  have "example_madt [] (0x2052 + of_nat i) = 0" if "i < 8" for i
  proof -
    have "unat (0x52 + of_nat i :: u64) = 0x52 + i" using that by (simp add: unat_word_ariths unat_of_nat take_bit_nat_eq_self)
    then show ?thesis by (simp add: example_madt_def bytes_from_def nth_append)
  qed
  then show ?thesis using parse_madt_hangs_on_zeros [of "power_on (example_madt [])" "0x2000" 4] example_madt_table [of "[]"] example_madt_fits [of "[]"] by simp
qed

theorem madt_get_item_nth_witness:
  "madt_get_item 0x2000 0 1 (power_on (example_madt [72, 80])) = Inr (0x2034, power_on (example_madt [72, 80]))"
  using madt_get_item_nth [of "power_on (example_madt [72, 80])" "0x2000" 4 0 1] example_madt_table [of "[72, 80]"] example_madt_guard
  by simp

theorem current_cpu_needs_equal_ids_witness:
  "\<exists>t i. parse_madt 0x2000 (power_on (example_madt [72, 80])) = Inr ((), t) \<and> get_current_cpu t = Inr (i, t)"
  using current_cpu_needs_equal_ids [of "power_on (example_madt [72, 80])" "0x2000" 4] example_madt_table [of "[72, 80]"] example_madt_fits [of "[72, 80]"] example_madt_guard
  by (auto split: if_splits)

section \<open>The XSDT\<close>

lemma le_bytes_4_high: "n \<ge> 32 \<Longrightarrow> \<not> bit (le_bytes m a 4) n"
  unfolding le_bytes_up(2) by (auto simp: bit_simps dest!: bit_imp_le_length)

text \<open>The addresses in an XSDT are read from the wrong place. The table has its 64-bit addresses from byte 36 on; the
  compiler puts the array \<open>sdtAddresses\<close> of the structure at byte 40, so entry \<open>i\<close> of the loop is made of the upper half of
  address \<open>i\<close> and the lower half of address \<open>i + 1\<close>. If the tables lie below 4 GB, every address the loop looks at is a
  multiple of 4 GB.\<close>

theorem xsdt_entries_shifted:
  "xsdt_entry m p i = drop_bit 32 (word64 m (p + 36 + 8 * of_nat i)) OR push_bit 32 (word64 m (p + 36 + 8 * of_nat (Suc i)))"
proof -
  let ?L = "\<lambda>a. le_bytes m a 4" and ?a = "p + 40 + 8 * of_nat i"
  have d: "drop_bit 32 (?L (p + 36 + 8 * of_nat i) OR push_bit 32 (?L ?a)) = ?L ?a"
    by (rule bit_word_eqI) (auto simp: bit_simps le_bytes_4_high, metis le_bytes_4_high not_le)
  have u: "push_bit 32 (?L (?a + 4) OR push_bit 32 (?L (?a + 8))) = push_bit 32 (?L (?a + 4))"
    by (rule bit_word_eqI) (auto simp: bit_simps)
  have a: "p + 36 + 8 * of_nat i + 4 = ?a" "p + 36 + 8 * of_nat (Suc i) = ?a + 4" "?a + 4 + 4 = ?a + 8" by (simp_all add: algebra_simps)
  show ?thesis unfolding xsdt_entry_def word64_def le_bytes_up(3) a d u ..
qed

end
