(* ===== verification/Interrupts.thy ===== *)
theory Interrupts
  imports Firmware
begin

text \<open>
  Interrupts: the descriptor table and the dispatch of arch/x86_64/idt.c, the local APIC, the I/O APIC, the legacy PIC and the
  PIT of arch/x86_64/apic.c, and \<open>keyboard_driver_init\<close> of drivers/ps2_keyboard.c, whose work is to route an interrupt.

  The addresses of the assembly stubs are an argument of \<open>build_IDT\<close>. What the hardware decides is an argument as well: the
  answers of \<open>cpuid\<close>, the bytes that ports return, and \<open>hlt\<close>, what happens until a halted CPU goes on.
\<close>

section \<open>The descriptor table\<close>

definition IDT_SIZE :: nat where "IDT_SIZE = 256"
definition sizeof_InterruptDescriptor64 :: nat where "sizeof_InterruptDescriptor64 = 16"

definition IDT_APIC_TIMER_INT :: u64 where "IDT_APIC_TIMER_INT = 32"
definition IDT_KEYBOARD_INT :: u64 where "IDT_KEYBOARD_INT = 33"
definition IDT_PIT_INT :: u64 where "IDT_PIT_INT = 34"
definition IDT_APIC_SPURIOUS_INT :: u64 where "IDT_APIC_SPURIOUS_INT = 255"

lemmas isr_ids = IDT_APIC_TIMER_INT_def IDT_KEYBOARD_INT_def IDT_PIT_INT_def IDT_APIC_SPURIOUS_INT_def

definition IDT_DESC_TYPE_INT :: u8 where "IDT_DESC_TYPE_INT = 0xe"
definition IDT_DESC_TYPE_TRAP :: u8 where "IDT_DESC_TYPE_TRAP = 0xf"
definition IDT_DESC_DPL_USER :: u8 where "IDT_DESC_DPL_USER = push_bit 6 1 OR push_bit 5 1"
definition IDT_DESC_DPL_ROOT :: u8 where "IDT_DESC_DPL_ROOT = 0"
definition IDT_PRESENT_FLAG :: u8 where "IDT_PRESENT_FLAG = 0x80"

definition set_descriptor :: "u64 \<Rightarrow> bool \<Rightarrow> bool \<Rightarrow> InterruptDescriptor64 \<Rightarrow> InterruptDescriptor64" where
  "set_descriptor isr_address user_accessible trap_gate d =
     d\<lparr>offset_low := ucast (isr_address AND 0xFFFF), offset_mid := ucast (drop_bit 16 isr_address), offset_high := ucast (drop_bit 32 isr_address),
       type_attributes := type_attributes d OR (if user_accessible then IDT_DESC_DPL_USER else IDT_DESC_DPL_ROOT)
         OR (if trap_gate then IDT_DESC_TYPE_TRAP else IDT_DESC_TYPE_INT) OR IDT_PRESENT_FLAG,
       selector := 8, desc_zero := 0, desc_ist := 0\<rparr>"

definition SetIDT_Descriptor :: "u8 \<Rightarrow> u64 \<Rightarrow> bool \<Rightarrow> bool \<Rightarrow> 'a plat_scheme \<Rightarrow> 'a plat_scheme" where
  "SetIDT_Descriptor index isr_address user_accessible trap_gate s =
     s\<lparr>IDT := (IDT s)(unat index := set_descriptor isr_address user_accessible trap_gate (IDT s (unat index)))\<rparr>"

definition zero_descriptor :: InterruptDescriptor64 where
  "zero_descriptor = \<lparr>offset_low = 0, selector = 0, desc_ist = 0, type_attributes = 0, offset_mid = 0, offset_high = 0, desc_zero = 0\<rparr>"

text \<open>The stubs \<open>isr_0\<close> to \<open>isr_46\<close> (some called \<open>isr_errorcode_n\<close>) and \<open>sys_call_stub\<close>, by their vector. The calls for 0 to 46
  differ only in the vector: 3, 13 and 32 may be raised from user mode, and 32 alone is a trap gate.\<close>

definition user_vector :: "nat \<Rightarrow> bool" where "user_vector v \<longleftrightarrow> v \<in> {3, 13, 32, 0x80}"

definition build_IDT :: "(nat \<Rightarrow> u64) \<Rightarrow> 'a plat_scheme \<Rightarrow> 'a plat_scheme" where
  "build_IDT stub s =
     fold (\<lambda>v. SetIDT_Descriptor (of_nat v) (stub v) (user_vector v) (v = 32)) ([0..<47] @ [0x80])
       (s\<lparr>IDT := (\<lambda>v. if v < IDT_SIZE then zero_descriptor else IDT s v)\<rparr>)"

definition lidt :: "'a plat_scheme \<Rightarrow> 'a plat_scheme" where
  "lidt s = s\<lparr>idtr := \<lparr>idtr_limit = of_nat (IDT_SIZE * sizeof_InterruptDescriptor64 - 1), idtr_base = IDT_va s\<rparr>\<rparr>"

definition idt_setup :: "(nat \<Rightarrow> u64) \<Rightarrow> 'a plat_scheme \<Rightarrow> 'a plat_scheme" where
  "idt_setup stub s = lidt (build_IDT stub s)"

section \<open>Ports\<close>

definition outb :: "u16 \<Rightarrow> u8 \<Rightarrow> 'a plat_scheme \<Rightarrow> fault + unit \<times> 'a plat_scheme" where
  "outb port v = upd (\<lambda>s. s\<lparr>port_log := (port, v) # port_log s\<rparr>)"

definition PIC1_COMMAND :: u16 where "PIC1_COMMAND = 0x20"
definition PIC1_DATA :: u16 where "PIC1_DATA = PIC1_COMMAND + 1"
definition PIC2_COMMAND :: u16 where "PIC2_COMMAND = 0xA0"
definition PIC2_DATA :: u16 where "PIC2_DATA = PIC2_COMMAND + 1"
definition ICW1_ICW4 :: u8 where "ICW1_ICW4 = 1"
definition ICW1_INIT :: u8 where "ICW1_INIT = 0x10"
definition ICW4_8086 :: u8 where "ICW4_8086 = 1"

definition disable_pic_legacy :: "'a plat_scheme \<Rightarrow> fault + unit \<times> 'a plat_scheme" where
  "disable_pic_legacy = seqn (outb PIC1_DATA 0xFF) (outb PIC2_DATA 0xFF)"

text \<open>The masks that are read first are not used; \<open>io_wait\<close> only takes time.\<close>

definition init_pic_legacy :: "u32 \<Rightarrow> u32 \<Rightarrow> 'a plat_scheme \<Rightarrow> fault + unit \<times> 'a plat_scheme" where
  "init_pic_legacy offset1 offset2 =
     seqn (outb PIC1_COMMAND (ICW1_INIT OR ICW1_ICW4)) (seqn (outb PIC2_COMMAND (ICW1_INIT OR ICW1_ICW4))
    (seqn (outb PIC1_DATA (ucast offset1)) (seqn (outb PIC2_DATA (ucast offset2))
    (seqn (outb PIC1_DATA 4) (seqn (outb PIC2_DATA 2)
    (seqn (outb PIC1_DATA ICW4_8086) (seqn (outb PIC2_DATA ICW4_8086)
           disable_pic_legacy)))))))"

definition set_pit_periodic :: "u16 \<Rightarrow> 'a plat_scheme \<Rightarrow> fault + unit \<times> 'a plat_scheme" where
  "set_pit_periodic count =
     seqn (outb 0x43 0x34) (seqn (outb 0x40 (ucast (count AND 0xFF))) (outb 0x40 (ucast (drop_bit 8 count))))"

section \<open>The local APIC\<close>

definition APIC_REG_LOCAL_ID :: u32 where "APIC_REG_LOCAL_ID = 0x20"
definition APIC_REG_SPURIOUS_INT :: u32 where "APIC_REG_SPURIOUS_INT = 0xF0"
definition APIC_REG_ICR_LOW :: u32 where "APIC_REG_ICR_LOW = 0x300"
definition APIC_REG_ICR_HIGH :: u32 where "APIC_REG_ICR_HIGH = 0x310"
definition APIC_REG_TIMER_LVT :: u32 where "APIC_REG_TIMER_LVT = 0x320"
definition APIC_REG_TIMER_INITCNT :: u32 where "APIC_REG_TIMER_INITCNT = 0x380"
definition APIC_REG_TIMER_CURRCNT :: u32 where "APIC_REG_TIMER_CURRCNT = 0x390"
definition APIC_REG_TIMER_DIV :: u32 where "APIC_REG_TIMER_DIV = 0x3E0"
definition APIC_SOFTWARE_ENABLE :: u32 where "APIC_SOFTWARE_ENABLE = push_bit 8 1"
definition APIC_LVT_INT_MASKED :: u32 where "APIC_LVT_INT_MASKED = 0x10000"
definition APIC_LVT_TIMER_MODE_PERIODIC :: u32 where "APIC_LVT_TIMER_MODE_PERIODIC = 0x20000"

lemmas apic_regs = APIC_REG_LOCAL_ID_def APIC_REG_SPURIOUS_INT_def APIC_REG_ICR_LOW_def APIC_REG_ICR_HIGH_def APIC_REG_TIMER_LVT_def
  APIC_REG_TIMER_INITCNT_def APIC_REG_TIMER_CURRCNT_def APIC_REG_TIMER_DIV_def

definition IA32_APIC_BASE_MSR :: u32 where "IA32_APIC_BASE_MSR = 0x1B"
definition IA32_APIC_BASE_MSR_ENABLE :: u64 where "IA32_APIC_BASE_MSR_ENABLE = push_bit 11 1"
definition IA32_APIC_BASE_MSR_X2ENABLE :: u64 where "IA32_APIC_BASE_MSR_X2ENABLE = push_bit 10 1"
definition CPUID_PROC_FEAT_ID_EDX_APIC :: u32 where "CPUID_PROC_FEAT_ID_EDX_APIC = push_bit 9 1"
definition APIC_BASE_SEL :: u64 where "APIC_BASE_SEL = 0xFFFFFFFFFF000"

definition ReadBase :: "'a plat_scheme \<Rightarrow> u64" where "ReadBase s = msr s (lapic_id s) IA32_APIC_BASE_MSR"

definition cpuSetMSR :: "u32 \<Rightarrow> u64 \<Rightarrow> 'a plat_scheme \<Rightarrow> fault + unit \<times> 'a plat_scheme" where
  "cpuSetMSR i v = upd (\<lambda>s. s\<lparr>msr := (msr s)(lapic_id s := (msr s (lapic_id s))(i := v))\<rparr>)"

definition APIC_WRITE :: "u32 \<Rightarrow> u32 \<Rightarrow> 'a plat_scheme \<Rightarrow> fault + unit \<times> 'a plat_scheme" where
  "APIC_WRITE off v = upd (\<lambda>s. s\<lparr>lapic_regs := (lapic_regs s)(lapic_id s := (lapic_regs s (lapic_id s))(off := v))\<rparr>)"

definition APIC_READ :: "u32 \<Rightarrow> 'a plat_scheme \<Rightarrow> fault + u32 \<times> 'a plat_scheme" where
  "APIC_READ off = gets (\<lambda>s. lapic_regs s (lapic_id s) off)"

text \<open>In x2APIC mode the code shifts a 32-bit value by 32.\<close>

definition apic_read_reg :: "u32 \<Rightarrow> 'a plat_scheme \<Rightarrow> fault + u64 \<times> 'a plat_scheme" where
  "apic_read_reg reg_offset =
     bnd (gets use_x2_apic) (\<lambda>x2. if x2 then raise Undefined else bnd (APIC_READ reg_offset) (\<lambda>v. ret (ucast v)))"

definition apic_write_reg :: "u32 \<Rightarrow> u32 \<Rightarrow> u32 \<Rightarrow> 'a plat_scheme \<Rightarrow> fault + unit \<times> 'a plat_scheme" where
  "apic_write_reg reg_offset eax edx =
     bnd (gets use_x2_apic) (\<lambda>x2.
     if x2 then cpuSetMSR (drop_bit 4 reg_offset + 0x800) (push_bit 32 (ucast edx) OR ucast eax)
     else APIC_WRITE reg_offset eax)"

definition apic_send_ipi :: "u8 \<Rightarrow> u32 \<Rightarrow> u32 \<Rightarrow> u8 \<Rightarrow> 'a plat_scheme \<Rightarrow> fault + unit \<times> 'a plat_scheme" where
  "apic_send_ipi dest_cpu dsh type vector =
     seqn (APIC_WRITE APIC_REG_ICR_HIGH (push_bit 24 (ucast dest_cpu))) (APIC_WRITE APIC_REG_ICR_LOW (dsh OR type OR ucast vector))"

text \<open>The page with the registers is mapped, and the enable bit set, unless they already are.\<close>

definition map_device :: "u64 \<Rightarrow> 'a plat_scheme \<Rightarrow> fault + unit \<times> 'a plat_scheme" where
  "map_device a =
     bnd (gets (pml4t_va \<circ> link)) (\<lambda>pml4t. bnd (is_frame_mapped_kernel a pml4t) (\<lambda>mapped.
     if mapped then ret () else seqn (direct_map (HUGEPGROUNDDOWN a)) (ret ())))"

definition enable_lapic :: "'a plat_scheme \<Rightarrow> fault + unit \<times> 'a plat_scheme" where
  "enable_lapic =
     bnd (gets ReadBase) (\<lambda>v. if v AND IA32_APIC_BASE_MSR_ENABLE \<noteq> 0 then ret ()
       else cpuSetMSR IA32_APIC_BASE_MSR (v OR IA32_APIC_BASE_MSR_ENABLE))"

text \<open>\<open>edx\<close> is what \<open>cpuid\<close> returns there. The x2APIC branch of the code is switched off by a constant, and the branch for
  a machine without an APIC is behind the panic.\<close>

definition apic_init :: "u32 \<Rightarrow> 'a plat_scheme \<Rightarrow> fault + unit \<times> 'a plat_scheme" where
  "apic_init edx =
     seqn (init_pic_legacy 0x20 0x28)
    (if edx AND CPUID_PROC_FEAT_ID_EDX_APIC = 0 then raise (Panic ''apic_init() --> apic is not available'')
     else bnd (gets (\<lambda>s. ReadBase s AND APIC_BASE_SEL)) (\<lambda>lapic_base.
       seqn (map_device lapic_base)
      (seqn enable_lapic
      (seqn (upd (\<lambda>s. s\<lparr>use_x2_apic := False\<rparr>))
            (apic_write_reg APIC_REG_SPURIOUS_INT (ucast IDT_APIC_SPURIOUS_INT OR APIC_SOFTWARE_ENABLE) 0)))))"

definition smp_apic_init :: "'a plat_scheme \<Rightarrow> fault + unit \<times> 'a plat_scheme" where
  "smp_apic_init =
     bnd (gets (\<lambda>s. ReadBase s AND APIC_BASE_SEL)) (\<lambda>lapic_base.
     seqn (map_device lapic_base)
    (seqn enable_lapic
    (seqn (bnd (gets use_x2_apic) (\<lambda>x2. if x2
             then bnd (gets ReadBase) (\<lambda>v. cpuSetMSR IA32_APIC_BASE_MSR (v OR IA32_APIC_BASE_MSR_X2ENABLE)) else ret ()))
          (apic_write_reg APIC_REG_SPURIOUS_INT (ucast IDT_APIC_SPURIOUS_INT OR APIC_SOFTWARE_ENABLE) 0))))"

section \<open>The I/O APIC\<close>

definition IOAPICREDTBL :: "u32 \<Rightarrow> u32" where "IOAPICREDTBL n = 0x10 + 2 * n"

definition dm_ioapic_address :: "u64 \<Rightarrow> 'a plat_scheme \<Rightarrow> fault + u64 \<times> 'a plat_scheme" where
  "dm_ioapic_address ioapic =
     (if ioapic = 0 then ret 0
      else bnd (gets (\<lambda>s. ucast (io_apic_address (kmem s) ioapic))) (\<lambda>a. seqn (map_device a) (ret a)))"

definition io_apic_write :: "u64 \<Rightarrow> u8 \<Rightarrow> u32 \<Rightarrow> 'a plat_scheme \<Rightarrow> fault + bool \<times> 'a plat_scheme" where
  "io_apic_write ioapic offset write_value =
     bnd (dm_ioapic_address ioapic) (\<lambda>b. if b = 0 then ret False
     else seqn (upd (\<lambda>s. s\<lparr>ioregsel := offset\<rparr>))
         (seqn (upd (\<lambda>s. s\<lparr>io_apic_regs := (io_apic_regs s)(ioregsel s := write_value)\<rparr>)) (ret True)))"

text \<open>The value that the code stores through \<open>read_out\<close>; \<open>None\<close> when it returns false and stores nothing.\<close>

definition io_apic_read :: "u64 \<Rightarrow> u8 \<Rightarrow> 'a plat_scheme \<Rightarrow> fault + u32 option \<times> 'a plat_scheme" where
  "io_apic_read ioapic offset =
     bnd (dm_ioapic_address ioapic) (\<lambda>b. if b = 0 then ret None
     else seqn (upd (\<lambda>s. s\<lparr>ioregsel := offset\<rparr>)) (gets (\<lambda>s. Some (io_apic_regs s (ioregsel s)))))"

definition set_io_apic_redirect :: "u64 \<Rightarrow> u32 \<Rightarrow> u32 \<Rightarrow> u32 \<Rightarrow> 'a plat_scheme \<Rightarrow> fault + bool \<times> 'a plat_scheme" where
  "set_io_apic_redirect ioapic irq_num entry1_write entry2_write =
     bnd (io_apic_write ioapic (ucast (IOAPICREDTBL irq_num)) entry1_write) (\<lambda>r1. if \<not> r1 then ret False
     else bnd (io_apic_write ioapic (ucast (IOAPICREDTBL irq_num + 1)) entry2_write) (\<lambda>r2. ret r2))"

text \<open>The two halves as they are after the call, given what they were before it.\<close>

definition get_io_apic_redirect :: "u64 \<Rightarrow> u32 \<Rightarrow> u32 \<times> u32 \<Rightarrow> 'a plat_scheme \<Rightarrow> fault + (bool \<times> u32 \<times> u32) \<times> 'a plat_scheme" where
  "get_io_apic_redirect ioapic irq_num old =
     bnd (io_apic_read ioapic (ucast (IOAPICREDTBL irq_num))) (\<lambda>r1. case r1 of None \<Rightarrow> ret (False, old)
     | Some v1 \<Rightarrow> bnd (io_apic_read ioapic (ucast (IOAPICREDTBL irq_num + 1))) (\<lambda>r2. case r2 of None \<Rightarrow> ret (False, v1, snd old)
     | Some v2 \<Rightarrow> ret (True, v1, v2)))"

text \<open>The union \<open>io_apic_redirect_entry_t\<close> is its member \<open>raw\<close>; a bit field is a range of its bits: the vector in bits 0 to 7,
  \<open>pin_polarity\<close> 13, \<open>trigger_mode\<close> 15, \<open>interrupt_mask\<close> 16, \<open>destination_field\<close> 56 to 63.\<close>

definition put_bit :: "nat \<Rightarrow> bool \<Rightarrow> u64 \<Rightarrow> u64" where
  "put_bit n b w = (if b then w OR push_bit n 1 else w AND NOT (push_bit n 1))"

definition put_destination :: "u8 \<Rightarrow> u64 \<Rightarrow> u64" where
  "put_destination d w = (w AND NOT (push_bit 56 0xFF)) OR push_bit 56 (ucast d)"

text \<open>The second \<open>if\<close> of the code, meant for the trigger mode, writes the polarity again.\<close>

definition override_entry :: "u16 \<Rightarrow> u64 \<Rightarrow> u64" where
  "override_entry fl w = put_bit 13 (drop_bit 2 fl AND 3 = 2) (put_bit 13 (fl AND 3 = 2) w)"

definition write_entry :: "u8 \<Rightarrow> u64 \<Rightarrow> 'a plat_scheme \<Rightarrow> fault + unit \<times> 'a plat_scheme" where
  "write_entry pos w = bnd (gets pIoApic) (\<lambda>p. seqn (set_io_apic_redirect p (ucast pos) (ucast w) (ucast (drop_bit 32 w))) (ret ()))"

definition set_irq :: "u8 \<Rightarrow> u8 \<Rightarrow> u8 \<Rightarrow> u8 \<Rightarrow> u32 \<Rightarrow> bool \<Rightarrow> 'a plat_scheme \<Rightarrow> fault + unit \<times> 'a plat_scheme" where
  "set_irq irq_type redirect_table_pos idt_entry destination_field entry_flags masked =
     (if unat irq_type \<ge> MAX_INTERRUPT_OVERRIDE_COUNT then raise Undefined
      else bnd (gets (\<lambda>s. interrupt_overrides s (unat irq_type))) (\<lambda>src_overr.
        bnd (gets (\<lambda>s. override_flags (kmem s) src_overr)) (\<lambda>fl.
        let raw = ucast (entry_flags OR ucast idt_entry);
            raw = (if src_overr \<noteq> 0 then override_entry fl raw else raw) in
        write_entry redirect_table_pos (put_bit 16 masked (put_destination destination_field raw)))))"

text \<open>\<open>raw0\<close> is what the uninitialised local \<open>entry\<close> holds.\<close>

definition set_irq_mask :: "u64 \<Rightarrow> u8 \<Rightarrow> bool \<Rightarrow> 'a plat_scheme \<Rightarrow> fault + unit \<times> 'a plat_scheme" where
  "set_irq_mask raw0 redirect_table_pos masked =
     bnd (gets pIoApic) (\<lambda>p. bnd (get_io_apic_redirect p (ucast redirect_table_pos) (ucast raw0, ucast (drop_bit 32 raw0))) (\<lambda>(_, lo, hi).
     write_entry redirect_table_pos (put_bit 16 masked (push_bit 32 (ucast hi) OR ucast lo))))"

text \<open>\<open>st n\<close> is what the \<open>n\<close>th read of the status port 0x64 returns; bytes are thrown away as long as its lowest bit is set.\<close>

partial_function (option) drain_keyboard :: "(nat \<Rightarrow> u8) \<Rightarrow> unit option" where
  "drain_keyboard st = (if st 0 AND 1 = 1 then drain_keyboard (\<lambda>n. st (Suc n)) else Some ())"

definition keyboard_driver_init :: "(nat \<Rightarrow> u8) \<Rightarrow> 'a plat_scheme \<Rightarrow> fault + unit \<times> 'a plat_scheme" where
  "keyboard_driver_init st =
     seqn (init_Spinlock char_buf_spinlock ''char_buf'')
    (case drain_keyboard st of None \<Rightarrow> raise Diverge | Some _ \<Rightarrow> set_irq 1 1 0x21 0 0 False)"

section \<open>The timers\<close>

partial_function (option) tick_wait :: "('a plat_scheme \<Rightarrow> fault + unit \<times> 'a plat_scheme) \<Rightarrow> u64 \<Rightarrow> 'a plat_scheme \<Rightarrow> (fault + unit \<times> 'a plat_scheme) option" where
  "tick_wait hlt target_count s =
     (if tickCount s < target_count
      then case hlt s of Inl e \<Rightarrow> Some (Inl e) | Inr r \<Rightarrow> tick_wait hlt target_count (snd r)
      else Some (Inr ((), s)))"

definition pit_perform_sleep :: "('a plat_scheme \<Rightarrow> fault + unit \<times> 'a plat_scheme) \<Rightarrow> u32 \<Rightarrow> 'a plat_scheme \<Rightarrow> fault + unit \<times> 'a plat_scheme" where
  "pit_perform_sleep hlt milliseconds =
     seqn (upd (\<lambda>s. s\<lparr>tickCount := 0\<rparr>)) (seqn (set_pit_periodic 0x4a9) (lift_loop (tick_wait hlt (ucast milliseconds))))"

definition start_timer :: "'a plat_scheme \<Rightarrow> fault + unit \<times> 'a plat_scheme" where
  "start_timer =
     seqn (apic_write_reg APIC_REG_TIMER_DIV 3 0)
    (seqn (apic_write_reg APIC_REG_TIMER_LVT (32 OR APIC_LVT_TIMER_MODE_PERIODIC) 0)
    (bnd (gets ticksIn10ms) (\<lambda>n. apic_write_reg APIC_REG_TIMER_INITCNT n 0)))"

definition apic_calibrate_timer :: "('a plat_scheme \<Rightarrow> fault + unit \<times> 'a plat_scheme) \<Rightarrow> u64 \<Rightarrow> u64 \<Rightarrow> 'a plat_scheme \<Rightarrow> fault + unit \<times> 'a plat_scheme" where
  "apic_calibrate_timer hlt raw0 raw1 =
     seqn (apic_write_reg APIC_REG_TIMER_INITCNT 0 0)
    (seqn (apic_write_reg APIC_REG_TIMER_DIV 3 0)
    (seqn (apic_write_reg APIC_REG_TIMER_INITCNT 0xFFFFFFFF 0)
    (seqn (set_irq_mask raw0 2 False)
    (seqn (pit_perform_sleep hlt 10)
    (seqn (apic_write_reg APIC_REG_TIMER_LVT APIC_LVT_INT_MASKED 0)
    (seqn (bnd (apic_read_reg APIC_REG_TIMER_CURRCNT) (\<lambda>c. upd (\<lambda>s. s\<lparr>ticksIn10ms := 0xFFFFFFFF - ucast c\<rparr>)))
    (seqn (set_irq_mask raw1 2 True)
    (seqn start_timer
          (upd (\<lambda>s. s\<lparr>bTimerCalibrated := True\<rparr>))))))))))"

definition smp_init_timer :: "'a plat_scheme \<Rightarrow> fault + unit \<times> 'a plat_scheme" where
  "smp_init_timer = seqn (apic_write_reg APIC_REG_TIMER_INITCNT 0 0) start_timer"

text \<open>\<open>sti\<close> runs before the CPU table is used: the flag is that of the executing CPU.\<close>

definition apic_setup :: "u32 \<Rightarrow> ('a plat_scheme \<Rightarrow> fault + unit \<times> 'a plat_scheme) \<Rightarrow> u64 \<Rightarrow> u64 \<Rightarrow> 'a plat_scheme \<Rightarrow> fault + unit \<times> 'a plat_scheme" where
  "apic_setup edx hlt raw0 raw1 =
     seqn (apic_init edx) (seqn (bnd get_current_cpu (\<lambda>i. upd (sti i))) (apic_calibrate_timer hlt raw0 raw1))"

section \<open>Dispatch\<close>

text \<open>\<open>isr_handler\<close> with the trap frame \<open>tf\<close>. \<open>scancode\<close> and \<open>c0\<close> are the inputs of the keyboard handler. A result \<open>Returned\<close>
  means that the stub returns to the interrupted code.\<close>

definition isr_handler :: "u8 \<Rightarrow> u8 \<Rightarrow> cpu_context_t \<Rightarrow> 'a plat_scheme \<Rightarrow> fault + flow \<times> 'a plat_scheme" where
  "isr_handler scancode c0 tf =
     seqn isr_enter
    (if isr_id tf = 3 then isr_int3 tf
     else if isr_id tf = 13 \<or> isr_id tf = 14 then raise (Panic [])
     else if isr_id tf = IDT_APIC_TIMER_INT then bnd (gets bTimerCalibrated) (\<lambda>b. isr_timer b tf)
     else if isr_id tf = IDT_KEYBOARD_INT then seqn (keyboard_irq_handler scancode c0) (seqn apic_end_of_interrupt (ret Returned))
     else if isr_id tf = IDT_PIT_INT then
       seqn (upd (\<lambda>s. s\<lparr>tickCount := tickCount s + 1\<rparr>)) (seqn (outb 0x20 0x20) (seqn (outb 0xA0 0x20) (seqn apic_end_of_interrupt (ret Returned))))
     else if isr_id tf = 46 then seqn ideintr (seqn apic_end_of_interrupt (ret Returned))
     else if isr_id tf = IDT_APIC_SPURIOUS_INT then ret Returned
     else raise (Panic []))"

section \<open>The descriptors\<close>

lemma fold_SetIDT:
  assumes "distinct vs" "\<forall>v \<in> set vs. v < 256"
  shows "IDT (fold (\<lambda>v. SetIDT_Descriptor (of_nat v) (stub v) (user v) (trap v)) vs s) v =
     (if v \<in> set vs then set_descriptor (stub v) (user v) (trap v) (IDT s v) else IDT s v)"
  using assms
proof (induction vs arbitrary: s)
  case (Cons x vs)
  have "unat (of_nat x :: u8) = x" using Cons.prems(2) by (simp add: unat_of_nat take_bit_nat_eq_self)
  then show ?case using Cons by (auto simp: SetIDT_Descriptor_def)
qed simp

lemma IDT_built:
  assumes "v < 256"
  shows "IDT (build_IDT stub s) v = (if v < 47 \<or> v = 0x80 then set_descriptor (stub v) (user_vector v) (v = 32) zero_descriptor else zero_descriptor)"
proof -
  have "distinct ([0..<47] @ [0x80 :: nat])" "\<forall>v \<in> set ([0..<47] @ [0x80 :: nat]). v < 256" by auto
  note F = fold_SetIDT [OF this, where stub = stub and user = user_vector and trap = "\<lambda>v. v = 32" and v = v]
  show ?thesis unfolding build_IDT_def F using assms by (simp add: IDT_SIZE_def)
qed

text \<open>The address and the privilege level in a descriptor, as the processor reads them.\<close>

definition descriptor_handler :: "InterruptDescriptor64 \<Rightarrow> u64" where
  "descriptor_handler d = ucast (offset_low d) OR push_bit 16 (ucast (offset_mid d)) OR push_bit 32 (ucast (offset_high d))"

definition descriptor_dpl :: "InterruptDescriptor64 \<Rightarrow> u8" where
  "descriptor_dpl d = drop_bit 5 (type_attributes d) AND 3"

lemma descriptor_handler_set: "descriptor_handler (set_descriptor a u t d) = a"
proof -
  have "ucast (ucast (a AND 0xFFFF) :: u16) OR push_bit 16 (ucast (ucast (drop_bit 16 a) :: u16)) OR push_bit 32 (ucast (ucast (drop_bit 32 a) :: u32)) = a"
    (is "?l = a")
  proof (rule bit_word_eqI)
    fix n assume "n < LENGTH(64)"
    moreover have "bit (0xFFFF :: u64) n \<longleftrightarrow> n < 16" if "n < 64" for n
      using bit_mask_iff [of 16 n, where ?'a = u64] that by (simp add: mask_numeral)
    ultimately show "bit ?l n = bit a n" by (cases "n < 32") (auto simp: bit_simps)
  qed
  then show ?thesis by (simp add: descriptor_handler_def set_descriptor_def)
qed

text \<open>C33: the processor finds the right stub. After \<open>build_IDT\<close>, the descriptors of vectors 0 to 46 and of the system call are
  present, lead to the stub of their vector and have privilege level 3 exactly for the vectors 3, 13, 32 and the system call;
  all other descriptors, that of the spurious vector 255 among them, are not present.\<close>

theorem build_IDT_descriptors:
  "let d = IDT (build_IDT stub s) (unat (v :: u8)) in
     if unat v < 47 \<or> v = 0x80
     then bit (type_attributes d) 7 \<and> descriptor_handler d = stub (unat v) \<and> selector d = 8
       \<and> descriptor_dpl d = (if v \<in> {3, 13, 32, 0x80} then 3 else 0) \<and> type_attributes d AND 0xF = (if v = 32 then IDT_DESC_TYPE_TRAP else IDT_DESC_TYPE_INT)
     else \<not> bit (type_attributes d) 7"
proof -
  have v: "unat v < 256" using unsigned_less [of v, where ?'a = nat] by simp
  have e: "unat v = 128 \<longleftrightarrow> v = 0x80" "user_vector (unat v) \<longleftrightarrow> v \<in> {3, 13, 32, 0x80}" "unat v = 32 \<longleftrightarrow> v = 32" by (auto simp: user_vector_def word_unat_eq_iff)
  show ?thesis
    unfolding IDT_built [OF v] e(1) Let_def
    by (simp add: descriptor_handler_set e(2,3)) (simp add: set_descriptor_def zero_descriptor_def descriptor_dpl_def IDT_DESC_DPL_USER_def IDT_DESC_DPL_ROOT_def
       IDT_DESC_TYPE_INT_def IDT_DESC_TYPE_TRAP_def IDT_PRESENT_FLAG_def)
qed

section \<open>Redirection entries\<close>

lemma map_kernel_page_qmem: "\<exists>q. map_kernel_page va pa ty s = Inr (True, s\<lparr>qmem := q\<rparr>)"
  by (auto simp: map_kernel_page_def Let_def set_qword_def)

lemma is_frame_mapped_kernel_run: "\<exists>b. is_frame_mapped_kernel va p s = Inr (b, s)"
  by (auto simp: is_frame_mapped_kernel_def Let_def)

lemma map_device_run: "\<exists>q. map_device a s = Inr ((), s\<lparr>qmem := q\<rparr>)"
proof -
  obtain b where b: "is_frame_mapped_kernel a (pml4t_va (link s)) s = Inr (b, s)" using is_frame_mapped_kernel_run by blast
  obtain q where q: "map_kernel_page (HUGEPGROUNDDOWN a) (HUGEPGROUNDDOWN a) ALLOC_TYPE_DM_IO s = Inr (True, s\<lparr>qmem := q\<rparr>)" using map_kernel_page_qmem by blast
  have "map_device a s = Inr ((), if b then s\<lparr>qmem := qmem s\<rparr> else s\<lparr>qmem := q\<rparr>)" using b q by (simp add: map_device_def direct_map_def op_combinators)
  then have "map_device a s = Inr ((), s\<lparr>qmem := if b then qmem s else q\<rparr>)" by (cases b) simp_all
  then show ?thesis by blast
qed

text \<open>An I/O APIC that the MADT describes.\<close>

definition has_io_apic :: "'a plat_scheme \<Rightarrow> bool" where
  "has_io_apic s \<longleftrightarrow> pIoApic s \<noteq> 0 \<and> io_apic_address (kmem s) (pIoApic s) \<noteq> 0"

lemma dm_ioapic_address_run:
  assumes "has_io_apic s"
  shows "\<exists>q b. b \<noteq> 0 \<and> dm_ioapic_address (pIoApic s) s = Inr (b, s\<lparr>qmem := q\<rparr>)"
proof -
  obtain q where "map_device (ucast (io_apic_address (kmem s) (pIoApic s))) s = Inr ((), s\<lparr>qmem := q\<rparr>)" using map_device_run by blast
  moreover have "unat (ucast x :: u64) = unat x" for x :: u32
    using unsigned_less [of x, where ?'a = nat] by (simp add: unsigned_ucast_eq take_bit_nat_eq_self)
  then have "(ucast (io_apic_address (kmem s) (pIoApic s)) :: u64) \<noteq> 0" using assms by (simp add: has_io_apic_def flip: unat_eq_zero)
  ultimately show ?thesis using assms by (auto simp: dm_ioapic_address_def has_io_apic_def op_combinators)
qed

lemma io_apic_write_run:
  assumes "has_io_apic s"
  shows "\<exists>q. io_apic_write (pIoApic s) r v s = Inr (True, s\<lparr>qmem := q, ioregsel := r, io_apic_regs := (io_apic_regs s)(r := v)\<rparr>)"
  using dm_ioapic_address_run [OF assms] by (auto simp: io_apic_write_def op_combinators)

lemma io_apic_read_run:
  assumes "has_io_apic s"
  shows "\<exists>q. io_apic_read (pIoApic s) r s = Inr (Some (io_apic_regs s r), s\<lparr>qmem := q, ioregsel := r\<rparr>)"
  using dm_ioapic_address_run [OF assms] by (auto simp: io_apic_read_def op_combinators)

text \<open>The registers of entry \<open>pos\<close>, and the entry itself.\<close>

definition reg_low :: "u8 \<Rightarrow> u8" where "reg_low pos = ucast (IOAPICREDTBL (ucast pos))"
definition reg_high :: "u8 \<Rightarrow> u8" where "reg_high pos = ucast (IOAPICREDTBL (ucast pos) + 1)"

definition redirect_entry :: "(u8 \<Rightarrow> u32) \<Rightarrow> u8 \<Rightarrow> u64" where
  "redirect_entry regs pos = push_bit 32 (ucast (regs (reg_high pos))) OR ucast (regs (reg_low pos))"

lemma reg_unat:
  assumes "unat pos < 120"
  shows "unat (reg_low pos) = 16 + 2 * unat pos" "unat (reg_high pos) = 17 + 2 * unat pos"
proof -
  have "unat (ucast pos :: u32) = unat pos" using assms by (simp add: unsigned_ucast_eq take_bit_nat_eq_self)
  then show "unat (reg_low pos) = 16 + 2 * unat pos" "unat (reg_high pos) = 17 + 2 * unat pos" using assms
    by (simp_all add: reg_low_def reg_high_def IOAPICREDTBL_def unsigned_ucast_eq unat_word_ariths take_bit_eq_mod)
qed

lemma reg_distinct: "unat pos < 120 \<Longrightarrow> reg_low pos \<noteq> reg_high pos"
  using reg_unat by (fastforce simp: word_unat_eq_iff)

lemma reg_other:
  assumes "unat pos < 120" "unat p' < 120" "p' \<noteq> pos"
  shows "reg_low p' \<noteq> reg_low pos" "reg_low p' \<noteq> reg_high pos" "reg_high p' \<noteq> reg_low pos" "reg_high p' \<noteq> reg_high pos"
proof -
  have "unat p' \<noteq> unat pos" using assms(3) by (simp add: word_unat_eq_iff)
  moreover have "16 + 2 * unat p' \<noteq> 17 + 2 * unat pos" "17 + 2 * unat p' \<noteq> 16 + 2 * unat pos" by presburger+
  ultimately show "reg_low p' \<noteq> reg_low pos" "reg_low p' \<noteq> reg_high pos" "reg_high p' \<noteq> reg_low pos" "reg_high p' \<noteq> reg_high pos"
    using assms by (simp_all add: word_unat_eq_iff reg_unat)
qed

lemma entry_halves: "push_bit 32 (ucast (ucast (drop_bit 32 w) :: u32)) OR ucast (ucast w :: u32) = w" for w :: u64
  by (rule bit_word_eqI) (auto simp: bit_simps)

definition entry_regs :: "u8 \<Rightarrow> u64 \<Rightarrow> (u8 \<Rightarrow> u32) \<Rightarrow> u8 \<Rightarrow> u32" where
  "entry_regs pos w regs = regs(reg_low pos := ucast w, reg_high pos := ucast (drop_bit 32 w))"

lemma entry_regs_entry:
  assumes "unat pos < 120"
  shows "redirect_entry (entry_regs pos w regs) pos = w" "unat p' < 120 \<Longrightarrow> p' \<noteq> pos \<Longrightarrow> redirect_entry (entry_regs pos w regs) p' = redirect_entry regs p'"
  using reg_distinct [OF assms] reg_other [OF assms] by (simp_all add: redirect_entry_def entry_regs_def entry_halves)

lemma write_entry_run:
  assumes "has_io_apic s"
  shows "\<exists>q r. write_entry pos w s = Inr ((), s\<lparr>qmem := q, ioregsel := r, io_apic_regs := entry_regs pos w (io_apic_regs s)\<rparr>)"
proof -
  obtain q where q: "io_apic_write (pIoApic s) (reg_low pos) (ucast w) s
     = Inr (True, s\<lparr>qmem := q, ioregsel := reg_low pos, io_apic_regs := (io_apic_regs s)(reg_low pos := ucast w)\<rparr>)" using io_apic_write_run [OF assms] by blast
  let ?t = "s\<lparr>qmem := q, ioregsel := reg_low pos, io_apic_regs := (io_apic_regs s)(reg_low pos := ucast w)\<rparr>"
  have "has_io_apic ?t" using assms by (simp add: has_io_apic_def)
  from io_apic_write_run [OF this, of "reg_high pos" "ucast (drop_bit 32 w)"] obtain q2 where q2:
    "io_apic_write (pIoApic s) (reg_high pos) (ucast (drop_bit 32 w)) ?t = Inr (True, s\<lparr>qmem := q2, ioregsel := reg_high pos,
       io_apic_regs := (io_apic_regs s)(reg_low pos := ucast w, reg_high pos := ucast (drop_bit 32 w))\<rparr>)" by auto
  have "write_entry pos w s = Inr ((), s\<lparr>qmem := q2, ioregsel := reg_high pos, io_apic_regs := entry_regs pos w (io_apic_regs s)\<rparr>)"
    using q q2 by (simp add: write_entry_def set_io_apic_redirect_def op_combinators reg_low_def [symmetric] reg_high_def [symmetric] entry_regs_def)
  then show ?thesis by blast
qed

lemma set_irq_run:
  assumes "has_io_apic s" "unat irq < 32"
  shows "\<exists>q r. set_irq irq pos vec dest fl masked s = Inr ((), s\<lparr>qmem := q, ioregsel := r, io_apic_regs := entry_regs pos
     (put_bit 16 masked (put_destination dest (let raw = ucast (fl OR ucast vec) in
        if interrupt_overrides s (unat irq) \<noteq> 0 then override_entry (override_flags (kmem s) (interrupt_overrides s (unat irq))) raw else raw))) (io_apic_regs s)\<rparr>)"
  using write_entry_run [OF assms(1)] assms(2) by (simp add: set_irq_def op_combinators MAX_INTERRUPT_OVERRIDE_COUNT_def Let_def)

lemma set_irq_mask_run:
  assumes "has_io_apic s"
  shows "\<exists>q r. set_irq_mask raw0 pos masked s = Inr ((), s\<lparr>qmem := q, ioregsel := r,
     io_apic_regs := entry_regs pos (put_bit 16 masked (redirect_entry (io_apic_regs s) pos)) (io_apic_regs s)\<rparr>)"
proof -
  obtain q where q: "io_apic_read (pIoApic s) (reg_low pos) s = Inr (Some (io_apic_regs s (reg_low pos)), s\<lparr>qmem := q, ioregsel := reg_low pos\<rparr>)"
    using io_apic_read_run [OF assms] by blast
  let ?t = "s\<lparr>qmem := q, ioregsel := reg_low pos\<rparr>"
  have t: "has_io_apic ?t" using assms by (simp add: has_io_apic_def)
  obtain q2 where q2: "io_apic_read (pIoApic s) (reg_high pos) ?t = Inr (Some (io_apic_regs s (reg_high pos)), ?t\<lparr>qmem := q2, ioregsel := reg_high pos\<rparr>)"
    using io_apic_read_run [OF t, of "reg_high pos"] by auto
  let ?u = "?t\<lparr>qmem := q2, ioregsel := reg_high pos\<rparr>"
  let ?w = "put_bit 16 masked (redirect_entry (io_apic_regs s) pos)"
  have "has_io_apic ?u" using assms by (simp add: has_io_apic_def)
  from write_entry_run [OF this, of pos ?w] obtain q3 r where
    q3: "write_entry pos ?w ?u = Inr ((), s\<lparr>qmem := q3, ioregsel := r, io_apic_regs := entry_regs pos ?w (io_apic_regs s)\<rparr>)" by auto
  have "set_irq_mask raw0 pos masked s = write_entry pos ?w ?u"
    using q q2 by (simp add: set_irq_mask_def get_io_apic_redirect_def op_combinators reg_low_def [symmetric] reg_high_def [symmetric] redirect_entry_def)
  then show ?thesis unfolding q3 by blast
qed

lemma bit_put_bit: "n < 64 \<Longrightarrow> bit (put_bit n b w) k \<longleftrightarrow> (if k = n then b else bit w k)"
  by (auto simp: put_bit_def bit_simps dest: bit_imp_le_length)

lemma bit_put_destination: "bit (put_destination d w) k \<longleftrightarrow> (if k < 56 then bit w k else bit d (k - 56))"
proof -
  have m: "(0xFF :: u64) = mask 8" by (simp add: mask_numeral)
  show ?thesis
  proof (cases "k < 64")
    case True
    then show ?thesis unfolding put_destination_def m by (auto simp: bit_simps)
  next
    case False
    then show ?thesis using bit_imp_le_length [of "put_destination d w" k] bit_imp_le_length [of d "k - 56"] by auto
  qed
qed

lemma bit_override_entry: "bit (override_entry fl w) k \<longleftrightarrow> (if k = 13 then drop_bit 2 fl AND 3 = 2 else bit w k)"
  by (simp add: override_entry_def bit_put_bit)

text \<open>C34: \<open>set_irq\<close> programs the entry it is asked to. On a machine with an I/O APIC it returns; the entry at \<open>pos\<close> then has
  the vector, the destination and the mask of the call, and every other entry is as before.\<close>

theorem set_irq_programs_entry:
  assumes "has_io_apic s" "unat irq < 32" "unat pos < 120" "fl AND 0xFF = 0"
  shows "\<exists>t. set_irq irq pos vec dest fl masked s = Inr ((), t) \<and> (let e = redirect_entry (io_apic_regs t) pos in
     ucast e = vec \<and> ucast (drop_bit 56 e) = dest \<and> bit e 16 = masked) \<and>
     (\<forall>p' \<noteq> pos. unat p' < 120 \<longrightarrow> redirect_entry (io_apic_regs t) p' = redirect_entry (io_apic_regs s) p')"
proof -
  let ?raw = "let raw = ucast (fl OR ucast vec) in if interrupt_overrides s (unat irq) \<noteq> 0 then override_entry (override_flags (kmem s) (interrupt_overrides s (unat irq))) raw else raw"
  let ?e = "put_bit 16 masked (put_destination dest ?raw)"
  obtain t where t: "set_irq irq pos vec dest fl masked s = Inr ((), t)" "io_apic_regs t = entry_regs pos ?e (io_apic_regs s)"
    using set_irq_run [OF assms(1,2), of pos vec dest fl masked] by auto
  have z: "\<not> bit fl n" if "n < 8" for n
  proof -
    have "bit (0xFF :: u32) n" using bit_mask_iff [of 8 n, where ?'a = u32] that by (simp add: mask_numeral)
    then show ?thesis using arg_cong [OF assms(4), of "\<lambda>x. bit x n"] by (simp add: bit_and_iff)
  qed
  have "ucast ?e = vec"
    by (rule bit_word_eqI) (auto simp: bit_ucast_iff bit_put_bit bit_put_destination bit_override_entry Let_def bit_or_iff z)
  moreover have "ucast (drop_bit 56 ?e) = dest"
    by (rule bit_word_eqI) (auto simp: bit_ucast_iff bit_drop_bit_eq bit_put_bit bit_put_destination)
  ultimately show ?thesis using t entry_regs_entry [OF assms(3)] by (auto simp: Let_def bit_put_bit)
qed

text \<open>C38: interrupt source overrides have no effect on the pins. The two flag fields of an override are 1 for active high and
  edge, 3 for active low and level, 0 for the bus default; the code compares with 2, and tests the trigger field to set
  the polarity. With the flags 0 that all callers pass, the entry is active high and edge triggered whatever the override says.\<close>

theorem overrides_have_no_effect:
  assumes "has_io_apic s" "unat irq < 32" "unat pos < 120" and ov: "override_flags (kmem s) (interrupt_overrides s (unat irq)) = fl"
    and ok: "drop_bit 2 fl AND 3 \<noteq> 2"
  shows "\<exists>t. set_irq irq pos vec dest 0 masked s = Inr ((), t) \<and> \<not> bit (redirect_entry (io_apic_regs t) pos) 13 \<and> \<not> bit (redirect_entry (io_apic_regs t) pos) 15"
proof -
  have b: "\<not> bit (ucast (0 OR (ucast vec :: u32)) :: u64) 13" "\<not> bit (ucast (0 OR (ucast vec :: u32)) :: u64) 15" by (auto simp: bit_simps dest: bit_imp_le_length)
  show ?thesis using set_irq_run [OF assms(1,2), of pos vec dest 0 masked] entry_regs_entry(1) [OF assms(3)] ok b
    by (auto simp: bit_put_bit bit_put_destination bit_override_entry ov Let_def)
qed

text \<open>\<open>set_irq_mask\<close> changes one bit. It returns, sets the mask bit of the entry and leaves every other bit of the redirection
  table as it was; masking and unmasking again gives the entry back.\<close>

theorem set_irq_mask_changes_one_bit:
  assumes "has_io_apic s" "unat pos < 120"
  shows "\<exists>t. set_irq_mask raw0 pos masked s = Inr ((), t) \<and> (\<forall>p' n. unat p' < 120 \<longrightarrow>
     bit (redirect_entry (io_apic_regs t) p') n = (if p' = pos \<and> n = 16 then masked else bit (redirect_entry (io_apic_regs s) p') n))"
proof -
  obtain t where t: "set_irq_mask raw0 pos masked s = Inr ((), t)"
    "io_apic_regs t = entry_regs pos (put_bit 16 masked (redirect_entry (io_apic_regs s) pos)) (io_apic_regs s)"
    using set_irq_mask_run [OF assms(1), of raw0 pos masked] by auto
  have "bit (redirect_entry (io_apic_regs t) p') n = (if p' = pos \<and> n = 16 then masked else bit (redirect_entry (io_apic_regs s) p') n)" if "unat p' < 120" for p' n
    using entry_regs_entry [OF assms(2)] that by (cases "p' = pos") (simp_all add: t(2) bit_put_bit)
  then show ?thesis using t(1) by blast
qed

lemma example_io_apic: "has_io_apic ((power_on (example_madt [72, 80]))\<lparr>pIoApic := 0x203C\<rparr>)"
  by (simp add: has_io_apic_def io_apic_address_def field_defs) (simp add: example_madt_def bytes_from_def nth_append)

theorem set_irq_programs_entry_witness:
  "\<exists>t. set_irq 1 1 0x21 0 0 False ((power_on (example_madt [72, 80]))\<lparr>pIoApic := 0x203C\<rparr>) = Inr ((), t) \<and> ucast (redirect_entry (io_apic_regs t) 1) = (0x21 :: u8)"
  using set_irq_programs_entry [OF example_io_apic, of 1 1 0 "0x21" 0 False] by (auto simp: Let_def)

theorem overrides_have_no_effect_witness:
  "\<exists>t. set_irq 2 2 0x22 0 0 True ((power_on (example_madt [72, 80]))\<lparr>pIoApic := 0x203C, interrupt_overrides := (\<lambda>_. 0)(2 := 0x2048)\<rparr>) = Inr ((), t)
     \<and> override_flags (kmem t) 0x2048 = 15 \<and> \<not> bit (redirect_entry (io_apic_regs t) 2) 13 \<and> \<not> bit (redirect_entry (io_apic_regs t) 2) 15"
proof -
  let ?s = "(power_on (example_madt [72, 80]))\<lparr>pIoApic := 0x203C, interrupt_overrides := (\<lambda>_. 0)(2 := 0x2048)\<rparr>"
  have f: "override_flags (example_madt [72, 80]) 0x2048 = 15"
    by (simp add: override_flags_def field_defs) (simp add: example_madt_def bytes_from_def nth_append)
  have h: "has_io_apic ?s" using example_io_apic by (simp add: has_io_apic_def)
  have "\<exists>t. set_irq 2 2 0x22 0 0 True ?s = Inr ((), t) \<and> \<not> bit (redirect_entry (io_apic_regs t) 2) 13 \<and> \<not> bit (redirect_entry (io_apic_regs t) 2) 15"
    by (rule overrides_have_no_effect [OF h, where fl = 15]) (simp_all add: f)
  moreover have "kmem t = example_madt [72, 80]" if "set_irq 2 2 0x22 0 0 True ?s = Inr ((), t)" for t
    using set_irq_run [OF h, of 2 2 "0x22" 0 0 True] that by auto
  ultimately show ?thesis using f by metis
qed

theorem set_irq_mask_changes_one_bit_witness:
  "\<exists>t. set_irq_mask 7 2 True ((power_on (example_madt [72, 80]))\<lparr>pIoApic := 0x203C\<rparr>) = Inr ((), t) \<and> bit (redirect_entry (io_apic_regs t) 2) 16"
  using set_irq_mask_changes_one_bit [OF example_io_apic, of 2 7 True] by auto

section \<open>Calibrating the timer\<close>

text \<open>What does not change while the CPU waits for a tick: everything the calibration depends on but the current count of the
  executing CPU's timer.\<close>

definition waits :: "'a plat_scheme \<Rightarrow> 'a plat_scheme \<Rightarrow> bool" where
  "waits s t \<longleftrightarrow> lapic_id t = lapic_id s \<and> use_x2_apic t = use_x2_apic s \<and> pIoApic t = pIoApic s \<and> kmem t = kmem s \<and> io_apic_regs t = io_apic_regs s
     \<and> (\<forall>r. r \<noteq> APIC_REG_TIMER_CURRCNT \<longrightarrow> lapic_regs t (lapic_id s) r = lapic_regs s (lapic_id s) r)"

lemma waits_refl: "waits s s" and waits_trans: "waits s t \<Longrightarrow> waits t u \<Longrightarrow> waits s u"
  by (auto simp: waits_def)

definition lapic_set :: "u32 \<Rightarrow> u32 \<Rightarrow> 'a plat_scheme \<Rightarrow> 'a plat_scheme" where
  "lapic_set r v s = s\<lparr>lapic_regs := (lapic_regs s)(lapic_id s := (lapic_regs s (lapic_id s))(r := v))\<rparr>"

lemma lapic_set_simps [simp]:
  "lapic_id (lapic_set r v s) = lapic_id s" "use_x2_apic (lapic_set r v s) = use_x2_apic s" "cpus (lapic_set r v s) = cpus s" "pIoApic (lapic_set r v s) = pIoApic s"
  "kmem (lapic_set r v s) = kmem s" "io_apic_regs (lapic_set r v s) = io_apic_regs s" "ticksIn10ms (lapic_set r v s) = ticksIn10ms s" "tickCount (lapic_set r v s) = tickCount s"
  "lapic_regs (lapic_set r v s) (lapic_id s) = (lapic_regs s (lapic_id s))(r := v)" "has_io_apic (lapic_set r v s) = has_io_apic s"
  by (simp_all add: lapic_set_def has_io_apic_def)

lemma apic_write_reg_run: "\<not> use_x2_apic s \<Longrightarrow> apic_write_reg r v d s = Inr ((), lapic_set r v s)"
  by (simp add: apic_write_reg_def APIC_WRITE_def lapic_set_def op_combinators)

lemma apic_read_reg_run: "\<not> use_x2_apic s \<Longrightarrow> apic_read_reg r s = Inr (ucast (lapic_regs s (lapic_id s) r), s)"
  by (simp add: apic_read_reg_def APIC_READ_def op_combinators)

text \<open>The timer as the calibration leaves it: periodic, vector 32, divider 16, with the count of ticks as its period.\<close>

definition timer_runs :: "'a plat_scheme \<Rightarrow> bool" where
  "timer_runs t \<longleftrightarrow> lapic_regs t (lapic_id t) APIC_REG_TIMER_LVT = 0x20020 \<and> lapic_regs t (lapic_id t) APIC_REG_TIMER_DIV = 3
     \<and> lapic_regs t (lapic_id t) APIC_REG_TIMER_INITCNT = ticksIn10ms t"

lemma start_timer_run:
  "\<not> use_x2_apic s \<Longrightarrow> start_timer s = Inr ((), lapic_set APIC_REG_TIMER_INITCNT (ticksIn10ms s)
     (lapic_set APIC_REG_TIMER_LVT (32 OR APIC_LVT_TIMER_MODE_PERIODIC) (lapic_set APIC_REG_TIMER_DIV 3 s)))"
  by (simp add: start_timer_def seqn_step [OF apic_write_reg_run] bnd_gets apic_write_reg_run)

text \<open>The clock that the calibration relies on: in a state that is \<open>live\<close>, a halted CPU wakes up after one more tick. Whether a
  state is live depends on the CPU table and on which CPU executes.\<close>

locale tick_source =
  fixes hlt :: "'a plat_scheme \<Rightarrow> fault + unit \<times> 'a plat_scheme" and live :: "u32 \<Rightarrow> CPU list \<Rightarrow> bool"
  assumes tick: "live (lapic_id s) (cpus s) \<Longrightarrow> \<exists>t. hlt s = Inr ((), t) \<and> tickCount t = tickCount s + 1 \<and> waits s t \<and> live (lapic_id t) (cpus t)"
begin

lemma tick_wait_returns:
  assumes "live (lapic_id s) (cpus s)" "tickCount s \<le> n"
  shows "\<exists>t. tick_wait hlt n s = Some (Inr ((), t)) \<and> tickCount t = n \<and> waits s t \<and> live (lapic_id t) (cpus t)"
  using assms
proof (induction "unat n - unat (tickCount s)" arbitrary: s)
  case 0
  then have "tickCount s = n" by (simp add: word_le_nat_alt word_unat_eq_iff)
  then show ?case using 0 by (subst tick_wait.simps) (auto simp: waits_refl)
next
  case (Suc k)
  then have lt: "tickCount s < n" by (simp add: word_less_nat_alt)
  then have "unat (tickCount s) + unat (1 :: u64) < 2 ^ 64" using unsigned_less [of n, where ?'a = nat] by (simp add: word_less_nat_alt)
  then have u: "unat (tickCount s + 1) = unat (tickCount s) + 1" using unat_plus_nowrap [of "tickCount s" 1] by simp
  from tick [OF Suc.prems(1)] obtain t where t: "hlt s = Inr ((), t)" "tickCount t = tickCount s + 1" "waits s t" "live (lapic_id t) (cpus t)" by blast
  have "tickCount t \<le> n" using lt by (simp add: t(2) word_le_nat_alt word_less_nat_alt u)
  moreover have "k = unat n - unat (tickCount t)" using Suc.hyps(2) by (simp add: t(2) u)
  ultimately obtain v where v: "tick_wait hlt n t = Some (Inr ((), v))" "tickCount v = n" "waits t v" "live (lapic_id v) (cpus v)"
    using Suc.hyps(1) t(4) by blast
  then show ?case using lt t(1) waits_trans [OF t(3)] by (subst tick_wait.simps) auto
qed

lemma pit_perform_sleep_returns:
  assumes "live (lapic_id s) (cpus s)"
  shows "\<exists>t. pit_perform_sleep hlt ms s = Inr ((), t) \<and> tickCount t = ucast ms \<and> waits s t \<and> live (lapic_id t) (cpus t)"
proof -
  let ?s = "s\<lparr>tickCount := 0, port_log := (0x40, ucast (drop_bit 8 (0x4a9 :: u16))) # (0x40, ucast (0x4a9 AND 0xFF :: u16)) # (0x43, 0x34) # port_log s\<rparr>"
  have "live (lapic_id ?s) (cpus ?s)" "tickCount ?s \<le> ucast ms" using assms by simp_all
  from tick_wait_returns [OF this] obtain t where t: "tick_wait hlt (ucast ms) ?s = Some (Inr ((), t))" "tickCount t = ucast ms" "waits ?s t" "live (lapic_id t) (cpus t)" by blast
  have "pit_perform_sleep hlt ms s = Inr ((), t)" using t(1) by (simp add: pit_perform_sleep_def set_pit_periodic_def outb_def op_combinators)
  then show ?thesis using t by (auto simp: waits_def)
qed

lemma apic_calibrate_timer_returns:
  assumes lv: "live (lapic_id s) (cpus s)" and io: "has_io_apic s" and x2: "\<not> use_x2_apic s"
  shows "\<exists>t. apic_calibrate_timer hlt raw0 raw1 s = Inr ((), t) \<and> bTimerCalibrated t \<and> timer_runs t
     \<and> ticksIn10ms t = 0xFFFFFFFF - lapic_regs t (lapic_id t) APIC_REG_TIMER_CURRCNT \<and> bit (redirect_entry (io_apic_regs t) 2) 16"
proof -
  let ?s1 = "lapic_set APIC_REG_TIMER_INITCNT 0xFFFFFFFF (lapic_set APIC_REG_TIMER_DIV 3 (lapic_set APIC_REG_TIMER_INITCNT 0 s))"
  have p2: "unat (2 :: u8) < 120" by simp
  obtain s2 where s2: "set_irq_mask raw0 2 False ?s1 = Inr ((), s2)" "cpus s2 = cpus s" "lapic_id s2 = lapic_id s" "use_x2_apic s2 = use_x2_apic s" "has_io_apic s2"
    using set_irq_mask_run [of ?s1 raw0 2 False] io by (auto simp: has_io_apic_def)
  from pit_perform_sleep_returns [of s2 10] lv obtain s3 where s3: "pit_perform_sleep hlt 10 s2 = Inr ((), s3)" "waits s2 s3" by (auto simp: s2)
  let ?s4 = "lapic_set APIC_REG_TIMER_LVT APIC_LVT_INT_MASKED s3" and ?c = "lapic_regs s3 (lapic_id s3) APIC_REG_TIMER_CURRCNT"
  let ?s5 = "?s4\<lparr>ticksIn10ms := 0xFFFFFFFF - ?c\<rparr>"
  have w: "\<not> use_x2_apic s3" "has_io_apic s3" using s3(2) s2 x2 by (simp_all add: waits_def has_io_apic_def)
  have r4: "apic_read_reg APIC_REG_TIMER_CURRCNT ?s4 = Inr (ucast ?c, ?s4)" using w(1) apic_read_reg_run [of ?s4 APIC_REG_TIMER_CURRCNT] by (simp add: apic_regs)
  have "has_io_apic ?s5" using w(2) by (simp add: has_io_apic_def)
  from set_irq_mask_run [OF this, of raw1 2 True] obtain q r where s6: "set_irq_mask raw1 2 True ?s5 = Inr ((), ?s5\<lparr>qmem := q, ioregsel := r,
     io_apic_regs := entry_regs 2 (put_bit 16 True (redirect_entry (io_apic_regs ?s5) 2)) (io_apic_regs ?s5)\<rparr>)" (is "_ = Inr ((), ?s6)") by blast
  have uc: "ucast (ucast x :: u64) = x" for x :: u32 by (rule bit_word_eqI) (auto simp: bit_simps)
  have l: "lapic_regs ?s6 (lapic_id ?s6) = (lapic_regs s3 (lapic_id s3))(APIC_REG_TIMER_LVT := APIC_LVT_INT_MASKED)" "lapic_id ?s6 = lapic_id s3" "ticksIn10ms ?s6 = 0xFFFFFFFF - ?c" by simp_all
  let ?s7 = "lapic_set APIC_REG_TIMER_INITCNT (ticksIn10ms ?s6) (lapic_set APIC_REG_TIMER_LVT (32 OR APIC_LVT_TIMER_MODE_PERIODIC) (lapic_set APIC_REG_TIMER_DIV 3 ?s6))"
  have r5: "bnd (apic_read_reg APIC_REG_TIMER_CURRCNT) (\<lambda>c. upd (\<lambda>s. s\<lparr>ticksIn10ms := 0xFFFFFFFF - ucast c\<rparr>)) ?s4 = Inr ((), ?s5)" by (simp add: bnd_def r4 upd_def uc)
  have r7: "start_timer ?s6 = Inr ((), ?s7)" by (rule start_timer_run) (use w(1) in simp)
  have "apic_calibrate_timer hlt raw0 raw1 s = Inr ((), ?s7\<lparr>bTimerCalibrated := True\<rparr>)"
    unfolding apic_calibrate_timer_def seqn_def bnd_def [of "apic_write_reg _ _ _"] bnd_def [of "set_irq_mask _ _ _"] bnd_def [of "pit_perform_sleep _ _"] bnd_def [of "bnd _ _"] bnd_def [of start_timer]
    by (simp only: apic_write_reg_run x2 w(1) lapic_set_simps s2(1) s3(1) r5 s6 r7 sum.case fst_conv snd_conv upd_def not_False_eq_True)
  then show ?thesis
    using entry_regs_entry(1) [OF p2] by (auto simp: timer_runs_def apic_regs APIC_LVT_TIMER_MODE_PERIODIC_def bit_put_bit lapic_set_def)
qed

end

text \<open>The tick of the PIT: its interrupt arrives while the CPU is halted, with the timer's count at \<open>count\<close>, and is handled.\<close>

definition pit_hlt :: "u8 \<Rightarrow> u8 \<Rightarrow> cpu_context_t \<Rightarrow> u32 \<Rightarrow> 'a plat_scheme \<Rightarrow> fault + unit \<times> 'a plat_scheme" where
  "pit_hlt scancode c0 tf count =
     seqn (upd (lapic_set APIC_REG_TIMER_CURRCNT count)) (seqn (isr_handler scancode c0 (tf\<lparr>isr_id := IDT_PIT_INT\<rparr>)) (ret ()))"

lemma isr_pit_run:
  fixes s :: "'a plat_scheme"
  assumes r: "registered s c" and v: "isr_id tf = IDT_PIT_INT"
  shows "\<exists>t. isr_handler scancode c0 tf s = Inr (Returned, t) \<and> tickCount t = tickCount s + 1 \<and> waits s t \<and> registered t c \<and> lapic_regs t = lapic_regs s
     \<and> apic_eoi t = (apic_eoi s)(unat (lapic_id s) := Suc (apic_eoi s (unat (lapic_id s)))) \<and> \<not> noINT (cpus t ! c)
     \<and> cr3 t = (cr3 s)(c := kernel_table s) \<and> port_log t = (0xA0, 0x20) # (0x20, 0x20) # port_log s"
proof -
  let ?s1 = "upd_cpu c (noINT_update (\<lambda>_. True)) (s\<lparr>cr3 := (cr3 s)(c := kernel_table s)\<rparr>)"
  let ?s2 = "?s1\<lparr>tickCount := tickCount s + 1, port_log := (0xA0, 0x20) # (0x20, 0x20) # port_log s,
     apic_eoi := (apic_eoi s)(unat (lapic_id s) := Suc (apic_eoi s (unat (lapic_id s))))\<rparr>"
  let ?t = "upd_cpu c (noINT_update (\<lambda>_. False)) ?s2"
  have r1: "registered (s\<lparr>cr3 := x\<rparr>) c" for x using r by (simp add: registered_def)
  have r2: "registered ?s1 c" "registered ?s2 c" using r1 by (simp_all add: registered_upd_cpu) (simp_all add: registered_def upd_cpu_def)
  have e: "isr_enter s = Inr ((), ?s1)"
    using r r1 by (simp add: isr_enter_def load_page_table_def NoINT_Enable_def op_combinators get_current_cpu_registered)
  have "apic_end_of_interrupt (?s1\<lparr>tickCount := tickCount s + 1, port_log := (0xA0, 0x20) # (0x20, 0x20) # port_log s\<rparr>) = Inr ((), ?t)"
    using NoINT_Disable_run [OF r2(2)] by (simp add: apic_end_of_interrupt_def op_combinators upd_cpu_def)
  then have "isr_handler scancode c0 tf s = Inr (Returned, ?t)"
    using e v by (simp add: isr_handler_def isr_ids outb_def op_combinators upd_cpu_def)
  moreover have "registered ?t c" using r2(2) by (simp add: registered_upd_cpu)
  moreover have "\<not> noINT (cpus ?t ! c)" using find_cpu_Some [of "lapic_id s" "cpus s" c] r by (simp add: upd_cpu_def registered_def)
  ultimately show ?thesis by (auto simp: waits_def upd_cpu_def)
qed

interpretation pit: tick_source "pit_hlt scancode c0 tf count" "\<lambda>l cs. \<exists>c. find_cpu l cs = Some c" for scancode c0 tf count
proof
  fix s :: "'a plat_scheme"
  let ?s = "lapic_set APIC_REG_TIMER_CURRCNT count s" and ?tf = "tf\<lparr>isr_id := IDT_PIT_INT\<rparr>"
  assume "\<exists>c. find_cpu (lapic_id s) (cpus s) = Some c"
  then obtain c where "registered ?s c" by (auto simp: registered_def)
  from isr_pit_run [OF this, of ?tf scancode c0] obtain t where t: "isr_handler scancode c0 ?tf ?s = Inr (Returned, t)" "tickCount t = tickCount ?s + 1" "waits ?s t" "registered t c" by auto
  have "waits s ?s" by (simp add: waits_def)
  then show "\<exists>t. pit_hlt scancode c0 tf count s = Inr ((), t) \<and> tickCount t = tickCount s + 1 \<and> waits s t \<and> (\<exists>c. find_cpu (lapic_id t) (cpus t) = Some c)"
    using t waits_trans by (auto simp: pit_hlt_def op_combinators registered_def)
qed


text \<open>An interrupt of the PIT is counted and acknowledged. On a registered CPU \<open>isr_handler\<close> returns to the interrupted code, has
  counted one tick, written one end of interrupt to the local APIC of this CPU and one to each PIC, loaded the kernel's page
  table and allowed interrupts again.\<close>

theorem pit_interrupt_acknowledged:
  assumes "registered s c" "isr_id tf = IDT_PIT_INT"
  shows "\<exists>t. isr_handler scancode c0 tf s = Inr (Returned, t) \<and> tickCount t = tickCount s + 1
     \<and> apic_eoi t = (apic_eoi s)(unat (lapic_id s) := Suc (apic_eoi s (unat (lapic_id s)))) \<and> \<not> noINT (cpus t ! c)
     \<and> cr3 t = (cr3 s)(c := kernel_table s) \<and> port_log t = (0xA0, 0x20) # (0x20, 0x20) # port_log s"
  using isr_pit_run [OF assms] by blast

definition booted :: plat where
  "booted = (power_on (example_madt [72, 80]))\<lparr>pIoApic := 0x203C, cpus := [boot_cpu 0]\<rparr>"

lemma booted_ok: "registered booted 0" "has_io_apic booted" "\<not> use_x2_apic booted"
  using example_io_apic by (simp_all add: booted_def registered_def has_io_apic_def boot_cpu_def) (simp add: power_on_def ext2.defs bio.defs)


theorem pit_interrupt_acknowledged_witness:
  "\<exists>t. isr_handler 0 0 (zero_context\<lparr>isr_id := IDT_PIT_INT\<rparr>) booted = Inr (Returned, t) \<and> tickCount t = tickCount booted + 1"
  using pit_interrupt_acknowledged [OF booted_ok(1), of "zero_context\<lparr>isr_id := IDT_PIT_INT\<rparr>"] by auto

end
