(* ===== verification/Boot.thy ===== *)
theory Boot
  imports Interrupts Ext2_Read
begin

text \<open>
  The start of the kernel: kernel/kernel.c from the entry of the boot code to the first user process, and the parts of
  kernel/cpu.c that start the other CPUs.

  The assembly code (boot.asm, smp_boot.asm) is not modelled. The symbols it exports and what the hardware decides are the fields of
  the record \<open>boot_env\<close>: \<open>boot_gdt\<close> and \<open>boot_gdt_end\<close> are \<open>GDT_\<close> and \<open>end_gdt_\<close>, \<open>others\<close> is what the other CPUs do while this one waits for them, \<open>hlt\<close> what happens until a halted CPU goes
  on, \<open>int3\<close> the switch to another thread. Code that runs before the higher half is in use addresses the tables by their physical
  addresses; \<open>qmem\<close> and \<open>kmem\<close> hold the same cells at the virtual addresses of the kernel.
\<close>

section \<open>State\<close>

record kernel = plat +
  original_GDT :: u64
  original_GDT_size :: u64
  gdtr_val :: u64
  kernel_loadaddr :: u64
  kernel_phystop :: u64
  cr4 :: "nat \<Rightarrow> u64"

record 's boot_env =
  boot_gdt :: u64
  boot_gdt_end :: u64
  KERNEL_START :: u64
  KERNEL_END :: u64
  global_gdt_ptr_low :: u64
  global_gdt_ptr_high :: u64
  global_stack_top :: u64
  smp_init :: u64
  smp_64bit_init :: u64
  init_smp_va :: u64
  IdleThread_va :: u64
  hello_name :: u64
  isr_stub :: "nat \<Rightarrow> u64"
  cpuid_1_edx :: u32
  cpuid_7_ebx :: u32
  entry_rest :: "u64 \<times> u64"
  smp_info_rest :: u32
  kbd_status :: "nat \<Rightarrow> u8"
  others :: "'s \<Rightarrow> fault + unit \<times> 's"
  hlt :: "'s \<Rightarrow> fault + unit \<times> 's"
  int3 :: "'s \<Rightarrow> fault + unit \<times> 's"

section \<open>The higher half\<close>

definition map_image_entry :: "nat \<Rightarrow> 'a paging_scheme \<Rightarrow> 'a paging_scheme" where
  "map_image_entry i s =
     set_qword (entry (row (pdt_kernel_va (link s)) 0) i) ((of_nat i * HUGEPGSIZE) OR (PAGE_PRESENT OR PAGE_WRITE OR PAGE_HUGE)) s"

definition higherhalf_stubentry :: "'a paging_scheme \<Rightarrow> 'a paging_scheme" where
  "higherhalf_stubentry s =
     (let L = link s;
          pdpt_addr = pdpt_va L AND NOT KERNEL_HH_START;
          pdt_addr = row (pdt_kernel_va L) 0 AND NOT KERNEL_HH_START;
          s1 = set_qword (entry (pml4t_va L) (pml4t_index KERNEL_HH_START)) (pdpt_addr OR (PAGE_PRESENT OR PAGE_WRITE)) s;
          s2 = set_qword (entry (pdpt_va L) (pdpt_index KERNEL_HH_START)) (pdt_addr OR (PAGE_PRESENT OR PAGE_WRITE)) s1
      in fold map_image_entry [0..<512] s2)"

text \<open>The instruction \<open>mov %eax, (%0)\<close> writes 32 bits: the lower half of the first entry.\<close>

definition drop_direct_map :: "'a paging_scheme \<Rightarrow> 'a paging_scheme" where
  "drop_direct_map s = set_qword (entry (pml4t_va (link s)) 0) (qmem s (entry (pml4t_va (link s)) 0) AND NOT (mask 32)) s"

section \<open>Global data and the first thread\<close>

definition setup_global_data :: "'s boot_env \<Rightarrow> 'a kernel_scheme \<Rightarrow> fault + unit \<times> 'a kernel_scheme" where
  "setup_global_data M =
     seqn (upd (\<lambda>s. s\<lparr>original_GDT := boot_gdt M, original_GDT_size := boot_gdt_end M - boot_gdt M, kernel_loadaddr := KERNEL_START M,
       kernel_phystop := KERNEL_END M, gdtr_val := global_gdt_ptr_low M\<rparr>))
    (seqn (init_Spinlock PMM_lock ''PMM'') (seqn (init_Spinlock serial_lock ''SERIAL'')
    (seqn (init_Spinlock proc_table_lock ''gThreads'') (init_Spinlock print_lock ''PRINT''))))"

text \<open>\<open>proc_table.thread_count\<close> is only written; it is left out.\<close>

definition kthread_setup :: "'s boot_env \<Rightarrow> 'a proc_scheme \<Rightarrow> fault + unit \<times> 'a proc_scheme" where
  "kthread_setup M =
     seqn (upd (\<lambda>s. upd_thread 0 (\<lambda>t. t\<lparr>thread_id := 0, thread_pml4t_phys := KERNEL_PML4T_PHYS (pml4t_va (link s)), thread_pml4t_va := pml4t_va (link s),
       status := THREAD_STATE_RUNNING, can_wakeup := True\<rparr>) s))
    (seqn (upd (upd_ctx 0 (\<lambda>c. c\<lparr>i_cs := KERNEL_CS, i_ss := KERNEL_DS\<rparr>)))
    (bnd get_current_cpu (\<lambda>i. upd (upd_cpu i (\<lambda>c. c\<lparr>current_thread := Some 0, cpu_kstack := global_stack_top M\<rparr>)))))"

definition CPU_CR4_SMEP_ENABLE :: u64 where "CPU_CR4_SMEP_ENABLE = push_bit 20 1"
definition CPU_CR4_SMAP_ENABLE :: u64 where "CPU_CR4_SMAP_ENABLE = push_bit 21 1"

definition upd_cr4 :: "(u64 \<Rightarrow> u64) \<Rightarrow> 'a kernel_scheme \<Rightarrow> fault + unit \<times> 'a kernel_scheme" where
  "upd_cr4 f = bnd get_current_cpu (\<lambda>i. upd (\<lambda>s. s\<lparr>cr4 := (cr4 s)(i := f (cr4 s i))\<rparr>))"

definition enable_supervisor_mem_protections :: "u32 \<Rightarrow> 'a kernel_scheme \<Rightarrow> fault + unit \<times> 'a kernel_scheme" where
  "enable_supervisor_mem_protections ebx =
     seqn (if bit ebx 7 then upd_cr4 (\<lambda>v. v OR CPU_CR4_SMEP_ENABLE) else ret ())
          (if bit ebx 20 then upd_cr4 (\<lambda>v. v OR CPU_CR4_SMAP_ENABLE) else ret ())"

definition disable_supervisor_mem_protections :: "u32 \<Rightarrow> 'a kernel_scheme \<Rightarrow> fault + unit \<times> 'a kernel_scheme" where
  "disable_supervisor_mem_protections ebx =
     seqn (if bit ebx 7 then upd_cr4 (\<lambda>v. v AND NOT CPU_CR4_SMEP_ENABLE) else ret ())
          (if bit ebx 20 then upd_cr4 (\<lambda>v. v AND NOT CPU_CR4_SMAP_ENABLE) else ret ())"

section \<open>The descriptor table of a CPU\<close>

definition GDT_SIZE :: u64 where "GDT_SIZE = 0x4c"

definition gdt_at :: "mem \<Rightarrow> u64 \<Rightarrow> gdt_st" where
  "gdt_at m a = \<lparr>null_desc = word64 m a, kernel_code = word64 m (a + 8), kernel_data = word64 m (a + 16), user_code = word64 m (a + 24),
     user_data = word64 m (a + 32), tss_low = word64 m (a + 40), tss_high = word64 m (a + 48),
     desc1 = \<lparr>gdtdesc_size = word16 m (a + 56), gdtdesc_ptr = word64 m (a + 58)\<rparr>,
     desc2 = \<lparr>gdtdesc_size = word16 m (a + 66), gdtdesc_ptr = word64 m (a + 68)\<rparr>\<rparr>"

definition alloc_per_cpu_gdt :: "'s boot_env \<Rightarrow> 'a kernel_scheme \<Rightarrow> fault + unit \<times> 'a kernel_scheme" where
  "alloc_per_cpu_gdt M =
     bnd get_current_cpu (\<lambda>i.
     seqn (ensure (\<lambda>s. original_GDT_size s = GDT_SIZE) (Panic ''alloc_per_cpu_gdt() --> GDT size mismatch!''))
    (seqn (upd (\<lambda>s. upd_cpu i (\<lambda>c. c\<lparr>gdt := gdt_at (kmem s) (boot_gdt M)\<rparr>) s))
          (upd (\<lambda>s. upd_cpu i (\<lambda>c. c\<lparr>gdt := (gdt c)\<lparr>desc1 := (desc1 (gdt c))\<lparr>gdtdesc_ptr := gdt_va (link s) i\<rparr>\<rparr>\<rparr>) s))))"

section \<open>Starting the other CPUs\<close>

definition SMP_INFO_STRUCT_PA :: u64 where "SMP_INFO_STRUCT_PA = 0x7000"
definition SMP_INFO_MAGIC :: u32 where "SMP_INFO_MAGIC = 0x6969"

record SMP_INFO_STRUCT =
  gdt_ptr_pa :: u32
  pml4t_pa :: u32
  smp_kstack_va :: u64
  smp_entry :: u64
  magic :: u32
  smp_32bit_init_addr :: u32
  smp_64bit_init_addr :: u32

definition smp_info_at :: "mem \<Rightarrow> u64 \<Rightarrow> SMP_INFO_STRUCT" where
  "smp_info_at m a = \<lparr>gdt_ptr_pa = word32 m a, pml4t_pa = word32 m (a + 4), smp_kstack_va = word64 m (a + 8), smp_entry = word64 m (a + 16),
     magic = word32 m (a + 24), smp_32bit_init_addr = word32 m (a + 28), smp_64bit_init_addr = word32 m (a + 32)\<rparr>"

text \<open>A store to low memory, which goes through the tables that are loaded; the bytes lie in one page. What is at the physical
  address \<open>p\<close> is seen by the kernel at \<open>KERNEL_HH_START + p\<close>.\<close>

definition store_low :: "u64 \<Rightarrow> u8 list \<Rightarrow> 'a ext2_scheme \<Rightarrow> fault + unit \<times> 'a ext2_scheme" where
  "store_low a bs s =
     (case user_translate (kernel_table s) a s of
        None \<Rightarrow> Inl page_fault
      | Some p \<Rightarrow> Inr ((), s\<lparr>kmem := put (KERNEL_HH_START + p) bs (kmem s)\<rparr>))"

definition write_to_smp_info_struct :: "SMP_INFO_STRUCT \<Rightarrow> 'a ext2_scheme \<Rightarrow> fault + unit \<times> 'a ext2_scheme" where
  "write_to_smp_info_struct smp_info =
     seqn (store_low (SMP_INFO_STRUCT_PA + 16) (bytes_le 8 (smp_entry smp_info)))
    (seqn (store_low SMP_INFO_STRUCT_PA (bytes_le 4 (ucast (gdt_ptr_pa smp_info))))
    (seqn (store_low (SMP_INFO_STRUCT_PA + 8) (bytes_le 8 (smp_kstack_va smp_info)))
    (seqn (store_low (SMP_INFO_STRUCT_PA + 4) (bytes_le 4 (ucast (pml4t_pa smp_info))))
    (seqn (store_low (SMP_INFO_STRUCT_PA + 24) (bytes_le 4 0x1111))
    (seqn (store_low (SMP_INFO_STRUCT_PA + 28) (bytes_le 4 (ucast (smp_32bit_init_addr smp_info))))
          (store_low (SMP_INFO_STRUCT_PA + 32) (bytes_le 4 (ucast (smp_64bit_init_addr smp_info)))))))))"

definition write_magic_smp_info :: "u32 \<Rightarrow> 'a ext2_scheme \<Rightarrow> fault + unit \<times> 'a ext2_scheme" where
  "write_magic_smp_info v = store_low (SMP_INFO_STRUCT_PA + 24) (bytes_le 4 (ucast v))"

definition get_smp_info_struct :: "'a ext2_scheme \<Rightarrow> SMP_INFO_STRUCT" where
  "get_smp_info_struct s = smp_info_at (kmem s) (KERNEL_HH_START + SMP_INFO_STRUCT_PA)"

text \<open>\<open>sleep\<close> waits for the tick counter.\<close>

definition sleep :: "'a kernel_scheme boot_env \<Rightarrow> u32 \<Rightarrow> 'a kernel_scheme \<Rightarrow> fault + unit \<times> 'a kernel_scheme" where
  "sleep M ms = seqn (upd (\<lambda>s. s\<lparr>tick_counter := 0\<rparr>)) (while_do (\<lambda>s. tick_counter s < ucast ms) (others M))"

definition wait_delivery :: "'a kernel_scheme boot_env \<Rightarrow> 'a kernel_scheme \<Rightarrow> fault + unit \<times> 'a kernel_scheme" where
  "wait_delivery M = seqn (others M) (while_do (\<lambda>s. bit (lapic_regs s (lapic_id s) APIC_REG_ICR_LOW) 12) (others M))"

text \<open>An interrupt to another CPU. \<open>id << 24\<close> is an \<open>int\<close>; its bits are those of the 32-bit shift. \<open>microdelay\<close> does nothing.\<close>

definition send_ipi :: "'a kernel_scheme boot_env \<Rightarrow> u16 \<Rightarrow> u32 \<Rightarrow> 'a kernel_scheme \<Rightarrow> fault + unit \<times> 'a kernel_scheme" where
  "send_ipi M n v =
     seqn (APIC_WRITE APIC_REG_ICR_HIGH (push_bit 24 (ucast n))) (seqn (APIC_WRITE APIC_REG_ICR_LOW v) (wait_delivery M))"

definition copy_trampoline :: "'s boot_env \<Rightarrow> 'a ext2_scheme \<Rightarrow> fault + unit \<times> 'a ext2_scheme" where
  "copy_trampoline M = bnd (gets (\<lambda>s. bytes_at (kmem s) (smp_init M) 0x1000)) (store_low 0x2000)"

text \<open>The test for a null stack comes after the addition and never succeeds; \<open>smp_32bit_init_addr\<close> is not initialised.\<close>

definition InitCPUByID :: "'a kernel_scheme boot_env \<Rightarrow> u16 \<Rightarrow> 'a kernel_scheme \<Rightarrow> fault + unit \<times> 'a kernel_scheme" where
  "InitCPUByID M n =
     bnd (bnd (kalloc 0x10000) (\<lambda>p. ret (p + 0x10000))) (\<lambda>stack_alloc.
     bnd (get_cpu_byID (unat n)) (\<lambda>cpu. case cpu of
       None \<Rightarrow> raise (Panic ''InitCPUByID() --> cpu was NULL.'')
     | Some i \<Rightarrow>
       seqn (upd (upd_cpu i (\<lambda>c. c\<lparr>cpu_kstack := stack_alloc\<rparr>)))
      (seqn (ensure (\<lambda>_. stack_alloc \<noteq> 0) (Panic ''InitCPUByID() --> could not allocate a kernel stack''))
      (bnd (gets (\<lambda>s. \<lparr>gdt_ptr_pa = ucast (gdtr_val s - KERNEL_HH_START), pml4t_pa = ucast (pml4t_va (link s) AND NOT KERNEL_HH_START),
          smp_kstack_va = stack_alloc, smp_entry = init_smp_va M, magic = 0, smp_32bit_init_addr = smp_info_rest M,
          smp_64bit_init_addr = ucast (smp_64bit_init M - smp_init M + 0x2000)\<rparr>)) (\<lambda>smp_info.
       seqn (map_4kb_page_smp 0x7000 0x7000 (ucast (PAGE_PRESENT OR PAGE_WRITE)))
      (seqn (write_to_smp_info_struct smp_info)
      (seqn (map_4kb_page_smp 0x2000 0x2000 (ucast (PAGE_PRESENT OR PAGE_WRITE)))
      (seqn (copy_trampoline M)
      (seqn (APIC_WRITE 0x280 0)
      (seqn (send_ipi M n 0xC500)
      (seqn (send_ipi M n 0x8500)
      (seqn (foreach [0..<2 :: nat] (\<lambda>_. seqn (APIC_WRITE 0x280 0) (send_ipi M n 0x4602)))
            (while_do (\<lambda>s. magic (get_smp_info_struct s) \<noteq> SMP_INFO_MAGIC) (others M))))))))))))))"

text \<open>What a started CPU executes; afterwards it waits for interrupts.\<close>

definition init_smp :: "'s boot_env \<Rightarrow> 'a kernel_scheme \<Rightarrow> fault + unit \<times> 'a kernel_scheme" where
  "init_smp M =
     seqn (bnd get_current_cpu (\<lambda>i. upd (\<lambda>s. upd_cpu i (\<lambda>c. c\<lparr>gdtr := \<lparr>gdtdesc_size = word16 (kmem s) (global_gdt_ptr_high M),
       gdtdesc_ptr = word64 (kmem s) (global_gdt_ptr_high M + 2)\<rparr>\<rparr>) s)))
    (seqn smp_apic_init
    (seqn (upd lidt)
    (seqn (bnd get_current_cpu (\<lambda>i. upd (sti i)))
    (seqn smp_init_timer
    (seqn (write_magic_smp_info SMP_INFO_MAGIC)
          (alloc_per_cpu_gdt M))))))"

definition smp_start :: "'a kernel_scheme boot_env \<Rightarrow> 'a kernel_scheme \<Rightarrow> fault + unit \<times> 'a kernel_scheme" where
  "smp_start M =
     bnd (gets (\<lambda>s. length (cpus s))) (\<lambda>cpu_count. foreach [0..<cpu_count] (\<lambda>i.
     bnd (gets (\<lambda>s. cpu_id (cpus s ! i))) (\<lambda>n. bnd get_current_cpu (\<lambda>j. bnd (gets (\<lambda>s. cpu_id (cpus s ! j))) (\<lambda>me.
     if n \<noteq> me then InitCPUByID M n else alloc_per_cpu_gdt M)))))"

section \<open>The boot sequence\<close>

text \<open>After \<open>ExitThread\<close> the loop at the end of \<open>kernel_main\<close> runs until the next interrupt switches to another thread.\<close>

definition start_shell :: "('a ext2_scheme \<Rightarrow> fault + unit \<times> 'a ext2_scheme) \<Rightarrow> 'a ext2_scheme \<Rightarrow> fault + unit \<times> 'a ext2_scheme" where
  "start_shell sw =
     bnd (ext2_read_file sw ''/shell'') (\<lambda>b.
     if b = 0 then ret () else bnd (gets (\<lambda>s i. kmem s (b + i))) (CreateUserProcess b))"

definition kernel_main :: "'a kernel_scheme boot_env \<Rightarrow> u64 \<Rightarrow> 'a kernel_scheme \<Rightarrow> fault + unit \<times> 'a kernel_scheme" where
  "kernel_main M ptr_multiboot_info =
     seqn (setup_global_data M)
    (seqn (parse_multiboot_info ptr_multiboot_info)
    (seqn (bnd (gets madt) parse_madt)
    (seqn (upd (idt_setup (isr_stub M)))
    (seqn (set_irq 2 2 0x22 0 0 True)
    (seqn (apic_setup (cpuid_1_edx M) (hlt M) (fst (entry_rest M)) (snd (entry_rest M)))
    (seqn (bnd get_current_cpu (\<lambda>i. upd (cli i)))
    (seqn (alloc_per_cpu_gdt M)
    (seqn (bnd get_current_cpu (\<lambda>i. upd (sti i)))
    (seqn kheap_init
    (seqn (kthread_setup M)
    (seqn video_init
    (seqn init_terminal
    (seqn (keyboard_driver_init (kbd_status M))
    (seqn (CreateIdleThread (IdleThread_va M))
    (seqn (enable_supervisor_mem_protections (cpuid_7_ebx M))
    (seqn (smp_start M)
    (seqn (ideinit (set_irq 14 14 0x2e 0 0 False))
    (seqn binit
    (seqn (ext2_driver_init (int3 M) (hello_name M))
    (seqn (start_shell (int3 M))
          ExitThread))))))))))))))))))))"

definition higher_half_entry :: "'a kernel_scheme boot_env \<Rightarrow> u64 \<Rightarrow> 'a kernel_scheme \<Rightarrow> fault + unit \<times> 'a kernel_scheme" where
  "higher_half_entry M ptr_multiboot_info = seqn (upd drop_direct_map) (kernel_main M ptr_multiboot_info)"

section \<open>The tables at the entry of the kernel\<close>

lemma set_qword_fields [simp]: "link (set_qword a v s) = link s" "qmem (set_qword a v s) = (qmem s)(a := v)"
  by (simp_all add: set_qword_def)

lemma map_image_entries:
  assumes "table_ok (row (pdt_kernel_va (link s)) 0)" "n \<le> 512"
  defines "u \<equiv> fold map_image_entry [0..<n] s"
  shows "link u = link s" "i < n \<Longrightarrow> qmem u (entry (row (pdt_kernel_va (link s)) 0) i) = (of_nat i * HUGEPGSIZE) OR (PAGE_PRESENT OR PAGE_WRITE OR PAGE_HUGE)"
    "(\<And>i. i < n \<Longrightarrow> a \<noteq> entry (row (pdt_kernel_va (link s)) 0) i) \<Longrightarrow> qmem u a = qmem s a"
proof -
  have "link u = link s \<and> (\<forall>i < n. qmem u (entry (row (pdt_kernel_va (link s)) 0) i) = (of_nat i * HUGEPGSIZE) OR (PAGE_PRESENT OR PAGE_WRITE OR PAGE_HUGE)) \<and>
     (\<forall>a. (\<forall>i < n. a \<noteq> entry (row (pdt_kernel_va (link s)) 0) i) \<longrightarrow> qmem u a = qmem s a)"
    using assms(2) unfolding u_def
  proof (induction n)
    case (Suc n)
    then show ?case by (auto simp: map_image_entry_def less_Suc_eq entry_eq_iff [OF assms(1) assms(1)])
  qed simp
  then show "link u = link s" "i < n \<Longrightarrow> qmem u (entry (row (pdt_kernel_va (link s)) 0) i) = (of_nat i * HUGEPGSIZE) OR (PAGE_PRESENT OR PAGE_WRITE OR PAGE_HUGE)"
    "(\<And>i. i < n \<Longrightarrow> a \<noteq> entry (row (pdt_kernel_va (link s)) 0) i) \<Longrightarrow> qmem u a = qmem s a" by auto
qed

lemma HH_indices: "pml4t_index KERNEL_HH_START = 511" "pdpt_index KERNEL_HH_START = 510"
  by (simp_all add: pml4t_index_def pdpt_index_def KERNEL_HH_START_def)

text \<open>The indices of an address in the first gigabyte of the kernel image, and of a low address.\<close>

lemma unat_index: "unat (drop_bit k va AND 0x1FF) = unat va div 2 ^ k mod 512" for va :: u64
proof -
  have "drop_bit k va AND 0x1FF = take_bit 9 (drop_bit k va)" by (simp add: take_bit_eq_mask mask_eq_decr_exp)
  then show ?thesis by (simp add: unsigned_take_bit_eq take_bit_nat_def unat_drop_bit)
qed

lemma image_indices:
  assumes "x < 0x40000000"
  shows "pml4t_index (KERNEL_HH_START + x) = 511" "pdpt_index (KERNEL_HH_START + x) = 510" "pdt_index (KERNEL_HH_START + x) = unat x div 0x200000"
proof -
  have x: "unat x < 0x40000000" using assms by (simp add: word_less_nat_alt)
  then have u: "unat (KERNEL_HH_START + x) = 0xffffffff80000000 + unat x" by (subst unat_plus_nowrap) (simp_all add: KERNEL_HH_START_def)
  show "pml4t_index (KERNEL_HH_START + x) = 511" "pdpt_index (KERNEL_HH_START + x) = 510" "pdt_index (KERNEL_HH_START + x) = unat x div 0x200000"
    unfolding pml4t_index_def pdpt_index_def pdt_index_def unat_index u using x mod_mult_self4 [of 512 17179869182 "unat x div 2097152"]
    by (simp_all add: div_add1_eq [of "0xffffffff80000000"])
qed

lemma low_index: "x < 0x8000000000 \<Longrightarrow> pml4t_index x = 0"
  by (simp add: pml4t_index_def unat_index word_less_nat_alt)

definition image_flags :: u64 where "image_flags = PAGE_PRESENT OR PAGE_WRITE OR PAGE_HUGE"

lemma image_flags_bits: "drop_bit 12 image_flags = 0" "bit image_flags 0" "bit image_flags 7"
  by (simp_all add: image_flags_def PAGE_PRESENT_def PAGE_WRITE_def PAGE_HUGE_def bit_simps)

lemma walk_huge:
  assumes P: "table_ok P" and e4: "qmem s (entry P (pml4t_index va)) = (Q AND NOT KERNEL_HH_START) OR (PAGE_PRESENT OR PAGE_WRITE)" "table_ok Q"
    and e3: "qmem s (entry Q (pdpt_index va)) = (R AND NOT KERNEL_HH_START) OR (PAGE_PRESENT OR PAGE_WRITE)" "table_ok R"
    and e2: "qmem s (entry R (pdt_index va)) = pa OR image_flags" "take_bit 12 pa = 0"
  shows "user_translate (KERNEL_PML4T_PHYS P) va s = Some (pa + (va AND 0x1FFFFF))"
proof -
  have f: "bit (PAGE_PRESENT OR PAGE_WRITE) 0" by (simp add: PAGE_PRESENT_def PAGE_WRITE_def bit_simps)
  note F = follow_entry [OF e4(2) flag_words(1)] follow_entry [OF e3(2) flag_words(1)]
  have p: "bit (qmem s (entry P (pml4t_index va))) 0" "bit (qmem s (entry Q (pdpt_index va))) 0" "bit (qmem s (entry R (pdt_index va))) 0"
    "bit (qmem s (entry R (pdt_index va))) 7"
    using f image_flags_bits(2,3) unfolding e4(1) e3(1) e2(1) by (auto simp: bit_simps)
  have a: "(qmem s (entry P (pml4t_index va)) AND PTADDRMASK) + KERNEL_HH_START = Q"
    "(qmem s (entry Q (pdpt_index va)) AND PTADDRMASK) + KERNEL_HH_START = R" "qmem s (entry R (pdt_index va)) AND PTADDRMASK = pa"
    using F frame_of_entry [OF e2(2) image_flags_bits(1)] unfolding e4(1) e3(1) e2(1) by simp_all
  show ?thesis using p a table_root [OF P] by (simp add: user_translate_def Let_def present_test huge_test)
qed

lemma image_address:
  assumes "x < 0x40000000"
  defines "pa \<equiv> of_nat (unat x div 0x200000) * HUGEPGSIZE"
  shows "take_bit 12 pa = 0" "pa + ((KERNEL_HH_START + x) AND 0x1FFFFF) = x"
proof -
  have x: "unat x < 0x40000000" using assms(1) by (simp add: word_less_nat_alt)
  have k: "unat x div 0x200000 < 512" using x by (simp add: div_less_iff_less_mult)
  have u: "unat pa = unat x div 0x200000 * 0x200000" unfolding pa_def HUGEPGSIZE_def
    using k by (subst unat_mult_nowrap) (simp_all add: unat_of_nat)
  then have "unat (take_bit 12 pa) = 0" by (simp add: unsigned_take_bit_eq take_bit_nat_def mod_mult_eq)
  then show "take_bit 12 pa = 0" by (simp add: unat_eq_zero)
  have h: "unat (KERNEL_HH_START + x) = 0xffffffff80000000 + unat x" using x by (subst unat_plus_nowrap) (simp_all add: KERNEL_HH_START_def)
  have "(KERNEL_HH_START + x) AND 0x1FFFFF = take_bit 21 (KERNEL_HH_START + x)" by (simp add: take_bit_eq_mask mask_eq_decr_exp)
  then have o: "unat ((KERNEL_HH_START + x) AND 0x1FFFFF) = unat x mod 0x200000"
    using mod_mult_self4 [of 2097152 8796093021184 "unat x"] by (simp add: unsigned_take_bit_eq take_bit_nat_def h)
  have "unat (pa + ((KERNEL_HH_START + x) AND 0x1FFFFF)) = unat x"
    using x by (subst unat_plus_nowrap) (simp_all add: u o)
  then show "pa + ((KERNEL_HH_START + x) AND 0x1FFFFF) = x" by (simp add: word_unat_eq_iff)
qed

lemma boot_tables:
  fixes s :: "'a paging_scheme"
  assumes "layout_ok (link s)"
  defines "u \<equiv> drop_direct_map (higherhalf_stubentry s)"
  defines "R \<equiv> row (pdt_kernel_va (link s)) 0"
  shows "link u = link s" "qmem u (entry (pml4t_va (link s)) 511) = (pdpt_va (link s) AND NOT KERNEL_HH_START) OR (PAGE_PRESENT OR PAGE_WRITE)"
    "qmem u (entry (pdpt_va (link s)) 510) = (R AND NOT KERNEL_HH_START) OR (PAGE_PRESENT OR PAGE_WRITE)"
    "i < 512 \<Longrightarrow> qmem u (entry R i) = (of_nat i * HUGEPGSIZE) OR image_flags" "\<not> bit (qmem u (entry (pml4t_va (link s)) 0)) 0"
proof -
  let ?L = "link s"
  have t: "table_ok (pml4t_va ?L)" "table_ok (pdpt_va ?L)" "table_ok R" "pml4t_va ?L \<noteq> pdpt_va ?L" "R \<noteq> pml4t_va ?L" "R \<noteq> pdpt_va ?L"
    using assms(1) by (simp_all add: layout_ok_def R_def)
  define s2 where "s2 = set_qword (entry (pdpt_va ?L) 510) ((R AND NOT KERNEL_HH_START) OR (PAGE_PRESENT OR PAGE_WRITE))
     (set_qword (entry (pml4t_va ?L) 511) ((pdpt_va ?L AND NOT KERNEL_HH_START) OR (PAGE_PRESENT OR PAGE_WRITE)) s)"
  have l: "link s2 = ?L" by (simp add: s2_def)
  have st: "higherhalf_stubentry s = fold map_image_entry [0..<512] s2" by (simp add: higherhalf_stubentry_def Let_def HH_indices s2_def R_def)
  note M = map_image_entries [of s2 512, unfolded l, folded R_def st, OF t(3) order_refl]
  have q: "qmem u = (qmem (higherhalf_stubentry s))(entry (pml4t_va ?L) 0 := qmem (higherhalf_stubentry s) (entry (pml4t_va ?L) 0) AND NOT (mask 32))"
    by (simp add: u_def drop_direct_map_def M(1))
  note E = entry_eq_iff [OF t(1) t(1)] entry_eq_iff [OF t(1) t(2)] entry_eq_iff [OF t(2) t(1)] entry_eq_iff [OF t(1) t(3)]
    entry_eq_iff [OF t(2) t(3)] entry_eq_iff [OF t(3) t(1)]
  show "link u = ?L" by (simp add: u_def drop_direct_map_def M(1))
  show "qmem u (entry (pml4t_va ?L) 511) = (pdpt_va ?L AND NOT KERNEL_HH_START) OR (PAGE_PRESENT OR PAGE_WRITE)"
    using M(3) [of "entry (pml4t_va ?L) 511"] t(4,5) by (simp add: q E s2_def)
  show "qmem u (entry (pdpt_va ?L) 510) = (R AND NOT KERNEL_HH_START) OR (PAGE_PRESENT OR PAGE_WRITE)"
    using M(3) [of "entry (pdpt_va ?L) 510"] t(4,6) by (simp add: q E s2_def)
  show "i < 512 \<Longrightarrow> qmem u (entry R i) = (of_nat i * HUGEPGSIZE) OR image_flags" using M(2) [of i] t(5) by (simp add: q E image_flags_def)
  show "\<not> bit (qmem u (entry (pml4t_va ?L) 0)) 0" by (simp add: q bit_simps)
qed

text \<open>C30: The kernel runs in the higher half. After \<open>__higherhalf_stubentry\<close> and the first instructions of \<open>higher_half_entry\<close>, with
  page tables laid out as declared, the processor translates \<open>KERNEL_HH_START + x\<close> to \<open>x\<close> for every \<open>x\<close> in the first gigabyte, and the
  direct mapping of the boot code is gone: no address below 512 GB is mapped.\<close>

theorem higher_half_translation:
  fixes s :: "'a paging_scheme"
  assumes "layout_ok (link s)" "x < 0x40000000" "y < 0x8000000000"
  shows "user_translate (KERNEL_PML4T_PHYS (pml4t_va (link s))) (KERNEL_HH_START + x) (drop_direct_map (higherhalf_stubentry s)) = Some x \<and>
    user_translate (KERNEL_PML4T_PHYS (pml4t_va (link s))) y (drop_direct_map (higherhalf_stubentry s)) = None"
proof
  let ?L = "link s" and ?R = "row (pdt_kernel_va (link s)) 0"
  have t: "table_ok (pml4t_va ?L)" "table_ok (pdpt_va ?L)" "table_ok ?R" using assms(1) by (simp_all add: layout_ok_def)
  note T = boot_tables [OF assms(1)] and I = image_indices [OF assms(2)] and A = image_address [OF assms(2)]
  have "unat x div 0x200000 < 512" using assms(2) by (simp add: word_less_nat_alt div_less_iff_less_mult)
  from walk_huge [OF t(1) _ t(2) _ t(3) _ A(1), of _ "KERNEL_HH_START + x", unfolded I, OF T(2,3) T(4) [OF this]]
  show "user_translate (KERNEL_PML4T_PHYS (pml4t_va ?L)) (KERNEL_HH_START + x) (drop_direct_map (higherhalf_stubentry s)) = Some x" by (simp only: A(2))
  show "user_translate (KERNEL_PML4T_PHYS (pml4t_va ?L)) y (drop_direct_map (higherhalf_stubentry s)) = None"
    using T(5) by (simp add: user_translate_def Let_def table_root [OF t(1)] low_index [OF assms(3)] present_test)
qed

theorem higher_half_translation_witness:
  "user_translate (KERNEL_PML4T_PHYS (pml4t_va boot_link)) (KERNEL_HH_START + 0x7018) (drop_direct_map (higherhalf_stubentry boot_paging)) = Some 0x7018 \<and>
   user_translate (KERNEL_PML4T_PHYS (pml4t_va boot_link)) 0x7018 (drop_direct_map (higherhalf_stubentry boot_paging)) = None"
  using higher_half_translation [of boot_paging "0x7018" "0x7018"] boot_layout by simp

section \<open>The structure for a starting CPU\<close>

lemma same_page_indices:
  assumes "drop_bit 12 a = drop_bit 12 b"
  shows "pml4t_index a = pml4t_index b" "pdpt_index a = pdpt_index b" "pdt_index a = pdt_index b" "pt_index a = pt_index b"
proof -
  have "drop_bit (12 + k) a = drop_bit (12 + k) b" for k using arg_cong [OF assms, of "drop_bit k"] by (simp add: add.commute)
  from this [of 27] this [of 18] this [of 9] this [of 0]
  show "pml4t_index a = pml4t_index b" "pdpt_index a = pdpt_index b" "pdt_index a = pdt_index b" "pt_index a = pt_index b"
    by (simp_all add: pml4t_index_def pdpt_index_def pdt_index_def pt_index_def)
qed

definition table_flags :: u64 where "table_flags = PAGE_PRESENT OR PAGE_WRITE"

lemma table_flags_bits: "drop_bit 12 table_flags = 0" "bit table_flags 0" "\<not> bit table_flags 7" "ucast (ucast (PAGE_PRESENT OR PAGE_WRITE) :: u32) = table_flags"
  by (simp_all add: table_flags_def PAGE_PRESENT_def PAGE_WRITE_def bit_simps)

lemma walk_small:
  assumes e4: "qmem s (entry P (pml4t_index va)) = (Q AND NOT KERNEL_HH_START) OR table_flags" "table_ok Q"
    and e3: "qmem s (entry Q (pdpt_index va)) = (R AND NOT KERNEL_HH_START) OR table_flags" "table_ok R"
    and e2: "qmem s (entry R (pdt_index va)) = (T AND NOT KERNEL_HH_START) OR table_flags" "table_ok T"
    and e1: "qmem s (entry T (pt_index va)) = pa OR table_flags" "take_bit 12 pa = 0" and P: "table_ok P"
  shows "user_translate (KERNEL_PML4T_PHYS P) va s = Some (pa + (va AND 0xFFF))"
proof -
  note F = follow_entry [OF e4(2) table_flags_bits(1)] follow_entry [OF e3(2) table_flags_bits(1)] follow_entry [OF e2(2) table_flags_bits(1)]
  have p: "bit (x OR table_flags) 0" for x using table_flags_bits(2) by (simp add: bit_simps)
  have h: "\<not> bit ((T AND NOT KERNEL_HH_START) OR table_flags) 7"
    using take_bit_0_bits [of 12 T 7] e2(2) table_flags_bits(3) by (simp add: bit_simps table_ok_def)
  show ?thesis using F p h frame_of_entry [OF e1(2) table_flags_bits(1)] table_root [OF P]
    by (simp add: user_translate_def Let_def present_test huge_test e4(1) e3(1) e2(1) e1(1))
qed

lemma map_4kb_page_smp_translates:
  fixes s :: "'a paging_scheme"
  assumes "layout_ok (link s)" "take_bit 12 pa = 0"
  obtains q where "map_4kb_page_smp va pa (ucast (PAGE_PRESENT OR PAGE_WRITE)) s = Inr ((), s\<lparr>qmem := q\<rparr>)"
    "\<And>b (t :: 'b paging_scheme). drop_bit 12 b = drop_bit 12 va \<Longrightarrow> qmem t = q \<Longrightarrow>
       user_translate (KERNEL_PML4T_PHYS (pml4t_va (link s))) b t = Some (pa + (b AND 0xFFF))"
proof -
  let ?L = "link s"
  define q where "q = (qmem s)(entry (pml4t_va ?L) (pml4t_index va) := (pdpt_va ?L AND NOT KERNEL_HH_START) OR table_flags,
      entry (pdpt_va ?L) (pdpt_index va) := (smp_pdt_va ?L AND NOT KERNEL_HH_START) OR table_flags,
      entry (smp_pdt_va ?L) (pdt_index va) := (smp_pt_va ?L AND NOT KERNEL_HH_START) OR table_flags,
      entry (smp_pt_va ?L) (pt_index va) := pa OR table_flags)"
  have t: "table_ok (pml4t_va ?L)" "table_ok (pdpt_va ?L)" "table_ok (smp_pdt_va ?L)" "table_ok (smp_pt_va ?L)"
    "distinct [pml4t_va ?L, pdpt_va ?L, smp_pdt_va ?L, smp_pt_va ?L]" using assms(1) by (simp_all add: layout_ok_def)
  have "map_4kb_page_smp va pa (ucast (PAGE_PRESENT OR PAGE_WRITE)) s = Inr ((), s\<lparr>qmem := q\<rparr>)"
    unfolding map_4kb_page_smp_def table_flags_bits(4) by (simp add: Let_def set_qword_def q_def)
  moreover have "user_translate (KERNEL_PML4T_PHYS (pml4t_va ?L)) b t = Some (pa + (b AND 0xFFF))"
    if b: "drop_bit 12 b = drop_bit 12 va" and q: "qmem t = q" for b and t :: "'b paging_scheme"
    using t by (intro walk_small [where Q = "pdpt_va ?L" and R = "smp_pdt_va ?L" and T = "smp_pt_va ?L"])
      (simp_all add: q q_def same_page_indices [OF b] entry_eq_iff index_bounds assms(2))
  ultimately show ?thesis by (rule that)
qed

lemma length_bytes_le [simp]: "length (bytes_le n w) = n"
  by (induction n arbitrary: w) simp_all

lemma le_bytes_value: "(\<And>i. i < n \<Longrightarrow> m (a + of_nat i) = bytes_le n w ! i) \<Longrightarrow> le_bytes m a n = take_bit (8 * n) w"
proof (induction n arbitrary: a w)
  case (Suc n)
  have "le_bytes m (a + 1) n = take_bit (8 * n) (drop_bit 8 w)" using Suc.prems [of "Suc _"] by (intro Suc.IH) (simp add: add.assoc)
  moreover have "m a = ucast w" using Suc.prems [of 0] by simp
  moreover have "ucast (ucast w :: u8) OR push_bit 8 (take_bit (8 * n) (drop_bit 8 w)) = take_bit (8 * Suc n) w"
    by (rule bit_word_eqI) (auto simp: bit_simps)
  ultimately show ?case by simp
qed simp

lemma le_bytes_stored: "n \<le> 8 \<Longrightarrow> le_bytes (put a (bytes_le n w) m) a n = take_bit (8 * n) w"
  by (rule le_bytes_value) (simp add: put_def unat_of_nat take_bit_nat_eq_self)

lemma le_bytes_elsewhere:
  assumes "x + n \<le> y \<or> y + length bs \<le> x" "x + n < 2 ^ 32" "y + length bs < 2 ^ 32"
  shows "le_bytes (put (c + of_nat y) bs m) (c + of_nat x) n = le_bytes m (c + of_nat x) n"
proof (rule le_bytes_cong)
  fix i assume i: "i < n"
  let ?d = "c + of_nat x + of_nat i - (c + of_nat y) :: u64"
  have "\<not> unat ?d < length bs"
  proof
    assume d: "unat ?d < length bs"
    have "of_nat (y + unat ?d) = (of_nat (x + i) :: u64)" by (simp add: algebra_simps)
    then have "unat (of_nat (y + unat ?d) :: u64) = unat (of_nat (x + i) :: u64)" by simp
    then have "y + unat ?d = x + i" using assms(2,3) i d by (simp add: unat_of_nat take_bit_nat_eq_self del: of_nat_add)
    then show False using assms(1) i d by linarith
  qed
  then show "put (c + of_nat y) bs m (c + of_nat x + of_nat i) = m (c + of_nat x + of_nat i)" by (simp add: put_def)
qed

lemma le_bytes_other:
  fixes x y c :: u64
  assumes "unat x + n \<le> unat y \<or> unat y + length bs \<le> unat x" "unat x + n < 2 ^ 32" "unat y + length bs < 2 ^ 32"
  shows "le_bytes (put (c + y) bs m) (c + x) n = le_bytes m (c + x) n"
  using le_bytes_elsewhere [OF assms, of c m] by simp

lemmas le_bytes_base = le_bytes_other [where x = 0, simplified] le_bytes_other [where y = 0, simplified]

lemma ucast_field: "(ucast (take_bit 32 (ucast w :: u64)) :: u32) = w" for w :: u32
  by (rule bit_word_eqI) (simp add: bit_simps)

lemma smp_info_stored:
  "smp_info_at (put (c + 32) (bytes_le 4 (ucast (smp_64bit_init_addr info))) (put (c + 28) (bytes_le 4 (ucast (smp_32bit_init_addr info)))
     (put (c + 24) (bytes_le 4 0x1111) (put (c + 4) (bytes_le 4 (ucast (pml4t_pa info))) (put (c + 8) (bytes_le 8 (smp_kstack_va info))
     (put c (bytes_le 4 (ucast (gdt_ptr_pa info))) (put (c + 16) (bytes_le 8 (smp_entry info)) m))))))) c = info\<lparr>magic := 0x1111\<rparr>"
  by (cases info) (simp add: smp_info_at_def word32_def word64_def le_bytes_stored le_bytes_other le_bytes_base ucast_field take_bit_word_eq_self)



end
