(* ===== verification/Shell.thy ===== *)
theory Shell
  imports C_Strings
begin

text \<open>
  The shell (src/src/user/prog/shell.c): reading a line from the keyboard, cutting it into words, the turns of its main loop, and
  \<open>exec\<close> of src/src/user/lib/userlib.c, which builds the array of arguments for the system call.

  \<open>mem\<close> is the memory of the process. The keyboard is the list of the values that the system call \<open>sys_getchar\<close> will return; a
  program that asks for a key when none is left waits forever, which is the fault \<open>Diverge\<close>. What is printed is a list of
  characters.
\<close>

section \<open>Reading a line\<close>

definition MAX_ARGS :: nat where "MAX_ARGS = 15"
definition MAX_LINE_SIZE :: nat where "MAX_LINE_SIZE = 0x1000"
definition MAX_PATH :: nat where "MAX_PATH = 260"

text \<open>\<open>getchar\<close> of the library calls again until the answer is not 0.\<close>

fun getchar :: "u8 list \<Rightarrow> (u8 \<times> u8 list) option" where
  "getchar [] = None"
| "getchar (c # ks) = (if c = 0 then getchar ks else Some (c, ks))"

lemma getchar_length: "getchar ks = Some (c, ks') \<Longrightarrow> length ks' < length ks"
  by (induction ks) (auto split: if_splits)

text \<open>The index never gets negative without a write in front of the buffer: with \<open>index = 0\<close> a backspace writes to
  \<open>line_buf[-1]\<close>, which is undefined. The result is the value returned, what was printed, and the keys that are left.\<close>

function read_line_loop :: "u64 \<Rightarrow> nat \<Rightarrow> u8 list \<Rightarrow> u8 list \<Rightarrow> mem \<Rightarrow> fault + (nat \<times> u8 list \<times> u8 list) \<times> mem" where
  "read_line_loop line_buf index out ks m =
     (if index < MAX_LINE_SIZE - 1
      then case getchar ks of
        None \<Rightarrow> Inl Diverge
      | Some (c, ks') \<Rightarrow>
          if c = 10 then Inr ((index, out @ [c], ks'), m)
          else if c = 8
          then if index = 0 then Inl Undefined
               else read_line_loop line_buf (index - 1) (out @ [c]) ks' (m(line_buf + of_nat (index - 1) := 0))
          else read_line_loop line_buf (index + 1) (out @ [c]) ks' (m(line_buf + of_nat index := c))
      else Inr ((0, out, ks), m))"
  by pat_completeness auto
termination by (relation "measure (\<lambda>(_, _, _, ks, _). length ks)") (auto dest: getchar_length)

declare read_line_loop.simps [simp del]

definition read_line :: "u64 \<Rightarrow> u8 list \<Rightarrow> mem \<Rightarrow> fault + (nat \<times> u8 list \<times> u8 list) \<times> mem" where
  "read_line line_buf ks m =
     (if line_buf = 0 then Inl Undefined
      else read_line_loop line_buf 0 [] ks (memset line_buf 0 (of_nat MAX_LINE_SIZE) m))"

section \<open>Cutting it into words\<close>

text \<open>The loop over the words after the first: \<open>n\<close> are left, \<open>index\<close> is the next element of the array \<open>args_out\<close>, which has
  \<open>MAX_ARGS\<close> elements. It returns false when a word is too long.\<close>

fun split_args :: "u64 \<Rightarrow> nat \<Rightarrow> nat \<Rightarrow> u64 \<Rightarrow> mem \<Rightarrow> fault + bool \<times> mem" where
  "split_args args_out 0 index line m = Inr (True, m)"
| "split_args args_out (Suc n) index line m =
     (case strlen m line 0 of
        None \<Rightarrow> Inl Diverge
      | Some l \<Rightarrow> let len = ucast (l + 1) :: u32 in
          if unat len > MAX_PATH then Inr (False, m)
          else if index \<ge> MAX_ARGS then Inl Undefined
          else split_args args_out n (Suc index) (line + ucast len) (memcpy (args_out + of_nat (MAX_PATH * index)) line (ucast len) m))"

text \<open>The result (\<open>None\<close> for -1) and the pointer that the code stores through \<open>file_out\<close>.\<close>

definition split_line :: "u64 \<Rightarrow> u64 \<Rightarrow> mem \<Rightarrow> fault + (nat option \<times> u64) \<times> mem" where
  "split_line args_out line m =
     (case strsplit line 32 0 0 m of
        None \<Rightarrow> Inl Diverge
      | Some (argc, m1) \<Rightarrow> (case strsplit line 10 0 0 m1 of
          None \<Rightarrow> Inl Diverge
        | Some (_, m2) \<Rightarrow> (case strlen m2 line 0 of
            None \<Rightarrow> Inl Diverge
          | Some l \<Rightarrow> (case split_args args_out (argc - 1) 0 (line + l + 1) m2 of
              Inl e \<Rightarrow> Inl e
            | Inr (ok, m3) \<Rightarrow> Inr ((if ok \<and> argc \<le> MAX_ARGS then Some argc else None, line), m3)))))"

section \<open>A turn of the main loop\<close>

text \<open>What the loop decides: to go on with the next line, to leave the loop, or to start a program. A command has the file, the
  number of arguments and the memory with which the child that \<open>fork\<close> makes calls \<open>exec\<close>.\<close>

datatype action = Continue | Leave | Run u64 nat mem

definition nullargs :: "u64 \<Rightarrow> mem \<Rightarrow> mem" where
  "nullargs args m = memset args 0 (of_nat (MAX_PATH * MAX_ARGS)) m"

definition clear_line :: "u64 \<Rightarrow> u64 \<Rightarrow> mem \<Rightarrow> mem" where
  "clear_line args line_buf m = nullargs args (memset line_buf 0 (of_nat MAX_LINE_SIZE) m)"

text \<open>A turn returns the action, the keys that are left and the memory at the end of the turn. The string that \<open>EXIT_STRING\<close> points
  to is in memory, like the two arrays on the stack.\<close>

definition loop_turn :: "u64 \<Rightarrow> u64 \<Rightarrow> u64 \<Rightarrow> u8 list \<Rightarrow> mem \<Rightarrow> fault + (action \<times> u8 list) \<times> mem" where
  "loop_turn args line_buf EXIT_STRING ks m =
     (case read_line line_buf ks m of
        Inl e \<Rightarrow> Inl e
      | Inr ((line_len, _, ks'), m1) \<Rightarrow>
          if line_len = 0 then Inr ((Continue, ks'), m1)
          else (case strcmp m1 line_buf EXIT_STRING of
            None \<Rightarrow> Inl Diverge
          | Some r \<Rightarrow>
              if r = 0 then Inr ((Leave, ks'), clear_line args line_buf m1)
              else (case split_line args line_buf m1 of
                Inl e \<Rightarrow> Inl e
              | Inr ((None, _), m2) \<Rightarrow> Inr ((Continue, ks'), m2)
              | Inr ((Some argc, exec_file), m2) \<Rightarrow> Inr ((Run exec_file argc m2, ks'), clear_line args line_buf m2))))"

section \<open>The call of exec\<close>

text \<open>The array \<open>arg_array\<close> has 16 elements. A copy that leaves the array is undefined; one that leaves its element is not. The result is
  the memory with which the system call \<open>sys_exec\<close> is made.\<close>

definition ARG_ARRAY_SIZE :: nat where "ARG_ARRAY_SIZE = MAX_PATH * 16"

definition copy_string :: "u64 \<Rightarrow> nat \<Rightarrow> u64 \<Rightarrow> mem \<Rightarrow> fault + mem" where
  "copy_string arg_array offset src m =
     (case strlen m src 0 of
        None \<Rightarrow> Inl Diverge
      | Some len \<Rightarrow> if offset + unat len > ARG_ARRAY_SIZE then Inl Undefined else Inr (memcpy (arg_array + of_nat offset) src len m))"

fun exec_args :: "u64 \<Rightarrow> u64 \<Rightarrow> nat list \<Rightarrow> mem \<Rightarrow> fault + mem" where
  "exec_args arg_array args [] m = Inr m"
| "exec_args arg_array args (i # is) m =
     (case copy_string arg_array (MAX_PATH * i) (args + of_nat (MAX_PATH * (i - 1))) m of
        Inl e \<Rightarrow> Inl e
      | Inr m' \<Rightarrow> exec_args arg_array args is m')"

definition exec :: "u64 \<Rightarrow> u64 \<Rightarrow> nat \<Rightarrow> u64 \<Rightarrow> mem \<Rightarrow> fault + mem" where
  "exec arg_array filepath argc args m =
     (case copy_string arg_array 0 filepath (memset arg_array 0 (of_nat ARG_ARRAY_SIZE) m) of
        Inl e \<Rightarrow> Inl e
      | Inr m' \<Rightarrow> exec_args arg_array args [1..<argc] m')"

section \<open>Lines\<close>

text \<open>A line editor: what the keys make of a line, \<open>None\<close> for a backspace on an empty line, for a line that gets too long and
  for a newline.\<close>

fun edit :: "u8 list \<Rightarrow> u8 list \<Rightarrow> u8 list option" where
  "edit line [] = Some line"
| "edit line (c # ks) =
     (if c = 0 then edit line ks
      else if c = 8 then if line = [] then None else edit (butlast line) ks
      else if c = 10 \<or> length line + 1 \<ge> MAX_LINE_SIZE - 1 then None
      else edit (line @ [c]) ks)"

abbreviation line_image :: "u64 \<Rightarrow> u8 list \<Rightarrow> mem \<Rightarrow> mem" where
  "line_image a line m \<equiv> put a (line @ replicate (MAX_LINE_SIZE - length line) 0) m"

lemma memset_put:
  assumes "n < 2 ^ 64"
  shows "memset a 0 (of_nat n) m = put a (replicate n 0) m"
proof -
  have "fold (\<lambda>i m. m(a + of_nat i := 0)) [0..<k] m = put a (replicate k 0) m" if "k \<le> n" for k
    using that assms
  proof (induction k)
    case (Suc k)
    have "replicate (Suc k) (0 :: u8) = replicate k 0 @ [0]" by (simp add: replicate_append_same)
    then show ?case using Suc put_snoc [of "replicate k 0" a 0 m] by (simp cong: if_cong)
  qed simp
  then show ?thesis using assms by (simp add: memset_def unat_of_nat take_bit_nat_eq_self)
qed

lemma edit_properties: "edit line ks = Some line' \<Longrightarrow> 0 \<notin> set line \<and> 10 \<notin> set line \<and> length line < MAX_LINE_SIZE - 1 \<Longrightarrow>
   0 \<notin> set line' \<and> 10 \<notin> set line' \<and> length line' < MAX_LINE_SIZE - 1"
proof (induction ks arbitrary: line)
  case (Cons c ks)
  have "0 \<notin> set (butlast line) \<and> 10 \<notin> set (butlast line) \<and> length (butlast line) < MAX_LINE_SIZE - 1"
    using Cons.prems(2) by (auto dest: in_set_butlastD)
  then show ?case using Cons.prems Cons.IH [of line] Cons.IH [of "butlast line"] Cons.IH [of "line @ [c]"] by (simp split: if_splits)
qed simp

lemma line_zero:
  "length l < MAX_LINE_SIZE \<Longrightarrow> replicate (MAX_LINE_SIZE - length l) (0 :: u8) = 0 # replicate (MAX_LINE_SIZE - Suc (length l)) 0"
  by (cases "MAX_LINE_SIZE - length l") (simp_all add: diff_Suc)

lemma image_erase:
  assumes "length l < MAX_LINE_SIZE - 1"
  shows "(line_image a (l @ [x]) m)(a + of_nat (length l) := 0) = line_image a l m"
  using line_zero [of l] put_write [of l "replicate (MAX_LINE_SIZE - Suc (length l)) 0" a x m 0] assms by (simp add: MAX_LINE_SIZE_def)

lemma image_type:
  assumes "length l < MAX_LINE_SIZE - 1"
  shows "(line_image a l m)(a + of_nat (length l) := c) = line_image a (l @ [c]) m"
  using line_zero [of l] put_write [of l "replicate (MAX_LINE_SIZE - Suc (length l)) 0" a 0 m c] assms by (simp add: MAX_LINE_SIZE_def)

lemma read_line_loop_skip: "read_line_loop a i out (0 # xs) m = read_line_loop a i out xs m" if "i < MAX_LINE_SIZE - 1"
  using that by (subst (1 2) read_line_loop.simps) simp

lemma read_line_loop_edit:
  assumes "edit line ks = Some line'" "length line < MAX_LINE_SIZE - 1"
  shows "read_line_loop a (length line) out (ks @ 10 # rest) (line_image a line m) = Inr ((length line', out @ filter (\<lambda>c. c \<noteq> 0) ks @ [10], rest), line_image a line' m)"
  using assms
proof (induction ks arbitrary: line out)
  case Nil
  then show ?case by (subst read_line_loop.simps) simp
next
  case (Cons c ks)
  have s: "length line < 4095" using Cons.prems(2) by (simp add: MAX_LINE_SIZE_def)
  consider "c = 0" | "c = 8" "line \<noteq> []" | "c \<noteq> 0" "c \<noteq> 8" "c \<noteq> 10" using Cons.prems(1) by (cases "c = 0"; cases "c = 8") (auto split: if_splits)
  then show ?case
  proof cases
    case 1
    show ?thesis using Cons read_line_loop_skip [of "length line" a out] 1 by simp
  next
    case 2
    then obtain l x where l: "line = l @ [x]" by (cases line rule: rev_cases) auto
    have "(line_image a line m)(a + of_nat (length l) := 0) = line_image a l m"
      using image_erase [of l a x m] s by (simp add: l MAX_LINE_SIZE_def)
    then show ?thesis using Cons.IH [of l "out @ [8]"] Cons.prems 2 s by (subst read_line_loop.simps) (simp add: l)
  next
    case 3
    then have p: "edit (line @ [c]) ks = Some line'" "length line + 1 < 4095" using Cons.prems(1) by (auto simp: MAX_LINE_SIZE_def split: if_splits)
    have "(line_image a line m)(a + of_nat (length line) := c) = line_image a (line @ [c]) m"
      using Cons.prems(2) by (rule image_type)
    then show ?thesis using Cons.IH [of "line @ [c]" "out @ [c]"] 3 p s by (subst read_line_loop.simps) (simp add: MAX_LINE_SIZE_def)
  qed
qed

section \<open>Words\<close>

text \<open>Words with a separator between them.\<close>

fun joined :: "u8 \<Rightarrow> u8 list list \<Rightarrow> u8 list" where
  "joined c [] = []"
| "joined c [w] = w"
| "joined c (w # ws) = w @ c # joined c ws"

lemma length_joined: "length (joined c ws) = length (joined d ws)"
  by (induction c ws rule: joined.induct) simp_all

lemma strsplit_words:
  assumes "ws \<noteq> []" "\<forall>w \<in> set ws. 0 \<notin> set w \<and> c \<notin> set w" "c \<noteq> 0" "length pre + length (joined c ws) + length post < 2 ^ 62"
  shows "strsplit a c (length pre) n (put a (pre @ joined c ws @ 0 # post) m) = Some (n + length ws, put a (pre @ joined 0 ws @ 0 # post) m)"
  using assms
proof (induction c ws arbitrary: pre n rule: joined.induct)
  case (2 c w)
  let ?m = "put a (pre @ w @ 0 # post) m"
  have "bytes_at ?m (a + of_nat (length pre)) (length w) = w" using 2 by (intro bytes_at_inside) simp
  moreover have "bytes_at ?m (a + of_nat (length (pre @ w))) (length [0 :: u8]) = [0]"
    using bytes_at_inside [of "pre @ w" "[0]" post a m] 2 by simp
  ultimately have "cstr ?m (a + of_nat (length pre)) w" using 2 by (simp add: cstr_iff bytes_at_def add.assoc)
  then show ?case using 2 by (simp add: strsplit_plain)
next
  case (3 c w v ws)
  let ?r = "joined c (v # ws)" and ?i = "length pre + length w"
  let ?m = "put a (pre @ w @ c # ?r @ 0 # post) m"
  have l: "length pre + length w + 1 + length ?r + length post < 2 ^ 62" using 3(5) by simp
  have "strsplit a c (length pre) n ?m = strsplit a c ?i n ?m"
    using bytes_at_inside [of pre w "c # ?r @ 0 # post" a m] 3 l by (intro strsplit_skip) auto
  also have "\<dots> = strsplit a c (Suc ?i) (Suc n) (put a ((pre @ w @ [0]) @ ?r @ 0 # post) m)"
  proof -
    have "bytes_at ?m (a + of_nat (length (pre @ w))) (length [c]) = [c]" using bytes_at_inside [of "pre @ w" "[c]" "?r @ 0 # post" a m] l by simp
    moreover have "?m(a + of_nat (length (pre @ w)) := 0) = put a ((pre @ w @ [0]) @ ?r @ 0 # post) m"
      using put_write [of "pre @ w" "?r @ 0 # post" a c m 0] l by simp
    ultimately show ?thesis using 3(4) by (subst strsplit.simps) (simp add: bytes_at_def)
  qed
  also have "\<dots> = Some (Suc n + length (v # ws), put a ((pre @ w @ [0]) @ joined 0 (v # ws) @ 0 # post) m)"
    using 3(1) [of "pre @ w @ [0]" "Suc n"] 3(3,4) l by simp
  finally show ?case by simp
qed simp

fun words_at :: "mem \<Rightarrow> u64 \<Rightarrow> u8 list list \<Rightarrow> bool" where
  "words_at m p [] \<longleftrightarrow> True"
| "words_at m p (w # ws) \<longleftrightarrow> cstr m p w \<and> words_at m (p + of_nat (length w) + 1) ws"

lemma words_at_put:
  assumes "\<forall>w \<in> set ws. 0 \<notin> set w" "length pre + length (joined 0 ws) + length post < 2 ^ 62"
  shows "words_at (put a (pre @ joined 0 ws @ 0 # post) m) (a + of_nat (length pre)) ws"
  using assms
proof (induction "0 :: u8" ws arbitrary: pre rule: joined.induct)
  case (2 w)
  have "bytes_at (put a (pre @ w @ 0 # post) m) (a + of_nat (length pre)) (length w) = w" using 2 by (intro bytes_at_inside) simp
  moreover have "bytes_at (put a (pre @ w @ 0 # post) m) (a + of_nat (length (pre @ w))) (length [0 :: u8]) = [0]"
    using bytes_at_inside [of "pre @ w" "[0]" post a m] 2 by simp
  ultimately show ?case using 2 by (simp add: cstr_iff bytes_at_def add.assoc)
next
  case (3 w v ws)
  let ?r = "joined 0 (v # ws)" let ?m = "put a (pre @ w @ 0 # ?r @ 0 # post) m"
  have l: "length pre + length w + 1 + length ?r + length post < 2 ^ 62" using 3(3) by simp
  have "bytes_at ?m (a + of_nat (length pre)) (length w) = w" using l by (intro bytes_at_inside) simp
  moreover have "bytes_at ?m (a + of_nat (length (pre @ w))) (length [0 :: u8]) = [0]" using bytes_at_inside [of "pre @ w" "[0]" "?r @ 0 # post" a m] l by simp
  ultimately have "cstr ?m (a + of_nat (length pre)) w" using 3(2) by (simp add: cstr_iff bytes_at_def add.assoc)
  moreover have "words_at (put a ((pre @ w @ [0]) @ ?r @ 0 # post) m) (a + of_nat (length (pre @ w @ [0]))) (v # ws)" by (rule 3(1)) (use 3(2) l in simp_all)
  ultimately show ?case by (simp add: algebra_simps)
qed simp

lemma memcpy_disjoint:
  assumes "n < 2 ^ 64" "\<And>i j. i < n \<Longrightarrow> j < n \<Longrightarrow> src + of_nat i \<noteq> dst + of_nat j"
  shows "memcpy dst src (of_nat n) m = put dst (bytes_at m src n) m"
proof -
  have "fold (copy_byte dst src) [0..<k] m = put dst (bytes_at m src k) m" if "k \<le> n" for k
    using that
  proof (induction k)
    case (Suc k)
    have "put dst (bytes_at m src k) m (src + of_nat k) = m (src + of_nat k)"
    proof -
      have "dst + of_nat (unat (src + of_nat k - dst)) = src + of_nat k" by simp
      then have "\<not> unat (src + of_nat k - dst) < k" using assms(2) [of k "unat (src + of_nat k - dst)"] Suc.prems by auto
      then show ?thesis by (simp add: put_def)
    qed
    moreover have "put dst (bytes_at m src (Suc k)) m = (put dst (bytes_at m src k) m)(dst + of_nat k := m (src + of_nat k))"
      using put_snoc [of "bytes_at m src k" dst "m (src + of_nat k)" m] Suc.prems assms(1) by (simp add: bytes_at_def)
    ultimately show ?case using Suc by (simp add: copy_byte_def [of dst src k])
  qed (simp add: bytes_at_def)
  moreover have "(\<lambda>i m. m(dst + of_nat i := m (src + of_nat i))) = copy_byte dst src" by (simp add: copy_byte_def fun_eq_iff)
  ultimately show ?thesis using assms(1) by (simp add: memcpy_def unat_of_nat take_bit_nat_eq_self)
qed

text \<open>The array \<open>args_out\<close> and \<open>n\<close> bytes from \<open>p\<close> on have nothing in common.\<close>

definition apart :: "u64 \<Rightarrow> u64 \<Rightarrow> nat \<Rightarrow> bool" where
  "apart args p n \<longleftrightarrow> (\<forall>j < MAX_PATH * MAX_ARGS. \<forall>i < n. p + of_nat i \<noteq> args + of_nat j)"

lemma words_at_cong:
  assumes "words_at m p ws" "\<And>i. i < length (joined 0 ws) + 1 \<Longrightarrow> m' (p + of_nat i) = m (p + of_nat i)"
  shows "words_at m' p ws"
  using assms
proof (induction "0 :: u8" ws arbitrary: p rule: joined.induct)
  case (2 w)
  then show ?case by (auto intro: cstr_cong)
next
  case (3 w v ws)
  have "cstr m' p w" by (rule cstr_cong) (use 3(2,3) in auto)
  moreover have "words_at m' (p + of_nat (length w) + 1) (v # ws)"
  proof (rule 3(1))
    fix i assume i: "i < length (joined 0 (v # ws)) + 1"
    have e: "p + of_nat (length w) + 1 + of_nat i = p + of_nat (length w + 1 + i)" by (simp add: algebra_simps)
    show "m' (p + of_nat (length w) + 1 + of_nat i) = m (p + of_nat (length w) + 1 + of_nat i)"
      unfolding e by (rule 3(3)) (use i in simp)
  qed (use 3(2) in simp)
  ultimately show ?case by simp
qed simp

lemma apart_tail: "apart args p (length (joined 0 (w # ws)) + 1) \<Longrightarrow> ws \<noteq> [] \<Longrightarrow> apart args (p + of_nat (length w) + 1) (length (joined 0 ws) + 1)"
proof -
  assume a: "apart args p (length (joined 0 (w # ws)) + 1)" "ws \<noteq> []"
  have l: "length (joined 0 (w # ws)) = length w + 1 + length (joined 0 ws)" using a(2) by (cases ws) simp_all
  have e: "p + of_nat (length w) + 1 + of_nat i = p + of_nat (length w + 1 + i)" for i by (simp add: algebra_simps)
  show ?thesis
  proof (unfold apart_def, intro allI impI)
    fix i j assume "j < MAX_PATH * MAX_ARGS" "i < length (joined 0 ws) + 1"
    then have "p + of_nat (length w + 1 + i) \<noteq> args + of_nat j" using a(1) [unfolded apart_def, rule_format, of j "length w + 1 + i"] l by linarith
    then show "p + of_nat (length w) + 1 + of_nat i \<noteq> args + of_nat j" by (simp only: e not_False_eq_True)
  qed
qed

lemma len_word:
  assumes "length w < MAX_PATH"
  shows "ucast (of_nat (length w) + 1 :: u64) = (of_nat (length w + 1) :: u32)" "unat (of_nat (length w + 1) :: u32) = length w + 1"
    "ucast (of_nat (length w + 1) :: u32) = (of_nat (length w + 1) :: u64)"
  using assms by (simp_all add: word_unat_eq_iff unsigned_ucast_eq unat_word_ariths unat_of_nat take_bit_eq_mod MAX_PATH_def)

lemma of_nat_differ: "i < j \<Longrightarrow> j < 2 ^ 64 \<Longrightarrow> (of_nat i :: u64) \<noteq> of_nat j"
  by (simp add: word_unat_eq_iff unat_of_nat take_bit_nat_eq_self)

text \<open>Memory that an element of the array, or an element from the \<open>k\<close>-th on, does not include.\<close>

abbreviation outside :: "u64 \<Rightarrow> nat \<Rightarrow> nat \<Rightarrow> u64 \<Rightarrow> bool" where
  "outside args k l x \<equiv> (\<forall>j. MAX_PATH * k \<le> j \<and> j < MAX_PATH * l \<longrightarrow> x \<noteq> args + of_nat j)"

lemma copy_arg:
  fixes m :: mem
  assumes "length w < MAX_PATH" "k < MAX_ARGS" "apart args line n" "length w + 1 \<le> n"
  defines "m1 \<equiv> memcpy (args + of_nat (MAX_PATH * k)) line (of_nat (length w + 1)) m"
  shows "i \<le> length w \<Longrightarrow> m1 (args + of_nat (MAX_PATH * k + i)) = m (line + of_nat i)"
    and "outside args k (Suc k) x \<Longrightarrow> m1 x = m x"
proof -
  let ?a = "args + of_nat (MAX_PATH * k)"
  have w: "length w < 260" using assms(1) by (simp add: MAX_PATH_def)
  have b: "MAX_PATH * k + j < MAX_PATH * MAX_ARGS" if "j < length w + 1" for j
    using that w assms(2) by (simp add: MAX_PATH_def MAX_ARGS_def)
  have m1: "m1 = put ?a (bytes_at m line (length w + 1)) m" unfolding m1_def
  proof (rule memcpy_disjoint)
    fix i j assume "i < length w + 1" "j < length w + 1"
    then show "line + of_nat i \<noteq> ?a + of_nat j"
      using assms(3) [unfolded apart_def, rule_format, of "MAX_PATH * k + j" i] b [of j] assms(4) by (simp add: add.assoc)
  qed (use w in simp)
  show "m1 (args + of_nat (MAX_PATH * k + i)) = m (line + of_nat i)" if "i \<le> length w"
    using that w by (simp add: m1 put_def unat_of_nat take_bit_nat_eq_self flip: add.assoc)
  show "m1 x = m x" if o: "outside args k (Suc k) x"
  proof -
    have "x = args + of_nat (MAX_PATH * k + unat (x - ?a))" by simp
    then have "\<not> MAX_PATH * k + unat (x - ?a) < MAX_PATH * Suc k" using o le_add1 by blast
    then show ?thesis using assms(1) by (simp add: m1 put_def)
  qed
qed

lemma split_args_words:
  assumes "words_at m line ws" "apart args line (length (joined 0 ws) + 1)" "\<forall>w \<in> set ws. length w < MAX_PATH" "k + length ws \<le> MAX_ARGS"
  shows "\<exists>m'. split_args args (length ws) k line m = Inr (True, m') \<and> (\<forall>i < length ws. cstr m' (args + of_nat (MAX_PATH * (k + i))) (ws ! i)) \<and>
     (\<forall>x. outside args k MAX_ARGS x \<longrightarrow> m' x = m x)"
  using assms
proof (induction ws arbitrary: m line k)
  case (Cons w ws)
  let ?n = "length (joined 0 (w # ws)) + 1" and ?p = "line + of_nat (length w) + 1"
  let ?m = "memcpy (args + of_nat (MAX_PATH * k)) line (of_nat (length w + 1)) m"
  have w: "length w < MAX_PATH" "length w < 260" using Cons.prems(3) by (simp_all add: MAX_PATH_def)
  have c: "cstr m line w" "words_at m ?p ws" using Cons.prems(1) by simp_all
  have k: "k < MAX_ARGS" "MAX_PATH * Suc k \<le> MAX_PATH * MAX_ARGS" using Cons.prems(4) by (simp_all add: MAX_PATH_def)
  have n: "length w + 1 \<le> ?n" by (cases ws) simp_all
  note cp = copy_arg [OF w(1) k(1) Cons.prems(2) n]
  have keep: "?m (line + of_nat i) = m (line + of_nat i)" if "i < ?n" for i
    using Cons.prems(2) that k(2) unfolding apart_def by (intro cp(2)) auto
  have "split_args args (length (w # ws)) k line m = split_args args (length ws) (Suc k) ?p ?m"
    using strlen_cstr [of m line 0 w] c(1) len_word [OF w(1)] k w by (simp add: Let_def add.assoc add.commute [of 1])
  moreover have "\<exists>m'. split_args args (length ws) (Suc k) ?p ?m = Inr (True, m') \<and> (\<forall>i < length ws. cstr m' (args + of_nat (MAX_PATH * (Suc k + i))) (ws ! i)) \<and>
     (\<forall>x. outside args (Suc k) MAX_ARGS x \<longrightarrow> m' x = ?m x)"
  proof (cases "ws = []")
    case False
    have "apart args ?p (length (joined 0 ws) + 1)" using Cons.prems(2) False by (rule apart_tail)
    moreover have "words_at ?m ?p ws" using words_at_cong [OF Cons.prems(1), of ?m] keep by simp
    ultimately show ?thesis using Cons.IH [of ?m ?p "Suc k"] Cons.prems(3,4) by simp
  qed simp
  ultimately obtain m' where m': "split_args args (length (w # ws)) k line m = Inr (True, m')"
    "\<forall>i < length ws. cstr m' (args + of_nat (MAX_PATH * (Suc k + i))) (ws ! i)"
    "\<And>x. outside args (Suc k) MAX_ARGS x \<Longrightarrow> m' x = ?m x" by metis
  have "m' (args + of_nat (MAX_PATH * k) + of_nat i) = m (line + of_nat i)" if "i \<le> length w" for i
  proof -
    have "outside args (Suc k) MAX_ARGS (args + of_nat (MAX_PATH * k + i))"
      using of_nat_differ [of "MAX_PATH * k + i"] that w by (auto simp: MAX_PATH_def MAX_ARGS_def)
    from m'(3) [OF this] show ?thesis using cp(1) [OF that] by (simp add: add.assoc)
  qed
  then have "cstr m' (args + of_nat (MAX_PATH * k)) w" by (rule cstr_move [OF c(1)])
  then have "cstr m' (args + of_nat (MAX_PATH * (k + i))) ((w # ws) ! i)" if "i < length (w # ws)" for i
    using that m'(2) [rule_format, of "i - 1"] by (cases i) (simp_all del: of_nat_mult of_nat_add)
  moreover have "m' x = m x" if "outside args k MAX_ARGS x" for x
    using m'(3) [of x] cp(2) [of x] that k(2) by auto
  ultimately show ?case using m'(1) by blast
qed simp

lemma split_args_many:
  assumes "words_at m line ws" "apart args line (length (joined 0 ws) + 1)" "\<forall>w \<in> set ws. length w < MAX_PATH" "MAX_ARGS < k + length ws" "k \<le> MAX_ARGS"
  shows "split_args args (length ws) k line m = Inl Undefined"
  using assms
proof (induction ws arbitrary: m line k)
  case (Cons w ws)
  let ?n = "length (joined 0 (w # ws)) + 1" and ?p = "line + of_nat (length w) + 1"
  let ?m = "memcpy (args + of_nat (MAX_PATH * k)) line (of_nat (length w + 1)) m"
  have w: "length w < MAX_PATH" "length w < 260" using Cons.prems(3) by (simp_all add: MAX_PATH_def)
  have c: "cstr m line w" using Cons.prems(1) by simp
  show ?case
  proof (cases "k = MAX_ARGS")
    case True
    then show ?thesis using strlen_cstr [of m line 0 w] c len_word [OF w(1)] w by (simp add: Let_def)
  next
    case False
    then have k: "k < MAX_ARGS" using Cons.prems(5) by simp
    then have ws: "ws \<noteq> []" using Cons.prems(4) by auto
    have "words_at ?m line (w # ws)"
    proof (rule words_at_cong [OF Cons.prems(1)])
      fix i assume "i < ?n"
      then show "?m (line + of_nat i) = m (line + of_nat i)"
        using Cons.prems(2) k unfolding apart_def by (intro copy_arg(2) [OF w(1) k Cons.prems(2)]) (cases ws; auto simp: MAX_PATH_def MAX_ARGS_def)+
    qed
    then have "split_args args (length ws) (Suc k) ?p ?m = Inl Undefined"
      using Cons.IH [of ?m ?p "Suc k"] apart_tail [OF Cons.prems(2) ws] Cons.prems(3,4) k by simp
    then show ?thesis
      using strlen_cstr [of m line 0 w] c len_word [OF w(1)] k w by (simp add: Let_def add.assoc add.commute [of 1])
  qed
qed simp

section \<open>What the shell does with a line\<close>

text \<open>Words that a line can hold, and that fit into an element of the array.\<close>

definition words_ok :: "u8 list list \<Rightarrow> bool" where
  "words_ok ws \<longleftrightarrow> (\<forall>w \<in> set ws. 0 \<notin> set w \<and> 10 \<notin> set w \<and> 32 \<notin> set w \<and> length w < MAX_PATH)"

lemma joined_Cons: "ws \<noteq> [] \<Longrightarrow> joined c (w # ws) = w @ c # joined c ws"
  by (cases ws) simp_all

lemma line_image_joined:
  "length l < MAX_LINE_SIZE \<Longrightarrow> line_image a l m = put a (l @ 0 # replicate (MAX_LINE_SIZE - 1 - length l) 0) m"
  using line_zero [of l] by simp

text \<open>Both calls of \<open>strsplit\<close>: the first cuts at the spaces, and the second, which looks at the first word only, changes nothing.\<close>

lemma split_words:
  fixes a :: u64 and m :: mem
  assumes "words_ok (w # ws)" "length (joined 32 (w # ws)) < MAX_LINE_SIZE"
  defines "M \<equiv> line_image a (joined 0 (w # ws)) m"
  shows "strsplit a 32 0 0 (line_image a (joined 32 (w # ws)) m) = Some (length ws + 1, M)"
    "strsplit a 10 0 0 M = Some (1, M)" "strlen M a 0 = Some (of_nat (length w))" "words_at M a (w # ws)"
proof -
  let ?z = "replicate (MAX_LINE_SIZE - 1 - length (joined 32 (w # ws))) (0 :: u8)"
  have l: "length (joined 0 (w # ws)) = length (joined 32 (w # ws))" by (rule length_joined)
  have M: "M = put a ([] @ joined 0 (w # ws) @ 0 # ?z) m" unfolding M_def using line_image_joined [of "joined 0 (w # ws)" a m] assms(2) l by simp
  have n: "length (joined 32 (w # ws)) + length ?z < 2 ^ 62" using assms(2) by (simp add: MAX_LINE_SIZE_def)
  show "strsplit a 32 0 0 (line_image a (joined 32 (w # ws)) m) = Some (length ws + 1, M)"
    using strsplit_words [of "w # ws" 32 "[]" ?z a 0 m] assms(1) line_image_joined [OF assms(2), of a m] n M by (simp add: words_ok_def)
  show w: "words_at M a (w # ws)"
    using words_at_put [of "w # ws" "[]" ?z a m] assms(1) n l M by (simp add: words_ok_def)
  then show "strsplit a 10 0 0 M = Some (1, M)" using strsplit_plain [of M a 0 w 10 0] assms(1) by (simp add: words_ok_def)
  show "strlen M a 0 = Some (of_nat (length w))" using strlen_cstr [of M a 0 w] w by simp
qed

lemma apart_le: "apart args p n \<Longrightarrow> k \<le> n \<Longrightarrow> apart args p k"
  by (auto simp: apart_def)

lemma split_line_words:
  assumes "words_ok (w # ws)" "length (joined 32 (w # ws)) < MAX_LINE_SIZE" "apart args a MAX_LINE_SIZE" "length ws \<le> MAX_ARGS"
  shows "\<exists>m'. split_line args a (line_image a (joined 32 (w # ws)) m) = Inr ((if length ws < MAX_ARGS then Some (length ws + 1) else None, a), m') \<and>
     cstr m' a w \<and> (\<forall>i < length ws. cstr m' (args + of_nat (MAX_PATH * i)) (ws ! i))"
proof -
  let ?M = "line_image a (joined 0 (w # ws)) m"
  note sp = split_words [OF assms(1,2)]
  have l: "length (joined 0 (w # ws)) < MAX_LINE_SIZE" using assms(2) length_joined by metis
  have "\<exists>m'. split_args args (length ws) 0 (a + of_nat (length w) + 1) ?M = Inr (True, m') \<and> (\<forall>i < length ws. cstr m' (args + of_nat (MAX_PATH * (0 + i))) (ws ! i)) \<and>
     (\<forall>x. outside args 0 MAX_ARGS x \<longrightarrow> m' x = ?M x)"
  proof (cases "ws = []")
    case False
    have "apart args a (length (joined 0 (w # ws)) + 1)" by (rule apart_le [OF assms(3)]) (use l in simp)
    then show ?thesis using sp(4) assms(1,4) by (intro split_args_words apart_tail) (simp_all add: words_ok_def False)
  qed simp
  then obtain m' where m': "split_args args (length ws) 0 (a + of_nat (length w) + 1) ?M = Inr (True, m')"
    "\<forall>i < length ws. cstr m' (args + of_nat (MAX_PATH * i)) (ws ! i)" "\<And>x. outside args 0 MAX_ARGS x \<Longrightarrow> m' x = ?M x" by auto
  have "cstr m' a w"
  proof (rule cstr_cong)
    fix i assume "i \<le> length w"
    moreover have "length w \<le> length (joined 0 (w # ws))" by (cases ws) simp_all
    ultimately have "outside args 0 MAX_ARGS (a + of_nat i)" using assms(3) l unfolding apart_def by auto
    then show "m' (a + of_nat i) = ?M (a + of_nat i)" by (rule m'(3))
  qed (use sp(4) in simp)
  moreover have "split_line args a (line_image a (joined 32 (w # ws)) m) = Inr ((if length ws < MAX_ARGS then Some (length ws + 1) else None, a), m')"
    unfolding split_line_def sp(1) option.case prod.case sp(2) sp(3) by (simp add: m'(1) Suc_le_eq)
  ultimately show ?thesis using m'(2) by blast
qed

lemma split_line_many:
  assumes "words_ok (w # ws)" "length (joined 32 (w # ws)) < MAX_LINE_SIZE" "apart args a MAX_LINE_SIZE" "MAX_ARGS < length ws"
  shows "split_line args a (line_image a (joined 32 (w # ws)) m) = Inl Undefined"
proof -
  let ?M = "line_image a (joined 0 (w # ws)) m"
  note sp = split_words [OF assms(1,2)]
  have ws: "ws \<noteq> []" using assms(4) by auto
  have "length (joined 0 (w # ws)) < MAX_LINE_SIZE" using assms(2) length_joined by metis
  then have "apart args a (length (joined 0 (w # ws)) + 1)" by (intro apart_le [OF assms(3)]) simp
  then have "split_args args (length ws) 0 (a + of_nat (length w) + 1) ?M = Inl Undefined"
    using sp(4) assms(1,4) ws by (intro split_args_many apart_tail) (simp_all add: words_ok_def)
  then show ?thesis unfolding split_line_def sp(1) option.case prod.case sp(2) sp(3) by simp
qed

text \<open>The arrays of \<open>loop\<close> and the string constant do not overlap.\<close>

definition exit_string :: "u8 list" where
  "exit_string = [101, 120, 105, 116, 10]"

definition frame_ok :: "u64 \<Rightarrow> u64 \<Rightarrow> u64 \<Rightarrow> bool" where
  "frame_ok args a e \<longleftrightarrow> a \<noteq> 0 \<and> apart args a MAX_LINE_SIZE \<and> (\<forall>i \<le> length exit_string. MAX_LINE_SIZE \<le> unat (e + of_nat i - a))"

lemma cstr_line_image: "0 \<notin> set l \<Longrightarrow> length l < MAX_LINE_SIZE \<Longrightarrow> cstr (line_image a l m) a l"
  using words_at_put [of "[l]" "[]" "replicate (MAX_LINE_SIZE - 1 - length l) 0" a m] line_image_joined [of l a m]
  by (simp add: MAX_LINE_SIZE_def)

lemma exit_string_kept:
  assumes "frame_ok args a e" "cstr m e exit_string" "length l \<le> MAX_LINE_SIZE"
  shows "cstr (line_image a l m) e exit_string"
proof (rule cstr_cong [OF assms(2)])
  fix i assume "i \<le> length exit_string"
  then have "\<not> unat (e + of_nat i - a) < MAX_LINE_SIZE" using assms(1) by (simp add: frame_ok_def not_less)
  then show "line_image a l m (e + of_nat i) = m (e + of_nat i)" using assms(3) by (simp add: put_def)
qed

lemma not_exit:
  assumes "frame_ok args a e" "cstr m e exit_string" "0 \<notin> set l" "10 \<notin> set l" "length l < MAX_LINE_SIZE"
  shows "\<exists>r. strcmp (line_image a l m) a e = Some r \<and> r \<noteq> 0"
proof -
  have "l \<noteq> exit_string" using assms(4) by (auto simp: exit_string_def)
  then show ?thesis using strcmp_cstr [OF cstr_line_image [OF assms(3,5), of a m] exit_string_kept [OF assms(1,2), of l]] assms(5) by auto
qed

lemma read_line_edit:
  "a \<noteq> 0 \<Longrightarrow> edit [] ks = Some l \<Longrightarrow> read_line a (ks @ 10 # rest) m = Inr ((length l, filter (\<lambda>c. c \<noteq> 0) ks @ [10], rest), line_image a l m)"
  using read_line_loop_edit [of "[]" ks l a "[]" rest m] memset_put [of MAX_LINE_SIZE a m] by (simp add: read_line_def MAX_LINE_SIZE_def)

lemma read_line_loop_result:
  assumes "read_line_loop a (length l) out ks (line_image a l m) = Inr ((n, out', ks'), m')" "0 \<notin> set l" "10 \<notin> set l" "n \<noteq> 0"
  shows "\<exists>l'. m' = line_image a l' m \<and> 0 \<notin> set l' \<and> 10 \<notin> set l' \<and> length l' < MAX_LINE_SIZE - 1"
  using assms(1-3)
proof (induction ks arbitrary: l out)
  case Nil
  then show ?case using assms(4) by (subst (asm) read_line_loop.simps) (simp split: if_splits)
next
  case (Cons c ks)
  have s: "length l < MAX_LINE_SIZE - 1" using Cons.prems(1) assms(4) by (subst (asm) read_line_loop.simps) (simp split: if_splits)
  consider "c = 0" | "c = 10" | "c = 8" | "c \<noteq> 0" "c \<noteq> 8" "c \<noteq> 10" by blast
  then show ?case
  proof cases
    case 1
    then show ?thesis using Cons read_line_loop_skip [OF s] by simp
  next
    case 2
    then show ?thesis using Cons.prems s by (subst (asm) read_line_loop.simps) auto
  next
    case 3
    then have "l \<noteq> []" using Cons.prems(1) s by (subst (asm) read_line_loop.simps) (auto split: if_splits)
    then obtain k x where l: "l = k @ [x]" by (cases l rule: rev_cases) auto
    have "read_line_loop a (length k) (out @ [8]) ks (line_image a k m) = Inr ((n, out', ks'), m')"
      using Cons.prems(1) 3 s image_erase [of k a x m] by (subst (asm) read_line_loop.simps) (simp add: l)
    then show ?thesis using Cons.IH Cons.prems(2,3) by (simp add: l)
  next
    case 4
    have "read_line_loop a (length (l @ [c])) (out @ [c]) ks (line_image a (l @ [c]) m) = Inr ((n, out', ks'), m')"
      using Cons.prems(1) 4 s image_type [of l a m c] by (subst (asm) read_line_loop.simps) simp
    then show ?thesis by (rule Cons.IH) (use Cons.prems(2,3) 4 in auto)
  qed
qed

section \<open>The array for the system call\<close>

text \<open>The array with the words \<open>ws\<close>: each in an element of its own, filled up with zeros.\<close>

definition padded :: "u8 list \<Rightarrow> u8 list" where
  "padded w = w @ replicate (MAX_PATH - length w) 0"

definition arg_image :: "u8 list list \<Rightarrow> u8 list" where
  "arg_image ws = concat (map padded ws) @ replicate (ARG_ARRAY_SIZE - MAX_PATH * length ws) 0"

definition array_apart :: "u64 \<Rightarrow> u64 \<Rightarrow> nat \<Rightarrow> bool" where
  "array_apart arr p n \<longleftrightarrow> (\<forall>i < n. ARG_ARRAY_SIZE \<le> unat (p + of_nat i - arr))"

lemma length_padded: "length w \<le> MAX_PATH \<Longrightarrow> length (padded w) = MAX_PATH"
  by (simp add: padded_def)

lemma length_words: "\<forall>w \<in> set ws. length w < MAX_PATH \<Longrightarrow> length (concat (map padded ws)) = MAX_PATH * length ws"
  by (induction ws) (simp_all add: length_padded less_imp_le)

lemma put_over:
  assumes "length ys \<le> length zs" "length xs + length zs < 2 ^ 63"
  shows "put (a + of_nat (length xs)) ys (put a (xs @ zs) m) = put a (xs @ ys @ drop (length ys) zs) m"
proof
  fix z
  let ?d = "unat (z - a)" and ?e = "unat (z - (a + of_nat (length xs)))"
  have n: "unat (of_nat (length xs) :: u64) = length xs" using assms(2) by (simp add: unat_of_nat take_bit_nat_eq_self)
  have d: "z - (a + of_nat (length xs)) = z - a - of_nat (length xs)" by (simp add: diff_diff_add)
  have e: "?e = (if length xs \<le> ?d then ?d - length xs else ?d + 2 ^ 64 - length xs)"
    unfolding d using unat_sub_if' [of "z - a" "of_nat (length xs)"] n by simp
  have "?e < length ys \<longleftrightarrow> length xs \<le> ?d \<and> ?d < length xs + length ys" "length xs \<le> ?d \<Longrightarrow> ?e = ?d - length xs"
    using assms unfolding e by auto
  then show "put (a + of_nat (length xs)) ys (put a (xs @ zs) m) z = put a (xs @ ys @ drop (length ys) zs) m z"
    using assms by (auto simp: put_def nth_append)
qed

lemma put_apart: "length bs \<le> unat (x - a) \<Longrightarrow> put a bs m x = m x"
  by (simp add: put_def)

lemma copy_string_word:
  assumes "cstr m src w" "length w < MAX_PATH" "array_apart arr src (length w + 1)" "length pre + MAX_PATH \<le> ARG_ARRAY_SIZE"
  defines "M \<equiv> put arr (pre @ replicate (ARG_ARRAY_SIZE - length pre) 0) m"
  shows "copy_string arr (length pre) src M = Inr (put arr ((pre @ padded w) @ replicate (ARG_ARRAY_SIZE - length (pre @ padded w)) 0) m)"
proof -
  let ?z = "replicate (ARG_ARRAY_SIZE - length pre) (0 :: u8)"
  have n: "ARG_ARRAY_SIZE = 4160" "MAX_PATH = 260" "length w < 260" "length pre + 260 \<le> 4160"
    using assms(2,4) by (simp_all add: ARG_ARRAY_SIZE_def MAX_PATH_def)
  have same: "M (src + of_nat i) = m (src + of_nat i)" if "i < length w + 1" for i
    unfolding M_def using assms(3) that n by (intro put_apart) (simp add: array_apart_def)
  then have c: "cstr M src w" by (intro cstr_cong [OF assms(1)]) simp
  have l: "strlen M src 0 = Some (of_nat (length w))" "unat (of_nat (length w) :: u64) = length w"
    using strlen_cstr [of M src 0 w] c n(3) by (simp_all add: unat_of_nat take_bit_nat_eq_self)
  have "memcpy (arr + of_nat (length pre)) src (of_nat (length w)) M = put (arr + of_nat (length pre)) (bytes_at M src (length w)) M"
  proof (rule memcpy_disjoint)
    fix i j assume i: "i < length w" and j: "j < length w"
    have "unat (of_nat (length pre + j) :: u64) = length pre + j" using n j by (simp add: unat_of_nat take_bit_nat_eq_self del: of_nat_add)
    then have "unat (arr + of_nat (length pre) + of_nat j - arr) < 4160" using n j by simp
    moreover have "4160 \<le> unat (src + of_nat i - arr)" using assms(3) i n(1) by (simp add: array_apart_def)
    ultimately show "src + of_nat i \<noteq> arr + of_nat (length pre) + of_nat j" by auto
  qed (use n in simp)
  also have "\<dots> = put arr (pre @ w @ drop (length w) ?z) m"
    unfolding M_def using c [unfolded cstr_iff M_def] n by (subst put_over) simp_all
  also have "pre @ w @ drop (length w) ?z = (pre @ padded w) @ replicate (ARG_ARRAY_SIZE - length (pre @ padded w)) 0"
    using n by (simp add: padded_def flip: replicate_add)
  finally show ?thesis using l n by (simp add: copy_string_def)
qed

lemma exec_args_words:
  assumes "\<And>i. i < length ws \<Longrightarrow> cstr m (args + of_nat (MAX_PATH * (k + i))) (ws ! i)" "\<forall>w \<in> set ws. length w < MAX_PATH"
    "array_apart arr args (MAX_PATH * MAX_ARGS)" "k + length ws \<le> MAX_ARGS" "length pre = MAX_PATH * Suc k"
  shows "exec_args arr args [Suc k..<Suc (k + length ws)] (put arr (pre @ replicate (ARG_ARRAY_SIZE - length pre) 0) m) =
     Inr (put arr ((pre @ concat (map padded ws)) @ replicate (ARG_ARRAY_SIZE - length (pre @ concat (map padded ws))) 0) m)"
  using assms
proof (induction ws arbitrary: k pre)
  case (Cons w ws)
  have w: "length w < MAX_PATH" "length w < 260" using Cons.prems(2) by (simp_all add: MAX_PATH_def)
  have k: "k < 15" using Cons.prems(4) by (simp add: MAX_ARGS_def)
  have "array_apart arr (args + of_nat (MAX_PATH * k)) (length w + 1)"
    unfolding array_apart_def
  proof (intro allI impI)
    fix i assume "i < length w + 1"
    then have "MAX_PATH * k + i < MAX_PATH * MAX_ARGS" using w k by (simp add: MAX_PATH_def MAX_ARGS_def)
    then show "ARG_ARRAY_SIZE \<le> unat (args + of_nat (MAX_PATH * k) + of_nat i - arr)"
      using Cons.prems(3) [unfolded array_apart_def, rule_format, of "MAX_PATH * k + i"] by (simp add: add.assoc)
  qed
  moreover have "cstr m (args + of_nat (MAX_PATH * k)) w" using Cons.prems(1) [of 0] by simp
  moreover have "length pre + MAX_PATH \<le> ARG_ARRAY_SIZE" using k Cons.prems(5) by (simp add: ARG_ARRAY_SIZE_def MAX_PATH_def)
  ultimately have "copy_string arr (length pre) (args + of_nat (MAX_PATH * k)) (put arr (pre @ replicate (ARG_ARRAY_SIZE - length pre) 0) m) =
     Inr (put arr ((pre @ padded w) @ replicate (ARG_ARRAY_SIZE - length (pre @ padded w)) 0) m)" using w(1) by (intro copy_string_word)
  moreover have "exec_args arr args [Suc (Suc k)..<Suc (Suc k + length ws)] (put arr ((pre @ padded w) @ replicate (ARG_ARRAY_SIZE - length (pre @ padded w)) 0) m) =
     Inr (put arr (((pre @ padded w) @ concat (map padded ws)) @ replicate (ARG_ARRAY_SIZE - length ((pre @ padded w) @ concat (map padded ws))) 0) m)"
    using Cons.prems(1) [of "Suc _"] Cons.prems(2-5) w(1) by (intro Cons.IH) (simp_all add: length_padded)
  moreover have "[Suc k..<Suc (k + length (w # ws))] = Suc k # [Suc (Suc k)..<Suc (Suc k + length ws)]" by (subst upt_conv_Cons) simp_all
  ultimately show ?case using Cons.prems(5) by simp
qed simp

section \<open>Properties\<close>

lemma apart_above:
  assumes "unat p + n \<le> unat args" "unat args + MAX_PATH * MAX_ARGS < 2 ^ 64"
  shows "apart args p n"
  unfolding apart_def
proof (intro allI impI)
  fix j i assume j: "j < MAX_PATH * MAX_ARGS" and i: "i < n"
  have "unat (p + of_nat i) = unat p + i" using assms i j by (subst unat_word_ariths) (simp add: unat_of_nat take_bit_nat_eq_self)
  moreover have "unat (args + of_nat j) = unat args + j" using assms j by (subst unat_word_ariths) (simp add: unat_of_nat take_bit_nat_eq_self)
  ultimately show "p + of_nat i \<noteq> args + of_nat j" using assms(1) i by (metis add_less_cancel_left le_add1 less_le_trans not_less)
qed

text \<open>A process whose line buffer is at \<open>0x10000\<close>, its array of arguments at \<open>0x20000\<close> and its string constant at \<open>0x400000\<close>.\<close>

definition example_memory :: mem where
  "example_memory = put 0x400000 (exit_string @ [0]) (\<lambda>_. 0)"

lemma example_frame: "frame_ok 0x20000 0x10000 0x400000" "cstr example_memory 0x400000 exit_string"
proof -
  have "MAX_LINE_SIZE \<le> unat (0x400000 + of_nat i - 0x10000 :: u64)" if "i \<le> length exit_string" for i
  proof -
    have "i \<in> {0, 1, 2, 3, 4, 5}" using that by (auto simp: exit_string_def)
    then show ?thesis by (auto simp: MAX_LINE_SIZE_def)
  qed
  moreover have "apart 0x20000 0x10000 MAX_LINE_SIZE" by (rule apart_above) (simp_all add: MAX_LINE_SIZE_def MAX_PATH_def MAX_ARGS_def)
  ultimately show "frame_ok 0x20000 0x10000 0x400000" by (simp add: frame_ok_def)
  show "cstr example_memory 0x400000 exit_string" by (simp add: example_memory_def exit_string_def put_def)
qed

text \<open>C24: The shell understands a line: when the keys up to the newline edit an empty line (characters append, backspaces erase) to
  at most \<open>MAX_ARGS\<close> words with single spaces between them, none of them longer than a path may be, a turn of the loop starts the first
  word as a program, with the number of words as its count, the other words as strings in the elements of the array \<open>args\<close>, in order,
  and with the keys after the newline left for the next turn.\<close>

theorem loop_turn_runs_words:
  assumes "frame_ok args a e" "cstr m e exit_string" "edit [] ks = Some (joined 32 (w # ws))" "joined 32 (w # ws) \<noteq> []"
    "words_ok (w # ws)" "length ws < MAX_ARGS"
  shows "\<exists>m'. loop_turn args a e (ks @ 10 # rest) m = Inr ((Run a (length ws + 1) m', rest), clear_line args a m') \<and>
     cstr m' a w \<and> (\<forall>i < length ws. cstr m' (args + of_nat (MAX_PATH * i)) (ws ! i))"
proof -
  let ?l = "joined 32 (w # ws)"
  have l: "0 \<notin> set ?l" "10 \<notin> set ?l" "length ?l < MAX_LINE_SIZE" using edit_properties [OF assms(3)] by (simp_all add: MAX_LINE_SIZE_def)
  have f: "a \<noteq> 0" "apart args a MAX_LINE_SIZE" using assms(1) by (simp_all add: frame_ok_def)
  obtain r where r: "strcmp (line_image a ?l m) a e = Some r" "r \<noteq> 0" using not_exit [OF assms(1,2) l] by blast
  obtain m' where m': "split_line args a (line_image a ?l m) = Inr ((Some (length ws + 1), a), m')" "cstr m' a w"
    "\<forall>i < length ws. cstr m' (args + of_nat (MAX_PATH * i)) (ws ! i)"
    using split_line_words [OF assms(5) l(3) f(2), of m] assms(6) by auto
  have "loop_turn args a e (ks @ 10 # rest) m = Inr ((Run a (length ws + 1) m', rest), clear_line args a m')"
    unfolding loop_turn_def read_line_edit [OF f(1) assms(3)] using assms(4) r m'(1) by simp
  then show ?thesis using m'(2,3) by blast
qed

theorem loop_turn_runs_words_witness:
  "\<exists>m'. loop_turn 0x20000 0x10000 0x400000 ([108, 0, 120, 8, 115, 32, 97, 98] @ 10 # [99]) example_memory =
     Inr ((Run 0x10000 (Suc (Suc 0)) m', [99]), clear_line 0x20000 0x10000 m') \<and> cstr m' 0x10000 [108, 115] \<and> cstr m' 0x20000 [97, 98]"
  using loop_turn_runs_words [OF example_frame, of "[108, 0, 120, 8, 115, 32, 97, 98]" "[108, 115]" "[[97, 98]]" "[99]"]
  by (simp add: words_ok_def MAX_LINE_SIZE_def MAX_PATH_def MAX_ARGS_def)

text \<open>C35: The shell cannot be left: \<open>read_line\<close> never puts the newline into the buffer, and the loop compares the buffer with
  "exit" and a newline, so no sequence of keys makes a turn leave the loop.\<close>

theorem loop_turn_never_leaves:
  assumes "frame_ok args a e" "cstr m e exit_string"
  shows "loop_turn args a e ks m \<noteq> Inr ((Leave, ks'), m')"
proof (cases "read_line a ks m")
  case (Inr q)
  obtain n out ks1 m1 where q: "q = ((n, out, ks1), m1)" by (cases q) auto
  have "\<exists>r. strcmp m1 a e = Some r \<and> r \<noteq> 0" if "n \<noteq> 0"
  proof -
    have "read_line_loop a (length []) [] ks (line_image a [] m) = Inr ((n, out, ks1), m1)"
      using Inr memset_put [of MAX_LINE_SIZE a m] by (simp add: read_line_def q MAX_LINE_SIZE_def split: if_splits)
    from read_line_loop_result [OF this _ _ that] show ?thesis using not_exit [OF assms] by (auto simp: MAX_LINE_SIZE_def)
  qed
  then show ?thesis by (auto simp: loop_turn_def Inr q split: sum.splits option.splits)
qed (simp add: loop_turn_def)

theorem loop_turn_never_leaves_witness:
  "loop_turn 0x20000 0x10000 0x400000 [101, 120, 105, 116, 10] example_memory \<noteq> Inr ((Leave, []), clear_line 0x20000 0x10000 example_memory)"
  by (rule loop_turn_never_leaves [OF example_frame])

text \<open>C36: The array of arguments overflows: \<open>split_line\<close> copies every word of the line and looks at \<open>MAX_ARGS\<close> only afterwards, so a
  line with more than \<open>MAX_ARGS\<close> words after the first makes the shell write behind its array.\<close>

theorem loop_turn_args_overflow:
  assumes "frame_ok args a e" "cstr m e exit_string" "edit [] ks = Some (joined 32 (w # ws))" "words_ok (w # ws)" "MAX_ARGS < length ws"
  shows "loop_turn args a e (ks @ 10 # rest) m = Inl Undefined"
proof -
  let ?l = "joined 32 (w # ws)"
  have l: "0 \<notin> set ?l" "10 \<notin> set ?l" "length ?l < MAX_LINE_SIZE" using edit_properties [OF assms(3)] by (simp_all add: MAX_LINE_SIZE_def)
  have f: "a \<noteq> 0" "apart args a MAX_LINE_SIZE" using assms(1) by (simp_all add: frame_ok_def)
  obtain r where r: "strcmp (line_image a ?l m) a e = Some r" "r \<noteq> 0" using not_exit [OF assms(1,2) l] by blast
  have "?l \<noteq> []" using assms(5) by (cases ws) simp_all
  then show ?thesis unfolding loop_turn_def read_line_edit [OF f(1) assms(3)]
    using r split_line_many [OF assms(4) l(3) f(2) assms(5), of m] by simp
qed

lemma edit_plain: "0 \<notin> set ks \<Longrightarrow> 8 \<notin> set ks \<Longrightarrow> 10 \<notin> set ks \<Longrightarrow> length l + length ks < MAX_LINE_SIZE - 1 \<Longrightarrow> edit l ks = Some (l @ ks)"
  by (induction ks arbitrary: l) auto

theorem loop_turn_args_overflow_witness:
  "loop_turn 0x20000 0x10000 0x400000 (joined 32 ([97] # [[98], [98], [98], [98], [98], [98], [98], [98], [98], [98], [98], [98], [98], [98], [98], [98]]) @ 10 # []) example_memory = Inl Undefined"
proof (rule loop_turn_args_overflow [OF example_frame])
  show "edit [] (joined 32 ([97] # [[98], [98], [98], [98], [98], [98], [98], [98], [98], [98], [98], [98], [98], [98], [98], [98]])) = Some (joined 32 ([97] # [[98], [98], [98], [98], [98], [98], [98], [98], [98], [98], [98], [98], [98], [98], [98], [98]]))"
    by (subst edit_plain) (simp_all add: MAX_LINE_SIZE_def)
qed (simp_all add: words_ok_def MAX_PATH_def MAX_ARGS_def)

end
