(* ===== verification/Spec2Isabelle.thy ===== *)
theory Spec2Isabelle
  imports Spin_Protocol Sched_Protocol Ext2_Limits Boot Shell
begin

text \<open>
  A verification development for swagOS, an x86-64 hobby kernel written in C (src/src/kernel, with its C library in
  src/src/libc and programs in src/src/user).

  \<^bold>\<open>The program.\<close> The kernel boots from multiboot, builds a physical memory manager, its own page tables and a
  buddy heap, starts the other CPUs, and runs threads under a round-robin scheduler driven by the APIC timer. User
  processes are created from ELF files, forked and replaced by \<open>exec\<close>; they reach the kernel through one system
  call interrupt. A framebuffer terminal, a PS/2 keyboard, an IDE disk and an ext2 file system complete it. All
  state hangs off one global, \<open>global_Settings\<close>, and is guarded by spinlocks.

  \<^bold>\<open>How code is modelled.\<close> A kernel function is a function from a state record to \<open>fault + result \<times> state\<close>
  (theory \<open>Prelude\<close>): \<open>Panic\<close> is a call of \<open>panic\<close>, \<open>Spin\<close> waiting for a lock another CPU holds, \<open>Diverge\<close> a loop
  that does not end, \<open>Undefined\<close> behaviour that C leaves undefined. The state records extend each other in the order
  in which the components build on each other: \<open>smp\<close> (CPUs, locks, addresses the linker chose), \<open>dll\<close> (list
  pointers), \<open>kheap\<close>, \<open>pmm\<close>, \<open>paging\<close> (64-bit words of page tables), \<open>proc\<close> (process and thread tables), \<open>user\<close>
  (bytes of user memory), \<open>io\<close> (console and keyboard), \<open>bio\<close> (buffers and the disk controller), \<open>ext2\<close> (bytes of kernel memory and the
  mounted file system), \<open>plat\<close> (firmware tables, interrupt controllers, timers) and \<open>kernel\<close> (what only the boot needs). Machine
  integers are words of the width C gives them.
  Sequential functions are run by the CPU \<open>lapic_id\<close> names; what several CPUs do in interleaved steps is an
  inductive step relation (\<open>Spin_Protocol\<close>, \<open>Sched_Protocol\<close>, \<open>Disk_Protocol\<close>).

  \<^bold>\<open>Theories and sources.\<close>
  \<^item> \<open>Cpu\<close>, \<open>Spin_Protocol\<close>: kernel/cpu.c, kernel/spinlock.c. The lock operations as whole functions and, step by
    step, on any number of CPUs: mutual exclusion, and the false deadlock report on a lock that was never initialised.
  \<^item> \<open>Linked_List\<close>: data_structures/linked_list.c on an explicit pointer store; lists built at the tail are queues,
    lists built at the head are stacks whose middle cannot be unlinked.
  \<^item> \<open>Kernel_Heap\<close>: mem/vmm.c. The tree invariant, disjointness of all blocks \<open>kalloc\<close> returns, when it succeeds, and
    what is wrong: \<open>kfree\<close> frees nothing, a failing \<open>kalloc\<close> keeps its lock, a missing \<open>return\<close>.
  \<^item> \<open>Pmm\<close>, \<open>Small_Pages\<close>: the allocators of 2 MB and 4 KB frames in mem/pmm.c, refining the choice of the lowest
    free frame, with disjointness over any sequence of requests.
  \<^item> \<open>Paging\<close>, \<open>User_Paging\<close>: the page tables of the kernel and of a process (mem/pmm.c, kernel/proc.c) and the accesses
    of system calls to user memory (arch/x86_64/syscalls.c). Mapping and the processor's walk agree; what
    \<open>WriteStruct\<close> stores \<open>FetchStruct\<close> reads back.
  \<^item> \<open>Process_Table\<close>, \<open>Scheduler\<close>, \<open>Sched_Protocol\<close>: kernel/proc.c, kernel/scheduler.c, kernel/sleeplock.c and the
    int3 and timer entries of arch/x86_64/idt.c. One scheduling decision is round robin and saves and restores
    contexts; no ready thread starves; a thread runs on one CPU at a time in every interleaving; a sleeping thread
    can be lost.
  \<^item> \<open>Process_Life\<close>: creation, fork, exec and release of processes (kernel/proc.c) and fs/elf_load.c. Releasing the
    threads of a process ends and kills exactly them.
  \<^item> \<open>Libc\<close>: src/src/libc. \<open>memmove\<close> is right for overlapping ranges; \<open>itoa\<close> writes a text that denotes its argument.
  \<^item> \<open>Terminal\<close>, \<open>Keyboard\<close>: drivers/terminal.c, drivers/video.c, drivers/ps2_keyboard.c. The terminal refines a text
    buffer of fixed size for every string; the cursor leaves the framebuffer after the last cell.
  \<^item> \<open>Syscalls\<close>: arch/x86_64/syscalls.c. The heap search of \<open>sbrk\<close> is first fit, but a run across a bitmap word is never
    mapped; a second \<open>open\<close> writes outside the descriptor array; the dispatcher returns to the page table it came from.

  \<^item> \<open>Buffer_Cache\<close>, \<open>Disk_Protocol\<close>, \<open>Disk_Read\<close>: fs/buffered_io.c and drivers/ide.c, with the registers and the sectors of the disk.
    In every interleaving of look-ups, requests, interrupts and releases (\<open>disk_step\<close>) a block has one buffer and valid buffers hold
    what is on the disk, unless the disk reports an error; \<open>bread\<close> returns when the disk answers. \<open>Heap_Blocks\<close> has the facts on
    \<open>kalloc\<close> that requests and files need.
  \<^item> \<open>Ext2\<close> is fs/ext2.c and fs/vfs.c; \<open>Ext2_Read\<close>, \<open>Ext2_Dir\<close>, \<open>Ext2_Files\<close>, \<open>Ext2_Mount\<close> and \<open>Ext2_Boot\<close> prove, from a block upwards,
    that mounting a well-formed disk succeeds, that looking up a name of the root directory is looking it up in the list of its
    entries, and that reading a file returns its bytes; \<open>Ext2_Limits\<close> shows that files in other directories are not found.
  \<^item> \<open>Firmware\<close>: boot/multiboot.c, arch/x86_64/acpi.c and the memory map of mem/pmm.c. The frames of the available ranges are freed
    and the CPUs and I/O APICs of the MADT registered; a table followed by zeros makes the parser hang.
  \<^item> \<open>Interrupts\<close>: arch/x86_64/idt.c, arch/x86_64/apic.c. The descriptors, the redirection entries and the calibration of the timer,
    which ends when the timer interrupts arrive.
  \<^item> \<open>Boot\<close>: kernel/kernel.c and the rest of kernel/cpu.c. \<open>kernel_main\<close> is the composition of the functions of the other theories;
    the tables of the higher half translate as intended, and the structure for a starting CPU arrives as it was written.
  \<^item> \<open>C_Strings\<close>, \<open>Shell\<close>: strings in memory, and the shell (src/src/user/prog/shell.c). A line is edited, cut into words and run as
    typed; the shell cannot be left, and too many words overflow its array.

  \<^bold>\<open>Interfaces.\<close> \<open>transition_system\<close> (reachability and invariants), \<open>critical_section\<close> (a lock and what it guards),
  \<open>allocator\<close> (disjointness over sequences of requests), \<open>stepwise\<close> (an operation that implements an abstract step)
  are locales of \<open>Prelude\<close>, \<open>pointer_list\<close> one of \<open>Linked_List\<close>, \<open>tick_source\<close> (interrupts that count
  up to a target) one of \<open>Interrupts\<close>; each is interpreted on the operations of the kernel
  in the theory that provides them, and the properties rest on the facts these interpretations give.

  \<^bold>\<open>Loops.\<close> Loops whose end depends on pointers or on data are \<open>partial_function (option)\<close>, with \<open>None\<close> turned into
  \<open>Diverge\<close>; where a property says that such a loop ends, this is proved. All other loops are total functions with
  a termination proof or run over a finite list of counter values; no fuel is used.

  \<^bold>\<open>Parameters.\<close> System calls use the file system through the record \<open>fs\<close> of its entry points. What happens while a thread sleeps is
  the argument \<open>int3\<close> of the disk and file operations, which \<open>Disk_Read\<close> instantiates with the interrupt of the disk; what the hardware
  and the other CPUs do while a CPU waits, the symbols of the assembly files, the contents of uninitialised locals, the scan codes of
  the keyboard and the glyphs of the font are arguments as well. \<open>no_return\<close> in the heap state is the value a caller reads when a
  function ends without \<open>return\<close>.

  \<^bold>\<open>Not modelled.\<close> Serial output and the texts of \<open>panic\<close> have no effect on the state. drivers/ahci.c and drivers/pci.c are never
  called by the kernel. The assembly files (boot.asm, smp_boot.asm, isr.asm, multiboot.asm) are not C; their effect is stated where C
  code relies on it. Of the user programs only the shell has logic of its own; \<open>ls\<close>, \<open>cat\<close> and the others are sequences of system calls,
  whose kernel side is in \<open>Syscalls\<close>. The font of include/drivers/font.h is data.
\<close>

end
